(* ===== verification/Lab_Prelude.thy ===== *)
theory Lab_Prelude
  imports Complex_Main "HOL-Library.AList"
begin

text \<open>
  Shared vocabulary of the development: the types that stand for the Rust types the lab's
  crates use everywhere, the finite map that stands for \<open>HashMap\<close> and \<open>BTreeMap\<close>, the
  two generic interfaces (a key-value store, a guarded state machine) that several
  components implement, and list lemmas the components share.

  \<^item> \<open>f64\<close> is a real number: rounding, NaN and the infinities are outside the model, a
    place where the code relies on an infinity says so in its own type.
  \<^item> An instant is the number of nanoseconds since the epoch, a span a number of
    nanoseconds, which is the resolution of \<open>DateTime<Utc>\<close> and \<open>Duration\<close>.
  \<^item> A \<open>HashMap<String, V>\<close> is an association list without repeated keys; its list order
    is the (unspecified) iteration order, so a theorem for every list holds for every
    iteration order.
  \<^item> A panic is \<open>None\<close> of an option type.
\<close>

named_theorems hm_simps \<open>lookup after update in the finite maps\<close>
named_theorems time_simps \<open>unfolding the arithmetic of spans\<close>
named_theorems lever_simps \<open>unfolding the lever operations of the arbiter\<close>

type_synonym f64 = real
type_synonym instant = int
type_synonym span = int
type_synonym uuid = nat
type_synonym 'v hmap = "(string \<times> 'v) list"

section \<open>Spans\<close>

definition trunc_div :: "int \<Rightarrow> int \<Rightarrow> int" where
  "trunc_div a b = sgn a * sgn b * (\<bar>a\<bar> div \<bar>b\<bar>)"

definition num_milliseconds :: "span \<Rightarrow> int" where
  "num_milliseconds d = trunc_div d 1000000"

definition num_seconds :: "span \<Rightarrow> int" where
  "num_seconds d = trunc_div d 1000000000"

definition seconds :: "int \<Rightarrow> span" where
  "seconds n = n * 1000000000"

definition milliseconds :: "int \<Rightarrow> span" where
  "milliseconds n = n * 1000000"

definition whole_ms :: "instant \<Rightarrow> bool" where
  "whole_ms t \<longleftrightarrow> 1000000 dvd t"

lemma trunc_div_pos [time_simps]: "0 \<le> a \<Longrightarrow> 0 < b \<Longrightarrow> trunc_div a b = a div b"
  by (cases "a = 0") (auto simp: trunc_div_def)

lemma num_milliseconds_of_ms [simp]: "num_milliseconds (milliseconds n) = n"
proof -
  have "\<bar>n * 1000000\<bar> div 1000000 = \<bar>n\<bar>"
    by (simp add: abs_mult)
  then show ?thesis
    by (simp add: num_milliseconds_def milliseconds_def trunc_div_def sgn_mult mult_sgn_abs)
qed

lemma num_ms_seconds: "num_milliseconds (seconds n) = 1000 * n"
  using num_milliseconds_of_ms [of "1000 * n"] by (simp add: seconds_def milliseconds_def algebra_simps)

lemma num_seconds_of_seconds [simp]: "num_seconds (seconds n) = n"
proof -
  have "\<bar>n * 1000000000\<bar> div 1000000000 = \<bar>n\<bar>"
    by (simp add: abs_mult)
  then show ?thesis
    by (simp add: num_seconds_def seconds_def trunc_div_def sgn_mult mult_sgn_abs)
qed

lemma num_milliseconds_exact:
  assumes "whole_ms a" and "whole_ms b"
  shows "real_of_int (num_milliseconds (b - a)) = real_of_int (b - a) / 1000000"
proof -
  from assms have "1000000 dvd b - a" by (simp add: whole_ms_def)
  then obtain k where k: "b - a = milliseconds k"
    by (auto simp: milliseconds_def elim: dvdE)
  show ?thesis
    unfolding k by (subst num_milliseconds_of_ms) (simp add: milliseconds_def)
qed

lemma num_milliseconds_nonneg: "0 \<le> d \<Longrightarrow> 0 \<le> num_milliseconds d"
  by (simp add: num_milliseconds_def time_simps pos_imp_zdiv_nonneg_iff)

section \<open>Casts\<close>

text \<open>A cast of an \<open>f64\<close> to a signed 64-bit integer: towards zero, saturating.\<close>

definition f64_as_i64 :: "f64 \<Rightarrow> int" where
  "f64_as_i64 x =
     max (- (2 ^ 63)) (min (2 ^ 63 - 1) (if 0 \<le> x then \<lfloor>x\<rfloor> else \<lceil>x\<rceil>))"

lemma f64_as_i64_nonneg: "0 \<le> x \<Longrightarrow> 0 \<le> f64_as_i64 x"
  by (simp add: f64_as_i64_def)

lemma f64_as_i64_less:
  assumes "0 \<le> x" and "x < of_int n"
  shows "f64_as_i64 x < n"
proof -
  have "\<lfloor>x\<rfloor> < n" using assms by (simp add: floor_less_iff)
  moreover have "0 \<le> \<lfloor>x\<rfloor>" using assms by simp
  ultimately show ?thesis using assms by (simp add: f64_as_i64_def)
qed

section \<open>Finite maps\<close>

definition hm_get :: "'v hmap \<Rightarrow> string \<Rightarrow> 'v option" where
  "hm_get m k = map_of m k"

definition hm_put :: "string \<Rightarrow> 'v \<Rightarrow> 'v hmap \<Rightarrow> 'v hmap" where
  "hm_put k v m = AList.update k v m"

definition hm_wf :: "'v hmap \<Rightarrow> bool" where
  "hm_wf m \<longleftrightarrow> distinct (map fst m)"

definition hm_or :: "'v \<Rightarrow> 'v option \<Rightarrow> 'v" where
  "hm_or d x = (case x of None \<Rightarrow> d | Some v \<Rightarrow> v)"

lemma hm_or_simps [simp]: "hm_or d None = d" "hm_or d (Some v) = v"
  by (simp_all add: hm_or_def)

text \<open>
  The contract of a key-value store. Its client lemmas are about a whole sequence of
  writes: a key no write names keeps its value, and the last write of a key wins.
\<close>

locale kv_store =
  fixes get :: "'m \<Rightarrow> 'k \<Rightarrow> 'v option"
    and put :: "'k \<Rightarrow> 'v \<Rightarrow> 'm \<Rightarrow> 'm"
    and wf :: "'m \<Rightarrow> bool"
  assumes get_put: "get (put k v m) j = (if j = k then Some v else get m j)"
    and wf_put: "wf m \<Longrightarrow> wf (put k v m)"
begin

lemma get_put_same: "get (put k v m) k = Some v"
  by (simp add: get_put)

lemma get_put_other: "j \<noteq> k \<Longrightarrow> get (put k v m) j = get m j"
  by (simp add: get_put)

lemma get_put_all:
  "get (fold (\<lambda>(k, v). put k v) kvs m) j =
     (case map_of (rev kvs) j of None \<Rightarrow> get m j | Some v \<Rightarrow> Some v)"
proof (induction kvs arbitrary: m)
  case Nil
  then show ?case by simp
next
  case (Cons kv kvs)
  obtain k v where kv: "kv = (k, v)" by (cases kv)
  show ?case
    by (simp add: kv Cons.IH map_add_def get_put split: option.split)
qed

lemma put_all_frame:
  "j \<notin> fst ` set kvs \<Longrightarrow> get (fold (\<lambda>(k, v). put k v) kvs m) j = get m j"
  by (induction kvs arbitrary: m) (auto simp: get_put)

lemma wf_put_all: "wf m \<Longrightarrow> wf (fold (\<lambda>(k, v). put k v) kvs m)"
  by (induction kvs arbitrary: m) (auto simp: wf_put)

end

interpretation hm: kv_store hm_get hm_put hm_wf
  by unfold_locales
    (auto simp: hm_get_def hm_put_def hm_wf_def update_conv' distinct_update)

declare hm.get_put [hm_simps]
declare hm.wf_put [hm_simps]

lemma hm_get_Nil [simp]: "hm_get [] k = None"
  by (simp add: hm_get_def)

lemma hm_get_Cons [simp]: "hm_get ((j, v) # m) k = (if k = j then Some v else hm_get m k)"
  by (simp add: hm_get_def)

lemma hm_get_mem: "hm_get m k = Some v \<Longrightarrow> (k, v) \<in> set m"
  by (simp add: hm_get_def map_of_SomeD)

lemma hm_get_wf: "hm_wf m \<Longrightarrow> (k, v) \<in> set m \<Longrightarrow> hm_get m k = Some v"
  by (simp add: hm_wf_def hm_get_def)

lemma hm_get_None_iff: "hm_get m k = None \<longleftrightarrow> k \<notin> fst ` set m"
  by (simp add: hm_get_def map_of_eq_None_iff)

lemma hm_put_keys: "fst ` set (hm_put k v m) = insert k (fst ` set m)"
  by (simp add: hm_put_def dom_update)

section \<open>Guarded state machines\<close>

text \<open>
  A component whose operations all keep an invariant: every run of operations keeps it.
  The second locale adds a view of the state that no operation changes.
\<close>

locale guarded_steps =
  fixes inv :: "'s \<Rightarrow> bool"
    and step :: "'s \<Rightarrow> 'o \<Rightarrow> 's"
  assumes inv_step: "inv s \<Longrightarrow> inv (step s op)"
begin

lemma inv_run: "inv s \<Longrightarrow> inv (foldl step s ops)"
  by (induction ops arbitrary: s) (auto simp: inv_step)

lemma inv_prefix: "inv s \<Longrightarrow> inv (foldl step s (take n ops))"
  by (rule inv_run)

end

locale framed_steps = guarded_steps inv step
  for inv :: "'s \<Rightarrow> bool" and step :: "'s \<Rightarrow> 'o \<Rightarrow> 's" +
  fixes view :: "'s \<Rightarrow> 'w"
  assumes view_step: "view (step s op) = view s"
begin

lemma view_run: "view (foldl step s ops) = view s"
  by (induction ops arbitrary: s) (auto simp: view_step)

end

section \<open>Simulation\<close>

text \<open>
  A component that implements an abstract specification: each operation the specification
  allows keeps the two related, so a run of allowed operations does.
\<close>

locale simulation =
  fixes rel :: "'c \<Rightarrow> 'a \<Rightarrow> bool"
    and allowed :: "'a \<Rightarrow> 'o \<Rightarrow> bool"
    and cstep :: "'c \<Rightarrow> 'o \<Rightarrow> 'c"
    and astep :: "'a \<Rightarrow> 'o \<Rightarrow> 'a"
  assumes sim_step: "rel c a \<Longrightarrow> allowed a op \<Longrightarrow> rel (cstep c op) (astep a op)"
begin

fun all_allowed :: "'a \<Rightarrow> 'o list \<Rightarrow> bool" where
  "all_allowed a [] = True"
| "all_allowed a (op # ops) = (allowed a op \<and> all_allowed (astep a op) ops)"

lemma sim_run: "rel c a \<Longrightarrow> all_allowed a ops \<Longrightarrow> rel (foldl cstep c ops) (foldl astep a ops)"
  by (induction ops arbitrary: c a) (auto simp: sim_step)

end

section \<open>Lists\<close>

lemma find_Some_D: "List.find P xs = Some x \<Longrightarrow> x \<in> set xs \<and> P x"
  by (auto simp: find_Some_iff)

lemma sum_list_map_le:
  fixes f g :: "'a \<Rightarrow> real"
  assumes "\<And>x. x \<in> set xs \<Longrightarrow> f x \<le> g x"
  shows "sum_list (map f xs) \<le> sum_list (map g xs)"
  using assms by (induction xs) (auto intro: add_mono)

lemma sum_list_scale: "sum_list (map (\<lambda>x. c * f x) xs) = (c::real) * sum_list (map f xs)"
  by (induction xs) (simp_all add: algebra_simps)

lemma sorted_wrt_filterI: "sorted_wrt R xs \<Longrightarrow> sorted_wrt R (filter P xs)"
  by (induction xs) auto

lemma fold_option_None [simp]:
  "fold (\<lambda>x acc. case acc of None \<Rightarrow> None | Some a \<Rightarrow> f x a) xs None = None"
  by (induction xs) auto

lemma strictly_sorted_remdups_adj:
  fixes xs :: "'a::linorder list"
  shows "sorted xs \<Longrightarrow> sorted_wrt (<) (remdups_adj xs)"
proof (induction xs rule: remdups_adj.induct)
  case (3 x y xs)
  then show ?case by (cases "x = y") (force simp: order_le_less_trans)+
qed auto

lemma sorted_hd_last:
  fixes xs :: "'a::linorder list"
  shows "sorted xs \<Longrightarrow> x \<in> set xs \<Longrightarrow> hd xs \<le> x \<and> x \<le> last xs"
  by (induction xs) auto

lemma map_filter_Cons:
  "List.map_filter f (x # xs) = (case f x of None \<Rightarrow> [] | Some y \<Rightarrow> [y]) @ List.map_filter f xs"
  by (simp add: List.map_filter_def split: option.split)

lemma map_filter_mem: "y \<in> set (List.map_filter f xs) \<longleftrightarrow> (\<exists>x \<in> set xs. f x = Some y)"
  by (induction xs) (auto simp: map_filter_Cons List.map_filter_def split: option.splits)

text \<open>\<open>slice::windows(2)\<close>: the pairs of neighbours.\<close>

definition windows2 :: "'a list \<Rightarrow> ('a \<times> 'a) list" where
  "windows2 xs = zip xs (tl xs)"

lemma windows2_simps [simp]:
  "windows2 [] = []" "windows2 [x] = []" "windows2 (x # y # ys) = (x, y) # windows2 (y # ys)"
  by (simp_all add: windows2_def)

text \<open>In a strictly increasing list the pairs cut the span from first to last into cells.\<close>

lemma windows2_cell:
  fixes xs :: "'a::linorder list"
  assumes "sorted_wrt (<) xs" and "xs \<noteq> []" and "hd xs \<le> t" and "t < last xs"
  shows "\<exists>a b. (a, b) \<in> set (windows2 xs) \<and> a \<le> t \<and> t < b"
  using assms
proof (induction xs)
  case Nil
  then show ?case by simp
next
  case (Cons x xs)
  show ?case
  proof (cases xs)
    case Nil
    with Cons.prems show ?thesis by simp
  next
    case (Cons y ys)
    show ?thesis
    proof (cases "t < y")
      case True
      with Cons Cons.prems show ?thesis by auto
    next
      case False
      then have "\<exists>a b. (a, b) \<in> set (windows2 xs) \<and> a \<le> t \<and> t < b"
        using Cons Cons.prems by (intro Cons.IH) auto
      with Cons show ?thesis by auto
    qed
  qed
qed

lemma windows2_gap:
  fixes xs :: "'a::linorder list"
  assumes "sorted_wrt (<) xs" and "(a, b) \<in> set (windows2 xs)"
  shows "a < b \<and> a \<in> set xs \<and> b \<in> set xs \<and> (\<forall>x \<in> set xs. x \<le> a \<or> b \<le> x)"
  using assms
proof (induction xs)
  case (Cons x xs)
  then show ?case
    by (cases xs) (auto simp: less_imp_le dest: order.strict_implies_order)
qed simp

lemma windows2_cell_unique:
  fixes xs :: "'a::linorder list"
  assumes "sorted_wrt (<) xs" and "(a, b) \<in> set (windows2 xs)" and "(a', b') \<in> set (windows2 xs)"
    and "a \<le> t" and "t < b" and "a' \<le> t" and "t < b'"
  shows "a' = a \<and> b' = b"
proof -
  note g = windows2_gap [OF assms(1,2)] windows2_gap [OF assms(1,3)]
  have "a' \<le> a" "b \<le> b'" "a \<le> a'" "b' \<le> b" using g assms(4-) by (meson leD le_less_trans less_le_trans)+
  then show ?thesis by simp
qed

lemma windows2_sorted:
  fixes xs :: "'a::linorder list"
  assumes "sorted_wrt (<) xs"
  shows "sorted_wrt (\<lambda>p q. snd p \<le> fst q) (windows2 xs)"
  using assms
proof (induction xs)
  case (Cons x xs)
  show ?case
  proof (cases xs)
    case (Cons y ys)
    have "y \<le> fst q" if "q \<in> set (windows2 xs)" for q
      using that Cons.prems windows2_gap [of xs "fst q" "snd q"] Cons by auto
    with Cons Cons.IH Cons.prems show ?thesis by auto
  qed simp
qed simp

text \<open>A loop that may panic: the first \<open>None\<close> ends it.\<close>

fun try_fold :: "('x \<Rightarrow> 'a \<Rightarrow> 'a option) \<Rightarrow> 'x list \<Rightarrow> 'a \<Rightarrow> 'a option" where
  "try_fold f [] a = Some a"
| "try_fold f (x # xs) a = (case f x a of None \<Rightarrow> None | Some b \<Rightarrow> try_fold f xs b)"

lemma try_fold_inv:
  assumes "try_fold f xs a = Some b" and "P a"
    and "\<And>x a b. x \<in> set xs \<Longrightarrow> P a \<Longrightarrow> f x a = Some b \<Longrightarrow> P b"
  shows "P b"
  using assms
proof (induction xs arbitrary: a)
  case Nil
  then show ?case by simp
next
  case (Cons x xs)
  then obtain c where "f x a = Some c" and c: "try_fold f xs c = Some b"
    by (auto split: option.splits)
  then have "P c" using Cons.prems(2,3) by (metis list.set_intros(1))
  from c this show ?case
    by (rule Cons.IH) (use Cons.prems(3) in auto)
qed

lemma try_fold_total:
  assumes "P a" and "\<And>x a. x \<in> set xs \<Longrightarrow> P a \<Longrightarrow> \<exists>b. f x a = Some b \<and> P b"
  shows "\<exists>b. try_fold f xs a = Some b \<and> P b"
  using assms
proof (induction xs arbitrary: a)
  case Nil
  then show ?case by simp
next
  case (Cons x xs)
  then obtain b where "f x a = Some b" and "P b" by (metis list.set_intros(1))
  moreover have "\<exists>c. try_fold f xs b = Some c \<and> P c"
    by (rule Cons.IH [OF \<open>P b\<close>]) (simp add: Cons.prems(2))
  ultimately show ?case by auto
qed

text \<open>
  \<open>slice::partition_point\<close>: the length of the prefix that satisfies the predicate, which is what it answers on the
  ascending lists the code calls it on.
\<close>

definition partition_point :: "('a \<Rightarrow> bool) \<Rightarrow> 'a list \<Rightarrow> nat" where
  "partition_point P xs = length (takeWhile P xs)"

end
