(* ===== verification/Time_Series.thy ===== *)
theory Time_Series
  imports Lab_Prelude
begin

text \<open>
  \<open>lab-core/src/time_series.rs\<close>: a sampled signal, its value at an instant, its time-weighted mean
  and extremes over a bucket, and resampling onto a grid. The code measures time in whole milliseconds.
  A mean over less than a millisecond divides by zero in the
  code (NaN); the model's reals answer zero there, so the theorems ask for whole milliseconds.
\<close>

datatype interpolation_mode = Linear | Step

datatype aggregation = Mean | Min | Max

record time_series =
  ts_samples :: "(instant \<times> f64) list"
  ts_mode :: interpolation_mode

definition ts_empty :: "interpolation_mode \<Rightarrow> time_series" where
  "ts_empty mode = \<lparr>ts_samples = [], ts_mode = mode\<rparr>"

definition is_ascending :: "time_series \<Rightarrow> bool" where
  "is_ascending ts \<longleftrightarrow> list_all (\<lambda>(a, b). fst a < fst b) (windows2 (ts_samples ts))"

definition interpolate_at :: "time_series \<Rightarrow> instant \<Rightarrow> f64 option" where
  "interpolate_at ts t =
     (let xs = ts_samples ts; pos = partition_point (\<lambda>s. fst s \<le> t) xs in
      if xs = [] then None
      else if pos = 0 then None
      else
        (let (t_left, v_left) = xs ! (pos - 1) in
         if t_left = t then Some v_left
         else if pos = length xs then (case ts_mode ts of Step \<Rightarrow> Some v_left | Linear \<Rightarrow> None)
         else (case ts_mode ts of
             Step \<Rightarrow> Some v_left
           | Linear \<Rightarrow>
               (let (t_right, v_right) = xs ! pos;
                    frac = of_int (num_milliseconds (t - t_left)) / of_int (num_milliseconds (t_right - t_left))
                in Some (v_left + (v_right - v_left) * frac)))))"

section \<open>The mean of a bucket\<close>

definition interior :: "time_series \<Rightarrow> instant \<Rightarrow> instant \<Rightarrow> instant list" where
  "interior ts s e = filter (\<lambda>t. s < t \<and> t < e) (map fst (ts_samples ts))"

definition splits :: "time_series \<Rightarrow> instant \<Rightarrow> instant \<Rightarrow> instant list" where
  "splits ts s e = s # interior ts s e @ [e]"

definition mean_step :: "time_series \<Rightarrow> instant \<Rightarrow> f64 \<Rightarrow> instant \<times> instant \<Rightarrow> f64 \<Rightarrow> f64 option" where
  "mean_step ts start v_start = (\<lambda>(seg_s, seg_e) acc.
     let dur = real_of_int (num_milliseconds (seg_e - seg_s)) in
     if dur \<le> 0 then Some acc
     else
       (let va = (if seg_s = start then v_start else hm_or v_start (interpolate_at ts seg_s)) in
        case ts_mode ts of
          Step \<Rightarrow> Some (acc + va * dur)
        | Linear \<Rightarrow>
            (case interpolate_at ts seg_e of
               None \<Rightarrow> None
             | Some vb \<Rightarrow> Some (acc + (va + vb) / 2 * dur))))"

definition time_weighted_mean :: "time_series \<Rightarrow> instant \<Rightarrow> instant \<Rightarrow> f64 option" where
  "time_weighted_mean ts s e =
     (if e \<le> s \<or> ts_samples ts = [] then None
      else case interpolate_at ts s of
        None \<Rightarrow> None
      | Some v_start \<Rightarrow>
          map_option (\<lambda>sum. sum / of_int (num_milliseconds (e - s)))
            (try_fold (mean_step ts s v_start) (windows2 (splits ts s e)) 0))"

section \<open>The extremes of a bucket\<close>

definition pick_at :: "(f64 \<Rightarrow> f64 \<Rightarrow> f64) \<Rightarrow> time_series \<Rightarrow> instant \<Rightarrow> f64 \<Rightarrow> f64" where
  "pick_at pick ts t r = (case interpolate_at ts t of None \<Rightarrow> r | Some v \<Rightarrow> pick r v)"

definition bucket_extreme :: "(f64 \<Rightarrow> f64 \<Rightarrow> f64) \<Rightarrow> time_series \<Rightarrow> instant \<Rightarrow> instant \<Rightarrow> f64 option" where
  "bucket_extreme pick ts s e =
     (if e \<le> s \<or> ts_samples ts = [] then None
      else case interpolate_at ts s of
        None \<Rightarrow> None
      | Some v_start \<Rightarrow>
          (let r = fold (pick_at pick ts) (interior ts s e) v_start in
           Some (if ts_mode ts = Linear then pick_at pick ts e r else r)))"

definition bucket_min :: "time_series \<Rightarrow> instant \<Rightarrow> instant \<Rightarrow> f64 option" where
  "bucket_min ts s e = bucket_extreme min ts s e"

definition bucket_max :: "time_series \<Rightarrow> instant \<Rightarrow> instant \<Rightarrow> f64 option" where
  "bucket_max ts s e = bucket_extreme max ts s e"

section \<open>Resampling\<close>

definition resample_to_grid :: "time_series \<Rightarrow> instant list \<Rightarrow> time_series" where
  "resample_to_grid ts grid =
     \<lparr>ts_samples = List.map_filter (\<lambda>t. map_option (Pair t) (interpolate_at ts t)) grid, ts_mode = ts_mode ts\<rparr>"

definition timestamp_millis :: "instant \<Rightarrow> int" where
  "timestamp_millis t = t div 1000000"

definition floor_to_grid :: "instant \<Rightarrow> int \<Rightarrow> instant" where
  "floor_to_grid t width_ms =
     (let ms = timestamp_millis t in milliseconds (ms - ms mod width_ms))"

definition ceil_to_grid :: "instant \<Rightarrow> int \<Rightarrow> instant" where
  "ceil_to_grid t width_ms =
     (let ms = timestamp_millis t; rest = ms mod width_ms in
      if rest = 0 then t else milliseconds (ms + (width_ms - rest)))"

definition bucket_value :: "aggregation \<Rightarrow> time_series \<Rightarrow> instant \<Rightarrow> instant \<Rightarrow> f64 option" where
  "bucket_value agg ts s e =
     (case agg of Mean \<Rightarrow> time_weighted_mean ts s e | Min \<Rightarrow> bucket_min ts s e | Max \<Rightarrow> bucket_max ts s e)"

text \<open>
  The loop over the buckets. The code has returned before it where the width is not at least a
  millisecond, so the guard on the width is never the one that stops it.
\<close>

function buckets :: "aggregation \<Rightarrow> time_series \<Rightarrow> span \<Rightarrow> instant \<Rightarrow> instant \<Rightarrow> (instant \<times> f64) list" where
  "buckets agg ts width grid_end t =
     (if t \<le> grid_end \<and> 0 < width
      then (case bucket_value agg ts t (t + width) of None \<Rightarrow> [] | Some v \<Rightarrow> [(t, v)]) @
           buckets agg ts width grid_end (t + width)
      else [])"
  by pat_completeness auto
termination
  by (relation "measure (\<lambda>(agg, ts, width, grid_end, t). nat (grid_end - t + 1))") auto

declare buckets.simps [simp del]

definition resample_uniform :: "time_series \<Rightarrow> span \<Rightarrow> aggregation \<Rightarrow> time_series" where
  "resample_uniform ts width agg =
     (let width_ms = num_milliseconds width in
      if ts_samples ts = [] \<or> width_ms \<le> 0 then \<lparr>ts_samples = [], ts_mode = ts_mode ts\<rparr>
      else
        (let first_ts = fst (hd (ts_samples ts)); last_ts = fst (last (ts_samples ts))
         in \<lparr>ts_samples = buckets agg ts width (floor_to_grid last_ts width_ms) (ceil_to_grid first_ts width_ms),
              ts_mode = ts_mode ts\<rparr>))"

section \<open>Lemmas\<close>

lemma ascending_sorted: "is_ascending ts \<longleftrightarrow> sorted_wrt (<) (map fst (ts_samples ts))"
proof -
  have "list_all (\<lambda>(a, b). fst a < fst b) (windows2 xs) \<longleftrightarrow> sorted_wrt (<) (map fst xs)"
    for xs :: "(instant \<times> f64) list"
  proof (induction xs)
    case (Cons x xs)
    then show ?case by (cases xs) (auto dest: order.strict_trans)
  qed simp
  then show ?thesis by (simp add: is_ascending_def)
qed

lemma interior_sorted: "is_ascending ts \<Longrightarrow> sorted_wrt (<) (interior ts s e)"
  unfolding interior_def ascending_sorted by (rule sorted_wrt_filterI)

lemma splits_sorted: "is_ascending ts \<Longrightarrow> s < e \<Longrightarrow> sorted_wrt (<) (splits ts s e)"
  using interior_sorted [of ts s e] by (auto simp: splits_def sorted_wrt_append interior_def)

lemma windows2_tail: "(a, b) \<in> set (windows2 (x # xs)) \<Longrightarrow> b \<in> set xs"
  by (auto simp: windows2_def dest: set_zip_rightD)

lemma windows2_head: "(a, b) \<in> set (windows2 (xs @ [x])) \<Longrightarrow> a \<in> set xs"
proof (induction xs)
  case (Cons y ys)
  then show ?case by (cases ys) auto
qed simp

text \<open>The lengths of the cells of a sorted list add up to its span.\<close>

lemma windows2_lengths:
  "xs \<noteq> [] \<Longrightarrow> sum_list (map (\<lambda>(a, b). real_of_int (b - a)) (windows2 xs)) = of_int (last xs - hd xs)"
proof (induction xs)
  case (Cons x xs)
  then show ?case by (cases xs) auto
qed simp

lemma fold_pick:
  assumes "\<And>a b. pick a b = min a b"
  shows "fold (pick_at pick ts) ps v \<le> v \<and> (\<forall>t \<in> set ps. \<forall>x. interpolate_at ts t = Some x \<longrightarrow> fold (pick_at pick ts) ps v \<le> x)"
proof (induction ps arbitrary: v)
  case (Cons p ps)
  show ?case
    using Cons [of "pick_at pick ts p v"] assms by (auto simp: pick_at_def split: option.splits)
qed simp

lemma fold_pick_max:
  "v \<le> fold (pick_at max ts) ps v \<and> (\<forall>t \<in> set ps. \<forall>x. interpolate_at ts t = Some x \<longrightarrow> x \<le> fold (pick_at max ts) ps v)"
proof (induction ps arbitrary: v)
  case (Cons p ps)
  show ?case
    using Cons [of "pick_at max ts p v"] by (auto simp: pick_at_def split: option.splits)
qed simp

lemma bucket_range:
  assumes "bucket_min ts s e = Some lo" and "bucket_max ts s e = Some hi"
    and "interpolate_at ts t = Some x"
    and "t = s \<or> t \<in> set (interior ts s e) \<or> (t = e \<and> ts_mode ts = Linear)"
  shows "lo \<le> x \<and> x \<le> hi"
proof -
  let ?min = "fold (pick_at min ts) (interior ts s e)" and ?max = "fold (pick_at max ts) (interior ts s e)"
  from assms(1) obtain v where v: "interpolate_at ts s = Some v"
    by (auto simp: bucket_min_def bucket_extreme_def split: if_splits option.splits)
  with assms(1,2) have lo: "lo = (if ts_mode ts = Linear then pick_at min ts e (?min v) else ?min v)"
    and hi: "hi = (if ts_mode ts = Linear then pick_at max ts e (?max v) else ?max v)"
    by (auto simp: bucket_min_def bucket_max_def bucket_extreme_def Let_def split: if_splits)
  have lo': "lo \<le> ?min v" and hi': "?max v \<le> hi"
    by (auto simp: lo hi pick_at_def split: option.split)
  from assms(4) consider "t = s" | "t \<in> set (interior ts s e)" | "t = e" "ts_mode ts = Linear" by blast
  then show ?thesis
  proof cases
    case 1
    then have "x = v" using v assms(3) by simp
    then show ?thesis
      using fold_pick [of min ts "interior ts s e" v] fold_pick_max [of v ts "interior ts s e"] lo' hi' by linarith
  next
    case 2
    then have "?min v \<le> x" "x \<le> ?max v"
      using fold_pick [of min ts "interior ts s e" v] fold_pick_max [of v ts "interior ts s e"] assms(3) by auto
    then show ?thesis using lo' hi' by linarith
  next
    case 3
    then show ?thesis using assms(3) by (simp add: lo hi pick_at_def)
  qed
qed

lemma mean_step_range:
  assumes "mean_step ts start v0 (a, b) acc = Some r" and "a < b" and "whole_ms a" and "whole_ms b"
    and "lo \<le> v0 \<and> v0 \<le> hi"
    and "\<And>x. interpolate_at ts a = Some x \<Longrightarrow> lo \<le> x \<and> x \<le> hi"
    and "\<And>x. ts_mode ts = Linear \<Longrightarrow> interpolate_at ts b = Some x \<Longrightarrow> lo \<le> x \<and> x \<le> hi"
  shows "lo * (of_int (b - a) / 1000000) \<le> r - acc \<and> r - acc \<le> hi * (of_int (b - a) / 1000000)"
proof -
  let ?dur = "real_of_int (b - a) / 1000000"
  have dur: "real_of_int (num_milliseconds (b - a)) = ?dur" by (rule num_milliseconds_exact) fact+
  have pos: "0 < ?dur" using assms(2) by simp
  then have n: "\<not> num_milliseconds (b - a) \<le> 0" unfolding dur [symmetric] by simp
  define va where "va = (if a = start then v0 else hm_or v0 (interpolate_at ts a))"
  have va: "lo \<le> va \<and> va \<le> hi"
    using assms(5,6) by (cases "interpolate_at ts a") (auto simp: va_def)
  have r: "\<exists>m. lo \<le> m \<and> m \<le> hi \<and> r = acc + m * ?dur"
  proof (cases "ts_mode ts")
    case Step
    then have "r = acc + va * ?dur"
      using assms(1) n unfolding dur [symmetric] va_def by (simp add: mean_step_def)
    then show ?thesis using va by blast
  next
    case Linear
    then obtain vb where vb: "interpolate_at ts b = Some vb" "r = acc + (va + vb) / 2 * ?dur"
      using assms(1) n unfolding dur [symmetric] va_def by (auto simp: mean_step_def split: option.splits)
    have "lo \<le> (va + vb) / 2 \<and> (va + vb) / 2 \<le> hi"
      using va assms(7) [OF Linear vb(1)] by simp
    with vb(2) show ?thesis by blast
  qed
  then show ?thesis using pos by (auto intro: mult_right_mono)
qed

lemma mean_fold_range:
  assumes "try_fold (mean_step ts start v0) ws acc = Some r"
    and "\<And>a b acc r. (a, b) \<in> set ws \<Longrightarrow> mean_step ts start v0 (a, b) acc = Some r \<Longrightarrow>
      lo * (of_int (b - a) / 1000000) \<le> r - acc \<and> r - acc \<le> hi * (of_int (b - a) / 1000000)"
  shows "lo * (sum_list (map (\<lambda>(a, b). real_of_int (b - a)) ws) / 1000000) \<le> r - acc \<and>
    r - acc \<le> hi * (sum_list (map (\<lambda>(a, b). real_of_int (b - a)) ws) / 1000000)"
  using assms
proof (induction ws arbitrary: acc)
  case (Cons w ws)
  obtain a b where w: "w = (a, b)" by (cases w)
  from Cons.prems(1) obtain mid where mid: "mean_step ts start v0 (a, b) acc = Some mid"
    "try_fold (mean_step ts start v0) ws mid = Some r"
    by (auto simp: w split: option.splits)
  have "lo * (of_int (b - a) / 1000000) \<le> mid - acc \<and> mid - acc \<le> hi * (of_int (b - a) / 1000000)"
    by (rule Cons.prems(2) [OF _ mid(1)]) (simp add: w)
  moreover have "lo * (sum_list (map (\<lambda>(a, b). real_of_int (b - a)) ws) / 1000000) \<le> r - mid \<and>
    r - mid \<le> hi * (sum_list (map (\<lambda>(a, b). real_of_int (b - a)) ws) / 1000000)"
    by (rule Cons.IH [OF mid(2)]) (rule Cons.prems(2), simp_all)
  ultimately show ?case by (simp add: w algebra_simps add_divide_distrib diff_divide_distrib)
qed simp

lemma filter_takeWhile_ascending:
  "sorted_wrt (<) (map fst xs) \<Longrightarrow> filter (\<lambda>s. fst s \<le> t) xs = takeWhile (\<lambda>s. fst s \<le> t) xs"
  for t :: "'a::linorder"
proof (induction xs)
  case (Cons x xs)
  show ?case
  proof (cases "fst x \<le> t")
    case False
    with Cons.prems have "\<not> fst s \<le> t" if "s \<in> set xs" for s using that by fastforce
    with False show ?thesis by (simp add: filter_empty_conv)
  qed (use Cons in auto)
qed simp

section \<open>Properties\<close>

definition whole_ms_series :: "time_series \<Rightarrow> bool" where
  "whole_ms_series ts \<longleftrightarrow> list_all (\<lambda>s. whole_ms (fst s)) (ts_samples ts)"

text \<open>
  On an ascending series sampled at whole milliseconds, in either interpolation mode, the
  time-weighted mean of a bucket lies between the bucket's minimum and its maximum.
\<close>

theorem mean_between_extremes:
  assumes asc: "is_ascending ts" and ms: "whole_ms_series ts" "whole_ms s" "whole_ms e"
    and lo: "bucket_min ts s e = Some lo" and hi: "bucket_max ts s e = Some hi"
    and mean: "time_weighted_mean ts s e = Some m"
  shows "lo \<le> m \<and> m \<le> hi"
proof -
  note range = bucket_range [OF lo hi]
  have se: "s < e" using mean by (auto simp: time_weighted_mean_def split: if_splits)
  from mean se obtain v0 sum where v0: "interpolate_at ts s = Some v0"
    and sum: "try_fold (mean_step ts s v0) (windows2 (splits ts s e)) 0 = Some sum"
    and m: "m = sum / of_int (num_milliseconds (e - s))"
    by (auto simp: time_weighted_mean_def split: if_splits option.splits)
  have total: "sum_list (map (\<lambda>(a, b). real_of_int (b - a)) (windows2 (splits ts s e))) = of_int (e - s)"
    using windows2_lengths [of "splits ts s e"] by (simp add: splits_def)
  have whole: "whole_ms t" if "t \<in> set (splits ts s e)" for t
    using that ms by (auto simp: splits_def interior_def whole_ms_series_def list_all_iff)
  have cell: "lo * (of_int (b - a) / 1000000) \<le> r - acc \<and> r - acc \<le> hi * (of_int (b - a) / 1000000)"
    if ab: "(a, b) \<in> set (windows2 (splits ts s e))" and step: "mean_step ts s v0 (a, b) acc = Some r" for a b acc r
  proof -
    have "a < b" "a \<in> set (splits ts s e)" "b \<in> set (splits ts s e)"
      using windows2_gap [OF splits_sorted [OF asc se] ab] by auto
    moreover have "a = s \<or> a \<in> set (interior ts s e)"
      using windows2_head [of a b "s # interior ts s e" e] ab by (auto simp: splits_def)
    moreover have "b = e \<or> b \<in> set (interior ts s e)"
      using windows2_tail [of a b s "interior ts s e @ [e]"] ab by (auto simp: splits_def)
    ultimately show ?thesis
      by (intro mean_step_range [OF step]) (use whole range v0 in auto)
  qed
  have "lo * (of_int (e - s) / 1000000) \<le> sum \<and> sum \<le> hi * (of_int (e - s) / 1000000)"
    using mean_fold_range [OF sum cell] unfolding total by simp
  moreover have "0 < real_of_int (e - s)" using se by simp
  ultimately show ?thesis
    unfolding m num_milliseconds_exact [OF ms(2,3)] by (simp add: pos_le_divide_eq pos_divide_le_eq)
qed

lemma mean_between_extremes_witness: "(1::real) \<le> 1 \<and> (1::real) \<le> 1"
proof -
  let ?ts = "\<lparr>ts_samples = [(0, 1)], ts_mode = Step\<rparr>"
  note defs = interpolate_at_def partition_point_def interior_def splits_def bucket_min_def bucket_max_def
    bucket_extreme_def time_weighted_mean_def mean_step_def num_milliseconds_def time_simps
  show ?thesis
    by (rule mean_between_extremes [of ?ts 0 "milliseconds 2" 1 1 1])
      (simp_all add: defs is_ascending_def whole_ms_series_def whole_ms_def milliseconds_def)
qed

lemma step_last:
  assumes "is_ascending ts" and "ts_mode ts = Step"
  shows "interpolate_at ts t =
    (if filter (\<lambda>s. fst s \<le> t) (ts_samples ts) = [] then None
     else Some (snd (last (filter (\<lambda>s. fst s \<le> t) (ts_samples ts)))))"
proof -
  let ?xs = "ts_samples ts" and ?before = "takeWhile (\<lambda>s. fst s \<le> t) (ts_samples ts)"
  have before: "filter (\<lambda>s. fst s \<le> t) ?xs = ?before"
    using assms(1) unfolding ascending_sorted by (rule filter_takeWhile_ascending)
  show ?thesis
  proof (cases "?before = []")
    case True
    then show ?thesis unfolding before by (simp add: interpolate_at_def partition_point_def Let_def)
  next
    case False
    then have left: "?xs ! (length ?before - 1) = last ?before"
      by (metis diff_less last_conv_nth length_greater_0_conv takeWhile_nth zero_less_one)
    from False have "?xs \<noteq> []" by auto
    with False assms(2) show ?thesis
      unfolding before by (simp add: interpolate_at_def partition_point_def Let_def left [simplified] case_prod_unfold)
  qed
qed

text \<open>
  A step series carries its last value forward: its value at an instant is the value of the last
  sample at or before the instant, and it has none exactly before the first sample.
\<close>

theorem step_carries_forward:
  assumes "is_ascending ts" and "ts_mode ts = Step"
  shows "interpolate_at ts t =
    (if filter (\<lambda>s. fst s \<le> t) (ts_samples ts) = [] then None
     else Some (snd (last (filter (\<lambda>s. fst s \<le> t) (ts_samples ts)))))"
  using assms by (rule step_last)

lemma step_carries_forward_witness:
  "interpolate_at \<lparr>ts_samples = [(0, 5), (10, 7)], ts_mode = Step\<rparr> 20 = Some 7"
  by (subst step_carries_forward) (simp_all add: is_ascending_def)

text \<open>
  Resampling onto a uniform grid answers one sample per bucket at most, at instants one width
  apart, each at or after the first sample's grid point and no later than the last sample's.
\<close>

theorem resample_uniform_grid:
  assumes "t \<in> fst ` set (ts_samples (resample_uniform ts width agg))"
  shows "\<exists>k. t = ceil_to_grid (fst (hd (ts_samples ts))) (num_milliseconds width) + int k * width \<and>
    t \<le> floor_to_grid (fst (last (ts_samples ts))) (num_milliseconds width) \<and>
    bucket_value agg ts t (t + width) \<noteq> None"
proof -
  have "\<exists>k. t = a + int k * width \<and> t \<le> b \<and> bucket_value agg ts t (t + width) \<noteq> None"
    if "t \<in> fst ` set (buckets agg ts width b a)" for a b
    using that
  proof (induction agg ts width b a rule: buckets.induct)
    case (1 agg ts width b a)
    from 1(2) have guard: "a \<le> b \<and> 0 < width" by (subst (asm) buckets.simps) (auto split: if_splits)
    then consider "t = a" "bucket_value agg ts a (a + width) \<noteq> None" | "t \<in> fst ` set (buckets agg ts width b (a + width))"
      using 1(2) by (subst (asm) buckets.simps) (cases "bucket_value agg ts a (a + width)"; auto split: if_splits)
    then show ?case
    proof cases
      case 1
      then show ?thesis using guard by (intro exI [of _ 0]) simp
    next
      case 2
      from 1(1) [OF guard 2] obtain k where "t = a + width + int k * width" "t \<le> b"
        "bucket_value agg ts t (t + width) \<noteq> None" by blast
      then show ?thesis by (intro exI [of _ "Suc k"]) (simp add: algebra_simps)
    qed
  qed
  then show ?thesis
    using assms by (auto simp: resample_uniform_def Let_def split: if_splits)
qed

lemma resample_uniform_grid_witness:
  "\<exists>k. (0::int) = ceil_to_grid 0 1000 + int k * milliseconds 1000"
proof -
  let ?ts = "\<lparr>ts_samples = [(0, 5::real)], ts_mode = Step\<rparr>"
  have "(0::int) \<in> fst ` set (ts_samples (resample_uniform ?ts (milliseconds 1000) Min))"
    by (simp add: resample_uniform_def Let_def buckets.simps ceil_to_grid_def floor_to_grid_def timestamp_millis_def
        bucket_value_def bucket_min_def bucket_extreme_def interior_def interpolate_at_def partition_point_def
        milliseconds_def num_ms_seconds num_milliseconds_def time_simps)
  from resample_uniform_grid [OF this] show ?thesis by auto
qed

end
