(* ===== verification/Time_Window.thy ===== *)
theory Time_Window
  imports Lab_Prelude
begin

text \<open>
  \<open>lab-core/src/time_window.rs\<close>: half-open windows. The trait's methods become functions of
  the window's start and end; the two searches take the accessors of the window type, as the
  generic Rust functions take the trait implementation.
\<close>

definition tw_covers :: "instant \<Rightarrow> instant \<Rightarrow> instant \<Rightarrow> bool" where
  "tw_covers s e t \<longleftrightarrow> s \<le> t \<and> t < e"

definition tw_overlaps :: "instant \<Rightarrow> instant \<Rightarrow> instant \<Rightarrow> instant \<Rightarrow> bool" where
  "tw_overlaps s e from_t to_t \<longleftrightarrow>
     (if from_t = to_t then tw_covers s e from_t else s < to_t \<and> from_t < e)"

definition tw_is_ended :: "instant \<Rightarrow> instant \<Rightarrow> bool" where
  "tw_is_ended e now \<longleftrightarrow> e \<le> now"

definition covering :: "('w \<Rightarrow> instant) \<Rightarrow> ('w \<Rightarrow> instant) \<Rightarrow> 'w list \<Rightarrow> instant \<Rightarrow> 'w option" where
  "covering st en ws t = List.find (\<lambda>w. tw_covers (st w) (en w) t) ws"

definition any_covering :: "('w \<Rightarrow> instant) \<Rightarrow> ('w \<Rightarrow> instant) \<Rightarrow> 'w list \<Rightarrow> instant \<Rightarrow> bool" where
  "any_covering st en ws t \<longleftrightarrow> list_ex (\<lambda>w. tw_covers (st w) (en w) t) ws"

lemma overlaps_instant: "tw_overlaps s e t t = tw_covers s e t"
  by (simp add: tw_overlaps_def)

lemma covers_not_ended: "tw_covers s e t \<Longrightarrow> \<not> tw_is_ended e t"
  by (simp add: tw_covers_def tw_is_ended_def)

lemma covering_Some_D:
  "covering st en ws t = Some w \<Longrightarrow> w \<in> set ws \<and> tw_covers (st w) (en w) t"
  unfolding covering_def by (rule find_Some_D)

lemma covering_None_iff:
  "covering st en ws t = None \<longleftrightarrow> \<not> any_covering st en ws t"
  by (auto simp: covering_def any_covering_def find_None_iff list_ex_iff)

text \<open>
  Overlap of a window and a span is the existence of a common instant, where both are
  proper (the span's degenerate case is the instant).
\<close>

lemma overlaps_iff_common_instant:
  assumes "s < e" and "a < b"
  shows "tw_overlaps s e a b \<longleftrightarrow> (\<exists>t. tw_covers s e t \<and> tw_covers a b t)"
proof
  assume "tw_overlaps s e a b"
  with assms have "tw_covers s e (max s a) \<and> tw_covers a b (max s a)"
    by (auto simp: tw_overlaps_def tw_covers_def)
  then show "\<exists>t. tw_covers s e t \<and> tw_covers a b t" by blast
next
  assume "\<exists>t. tw_covers s e t \<and> tw_covers a b t"
  with assms show "tw_overlaps s e a b"
    by (auto simp: tw_overlaps_def tw_covers_def)
qed

text \<open>
  The contract of a list of windows that never overlap: proper windows, each ending before
  the next begins. An instant is then covered by at most one of them, so the first match of
  \<^const>\<open>covering\<close> is the only one.
\<close>

locale window_list =
  fixes st :: "'w \<Rightarrow> instant"
    and en :: "'w \<Rightarrow> instant"
    and ws :: "'w list"
  assumes proper: "w \<in> set ws \<Longrightarrow> st w < en w"
    and ordered: "sorted_wrt (\<lambda>a b. en a \<le> st b) ws"
begin

lemma unique_cover:
  assumes "i < length ws" and "j < length ws"
    and "tw_covers (st (ws ! i)) (en (ws ! i)) t"
    and "tw_covers (st (ws ! j)) (en (ws ! j)) t"
  shows "i = j"
proof (rule ccontr)
  assume "i \<noteq> j"
  then consider "i < j" | "j < i" by linarith
  then show False
  proof cases
    case 1
    then have "en (ws ! i) \<le> st (ws ! j)"
      using ordered assms(2) by (simp add: sorted_wrt_iff_nth_less)
    with assms(3,4) show False by (simp add: tw_covers_def)
  next
    case 2
    then have "en (ws ! j) \<le> st (ws ! i)"
      using ordered assms(1) by (simp add: sorted_wrt_iff_nth_less)
    with assms(3,4) show False by (simp add: tw_covers_def)
  qed
qed

lemma covering_unique:
  assumes "w \<in> set ws" and "tw_covers (st w) (en w) t"
  shows "covering st en ws t = Some w"
proof -
  have "covering st en ws t \<noteq> None"
    using assms by (auto simp: covering_None_iff any_covering_def list_ex_iff)
  then obtain v where v: "covering st en ws t = Some v" by blast
  from covering_Some_D [OF v] assms have "v = w"
    by (metis in_set_conv_nth unique_cover)
  with v show ?thesis by simp
qed

lemma starts_increase: "sorted_wrt (\<lambda>a b. st a < st b) ws"
proof -
  have "st (ws ! i) < st (ws ! j)" if "i < j" "j < length ws" for i j
  proof -
    have "st (ws ! i) < en (ws ! i)" using that by (simp add: proper)
    also have "en (ws ! i) \<le> st (ws ! j)"
      using ordered that by (simp add: sorted_wrt_iff_nth_less)
    finally show ?thesis .
  qed
  then show ?thesis by (simp add: sorted_wrt_iff_nth_less)
qed

lemma covering_filter:
  "filter (\<lambda>w. tw_covers (st w) (en w) t) ws = (case covering st en ws t of None \<Rightarrow> [] | Some w \<Rightarrow> [w])"
proof -
  let ?f = "filter (\<lambda>w. tw_covers (st w) (en w) t) ws"
  have hd: "covering st en ws t = (case ?f of [] \<Rightarrow> None | w # _ \<Rightarrow> Some w)"
    unfolding covering_def by (induction ws) auto
  show ?thesis
  proof (cases ?f)
    case Nil
    with hd show ?thesis by simp
  next
    case (Cons w vs)
    have "vs = []"
    proof (rule ccontr)
      assume "vs \<noteq> []"
      then obtain v us where vs: "vs = v # us" by (cases vs) auto
      have "sorted_wrt (\<lambda>a b. en a \<le> st b) (w # v # us)"
        using sorted_wrt_filterI [OF ordered, of "\<lambda>w. tw_covers (st w) (en w) t"] by (simp add: Cons vs)
      moreover have "w \<in> set ?f" "v \<in> set ?f" unfolding Cons vs by simp_all
      ultimately show False by (auto simp: tw_covers_def)
    qed
    with hd Cons show ?thesis by simp
  qed
qed

end

end
