(* ===== verification/Event_Timing.thy ===== *)
theory Event_Timing
  imports Time_Window "HOL-Library.Word"
begin

text \<open>
  \<open>lab-core/src/event_timing.rs\<close>: when each interval of an OpenADR event runs. The wire
  types are records with the fields the lab reads; an enum of the wire is its name on the
  wire. What the code takes from the \<open>chrono\<close> and \<open>openleadr-wire\<close> crates is a
  parameter, the record \<open>wire_env\<close>: the least and greatest instant, the length of a
  calendar duration at an instant, the order of priorities.
\<close>

unbundle bit_operations_syntax

section \<open>Events\<close>

type_synonym wire_duration = string

datatype wire_value = VNumber f64 | VInteger int | VString string | VOther

record payload =
  value_type :: string
  pl_values :: "wire_value list"

record interval_period =
  ip_start :: instant
  ip_duration :: "wire_duration option"
  ip_randomize_start :: "wire_duration option"

record oadr_interval =
  iv_period :: "interval_period option"
  iv_payloads :: "payload list"

record payload_descriptor =
  pd_payload_type :: string
  pd_units :: "string option"
  pd_currency :: "string option"

record report_descriptor =
  rd_payload_type :: string
  rd_reading_type :: "string option"
  rd_open_intervals :: bool
  rd_frequency :: int
  rd_num_intervals :: int
  rd_historical :: bool
  rd_aggregate :: bool

record oadr_event =
  ev_id :: string
  ev_created :: instant
  ev_modified :: instant
  ev_name :: "string option"
  ev_program_id :: string
  ev_priority :: "nat option"
  ev_duration :: "wire_duration option"
  ev_period :: "interval_period option"
  ev_intervals :: "oadr_interval list option"
  ev_payload_descriptors :: "payload_descriptor list option"
  ev_report_descriptors :: "report_descriptor list option"

record wire_env =
  min_utc :: instant
  max_utc :: instant
  to_chrono :: "wire_duration \<Rightarrow> instant \<Rightarrow> span"
  priority_key :: "nat option \<Rightarrow> int"

text \<open>\<open>DateTime::checked_add_signed\<close>; the operator \<open>+\<close> panics where it answers \<open>None\<close>.\<close>

definition checked_add :: "wire_env \<Rightarrow> instant \<Rightarrow> span \<Rightarrow> instant option" where
  "checked_add env t d = (if min_utc env \<le> t + d \<and> t + d \<le> max_utc env then Some (t + d) else None)"

text \<open>A count cast to a signed integer, and \<open>Duration::seconds\<close>, which panics beyond \<open>i64::MAX / 1000\<close>.\<close>

definition u64_as_i64 :: "nat \<Rightarrow> int" where
  "u64_as_i64 n = (if n < 2 ^ 63 then int n else int n - 2 ^ 64)"

definition duration_seconds :: "int \<Rightarrow> span option" where
  "duration_seconds n = (if \<bar>n\<bar> \<le> 9223372036854775 then Some (seconds n) else None)"

definition event_intervals :: "oadr_event \<Rightarrow> oadr_interval list" where
  "event_intervals ev = (case ev_intervals ev of None \<Rightarrow> [] | Some ivs \<Rightarrow> ivs)"

record timed =
  t_interval :: oadr_interval
  t_start :: instant
  t_end :: instant

definition is_bounded :: "wire_env \<Rightarrow> timed \<Rightarrow> bool" where
  "is_bounded env it \<longleftrightarrow> t_start it \<noteq> min_utc env \<and> t_end it \<noteq> max_utc env"

definition numeric_value :: "wire_value \<Rightarrow> f64 option" where
  "numeric_value v =
     (case v of VNumber n \<Rightarrow> Some n | VInteger i \<Rightarrow> Some (of_int i) | _ \<Rightarrow> None)"

definition max_looped_intervals :: nat where
  "max_looped_intervals = 2000"

section \<open>The declared intervals\<close>

definition timed_of :: "wire_env \<Rightarrow> wire_duration option \<Rightarrow> instant option \<Rightarrow> oadr_interval \<Rightarrow> timed" where
  "timed_of env default_duration cursor iv =
     (let own = iv_period iv;
          start = (case own of Some p \<Rightarrow> Some (ip_start p) | None \<Rightarrow> cursor);
          duration = (case Option.bind own ip_duration of Some d \<Rightarrow> Some d | None \<Rightarrow> default_duration);
          (s, e) = (case (start, duration) of
                      (None, _) \<Rightarrow> (min_utc env, max_utc env)
                    | (Some s, None) \<Rightarrow> (s, max_utc env)
                    | (Some s, Some d) \<Rightarrow>
                        (s, hm_or (max_utc env) (checked_add env s (to_chrono env d s))))
      in \<lparr>t_interval = iv, t_start = s, t_end = e\<rparr>)"

fun base_from :: "wire_env \<Rightarrow> wire_duration option \<Rightarrow> instant option \<Rightarrow> oadr_interval list \<Rightarrow> timed list" where
  "base_from env dd cursor [] = []"
| "base_from env dd cursor (iv # ivs) =
     (let it = timed_of env dd cursor iv in it # base_from env dd (Some (t_end it)) ivs)"

definition base_intervals :: "wire_env \<Rightarrow> oadr_event \<Rightarrow> timed list" where
  "base_intervals env ev =
     base_from env (Option.bind (ev_period ev) ip_duration)
       (map_option ip_start (ev_period ev)) (event_intervals ev)"

section \<open>The event's own duration: trimming and looping\<close>

definition event_window_end :: "wire_env \<Rightarrow> oadr_event \<Rightarrow> timed list \<Rightarrow> instant option" where
  "event_window_end env ev base =
     (case ev_duration ev of
        None \<Rightarrow> None
      | Some d \<Rightarrow>
          (case base of
             [] \<Rightarrow> None
           | first # _ \<Rightarrow>
               if \<not> is_bounded env first then None
               else checked_add env (t_start first) (to_chrono env d (t_start first))))"

definition trim_to :: "instant \<Rightarrow> timed list \<Rightarrow> timed list" where
  "trim_to event_end base =
     map (\<lambda>it. it\<lparr>t_end := min (t_end it) event_end\<rparr>)
       (filter (\<lambda>it. t_start it < event_end) base)"

text \<open>
  One repetition of the sequence, the inner loop: \<open>Some\<close> the extended list, \<open>None\<close> where an
  addition leaves the range of instants and panics.
\<close>

fun push_shifted :: "wire_env \<Rightarrow> span \<Rightarrow> instant \<Rightarrow> timed list \<Rightarrow> timed list \<Rightarrow> timed list option" where
  "push_shifted env shift event_end [] out = Some out"
| "push_shifted env shift event_end (it # its) out =
     (if max_looped_intervals \<le> length out then Some out
      else case checked_add env (t_start it) shift of
        None \<Rightarrow> None
      | Some start \<Rightarrow>
          if event_end \<le> start then Some out
          else case checked_add env (t_end it) shift of
            None \<Rightarrow> None
          | Some end_shifted \<Rightarrow>
              push_shifted env shift event_end its
                (out @ [\<lparr>t_interval = t_interval it, t_start = start,
                         t_end = min end_shifted event_end\<rparr>]))"

lemma push_shifted_grows:
  "push_shifted env shift ee its out = Some out' \<Longrightarrow> length out \<le> length out'"
  by (induction its arbitrary: out) (fastforce split: if_splits option.splits)+

lemma push_shifted_capped:
  "push_shifted env shift ee its out = Some out' \<Longrightarrow>
   length out \<le> max_looped_intervals \<Longrightarrow> length out' \<le> max_looped_intervals"
  by (induction its arbitrary: out) (fastforce split: if_splits option.splits)+

lemma push_shifted_progress:
  assumes "push_shifted env shift ee (it # its) out = Some out'"
    and "length out < max_looped_intervals"
    and "checked_add env (t_start it) shift = Some s" and "s < ee"
  shows "length out < length out'"
  using assms by (auto split: option.splits dest!: push_shifted_grows)

text \<open>
  The outer loop. Each round appends at least the first interval (its start lies before the
  event's end, which the guard checks), so the distance to the cap shrinks.
\<close>

function repeat_sequence :: "wire_env \<Rightarrow> timed list \<Rightarrow> span \<Rightarrow> instant \<Rightarrow> span \<Rightarrow> timed list \<Rightarrow> timed list option" where
  "repeat_sequence env base sp event_end shift out =
     (case base of
        [] \<Rightarrow> Some out
      | first # _ \<Rightarrow>
          if \<not> length out < max_looped_intervals then Some out
          else case checked_add env (t_start first) shift of
            None \<Rightarrow> None
          | Some next_start \<Rightarrow>
              if \<not> next_start < event_end then Some out
              else case push_shifted env shift event_end base out of
                None \<Rightarrow> None
              | Some out' \<Rightarrow> repeat_sequence env base sp event_end (shift + sp) out')"
  by pat_completeness auto
termination
proof (relation "measure (\<lambda>(env, base, sp, ee, shift, out). max_looped_intervals - length out)",
    goal_cases)
  case 1
  then show ?case by simp
next
  case (2 env base sp ee shift out first rest next_start out')
  then have "length out < length out'"
    using push_shifted_progress [of env shift ee first rest out out' next_start]
    by (simp del: push_shifted.simps)
  with 2 show ?case by simp
qed

declare repeat_sequence.simps [simp del]

definition timed_intervals :: "wire_env \<Rightarrow> oadr_event \<Rightarrow> timed list option" where
  "timed_intervals env ev =
     (let base = base_intervals env ev in
      case event_window_end env ev base of
        None \<Rightarrow> Some base
      | Some event_end \<Rightarrow>
          (let out = trim_to event_end base in
           if base = [] then Some out
           else
             (let first = hd base; final = last base in
              if \<not> is_bounded env first \<or> \<not> is_bounded env final \<or> t_end final \<le> t_start first
              then Some out
              else
                (let sp = t_end final - t_start first
                 in repeat_sequence env base sp event_end sp out))))"

section \<open>The randomised start\<close>

definition fnv_offset :: "64 word" where
  "fnv_offset = 0xcbf29ce484222325"

definition fnv_prime :: "64 word" where
  "fnv_prime = 0x100000001b3"

definition fnv_byte :: "char \<Rightarrow> 64 word \<Rightarrow> 64 word" where
  "fnv_byte b h = (h XOR of_char b) * fnv_prime"

definition fnv_finalise :: "64 word \<Rightarrow> 64 word" where
  "fnv_finalise h =
     (let h1 = h XOR drop_bit 33 h; h2 = h1 * 0xff51afd7ed558ccd in h2 XOR drop_bit 33 h2)"

definition seed_hash :: "string \<Rightarrow> string \<Rightarrow> 64 word" where
  "seed_hash seed event_id =
     fnv_finalise (fold fnv_byte (seed @ CHR 0x00 # event_id) fnv_offset)"

definition hash_fraction :: "64 word \<Rightarrow> f64" where
  "hash_fraction h = of_nat (unat (drop_bit 11 h)) / 2 ^ 53"

definition randomized_start_offset :: "string \<Rightarrow> string \<Rightarrow> span \<Rightarrow> span" where
  "randomized_start_offset seed event_id window =
     (let window_ms = num_milliseconds window in
      if window_ms \<le> 0 then 0
      else milliseconds (f64_as_i64 (of_int window_ms * hash_fraction (seed_hash seed event_id))))"

definition shift_period :: "wire_env \<Rightarrow> string \<Rightarrow> string \<Rightarrow> interval_period \<Rightarrow> interval_period option" where
  "shift_period env seed event_id p =
     (case ip_randomize_start p of
        None \<Rightarrow> Some p
      | Some w \<Rightarrow>
          (case checked_add env (ip_start p)
                  (randomized_start_offset seed event_id (to_chrono env w (ip_start p))) of
             None \<Rightarrow> None
           | Some s \<Rightarrow> Some (p\<lparr>ip_start := s\<rparr>)))"

definition shift_interval :: "wire_env \<Rightarrow> string \<Rightarrow> string \<Rightarrow> oadr_interval \<Rightarrow> oadr_interval option" where
  "shift_interval env seed event_id iv =
     (case iv_period iv of
        None \<Rightarrow> Some iv
      | Some p \<Rightarrow> map_option (\<lambda>q. iv\<lparr>iv_period := Some q\<rparr>) (shift_period env seed event_id p))"

definition with_randomized_start :: "wire_env \<Rightarrow> oadr_event \<Rightarrow> string \<Rightarrow> oadr_event option" where
  "with_randomized_start env ev seed =
     (case (case ev_period ev of
              None \<Rightarrow> Some None
            | Some p \<Rightarrow> map_option Some (shift_period env seed (ev_id ev) p)) of
        None \<Rightarrow> None
      | Some period \<Rightarrow>
          (case ev_intervals ev of
             None \<Rightarrow> Some (ev\<lparr>ev_period := period\<rparr>)
           | Some ivs \<Rightarrow>
               map_option (\<lambda>ivs'. ev\<lparr>ev_period := period, ev_intervals := Some ivs'\<rparr>)
                 (those (map (shift_interval env seed (ev_id ev)) ivs))))"

end
