(* ===== verification/Event_Timing_Facts.thy ===== *)
theory Event_Timing_Facts
  imports Event_Timing
begin

text \<open>
  Facts about \<open>Event_Timing\<close>: what trimming and looping produce, when the arithmetic
  panics, and where a randomised start moves an event.
\<close>

section \<open>The regular event: a closed form\<close>

text \<open>
  The number of cells of length \<open>L\<close> a window of length \<open>W\<close> reaches into.
\<close>

definition cells :: "int \<Rightarrow> int \<Rightarrow> nat" where
  "cells W L = nat ((W + L - 1) div L)"

lemma less_cells_iff:
  assumes "0 < L"
  shows "i < cells W L \<longleftrightarrow> int i * L < W"
proof -
  have "i < cells W L \<longleftrightarrow> int i < (W + L - 1) div L"
    by (simp add: cells_def zless_nat_eq_int_zless)
  also have "\<dots> \<longleftrightarrow> int i * L < W"
  proof
    assume "int i < (W + L - 1) div L"
    then have "(int i + 1) * L \<le> (W + L - 1) div L * L"
      using assms by (intro mult_right_mono) auto
    also have "\<dots> \<le> W + L - 1"
      unfolding minus_mod_eq_div_mult [symmetric] using pos_mod_sign [OF assms, of "W + L - 1"] by linarith
    finally show "int i * L < W" by (simp add: algebra_simps)
  next
    assume "int i * L < W"
    then have "(int i + 1) * L div L \<le> (W + L - 1) div L"
      using assms by (intro zdiv_mono1) (simp_all add: algebra_simps)
    then show "int i < (W + L - 1) div L" using assms by simp
  qed
  finally show ?thesis .
qed

definition grid_cell :: "oadr_interval list \<Rightarrow> instant \<Rightarrow> int \<Rightarrow> instant \<Rightarrow> nat \<Rightarrow> timed" where
  "grid_cell ivs s L ee i =
     \<lparr>t_interval = ivs ! (i mod length ivs), t_start = s + int i * L,
      t_end = min (s + (int i + 1) * L) ee\<rparr>"

definition grid :: "oadr_interval list \<Rightarrow> instant \<Rightarrow> int \<Rightarrow> instant \<Rightarrow> nat \<Rightarrow> timed list" where
  "grid ivs s L ee k = map (grid_cell ivs s L ee) [0..<k]"

lemma length_grid [simp]: "length (grid ivs s L ee k) = k"
  by (simp add: grid_def)

lemma grid_Suc: "grid ivs s L ee (Suc k) = grid ivs s L ee k @ [grid_cell ivs s L ee k]"
  by (simp add: grid_def)

text \<open>
  A regular event: one event-level period of a fixed length, no interval of its own period.
\<close>

definition regular :: "wire_env \<Rightarrow> oadr_event \<Rightarrow> oadr_interval list \<Rightarrow> instant \<Rightarrow> int \<Rightarrow> bool" where
  "regular env ev ivs s L \<longleftrightarrow>
     ev_intervals ev = Some ivs \<and> ivs \<noteq> [] \<and> (\<forall>iv \<in> set ivs. iv_period iv = None) \<and>
     (case ev_period ev of
        None \<Rightarrow> False
      | Some p \<Rightarrow> ip_start p = s \<and>
          (case ip_duration p of None \<Rightarrow> False | Some d \<Rightarrow> \<forall>t. to_chrono env d t = L)) \<and>
     0 < L \<and> min_utc env < s \<and> s + int (length ivs) * L < max_utc env"

lemma base_from_regular:
  assumes "\<forall>t. to_chrono env d t = L" and "0 < L" and "min_utc env < s"
    and "s + int (length ivs) * L < max_utc env" and "\<forall>iv \<in> set ivs. iv_period iv = None"
  shows "base_from env (Some d) (Some s) ivs =
     map (\<lambda>i. \<lparr>t_interval = ivs ! i, t_start = s + int i * L, t_end = s + (int i + 1) * L\<rparr>)
       [0..<length ivs]"
  using assms(3-5)
proof (induction ivs arbitrary: s)
  case Nil
  then show ?case by simp
next
  case (Cons iv ivs)
  have pos: "0 \<le> int (length ivs) * L" using assms(2) by simp
  have bound: "s + L + int (length ivs) * L < max_utc env"
    using Cons.prems(2) by (simp add: algebra_simps)
  have first: "timed_of env (Some d) (Some s) iv = \<lparr>t_interval = iv, t_start = s, t_end = s + L\<rparr>"
    using Cons.prems assms(1,2) pos bound
    by (simp add: timed_of_def checked_add_def, linarith)
  have "base_from env (Some d) (Some s) (iv # ivs) =
      \<lparr>t_interval = iv, t_start = s, t_end = s + L\<rparr> # base_from env (Some d) (Some (s + L)) ivs"
    by (simp add: first)
  also have "base_from env (Some d) (Some (s + L)) ivs =
      map (\<lambda>i. \<lparr>t_interval = ivs ! i, t_start = s + L + int i * L, t_end = s + L + (int i + 1) * L\<rparr>)
        [0..<length ivs]"
    by (rule Cons.IH) (use Cons.prems assms(2) bound in auto)
  finally show ?case
    by (simp add: upt_conv_Cons map_Suc_upt [symmetric] algebra_simps del: upt_Suc)
qed

lemma base_regular:
  assumes "regular env ev ivs s L"
  shows "base_intervals env ev =
     map (\<lambda>i. \<lparr>t_interval = ivs ! i, t_start = s + int i * L, t_end = s + (int i + 1) * L\<rparr>)
       [0..<length ivs]"
proof -
  from assms obtain p d where "ev_period ev = Some p" "ip_start p = s" "ip_duration p = Some d"
    "\<forall>t. to_chrono env d t = L"
    by (auto simp: regular_def split: option.splits)
  moreover from this(4) have "base_from env (Some d) (Some s) ivs =
     map (\<lambda>i. \<lparr>t_interval = ivs ! i, t_start = s + int i * L, t_end = s + (int i + 1) * L\<rparr>)
       [0..<length ivs]"
    by (rule base_from_regular) (use assms in \<open>auto simp: regular_def\<close>)
  ultimately show ?thesis
    using assms by (simp add: base_intervals_def event_intervals_def regular_def)
qed

lemma trim_regular:
  assumes "0 < L"
  shows "trim_to (s + W)
      (map (\<lambda>i. \<lparr>t_interval = ivs ! i, t_start = s + int i * L, t_end = s + (int i + 1) * L\<rparr>)
        [0..<length ivs]) =
    grid ivs s L (s + W) (min (length ivs) (cells W L))"
proof -
  let ?cell = "\<lambda>i. \<lparr>t_interval = ivs ! i, t_start = s + int i * L, t_end = s + (int i + 1) * L\<rparr>"
  have sel: "filter (\<lambda>i. int i * L < W) [0..<k] = [0..<min k (cells W L)]" for k
  proof (induction k)
    case 0
    then show ?case by simp
  next
    case (Suc k)
    then show ?case
      using less_cells_iff [OF assms, of k W]
      by (cases "k < cells W L") (auto simp: min_def)
  qed
  have "trim_to (s + W) (map ?cell [0..<length ivs]) =
      map ((\<lambda>it. it\<lparr>t_end := min (t_end it) (s + W)\<rparr>) \<circ> ?cell)
        (filter (\<lambda>i. int i * L < W) [0..<length ivs])"
    by (simp add: trim_to_def filter_map o_def)
  also have "\<dots> = grid ivs s L (s + W) (min (length ivs) (cells W L))"
    unfolding sel grid_def by (rule map_cong) (auto simp: grid_cell_def)
  finally show ?thesis .
qed

text \<open>
  One round of the loop on a regular event, entered with \<open>j\<close> whole repetitions in place:
  from any point \<open>k\<close> of the sequence it completes the grid up to the next repetition, to
  the event's end or to the cap. The room above the window (\<open>hi\<close>) keeps each addition
  inside the range of instants.
\<close>

lemma push_regular:
  assumes L: "0 < L" and lo: "min_utc env < s" and hi: "s + W + int (length ivs) * L \<le> max_utc env"
    and entered: "int (j * length ivs) * L < W"
    and m: "m = min max_looped_intervals (cells W L)"
    and base: "base = map (\<lambda>i. \<lparr>t_interval = ivs ! i, t_start = s + int i * L,
                               t_end = s + (int i + 1) * L\<rparr>) [0..<length ivs]"
    and k: "k \<le> length ivs"
  shows "push_shifted env (int (j * length ivs) * L) (s + W) (drop k base)
      (grid ivs s L (s + W) (min m (j * length ivs + k))) =
    Some (grid ivs s L (s + W) (min m (Suc j * length ivs)))"
  using k
proof (induction "length ivs - k" arbitrary: k)
  case 0
  then have "k = length ivs" by simp
  then show ?case by (simp add: base add.commute)
next
  case (Suc r)
  let ?n = "length ivs" and ?shift = "int (j * length ivs) * L" and ?q = "j * length ivs + k"
  let ?it = "\<lparr>t_interval = ivs ! k, t_start = s + int k * L, t_end = s + (int k + 1) * L\<rparr>"
  from Suc.hyps(2) have kn: "k < ?n" by simp
  then have drop_k: "drop k base = ?it # drop (Suc k) base"
    by (simp add: base Cons_nth_drop_Suc [symmetric])
  have st: "t_start ?it + ?shift = s + int ?q * L" by (simp add: algebra_simps)
  have en: "t_end ?it + ?shift = s + (int ?q + 1) * L" by (simp add: algebra_simps)
  have modq: "?q mod ?n = k" using kn by simp
  have kL: "(int k + 1) * L \<le> int ?n * L"
    using kn L by (intro mult_right_mono) auto
  have split: "int ?q * L = ?shift + int k * L" by (simp add: algebra_simps)
  have nonneg: "0 \<le> int ?q * L" using L by simp
  have "s + int ?q * L \<le> max_utc env"
    using entered hi kL L split by (simp add: algebra_simps)
  then have add_start: "checked_add env (t_start ?it) ?shift = Some (s + int ?q * L)"
    using lo nonneg unfolding checked_add_def st by simp
  show ?case
  proof (cases "?q < m")
    case False
    then have out: "min m ?q = m" "min m (Suc j * ?n) = m" using kn by auto
    have "max_looped_intervals \<le> m \<or> s + W \<le> s + int ?q * L"
      using False m less_cells_iff [OF L, of ?q W] by (auto simp: min_def split: if_splits)
    then show ?thesis
      unfolding drop_k out push_shifted.simps add_start by auto
  next
    case True
    then have inside: "int ?q * L < W" and cap: "?q < max_looped_intervals"
      using m less_cells_iff [OF L, of ?q W] by auto
    have "(int ?q + 1) * L \<le> W + int ?n * L"
      using inside kL L split by (simp add: algebra_simps) (smt (verit) mult_nonneg_nonneg of_nat_0_le_iff)
    moreover have "0 \<le> (int ?q + 1) * L" using L by simp
    ultimately have "checked_add env (t_end ?it) ?shift = Some (s + (int ?q + 1) * L)"
      using lo hi unfolding checked_add_def en by (simp del: of_nat_add of_nat_mult)
    then have "push_shifted env ?shift (s + W) (drop k base) (grid ivs s L (s + W) ?q) =
        push_shifted env ?shift (s + W) (drop (Suc k) base) (grid ivs s L (s + W) (Suc ?q))"
      using cap inside unfolding drop_k push_shifted.simps add_start grid_Suc
      using kn by (simp add: grid_cell_def)
    moreover have "push_shifted env ?shift (s + W) (drop (Suc k) base)
        (grid ivs s L (s + W) (min m (j * ?n + Suc k))) =
      Some (grid ivs s L (s + W) (min m (Suc j * ?n)))"
      by (rule Suc.hyps(1)) (use Suc.hyps(2) kn in auto)
    ultimately show ?thesis using True by simp
  qed
qed

lemma repeat_round:
  assumes "length out < max_looped_intervals" and "checked_add env (t_start f) sh = Some b" and "b < ee"
    and "push_shifted env sh ee (f # rest) out = Some out'"
  shows "repeat_sequence env (f # rest) sp ee sh out = repeat_sequence env (f # rest) sp ee (sh + sp) out'"
  using assms by (subst repeat_sequence.simps) (simp del: push_shifted.simps)

lemma repeat_stop:
  assumes "\<not> length out < max_looped_intervals \<or>
      (\<exists>b. checked_add env (t_start f) sh = Some b \<and> \<not> b < ee)"
  shows "repeat_sequence env (f # rest) sp ee sh out = Some out"
  using assms by (subst repeat_sequence.simps) (auto simp del: push_shifted.simps)

text \<open>The whole loop on a regular event.\<close>

lemma repeat_regular:
  assumes L: "0 < L" and lo: "min_utc env < s" and hi: "s + W + int (length ivs) * L \<le> max_utc env"
    and m: "m = min max_looped_intervals (cells W L)"
    and base: "base = map (\<lambda>i. \<lparr>t_interval = ivs ! i, t_start = s + int i * L,
                               t_end = s + (int i + 1) * L\<rparr>) [0..<length ivs]"
    and ne: "ivs \<noteq> []" and reached: "int (j * length ivs) * L \<le> W + int (length ivs) * L"
  shows "repeat_sequence env base (int (length ivs) * L) (s + W) (int (j * length ivs) * L)
      (grid ivs s L (s + W) (min m (j * length ivs))) =
    Some (grid ivs s L (s + W) m)"
  using reached
proof (induction "Suc m - j * length ivs" arbitrary: j rule: less_induct)
  case less
  let ?n = "length ivs" and ?sh = "int (j * length ivs) * L"
  let ?first = "\<lparr>t_interval = ivs ! 0, t_start = s, t_end = s + L\<rparr>"
  obtain rest where hd: "base = ?first # rest" using ne
    by (simp add: base upt_conv_Cons del: upt_Suc)
  have start: "checked_add env (t_start ?first) ?sh = Some (s + ?sh)"
  proof -
    have "0 \<le> ?sh" using L by simp
    moreover have "s + ?sh \<le> max_utc env" using hi less.prems by linarith
    ultimately show ?thesis using lo by (simp add: checked_add_def)
  qed
  let ?out = "grid ivs s L (s + W) (min m (j * ?n))"
  show ?case
  proof (cases "j * ?n < m")
    case False
    then have full: "min m (j * ?n) = m" by simp
    have "\<not> m < max_looped_intervals \<or> \<not> s + ?sh < s + W"
      using False m less_cells_iff [OF L, of "j * ?n" W] by (auto simp: min_def split: if_splits)
    then show ?thesis
      unfolding full hd by (intro repeat_stop) (use start in auto)
  next
    case True
    then have inside: "?sh < W" and cap: "length ?out < max_looped_intervals"
      using m less_cells_iff [OF L, of "j * ?n" W] by auto
    have n: "0 < ?n" using ne by simp
    have round: "push_shifted env ?sh (s + W) base ?out =
        Some (grid ivs s L (s + W) (min m (Suc j * ?n)))"
      using push_regular [OF L lo hi inside m base, of 0] by simp
    have sh: "?sh + int ?n * L = int (Suc j * ?n) * L" by (simp add: algebra_simps)
    have shrinks: "Suc m - Suc j * ?n < Suc m - j * ?n"
      using True n by (intro diff_less_mono2) simp_all
    have reached: "int (Suc j * ?n) * L \<le> W + int ?n * L" using inside sh by linarith
    have "repeat_sequence env base (int ?n * L) (s + W) ?sh ?out =
        repeat_sequence env base (int ?n * L) (s + W) (?sh + int ?n * L)
          (grid ivs s L (s + W) (min m (Suc j * ?n)))"
      using inside unfolding hd
      by (intro repeat_round [OF cap start _ round [unfolded hd]]) simp
    also have "\<dots> = Some (grid ivs s L (s + W) m)"
      unfolding sh
      by (rule less.hyps [OF shrinks reached])
    finally show ?thesis .
  qed
qed

section \<open>Any event\<close>

lemma trim_within: "it \<in> set (trim_to ee base) \<Longrightarrow> t_start it < ee \<and> t_end it \<le> ee"
  by (auto simp: trim_to_def)

lemma push_shifted_within:
  assumes "push_shifted env sh ee its out = Some out'"
    and "\<forall>it \<in> set out. t_start it < ee \<and> t_end it \<le> ee"
  shows "\<forall>it \<in> set out'. t_start it < ee \<and> t_end it \<le> ee"
  using assms
proof (induction its arbitrary: out)
  case Nil
  then show ?case by simp
next
  case (Cons it its)
  show ?case
  proof (cases "out' = out")
    case True
    with Cons.prems(2) show ?thesis by simp
  next
    case False
    with Cons.prems(1) obtain b e where b: "\<not> ee \<le> b"
      and rest: "push_shifted env sh ee its
        (out @ [\<lparr>t_interval = t_interval it, t_start = b, t_end = min e ee\<rparr>]) = Some out'"
      by (auto split: if_splits option.splits)
    from rest show ?thesis
      by (rule Cons.IH) (use Cons.prems(2) b in auto)
  qed
qed

text \<open>
  What the loop keeps: one round keeps it, and the loop is a sequence of rounds from \<open>out\<close>.
\<close>

lemma repeat_inv:
  assumes "repeat_sequence env base sp ee sh out = Some out'" and "P out"
    and step: "\<And>sh o1 o2. P o1 \<Longrightarrow> length o1 < max_looped_intervals \<Longrightarrow>
      push_shifted env sh ee base o1 = Some o2 \<Longrightarrow> P o2"
  shows "P out'"
  using assms(1,2)
proof (induction "max_looped_intervals - length out" arbitrary: sh out rule: less_induct)
  case less
  show ?case
  proof (cases "out' = out")
    case True
    with less.prems(2) show ?thesis by simp
  next
    case False
    with less.prems(1) obtain f rest b o2 where f: "base = f # rest"
      and cap: "length out < max_looped_intervals"
      and b: "checked_add env (t_start f) sh = Some b" "b < ee"
      and o2: "push_shifted env sh ee base out = Some o2"
      and next_round: "repeat_sequence env base sp ee (sh + sp) o2 = Some out'"
      by (subst (asm) repeat_sequence.simps)
        (auto split: list.splits if_splits option.splits simp del: push_shifted.simps)
    have "length out < length o2"
      using push_shifted_progress [of env sh ee f rest out o2 b] o2 cap b by (simp add: f)
    with cap have "max_looped_intervals - length o2 < max_looped_intervals - length out" by simp
    from less.hyps [OF this next_round step [OF less.prems(2) cap o2]] show ?thesis .
  qed
qed

lemma repeat_within:
  assumes "repeat_sequence env base sp ee sh out = Some out'"
    and "\<forall>it \<in> set out. t_start it < ee \<and> t_end it \<le> ee"
  shows "\<forall>it \<in> set out'. t_start it < ee \<and> t_end it \<le> ee"
  by (rule repeat_inv [where P = "\<lambda>out. \<forall>it \<in> set out. t_start it < ee \<and> t_end it \<le> ee", OF assms])
    (rule push_shifted_within)

lemma repeat_capped:
  assumes "repeat_sequence env base sp ee sh out = Some out'"
  shows "length out' \<le> max (length out) max_looped_intervals"
  by (rule repeat_inv [where P = "\<lambda>o'. length o' \<le> max (length out) max_looped_intervals", OF assms])
    (auto dest: push_shifted_capped)

lemma length_trim: "length (trim_to ee base) \<le> length base"
  by (simp add: trim_to_def)

lemma no_duration_as_declared:
  "ev_duration ev = None \<Longrightarrow> timed_intervals env ev = Some (base_intervals env ev)"
  by (simp add: timed_intervals_def event_window_end_def)

lemma length_base_from [simp]: "length (base_from env dd c ivs) = length ivs"
  by (induction ivs arbitrary: c) (simp_all add: Let_def)

section \<open>The randomised start\<close>

lemma hash_fraction_range: "0 \<le> hash_fraction h \<and> hash_fraction h < 1"
proof -
  have "unat (drop_bit 11 h) < 2 ^ 53"
  proof -
    have "unat h < 2 ^ 64" using unsigned_less [of h] by simp
    then have "unat h div 2 ^ 11 < 2 ^ 53" by simp
    then show ?thesis by (simp only: unat_drop_bit_eq drop_bit_eq_div [where 'a = nat])
  qed
  then have "real (unat (drop_bit 11 h)) < 2 ^ 53"
    by (metis of_nat_less_iff of_nat_numeral of_nat_power)
  moreover have "0 \<le> x / 2 ^ 53 \<and> x / 2 ^ 53 < 1" if "0 \<le> x" "x < 2 ^ 53" for x :: real
    using that by simp
  ultimately show ?thesis unfolding hash_fraction_def by (metis of_nat_0_le_iff)
qed

lemma offset_range:
  assumes "0 < num_milliseconds w"
  shows "0 \<le> randomized_start_offset seed eid w \<and>
    randomized_start_offset seed eid w < milliseconds (num_milliseconds w)"
proof -
  let ?m = "num_milliseconds w" and ?f = "hash_fraction (seed_hash seed eid)"
  have "0 \<le> of_int ?m * ?f" using assms hash_fraction_range by simp
  moreover have "of_int ?m * ?f < of_int ?m"
    using assms hash_fraction_range [of "seed_hash seed eid"] by simp
  ultimately have "0 \<le> f64_as_i64 (of_int ?m * ?f)" "f64_as_i64 (of_int ?m * ?f) < ?m"
    by (auto intro: f64_as_i64_nonneg f64_as_i64_less)
  with assms show ?thesis by (simp add: randomized_start_offset_def milliseconds_def)
qed

lemma shift_period_None: "ip_randomize_start p = None \<Longrightarrow> shift_period env seed eid p = Some p"
  by (simp add: shift_period_def)

lemma those_map_Some: "(\<And>x. x \<in> set xs \<Longrightarrow> f x = Some x) \<Longrightarrow> those (map f xs) = Some xs"
  by (induction xs) auto

section \<open>When the addition cannot panic\<close>

definition shiftable :: "wire_env \<Rightarrow> timed list \<Rightarrow> instant \<Rightarrow> bool" where
  "shiftable env base ee \<longleftrightarrow>
     (base \<noteq> [] \<longrightarrow>
       min_utc env \<le> t_start (hd base) \<and> t_end (last base) \<le> max_utc env \<and>
       ee + (t_end (last base) - t_start (hd base)) \<le> max_utc env \<and>
       (\<forall>it \<in> set base. t_start (hd base) \<le> t_start it \<and> t_start it \<le> t_end (last base) \<and>
          t_start (hd base) \<le> t_end it \<and> t_end it \<le> t_end (last base)))"

lemma push_shifted_total:
  assumes "\<forall>it \<in> set its. lo \<le> t_start it \<and> t_start it \<le> hi \<and> lo \<le> t_end it \<and> t_end it \<le> hi"
    and "min_utc env \<le> lo + sh" and "hi + sh \<le> max_utc env"
  shows "push_shifted env sh ee its out \<noteq> None"
  using assms(1)
proof (induction its arbitrary: out)
  case Nil
  then show ?case by simp
next
  case (Cons it its)
  then have "checked_add env (t_start it) sh = Some (t_start it + sh)"
    "checked_add env (t_end it) sh = Some (t_end it + sh)"
    using assms(2,3) by (auto simp: checked_add_def)
  then show ?case using Cons by auto
qed

lemma repeat_total:
  assumes fit: "shiftable env base ee" and ne: "base \<noteq> []"
    and sp: "sp = t_end (last base) - t_start (hd base)" "0 < sp"
    and sh: "0 \<le> sh" "t_start (hd base) + sh \<le> max_utc env"
  shows "repeat_sequence env base sp ee sh out \<noteq> None"
  using sh
proof (induction "max_looped_intervals - length out" arbitrary: sh out rule: less_induct)
  case less
  obtain f rest where f: "base = f # rest" using ne by (cases base) auto
  have spread: "\<forall>it \<in> set base. t_start f \<le> t_start it \<and> t_start it \<le> t_end (last base) \<and>
      t_start f \<le> t_end it \<and> t_end it \<le> t_end (last base)"
    using fit ne by (simp add: shiftable_def f)
  have first: "checked_add env (t_start f) sh = Some (t_start f + sh)"
    using fit less.prems ne by (simp add: shiftable_def checked_add_def f)
  show ?case
  proof (cases "length out < max_looped_intervals \<and> t_start f + sh < ee")
    case False
    then show ?thesis unfolding f by (subst repeat_stop) (use first in auto)
  next
    case True
    then have cap: "length out < max_looped_intervals" and inside: "t_start f + sh < ee" by auto
    have "push_shifted env sh ee base out \<noteq> None"
      by (rule push_shifted_total [OF spread])
        (use fit ne less.prems inside in \<open>simp_all add: shiftable_def f\<close>)
    then obtain o2 where o2: "push_shifted env sh ee base out = Some o2" by blast
    have "length out < length o2"
      by (rule push_shifted_progress [OF o2 [unfolded f] cap first inside])
    then have less_rounds: "max_looped_intervals - length o2 < max_looped_intervals - length out"
      using cap by linarith
    have room: "t_start (hd base) + (sh + sp) \<le> max_utc env"
      using fit ne inside by (simp add: shiftable_def f sp(1))
    have "repeat_sequence env base sp ee (sh + sp) o2 \<noteq> None"
      by (rule less.hyps [OF less_rounds _ room]) (use less.prems sp(2) in simp)
    moreover have "repeat_sequence env base sp ee sh out = repeat_sequence env base sp ee (sh + sp) o2"
      unfolding f by (rule repeat_round [OF cap first inside o2 [unfolded f]])
    ultimately show ?thesis by simp
  qed
qed

section \<open>Properties\<close>

text \<open>A concrete environment for the witnesses: chrono's range, rounded inwards, and three durations.\<close>

definition sample_env :: wire_env where
  "sample_env = \<lparr>min_utc = - 8 * 10 ^ 24, max_utc = 8 * 10 ^ 24,
     to_chrono = (\<lambda>d t. if d = ''PT2H'' then seconds 7200 else if d = ''PT1H'' then seconds 3600 else seconds 900),
     priority_key = (\<lambda>p. case p of None \<Rightarrow> 0 | Some n \<Rightarrow> - 1 - int n)\<rparr>"

definition sample_interval :: "string \<Rightarrow> f64 \<Rightarrow> oadr_interval" where
  "sample_interval ty v = \<lparr>iv_period = None, iv_payloads = [\<lparr>value_type = ty, pl_values = [VNumber v]\<rparr>]\<rparr>"

definition sample_event :: "wire_duration option \<Rightarrow> interval_period option \<Rightarrow> oadr_interval list \<Rightarrow> oadr_event" where
  "sample_event dur per ivs = \<lparr>ev_id = ''e1'', ev_created = 0, ev_modified = 0, ev_name = None,
     ev_program_id = ''p1'', ev_priority = None, ev_duration = dur, ev_period = per,
     ev_intervals = Some ivs, ev_payload_descriptors = None, ev_report_descriptors = None\<rparr>"

lemmas sample_defs = sample_env_def sample_interval_def sample_event_def

text \<open>
  C27. An event with one event-level period of a fixed length \<open>L\<close>, \<open>n\<close> intervals without a period
  of their own, and a duration \<open>W\<close>: \<^const>\<open>timed_intervals\<close> answers exactly the grid of cells of
  length \<open>L\<close> from the event's start, the \<open>i\<close>-th cell carrying interval \<open>i mod n\<close>, as many as the
  duration reaches into and at most 2000, the last one cut at the event's end.
\<close>

theorem timed_intervals_regular:
  assumes reg: "regular env ev ivs s L"
    and dur: "ev_duration ev = Some D" and W: "to_chrono env D s = W" "0 < W"
    and room: "s + W + int (length ivs) * L \<le> max_utc env"
    and n: "length ivs \<le> max_looped_intervals"
  shows "timed_intervals env ev =
    Some (grid ivs s L (s + W) (min max_looped_intervals (cells W L)))"
proof -
  define base where base: "base = map (\<lambda>i. \<lparr>t_interval = ivs ! i, t_start = s + int i * L,
                               t_end = s + (int i + 1) * L\<rparr>) [0..<length ivs]"
  let ?n = "length ivs"
  from reg have L: "0 < L" and ne: "ivs \<noteq> []" and lo: "min_utc env < s"
    and hi: "s + int ?n * L < max_utc env" by (auto simp: regular_def)
  have n0: "0 < ?n" using ne by simp
  have b: "base_intervals env ev = base" using base_regular [OF reg] by (simp add: base)
  have hd: "hd base = \<lparr>t_interval = ivs ! 0, t_start = s, t_end = s + L\<rparr>" "base \<noteq> []"
    using n0 by (simp_all add: base hd_map)
  have last: "t_end (last base) = s + int ?n * L"
  proof -
    have "int (?n - 1) + 1 = int ?n" using n0 by linarith
    moreover have "t_end (last base) = s + (int (?n - 1) + 1) * L"
      unfolding base using n0 by (subst last_map) simp_all
    ultimately show ?thesis by simp
  qed
  have nL: "L \<le> int ?n * L" using mult_right_mono [of 1 "int ?n" L] n0 L by (simp add: Suc_leI)
  have bounded: "is_bounded env (hd base)"
    using lo hi nL by (simp add: is_bounded_def hd)
  have "t_start (last base) = s + int (?n - 1) * L" using n0 by (simp add: base last_map)
  moreover have last_start_nonneg: "0 \<le> int (?n - 1) * L" using L by simp
  ultimately have bounded2: "is_bounded env (last base)"
    unfolding is_bounded_def last using last_start_nonneg L lo hi by (intro conjI) linarith+
  have "s + W \<le> max_utc env" using room nL L by linarith
  then have "checked_add env s W = Some (s + W)" using lo W by (simp add: checked_add_def)
  then have ee: "event_window_end env ev base = Some (s + W)"
    using dur W bounded hd by (cases base) (auto simp: event_window_end_def)
  have trim: "trim_to (s + W) base = grid ivs s L (s + W) (min ?n (cells W L))"
    unfolding base by (rule trim_regular [OF L])
  have "repeat_sequence env base (int ?n * L) (s + W) (int (1 * ?n) * L)
      (grid ivs s L (s + W) (min (min max_looped_intervals (cells W L)) (1 * ?n))) =
    Some (grid ivs s L (s + W) (min max_looped_intervals (cells W L)))"
    by (rule repeat_regular [OF L lo room refl base ne]) (use W in simp)
  moreover have "min (min max_looped_intervals (cells W L)) ?n = min ?n (cells W L)"
    using n by simp
  moreover have "0 < int ?n * L" using nL L by linarith
  ultimately show ?thesis
    using bounded bounded2 hd last
    by (simp add: timed_intervals_def b ee trim Let_def del: zero_less_mult_iff)
qed

lemma timed_intervals_regular_witness:
  "timed_intervals sample_env
     (sample_event (Some ''PT1H'') (Some \<lparr>ip_start = 0, ip_duration = Some ''PT15M'', ip_randomize_start = None\<rparr>)
       [sample_interval ''PRICE'' 1, sample_interval ''PRICE'' 2]) =
   Some (grid [sample_interval ''PRICE'' 1, sample_interval ''PRICE'' 2] 0 (seconds 900) (0 + seconds 3600)
      (min max_looped_intervals (cells (seconds 3600) (seconds 900))))"
  by (rule timed_intervals_regular)
    (auto simp: regular_def sample_defs seconds_def max_looped_intervals_def)

text \<open>
  Whatever the event declares, where its own duration gives it an end, every interval
  \<^const>\<open>timed_intervals\<close> answers begins before that end and ends no later, and there are at most
  2000 of them, or as many as the event declares when that is more.
\<close>

theorem timed_intervals_within:
  assumes out: "timed_intervals env ev = Some out"
    and ee: "event_window_end env ev (base_intervals env ev) = Some ee"
  shows "(\<forall>it \<in> set out. t_start it < ee \<and> t_end it \<le> ee) \<and>
    length out \<le> max (length (event_intervals ev)) max_looped_intervals"
proof -
  let ?base = "base_intervals env ev"
  have len: "length (trim_to ee ?base) \<le> length (event_intervals ev)"
    using length_trim [of ee ?base] by (simp add: base_intervals_def)
  have "out = trim_to ee ?base \<or>
      (\<exists>sp sh. repeat_sequence env ?base sp ee sh (trim_to ee ?base) = Some out)"
    using out by (simp only: timed_intervals_def ee Let_def option.case split: if_splits) blast+
  then consider "out = trim_to ee ?base"
    | sp sh where "repeat_sequence env ?base sp ee sh (trim_to ee ?base) = Some out" by blast
  then show ?thesis
  proof cases
    case 1
    then show ?thesis using trim_within [of _ ee ?base] len by fastforce
  next
    case 2
    from repeat_within [OF 2] repeat_capped [OF 2] trim_within [of _ ee ?base] len
    show ?thesis by fastforce
  qed
qed

lemma timed_intervals_within_witness:
  "t_start \<lparr>t_interval = \<lparr>iv_period = None, iv_payloads = []\<rparr>, t_start = 0, t_end = seconds 900\<rparr> < seconds 900 \<and>
   t_end \<lparr>t_interval = \<lparr>iv_period = None, iv_payloads = []\<rparr>, t_start = 0, t_end = seconds 900\<rparr> \<le> seconds 900"
proof -
  let ?ev = "sample_event (Some ''PT15M'') (Some \<lparr>ip_start = 0, ip_duration = Some ''PT1H'', ip_randomize_start = None\<rparr>)
       [\<lparr>iv_period = None, iv_payloads = []\<rparr>]"
  have "timed_intervals sample_env ?ev = Some [\<lparr>t_interval = \<lparr>iv_period = None, iv_payloads = []\<rparr>, t_start = 0, t_end = seconds 900\<rparr>]"
    by code_simp
  moreover have "event_window_end sample_env ?ev (base_intervals sample_env ?ev) = Some (seconds 900)"
    by code_simp
  ultimately show ?thesis using timed_intervals_within by fastforce
qed

text \<open>
  \<^const>\<open>timed_intervals\<close> returns, for every event whose declared intervals lie between the first
  one's start and the last one's end and whose end leaves room for one more repetition: none
  of its additions leaves the range of instants.
\<close>

theorem timed_intervals_returns:
  assumes "\<And>ee. event_window_end env ev (base_intervals env ev) = Some ee \<Longrightarrow>
    shiftable env (base_intervals env ev) ee"
  shows "\<exists>out. timed_intervals env ev = Some out"
proof (cases "event_window_end env ev (base_intervals env ev)")
  case None
  then show ?thesis by (simp add: timed_intervals_def)
next
  case (Some ee)
  have fit: "shiftable env (base_intervals env ev) ee" by (rule assms [OF Some])
  have "repeat_sequence env base (t_end (last base) - t_start (hd base)) ee
      (t_end (last base) - t_start (hd base)) out \<noteq> None"
    if "base = base_intervals env ev" "base \<noteq> []" "t_start (hd base) < t_end (last base)" for base out
    by (rule repeat_total) (use fit that in \<open>auto simp: shiftable_def\<close>)
  then show ?thesis
    by (auto simp: timed_intervals_def Some Let_def)
qed

lemma timed_intervals_returns_witness:
  "\<exists>out. timed_intervals sample_env
     (sample_event (Some ''PT1H'') (Some \<lparr>ip_start = 0, ip_duration = Some ''PT15M'', ip_randomize_start = None\<rparr>)
       [sample_interval ''PRICE'' 1]) = Some out"
proof (rule timed_intervals_returns)
  fix ee
  let ?ev = "sample_event (Some ''PT1H'') (Some \<lparr>ip_start = 0, ip_duration = Some ''PT15M'', ip_randomize_start = None\<rparr>)
       [sample_interval ''PRICE'' 1]"
  have base: "base_intervals sample_env ?ev =
      [\<lparr>t_interval = sample_interval ''PRICE'' 1, t_start = 0, t_end = seconds 900\<rparr>]" by code_simp
  assume "event_window_end sample_env ?ev (base_intervals sample_env ?ev) = Some ee"
  moreover have "event_window_end sample_env ?ev (base_intervals sample_env ?ev) = Some (seconds 3600)"
    by code_simp
  ultimately have "ee = seconds 3600" by simp
  then show "shiftable sample_env (base_intervals sample_env ?ev) ee"
    unfolding base by (simp add: shiftable_def sample_env_def seconds_def)
qed

text \<open>
  Without that condition it does not: an interior interval with a period of its own and no
  duration is open-ended, its end is the greatest instant, and the first repetition of a looping
  event adds to it and panics.
\<close>

theorem timed_intervals_open_interval_panics:
  "timed_intervals sample_env
     (sample_event (Some ''PT2H'') None
       [\<lparr>iv_period = Some \<lparr>ip_start = 0, ip_duration = Some ''PT15M'', ip_randomize_start = None\<rparr>, iv_payloads = []\<rparr>,
        \<lparr>iv_period = Some \<lparr>ip_start = seconds 900, ip_duration = None, ip_randomize_start = None\<rparr>, iv_payloads = []\<rparr>,
        \<lparr>iv_period = Some \<lparr>ip_start = seconds 1800, ip_duration = Some ''PT15M'', ip_randomize_start = None\<rparr>, iv_payloads = []\<rparr>])
   = None"
  by code_simp

text \<open>
  A randomised start moves a regular event as a whole: the offset lies between zero and the
  window's length in milliseconds, and every declared interval starts and ends later by exactly
  that offset, so no interval changes its length.
\<close>

theorem randomized_start_moves:
  assumes reg: "regular env ev ivs s L" and p: "ev_period ev = Some p"
    and w: "ip_randomize_start p = Some w" and pos: "0 < num_milliseconds (to_chrono env w s)"
    and room: "s + milliseconds (num_milliseconds (to_chrono env w s)) + int (length ivs) * L \<le> max_utc env"
  shows "\<exists>ev' off. with_randomized_start env ev seed = Some ev' \<and> 0 \<le> off \<and>
    off < milliseconds (num_milliseconds (to_chrono env w s)) \<and>
    map (\<lambda>it. (t_interval it, t_start it, t_end it)) (base_intervals env ev') =
    map (\<lambda>it. (t_interval it, t_start it + off, t_end it + off)) (base_intervals env ev)"
proof -
  let ?off = "randomized_start_offset seed (ev_id ev) (to_chrono env w s)"
  have off: "0 \<le> ?off" "?off < milliseconds (num_milliseconds (to_chrono env w s))"
    using offset_range [OF pos] by blast+
  from reg p obtain d where d: "ip_duration p = Some d" "\<forall>t. to_chrono env d t = L"
    and s: "ip_start p = s" and L: "0 < L" and lo: "min_utc env < s"
    and ivs: "ev_intervals ev = Some ivs" "\<forall>iv \<in> set ivs. iv_period iv = None"
    by (auto simp: regular_def split: option.splits)
  have nL: "0 \<le> int (length ivs) * L" using L by simp
  let ?ev = "ev\<lparr>ev_period := Some (p\<lparr>ip_start := s + ?off\<rparr>), ev_intervals := Some ivs\<rparr>"
  have "checked_add env s ?off = Some (s + ?off)"
    using off room nL lo by (simp add: checked_add_def)
  moreover have "those (map (shift_interval env seed (ev_id ev)) ivs) = Some ivs"
    by (rule those_map_Some) (use ivs in \<open>simp add: shift_interval_def\<close>)
  ultimately have moved: "with_randomized_start env ev seed = Some ?ev"
    by (simp add: with_randomized_start_def p shift_period_def w s ivs)
  have "regular env ?ev ivs (s + ?off) L"
    using reg off room lo nL p d s by (auto simp: regular_def)
  from base_regular [OF this] base_regular [OF reg]
  have "map (\<lambda>it. (t_interval it, t_start it, t_end it)) (base_intervals env ?ev) =
    map (\<lambda>it. (t_interval it, t_start it + ?off, t_end it + ?off)) (base_intervals env ev)"
    by (simp add: o_def algebra_simps)
  with moved off show ?thesis by blast
qed

lemma randomized_start_moves_witness:
  "\<exists>ev' off. with_randomized_start sample_env
      (sample_event None (Some \<lparr>ip_start = 0, ip_duration = Some ''PT15M'', ip_randomize_start = Some ''PT1H''\<rparr>)
        [sample_interval ''PRICE'' 1]) ''ven-1'' = Some ev' \<and> 0 \<le> off \<and>
    off < milliseconds (num_milliseconds (to_chrono sample_env ''PT1H'' 0)) \<and>
    map (\<lambda>it. (t_interval it, t_start it, t_end it)) (base_intervals sample_env ev') =
    map (\<lambda>it. (t_interval it, t_start it + off, t_end it + off)) (base_intervals sample_env
      (sample_event None (Some \<lparr>ip_start = 0, ip_duration = Some ''PT15M'', ip_randomize_start = Some ''PT1H''\<rparr>)
        [sample_interval ''PRICE'' 1]))"
  by (rule randomized_start_moves [where ivs = "[sample_interval ''PRICE'' 1]" and s = 0 and L = "seconds 900"
        and p = "\<lparr>ip_start = 0, ip_duration = Some ''PT15M'', ip_randomize_start = Some ''PT1H''\<rparr>"])
    (simp_all add: regular_def sample_defs num_ms_seconds milliseconds_def, simp_all add: seconds_def)

end
