(* ===== verification/Vtn_Auth.thy ===== *)
theory Vtn_Auth
  imports Event_Timing_Facts
begin

text \<open>
  \<open>lab-core/src/vtn_auth.rs\<close>: the cached client-credentials token and the request that is retried
  once when the VTN refuses the token. The outside (the token endpoint, the VTN, the monotonic clock)
  is the record \<open>auth_world\<close>: what each answers may depend on every call made so far, which the
  state keeps as a trace. One caller is modelled; clones that share the token interleave between calls.
\<close>

definition token_expiry_margin_s :: nat where
  "token_expiry_margin_s = 60"

definition default_token_lifetime_s :: nat where
  "default_token_lifetime_s = 3600"

datatype auth_error =
    TokenRequest
  | TokenRejected nat string
  | TokenParse
  | SendFailed bool

fun is_token_failure :: "auth_error \<Rightarrow> bool" where
  "is_token_failure (SendFailed retried) \<longleftrightarrow> False"
| "is_token_failure _ \<longleftrightarrow> True"

fun is_transport :: "auth_error \<Rightarrow> bool" where
  "is_transport TokenRequest \<longleftrightarrow> True"
| "is_transport (SendFailed _) \<longleftrightarrow> True"
| "is_transport (TokenRejected _ _) \<longleftrightarrow> False"
| "is_transport TokenParse \<longleftrightarrow> False"

record token =
  tk_access :: string
  tk_acquired_at :: instant
  tk_expires_in_s :: nat

datatype auth_call = TokenCall | RequestCall string

datatype token_answer = TokenUnreachable | TokenStatus nat string | TokenBadBody | TokenIssued string "nat option"

datatype request_answer = Unreachable | Answered nat

record auth_world =
  ask_token :: "auth_call list \<Rightarrow> token_answer"
  ask_vtn :: "auth_call list \<Rightarrow> request_answer"
  mono_clock :: "auth_call list \<Rightarrow> instant"

record auth_state =
  au_token :: "token option"
  au_trace :: "auth_call list"

definition elapsed :: "auth_world \<Rightarrow> auth_state \<Rightarrow> token \<Rightarrow> span" where
  "elapsed w st t = max 0 (mono_clock w (au_trace st) - tk_acquired_at t)"

definition fetch :: "auth_world \<Rightarrow> auth_state \<Rightarrow> (auth_error + string) \<times> auth_state" where
  "fetch w st =
     (let st' = st\<lparr>au_trace := au_trace st @ [TokenCall]\<rparr> in
      case ask_token w (au_trace st) of
        TokenUnreachable \<Rightarrow> (Inl TokenRequest, st')
      | TokenStatus status body \<Rightarrow> (Inl (TokenRejected status body), st')
      | TokenBadBody \<Rightarrow> (Inl TokenParse, st')
      | TokenIssued access expires_in \<Rightarrow>
          (Inr access, st'\<lparr>au_token := Some \<lparr>tk_access = access, tk_acquired_at = mono_clock w (au_trace st'),
             tk_expires_in_s = hm_or default_token_lifetime_s expires_in\<rparr>\<rparr>))"

definition still_good :: "auth_world \<Rightarrow> auth_state \<Rightarrow> token \<Rightarrow> bool" where
  "still_good w st t \<longleftrightarrow> num_seconds (elapsed w st t) + int token_expiry_margin_s < int (tk_expires_in_s t)"

definition get_token :: "auth_world \<Rightarrow> auth_state \<Rightarrow> (auth_error + string) \<times> auth_state" where
  "get_token w st =
     (case au_token st of
        Some t \<Rightarrow> if still_good w st t then (Inr (tk_access t), st) else fetch w st
      | None \<Rightarrow> fetch w st)"

definition invalidate :: "auth_state \<Rightarrow> auth_state" where
  "invalidate st = st\<lparr>au_token := None\<rparr>"

definition send_once :: "auth_world \<Rightarrow> bool \<Rightarrow> auth_state \<Rightarrow> (auth_error + nat) \<times> auth_state" where
  "send_once w retried st =
     (case get_token w st of
        (Inl e, st') \<Rightarrow> (Inl e, st')
      | (Inr tok, st') \<Rightarrow>
          (let st'' = st'\<lparr>au_trace := au_trace st' @ [RequestCall tok]\<rparr> in
           case ask_vtn w (au_trace st'') of
             Unreachable \<Rightarrow> (Inl (SendFailed retried), st'')
           | Answered status \<Rightarrow> (Inr status, st'')))"

definition auth_refused :: "nat \<Rightarrow> bool" where
  "auth_refused status \<longleftrightarrow> status = 401 \<or> status = 403"

definition send :: "auth_world \<Rightarrow> auth_state \<Rightarrow> (auth_error + nat) \<times> auth_state" where
  "send w st =
     (case send_once w False st of
        (Inl e, st') \<Rightarrow> (Inl e, st')
      | (Inr status, st') \<Rightarrow>
          if \<not> auth_refused status then (Inr status, st')
          else send_once w True (invalidate st'))"

text \<open>
  The wall-clock expiry, for a status display: \<open>None\<close> where the code panics. The lifetime is cast to a
  signed integer, and \<open>Duration::seconds\<close> panics beyond \<open>i64::MAX / 1000\<close>.
\<close>

definition expires_at :: "wire_env \<Rightarrow> auth_world \<Rightarrow> auth_state \<Rightarrow> instant \<Rightarrow> instant option option" where
  "expires_at env w st now =
     (case au_token st of
        None \<Rightarrow> Some None
      | Some t \<Rightarrow>
          (case duration_seconds (u64_as_i64 (tk_expires_in_s t)) of
             None \<Rightarrow> None
           | Some life \<Rightarrow>
               (case checked_add env now (- elapsed w st t) of
                  None \<Rightarrow> None
                | Some t0 \<Rightarrow> map_option Some (checked_add env t0 life))))"

section \<open>Lemmas\<close>

lemma fetch_cases:
  "(\<exists>e. fetch w st = (Inl e, st\<lparr>au_trace := au_trace st @ [TokenCall]\<rparr>) \<and> is_token_failure e) \<or>
   (\<exists>tok st'. fetch w st = (Inr tok, st') \<and> au_trace st' = au_trace st @ [TokenCall] \<and>
      (\<exists>x. ask_token w (au_trace st) = TokenIssued tok x) \<and>
      (\<exists>t. au_token st' = Some t \<and> tk_access t = tok))"
  by (simp add: fetch_def Let_def split: token_answer.split)

lemma elapsed_less:
  "elapsed w st t < seconds (num_seconds (elapsed w st t) + 1)"
proof -
  have "0 \<le> elapsed w st t" by (simp add: elapsed_def)
  then have "num_seconds (elapsed w st t) = elapsed w st t div 1000000000"
    by (simp add: num_seconds_def time_simps)
  then show ?thesis by (simp add: seconds_def)
qed

section \<open>Properties\<close>

text \<open>
  C30. A token taken from the cache has more than the margin of 60 seconds left to live on the monotonic
  clock, and taking it makes no call; any other token was issued by the one token call this made.
\<close>

theorem get_token_fresh:
  assumes "get_token w st = (Inr tok, st')"
  shows "(\<exists>t. au_token st = Some t \<and> tk_access t = tok \<and> st' = st \<and>
      elapsed w st t + seconds 60 < seconds (int (tk_expires_in_s t))) \<or>
    (au_trace st' = au_trace st @ [TokenCall] \<and> (\<exists>x. ask_token w (au_trace st) = TokenIssued tok x))"
proof (cases "\<exists>t. au_token st = Some t \<and> still_good w st t")
  case True
  then obtain t where t: "au_token st = Some t" "still_good w st t" by blast
  have "seconds (num_seconds (elapsed w st t) + 1) + seconds 60 \<le> seconds (int (tk_expires_in_s t))"
    using t(2) by (simp add: still_good_def token_expiry_margin_s_def seconds_def)
  with elapsed_less [of w st t] have "elapsed w st t + seconds 60 < seconds (int (tk_expires_in_s t))"
    by linarith
  with assms t show ?thesis by (auto simp: get_token_def)
next
  case False
  then have "get_token w st = fetch w st" by (auto simp: get_token_def split: option.split)
  with fetch_cases [of w st] assms show ?thesis by auto
qed

definition sample_world :: auth_world where
  "sample_world = \<lparr>ask_token = (\<lambda>tr. TokenIssued ''tok'' (Some 600)),
     ask_vtn = (\<lambda>tr. if length tr \<le> 2 then Answered 401 else Answered 200), mono_clock = (\<lambda>tr. int (length tr))\<rparr>"

lemma get_token_fresh_witness:
  "\<exists>st'. get_token sample_world \<lparr>au_token = None, au_trace = []\<rparr> = (Inr ''tok'', st') \<and>
    au_trace st' = [TokenCall]"
proof -
  obtain st' where st': "get_token sample_world \<lparr>au_token = None, au_trace = []\<rparr> = (Inr ''tok'', st')"
    by (simp add: get_token_def fetch_def sample_world_def Let_def)
  with get_token_fresh [OF st'] show ?thesis by auto
qed

text \<open>
  One request makes at most two attempts. After an answer that is not 401 or 403 it makes no further
  call and returns that answer; after a refusal it always asks for a new token, never reusing a cached one,
  and sends once more with the token just issued; a failed token call sends nothing.
\<close>

theorem send_retries_once:
  assumes "send w st = (res, st')"
  shows "(au_trace st' = au_trace st @ [TokenCall] \<and> (\<exists>e. res = Inl e \<and> is_token_failure e)) \<or>
     (\<exists>pre a. (pre = [] \<and> (\<exists>t. au_token st = Some t \<and> still_good w st t \<and> tk_access t = a) \<or>
                pre = [TokenCall] \<and> (\<exists>x. ask_token w (au_trace st) = TokenIssued a x)) \<and>
       (let tr = au_trace st @ pre @ [RequestCall a] in
        case ask_vtn w tr of
          Unreachable \<Rightarrow> au_trace st' = tr \<and> res = Inl (SendFailed False)
        | Answered status \<Rightarrow>
            if \<not> auth_refused status then au_trace st' = tr \<and> res = Inr status
            else (case ask_token w tr of
                TokenIssued b x \<Rightarrow>
                  au_trace st' = tr @ [TokenCall, RequestCall b] \<and>
                  res = (case ask_vtn w (tr @ [TokenCall, RequestCall b]) of
                           Unreachable \<Rightarrow> Inl (SendFailed True) | Answered s \<Rightarrow> Inr s)
              | _ \<Rightarrow> au_trace st' = tr @ [TokenCall] \<and> (\<exists>e. res = Inl e \<and> is_token_failure e))))"
proof -
  have retry: "ask_token w tr = TokenIssued b x \<Longrightarrow>
      send_once w True (invalidate st1) = (r2, st2) \<Longrightarrow> au_trace st1 = tr \<Longrightarrow>
      au_trace st2 = tr @ [TokenCall, RequestCall b] \<and>
      r2 = (case ask_vtn w (tr @ [TokenCall, RequestCall b]) of Unreachable \<Rightarrow> Inl (SendFailed True) | Answered s \<Rightarrow> Inr s)"
    for tr b x st1 r2 st2
    by (auto simp: send_once_def invalidate_def get_token_def fetch_def Let_def split: request_answer.splits)
  have refused: "send_once w True (invalidate st1) = (r2, st2) \<Longrightarrow> au_trace st1 = tr \<Longrightarrow>
      (\<forall>b x. ask_token w tr \<noteq> TokenIssued b x) \<Longrightarrow>
      au_trace st2 = tr @ [TokenCall] \<and> (\<exists>e. r2 = Inl e \<and> is_token_failure e)"
    for tr st1 r2 st2
    by (auto simp: send_once_def invalidate_def get_token_def fetch_def Let_def split: token_answer.splits)
  have after: "au_trace st1 = au_trace st @ pre \<Longrightarrow> get_token w st = (Inr a, st1) \<Longrightarrow>
      (let tr = au_trace st @ pre @ [RequestCall a] in
        case ask_vtn w tr of
          Unreachable \<Rightarrow> au_trace st' = tr \<and> res = Inl (SendFailed False)
        | Answered status \<Rightarrow>
            if \<not> auth_refused status then au_trace st' = tr \<and> res = Inr status
            else (case ask_token w tr of
                TokenIssued b x \<Rightarrow>
                  au_trace st' = tr @ [TokenCall, RequestCall b] \<and>
                  res = (case ask_vtn w (tr @ [TokenCall, RequestCall b]) of
                           Unreachable \<Rightarrow> Inl (SendFailed True) | Answered s \<Rightarrow> Inr s)
              | _ \<Rightarrow> au_trace st' = tr @ [TokenCall] \<and> (\<exists>e. res = Inl e \<and> is_token_failure e)))"
    for pre a st1
  proof -
    assume st1: "au_trace st1 = au_trace st @ pre" and tok: "get_token w st = (Inr a, st1)"
    let ?tr = "au_trace st @ pre @ [RequestCall a]" and ?st1 = "st1\<lparr>au_trace := au_trace st1 @ [RequestCall a]\<rparr>"
    have tr: "au_trace ?st1 = ?tr" using st1 by simp
    have once: "send_once w False st =
        (case ask_vtn w ?tr of Unreachable \<Rightarrow> (Inl (SendFailed False), ?st1) | Answered s \<Rightarrow> (Inr s, ?st1))"
      using tok st1 by (simp add: send_once_def Let_def)
    show ?thesis
    proof (cases "ask_vtn w ?tr")
      case Unreachable
      then show ?thesis using assms once tr by (auto simp: send_def)
    next
      case (Answered status)
      show ?thesis
      proof (cases "auth_refused status")
        case False
        then show ?thesis using assms once tr Answered by (auto simp: send_def)
      next
        case True
        then have again: "send_once w True (invalidate ?st1) = (res, st')"
          using assms once Answered by (simp add: send_def)
        show ?thesis
          unfolding Let_def using Answered True retry [OF _ again tr] refused [OF again tr]
          by (cases "ask_token w ?tr") simp_all
      qed
    qed
  qed
  show ?thesis
  proof (cases "get_token w st")
    case (Pair r st1)
    show ?thesis
    proof (cases r)
      case (Inl e)
      then have "au_trace st1 = au_trace st @ [TokenCall]" "is_token_failure e"
        using Pair fetch_cases [of w st] by (auto simp: get_token_def split: option.splits if_splits)
      with Inl Pair assms(1) show ?thesis by (auto simp: send_def send_once_def)
    next
      case (Inr a)
      with Pair have tok: "get_token w st = (Inr a, st1)" by simp
      have "(st1 = st \<and> (\<exists>t. au_token st = Some t \<and> still_good w st t \<and> tk_access t = a)) \<or>
          (au_trace st1 = au_trace st @ [TokenCall] \<and> (\<exists>x. ask_token w (au_trace st) = TokenIssued a x))"
        using tok fetch_cases [of w st] by (auto simp: get_token_def split: option.splits if_splits)
      then show ?thesis
        using after [OF _ tok, of "[]"] after [OF _ tok, of "[TokenCall]"] by fastforce
    qed
  qed
qed

lemma send_retries_once_witness:
  "\<exists>st'. send sample_world \<lparr>au_token = None, au_trace = []\<rparr> = (Inr 200, st') \<and>
     au_trace st' = [TokenCall, RequestCall ''tok'', TokenCall, RequestCall ''tok'']"
proof -
  obtain res st' where s: "send sample_world \<lparr>au_token = None, au_trace = []\<rparr> = (res, st')"
    by (cases "send sample_world \<lparr>au_token = None, au_trace = []\<rparr>")
  then have res: "res = Inr 200"
    by (auto simp: send_def send_once_def get_token_def fetch_def sample_world_def Let_def invalidate_def auth_refused_def)
  have "au_trace st' = [TokenCall, RequestCall ''tok'', TokenCall, RequestCall ''tok'']"
    using send_retries_once [OF s] by (auto simp: res sample_world_def Let_def auth_refused_def)
  with s res show ?thesis by blast
qed

text \<open>
  The wall-clock expiry shown for a cached token is unclamped: where it is shown, it lies in the past
  exactly when the token has outlived its lifetime; but a lifetime of 2^63 / 1000 seconds or more, which
  the token endpoint chooses, panics instead.
\<close>

theorem expires_at_unclamped:
  assumes "au_token st = Some t"
  shows "(case expires_at env w st now of
      Some (Some e) \<Rightarrow> e - now = seconds (u64_as_i64 (tk_expires_in_s t)) - elapsed w st t
    | Some None \<Rightarrow> False
    | None \<Rightarrow> 9223372036854775 < \<bar>u64_as_i64 (tk_expires_in_s t)\<bar> \<or>
        checked_add env now (- elapsed w st t) = None \<or>
        checked_add env (now - elapsed w st t) (seconds (u64_as_i64 (tk_expires_in_s t))) = None)"
  by (auto simp: expires_at_def assms duration_seconds_def checked_add_def split: option.splits if_splits)

lemma expires_at_unclamped_witness:
  "(case expires_at sample_env sample_world
      \<lparr>au_token = Some \<lparr>tk_access = ''a'', tk_acquired_at = 0, tk_expires_in_s = 10\<rparr>, au_trace = []\<rparr> 0 of
      Some (Some e) \<Rightarrow> e = seconds 10 | _ \<Rightarrow> False)"
  using expires_at_unclamped [where st = "\<lparr>au_token = Some \<lparr>tk_access = ''a'', tk_acquired_at = 0, tk_expires_in_s = 10\<rparr>, au_trace = []\<rparr>"
      and t = "\<lparr>tk_access = ''a'', tk_acquired_at = 0, tk_expires_in_s = 10\<rparr>" and env = sample_env
      and w = sample_world and now = 0]
  by (auto simp: elapsed_def sample_world_def u64_as_i64_def sample_env_def checked_add_def seconds_def split: option.splits)

end
