(* ===== verification/Fleet_Channel.thy ===== *)
theory Fleet_Channel
  imports Lab_Prelude "HOL-Library.Sublist"
begin

text \<open>
  \<open>lab-core/src/fleet_channel.rs\<close> and \<open>lab-core/src/units.rs\<close>: the topic of a VEN's leaf on the fleet
  channel and how it is split again, the broker settings read from variables, and the unit conversions.
\<close>

definition ven_topic_root :: "string \<Rightarrow> string \<Rightarrow> string" where
  "ven_topic_root broot ven = broot @ ''/fleet/'' @ ven"

definition ven_topic :: "string \<Rightarrow> string \<Rightarrow> string \<Rightarrow> string" where
  "ven_topic broot ven leaf = ven_topic_root broot ven @ ''/'' @ leaf"

definition fleet_subscription :: "string \<Rightarrow> string" where
  "fleet_subscription broot = broot @ ''/fleet/+/#''"

definition strip_prefix_of :: "string \<Rightarrow> string \<Rightarrow> string option" where
  "strip_prefix_of p s = (if prefix p s then Some (drop (length p) s) else None)"

text \<open>\<open>splitn(2, '/')\<close>: the part before the first slash, and what follows it if there is one.\<close>

definition split2 :: "char \<Rightarrow> string \<Rightarrow> string \<times> string option" where
  "split2 c s =
     (let head = takeWhile (\<lambda>x. x \<noteq> c) s; rest = dropWhile (\<lambda>x. x \<noteq> c) s in
      (head, if rest = [] then None else Some (tl rest)))"

definition non_empty :: "string option \<Rightarrow> string option" where
  "non_empty s = (case s of None \<Rightarrow> None | Some v \<Rightarrow> if v = [] then None else Some v)"

definition parse_topic :: "string \<Rightarrow> string \<Rightarrow> (string \<times> string) option" where
  "parse_topic broot topic =
     (case strip_prefix_of (broot @ ''/fleet/'') topic of
        None \<Rightarrow> None
      | Some rest \<Rightarrow>
          (let (ven, leaf) = split2 CHR ''/'' rest in
           case non_empty (Some ven) of
             None \<Rightarrow> None
           | Some ven \<Rightarrow>
               (case non_empty leaf of None \<Rightarrow> None | Some leaf \<Rightarrow> Some (ven, leaf))))"

section \<open>The broker's settings\<close>

record broker_config =
  bk_host :: string
  bk_port :: nat
  bk_username :: "string option"
  bk_password :: "string option"
  bk_root :: string

text \<open>\<open>u16::from_str\<close>: an optional plus sign and decimal digits, at most 65535.\<close>

definition digit_of :: "char \<Rightarrow> nat option" where
  "digit_of c = (let n = of_char c :: nat in if 48 \<le> n \<and> n \<le> 57 then Some (n - 48) else None)"

fun digits_value :: "string \<Rightarrow> nat \<Rightarrow> nat option" where
  "digits_value [] acc = Some acc"
| "digits_value (c # cs) acc =
     (case digit_of c of None \<Rightarrow> None
      | Some d \<Rightarrow> if 65535 < acc * 10 + d then None else digits_value cs (acc * 10 + d))"

definition parse_u16 :: "string \<Rightarrow> nat option" where
  "parse_u16 s =
     (let digits = (if s \<noteq> [] \<and> hd s = CHR ''+'' then tl s else s) in
      if digits = [] then None else digits_value digits 0)"

definition from_vars :: "(string \<Rightarrow> string option) \<Rightarrow> broker_config option" where
  "from_vars get =
     (case non_empty (get ''FLEET_MQTT_HOST'') of
        None \<Rightarrow> None
      | Some host \<Rightarrow> Some
          \<lparr>bk_host = host,
           bk_port = hm_or 1884 (Option.bind (get ''FLEET_MQTT_PORT'') parse_u16),
           bk_username = non_empty (get ''FLEET_MQTT_USERNAME''),
           bk_password = non_empty (get ''FLEET_MQTT_PASSWORD''),
           bk_root = hm_or ''openadr-lab'' (get ''FLEET_MQTT_ROOT'')\<rparr>)"

section \<open>Units\<close>

definition dt_h_from_s :: "f64 \<Rightarrow> f64" where
  "dt_h_from_s s = s / 3600"

definition dt_h_from_duration :: "span \<Rightarrow> f64" where
  "dt_h_from_duration d = of_int (num_milliseconds d) / 3600000"

definition energy_kwh :: "f64 \<Rightarrow> f64 \<Rightarrow> f64" where
  "energy_kwh power_kw dt_h = power_kw * dt_h"

lemma dt_h_whole_seconds: "dt_h_from_duration (seconds n) = dt_h_from_s (of_int n)"
  by (simp add: dt_h_from_duration_def dt_h_from_s_def num_ms_seconds)

lemma digits_value_bound: "digits_value s acc = Some n \<Longrightarrow> acc \<le> 65535 \<Longrightarrow> n \<le> 65535"
  by (induction s arbitrary: acc) (auto split: option.splits if_splits)

lemma parse_u16_bound: "parse_u16 s = Some n \<Longrightarrow> n \<le> 65535"
  by (auto simp: parse_u16_def Let_def split: if_splits intro: digits_value_bound [of _ 0])

lemma port_is_u16:
  assumes "from_vars get = Some c"
  shows "bk_port c \<le> 65535"
proof -
  from assms have "bk_port c = hm_or 1884 (Option.bind (get ''FLEET_MQTT_PORT'') parse_u16)"
    by (auto simp: from_vars_def split: option.splits)
  then show ?thesis
    by (cases "Option.bind (get ''FLEET_MQTT_PORT'') parse_u16") (auto simp: bind_eq_Some_conv parse_u16_bound)
qed

section \<open>Properties\<close>

lemma split2_joined:
  assumes "c \<notin> set a"
  shows "split2 c (a @ c # b) = (a, Some b)"
proof -
  have "takeWhile (\<lambda>x. x \<noteq> c) (a @ c # b) = a" "dropWhile (\<lambda>x. x \<noteq> c) (a @ c # b) = c # b"
    using assms by (induction a) auto
  then show ?thesis by (simp add: split2_def Let_def)
qed

lemma split2_Some:
  assumes "split2 c s = (a, Some b)"
  shows "s = a @ c # b \<and> c \<notin> set a"
  using assms
proof (induction s arbitrary: a)
  case (Cons x s)
  show ?case
  proof (cases "x = c")
    case False
    with Cons.prems obtain a' where "split2 c s = (a', Some b)" "a = x # a'"
      by (auto simp: split2_def Let_def split: if_splits)
    with Cons.IH False show ?thesis by auto
  qed (use Cons.prems in \<open>auto simp: split2_def Let_def\<close>)
qed (simp add: split2_def)

text \<open>
  C40. Reading a topic inverts writing it: for a VEN name without a slash and a leaf, both non-empty,
  the topic of the leaf parses to exactly them; and whatever parses is the topic of what it parsed
  to, so no topic outside the channel's shape names a VEN.
\<close>

theorem parse_topic_roundtrip:
  "parse_topic broot topic = Some (ven, leaf) \<longleftrightarrow>
     topic = ven_topic broot ven leaf \<and> ven \<noteq> [] \<and> CHR ''/'' \<notin> set ven \<and> leaf \<noteq> []"
proof
  assume "parse_topic broot topic = Some (ven, leaf)"
  then obtain rest where rest: "strip_prefix_of (broot @ ''/fleet/'') topic = Some rest"
    and split: "split2 CHR ''/'' rest = (ven, Some leaf)" and ne: "ven \<noteq> []" "leaf \<noteq> []"
    by (auto simp: parse_topic_def non_empty_def split: option.splits prod.splits if_splits)
  from rest have "topic = (broot @ ''/fleet/'') @ rest"
    by (auto simp: strip_prefix_of_def prefix_def split: if_splits)
  with split2_Some [OF split] ne
  show "topic = ven_topic broot ven leaf \<and> ven \<noteq> [] \<and> CHR ''/'' \<notin> set ven \<and> leaf \<noteq> []"
    by (simp add: ven_topic_def ven_topic_root_def)
next
  assume a: "topic = ven_topic broot ven leaf \<and> ven \<noteq> [] \<and> CHR ''/'' \<notin> set ven \<and> leaf \<noteq> []"
  then have "topic = (broot @ ''/fleet/'') @ ven @ CHR ''/'' # leaf"
    by (simp add: ven_topic_def ven_topic_root_def)
  then have "strip_prefix_of (broot @ ''/fleet/'') topic = Some (ven @ CHR ''/'' # leaf)"
    unfolding strip_prefix_of_def by (simp add: prefix_def)
  with a show "parse_topic broot topic = Some (ven, leaf)"
    by (simp add: parse_topic_def split2_joined non_empty_def)
qed

end
