(* ===== verification/Session_Queue.thy ===== *)
theory Session_Queue
  imports Time_Window "HOL-Library.Multiset"
begin

text \<open>
  \<open>VEN/src/entities/device_session.rs\<close>: an EV's charging sessions, kept ordered by window start and
  free of overlaps by the checked insert. A session is a record with the fields of the struct; an id is
  a number, fresh ids are the caller's concern.
\<close>

datatype ev_session_origin = UserRequestOrigin | VtnOrigin | SimulatedUsage

datatype user_request_mode = Asap | AsapFree | ByDeadline | ByDeadlineFree | MaxCost | Opportunistic

record comfort_rate =
  cr_fill :: f64
  cr_max_marginal_price :: f64
  cr_max_marginal_co2 :: f64

record ev_session =
  es_id :: uuid
  es_asset_id :: string
  es_target_soc_frac :: f64
  es_window_start :: instant
  es_departure_time :: instant
  es_trip_distance_km :: "f64 option"
  es_return_time :: "instant option"
  es_soft_deadline :: bool
  es_origin :: ev_session_origin
  es_mode :: user_request_mode
  es_budget_eur :: "f64 option"
  es_comfort_rates :: "comfort_rate list"
  es_created_at :: instant
  es_updated_at :: instant

definition simulated_session :: "uuid \<Rightarrow> string \<Rightarrow> f64 \<Rightarrow> instant \<Rightarrow> instant \<Rightarrow> instant \<Rightarrow> ev_session" where
  "simulated_session new_id asset soc start departure now =
     \<lparr>es_id = new_id, es_asset_id = asset, es_target_soc_frac = soc, es_window_start = start,
      es_departure_time = departure, es_trip_distance_km = None, es_return_time = None,
      es_soft_deadline = False, es_origin = SimulatedUsage, es_mode = ByDeadline, es_budget_eur = None,
      es_comfort_rates = [], es_created_at = now, es_updated_at = now\<rparr>"

type_synonym session_queue = "ev_session list"

record session_conflict =
  cf_candidate :: uuid
  cf_conflicts :: "uuid list"

datatype replace_rejection =
    NotQueued "uuid list"
  | NotTheConflictSet (rj_missing: "uuid list") (rj_extra: "uuid list")
  | StillConflicts session_conflict

section \<open>Operations\<close>

definition sessions_overlap :: "ev_session \<Rightarrow> ev_session \<Rightarrow> bool" where
  "sessions_overlap a b \<longleftrightarrow>
     es_window_start a < es_departure_time b \<and> es_window_start b < es_departure_time a"

definition queue_conflicts :: "session_queue \<Rightarrow> ev_session \<Rightarrow> uuid list" where
  "queue_conflicts q cand =
     map es_id (filter (\<lambda>s. es_id s \<noteq> es_id cand \<and> sessions_overlap s cand) q)"

definition insert_at_start :: "ev_session \<Rightarrow> session_queue \<Rightarrow> session_queue" where
  "insert_at_start s q =
     (let pos = length (takeWhile (\<lambda>x. es_window_start x \<le> es_window_start s) q)
      in take pos q @ s # drop pos q)"

definition queue_insert :: "session_queue \<Rightarrow> ev_session \<Rightarrow> (session_conflict + unit) \<times> session_queue" where
  "queue_insert q s =
     (let conflicts = queue_conflicts q s in
      if conflicts \<noteq> [] then (Inl \<lparr>cf_candidate = es_id s, cf_conflicts = conflicts\<rparr>, q)
      else (Inr (), insert_at_start s q))"

fun queue_remove :: "uuid \<Rightarrow> session_queue \<Rightarrow> ev_session option \<times> session_queue" where
  "queue_remove i [] = (None, [])"
| "queue_remove i (s # q) =
     (if es_id s = i then (Some s, q)
      else (let (r, q') = queue_remove i q in (r, s # q')))"

fun remove_all_named :: "uuid list \<Rightarrow> session_queue \<Rightarrow> ev_session list \<times> session_queue" where
  "remove_all_named [] q = ([], q)"
| "remove_all_named (i # ids) q =
     (case queue_remove i q of
        (None, q1) \<Rightarrow> remove_all_named ids q1
      | (Some s, q1) \<Rightarrow> (let (rs, q2) = remove_all_named ids q1 in (s # rs, q2)))"

definition queue_replace ::
  "uuid list \<Rightarrow> ev_session \<Rightarrow> session_queue \<Rightarrow> (replace_rejection + ev_session list) \<times> session_queue" where
  "queue_replace ids s q =
     (let not_queued = filter (\<lambda>i. \<not> list_ex (\<lambda>x. es_id x = i) q) ids in
      if not_queued \<noteq> [] then (Inl (NotQueued not_queued), q)
      else
        (let clashing = queue_conflicts q s;
             missing = filter (\<lambda>i. i \<notin> set ids) clashing;
             extra = filter (\<lambda>i. i \<notin> set clashing) ids in
         if missing \<noteq> [] \<or> extra \<noteq> [] then (Inl (NotTheConflictSet missing extra), q)
         else
           (let (removed, q1) = remove_all_named ids q in
            case queue_insert q1 s of
              (Inr _, q2) \<Rightarrow> (Inr removed, q2)
            | (Inl conflict, q2) \<Rightarrow>
                (Inl (StillConflicts conflict), fold (\<lambda>x q. snd (queue_insert q x)) removed q2))))"

definition queue_current :: "session_queue \<Rightarrow> instant \<Rightarrow> ev_session option" where
  "queue_current q now = List.find (\<lambda>s. es_window_start s \<le> now \<and> now < es_departure_time s) q"

definition upcoming_ev_session :: "session_queue \<Rightarrow> instant \<Rightarrow> ev_session option" where
  "upcoming_ev_session q now = List.find (\<lambda>s. now < es_departure_time s) q"

definition queue_expire :: "instant \<Rightarrow> session_queue \<Rightarrow> ev_session list \<times> session_queue" where
  "queue_expire now q =
     (let (live, passed) = partition (\<lambda>s. now < es_departure_time s) q in (passed, live))"

section \<open>The invariant\<close>

text \<open>
  Ordered by window start, and no two sessions with different ids overlap. This is what every
  operation keeps, whatever its arguments; with distinct ids it is that no two overlap at all.
\<close>

definition apart :: "ev_session \<Rightarrow> ev_session \<Rightarrow> bool" where
  "apart a b \<longleftrightarrow> es_id a = es_id b \<or> \<not> sessions_overlap a b"

definition queue_ok :: "session_queue \<Rightarrow> bool" where
  "queue_ok q \<longleftrightarrow> sorted (map es_window_start q) \<and> pairwise apart (set q)"

lemma sessions_overlap_sym: "sessions_overlap a b = sessions_overlap b a"
  by (auto simp: sessions_overlap_def)

lemma apart_sym: "apart a b = apart b a"
  by (auto simp: apart_def sessions_overlap_sym)

lemma set_insert_at_start [simp]: "set (insert_at_start s q) = insert s (set q)"
proof -
  have "set (take k q) \<union> set (drop k q) = set q" for k
    by (metis append_take_drop_id set_append)
  then show ?thesis by (simp add: insert_at_start_def Let_def)
qed

lemma sorted_insert_at_start:
  "sorted (map es_window_start q) \<Longrightarrow> sorted (map es_window_start (insert_at_start s q))"
proof (induction q)
  case (Cons x q)
  show ?case
  proof (cases "es_window_start x \<le> es_window_start s")
    case True
    then have "insert_at_start s (x # q) = x # insert_at_start s q"
      by (simp add: insert_at_start_def Let_def)
    with Cons True show ?thesis by auto
  next
    case False
    with Cons.prems show ?thesis by (auto simp: insert_at_start_def Let_def)
  qed
qed (simp add: insert_at_start_def)

lemma queue_conflicts_empty:
  "queue_conflicts q s = [] \<longleftrightarrow> (\<forall>x \<in> set q. apart x s)"
  by (auto simp: queue_conflicts_def filter_empty_conv apart_def)

lemma queue_ok_insert: "queue_ok q \<Longrightarrow> queue_ok (snd (queue_insert q s))"
  by (auto simp: queue_insert_def Let_def queue_ok_def sorted_insert_at_start queue_conflicts_empty
      pairwise_insert apart_sym)

lemma queue_ok_sub: "queue_ok q \<Longrightarrow> sorted (map es_window_start q') \<Longrightarrow> set q' \<subseteq> set q \<Longrightarrow> queue_ok q'"
  by (auto simp: queue_ok_def intro: pairwise_subset)

lemma queue_remove_subset: "set (snd (queue_remove i q)) \<subseteq> set q"
  by (induction q) (auto simp: Let_def case_prod_unfold)

lemma queue_remove_sorted:
  "sorted (map es_window_start q) \<Longrightarrow> sorted (map es_window_start (snd (queue_remove i q)))"
  using queue_remove_subset by (induction q) (fastforce simp: Let_def case_prod_unfold)+

lemma queue_ok_remove: "queue_ok q \<Longrightarrow> queue_ok (snd (queue_remove i q))"
  by (rule queue_ok_sub) (auto simp: queue_ok_def queue_remove_sorted dest: subsetD [OF queue_remove_subset])

lemma remove_all_Cons:
  "remove_all_named (i # ids) q =
     ((case fst (queue_remove i q) of None \<Rightarrow> [] | Some s \<Rightarrow> [s]) @
        fst (remove_all_named ids (snd (queue_remove i q))),
      snd (remove_all_named ids (snd (queue_remove i q))))"
  by (auto simp: case_prod_unfold Let_def split: option.split prod.split)

declare remove_all_named.simps(2) [simp del]

lemma remove_all_subset: "set (snd (remove_all_named ids q)) \<subseteq> set q"
proof (induction ids arbitrary: q)
  case (Cons i ids)
  show ?case unfolding remove_all_Cons using Cons [of "snd (queue_remove i q)"] queue_remove_subset [of i q] by auto
qed simp

lemma remove_all_sorted:
  "sorted (map es_window_start q) \<Longrightarrow> sorted (map es_window_start (snd (remove_all_named ids q)))"
  by (induction ids arbitrary: q) (simp_all add: remove_all_Cons queue_remove_sorted)

lemma queue_ok_remove_all: "queue_ok q \<Longrightarrow> queue_ok (snd (remove_all_named ids q))"
  by (rule queue_ok_sub) (auto simp: queue_ok_def remove_all_sorted dest: subsetD [OF remove_all_subset])

lemma queue_ok_replace: "queue_ok q \<Longrightarrow> queue_ok (snd (queue_replace ids s q))"
proof -
  assume ok: "queue_ok q"
  obtain removed q1 where r: "remove_all_named ids q = (removed, q1)" by (cases "remove_all_named ids q")
  then have q1: "queue_ok q1" using queue_ok_remove_all [OF ok, of ids] by simp
  have restored: "queue_ok q \<Longrightarrow> queue_ok (fold (\<lambda>x q. snd (queue_insert q x)) xs q)" for xs q
    by (induction xs arbitrary: q) (auto simp: queue_ok_insert)
  obtain res q2 where i: "queue_insert q1 s = (res, q2)" by (cases "queue_insert q1 s")
  have q2: "queue_ok q2" using queue_ok_insert [OF q1, of s] i by simp
  show ?thesis
    using ok restored [OF q2] q2 by (auto simp: queue_replace_def Let_def r i split: sum.split)
qed

lemma queue_expire_sub:
  "set (snd (queue_expire now q)) = {s \<in> set q. now < es_departure_time s} \<and>
   set (fst (queue_expire now q)) = {s \<in> set q. es_departure_time s \<le> now}"
  by (auto simp: queue_expire_def)

lemma queue_ok_expire: "queue_ok q \<Longrightarrow> queue_ok (snd (queue_expire now q))"
  by (rule queue_ok_sub) (auto simp: queue_ok_def queue_expire_def sorted_filter)

text \<open>The queue as a state machine: each operation a producer can call.\<close>

datatype queue_op =
    OpInsert ev_session
  | OpReplace "uuid list" ev_session
  | OpRemove uuid
  | OpExpire instant

fun queue_step :: "session_queue \<Rightarrow> queue_op \<Rightarrow> session_queue" where
  "queue_step q (OpInsert s) = snd (queue_insert q s)"
| "queue_step q (OpReplace ids s) = snd (queue_replace ids s q)"
| "queue_step q (OpRemove i) = snd (queue_remove i q)"
| "queue_step q (OpExpire now) = snd (queue_expire now q)"

interpretation sq: guarded_steps queue_ok queue_step
proof
  show "queue_ok (queue_step q op)" if "queue_ok q" for q op
    using that by (cases op) (auto simp: queue_ok_insert queue_ok_replace queue_ok_remove queue_ok_expire)
qed

section \<open>Replacing, where ids are unique\<close>

lemma queue_remove_None: "i \<notin> es_id ` set q \<Longrightarrow> queue_remove i q = (None, q)"
  by (induction q) auto

lemma queue_remove_Some:
  "distinct (map es_id q) \<Longrightarrow> s \<in> set q \<Longrightarrow>
     queue_remove (es_id s) q = (Some s, filter (\<lambda>x. es_id x \<noteq> es_id s) q)"
proof (induction q)
  case (Cons x q)
  show ?case
  proof (cases "es_id x = es_id s")
    case True
    have other: "es_id y \<noteq> es_id x" if "y \<in> set q" for y
      using Cons.prems(1) imageI [OF that, of es_id] by auto
    then have "\<forall>y \<in> set q. es_id y \<noteq> es_id s" "s \<notin> set q"
      unfolding True by blast+
    moreover from this have "x = s" using Cons.prems(2) by auto
    ultimately show ?thesis by simp
  next
    case False
    with Cons show ?thesis by auto
  qed
qed simp

lemma remove_all_distinct:
  assumes "distinct (map es_id q)"
  shows "snd (remove_all_named ids q) = filter (\<lambda>x. es_id x \<notin> set ids) q \<and>
    set (fst (remove_all_named ids q)) = {s \<in> set q. es_id s \<in> set ids}"
  using assms
proof (induction ids arbitrary: q)
  case (Cons i ids)
  show ?case
  proof (cases "i \<in> es_id ` set q")
    case True
    then obtain s where s: "s \<in> set q" "i = es_id s" by blast
    let ?q1 = "filter (\<lambda>x. es_id x \<noteq> es_id s) q"
    have d: "distinct (map es_id ?q1)" using Cons.prems by (rule distinct_map_filter)
    have uniq: "x = s" if "x \<in> set q" "es_id x = es_id s" for x
      using Cons.prems s that by (simp add: distinct_map inj_on_def)
    have "remove_all_named (i # ids) q = (s # fst (remove_all_named ids ?q1), snd (remove_all_named ids ?q1))"
      using queue_remove_Some [OF Cons.prems s(1)] by (simp add: s(2) remove_all_Cons)
    with Cons.IH [OF d] uniq s show ?thesis by (auto simp: conj_commute)
  next
    case False
    with Cons.IH [OF Cons.prems] show ?thesis
      by (auto simp: queue_remove_None remove_all_Cons intro!: filter_cong)
  qed
qed simp

lemma queue_conflicts_mem:
  "i \<in> set (queue_conflicts q s) \<longleftrightarrow>
     (\<exists>x \<in> set q. es_id x = i \<and> i \<noteq> es_id s \<and> sessions_overlap x s)"
  by (auto simp: queue_conflicts_def)

text \<open>The candidate never conflicts once the named sessions are gone, so a refusal leaves the queue alone.\<close>

lemma queue_replace_eq:
  assumes d: "distinct (map es_id q)"
  shows "queue_replace ids s q =
    (let not_queued = filter (\<lambda>i. \<not> list_ex (\<lambda>x. es_id x = i) q) ids; clash = queue_conflicts q s;
         missing = filter (\<lambda>i. i \<notin> set ids) clash; extra = filter (\<lambda>i. i \<notin> set clash) ids
     in if not_queued \<noteq> [] then (Inl (NotQueued not_queued), q)
        else if missing \<noteq> [] \<or> extra \<noteq> [] then (Inl (NotTheConflictSet missing extra), q)
        else (Inr (fst (remove_all_named ids q)), insert_at_start s (filter (\<lambda>x. es_id x \<notin> set ids) q)))"
proof -
  let ?clash = "queue_conflicts q s" and ?q1 = "filter (\<lambda>x. es_id x \<notin> set ids) q"
  obtain removed q1 where r: "remove_all_named ids q = (removed, q1)" by (cases "remove_all_named ids q")
  have q1: "q1 = ?q1" using remove_all_distinct [OF d, of ids] r by auto
  have ins: "queue_insert ?q1 s = (Inr (), insert_at_start s ?q1)" if "filter (\<lambda>i. i \<notin> set ids) ?clash = []"
  proof -
    have "apart x s" if "x \<in> set ?q1" for x
      using that \<open>filter (\<lambda>i. i \<notin> set ids) ?clash = []\<close> queue_conflicts_mem [of "es_id x" q s]
      by (auto simp: apart_def filter_empty_conv)
    then show ?thesis by (simp add: queue_insert_def Let_def queue_conflicts_empty)
  qed
  show ?thesis unfolding queue_replace_def Let_def r q1 by (auto simp: ins)
qed

lemma mset_insert_at_start [simp]: "mset (insert_at_start s q) = add_mset s (mset q)"
  by (simp add: insert_at_start_def Let_def) (metis append_take_drop_id mset_append)

section \<open>Properties\<close>

text \<open>
  C23. Whatever sequence of operations the producers call, and whatever their arguments, the queue stays
  ordered by window start and no two sessions with different ids ever overlap.
\<close>

theorem queue_invariant: "queue_ok (foldl queue_step [] ops)"
  by (rule sq.inv_run) (simp add: queue_ok_def)

text \<open>
  The checked insert either refuses, leaves the queue as it was and names exactly the queued sessions
  the candidate overlaps, in window order; or accepts, exactly when there are none, and then the queue holds
  the candidate and what it held before.
\<close>

theorem queue_insert_checked:
  "(case queue_insert q s of
      (Inl c, q') \<Rightarrow> q' = q \<and> cf_candidate c = es_id s \<and> cf_conflicts c \<noteq> [] \<and>
        cf_conflicts c = map es_id (filter (\<lambda>x. es_id x \<noteq> es_id s \<and> sessions_overlap x s) q)
    | (Inr _, q') \<Rightarrow> filter (\<lambda>x. es_id x \<noteq> es_id s \<and> sessions_overlap x s) q = [] \<and>
        mset q' = add_mset s (mset q))"
  by (auto simp: queue_insert_def queue_conflicts_def Let_def)

text \<open>
  Replacing is all or nothing. With unique ids and a fresh candidate it either refuses and leaves the
  queue exactly as it was, because an id is not queued or because the named ids are not the conflict set; or it
  removes exactly the named sessions and queues the candidate. The refusal that the candidate still
  conflicts never occurs.
\<close>

theorem queue_replace_all_or_nothing:
  assumes "distinct (map es_id q)" and "es_id s \<notin> es_id ` set q"
  shows "(case queue_replace ids s q of
      (Inl (StillConflicts _), _) \<Rightarrow> False
    | (Inl (NotQueued missing), q') \<Rightarrow> q' = q \<and> missing \<noteq> [] \<and> set missing = set ids - es_id ` set q
    | (Inl (NotTheConflictSet missing extra), q') \<Rightarrow> q' = q \<and>
        set missing = set (queue_conflicts q s) - set ids \<and> set extra = set ids - set (queue_conflicts q s) \<and>
        (missing \<noteq> [] \<or> extra \<noteq> [])
    | (Inr removed, q') \<Rightarrow> set ids = set (queue_conflicts q s) \<and>
        set removed = {x \<in> set q. es_id x \<in> set ids} \<and>
        set q' = insert s {x \<in> set q. es_id x \<notin> set ids} \<and> distinct (map es_id q'))"
proof -
  have nq: "set (filter (\<lambda>i. \<not> list_ex (\<lambda>x. es_id x = i) q) ids) = set ids - es_id ` set q"
    by (auto simp: list_ex_iff)
  have d: "distinct (map es_id (insert_at_start s (filter (\<lambda>x. es_id x \<notin> set ids) q)))"
  proof -
    let ?q1 = "filter (\<lambda>x. es_id x \<notin> set ids) q"
    have "mset (map es_id (insert_at_start s ?q1)) = mset (map es_id (s # ?q1))" by simp
    then have "distinct (map es_id (insert_at_start s ?q1)) = distinct (map es_id (s # ?q1))"
      by (rule mset_eq_imp_distinct_iff)
    then show ?thesis using assms(2) distinct_map_filter [OF assms(1)] by auto
  qed
  have same: "set ids = set (queue_conflicts q s)"
    if "filter (\<lambda>i. i \<notin> set ids) (queue_conflicts q s) = []" "filter (\<lambda>i. i \<notin> set (queue_conflicts q s)) ids = []"
    using that by (auto simp: filter_empty_conv)
  let ?nq = "filter (\<lambda>i. \<not> list_ex (\<lambda>x. es_id x = i) q) ids"
    and ?miss = "filter (\<lambda>i. i \<notin> set ids) (queue_conflicts q s)"
    and ?extra = "filter (\<lambda>i. i \<notin> set (queue_conflicts q s)) ids"
  consider "?nq \<noteq> []" | "?nq = []" "?miss \<noteq> [] \<or> ?extra \<noteq> []" | "?nq = []" "?miss = []" "?extra = []" by blast
  then show ?thesis
  proof cases
    case 1
    then show ?thesis using nq by (simp add: queue_replace_eq [OF assms(1)] Let_def)
  next
    case 2
    then have "queue_replace ids s q = (Inl (NotTheConflictSet ?miss ?extra), q)"
      unfolding queue_replace_eq [OF assms(1)] Let_def by (simp del: filter_empty_conv)
    with 2 show ?thesis by auto
  next
    case 3
    have eval: "queue_replace ids s q =
        (Inr (fst (remove_all_named ids q)), insert_at_start s (filter (\<lambda>x. es_id x \<notin> set ids) q))"
      unfolding queue_replace_eq [OF assms(1)] Let_def using 3 by (simp del: filter_empty_conv)
    show ?thesis
      unfolding eval prod.case sum.case set_insert_at_start
      using same [OF 3(2,3)] d remove_all_distinct [OF assms(1), of ids] by simp
  qed
qed

lemma queue_replace_all_or_nothing_witness:
  "set (snd (queue_replace [1] (simulated_session 2 ''ev'' 1 5 15 0) [simulated_session 1 ''ev'' 1 0 10 0])) =
     {simulated_session 2 ''ev'' 1 5 15 0}"
proof -
  let ?q = "[simulated_session 1 ''ev'' 1 0 10 0]" and ?s = "simulated_session 2 ''ev'' 1 5 15 0"
  have eval: "queue_replace [1] ?s ?q = (Inr ?q, [?s])"
    by (simp add: queue_replace_def queue_conflicts_def sessions_overlap_def simulated_session_def
        queue_insert_def insert_at_start_def remove_all_Cons)
  have "distinct (map es_id ?q)" "es_id ?s \<notin> es_id ` set ?q" by (simp_all add: simulated_session_def)
  from queue_replace_all_or_nothing [OF this, of "[1]"] show ?thesis
    unfolding eval by (simp add: simulated_session_def)
qed

text \<open>
  The queue trusts ids: a candidate that carries the id of a queued session is accepted on top of it,
  and the queue then holds two overlapping sessions.
\<close>

theorem queue_insert_same_id:
  "(case queue_insert [simulated_session 1 ''ev'' 1 0 10 0] (simulated_session 1 ''ev'' 1 5 15 0) of
     (Inr _, q) \<Rightarrow> length q = 2 \<and> sessions_overlap (q ! 0) (q ! 1)
   | (Inl _, _) \<Rightarrow> False)"
  by (simp add: queue_insert_def queue_conflicts_def simulated_session_def insert_at_start_def sessions_overlap_def)

end
