(* ===== verification/User_Requests.thy ===== *)
theory User_Requests
  imports Session_Queue "HOL-Library.Product_Lexorder"
begin

text \<open>
  \<open>VEN/src/entities/user_request.rs\<close>, \<open>VEN/src/state/ev_sessions.rs\<close> and
  \<open>VEN/src/state/user_requests.rs\<close>: the user's requests beside the device sessions they own. Each
  accessor holds the write lock for its whole body, so it is one function of the state.
\<close>

datatype request_status = Active | Completed | Cancelled | Failed

datatype session_type = EvType | HeaterType | ShiftableLoadType

record request_deadline =
  rqd_latest_end :: instant
  rqd_max_total_cost_eur :: "f64 option"
  rqd_max_marginal_rate :: "f64 option"
  rqd_min_completion :: f64

record user_request =
  ur_id :: uuid
  ur_asset_id :: string
  ur_target_soc_frac :: "f64 option"
  ur_target_energy_kwh :: f64
  ur_desired_power_kw :: f64
  ur_deadlines :: "request_deadline list"
  ur_mode :: user_request_mode
  ur_completion_policy :: string
  ur_max_total_cost_eur :: "f64 option"
  ur_tier_count :: nat
  ur_session_id :: "uuid option"
  ur_session_type :: "session_type option"
  ur_comfort_rates :: "comfort_rate list"
  ur_status :: request_status
  ur_estimated_cost_eur :: f64
  ur_estimated_co2_g :: f64
  ur_accumulated_cost_eur :: f64
  ur_interruptible :: bool
  ur_tolerance_min :: "int option"
  ur_budget_eur :: "f64 option"
  ur_created_at :: instant
  ur_updated_at :: instant

record heater_target =
  ht_id :: uuid
  ht_asset_id :: string
  ht_target_temp_c :: f64
  ht_ready_by :: instant
  ht_mode :: user_request_mode
  ht_comfort_rates :: "comfort_rate list"
  ht_created_at :: instant
  ht_updated_at :: instant

record shiftable_request =
  sr_id :: uuid
  sr_asset_id :: string
  sr_power_kw :: f64
  sr_duration_min :: nat
  sr_earliest_start :: instant
  sr_latest_end :: instant
  sr_mode :: user_request_mode
  sr_created_at :: instant
  sr_updated_at :: instant

text \<open>The fields of \<open>HemsState\<close> these accessors touch.\<close>

record hems_state =
  hs_ev_sessions :: "session_queue hmap"
  hs_heater_targets :: "heater_target hmap"
  hs_shiftable_loads :: "shiftable_request list"
  hs_user_requests :: "user_request list"

section \<open>Requests\<close>

definition finished_request_retention_days :: int where
  "finished_request_retention_days = 7"

definition finished_requests_kept :: nat where
  "finished_requests_kept = 20"

definition is_finished :: "user_request \<Rightarrow> bool" where
  "is_finished r \<longleftrightarrow> ur_status r \<noteq> Active"

definition finish :: "request_status \<Rightarrow> instant \<Rightarrow> user_request \<Rightarrow> user_request" where
  "finish status now r = r\<lparr>ur_status := status, ur_updated_at := now\<rparr>"

definition prune_cutoff :: "instant \<Rightarrow> instant" where
  "prune_cutoff now = now - seconds (86400 * finished_request_retention_days)"

definition finished_keys :: "user_request list \<Rightarrow> (instant \<times> uuid) list" where
  "finished_keys rs = rev (sort (map (\<lambda>r. (ur_updated_at r, ur_id r)) (filter is_finished rs)))"

definition dropped_ids :: "user_request list \<Rightarrow> instant \<Rightarrow> uuid list" where
  "dropped_ids rs now =
     map snd (filter (\<lambda>(finished_at, _). finished_at < prune_cutoff now)
       (drop finished_requests_kept (finished_keys rs)))"

definition prune_finished :: "user_request list \<Rightarrow> instant \<Rightarrow> user_request list" where
  "prune_finished rs now = filter (\<lambda>r. ur_id r \<notin> set (dropped_ids rs now)) rs"

text \<open>\<open>iter_mut().find(p)\<close> and a change of what it finds.\<close>

fun update_first :: "('a \<Rightarrow> bool) \<Rightarrow> ('a \<Rightarrow> 'a) \<Rightarrow> 'a list \<Rightarrow> 'a list" where
  "update_first P f [] = []"
| "update_first P f (x # xs) = (if P x then f x # xs else x # update_first P f xs)"

definition upsert_request :: "user_request \<Rightarrow> hems_state \<Rightarrow> hems_state" where
  "upsert_request req st =
     (if list_ex (\<lambda>r. ur_id r = ur_id req) (hs_user_requests st)
      then st\<lparr>hs_user_requests := update_first (\<lambda>r. ur_id r = ur_id req) (\<lambda>_. req) (hs_user_requests st)\<rparr>
      else st\<lparr>hs_user_requests := hs_user_requests st @ [req]\<rparr>)"

definition cancel_request :: "uuid \<Rightarrow> instant \<Rightarrow> hems_state \<Rightarrow> bool \<times> hems_state" where
  "cancel_request i now st =
     (case List.find (\<lambda>r. ur_id r = i) (hs_user_requests st) of
        None \<Rightarrow> (False, st)
      | Some req \<Rightarrow>
          (let st1 = st\<lparr>hs_user_requests :=
                 update_first (\<lambda>r. ur_id r = i) (finish Cancelled now) (hs_user_requests st)\<rparr>;
               sid = ur_session_id req
           in (True,
             case ur_session_type req of
               Some EvType \<Rightarrow>
                 (case sid of None \<Rightarrow> st1
                  | Some s \<Rightarrow> st1\<lparr>hs_ev_sessions := map (\<lambda>(k, q). (k, snd (queue_remove s q))) (hs_ev_sessions st1)\<rparr>)
             | Some HeaterType \<Rightarrow>
                 st1\<lparr>hs_heater_targets := filter (\<lambda>(_, t). Some (ht_id t) \<noteq> sid) (hs_heater_targets st1)\<rparr>
             | Some ShiftableLoadType \<Rightarrow>
                 (case sid of None \<Rightarrow> st1
                  | Some s \<Rightarrow> st1\<lparr>hs_shiftable_loads := filter (\<lambda>l. sr_id l \<noteq> s) (hs_shiftable_loads st1)\<rparr>)
             | None \<Rightarrow> st1)))"

definition replace_heater_target ::
  "heater_target \<Rightarrow> instant \<Rightarrow> hems_state \<Rightarrow> user_request option \<times> hems_state" where
  "replace_heater_target target now st =
     (let displaced_id = map_option ht_id (hm_get (hs_heater_targets st) (ht_asset_id target));
          st1 = st\<lparr>hs_heater_targets := hm_put (ht_asset_id target) target (hs_heater_targets st)\<rparr>;
          owns = (\<lambda>r. ur_session_id r = displaced_id \<and> \<not> is_finished r)
      in case List.find owns (hs_user_requests st1) of
           None \<Rightarrow> (None, st1)
         | Some req \<Rightarrow>
             (Some (finish Cancelled now req),
              st1\<lparr>hs_user_requests := update_first owns (finish Cancelled now) (hs_user_requests st1)\<rparr>))"

definition complete_shiftable :: "uuid \<Rightarrow> instant \<Rightarrow> hems_state \<Rightarrow> user_request option \<times> hems_state" where
  "complete_shiftable load_id now st =
     (let st1 = st\<lparr>hs_shiftable_loads := filter (\<lambda>l. sr_id l \<noteq> load_id) (hs_shiftable_loads st)\<rparr>;
          owns = (\<lambda>r. ur_session_id r = Some load_id \<and> \<not> is_finished r)
      in case List.find owns (hs_user_requests st1) of
           None \<Rightarrow> (None, st1)
         | Some req \<Rightarrow>
             (Some (finish Completed now req),
              st1\<lparr>hs_user_requests := update_first owns (finish Completed now) (hs_user_requests st1)\<rparr>))"

definition complete_ended :: "uuid list \<Rightarrow> instant \<Rightarrow> user_request \<Rightarrow> user_request" where
  "complete_ended ended now r =
     (if \<not> is_finished r \<and> (case ur_session_id r of None \<Rightarrow> False | Some s \<Rightarrow> s \<in> set ended)
      then finish Completed now r else r)"

definition ended_sessions :: "instant \<Rightarrow> hems_state \<Rightarrow> uuid list" where
  "ended_sessions now st =
     concat (map (\<lambda>(_, q). map es_id (fst (queue_expire now q))) (hs_ev_sessions st)) @
     map (\<lambda>(_, t). ht_id t) (filter (\<lambda>(_, t). ht_ready_by t \<le> now) (hs_heater_targets st))"

definition settle_requests :: "instant \<Rightarrow> hems_state \<Rightarrow> user_request list \<times> hems_state" where
  "settle_requests now st =
     (let ended = ended_sessions now st;
          requests = map (complete_ended ended now) (hs_user_requests st);
          completed = map (finish Completed now)
            (filter (\<lambda>r. \<not> is_finished r \<and> (case ur_session_id r of None \<Rightarrow> False | Some s \<Rightarrow> s \<in> set ended))
               (hs_user_requests st))
      in (completed,
          st\<lparr>hs_ev_sessions := map (\<lambda>(k, q). (k, snd (queue_expire now q))) (hs_ev_sessions st),
             hs_heater_targets := filter (\<lambda>(_, t). \<not> ht_ready_by t \<le> now) (hs_heater_targets st),
             hs_user_requests := prune_finished requests now\<rparr>))"

section \<open>Sessions\<close>

definition ev_sessions_of :: "string \<Rightarrow> hems_state \<Rightarrow> session_queue" where
  "ev_sessions_of asset st = hm_or [] (hm_get (hs_ev_sessions st) asset)"

definition current_ev_session :: "string \<Rightarrow> instant \<Rightarrow> hems_state \<Rightarrow> ev_session option" where
  "current_ev_session asset now st =
     Option.bind (hm_get (hs_ev_sessions st) asset) (\<lambda>q. queue_current q now)"

definition resolve_ids :: "uuid list \<Rightarrow> session_queue \<Rightarrow> ev_session list" where
  "resolve_ids ids q = List.map_filter (\<lambda>i. List.find (\<lambda>s. es_id s = i) q) ids"

definition insert_ev_session :: "ev_session \<Rightarrow> hems_state \<Rightarrow> ((uuid \<times> ev_session list) + unit) \<times> hems_state" where
  "insert_ev_session s st =
     (let (res, q') = queue_insert (ev_sessions_of (es_asset_id s) st) s;
          st' = st\<lparr>hs_ev_sessions := hm_put (es_asset_id s) q' (hs_ev_sessions st)\<rparr>
      in case res of
           Inr _ \<Rightarrow> (Inr (), st')
         | Inl c \<Rightarrow> (Inl (cf_candidate c, resolve_ids (cf_conflicts c) q'), st'))"

fun remove_from_queues :: "uuid \<Rightarrow> session_queue hmap \<Rightarrow> ev_session option \<times> session_queue hmap" where
  "remove_from_queues i [] = (None, [])"
| "remove_from_queues i ((k, q) # qs) =
     (case queue_remove i q of
        (Some s, q') \<Rightarrow> (Some s, (k, q') # qs)
      | (None, q') \<Rightarrow> (let (r, qs') = remove_from_queues i qs in (r, (k, q') # qs')))"

definition remove_ev_session :: "uuid \<Rightarrow> hems_state \<Rightarrow> ev_session option \<times> hems_state" where
  "remove_ev_session i st =
     (let (r, qs) = remove_from_queues i (hs_ev_sessions st) in (r, st\<lparr>hs_ev_sessions := qs\<rparr>))"

definition cancel_displaced :: "instant \<Rightarrow> ev_session list \<Rightarrow> user_request list \<Rightarrow> user_request list" where
  "cancel_displaced now removed rs =
     fold (\<lambda>s. update_first (\<lambda>r. ur_session_id r = Some (es_id s)) (finish Cancelled now)) removed rs"

definition replace_ev_sessions ::
  "uuid list \<Rightarrow> ev_session \<Rightarrow> instant \<Rightarrow> hems_state \<Rightarrow>
   ((replace_rejection \<times> ev_session list) + ev_session list) \<times> hems_state" where
  "replace_ev_sessions ids s now st =
     (let q = ev_sessions_of (es_asset_id s) st;
          clashing = queue_conflicts q s;
          (res, q') = queue_replace ids s q;
          st' = st\<lparr>hs_ev_sessions := hm_put (es_asset_id s) q' (hs_ev_sessions st)\<rparr>
      in case res of
           Inr removed \<Rightarrow>
             (Inr removed, st'\<lparr>hs_user_requests := cancel_displaced now removed (hs_user_requests st')\<rparr>)
         | Inl rejection \<Rightarrow> (Inl (rejection, resolve_ids clashing q'), st'))"

section \<open>Pruning\<close>

definition req_key :: "user_request \<Rightarrow> instant \<times> uuid" where
  "req_key r = (ur_updated_at r, ur_id r)"

lemma finished_keys_set: "set (finished_keys rs) = req_key ` {r \<in> set rs. is_finished r}"
  by (auto simp: finished_keys_def req_key_def)

lemma finished_keys_distinct:
  assumes "distinct (map ur_id rs)"
  shows "distinct (finished_keys rs)"
proof -
  have "distinct (map snd (map req_key (filter is_finished rs)))"
    using distinct_map_filter [OF assms] by (simp add: o_def req_key_def)
  then have "distinct (map req_key (filter is_finished rs))" by (auto simp: distinct_map intro: inj_on_imageI2)
  then show ?thesis by (simp add: finished_keys_def req_key_def [abs_def])
qed

lemma finished_keys_descending: "sorted_wrt (\<ge>) (finished_keys rs)"
  unfolding finished_keys_def by (simp add: sorted_wrt_rev)

text \<open>With unique ids, what is dropped is exactly the old requests beyond the newest twenty.\<close>

lemma dropped_iff:
  assumes d: "distinct (map ur_id rs)" and r: "r \<in> set rs"
  shows "ur_id r \<in> set (dropped_ids rs now) \<longleftrightarrow>
    is_finished r \<and> ur_updated_at r < prune_cutoff now \<and> req_key r \<in> set (drop finished_requests_kept (finished_keys rs))"
proof
  assume "ur_id r \<in> set (dropped_ids rs now)"
  then obtain t where t: "(t, ur_id r) \<in> set (drop finished_requests_kept (finished_keys rs))" "t < prune_cutoff now"
    by (auto simp: dropped_ids_def)
  then have "(t, ur_id r) \<in> set (finished_keys rs)" by (meson in_set_dropD)
  then obtain r' where r': "r' \<in> set rs" "is_finished r'" "req_key r' = (t, ur_id r)"
    unfolding finished_keys_set by auto
  then have "r' = r" using d r by (auto simp: req_key_def distinct_map dest: inj_onD)
  with r' t show "is_finished r \<and> ur_updated_at r < prune_cutoff now \<and>
      req_key r \<in> set (drop finished_requests_kept (finished_keys rs))"
    by (auto simp: req_key_def)
next
  assume "is_finished r \<and> ur_updated_at r < prune_cutoff now \<and> req_key r \<in> set (drop finished_requests_kept (finished_keys rs))"
  then show "ur_id r \<in> set (dropped_ids rs now)"
    by (force simp: dropped_ids_def req_key_def)
qed

lemma take_drop_descending:
  fixes xs :: "'a::linorder list"
  assumes "sorted_wrt (\<ge>) xs" and "distinct xs" and "x \<in> set (drop k xs)"
  shows "\<forall>y \<in> set (take k xs). x < y" and "length (take k xs) = k"
proof -
  have "sorted_wrt (\<ge>) (take k xs @ drop k xs)" "distinct (take k xs @ drop k xs)" using assms by simp_all
  then show "\<forall>y \<in> set (take k xs). x < y"
    using assms(3) unfolding sorted_wrt_append distinct_append by (metis IntI empty_iff order_le_neq_trans)
  have "drop k xs \<noteq> []" using assms(3) by auto
  then show "length (take k xs) = k" by simp
qed

section \<open>The state machine\<close>

datatype hems_op =
    HInsert ev_session
  | HReplace "uuid list" ev_session instant
  | HRemove uuid
  | HUpsert user_request
  | HCancel uuid instant
  | HHeater heater_target instant
  | HCompleteShiftable uuid instant
  | HSettle instant

fun hems_step :: "hems_state \<Rightarrow> hems_op \<Rightarrow> hems_state" where
  "hems_step st (HInsert s) = snd (insert_ev_session s st)"
| "hems_step st (HReplace ids s now) = snd (replace_ev_sessions ids s now st)"
| "hems_step st (HRemove i) = snd (remove_ev_session i st)"
| "hems_step st (HUpsert r) = upsert_request r st"
| "hems_step st (HCancel i now) = snd (cancel_request i now st)"
| "hems_step st (HHeater t now) = snd (replace_heater_target t now st)"
| "hems_step st (HCompleteShiftable i now) = snd (complete_shiftable i now st)"
| "hems_step st (HSettle now) = snd (settle_requests now st)"

definition queues_ok :: "session_queue hmap \<Rightarrow> bool" where
  "queues_ok qs \<longleftrightarrow> list_all (\<lambda>p. queue_ok (snd p)) qs"

lemma queues_ok_put: "queues_ok qs \<Longrightarrow> queue_ok q \<Longrightarrow> queues_ok (hm_put a q qs)"
  by (induction qs) (auto simp: queues_ok_def hm_put_def)

lemma queues_ok_get:
  assumes "queues_ok (hs_ev_sessions st)"
  shows "queue_ok (ev_sessions_of a st)"
proof (cases "hm_get (hs_ev_sessions st) a")
  case None
  then show ?thesis by (simp add: ev_sessions_of_def queue_ok_def)
next
  case (Some q)
  with assms show ?thesis
    by (auto simp: ev_sessions_of_def queues_ok_def list_all_iff dest!: hm_get_mem)
qed

lemma queues_ok_map:
  "queues_ok qs \<Longrightarrow> (\<And>q. queue_ok q \<Longrightarrow> queue_ok (f q)) \<Longrightarrow> queues_ok (map (\<lambda>(k, q). (k, f q)) qs)"
  by (induction qs) (auto simp: queues_ok_def)

lemma remove_from_queues_ok: "queues_ok qs \<Longrightarrow> queues_ok (snd (remove_from_queues i qs))"
proof (induction qs)
  case (Cons kq qs)
  obtain k q where kq: "kq = (k, q)" by (cases kq)
  have "queue_ok (snd (queue_remove i q))"
    by (rule queue_ok_remove) (use Cons.prems kq in \<open>simp add: queues_ok_def\<close>)
  with Cons show ?case
    by (cases "queue_remove i q") (auto simp: kq queues_ok_def case_prod_unfold Let_def split: option.split)
qed simp

lemma hems_step_queues:
  assumes ok: "queues_ok (hs_ev_sessions st)"
  shows "queues_ok (hs_ev_sessions (hems_step st op))"
proof (cases op)
  case (HInsert s)
  have "queue_ok (snd (queue_insert (ev_sessions_of (es_asset_id s) st) s))"
    by (rule queue_ok_insert) (rule queues_ok_get [OF ok])
  with HInsert show ?thesis
    using queues_ok_put [OF ok]
    by (auto simp: insert_ev_session_def Let_def case_prod_unfold split: sum.split)
next
  case (HReplace ids s now)
  have "queue_ok (snd (queue_replace ids s (ev_sessions_of (es_asset_id s) st)))"
    by (rule queue_ok_replace) (rule queues_ok_get [OF ok])
  from queues_ok_put [OF ok this] HReplace show ?thesis
    by (auto simp: replace_ev_sessions_def Let_def case_prod_unfold split: sum.split)
next
  case (HRemove i)
  then show ?thesis
    using remove_from_queues_ok [OF ok, of i] by (simp add: remove_ev_session_def case_prod_unfold Let_def)
next
  case (HCancel i now)
  have "queues_ok (map (\<lambda>(k, q). (k, snd (queue_remove x q))) (hs_ev_sessions st))" for x
    by (rule queues_ok_map [OF ok]) (rule queue_ok_remove)
  with ok HCancel show ?thesis
    by (auto simp: cancel_request_def Let_def split: option.split session_type.split)
next
  case (HSettle now)
  have "queues_ok (map (\<lambda>(k, q). (k, snd (queue_expire now q))) (hs_ev_sessions st))"
    by (rule queues_ok_map [OF ok]) (rule queue_ok_expire)
  with HSettle show ?thesis by (simp add: settle_requests_def Let_def)
qed (use ok in \<open>simp_all add: upsert_request_def replace_heater_target_def complete_shiftable_def Let_def split: option.split\<close>)

interpretation hems: guarded_steps "\<lambda>st. queues_ok (hs_ev_sessions st)" hems_step
  by unfold_locales (rule hems_step_queues)

section \<open>Properties\<close>

definition sample_request :: "uuid \<Rightarrow> uuid option \<Rightarrow> request_status \<Rightarrow> user_request" where
  "sample_request i sid status = \<lparr>ur_id = i, ur_asset_id = ''ev'', ur_target_soc_frac = None,
     ur_target_energy_kwh = 0, ur_desired_power_kw = 0, ur_deadlines = [], ur_mode = ByDeadline,
     ur_completion_policy = [], ur_max_total_cost_eur = None, ur_tier_count = 0, ur_session_id = sid,
     ur_session_type = Some EvType, ur_comfort_rates = [], ur_status = status, ur_estimated_cost_eur = 0,
     ur_estimated_co2_g = 0, ur_accumulated_cost_eur = 0, ur_interruptible = False, ur_tolerance_min = None,
     ur_budget_eur = None, ur_created_at = 0, ur_updated_at = 0\<rparr>"

definition sample_heater_target :: "uuid \<Rightarrow> heater_target" where
  "sample_heater_target i = \<lparr>ht_id = i, ht_asset_id = ''h'', ht_target_temp_c = 50, ht_ready_by = 100,
     ht_mode = ByDeadline, ht_comfort_rates = [], ht_created_at = 0, ht_updated_at = 0\<rparr>"

text \<open>
  No sequence of state operations (submitting, replacing, cancelling, settling, of any session of any
  EV) ever leaves an EV's queue unordered or with two sessions of different ids overlapping.
\<close>

theorem hems_queues_invariant:
  assumes "hs_ev_sessions st = []"
  shows "queues_ok (hs_ev_sessions (foldl hems_step st ops))"
  by (rule hems.inv_run) (simp add: assms queues_ok_def)

lemma hems_queues_invariant_witness:
  "queues_ok (hs_ev_sessions (foldl hems_step
     \<lparr>hs_ev_sessions = [], hs_heater_targets = [], hs_shiftable_loads = [], hs_user_requests = []\<rparr>
     [HInsert (simulated_session 1 ''ev'' 1 0 10 0), HInsert (simulated_session 2 ''ev'' 1 5 15 0), HSettle 12]))"
  by (rule hems_queues_invariant) simp

text \<open>
  Pruning drops a request only if it is finished, older than the retention, and at least twenty finished
  requests are newer; active and recently finished ones stay, in their order; and no more than twenty old
  finished requests remain.
\<close>

theorem prune_finished_keeps:
  assumes d: "distinct (map ur_id rs)"
  shows "(\<forall>r \<in> set rs. r \<notin> set (prune_finished rs now) \<longrightarrow>
      is_finished r \<and> ur_updated_at r < prune_cutoff now \<and>
      finished_requests_kept \<le> card {r' \<in> set rs. is_finished r' \<and> req_key r < req_key r'}) \<and>
    card {r \<in> set (prune_finished rs now). is_finished r \<and> ur_updated_at r < prune_cutoff now} \<le> finished_requests_kept"
proof
  let ?keys = "finished_keys rs" and ?k = finished_requests_kept
  note dist = finished_keys_distinct [OF d] and desc = finished_keys_descending [of rs]
  show "\<forall>r \<in> set rs. r \<notin> set (prune_finished rs now) \<longrightarrow>
      is_finished r \<and> ur_updated_at r < prune_cutoff now \<and>
      ?k \<le> card {r' \<in> set rs. is_finished r' \<and> req_key r < req_key r'}"
  proof (intro ballI impI)
    fix r assume r: "r \<in> set rs" and out: "r \<notin> set (prune_finished rs now)"
    then have "ur_id r \<in> set (dropped_ids rs now)" by (simp add: prune_finished_def)
    then have old: "is_finished r \<and> ur_updated_at r < prune_cutoff now" and late: "req_key r \<in> set (drop ?k ?keys)"
      unfolding dropped_iff [OF d r] by auto
    let ?newer = "{r' \<in> set rs. is_finished r' \<and> req_key r < req_key r'}"
    have "set (take ?k ?keys) \<subseteq> req_key ` ?newer"
    proof
      fix y assume y: "y \<in> set (take ?k ?keys)"
      then have "y \<in> set ?keys" by (rule in_set_takeD)
      then show "y \<in> req_key ` ?newer"
        using take_drop_descending(1) [OF desc dist late] y unfolding finished_keys_set by auto
    qed
    then have "card (set (take ?k ?keys)) \<le> card (req_key ` ?newer)" by (intro card_mono) auto
    also have "\<dots> \<le> card ?newer" by (rule card_image_le) simp
    finally have "card (set (take ?k ?keys)) \<le> card ?newer" .
    moreover have "card (set (take ?k ?keys)) = ?k"
      using take_drop_descending(2) [OF desc dist late] distinct_take [OF dist] distinct_card by metis
    ultimately show "is_finished r \<and> ur_updated_at r < prune_cutoff now \<and> ?k \<le> card ?newer" using old by simp
  qed
  let ?old = "{r \<in> set (prune_finished rs now). is_finished r \<and> ur_updated_at r < prune_cutoff now}"
  have "req_key ` ?old \<subseteq> set (take ?k ?keys)"
  proof
    fix y assume "y \<in> req_key ` ?old"
    then obtain r where r: "r \<in> set rs" "ur_id r \<notin> set (dropped_ids rs now)" "is_finished r"
        "ur_updated_at r < prune_cutoff now" "y = req_key r"
      by (auto simp: prune_finished_def)
    then have "y \<notin> set (drop ?k ?keys)" using dropped_iff [OF d r(1)] by simp
    moreover have "y \<in> set ?keys" using r by (simp add: finished_keys_set)
    moreover have "set ?keys = set (take ?k ?keys) \<union> set (drop ?k ?keys)"
      by (metis append_take_drop_id set_append)
    ultimately show "y \<in> set (take ?k ?keys)" by blast
  qed
  moreover have "inj_on req_key ?old"
  proof (rule inj_onI)
    fix x y assume xy: "x \<in> ?old" "y \<in> ?old" "req_key x = req_key y"
    then have "x \<in> set rs" "y \<in> set rs" "ur_id x = ur_id y" by (auto simp: req_key_def prune_finished_def)
    then show "x = y" using d by (auto simp: distinct_map dest: inj_onD)
  qed
  ultimately have "card ?old \<le> card (set (take ?k ?keys))" by (meson card_inj_on_le finite_set)
  also have "\<dots> \<le> ?k" using card_length [of "take ?k ?keys"] by simp
  finally show "card ?old \<le> ?k" .
qed

text \<open>
  After settling at \<open>now\<close> no queued session has departed and no heater target has passed; the requests
  that owned one of those and were active are completed with the time of settling, returned, and no other
  request changes.
\<close>

theorem settle_requests_settles:
  assumes "settle_requests now st = (completed, st')"
  shows "(\<forall>(k, q) \<in> set (hs_ev_sessions st'). \<forall>s \<in> set q. now < es_departure_time s) \<and>
    (\<forall>(k, t) \<in> set (hs_heater_targets st'). now < ht_ready_by t) \<and>
    (\<forall>r \<in> set (hs_user_requests st'). \<exists>r0 \<in> set (hs_user_requests st).
       (if ur_status r0 = Active \<and> (\<exists>s \<in> set (ended_sessions now st). ur_session_id r0 = Some s)
        then r = finish Completed now r0 \<and> r \<in> set completed else r = r0))"
proof (intro conjI)
  show "\<forall>(k, q) \<in> set (hs_ev_sessions st'). \<forall>s \<in> set q. now < es_departure_time s"
    using assms by (auto simp: settle_requests_def Let_def queue_expire_def)
  show "\<forall>(k, t) \<in> set (hs_heater_targets st'). now < ht_ready_by t"
    using assms by (auto simp: settle_requests_def Let_def)
  let ?ended = "ended_sessions now st"
  have owns: "(\<not> is_finished r \<and> (case ur_session_id r of None \<Rightarrow> False | Some s \<Rightarrow> s \<in> set ?ended)) \<longleftrightarrow>
      ur_status r = Active \<and> (\<exists>s \<in> set ?ended. ur_session_id r = Some s)" for r
    by (auto simp: is_finished_def split: option.split)
  show "\<forall>r \<in> set (hs_user_requests st'). \<exists>r0 \<in> set (hs_user_requests st).
       (if ur_status r0 = Active \<and> (\<exists>s \<in> set ?ended. ur_session_id r0 = Some s)
        then r = finish Completed now r0 \<and> r \<in> set completed else r = r0)"
  proof
    fix r assume "r \<in> set (hs_user_requests st')"
    then obtain r0 where r0: "r0 \<in> set (hs_user_requests st)" "r = complete_ended ?ended now r0"
      using assms by (auto simp: settle_requests_def Let_def prune_finished_def)
    have "completed = map (finish Completed now)
        (filter (\<lambda>r. ur_status r = Active \<and> (\<exists>s \<in> set ?ended. ur_session_id r = Some s)) (hs_user_requests st))"
      using assms unfolding settle_requests_def Let_def owns by simp
    with r0 show "\<exists>r0 \<in> set (hs_user_requests st).
       (if ur_status r0 = Active \<and> (\<exists>s \<in> set ?ended. ur_session_id r0 = Some s)
        then r = finish Completed now r0 \<and> r \<in> set completed else r = r0)"
      unfolding complete_ended_def owns by (intro bexI [of _ r0]) auto
  qed
qed

lemma prune_finished_keeps_witness:
  "card {r \<in> set (prune_finished [sample_request 1 None Completed] 0).
     is_finished r \<and> ur_updated_at r < prune_cutoff 0} \<le> finished_requests_kept"
  using prune_finished_keeps [of "[sample_request 1 None Completed]" 0] by simp

definition sample_hems :: hems_state where
  "sample_hems = \<lparr>hs_ev_sessions = [(''ev'', [simulated_session 3 ''ev'' 1 0 10 0])],
     hs_heater_targets = [], hs_shiftable_loads = [], hs_user_requests = [sample_request 9 (Some 3) Active]\<rparr>"

lemma settle_requests_settles_witness:
  "finish Completed 12 (sample_request 9 (Some 3) Active) \<in> set (fst (settle_requests 12 sample_hems))"
proof -
  let ?r = "sample_request 9 (Some 3) Active"
  have ended: "ended_sessions 12 sample_hems = [3]"
    by (simp add: ended_sessions_def queue_expire_def simulated_session_def sample_hems_def)
  obtain completed st' where s: "settle_requests 12 sample_hems = (completed, st')"
    by (cases "settle_requests 12 sample_hems")
  have r: "ur_status ?r = Active" "ur_session_id ?r = Some 3" "ur_updated_at ?r = 0"
    by (simp_all add: sample_request_def)
  have "hs_user_requests st' = prune_finished [finish Completed 12 ?r] 12"
    using s unfolding settle_requests_def Let_def ended
    by (auto simp: complete_ended_def is_finished_def r sample_hems_def)
  also have "\<dots> = [finish Completed 12 ?r]"
    by (simp add: prune_finished_def dropped_ids_def finished_keys_def finished_requests_kept_def)
  finally have mem: "finish Completed 12 ?r \<in> set (hs_user_requests st')" by simp
  have "hs_user_requests sample_hems = [?r]" by (simp add: sample_hems_def)
  with bspec [OF conjunct2 [OF conjunct2 [OF settle_requests_settles [OF s]]] mem]
  have "if ur_status ?r = Active \<and> (\<exists>s \<in> set [3]. ur_session_id ?r = Some s)
      then finish Completed 12 ?r = finish Completed 12 ?r \<and> finish Completed 12 ?r \<in> set completed
      else finish Completed 12 ?r = ?r"
    unfolding ended by (simp only: list.set bex_simps simp_thms)
  then have "finish Completed 12 ?r \<in> set completed"
    using r by (simp split: if_splits)
  with s show ?thesis by simp
qed

text \<open>
  Setting a heater's first target displaces nothing, yet it cancels an unrelated active request where
  that request has no session: the absent displaced id and the absent session id compare equal.
\<close>

theorem replace_heater_target_cancels_unrelated:
  "(let st = \<lparr>hs_ev_sessions = [], hs_heater_targets = [], hs_shiftable_loads = [],
               hs_user_requests = [sample_request 5 None Active]\<rparr>;
        (cancelled, st') = replace_heater_target (sample_heater_target 7) 3 st
    in cancelled = Some (finish Cancelled 3 (sample_request 5 None Active)) \<and>
       map ur_status (hs_user_requests st') = [Cancelled])"
  by (simp add: replace_heater_target_def sample_heater_target_def sample_request_def is_finished_def finish_def)

end
