(* ===== verification/Setpoint_Response.thy ===== *)
theory Setpoint_Response
  imports Lab_Prelude "HOL-Library.Multiset" "HOL-Library.List_Lexorder" "HOL-Library.Char_ord" "HOL-Library.Product_Lexorder"
begin

text \<open>
  \<open>VEN/src/entities/asset.rs\<close> and \<open>VEN/src/controller/sim_snapshot.rs\<close>: how an asset's power
  follows a commanded setpoint, and the snapshot of the assets the controller reads. The snapshot keeps
  the fields the controller's decisions read; display and telemetry fields are left out.
\<close>

datatype step_rule = Continuous | Nearest | LatchOnFull

record setpoint_response =
  sr_power_steps_kw :: "f64 list"
  sr_step_rule :: step_rule
  sr_snap_to_zero_below_kw :: f64
  sr_power_next_tick_kw :: "f64 option"

definition resp_continuous :: setpoint_response where
  "resp_continuous = \<lparr>sr_power_steps_kw = [], sr_step_rule = Continuous,
     sr_snap_to_zero_below_kw = 0, sr_power_next_tick_kw = None\<rparr>"

definition resp_stepped_nearest :: "f64 list \<Rightarrow> setpoint_response" where
  "resp_stepped_nearest steps = resp_continuous\<lparr>sr_power_steps_kw := steps, sr_step_rule := Nearest\<rparr>"

definition resp_latching :: "f64 list \<Rightarrow> setpoint_response" where
  "resp_latching steps = resp_continuous\<lparr>sr_power_steps_kw := steps, sr_step_rule := LatchOnFull\<rparr>"

definition resp_fixed :: "f64 \<Rightarrow> setpoint_response" where
  "resp_fixed kw = resp_continuous\<lparr>sr_power_next_tick_kw := Some kw\<rparr>"

definition with_snap_to_zero_below :: "f64 \<Rightarrow> setpoint_response \<Rightarrow> setpoint_response" where
  "with_snap_to_zero_below kw r = r\<lparr>sr_snap_to_zero_below_kw := kw\<rparr>"

definition with_power_next_tick :: "f64 \<Rightarrow> setpoint_response \<Rightarrow> setpoint_response" where
  "with_power_next_tick kw r = r\<lparr>sr_power_next_tick_kw := Some kw\<rparr>"

section \<open>What a setpoint draws\<close>

fun nearest_from :: "f64 \<Rightarrow> f64 \<Rightarrow> f64 list \<Rightarrow> f64" where
  "nearest_from sp best [] = best"
| "nearest_from sp best (x # xs) =
     (if \<bar>x - sp\<bar> \<le> \<bar>best - sp\<bar> then nearest_from sp x xs else nearest_from sp best xs)"

fun nearest_power_step :: "f64 list \<Rightarrow> f64 \<Rightarrow> f64" where
  "nearest_power_step [] sp = sp"
| "nearest_power_step (x # xs) sp = nearest_from sp x xs"

fun highest_power_step_at_or_below :: "f64 list \<Rightarrow> f64 \<Rightarrow> f64" where
  "highest_power_step_at_or_below [] kw = kw"
| "highest_power_step_at_or_below (x # xs) kw =
     hm_or x (List.find (\<lambda>s. s \<le> kw + 1 / 10 ^ 9) (rev (x # xs)))"

definition step_range :: "setpoint_response \<Rightarrow> f64 \<Rightarrow> f64 \<times> f64" where
  "step_range r fallback =
     (case sr_power_steps_kw r of [] \<Rightarrow> (fallback, fallback) | x # xs \<Rightarrow> (x, last (x # xs)))"

definition snapped_to_zero :: "setpoint_response \<Rightarrow> f64 \<Rightarrow> f64" where
  "snapped_to_zero r kw = (if 0 < kw \<and> kw < sr_snap_to_zero_below_kw r then 0 else kw)"

definition clamp_range :: "f64 \<Rightarrow> f64 \<Rightarrow> f64 \<Rightarrow> f64" where
  "clamp_range lo hi x = min (max x lo) hi"

definition lands :: "setpoint_response \<Rightarrow> f64 \<Rightarrow> f64 \<Rightarrow> f64 \<Rightarrow> f64" where
  "lands r lo hi sp0 =
     (let sp = clamp_range lo hi sp0 in
      case sr_step_rule r of
        Continuous \<Rightarrow> snapped_to_zero r sp
      | Nearest \<Rightarrow> nearest_power_step (sr_power_steps_kw r) sp
      | LatchOnFull \<Rightarrow> (let (lowest, highest) = step_range r sp in if 1 / 10 ^ 6 < sp then highest else lowest))"

definition draws :: "setpoint_response \<Rightarrow> f64 \<Rightarrow> f64 \<Rightarrow> f64 \<Rightarrow> f64" where
  "draws r lo hi sp =
     (case sr_power_next_tick_kw r of Some kw \<Rightarrow> kw | None \<Rightarrow> lands r lo hi sp)"

definition setpoint_at_or_below :: "setpoint_response \<Rightarrow> f64 \<Rightarrow> f64 \<Rightarrow> f64 \<Rightarrow> f64" where
  "setpoint_at_or_below r lo hi kw0 =
     (let kw = clamp_range lo hi kw0 in
      case sr_step_rule r of
        Continuous \<Rightarrow> snapped_to_zero r kw
      | Nearest \<Rightarrow> highest_power_step_at_or_below (sr_power_steps_kw r) kw
      | LatchOnFull \<Rightarrow>
          (let (lowest, highest) = step_range r kw in if highest \<le> kw + 1 / 10 ^ 9 then highest else lowest))"

section \<open>The snapshot\<close>

datatype arbiter_lever_kind = Storage | SurplusCharge | PausableLoad

record arbiter_lever =
  al_kind :: arbiter_lever_kind
  al_rated_import_kw :: f64
  al_rated_export_kw :: f64

record emergency_what_ifs =
  ew_emergency_heat_kw :: f64
  ew_absorb_headroom_kw :: f64

datatype non_planning_dispatch = StartNow | StartBy instant | SurplusOnly

record asset_snapshot =
  as_power_kw :: f64
  as_cap_max_import_kw :: f64
  as_cap_max_export_kw :: f64
  as_available_discharge_kwh :: "f64 option"
  as_available_charge_kwh :: "f64 option"
  as_forced_power_kw :: "f64 option"
  as_response :: setpoint_response
  as_default_setpoint_kw :: "f64 option"
  as_setpoint_kw :: "f64 option"
  as_soc_frac :: "f64 option"
  as_emergency_what_ifs :: "emergency_what_ifs option"
  as_ac_ceiling_kw :: "f64 option"
  as_arbiter_lever :: "arbiter_lever option"
  as_surplus_claim_rank :: "nat option"
  as_full_effort_time_to_target_s :: "f64 option"
  as_dispatch_without_request :: "non_planning_dispatch option"
  as_roster_index :: nat

type_synonym sim_snapshot = "asset_snapshot hmap"

definition setpoint_or_power :: "asset_snapshot \<Rightarrow> f64" where
  "setpoint_or_power a = hm_or (as_power_kw a) (as_setpoint_kw a)"

definition power_drawn_for_setpoint :: "asset_snapshot \<Rightarrow> f64 \<Rightarrow> f64" where
  "power_drawn_for_setpoint a sp = draws (as_response a) (- \<bar>as_cap_max_export_kw a\<bar>) (as_cap_max_import_kw a) sp"

definition power_when_command_lands :: "asset_snapshot \<Rightarrow> f64 \<Rightarrow> f64" where
  "power_when_command_lands a sp = lands (as_response a) (- \<bar>as_cap_max_export_kw a\<bar>) (as_cap_max_import_kw a) sp"

definition setpoint_for_power_at_or_below :: "asset_snapshot \<Rightarrow> f64 \<Rightarrow> f64" where
  "setpoint_for_power_at_or_below a kw =
     setpoint_at_or_below (as_response a) (- \<bar>as_cap_max_export_kw a\<bar>) (as_cap_max_import_kw a) kw"

definition has_state_of_charge :: "asset_snapshot \<Rightarrow> bool" where
  "has_state_of_charge a \<longleftrightarrow> as_soc_frac a \<noteq> None"

definition default_setpoints :: "sim_snapshot \<Rightarrow> f64 hmap" where
  "default_setpoints sim = List.map_filter (\<lambda>(i, a). map_option (Pair i) (as_default_setpoint_kw a)) sim"

definition assets_in_roster_order :: "sim_snapshot \<Rightarrow> (string \<times> asset_snapshot) list" where
  "assets_in_roster_order sim = sort_key (\<lambda>(i, a). (as_roster_index a, i)) sim"

definition lever_asset_ids :: "arbiter_lever_kind list \<Rightarrow> sim_snapshot \<Rightarrow> string list" where
  "lever_asset_ids kinds sim =
     map fst (filter (\<lambda>(_, a). case as_arbiter_lever a of None \<Rightarrow> False | Some l \<Rightarrow> al_kind l \<in> set kinds)
       (assets_in_roster_order sim))"

lemma lever_asset_ids_mem:
  "i \<in> set (lever_asset_ids kinds sim) \<longleftrightarrow>
     (\<exists>a l. (i, a) \<in> set sim \<and> as_arbiter_lever a = Some l \<and> al_kind l \<in> set kinds)"
  by (force simp: lever_asset_ids_def assets_in_roster_order_def split: option.splits)

lemma lever_asset_ids_distinct: "hm_wf sim \<Longrightarrow> distinct (lever_asset_ids kinds sim)"
proof -
  assume "hm_wf sim"
  then have "distinct (map fst (assets_in_roster_order sim))"
    unfolding hm_wf_def assets_in_roster_order_def
    by (metis (no_types, lifting) distinct_sort mset_map mset_eq_imp_distinct_iff mset_sort)
  then show ?thesis unfolding lever_asset_ids_def by (rule distinct_map_filter)
qed

section \<open>Steps\<close>

lemma nearest_from_mem: "nearest_from sp b xs \<in> insert b (set xs)"
  by (induction xs arbitrary: b) auto

lemma nearest_from_improves: "\<bar>nearest_from sp b xs - sp\<bar> \<le> \<bar>b - sp\<bar>"
proof (induction xs arbitrary: b)
  case (Cons y ys)
  show ?case using Cons [of y] Cons [of b] by simp
qed simp

lemma nearest_from_best: "x \<in> insert b (set xs) \<Longrightarrow> \<bar>nearest_from sp b xs - sp\<bar> \<le> \<bar>x - sp\<bar>"
proof (induction xs arbitrary: b)
  case (Cons y ys)
  from Cons.prems consider "x = b" | "x = y" | "x \<in> set ys" by auto
  then show ?case
  proof cases
    case 1
    then show ?thesis using nearest_from_improves [of sp b "y # ys"] by simp
  next
    case 2
    then show ?thesis using nearest_from_improves [of sp y ys] nearest_from_improves [of sp b ys] by simp
  next
    case 3
    then show ?thesis using Cons.IH by simp
  qed
qed simp

lemma nearest_step_exact: "sp \<in> set steps \<Longrightarrow> nearest_power_step steps sp = sp"
  using nearest_from_best [of sp _ _ sp] by (cases steps) force+

lemma nearest_step_mem: "steps \<noteq> [] \<Longrightarrow> nearest_power_step steps sp \<in> set steps"
  using nearest_from_mem by (cases steps) auto

lemma highest_step_mem: "steps \<noteq> [] \<Longrightarrow> highest_power_step_at_or_below steps kw \<in> set steps"
proof (cases steps)
  case (Cons x xs)
  show ?thesis
    by (cases "List.find (\<lambda>s. s \<le> kw + 1 / 10 ^ 9) (rev (x # xs))")
      (auto simp: Cons dest!: find_Some_D)
qed simp

lemma highest_step_le:
  "sorted steps \<Longrightarrow> steps \<noteq> [] \<Longrightarrow>
     highest_power_step_at_or_below steps kw \<le> kw + 1 / 10 ^ 9 \<or>
     highest_power_step_at_or_below steps kw = hd steps"
proof (cases steps)
  case (Cons x xs)
  show ?thesis
    by (cases "List.find (\<lambda>s. s \<le> kw + 1 / 10 ^ 9) (rev (x # xs))")
      (auto simp: Cons dest!: find_Some_D)
qed simp

text \<open>
  A response an asset can declare within its range: ascending steps inside it; a latching asset is
  either startable (its lowest step is off) or stuck at one rate; a stepped asset has steps.
\<close>

definition response_ok :: "setpoint_response \<Rightarrow> f64 \<Rightarrow> f64 \<Rightarrow> bool" where
  "response_ok r lo hi \<longleftrightarrow>
     lo \<le> 0 \<and> 0 \<le> hi \<and> sorted (sr_power_steps_kw r) \<and>
     (\<forall>x \<in> set (sr_power_steps_kw r). lo \<le> x \<and> x \<le> hi) \<and>
     (sr_step_rule r \<noteq> Continuous \<longrightarrow> sr_power_steps_kw r \<noteq> []) \<and>
     (sr_step_rule r = LatchOnFull \<longrightarrow>
        hd (sr_power_steps_kw r) = last (sr_power_steps_kw r) \<or>
        hd (sr_power_steps_kw r) = 0 \<and> 1 / 10 ^ 6 < last (sr_power_steps_kw r))"

lemma clamp_range_in: "lo \<le> hi \<Longrightarrow> lo \<le> clamp_range lo hi x \<and> clamp_range lo hi x \<le> hi"
  by (auto simp: clamp_range_def)

lemma clamp_range_id: "lo \<le> x \<Longrightarrow> x \<le> hi \<Longrightarrow> clamp_range lo hi x = x"
  by (simp add: clamp_range_def)

lemma step_range_simps: "sr_power_steps_kw r \<noteq> [] \<Longrightarrow> step_range r f = (hd (sr_power_steps_kw r), last (sr_power_steps_kw r))"
  by (cases "sr_power_steps_kw r") (auto simp: step_range_def)

lemma snapped_idem: "snapped_to_zero r (snapped_to_zero r x) = snapped_to_zero r x"
  by (simp add: snapped_to_zero_def)

lemma lands_range:
  assumes ok: "response_ok r lo hi"
  shows "lo \<le> lands r lo hi sp \<and> lands r lo hi sp \<le> hi \<and>
    lands r lo hi (lands r lo hi sp) = lands r lo hi sp"
proof (cases "sr_step_rule r")
  case Continuous
  have "lo \<le> snapped_to_zero r (clamp_range lo hi sp) \<and> snapped_to_zero r (clamp_range lo hi sp) \<le> hi"
    using ok clamp_range_in [of lo hi sp] by (auto simp: snapped_to_zero_def response_ok_def)
  then show ?thesis using Continuous by (simp add: lands_def Let_def clamp_range_id snapped_idem)
next
  case Nearest
  then have "nearest_power_step (sr_power_steps_kw r) (clamp_range lo hi sp) \<in> set (sr_power_steps_kw r)"
    using ok by (intro nearest_step_mem) (simp add: response_ok_def)
  with ok have "lo \<le> nearest_power_step (sr_power_steps_kw r) (clamp_range lo hi sp)"
    "nearest_power_step (sr_power_steps_kw r) (clamp_range lo hi sp) \<le> hi"
    "nearest_power_step (sr_power_steps_kw r) (nearest_power_step (sr_power_steps_kw r) (clamp_range lo hi sp)) =
      nearest_power_step (sr_power_steps_kw r) (clamp_range lo hi sp)"
    by (auto simp: response_ok_def nearest_step_exact)
  then show ?thesis using Nearest by (simp add: lands_def Let_def clamp_range_id)
next
  case LatchOnFull
  let ?lo = "hd (sr_power_steps_kw r)" and ?hi = "last (sr_power_steps_kw r)"
  have ne: "sr_power_steps_kw r \<noteq> []" using ok LatchOnFull by (simp add: response_ok_def)
  have l: "lands r lo hi x = (if 1 / 10 ^ 6 < clamp_range lo hi x then ?hi else ?lo)" for x
    using LatchOnFull ne by (simp add: lands_def Let_def step_range_simps)
  have in_range: "lo \<le> ?lo \<and> ?lo \<le> hi \<and> lo \<le> ?hi \<and> ?hi \<le> hi"
    using ok ne by (auto simp: response_ok_def)
  moreover have "?lo = ?hi \<or> ?lo = 0 \<and> 1 / 10 ^ 6 < ?hi"
    using ok LatchOnFull by (simp add: response_ok_def)
  ultimately show ?thesis unfolding l by (auto simp: clamp_range_id)
qed

lemma at_or_below_sheds:
  assumes ok: "response_ok r lo hi" and kw: "lo \<le> kw"
  shows "lands r lo hi (setpoint_at_or_below r lo hi kw) \<le> kw + 1 / 10 ^ 9 \<or>
    sr_step_rule r \<noteq> Continuous \<and> lands r lo hi (setpoint_at_or_below r lo hi kw) = hd (sr_power_steps_kw r)"
proof -
  have clamp: "clamp_range lo hi kw \<le> kw" using kw by (simp add: clamp_range_def)
  show ?thesis
  proof (cases "sr_step_rule r")
    case Continuous
    have "lands r lo hi (setpoint_at_or_below r lo hi kw) = snapped_to_zero r (clamp_range lo hi kw)"
      using ok clamp_range_in [of lo hi kw] Continuous
      by (auto simp: lands_def setpoint_at_or_below_def Let_def clamp_range_id snapped_to_zero_def response_ok_def)
    then show ?thesis using clamp by (auto simp: snapped_to_zero_def)
  next
    case Nearest
    let ?s = "highest_power_step_at_or_below (sr_power_steps_kw r) (clamp_range lo hi kw)"
    have s: "?s \<in> set (sr_power_steps_kw r)"
      using ok Nearest by (intro highest_step_mem) (simp add: response_ok_def)
    then have "lands r lo hi (setpoint_at_or_below r lo hi kw) = ?s"
      using ok Nearest by (simp add: lands_def setpoint_at_or_below_def Let_def clamp_range_id response_ok_def nearest_step_exact)
    then show ?thesis
      using highest_step_le [of "sr_power_steps_kw r" "clamp_range lo hi kw"] ok Nearest clamp
      by (auto simp: response_ok_def)
  next
    case LatchOnFull
    let ?lo = "hd (sr_power_steps_kw r)" and ?hi = "last (sr_power_steps_kw r)"
    have ne: "sr_power_steps_kw r \<noteq> []" using ok LatchOnFull by (simp add: response_ok_def)
    have in_range: "lo \<le> ?lo \<and> ?lo \<le> hi \<and> lo \<le> ?hi \<and> ?hi \<le> hi"
      using ok ne by (auto simp: response_ok_def)
    moreover have "?lo = ?hi \<or> ?lo = 0 \<and> 1 / 10 ^ 6 < ?hi"
      using ok LatchOnFull by (simp add: response_ok_def)
    ultimately show ?thesis
      using LatchOnFull ne clamp
      by (auto simp: lands_def setpoint_at_or_below_def Let_def step_range_simps clamp_range_id)
  qed
qed

section \<open>Properties\<close>

text \<open>
  What a command draws once it lands always lies in the asset's range, and commanding exactly what a
  setpoint draws draws it again, for every response an asset can declare.
\<close>

theorem lands_in_range_stable:
  assumes "response_ok r lo hi"
  shows "lo \<le> lands r lo hi sp \<and> lands r lo hi sp \<le> hi \<and>
    lands r lo hi (lands r lo hi sp) = lands r lo hi sp"
  using assms by (rule lands_range)

lemma lands_in_range_stable_witness:
  "lands (resp_stepped_nearest [0, 1, 2]) (- 0) 2 (lands (resp_stepped_nearest [0, 1, 2]) (- 0) 2 (14 / 10)) =
   lands (resp_stepped_nearest [0, 1, 2]) (- 0) 2 (14 / 10)"
  using lands_in_range_stable [of "resp_stepped_nearest [0, 1, 2]" "- 0" 2 "14 / 10"]
  by (simp add: response_ok_def resp_stepped_nearest_def resp_continuous_def)

text \<open>
  Shedding never overshoots upwards: the setpoint the code commands so that an asset draws at most
  \<open>kw\<close> makes it draw at most \<open>kw\<close> (within the code's tolerance of 1e-9 kW in a step
  comparison), or as little as the asset can draw at all.
\<close>

theorem setpoint_at_or_below_sheds:
  assumes "response_ok r lo hi" and "lo \<le> kw"
  shows "lands r lo hi (setpoint_at_or_below r lo hi kw) \<le> kw + 1 / 10 ^ 9 \<or>
    sr_step_rule r \<noteq> Continuous \<and> lands r lo hi (setpoint_at_or_below r lo hi kw) = hd (sr_power_steps_kw r)"
  using assms by (rule at_or_below_sheds)

lemma setpoint_at_or_below_sheds_witness:
  "lands (resp_stepped_nearest [0, 1, 2]) (- 0) 2 (setpoint_at_or_below (resp_stepped_nearest [0, 1, 2]) (- 0) 2 (19 / 10)) \<le> 19 / 10 + 1 / 10 ^ 9"
  using setpoint_at_or_below_sheds [of "resp_stepped_nearest [0, 1, 2]" "- 0" 2 "19 / 10"]
  by (auto simp: response_ok_def resp_stepped_nearest_def resp_continuous_def)

end
