(* ===== verification/Arbiter_Levers.thy ===== *)
theory Arbiter_Levers
  imports Setpoint_Response
begin

text \<open>
  \<open>VEN/src/controller/arbiter/arbiter_levers.rs\<close> with the constants of
  \<open>VEN/src/controller/arbiter.rs\<close>: each lever's capacity and cost, and what applying it does to the
  setpoint map. A setpoint map is a finite map from asset ids to kW.
\<close>

type_synonym setpoints = "f64 hmap"

definition heater_comfort_override :: f64 where "heater_comfort_override = 40 / 100"
definition lever_preemption_margin :: f64 where "lever_preemption_margin = 2 / 100"
definition dead_band_kw :: f64 where "dead_band_kw = 1 / 10"

datatype planner_objective =
  MinCost | MinGhg | MinGrid | MinImport | MaxRevenue | Custom | OpportunisticObjective

text \<open>The fields of a plan slot the controller reads.\<close>

record plan_time_slot =
  ps_start :: instant
  ps_end :: instant
  ps_export_tariff :: f64
  ps_marginal_cost_import :: f64
  ps_marginal_cost_export :: f64
  ps_pv_forecast_kw :: f64
  ps_pv_used_kw :: f64
  ps_allocations :: "(string \<times> f64) list"
  ps_net_import_kw :: f64
  ps_net_export_kw :: f64

record ev_overlay =
  ov_plan_allocates :: bool
  ov_enabled :: bool

definition overlay_default :: ev_overlay where
  "overlay_default = \<lparr>ov_plan_allocates = False, ov_enabled = False\<rparr>"

definition overlay_overriding :: ev_overlay where
  "overlay_overriding = \<lparr>ov_plan_allocates = False, ov_enabled = True\<rparr>"

definition offers_surplus :: "ev_overlay \<Rightarrow> bool" where
  "offers_surplus o' \<longleftrightarrow> \<not> ov_plan_allocates o' \<and> ov_enabled o'"

section \<open>Levers\<close>

datatype lever_kind = LBattery | LEv | LHeaterPause | LHeaterEmergency | LPvCurtail

fun kind_name :: "lever_kind \<Rightarrow> string" where
  "kind_name LBattery = ''battery''"
| "kind_name LEv = ''ev''"
| "kind_name LHeaterPause = ''heater_pause''"
| "kind_name LHeaterEmergency = ''heater_emergency''"
| "kind_name LPvCurtail = ''pv_curtail''"

fun lever_kind_of :: "arbiter_lever_kind \<Rightarrow> lever_kind" where
  "lever_kind_of Storage = LBattery"
| "lever_kind_of SurplusCharge = LEv"
| "lever_kind_of PausableLoad = LHeaterPause"

record lever =
  lv_kind :: lever_kind
  lv_asset :: "string option"
  lv_capacity_kw :: f64
  lv_cost :: f64

definition key_of :: "lever_kind \<Rightarrow> string option \<Rightarrow> string" where
  "key_of k a = (case a of Some i \<Rightarrow> kind_name k @ '':'' @ i | None \<Rightarrow> kind_name k)"

definition lever_key :: "lever \<Rightarrow> string" where
  "lever_key l = key_of (lv_kind l) (lv_asset l)"

definition kind_of_key :: "string \<Rightarrow> string" where
  "kind_of_key key = takeWhile (\<lambda>c. c \<noteq> CHR '':'') key"

definition current_setpoint :: "setpoints \<Rightarrow> sim_snapshot \<Rightarrow> string \<Rightarrow> f64" where
  "current_setpoint sp sim i =
     (case hm_get sp i of Some v \<Rightarrow> v
      | None \<Rightarrow> (case hm_get sim i of Some a \<Rightarrow> setpoint_or_power a | None \<Rightarrow> 0))"

definition drawn_kw :: "setpoints \<Rightarrow> sim_snapshot \<Rightarrow> string \<Rightarrow> f64" where
  "drawn_kw sp sim i =
     (case hm_get sim i of None \<Rightarrow> 0 | Some a \<Rightarrow> power_drawn_for_setpoint a (current_setpoint sp sim i))"

section \<open>Storage\<close>

definition storage_range :: "asset_snapshot \<Rightarrow> (f64 \<times> f64) option \<Rightarrow> f64 \<times> f64" where
  "storage_range a bounds =
     (let lo = - \<bar>as_cap_max_export_kw a\<bar>; hi = as_cap_max_import_kw a in
      case bounds of
        Some (blo, bhi) \<Rightarrow> (min (max lo blo) 0, max (min hi bhi) 0)
      | None \<Rightarrow> (lo, hi))"

definition battery_lever ::
  "setpoints \<Rightarrow> sim_snapshot \<Rightarrow> string \<Rightarrow> plan_time_slot option \<Rightarrow> f64 \<Rightarrow> (f64 \<times> f64) option \<Rightarrow> lever option" where
  "battery_lever sp sim i slot dev bounds =
     (case hm_get sim i of
        None \<Rightarrow> None
      | Some a \<Rightarrow>
          (let cur = current_setpoint sp sim i;
               (lo, hi) = storage_range a bounds;
               (power, energy, cost) =
                 (if 0 < dev
                  then (cur - lo, as_available_discharge_kwh a,
                        case slot of None \<Rightarrow> 0 | Some s \<Rightarrow> ps_marginal_cost_import s)
                  else (hi - cur, as_available_charge_kwh a,
                        case slot of None \<Rightarrow> 0 | Some s \<Rightarrow> ps_marginal_cost_export s))
           in if (case energy of None \<Rightarrow> False | Some e \<Rightarrow> e \<le> 0) then None
              else if power \<le> 0 then None
              else Some \<lparr>lv_kind = LBattery, lv_asset = Some i, lv_capacity_kw = power, lv_cost = cost\<rparr>))"

text \<open>\<open>f64::clamp\<close> panics where the bounds are crossed.\<close>

definition clamp_checked :: "f64 \<Rightarrow> f64 \<Rightarrow> f64 \<Rightarrow> f64 option" where
  "clamp_checked lo hi x = (if lo \<le> hi then Some (clamp_range lo hi x) else None)"

definition apply_battery_lever ::
  "sim_snapshot \<Rightarrow> string \<Rightarrow> f64 \<Rightarrow> planner_objective \<Rightarrow> (f64 \<times> f64) option \<Rightarrow> setpoints \<Rightarrow> (f64 \<times> setpoints) option" where
  "apply_battery_lever sim i assigned objective bounds sp =
     (case hm_get sim i of
        None \<Rightarrow> Some (0, sp)
      | Some a \<Rightarrow>
          if objective = MaxRevenue \<and> 0 < assigned then Some (0, sp)
          else
            (let (lo, hi) = storage_range a bounds; cur = current_setpoint sp sim i in
             case clamp_checked lo hi (cur - assigned) of
               None \<Rightarrow> None
             | Some clamped \<Rightarrow>
                 (let delta = clamped - cur in
                  if \<bar>delta\<bar> < 1 / 10 ^ 6 then Some (0, sp)
                  else Some (\<bar>delta\<bar>, hm_put i clamped sp))))"

section \<open>EV\<close>

definition ev_lever :: "setpoints \<Rightarrow> sim_snapshot \<Rightarrow> string \<Rightarrow> f64 \<Rightarrow> ev_overlay \<Rightarrow> lever option" where
  "ev_lever sp sim i dev overlay =
     (if \<not> offers_surplus overlay then None
      else case hm_get sim i of
        None \<Rightarrow> None
      | Some a \<Rightarrow>
          (let ceiling = as_cap_max_import_kw a in
           if ceiling \<le> 0 then None
           else
             (let cur = max (current_setpoint sp sim i) 0;
                  capacity = (if dev < 0 then max (ceiling - cur) 0 else cur)
              in if capacity \<le> 0 then None
                 else Some \<lparr>lv_kind = LEv, lv_asset = Some i, lv_capacity_kw = capacity, lv_cost = 0\<rparr>)))"

record lever_effect =
  le_now_kw :: f64
  le_landed_kw :: f64

definition apply_ev_lever :: "sim_snapshot \<Rightarrow> string \<Rightarrow> f64 \<Rightarrow> setpoints \<Rightarrow> lever_effect \<times> setpoints" where
  "apply_ev_lever sim i assigned sp =
     (case hm_get sim i of
        None \<Rightarrow> (\<lparr>le_now_kw = 0, le_landed_kw = 0\<rparr>, sp)
      | Some a \<Rightarrow>
          (let cur = max (current_setpoint sp sim i) 0;
               new_sp = power_when_command_lands a (max (cur - assigned) 0)
           in (\<lparr>le_now_kw = \<bar>power_drawn_for_setpoint a cur - power_drawn_for_setpoint a new_sp\<bar>,
                le_landed_kw = \<bar>power_when_command_lands a cur - new_sp\<bar>\<rparr>,
               hm_put i new_sp sp)))"

section \<open>Heater\<close>

definition heater_pause_lever :: "setpoints \<Rightarrow> sim_snapshot \<Rightarrow> string \<Rightarrow> f64 \<Rightarrow> lever option" where
  "heater_pause_lever sp sim i dev =
     (if dev < 0 then None
      else case hm_get sim i of
        None \<Rightarrow> None
      | Some a \<Rightarrow>
          if as_forced_power_kw a \<noteq> None then None
          else (let drawn = drawn_kw sp sim i in
            if drawn \<le> 0 then None
            else Some \<lparr>lv_kind = LHeaterPause, lv_asset = Some i, lv_capacity_kw = drawn, lv_cost = 0\<rparr>))"

definition apply_heater_pause_lever :: "sim_snapshot \<Rightarrow> string \<Rightarrow> f64 \<Rightarrow> setpoints \<Rightarrow> f64 \<times> setpoints" where
  "apply_heater_pause_lever sim i assigned sp =
     (case hm_get sim i of
        None \<Rightarrow> (0, sp)
      | Some a \<Rightarrow>
          (let drawn = drawn_kw sp sim i;
               new_sp = setpoint_for_power_at_or_below a (max (drawn - assigned) 0)
           in (drawn - power_drawn_for_setpoint a new_sp, hm_put i new_sp sp)))"

definition heater_emergency_lever ::
  "sim_snapshot \<Rightarrow> string \<Rightarrow> plan_time_slot option \<Rightarrow> f64 \<Rightarrow> bool \<Rightarrow> bool \<Rightarrow> lever option" where
  "heater_emergency_lever sim i slot dev is_incumbent alert_active =
     (case hm_get sim i of
        None \<Rightarrow> None
      | Some a \<Rightarrow>
          (case as_emergency_what_ifs a of
             None \<Rightarrow> None
           | Some w \<Rightarrow>
               (let threshold = (if is_incumbent then heater_comfort_override - lever_preemption_margin
                                 else heater_comfort_override) in
                if 0 < dev
                then (if \<not> alert_active then None
                      else if ew_emergency_heat_kw w \<le> 0 then None
                      else Some \<lparr>lv_kind = LHeaterEmergency, lv_asset = Some i,
                             lv_capacity_kw = ew_emergency_heat_kw w, lv_cost = heater_comfort_override\<rparr>)
                else (case slot of
                        None \<Rightarrow> None
                      | Some s \<Rightarrow>
                          if ps_marginal_cost_export s \<le> threshold then None
                          else if ew_absorb_headroom_kw w \<le> 0 then None
                          else Some \<lparr>lv_kind = LHeaterEmergency, lv_asset = Some i,
                                 lv_capacity_kw = ew_absorb_headroom_kw w, lv_cost = ps_marginal_cost_export s\<rparr>))))"

section \<open>PV\<close>

definition pv_curtailment_lever :: "plan_time_slot option \<Rightarrow> f64 \<Rightarrow> lever option" where
  "pv_curtailment_lever slot dev =
     (case slot of
        None \<Rightarrow> None
      | Some s \<Rightarrow>
          if 0 \<le> dev \<or> ps_pv_used_kw s \<le> 0 then None
          else Some \<lparr>lv_kind = LPvCurtail, lv_asset = None, lv_capacity_kw = ps_pv_used_kw s,
                 lv_cost = ps_export_tariff s\<rparr>)"

section \<open>The projection of the site's net power\<close>

definition asset_draw :: "setpoints \<Rightarrow> sim_snapshot \<Rightarrow> f64 hmap \<Rightarrow> string \<times> asset_snapshot \<Rightarrow> f64" where
  "asset_draw sp sim live = (\<lambda>(i, a).
     case hm_get live i of Some kw \<Rightarrow> kw | None \<Rightarrow> power_drawn_for_setpoint a (current_setpoint sp sim i))"

definition projected_net_except :: "sim_snapshot \<Rightarrow> setpoints \<Rightarrow> f64 hmap \<Rightarrow> string list \<Rightarrow> f64" where
  "projected_net_except sim sp live except =
     sum_list (map (asset_draw sp sim live) (filter (\<lambda>(i, _). i \<notin> set except) sim))"

definition projected_net :: "sim_snapshot \<Rightarrow> setpoints \<Rightarrow> f64 hmap \<Rightarrow> f64" where
  "projected_net sim sp live = projected_net_except sim sp live []"

definition projected_landed_net :: "sim_snapshot \<Rightarrow> setpoints \<Rightarrow> f64 hmap \<Rightarrow> f64" where
  "projected_landed_net sim sp live =
     sum_list (map (\<lambda>(i, a). case hm_get live i of Some kw \<Rightarrow> kw
        | None \<Rightarrow> power_when_command_lands a (current_setpoint sp sim i)) sim)"

definition is_array :: "sim_snapshot \<Rightarrow> string \<Rightarrow> bool" where
  "is_array sim i \<longleftrightarrow> (case hm_get sim i of None \<Rightarrow> False | Some a \<Rightarrow> as_ac_ceiling_kw a \<noteq> None)"

definition generating_kw :: "f64 hmap \<Rightarrow> sim_snapshot \<Rightarrow> f64" where
  "generating_kw live sim = sum_list (map (\<lambda>(_, kw). max (- kw) 0) (filter (\<lambda>(i, _). is_array sim i) live))"

definition tighten_generation :: "f64 hmap \<Rightarrow> sim_snapshot \<Rightarrow> f64 \<Rightarrow> f64 hmap" where
  "tighten_generation live sim tighten =
     (let g = generating_kw live sim in
      map (\<lambda>(i, kw). (i, if is_array sim i \<and> 0 < g
                         then min (kw + tighten * (max (- kw) 0 / g)) 0 else kw)) live)"

section \<open>Opportunistic EV charging\<close>

fun offer_surplus :: "sim_snapshot \<Rightarrow> string list \<Rightarrow> f64 \<Rightarrow> setpoints \<Rightarrow> setpoints" where
  "offer_surplus sim [] surplus sp = sp"
| "offer_surplus sim (i # ids) surplus sp =
     (if surplus < dead_band_kw then sp
      else case hm_get sim i of
        None \<Rightarrow> offer_surplus sim ids surplus sp
      | Some a \<Rightarrow>
          (let charge = power_when_command_lands a surplus in
           if 0 < charge then offer_surplus sim ids (surplus - charge) (hm_put i charge sp)
           else offer_surplus sim ids surplus sp))"

definition surplus_evs :: "sim_snapshot \<Rightarrow> ev_overlay hmap \<Rightarrow> string list" where
  "surplus_evs sim overlays =
     filter (\<lambda>i. case hm_get overlays i of None \<Rightarrow> False | Some v \<Rightarrow> offers_surplus v)
       (lever_asset_ids [SurplusCharge] sim)"

definition ev_surplus_kw :: "sim_snapshot \<Rightarrow> f64 hmap \<Rightarrow> ev_overlay hmap \<Rightarrow> setpoints \<Rightarrow> f64" where
  "ev_surplus_kw sim live overlays sp =
     (let evs = surplus_evs sim overlays; storage = lever_asset_ids [Storage] sim;
          net_other = projected_net_except sim sp live (evs @ storage);
          storage_charge = sum_list (map (\<lambda>i. max (hm_or 0 (hm_get sp i)) 0) storage)
      in max (- net_other - storage_charge) 0)"

definition apply_ev_lever_opportunistic ::
  "sim_snapshot \<Rightarrow> f64 hmap \<Rightarrow> ev_overlay hmap \<Rightarrow> setpoints \<Rightarrow> setpoints" where
  "apply_ev_lever_opportunistic sim live overlays sp =
     offer_surplus sim (surplus_evs sim overlays) (ev_surplus_kw sim live overlays sp) sp"

end
