(* ===== verification/Arbiter_Ranked.thy ===== *)
theory Arbiter_Ranked
  imports Arbiter_Levers
begin

text \<open>
  \<open>VEN/src/controller/arbiter/ranked.rs\<close> and \<open>lag_bridge.rs\<close>: the lever loop every pass of the
  arbiter shares. One pass collects the levers on offer, ranks them by cost and consumes the deviation
  lever by lever. \<open>None\<close> is the panic of \<open>f64::clamp\<close> on crossed bounds.
\<close>

record arbiter_tick =
  at_sim :: sim_snapshot
  at_slot :: "plan_time_slot option"
  at_objective :: planner_objective
  at_overlay :: "ev_overlay hmap"
  at_live :: "f64 hmap"
  at_live_released :: "f64 hmap option"
  at_alert :: bool
  at_limit_target_kw :: "f64 option"
  at_prev_bridge :: "f64 hmap"

record lever_policy =
  lp_ev_overrides_plan :: bool
  lp_battery_respects_objective :: bool
  lp_admits :: "lever_kind list"

definition all_levers :: "lever_kind list" where
  "all_levers = [LBattery, LEv, LHeaterPause, LHeaterEmergency, LPvCurtail]"

definition deviation_policy :: lever_policy where
  "deviation_policy = \<lparr>lp_ev_overrides_plan = False, lp_battery_respects_objective = True,
     lp_admits = all_levers\<rparr>"

definition dispatch_policy :: lever_policy where
  "dispatch_policy = \<lparr>lp_ev_overrides_plan = False, lp_battery_respects_objective = False,
     lp_admits = [LBattery]\<rparr>"

type_synonym setpoint_bounds = "(f64 \<times> f64) hmap"

section \<open>Ranking\<close>

fun position :: "('a \<Rightarrow> bool) \<Rightarrow> 'a list \<Rightarrow> nat option" where
  "position P [] = None"
| "position P (x # xs) = (if P x then Some 0 else map_option Suc (position P xs))"

definition swap_to_head :: "nat \<Rightarrow> 'a list \<Rightarrow> 'a list" where
  "swap_to_head i xs = xs[0 := xs ! i, i := xs ! 0]"

definition rank_levers :: "lever list \<Rightarrow> string option \<Rightarrow> lever list" where
  "rank_levers levers incumbent =
     (let s = sort_key lv_cost levers in
      case (incumbent, s) of
        (Some key, cheapest # _) \<Rightarrow>
          if lever_key cheapest = key then s
          else (case position (\<lambda>l. lever_key l = key) s of
                  None \<Rightarrow> s
                | Some idx \<Rightarrow>
                    if lever_preemption_margin < lv_cost (s ! idx) - lv_cost cheapest then s
                    else swap_to_head idx s)
      | _ \<Rightarrow> s)"

section \<open>The levers on offer\<close>

definition declaring :: "sim_snapshot \<Rightarrow> arbiter_lever_kind \<Rightarrow> string list" where
  "declaring sim k = lever_asset_ids [k] sim"

definition overlay_of :: "lever_policy \<Rightarrow> arbiter_tick \<Rightarrow> string \<Rightarrow> ev_overlay" where
  "overlay_of policy tick i =
     (if lp_ev_overrides_plan policy then overlay_overriding
      else hm_or overlay_default (hm_get (at_overlay tick) i))"

definition emergency_ids :: "sim_snapshot \<Rightarrow> string list" where
  "emergency_ids sim =
     map fst (filter (\<lambda>(_, a). as_emergency_what_ifs a \<noteq> None) (assets_in_roster_order sim))"

definition lever_candidates ::
  "setpoints \<Rightarrow> lever_policy \<Rightarrow> arbiter_tick \<Rightarrow> string option \<Rightarrow> setpoint_bounds \<Rightarrow> f64 \<Rightarrow> lever list" where
  "lever_candidates sp policy tick incumbent bounds dev =
     (let sim = at_sim tick in
      filter (\<lambda>l. lv_kind l \<in> set (lp_admits policy))
       (List.map_filter (\<lambda>i. battery_lever sp sim i (at_slot tick) dev (hm_get bounds i)) (declaring sim Storage)
        @ List.map_filter (\<lambda>i. ev_lever sp sim i dev (overlay_of policy tick i)) (declaring sim SurplusCharge)
        @ List.map_filter (\<lambda>i. heater_pause_lever sp sim i dev) (declaring sim PausableLoad)
        @ List.map_filter (\<lambda>i. heater_emergency_lever sim i (at_slot tick) dev
            (incumbent = Some (key_of LHeaterEmergency (Some i))) (at_alert tick)) (emergency_ids sim)
        @ (case pv_curtailment_lever (at_slot tick) dev of None \<Rightarrow> [] | Some l \<Rightarrow> [l])))"

section \<open>The one-tick bridge of a lagging lever\<close>

record lag_bridge =
  lb_lagging_kw :: f64
  lb_bridge :: "f64 hmap"

definition ev_moved :: "lever_effect \<Rightarrow> lag_bridge \<Rightarrow> f64 \<times> lag_bridge" where
  "ev_moved e b =
     (le_now_kw e, b\<lparr>lb_lagging_kw := lb_lagging_kw b + max (le_landed_kw e - le_now_kw e) 0\<rparr>)"

text \<open>\<open>f64::signum\<close>: 1 for zero.\<close>

definition signum :: "f64 \<Rightarrow> f64" where
  "signum x = (if 0 \<le> x then 1 else - 1)"

definition battery_moved :: "string \<Rightarrow> f64 \<Rightarrow> f64 \<Rightarrow> lag_bridge \<Rightarrow> f64 \<times> lag_bridge" where
  "battery_moved i kw dev b =
     (let bridge = min kw (lb_lagging_kw b) in
      if 0 < bridge
      then (kw, \<lparr>lb_lagging_kw = lb_lagging_kw b - bridge,
                 lb_bridge = hm_put i (hm_or 0 (hm_get (lb_bridge b) i) - signum dev * bridge) (lb_bridge b)\<rparr>)
      else (kw, b))"

definition drop_last_bridge :: "f64 hmap \<Rightarrow> setpoints \<Rightarrow> setpoints" where
  "drop_last_bridge bridges sp =
     fold (\<lambda>(i, kw) sp. case hm_get sp i of None \<Rightarrow> sp | Some v \<Rightarrow> hm_put i (v - kw) sp) bridges sp"

section \<open>The lever loop\<close>

record pass_state =
  pa_setpoints :: setpoints
  pa_remaining_kw :: f64
  pa_bridge :: lag_bridge
  pa_emergency_mode :: "(bool \<times> bool) hmap"
  pa_pv_tighten_kw :: "f64 option"
  pa_active :: "string option"

definition storage_objective :: "lever_policy \<Rightarrow> arbiter_tick \<Rightarrow> planner_objective" where
  "storage_objective policy tick =
     (if lp_battery_respects_objective policy then at_objective tick else MinCost)"

text \<open>The effect of one lever, and what it achieved.\<close>

definition apply_lever ::
  "arbiter_tick \<Rightarrow> planner_objective \<Rightarrow> setpoint_bounds \<Rightarrow> f64 \<Rightarrow> lever \<Rightarrow> f64 \<Rightarrow> pass_state \<Rightarrow>
     (f64 \<times> pass_state) option" where
  "apply_lever tick objective bounds dev l assigned p =
     (let sim = at_sim tick; signed = (if 0 < dev then assigned else - assigned) in
      case (lv_kind l, lv_asset l) of
        (LBattery, Some i) \<Rightarrow>
          (case apply_battery_lever sim i signed objective (hm_get bounds i) (pa_setpoints p) of
             None \<Rightarrow> None
           | Some (kw, sp) \<Rightarrow>
               (let (achieved, b) = battery_moved i kw dev (pa_bridge p) in
                Some (achieved, p\<lparr>pa_setpoints := sp, pa_bridge := b\<rparr>)))
      | (LEv, Some i) \<Rightarrow>
          (let (e, sp) = apply_ev_lever sim i signed (pa_setpoints p);
               (achieved, b) = ev_moved e (pa_bridge p) in
           Some (achieved, p\<lparr>pa_setpoints := sp, pa_bridge := b\<rparr>))
      | (LHeaterPause, Some i) \<Rightarrow>
          (let (achieved, sp) = apply_heater_pause_lever sim i signed (pa_setpoints p) in
           Some (achieved, p\<lparr>pa_setpoints := sp\<rparr>))
      | (LHeaterEmergency, Some i) \<Rightarrow>
          Some (assigned,
            if 0 < dev
            then p\<lparr>pa_setpoints := hm_put i 0 (pa_setpoints p),
                   pa_emergency_mode := hm_put i (True, False) (pa_emergency_mode p)\<rparr>
            else p\<lparr>pa_emergency_mode := hm_put i (False, True) (pa_emergency_mode p)\<rparr>)
      | (LPvCurtail, _) \<Rightarrow> Some (assigned, p\<lparr>pa_pv_tighten_kw := Some assigned\<rparr>)
      | _ \<Rightarrow> Some (0, p))"

definition account :: "lever \<Rightarrow> f64 \<Rightarrow> pass_state \<Rightarrow> pass_state" where
  "account l achieved p =
     (if 0 < achieved
      then p\<lparr>pa_active := Some (hm_or (lever_key l) (pa_active p)), pa_remaining_kw := pa_remaining_kw p - achieved\<rparr>
      else p)"

fun run_levers ::
  "arbiter_tick \<Rightarrow> planner_objective \<Rightarrow> setpoint_bounds \<Rightarrow> f64 \<Rightarrow> lever list \<Rightarrow> pass_state \<Rightarrow> pass_state option" where
  "run_levers tick objective bounds dev [] p = Some p"
| "run_levers tick objective bounds dev (l # ls) p =
     (if pa_remaining_kw p < dead_band_kw then Some p
      else (let assigned = min (pa_remaining_kw p) (lv_capacity_kw l) in
        if assigned \<le> 0 then run_levers tick objective bounds dev ls p
        else (case apply_lever tick objective bounds dev l assigned p of
                None \<Rightarrow> None
              | Some (achieved, q) \<Rightarrow> run_levers tick objective bounds dev ls (account l achieved q))))"

record applied_levers =
  ap_emergency_mode :: "(bool \<times> bool) hmap"
  ap_pv_tighten_kw :: "f64 option"
  ap_active :: "string option"
  ap_unresolved_kw :: f64
  ap_bridge :: "f64 hmap"

definition pass_start :: "setpoints \<Rightarrow> f64 \<Rightarrow> pass_state" where
  "pass_start sp dev =
     \<lparr>pa_setpoints = sp, pa_remaining_kw = \<bar>dev\<bar>, pa_bridge = \<lparr>lb_lagging_kw = 0, lb_bridge = []\<rparr>,
      pa_emergency_mode = [], pa_pv_tighten_kw = None, pa_active = None\<rparr>"

definition apply_ranked_levers ::
  "lever_policy \<Rightarrow> arbiter_tick \<Rightarrow> string option \<Rightarrow> setpoint_bounds \<Rightarrow> f64 \<Rightarrow> setpoints \<Rightarrow>
     (applied_levers \<times> setpoints) option" where
  "apply_ranked_levers policy tick incumbent bounds dev sp =
     (case run_levers tick (storage_objective policy tick) bounds dev
        (rank_levers (lever_candidates sp policy tick incumbent bounds dev) incumbent)
        (pass_start sp dev) of
        None \<Rightarrow> None
      | Some p \<Rightarrow>
          Some (\<lparr>ap_emergency_mode = pa_emergency_mode p, ap_pv_tighten_kw = pa_pv_tighten_kw p,
                 ap_active = pa_active p, ap_unresolved_kw = max (pa_remaining_kw p) 0,
                 ap_bridge = lb_bridge (pa_bridge p)\<rparr>, pa_setpoints p))"

end
