(* ===== verification/Wire_Contract.thy ===== *)
theory Wire_Contract
  imports Event_Timing_Facts "HOL-Library.List_Lexorder" "HOL-Library.Char_ord" "HOL-Library.Product_Lexorder"
begin

text \<open>
  \<open>lab-core/src/wire_contract.rs\<close>: what a number on the wire means. A payload's value is read
  through its declaration, the event's descriptor first, then the program's, then the profile's
  default; a declaration of another unit or currency is a refusal.
\<close>

datatype quantity =
    EnergyKwh | PowerKw | Percent | PricePerKwhEur | EmissionGPerKwh | State | Dimensionless

fun quantity_units :: "quantity \<Rightarrow> string option" where
  "quantity_units EnergyKwh = Some ''KWH''"
| "quantity_units PricePerKwhEur = Some ''KWH''"
| "quantity_units PowerKw = Some ''KW''"
| "quantity_units Percent = Some ''PERCENT''"
| "quantity_units EmissionGPerKwh = Some ''GHG''"
| "quantity_units State = None"
| "quantity_units Dimensionless = None"

definition quantity_currency :: "quantity \<Rightarrow> string option" where
  "quantity_currency q = (if q = PricePerKwhEur then Some ''EUR'' else None)"

definition report_quantity_of :: "string \<Rightarrow> quantity option" where
  "report_quantity_of ty =
     (if ty \<in> {''USAGE'', ''USAGE_FORECAST'', ''BASELINE'', ''DELTA_USAGE''} then Some EnergyKwh
      else if ty = ''DEMAND'' then Some PowerKw
      else if ty \<in> {''IMPORT_RESERVATION_CAPACITY'', ''EXPORT_RESERVATION_CAPACITY''} then Some PowerKw
      else if ty \<in> {''STORAGE_MAX_CHARGE_POWER'', ''STORAGE_MAX_DISCHARGE_POWER''} then Some PowerKw
      else if ty = ''STORAGE_CHARGE_LEVEL'' then Some Percent
      else if ty \<in> {''OPERATING_STATE'', ''DATA_QUALITY''} then Some State
      else if ty = ''SIMPLE'' then Some Dimensionless
      else None)"

definition event_quantities :: "(string \<times> quantity) list" where
  "event_quantities =
     [(''SIMPLE'', Dimensionless),
      (''IMPORT_CAPACITY_LIMIT'', PowerKw),
      (''EXPORT_CAPACITY_LIMIT'', PowerKw),
      (''CHARGE_STATE_SETPOINT'', Percent),
      (''PRICE'', PricePerKwhEur),
      (''EXPORT_PRICE'', PricePerKwhEur),
      (''GHG'', EmissionGPerKwh),
      (''DISPATCH_SETPOINT'', PowerKw),
      (''IMPORT_CAPACITY_SUBSCRIPTION'', PowerKw),
      (''EXPORT_CAPACITY_SUBSCRIPTION'', PowerKw),
      (''IMPORT_CAPACITY_RESERVATION'', PowerKw),
      (''EXPORT_CAPACITY_RESERVATION'', PowerKw)]"

definition event_quantity_of :: "string \<Rightarrow> quantity option" where
  "event_quantity_of ty = map_option snd (List.find (\<lambda>(name, _). name = ty) event_quantities)"

datatype declared_by = ByEvent | ByProgram | ProfileDefault | NothingToDeclare

record reading =
  rd_value :: f64
  rd_declared_by :: declared_by

datatype refusal =
  Refusal (rf_event_id: string) (rf_payload_type: string) (rf_declared: string) (rf_expected: string)

definition refusal_key :: "refusal \<Rightarrow> string \<times> string \<times> string \<times> string" where
  "refusal_key r = (rf_event_id r, rf_payload_type r, rf_declared r, rf_expected r)"

lemma refusal_key_inj: "refusal_key a = refusal_key b \<longleftrightarrow> a = b"
  by (cases a; cases b) (auto simp: refusal_key_def)

text \<open>The derived order of \<open>Refusal\<close>: field by field.\<close>

instantiation refusal :: linorder
begin

definition less_eq_refusal :: "refusal \<Rightarrow> refusal \<Rightarrow> bool" where
  "less_eq_refusal a b \<longleftrightarrow> refusal_key a \<le> refusal_key b"

definition less_refusal :: "refusal \<Rightarrow> refusal \<Rightarrow> bool" where
  "less_refusal a b \<longleftrightarrow> refusal_key a < refusal_key b"

instance
proof
  fix a b c :: refusal
  show "(a < b) = (a \<le> b \<and> \<not> b \<le> a)"
    unfolding less_eq_refusal_def less_refusal_def by (rule less_le_not_le)
  show "a \<le> a" by (simp add: less_eq_refusal_def)
  show "a \<le> b \<Longrightarrow> b \<le> c \<Longrightarrow> a \<le> c" unfolding less_eq_refusal_def by (rule order_trans)
  show "a \<le> b \<Longrightarrow> b \<le> a \<Longrightarrow> a = b"
    unfolding less_eq_refusal_def refusal_key_inj [symmetric] by (rule antisym)
  show "a \<le> b \<or> b \<le> a" unfolding less_eq_refusal_def by (rule linear)
qed

end

record wire_audit =
  wa_assumed :: "nat hmap"
  wa_refusals :: "refusal list"

type_synonym payload_reader = "payload_descriptor list hmap"

definition with_programs :: "(string \<times> payload_descriptor list) list \<Rightarrow> payload_reader" where
  "with_programs programs = fold (\<lambda>(k, v). hm_put k v) programs []"

section \<open>What a descriptor says\<close>

datatype unit_declaration = Matches | Silent | Differs string string

definition differs :: "string option \<Rightarrow> string option \<Rightarrow> bool" where
  "differs declared expected \<longleftrightarrow> declared \<noteq> None \<and> declared \<noteq> expected"

fun join_sp :: "string list \<Rightarrow> string" where
  "join_sp [] = ''''"
| "join_sp [x] = x"
| "join_sp (x # xs) = x @ '' '' @ join_sp xs"

definition side :: "string option \<Rightarrow> string option \<Rightarrow> string" where
  "side unit currency =
     join_sp (List.map_filter id
       [map_option (\<lambda>u. ''units '' @ u) unit, map_option (\<lambda>c. ''currency '' @ c) currency])"

definition check :: "payload_descriptor \<Rightarrow> quantity \<Rightarrow> unit_declaration" where
  "check d q =
     (let units = pd_units d; currency = pd_currency d in
      if units = None \<and> currency = None then Silent
      else if differs units (quantity_units q) \<or> differs currency (quantity_currency q)
      then Differs (side units currency)
        (let s = side (quantity_units q) (quantity_currency q) in if s = [] then ''no unit'' else s)
      else Matches)"

definition find_descriptor :: "payload_descriptor list option \<Rightarrow> payload \<Rightarrow> payload_descriptor option" where
  "find_descriptor ds p =
     (case ds of None \<Rightarrow> None
      | Some ds \<Rightarrow> List.find (\<lambda>d. pd_payload_type d = value_type p) ds)"

section \<open>Reading a payload\<close>

fun first_declaration ::
  "string \<Rightarrow> string \<Rightarrow> quantity \<Rightarrow> f64 \<Rightarrow> (payload_descriptor option \<times> declared_by) list \<Rightarrow> (refusal + reading) option" where
  "first_declaration eid ty q v [] = None"
| "first_declaration eid ty q v ((None, by) # rest) = first_declaration eid ty q v rest"
| "first_declaration eid ty q v ((Some d, by) # rest) =
     (case check d q of
        Matches \<Rightarrow> Some (Inr \<lparr>rd_value = v, rd_declared_by = by\<rparr>)
      | Silent \<Rightarrow> first_declaration eid ty q v rest
      | Differs declared expected \<Rightarrow> Some (Inl (Refusal eid ty declared expected)))"

definition first_number :: "payload \<Rightarrow> f64 option" where
  "first_number p = (case pl_values p of [] \<Rightarrow> None | v # _ \<Rightarrow> numeric_value v)"

definition read_payload :: "payload_reader \<Rightarrow> oadr_event \<Rightarrow> payload \<Rightarrow> (refusal + reading) option" where
  "read_payload reader ev p =
     (case first_number p of
        None \<Rightarrow> None
      | Some v \<Rightarrow>
          (case event_quantity_of (value_type p) of
             None \<Rightarrow> Some (Inr \<lparr>rd_value = v, rd_declared_by = NothingToDeclare\<rparr>)
           | Some q \<Rightarrow>
               (let event_desc = find_descriptor (ev_payload_descriptors ev) p;
                    program_desc = (case hm_get reader (ev_program_id ev) of
                        None \<Rightarrow> None | Some ds \<Rightarrow> find_descriptor (Some ds) p)
                in case first_declaration (ev_id ev) (value_type p) q v
                     [(event_desc, ByEvent), (program_desc, ByProgram)] of
                     Some r \<Rightarrow> Some r
                   | None \<Rightarrow>
                       if quantity_units q = None
                       then Some (Inr \<lparr>rd_value = v, rd_declared_by = NothingToDeclare\<rparr>)
                       else Some (Inr \<lparr>rd_value = v, rd_declared_by = ProfileDefault\<rparr>))))"

definition payload_value :: "payload_reader \<Rightarrow> oadr_event \<Rightarrow> payload \<Rightarrow> f64 option" where
  "payload_value reader ev p =
     (case read_payload reader ev p of Some (Inr r) \<Rightarrow> Some (rd_value r) | _ \<Rightarrow> None)"

definition audit_step :: "payload_reader \<Rightarrow> oadr_event \<Rightarrow> payload \<Rightarrow> wire_audit \<Rightarrow> wire_audit" where
  "audit_step reader ev p a =
     (case read_payload reader ev p of
        Some (Inr r) \<Rightarrow>
          if rd_declared_by r = ProfileDefault
          then a\<lparr>wa_assumed := hm_put (value_type p) (hm_or 0 (hm_get (wa_assumed a) (value_type p)) + 1) (wa_assumed a)\<rparr>
          else a
      | Some (Inl refusal) \<Rightarrow> a\<lparr>wa_refusals := wa_refusals a @ [refusal]\<rparr>
      | None \<Rightarrow> a)"

definition event_payloads :: "oadr_event \<Rightarrow> payload list" where
  "event_payloads ev = concat (map iv_payloads (event_intervals ev))"

definition audit :: "payload_reader \<Rightarrow> oadr_event list \<Rightarrow> wire_audit" where
  "audit reader events =
     (let a = fold (\<lambda>ev. fold (audit_step reader ev) (event_payloads ev)) events
                \<lparr>wa_assumed = [], wa_refusals = []\<rparr>
      in a\<lparr>wa_refusals := remdups_adj (sort (wa_refusals a))\<rparr>)"

section \<open>Lemmas\<close>

lemma check_Silent_iff: "check d q = Silent \<longleftrightarrow> pd_units d = None \<and> pd_currency d = None"
  by (simp add: check_def Let_def)

lemma check_Matches_D:
  "check d q = Matches \<Longrightarrow>
   (pd_units d \<noteq> None \<or> pd_currency d \<noteq> None) \<and>
   pd_units d \<in> {None, quantity_units q} \<and> pd_currency d \<in> {None, quantity_currency q}"
  by (auto simp: check_def Let_def differs_def split: if_splits)

definition declares_nothing :: "payload_descriptor option \<Rightarrow> bool" where
  "declares_nothing d \<longleftrightarrow> (case d of None \<Rightarrow> True | Some d \<Rightarrow> pd_units d = None \<and> pd_currency d = None)"

definition declares :: "quantity \<Rightarrow> payload_descriptor option \<Rightarrow> bool" where
  "declares q d \<longleftrightarrow>
     (case d of None \<Rightarrow> False
      | Some d \<Rightarrow> (pd_units d \<noteq> None \<or> pd_currency d \<noteq> None) \<and>
          pd_units d \<in> {None, quantity_units q} \<and> pd_currency d \<in> {None, quantity_currency q})"

lemma declares_simps [simp]: "\<not> declares q None" "declares_nothing None"
  by (simp_all add: declares_def declares_nothing_def)

lemma declares_check:
  "declares q (Some d) \<longleftrightarrow> check d q = Matches"
  "declares_nothing (Some d) \<longleftrightarrow> check d q = Silent"
  by (auto simp: declares_def declares_nothing_def check_def Let_def differs_def)

text \<open>The two descriptors the code consults for a payload, in order.\<close>

definition descriptor_event :: "oadr_event \<Rightarrow> payload \<Rightarrow> payload_descriptor option" where
  "descriptor_event ev p = find_descriptor (ev_payload_descriptors ev) p"

definition descriptor_program :: "payload_reader \<Rightarrow> oadr_event \<Rightarrow> payload \<Rightarrow> payload_descriptor option" where
  "descriptor_program reader ev p =
     (case hm_get reader (ev_program_id ev) of None \<Rightarrow> None | Some ds \<Rightarrow> find_descriptor (Some ds) p)"

lemma read_cases:
  assumes "first_number p = Some v" and "event_quantity_of (value_type p) = Some q"
  shows "read_payload reader ev p =
    (let e = descriptor_event ev p; g = descriptor_program reader ev p;
         rd = (\<lambda>b. Some (Inr \<lparr>rd_value = v, rd_declared_by = b\<rparr>)) in
     if declares q e then rd ByEvent
     else if \<not> declares_nothing e then
       (case check (the e) q of Differs a b \<Rightarrow> Some (Inl (Refusal (ev_id ev) (value_type p) a b)) | _ \<Rightarrow> None)
     else if declares q g then rd ByProgram
     else if \<not> declares_nothing g then
       (case check (the g) q of Differs a b \<Rightarrow> Some (Inl (Refusal (ev_id ev) (value_type p) a b)) | _ \<Rightarrow> None)
     else if quantity_units q = None then rd NothingToDeclare else rd ProfileDefault)"
  unfolding read_payload_def assms option.case Let_def
    descriptor_event_def [symmetric] descriptor_program_def [symmetric]
proof (cases "descriptor_event ev p", goal_cases)
  case 1
  then show ?case
    by (cases "descriptor_program reader ev p")
      (auto simp: declares_check [where q = q] split: unit_declaration.split)
next
  case (2 e)
  then show ?case
    by (cases "descriptor_program reader ev p"; cases "check e q")
      (auto simp: declares_check [where q = q] split: unit_declaration.split)
qed

lemma audit_step_frame:
  "wa_refusals (audit_step reader ev p a) =
     wa_refusals a @ (case read_payload reader ev p of Some (Inl rf) \<Rightarrow> [rf] | _ \<Rightarrow> [])"
  by (auto simp: audit_step_def split: option.split sum.split)

definition defaulted :: "payload_reader \<Rightarrow> oadr_event \<Rightarrow> payload \<Rightarrow> bool" where
  "defaulted reader ev p \<longleftrightarrow>
     (case read_payload reader ev p of Some (Inr r) \<Rightarrow> rd_declared_by r = ProfileDefault | _ \<Rightarrow> False)"

definition default_count :: "payload_reader \<Rightarrow> oadr_event \<Rightarrow> string \<Rightarrow> payload list \<Rightarrow> nat" where
  "default_count reader ev ty ps = length (filter (\<lambda>p. value_type p = ty \<and> defaulted reader ev p) ps)"

lemma audit_step_assumed:
  "hm_or 0 (hm_get (wa_assumed (audit_step reader ev p a)) ty) =
     hm_or 0 (hm_get (wa_assumed a) ty) + (if value_type p = ty \<and> defaulted reader ev p then 1 else 0)"
  by (auto simp: audit_step_def defaulted_def hm_simps split: option.split sum.split)

lemma audit_event:
  "wa_refusals (fold (audit_step reader ev) ps a) =
     wa_refusals a @ concat (map (\<lambda>p. case read_payload reader ev p of Some (Inl rf) \<Rightarrow> [rf] | _ \<Rightarrow> []) ps)"
  "hm_or 0 (hm_get (wa_assumed (fold (audit_step reader ev) ps a)) ty) =
     hm_or 0 (hm_get (wa_assumed a) ty) + default_count reader ev ty ps"
  by (induction ps arbitrary: a) (simp_all add: audit_step_frame audit_step_assumed default_count_def)

lemma audit_events:
  "wa_refusals (fold (\<lambda>ev. fold (audit_step reader ev) (event_payloads ev)) evs a) =
     wa_refusals a @ concat (map (\<lambda>ev. concat (map (\<lambda>p. case read_payload reader ev p of
        Some (Inl rf) \<Rightarrow> [rf] | _ \<Rightarrow> []) (event_payloads ev))) evs)"
  "hm_or 0 (hm_get (wa_assumed (fold (\<lambda>ev. fold (audit_step reader ev) (event_payloads ev)) evs a)) ty) =
     hm_or 0 (hm_get (wa_assumed a) ty) + sum_list (map (\<lambda>ev. default_count reader ev ty (event_payloads ev)) evs)"
  by (induction evs arbitrary: a) (simp_all add: audit_event)

section \<open>Properties\<close>

text \<open>
  No value is read under a declaration that contradicts the profile. A reading names who
  declared its unit: the event's descriptor, which then says what the profile reads; the program's,
  where the event's declares nothing; the profile's default, where neither declares anything. A
  refusal names a descriptor the code consulted that declares another unit or currency.
\<close>

theorem read_payload_declared:
  assumes "read_payload reader ev p = Some res" and "event_quantity_of (value_type p) = Some q"
  shows "case res of
      Inr r \<Rightarrow> first_number p = Some (rd_value r) \<and>
        (case rd_declared_by r of
           ByEvent \<Rightarrow> declares q (descriptor_event ev p)
         | ByProgram \<Rightarrow> declares_nothing (descriptor_event ev p) \<and> declares q (descriptor_program reader ev p)
         | ProfileDefault \<Rightarrow> declares_nothing (descriptor_event ev p) \<and>
             declares_nothing (descriptor_program reader ev p) \<and> quantity_units q \<noteq> None
         | NothingToDeclare \<Rightarrow> declares_nothing (descriptor_event ev p) \<and>
             declares_nothing (descriptor_program reader ev p) \<and> quantity_units q = None)
    | Inl rf \<Rightarrow> rf_event_id rf = ev_id ev \<and> rf_payload_type rf = value_type p \<and>
        (let d = (if declares_nothing (descriptor_event ev p) then descriptor_program reader ev p
                  else descriptor_event ev p)
         in \<not> declares_nothing d \<and> \<not> declares q d)"
proof -
  obtain v where v: "first_number p = Some v"
    using assms(1) by (cases "first_number p") (auto simp: read_payload_def)
  show ?thesis
    using assms(1) unfolding read_cases [OF v assms(2)] Let_def v
    by (auto split: if_splits unit_declaration.splits)
qed

lemma read_payload_declared_witness:
  "rf_event_id (Refusal ''e1'' ''PRICE'' ''currency USD'' ''units KWH currency EUR'') = ''e1'' \<and>
   rf_payload_type (Refusal ''e1'' ''PRICE'' ''currency USD'' ''units KWH currency EUR'') = ''PRICE''"
proof -
  let ?ev = "\<lparr>ev_id = ''e1'', ev_created = 0, ev_modified = 0, ev_name = None,
     ev_program_id = ''p1'', ev_priority = None, ev_duration = None, ev_period = None,
     ev_intervals = None, ev_payload_descriptors = Some [\<lparr>pd_payload_type = ''PRICE'', pd_units = None,
       pd_currency = Some ''USD''\<rparr>], ev_report_descriptors = None\<rparr>"
  let ?p = "\<lparr>value_type = ''PRICE'', pl_values = [VInteger 1]\<rparr>"
  have "read_payload [] ?ev ?p = Some (Inl (Refusal ''e1'' ''PRICE'' ''currency USD'' ''units KWH currency EUR''))"
    by (simp add: read_payload_def first_number_def numeric_value_def event_quantity_of_def event_quantities_def
        find_descriptor_def check_def Let_def differs_def quantity_currency_def side_def)
  moreover have "event_quantity_of (value_type ?p) = Some PricePerKwhEur"
    by (simp add: event_quantity_of_def event_quantities_def)
  ultimately show ?thesis using read_payload_declared by fastforce
qed

text \<open>
  The audit of a poll is exact: its refusals are the refusals the reader gives for the events'
  payloads, each once and in order, and it counts for each payload type the payloads whose unit is the
  profile's default.
\<close>

theorem audit_exact:
  "set (wa_refusals (audit reader evs)) =
     {rf. \<exists>ev \<in> set evs. \<exists>p \<in> set (event_payloads ev). read_payload reader ev p = Some (Inl rf)} \<and>
   sorted_wrt (<) (wa_refusals (audit reader evs)) \<and>
   hm_or 0 (hm_get (wa_assumed (audit reader evs)) ty) =
     sum_list (map (\<lambda>ev. length (filter (\<lambda>p. value_type p = ty \<and> defaulted reader ev p) (event_payloads ev))) evs)"
proof (intro conjI)
  let ?raw = "concat (map (\<lambda>ev. concat (map (\<lambda>p. case read_payload reader ev p of
        Some (Inl rf) \<Rightarrow> [rf] | _ \<Rightarrow> []) (event_payloads ev))) evs)"
  have refusals: "wa_refusals (audit reader evs) = remdups_adj (sort ?raw)"
    by (simp add: audit_def Let_def audit_events)
  show "set (wa_refusals (audit reader evs)) =
     {rf. \<exists>ev \<in> set evs. \<exists>p \<in> set (event_payloads ev). read_payload reader ev p = Some (Inl rf)}"
    unfolding refusals by (force split: option.splits sum.splits)
  show "sorted_wrt (<) (wa_refusals (audit reader evs))"
    unfolding refusals by (rule strictly_sorted_remdups_adj) simp
  show "hm_or 0 (hm_get (wa_assumed (audit reader evs)) ty) =
     sum_list (map (\<lambda>ev. length (filter (\<lambda>p. value_type p = ty \<and> defaulted reader ev p) (event_payloads ev))) evs)"
    by (simp add: audit_def Let_def audit_events default_count_def)
qed

end
