(* ===== verification/Event_Priority.thy ===== *)
theory Event_Priority
  imports Wire_Contract
begin

text \<open>
  \<open>lab-core/src/event_priority.rs\<close>: which event wins where events overlap. Events are ranked by
  priority and creation time; each interval with a readable value is a candidate; the candidates'
  bounds cut time into segments, and in each segment the highest rank wins each payload type.
\<close>

record winner =
  wn_value :: f64
  wn_declared_by :: declared_by
  wn_event_id :: string
  wn_event_name :: "string option"

record segment =
  seg_start :: instant
  seg_end :: instant
  seg_winners :: "winner hmap"

record refused_interval =
  rfi_start :: instant
  rfi_end :: instant
  rfi_event_name :: "string option"
  rfi_refusal :: refusal

record resolved =
  rs_segments :: "segment list"
  rs_refused :: "refused_interval list"

record candidate =
  c_start :: instant
  c_end :: instant
  c_rank :: nat
  c_event :: oadr_event
  c_payloads :: "(string \<times> f64 \<times> declared_by) list"

section \<open>Segments\<close>

definition winner_of :: "candidate \<Rightarrow> f64 \<Rightarrow> declared_by \<Rightarrow> winner" where
  "winner_of c v d = \<lparr>wn_value = v, wn_declared_by = d, wn_event_id = ev_id (c_event c),
     wn_event_name = ev_name (c_event c)\<rparr>"

definition put_winner :: "candidate \<Rightarrow> string \<times> f64 \<times> declared_by \<Rightarrow> (nat \<times> winner) hmap \<Rightarrow> (nat \<times> winner) hmap" where
  "put_winner c = (\<lambda>(ty, v, d) ws.
     let beaten = (case hm_get ws ty of None \<Rightarrow> False | Some (rank, _) \<Rightarrow> c_rank c < rank) in
     if beaten then ws else hm_put ty (c_rank c, winner_of c v d) ws)"

definition winners_in :: "candidate list \<Rightarrow> instant \<Rightarrow> instant \<Rightarrow> (nat \<times> winner) hmap" where
  "winners_in cs s e =
     fold (\<lambda>c. fold (put_winner c) (c_payloads c))
       (filter (\<lambda>c. c_start c \<le> s \<and> e \<le> c_end c) cs) []"

definition bounds_of :: "candidate list \<Rightarrow> instant list" where
  "bounds_of cs = remdups_adj (sort (concat (map (\<lambda>c. [c_start c, c_end c]) cs)))"

definition segment_of :: "candidate list \<Rightarrow> instant \<times> instant \<Rightarrow> segment option" where
  "segment_of cs = (\<lambda>(s, e).
     let ws = winners_in cs s e in
     if ws = [] then None
     else Some \<lparr>seg_start = s, seg_end = e, seg_winners = map (\<lambda>(t, _, w). (t, w)) ws\<rparr>)"

definition resolve_segments :: "candidate list \<Rightarrow> segment list" where
  "resolve_segments cs = List.map_filter (segment_of cs) (windows2 (bounds_of cs))"

section \<open>Candidates\<close>

text \<open>
  The payloads of one interval: those with a value, and those refused. \<open>None\<close> for the wanted
  types is every type.
\<close>

fun read_payloads ::
  "payload_reader \<Rightarrow> string list option \<Rightarrow> oadr_event \<Rightarrow> timed \<Rightarrow> payload list \<Rightarrow>
   (string \<times> f64 \<times> declared_by) list \<times> refused_interval list" where
  "read_payloads reader types ev it [] = ([], [])"
| "read_payloads reader types ev it (p # ps) =
     (let (ok, refused) = read_payloads reader types ev it ps in
      if (case types of None \<Rightarrow> False | Some wanted \<Rightarrow> value_type p \<notin> set wanted) then (ok, refused)
      else (case read_payload reader ev p of
          Some (Inr r) \<Rightarrow> ((value_type p, rd_value r, rd_declared_by r) # ok, refused)
        | Some (Inl rf) \<Rightarrow>
            (ok, \<lparr>rfi_start = t_start it, rfi_end = t_end it, rfi_event_name = ev_name ev, rfi_refusal = rf\<rparr> # refused)
        | None \<Rightarrow> (ok, refused)))"

definition interval_candidate ::
  "payload_reader \<Rightarrow> string list option \<Rightarrow> nat \<Rightarrow> oadr_event \<Rightarrow> timed \<Rightarrow> candidate list \<times> refused_interval list" where
  "interval_candidate reader types rank ev it =
     (if t_end it \<le> t_start it then ([], [])
      else (let (ok, refused) = read_payloads reader types ev it (iv_payloads (t_interval it)) in
        (if ok = [] then []
         else [\<lparr>c_start = t_start it, c_end = t_end it, c_rank = rank, c_event = ev, c_payloads = ok\<rparr>],
         refused)))"

definition event_candidates ::
  "wire_env \<Rightarrow> payload_reader \<Rightarrow> string list option \<Rightarrow> nat \<times> oadr_event \<Rightarrow> (candidate list \<times> refused_interval list) option" where
  "event_candidates env reader types = (\<lambda>(rank, ev).
     map_option (\<lambda>its. let rs = map (interval_candidate reader types rank ev) its in
         (concat (map fst rs), concat (map snd rs)))
       (timed_intervals env ev))"

definition rank_key :: "wire_env \<Rightarrow> oadr_event \<Rightarrow> int \<times> instant" where
  "rank_key env ev = (priority_key env (ev_priority ev), ev_created ev)"

definition resolve :: "wire_env \<Rightarrow> oadr_event list \<Rightarrow> payload_reader \<Rightarrow> string list option \<Rightarrow> resolved option" where
  "resolve env events reader types =
     (let ordered = sort_key (rank_key env) events in
      map_option (\<lambda>rs. \<lparr>rs_segments = resolve_segments (concat (map fst rs)),
                        rs_refused = concat (map snd rs)\<rparr>)
        (those (map (event_candidates env reader types) (enumerate 0 ordered))))"

section \<open>The winners of one segment\<close>

lemma put_winner_get:
  "hm_get (put_winner c (ty, v, d) ws) ty' =
     (if ty' = ty \<and> \<not> (\<exists>r w. hm_get ws ty = Some (r, w) \<and> c_rank c < r)
      then Some (c_rank c, winner_of c v d) else hm_get ws ty')"
  by (auto simp: put_winner_def Let_def hm_simps split: option.split)

text \<open>
  What the two loops keep, read as one pass over the pairs of a candidate and one of its payloads:
  the entry of a type is the value of a pair of that type, of the highest rank seen.
\<close>

definition carried_payloads :: "candidate list \<Rightarrow> (candidate \<times> string \<times> f64 \<times> declared_by) list" where
  "carried_payloads cs = concat (map (\<lambda>c. map (Pair c) (c_payloads c)) cs)"

definition best :: "(candidate \<times> string \<times> f64 \<times> declared_by) list \<Rightarrow> string \<Rightarrow> (nat \<times> winner) option \<Rightarrow> bool" where
  "best ps ty e \<longleftrightarrow>
     (case e of
        None \<Rightarrow> \<forall>c v d. (c, ty, v, d) \<notin> set ps
      | Some (r, w) \<Rightarrow>
          (\<exists>c v d. (c, ty, v, d) \<in> set ps \<and> c_rank c = r \<and> w = winner_of c v d) \<and>
          (\<forall>c v d. (c, ty, v, d) \<in> set ps \<longrightarrow> c_rank c \<le> r))"

lemma fold_carried:
  "fold (\<lambda>c. fold (put_winner c) (c_payloads c)) cs ws = fold (\<lambda>(c, x). put_winner c x) (carried_payloads cs) ws"
proof (induction cs arbitrary: ws)
  case (Cons c cs)
  have "fold (\<lambda>(c, x). put_winner c x) (map (Pair c) ps) ws = fold (put_winner c) ps ws" for ps ws
    by (induction ps arbitrary: ws) auto
  then show ?case by (simp add: Cons.IH carried_payloads_def)
qed (simp add: carried_payloads_def)

lemma best_fold: "best ps ty (hm_get (fold (\<lambda>(c, x). put_winner c x) ps []) ty)"
proof (induction ps rule: rev_induct)
  case Nil
  then show ?case by (simp add: best_def)
next
  case (snoc p ps)
  obtain c ty' v d where p: "p = (c, ty', v, d)" by (cases p) auto
  let ?ws = "fold (\<lambda>(c, x). put_winner c x) ps []"
  show ?case
  proof (cases "ty = ty' \<and> \<not> (\<exists>r w. hm_get ?ws ty = Some (r, w) \<and> c_rank c < r)")
    case True
    then have "\<forall>c' v d. (c', ty, v, d) \<in> set ps \<longrightarrow> c_rank c' \<le> c_rank c"
      using snoc by (auto simp: best_def split: option.splits prod.splits) (meson le_trans linorder_not_less)
    with True show ?thesis by (auto simp: p put_winner_get best_def)
  next
    case False
    then show ?thesis
      using snoc by (auto simp: p put_winner_get best_def split: option.splits prod.splits)
  qed
qed

lemma winners_best:
  "best (carried_payloads (filter (\<lambda>c. c_start c \<le> s \<and> e \<le> c_end c) cs)) ty (hm_get (winners_in cs s e) ty)"
  unfolding winners_in_def fold_carried by (rule best_fold)

lemma carried_payloads_mem: "(c, x) \<in> set (carried_payloads cs) \<longleftrightarrow> c \<in> set cs \<and> x \<in> set (c_payloads c)"
  by (auto simp: carried_payloads_def)

section \<open>The segments\<close>

lemma segment_of_D:
  "segment_of cs p = Some seg \<Longrightarrow> seg_start seg = fst p \<and> seg_end seg = snd p \<and>
     seg_winners seg = map (\<lambda>(t, _, w). (t, w)) (winners_in cs (fst p) (snd p))"
  by (auto simp: segment_of_def Let_def split: prod.splits if_splits)

lemma segments_mem:
  "seg \<in> set (resolve_segments cs) \<longleftrightarrow> (\<exists>p \<in> set (windows2 (bounds_of cs)). segment_of cs p = Some seg)"
  by (auto simp: resolve_segments_def map_filter_mem)

lemma bounds_sorted: "sorted_wrt (<) (bounds_of cs)"
  unfolding bounds_of_def by (rule strictly_sorted_remdups_adj) simp

lemma bounds_set: "set (bounds_of cs) = c_start ` set cs \<union> c_end ` set cs"
  by (auto simp: bounds_of_def)

lemma segments_ordered: "sorted_wrt (\<lambda>a b. seg_end a \<le> seg_start b) (resolve_segments cs)"
proof -
  have "sorted_wrt (\<lambda>a b. seg_end a \<le> seg_start b) (List.map_filter (segment_of cs) ps)"
    if "sorted_wrt (\<lambda>p q. snd p \<le> fst q) ps" for ps
    using that
  proof (induction ps)
    case (Cons p ps)
    show ?case
    proof (cases "segment_of cs p")
      case None
      with Cons show ?thesis by (simp add: map_filter_Cons)
    next
      case (Some seg)
      have "seg_end seg \<le> seg_start y" if "y \<in> set (List.map_filter (segment_of cs) ps)" for y
      proof -
        from that obtain q where "q \<in> set ps" "segment_of cs q = Some y"
          by (auto simp: map_filter_mem)
        then show ?thesis using Cons.prems segment_of_D [OF Some] segment_of_D [of cs q y] by auto
      qed
      with Some Cons show ?thesis by (simp add: map_filter_Cons)
    qed
  qed (simp add: List.map_filter_def)
  then show ?thesis
    unfolding resolve_segments_def by (simp add: windows2_sorted bounds_sorted)
qed

interpretation seg: window_list seg_start seg_end "resolve_segments cs" for cs
proof
  show "seg_start w < seg_end w" if "w \<in> set (resolve_segments cs)" for w
  proof -
    from that obtain p where p: "p \<in> set (windows2 (bounds_of cs))" and w: "segment_of cs p = Some w"
      by (auto simp: segments_mem)
    from windows2_gap [OF bounds_sorted, of "fst p" "snd p" cs] p
    have "fst p < snd p" by simp
    with segment_of_D [OF w] show ?thesis by simp
  qed
  show "sorted_wrt (\<lambda>a b. seg_end a \<le> seg_start b) (resolve_segments cs)" by (rule segments_ordered)
qed

text \<open>
  Inside a cell of the bounds a candidate covers all of it or none, so what covers one instant of
  the cell is what the code counts for the cell.
\<close>

lemma cell_cover:
  assumes "(a, b) \<in> set (windows2 (bounds_of cs))" and "c \<in> set cs" and "a \<le> t" and "t < b"
  shows "c_start c \<le> a \<and> b \<le> c_end c \<longleftrightarrow> tw_covers (c_start c) (c_end c) t"
proof -
  have "c_start c \<in> set (bounds_of cs)" "c_end c \<in> set (bounds_of cs)"
    using assms(2) by (auto simp: bounds_set)
  then have "c_start c \<le> a \<or> b \<le> c_start c" "c_end c \<le> a \<or> b \<le> c_end c"
    using windows2_gap [OF bounds_sorted assms(1)] by blast+
  with assms(3,4) show ?thesis by (auto simp: tw_covers_def)
qed

definition winner_at :: "segment list \<Rightarrow> instant \<Rightarrow> string \<Rightarrow> winner option" where
  "winner_at segs t ty =
     (case covering seg_start seg_end segs t of None \<Rightarrow> None | Some seg \<Rightarrow> hm_get (seg_winners seg) ty)"

lemma hm_get_map_snd: "hm_get (map (\<lambda>p. (fst p, snd (snd p))) ws) ty = map_option snd (hm_get ws ty)"
  by (induction ws) auto

lemma bounds_cell:
  assumes "c \<in> set cs" and "tw_covers (c_start c) (c_end c) t"
  shows "\<exists>a b. (a, b) \<in> set (windows2 (bounds_of cs)) \<and> a \<le> t \<and> t < b"
proof (rule windows2_cell [OF bounds_sorted])
  have mem: "c_start c \<in> set (bounds_of cs)" "c_end c \<in> set (bounds_of cs)"
    using assms(1) by (auto simp: bounds_set)
  then show ne: "bounds_of cs \<noteq> []" by auto
  have "sorted (bounds_of cs)" using bounds_sorted strict_sorted_iff by blast
  then have "hd (bounds_of cs) \<le> x \<and> x \<le> last (bounds_of cs)" if "x \<in> set (bounds_of cs)" for x
    using sorted_hd_last that by blast
  with mem assms(2) show "hd (bounds_of cs) \<le> t" "t < last (bounds_of cs)"
    unfolding tw_covers_def by fastforce+
qed

text \<open>The winner at an instant is the best of the candidates covering it.\<close>

lemma winner_at_best:
  "\<exists>e. best (carried_payloads (filter (\<lambda>c. tw_covers (c_start c) (c_end c) t) cs)) ty e \<and>
     winner_at (resolve_segments cs) t ty = map_option snd e"
proof (cases "\<exists>a b. (a, b) \<in> set (windows2 (bounds_of cs)) \<and> a \<le> t \<and> t < b")
  case False
  then have none: "filter (\<lambda>c. tw_covers (c_start c) (c_end c) t) cs = []"
    using bounds_cell by (fastforce simp: filter_empty_conv)
  have "covering seg_start seg_end (resolve_segments cs) t = None"
    using False segment_of_D
    by (fastforce simp: covering_None_iff any_covering_def list_ex_iff segments_mem tw_covers_def)
  then show ?thesis
    by (intro exI [of _ None]) (simp add: winner_at_def none best_def carried_payloads_def)
next
  case True
  then obtain a b where ab: "(a, b) \<in> set (windows2 (bounds_of cs))" "a \<le> t" "t < b" by blast
  have cov: "filter (\<lambda>c. tw_covers (c_start c) (c_end c) t) cs = filter (\<lambda>c. c_start c \<le> a \<and> b \<le> c_end c) cs"
    using cell_cover [OF ab(1) _ ab(2,3)] by (intro filter_cong) auto
  have best: "best (carried_payloads (filter (\<lambda>c. tw_covers (c_start c) (c_end c) t) cs)) ty (hm_get (winners_in cs a b) ty)"
    unfolding cov by (rule winners_best)
  show ?thesis
  proof (cases "segment_of cs (a, b)")
    case None
    then have "winners_in cs a b = []" by (simp add: segment_of_def Let_def split: if_splits)
    moreover have "covering seg_start seg_end (resolve_segments cs) t = None"
    proof (rule ccontr)
      assume "covering seg_start seg_end (resolve_segments cs) t \<noteq> None"
      then obtain seg where "covering seg_start seg_end (resolve_segments cs) t = Some seg" by auto
      from covering_Some_D [OF this]
      have seg: "seg \<in> set (resolve_segments cs)" "tw_covers (seg_start seg) (seg_end seg) t" by auto
      then obtain p where p: "p \<in> set (windows2 (bounds_of cs))" "segment_of cs p = Some seg"
        by (auto simp: segments_mem)
      with seg segment_of_D [OF p(2)] have t: "fst p \<le> t" "t < snd p" by (auto simp: tw_covers_def)
      have "fst p = a \<and> snd p = b"
        using windows2_cell_unique [OF bounds_sorted ab(1) _ ab(2,3), of "fst p" "snd p"] p(1) t by simp
      with p(2) None show False by (metis option.distinct(1) prod.collapse)
    qed
    ultimately show ?thesis using best by (intro exI [of _ None]) (simp add: winner_at_def)
  next
    case (Some seg)
    then have "seg \<in> set (resolve_segments cs)" using ab(1) by (auto simp: segments_mem)
    then have "covering seg_start seg_end (resolve_segments cs) t = Some seg"
      by (rule seg.covering_unique) (use segment_of_D [OF Some] ab in \<open>simp add: tw_covers_def\<close>)
    with best segment_of_D [OF Some] show ?thesis
      by (intro exI [of _ "hm_get (winners_in cs a b) ty"])
        (simp add: winner_at_def hm_get_map_snd case_prod_unfold)
  qed
qed

section \<open>The candidates of a poll\<close>

text \<open>
  Event \<open>ev\<close> offers value \<open>v\<close> for type \<open>ty\<close> at instant \<open>t\<close>: one of its intervals runs at \<open>t\<close> and
  carries a wanted payload of the type that reads as \<open>v\<close>.
\<close>

definition offers ::
  "wire_env \<Rightarrow> payload_reader \<Rightarrow> string list option \<Rightarrow> oadr_event \<Rightarrow> instant \<Rightarrow> string \<Rightarrow> f64 \<Rightarrow> declared_by \<Rightarrow> bool" where
  "offers env reader types ev t ty v d \<longleftrightarrow>
     (\<exists>its it p rd. timed_intervals env ev = Some its \<and> it \<in> set its \<and> tw_covers (t_start it) (t_end it) t \<and>
        p \<in> set (iv_payloads (t_interval it)) \<and> value_type p = ty \<and>
        (case types of None \<Rightarrow> True | Some wanted \<Rightarrow> ty \<in> set wanted) \<and>
        read_payload reader ev p = Some (Inr rd) \<and> rd_value rd = v \<and> rd_declared_by rd = d)"

lemma read_payloads_ok:
  "(ty, v, d) \<in> set (fst (read_payloads reader types ev it ps)) \<longleftrightarrow>
     (\<exists>p rd. p \<in> set ps \<and> value_type p = ty \<and> (case types of None \<Rightarrow> True | Some wanted \<Rightarrow> ty \<in> set wanted) \<and>
        read_payload reader ev p = Some (Inr rd) \<and> rd_value rd = v \<and> rd_declared_by rd = d)"
proof (induction ps)
  case (Cons p ps)
  then show ?case
    by (auto simp: Let_def case_prod_unfold split: option.splits sum.splits if_splits)
qed simp

lemma those_Some_iff: "those xs = Some ys \<longleftrightarrow> xs = map Some ys"
  by (induction xs arbitrary: ys) (auto split: option.splits simp: Cons_eq_map_conv)

lemma interval_candidate_mem:
  "c \<in> set (fst (interval_candidate reader types rank ev it)) \<longleftrightarrow>
     t_start it < t_end it \<and> c_payloads c \<noteq> [] \<and>
     c = \<lparr>c_start = t_start it, c_end = t_end it, c_rank = rank, c_event = ev,
          c_payloads = fst (read_payloads reader types ev it (iv_payloads (t_interval it)))\<rparr>"
  by (auto simp: interval_candidate_def Let_def case_prod_unfold)

lemma event_candidates_mem:
  "(\<exists>r i ev. Q i ev \<and> event_candidates env reader types (i, ev) = Some r \<and> c \<in> set (fst r)) \<longleftrightarrow>
     (\<exists>i ev its it. Q i ev \<and> timed_intervals env ev = Some its \<and> it \<in> set its \<and>
        c \<in> set (fst (interval_candidate reader types i ev it)))"
proof -
  have "(\<exists>r. event_candidates env reader types (i, ev) = Some r \<and> c \<in> set (fst r)) \<longleftrightarrow>
     (\<exists>its it. timed_intervals env ev = Some its \<and> it \<in> set its \<and>
        c \<in> set (fst (interval_candidate reader types i ev it)))" for i ev
    by (cases "timed_intervals env ev") (auto simp: event_candidates_def Let_def)
  then show ?thesis by blast
qed

text \<open>The candidates carrying a type at an instant are the offers of the ranked events.\<close>

lemma candidates_offer:
  assumes "those (map (event_candidates env reader types) (enumerate 0 ordered)) = Some rs"
  shows "(\<exists>c \<in> set (concat (map fst rs)). tw_covers (c_start c) (c_end c) t \<and> (ty, v, d) \<in> set (c_payloads c) \<and>
      c_rank c = i \<and> c_event c = ev) \<longleftrightarrow>
    i < length ordered \<and> ev = ordered ! i \<and> offers env reader types ev t ty v d"
proof -
  have rs: "map Some rs = map (event_candidates env reader types) (enumerate 0 ordered)"
    using assms by (simp add: those_Some_iff)
  have "c \<in> set (concat (map fst rs)) \<longleftrightarrow>
    (\<exists>i ev its it. (i, ev) \<in> set (enumerate 0 ordered) \<and> timed_intervals env ev = Some its \<and> it \<in> set its \<and>
      c \<in> set (fst (interval_candidate reader types i ev it)))" for c
  proof -
    have "r \<in> set rs \<longleftrightarrow> Some r \<in> set (map Some rs)" for r by auto
    then have "c \<in> set (concat (map fst rs)) \<longleftrightarrow> (\<exists>r. Some r \<in> set (map Some rs) \<and> c \<in> set (fst r))"
      unfolding set_concat set_map by blast
    also have "\<dots> \<longleftrightarrow> (\<exists>r i ev. (i, ev) \<in> set (enumerate 0 ordered) \<and>
        (event_candidates env reader types (i, ev) = Some r \<and> c \<in> set (fst r)))"
      unfolding rs by (auto simp: image_iff) metis+
    finally show ?thesis by (simp only: event_candidates_mem)
  qed
  then have mem: "c \<in> set (concat (map fst rs)) \<longleftrightarrow>
      (\<exists>i its it. i < length ordered \<and> timed_intervals env (ordered ! i) = Some its \<and> it \<in> set its \<and>
        c \<in> set (fst (interval_candidate reader types i (ordered ! i) it)))" for c
    by (auto simp: in_set_enumerate_eq)
  show ?thesis
  proof
    assume "\<exists>c \<in> set (concat (map fst rs)). tw_covers (c_start c) (c_end c) t \<and> (ty, v, d) \<in> set (c_payloads c) \<and>
      c_rank c = i \<and> c_event c = ev"
    then obtain c where c: "tw_covers (c_start c) (c_end c) t" "(ty, v, d) \<in> set (c_payloads c)"
        "c_rank c = i" "c_event c = ev" "c \<in> set (concat (map fst rs))" by blast
    from c(5) obtain i' its it where i': "i' < length ordered" "timed_intervals env (ordered ! i') = Some its" "it \<in> set its"
      and c': "c \<in> set (fst (interval_candidate reader types i' (ordered ! i') it))" unfolding mem by blast
    have same: "i' = i" "ev = ordered ! i" "c_start c = t_start it" "c_end c = t_end it"
      "c_payloads c = fst (read_payloads reader types ev it (iv_payloads (t_interval it)))"
      using c(3,4) c' unfolding interval_candidate_mem by auto
    with c(1,2) i' show "i < length ordered \<and> ev = ordered ! i \<and> offers env reader types ev t ty v d"
      unfolding offers_def by (auto simp: read_payloads_ok)
  next
    assume a: "i < length ordered \<and> ev = ordered ! i \<and> offers env reader types ev t ty v d"
    then obtain its it where it: "timed_intervals env ev = Some its" "it \<in> set its" "tw_covers (t_start it) (t_end it) t"
      "(ty, v, d) \<in> set (fst (read_payloads reader types ev it (iv_payloads (t_interval it))))"
      unfolding offers_def by (auto simp: read_payloads_ok)
    let ?c = "\<lparr>c_start = t_start it, c_end = t_end it, c_rank = i, c_event = ev,
          c_payloads = fst (read_payloads reader types ev it (iv_payloads (t_interval it)))\<rparr>"
    have "?c \<in> set (fst (interval_candidate reader types i ev it))"
      using it(3,4) unfolding interval_candidate_mem by (auto simp: tw_covers_def)
    then have "?c \<in> set (concat (map fst rs))" using a it(1,2) unfolding mem by blast
    with it(3,4) show "\<exists>c \<in> set (concat (map fst rs)). tw_covers (c_start c) (c_end c) t \<and>
      (ty, v, d) \<in> set (c_payloads c) \<and> c_rank c = i \<and> c_event c = ev"
      by (intro bexI [of _ ?c]) simp_all
  qed
qed

section \<open>Properties\<close>

text \<open>
  C21. Precedence. With the events in their ranking order (priority, then creation time, then input
  order), at every instant and for every payload type the resolved segments hold the value offered by
  the last event of that order that offers one at that instant, and nothing exactly where no event does.
\<close>

theorem resolve_precedence:
  assumes "resolve env evs reader types = Some r"
  shows "case winner_at (rs_segments r) t ty of
      None \<Rightarrow> \<forall>ev \<in> set evs. \<forall>v d. \<not> offers env reader types ev t ty v d
    | Some w \<Rightarrow> (let ordered = sort_key (rank_key env) evs in
        \<exists>i v d. i < length ordered \<and> offers env reader types (ordered ! i) t ty v d \<and>
          w = \<lparr>wn_value = v, wn_declared_by = d, wn_event_id = ev_id (ordered ! i),
               wn_event_name = ev_name (ordered ! i)\<rparr> \<and>
          (\<forall>j v d. i < j \<and> j < length ordered \<longrightarrow> \<not> offers env reader types (ordered ! j) t ty v d))"
proof -
  let ?ordered = "sort_key (rank_key env) evs"
  from assms obtain rs where rs: "those (map (event_candidates env reader types) (enumerate 0 ?ordered)) = Some rs"
    and "rs_segments r = resolve_segments (concat (map fst rs))"
    by (auto simp: resolve_def Let_def)
  define cs where "cs = concat (map fst rs)"
  have segs: "rs_segments r = resolve_segments cs" by (simp add: cs_def) fact
  note offer = candidates_offer [OF rs, folded cs_def]
  from winner_at_best obtain e where
    e: "best (carried_payloads (filter (\<lambda>c. tw_covers (c_start c) (c_end c) t) cs)) ty e"
    and w: "winner_at (rs_segments r) t ty = map_option snd e"
    unfolding segs by blast
  show ?thesis
  proof (cases e)
    case None
    have "\<not> offers env reader types (?ordered ! i) t ty v d" if "i < length ?ordered" for i v d
      using e that offer [of t ty v d i "?ordered ! i"] by (auto simp: None best_def carried_payloads_mem)
    then have "\<not> offers env reader types ev t ty v d" if "ev \<in> set evs" for ev v d
      using that by (metis in_set_conv_nth set_sort)
    with w None show ?thesis by simp
  next
    case (Some rw)
    obtain i win where rw: "rw = (i, win)" by (cases rw)
    have top: "c_rank c' \<le> i"
      if "c' \<in> set cs" "tw_covers (c_start c') (c_end c') t" "(ty, v', d') \<in> set (c_payloads c')" for c' v' d'
      using e that by (auto simp: Some rw best_def carried_payloads_mem)
    have "\<exists>c v d. c \<in> set cs \<and> tw_covers (c_start c) (c_end c) t \<and> (ty, v, d) \<in> set (c_payloads c) \<and>
        c_rank c = i \<and> win = winner_of c v d"
      using e by (simp add: Some rw best_def carried_payloads_mem)
    then obtain c v d where c: "c \<in> set cs" "tw_covers (c_start c) (c_end c) t"
        "(ty, v, d) \<in> set (c_payloads c)" "c_rank c = i" "win = winner_of c v d"
      by blast
    then have i: "i < length ?ordered" "c_event c = ?ordered ! i" "offers env reader types (?ordered ! i) t ty v d"
      using offer [of t ty v d i "c_event c"] by auto
    have later: "\<not> offers env reader types (?ordered ! j) t ty v' d'" if "i < j" "j < length ?ordered" for j v' d'
      using offer [of t ty v' d' j "?ordered ! j"] top that by fastforce
    have "winner_at (rs_segments r) t ty = Some win" using w by (simp add: Some rw)
    with i later c(5) show ?thesis
      unfolding Let_def winner_of_def
      by (auto intro!: exI [of _ i] exI [of _ v] exI [of _ d])
  qed
qed

lemma resolve_precedence_witness:
  "\<exists>r. resolve sample_env [sample_event None None [\<lparr>iv_period = None,
       iv_payloads = [\<lparr>value_type = ''PRICE'', pl_values = [VInteger 7]\<rparr>]\<rparr>]] [] None = Some r \<and>
     winner_at (rs_segments r) 0 ''PRICE'' =
       Some \<lparr>wn_value = 7, wn_declared_by = ProfileDefault, wn_event_id = ''e1'', wn_event_name = None\<rparr>"
proof -
  let ?p = "\<lparr>value_type = ''PRICE'', pl_values = [VInteger 7]\<rparr>"
  let ?iv = "\<lparr>iv_period = None, iv_payloads = [?p]\<rparr>"
  let ?ev = "sample_event None None [?iv]"
  have timed: "timed_intervals sample_env ?ev =
      Some [\<lparr>t_interval = ?iv, t_start = min_utc sample_env, t_end = max_utc sample_env\<rparr>]"
    by (simp add: timed_intervals_def event_window_end_def base_intervals_def event_intervals_def timed_of_def sample_event_def)
  have rd: "read_payload [] ?ev ?p = Some (Inr \<lparr>rd_value = 7, rd_declared_by = ProfileDefault\<rparr>)"
    by (simp add: read_payload_def first_number_def numeric_value_def event_quantity_of_def event_quantities_def
        find_descriptor_def sample_event_def)
  have mm: "min_utc sample_env \<le> 0" "0 < max_utc sample_env" by (simp_all add: sample_env_def)
  have offer: "offers sample_env [] None ?ev 0 ''PRICE'' v d \<longleftrightarrow> v = 7 \<and> d = ProfileDefault" for v d
    using rd mm by (auto simp: offers_def timed tw_covers_def)
  obtain r where r: "resolve sample_env [?ev] [] None = Some r"
    using timed by (auto simp: resolve_def event_candidates_def)
  have "winner_at (rs_segments r) 0 ''PRICE'' =
       Some \<lparr>wn_value = 7, wn_declared_by = ProfileDefault, wn_event_id = ''e1'', wn_event_name = None\<rparr>"
    using resolve_precedence [OF r, of 0 "''PRICE''"]
    by (auto simp: offer Let_def split: option.splits) (auto simp: sample_event_def)
  with r show ?thesis by blast
qed

text \<open>
  The resolved segments are proper windows in time order, none overlapping the next, and each
  holds a winner: overlapping events leave no instant with two segments and no empty segment.
\<close>

theorem resolve_disjoint:
  assumes "resolve env evs reader types = Some r"
  shows "sorted_wrt (\<lambda>a b. seg_end a \<le> seg_start b) (rs_segments r) \<and>
    sorted_wrt (\<lambda>a b. seg_start a < seg_start b) (rs_segments r) \<and>
    list_all (\<lambda>s. seg_start s < seg_end s \<and> seg_winners s \<noteq> []) (rs_segments r)"
proof -
  from assms obtain cs where cs: "rs_segments r = resolve_segments cs"
    by (auto simp: resolve_def Let_def)
  have "seg_winners s \<noteq> []" if "s \<in> set (resolve_segments cs)" for s
    using that by (auto simp: segments_mem segment_of_def Let_def split: if_splits)
  then show ?thesis
    unfolding cs list_all_iff using seg.ordered seg.starts_increase seg.proper by blast
qed

lemma resolve_disjoint_witness:
  "\<exists>r. resolve sample_env [sample_event None None [\<lparr>iv_period = None,
       iv_payloads = [\<lparr>value_type = ''PRICE'', pl_values = [VInteger 7]\<rparr>]\<rparr>]] [] None = Some r \<and>
     sorted_wrt (\<lambda>a b. seg_end a \<le> seg_start b) (rs_segments r)"
proof -
  let ?ev = "sample_event None None [\<lparr>iv_period = None, iv_payloads = [\<lparr>value_type = ''PRICE'', pl_values = [VInteger 7]\<rparr>]\<rparr>]"
  obtain r where r: "resolve sample_env [?ev] [] None = Some r"
    by (auto simp: resolve_def event_candidates_def no_duration_as_declared sample_event_def)
  with resolve_disjoint [OF r] show ?thesis by blast
qed

end
