(* ===== verification/Capacity.thy ===== *)
theory Capacity
  imports Event_Priority Time_Series
begin

text \<open>
  \<open>VEN/src/entities/capacity.rs\<close>, \<open>controller/rate_schedule.rs\<close>,
  \<open>entities/tariff_snapshot.rs\<close> and \<open>entities/reservation_request.rs\<close>: the capacity and
  tariff schedules parsed from the VTN's events, and which value of them applies when.
  \<open>f64::INFINITY\<close> as an allowance (nothing declared) is \<open>None\<close>.
\<close>

datatype commitment_direction = Import | Export

record capacity_snapshot =
  cs_start :: instant
  cs_end :: instant
  cs_import_limit_kw :: "f64 option"
  cs_export_limit_kw :: "f64 option"
  cs_import_limit_event_id :: "string option"
  cs_export_limit_event_id :: "string option"
  cs_import_subscription_kw :: "f64 option"
  cs_export_subscription_kw :: "f64 option"
  cs_import_reservation_kw :: "f64 option"
  cs_export_reservation_kw :: "f64 option"

record capacity_limit =
  cl_limit_kw :: f64
  cl_event_id :: "string option"

definition capacity_payload_types :: "string list" where
  "capacity_payload_types =
     [''IMPORT_CAPACITY_LIMIT'', ''EXPORT_CAPACITY_LIMIT'', ''IMPORT_CAPACITY_SUBSCRIPTION'',
      ''EXPORT_CAPACITY_SUBSCRIPTION'', ''IMPORT_CAPACITY_RESERVATION'', ''EXPORT_CAPACITY_RESERVATION'']"

text \<open>The two limits of the simulator's injected state this component reads.\<close>

record sim_inject =
  si_grid_import_limit_kw :: "f64 option"
  si_grid_export_limit_kw :: "f64 option"
  si_pv_generation_limit_kw :: "f64 option"
  si_heater_emergency_curtail :: "bool option"
  si_heater_emergency_absorb :: "bool option"

section \<open>Which value applies\<close>

definition snapshot_limit :: "commitment_direction \<Rightarrow> capacity_snapshot \<Rightarrow> capacity_limit option" where
  "snapshot_limit d s =
     (case d of
        Import \<Rightarrow> map_option (\<lambda>kw. \<lparr>cl_limit_kw = kw, cl_event_id = cs_import_limit_event_id s\<rparr>) (cs_import_limit_kw s)
      | Export \<Rightarrow> map_option (\<lambda>kw. \<lparr>cl_limit_kw = kw, cl_event_id = cs_export_limit_event_id s\<rparr>) (cs_export_limit_kw s))"

definition allowance :: "commitment_direction \<Rightarrow> capacity_snapshot \<Rightarrow> capacity_limit option" where
  "allowance d s =
     (let (subscription, reservation) =
        (case d of Import \<Rightarrow> (cs_import_subscription_kw s, cs_import_reservation_kw s)
         | Export \<Rightarrow> (cs_export_subscription_kw s, cs_export_reservation_kw s))
      in if subscription \<noteq> None \<or> reservation \<noteq> None
         then Some \<lparr>cl_limit_kw = hm_or 0 subscription + hm_or 0 reservation, cl_event_id = None\<rparr>
         else None)"

text \<open>\<open>Iterator::min_by\<close>: the first of equally small elements.\<close>

fun min_from :: "capacity_limit \<Rightarrow> capacity_limit list \<Rightarrow> capacity_limit" where
  "min_from l0 [] = l0"
| "min_from l0 (l # ls) =
     (if cl_limit_kw l < cl_limit_kw l0 then min_from l ls else min_from l0 ls)"

definition tightest_over ::
  "capacity_snapshot list \<Rightarrow> instant \<Rightarrow> instant \<Rightarrow> (capacity_snapshot \<Rightarrow> capacity_limit option) \<Rightarrow> capacity_limit option" where
  "tightest_over schedule from_t to_t pick =
     (case List.map_filter pick (filter (\<lambda>s. tw_overlaps (cs_start s) (cs_end s) from_t to_t) schedule) of
        [] \<Rightarrow> None | l # ls \<Rightarrow> Some (min_from l ls))"

definition tightest_capacity_limit ::
  "capacity_snapshot list \<Rightarrow> commitment_direction \<Rightarrow> instant \<Rightarrow> instant \<Rightarrow> capacity_limit option" where
  "tightest_capacity_limit schedule d from_t to_t = tightest_over schedule from_t to_t (snapshot_limit d)"

definition contracted_allowance_kw ::
  "capacity_snapshot list \<Rightarrow> commitment_direction \<Rightarrow> instant \<Rightarrow> instant \<Rightarrow> f64 option" where
  "contracted_allowance_kw schedule d from_t to_t =
     map_option cl_limit_kw (tightest_over schedule from_t to_t (allowance d))"

definition effective_capacity_limit ::
  "capacity_snapshot list \<Rightarrow> sim_inject \<Rightarrow> commitment_direction \<Rightarrow> instant \<Rightarrow> instant \<Rightarrow> capacity_limit option" where
  "effective_capacity_limit schedule inject d from_t to_t =
     (case tightest_capacity_limit schedule d from_t to_t of
        Some l \<Rightarrow> Some l
      | None \<Rightarrow> map_option (\<lambda>kw. \<lparr>cl_limit_kw = kw, cl_event_id = None\<rparr>)
          (case d of Import \<Rightarrow> si_grid_import_limit_kw inject | Export \<Rightarrow> si_grid_export_limit_kw inject))"

record capacity_state =
  cp_import_limit_kw :: "f64 option"
  cp_export_limit_kw :: "f64 option"
  cp_import_subscription_kw :: "f64 option"
  cp_import_reservation_kw :: "f64 option"
  cp_export_subscription_kw :: "f64 option"
  cp_export_reservation_kw :: "f64 option"
  cp_import_limit_event_id :: "string option"
  cp_export_limit_event_id :: "string option"
  cp_last_updated :: "instant option"

definition capacity_state_at ::
  "capacity_snapshot list \<Rightarrow> sim_inject \<Rightarrow> instant \<Rightarrow> instant option \<Rightarrow> capacity_state" where
  "capacity_state_at schedule inject now last_updated =
     (let limit = (\<lambda>d. effective_capacity_limit schedule inject d now now);
          at_now = (\<lambda>v. map_option cl_limit_kw (tightest_over schedule now now
            (\<lambda>s. map_option (\<lambda>kw. \<lparr>cl_limit_kw = kw, cl_event_id = None\<rparr>) (v s))))
      in \<lparr>cp_import_limit_kw = map_option cl_limit_kw (limit Import),
          cp_export_limit_kw = map_option cl_limit_kw (limit Export),
          cp_import_subscription_kw = at_now cs_import_subscription_kw,
          cp_import_reservation_kw = at_now cs_import_reservation_kw,
          cp_export_subscription_kw = at_now cs_export_subscription_kw,
          cp_export_reservation_kw = at_now cs_export_reservation_kw,
          cp_import_limit_event_id = Option.bind (limit Import) cl_event_id,
          cp_export_limit_event_id = Option.bind (limit Export) cl_event_id,
          cp_last_updated = last_updated\<rparr>)"

section \<open>Parsing the schedules\<close>

definition seg_value :: "segment \<Rightarrow> string \<Rightarrow> f64 option" where
  "seg_value seg ty = map_option wn_value (hm_get (seg_winners seg) ty)"

definition seg_event_id :: "segment \<Rightarrow> string \<Rightarrow> string option" where
  "seg_event_id seg ty = map_option wn_event_id (hm_get (seg_winners seg) ty)"

definition capacity_of_segment :: "segment \<Rightarrow> capacity_snapshot" where
  "capacity_of_segment seg =
     \<lparr>cs_start = seg_start seg, cs_end = seg_end seg,
      cs_import_limit_kw = seg_value seg ''IMPORT_CAPACITY_LIMIT'',
      cs_export_limit_kw = seg_value seg ''EXPORT_CAPACITY_LIMIT'',
      cs_import_limit_event_id = seg_event_id seg ''IMPORT_CAPACITY_LIMIT'',
      cs_export_limit_event_id = seg_event_id seg ''EXPORT_CAPACITY_LIMIT'',
      cs_import_subscription_kw = seg_value seg ''IMPORT_CAPACITY_SUBSCRIPTION'',
      cs_export_subscription_kw = seg_value seg ''EXPORT_CAPACITY_SUBSCRIPTION'',
      cs_import_reservation_kw = seg_value seg ''IMPORT_CAPACITY_RESERVATION'',
      cs_export_reservation_kw = seg_value seg ''EXPORT_CAPACITY_RESERVATION''\<rparr>"

definition parse_capacity_schedule ::
  "wire_env \<Rightarrow> oadr_event list \<Rightarrow> payload_reader \<Rightarrow> capacity_snapshot list option" where
  "parse_capacity_schedule env events reader =
     map_option (\<lambda>r. map capacity_of_segment (rs_segments r))
       (resolve env events reader (Some capacity_payload_types))"

record tariff_snapshot =
  tf_start :: instant
  tf_end :: instant
  tf_import :: "f64 option"
  tf_export :: "f64 option"
  tf_co2 :: "f64 option"

definition tariff_of_segment :: "segment \<Rightarrow> tariff_snapshot option" where
  "tariff_of_segment seg =
     (let i = seg_value seg ''PRICE''; x = seg_value seg ''EXPORT_PRICE''; c = seg_value seg ''GHG'' in
      if i = None \<and> x = None \<and> c = None then None
      else Some \<lparr>tf_start = seg_start seg, tf_end = seg_end seg, tf_import = i, tf_export = x, tf_co2 = c\<rparr>)"

definition parse_rate_snapshots ::
  "wire_env \<Rightarrow> oadr_event list \<Rightarrow> payload_reader \<Rightarrow> tariff_snapshot list option" where
  "parse_rate_snapshots env events reader =
     map_option (\<lambda>r. List.map_filter tariff_of_segment (rs_segments r))
       (resolve env events reader (Some [''PRICE'', ''EXPORT_PRICE'', ''GHG'']))"

definition tariff_at :: "tariff_snapshot list \<Rightarrow> instant \<Rightarrow> tariff_snapshot option" where
  "tariff_at snapshots t = covering tf_start tf_end snapshots t"

section \<open>The tariffs as step series\<close>

definition push_sample :: "instant \<Rightarrow> f64 \<Rightarrow> (instant \<times> f64) list \<Rightarrow> (instant \<times> f64) list" where
  "push_sample t v xs =
     (if xs \<noteq> [] \<and> fst (last xs) = t then butlast xs @ [(fst (last xs), v)] else xs @ [(t, v)])"

definition push_value :: "(tariff_snapshot \<Rightarrow> f64 option) \<Rightarrow> tariff_snapshot \<Rightarrow> (instant \<times> f64) list \<Rightarrow> (instant \<times> f64) list" where
  "push_value pick s xs = (case pick s of None \<Rightarrow> xs | Some v \<Rightarrow> push_sample (tf_start s) v xs)"

definition extend_coverage :: "(tariff_snapshot \<Rightarrow> f64 option) \<Rightarrow> tariff_snapshot \<Rightarrow> instant option \<Rightarrow> instant option" where
  "extend_coverage pick s c =
     (case pick s of None \<Rightarrow> c
      | Some _ \<Rightarrow> Some (case c of Some cur \<Rightarrow> max cur (tf_end s) | None \<Rightarrow> tf_end s))"

record tariff_time_series =
  tts_import :: time_series
  tts_export :: time_series
  tts_co2 :: time_series
  tts_import_coverage_end :: "instant option"
  tts_co2_coverage_end :: "instant option"

definition from_snapshots :: "tariff_snapshot list \<Rightarrow> tariff_time_series" where
  "from_snapshots snapshots =
     (let sorted = sort_key tf_start snapshots;
          series = (\<lambda>pick. \<lparr>ts_samples = fold (push_value pick) sorted [], ts_mode = Step\<rparr>)
      in \<lparr>tts_import = series tf_import, tts_export = series tf_export, tts_co2 = series tf_co2,
          tts_import_coverage_end = fold (extend_coverage tf_import) sorted None,
          tts_co2_coverage_end = fold (extend_coverage tf_co2) sorted None\<rparr>)"

section \<open>Reservation requests\<close>

record site_headroom =
  sh_up_kw :: f64
  sh_down_kw :: f64

record reservation_request =
  rr_import_kw :: f64
  rr_export_kw :: f64

definition beyond :: "f64 \<Rightarrow> f64 option \<Rightarrow> f64" where
  "beyond capability allowed =
     (case allowed of None \<Rightarrow> 0 | Some kw \<Rightarrow> max (max capability 0 - kw) 0)"

definition from_headroom :: "site_headroom \<Rightarrow> capacity_snapshot list \<Rightarrow> instant \<Rightarrow> reservation_request" where
  "from_headroom headroom schedule now =
     (let allowance_kw = (\<lambda>d. contracted_allowance_kw schedule d now now) in
      \<lparr>rr_import_kw = beyond (sh_down_kw headroom) (allowance_kw Import),
       rr_export_kw = beyond (- sh_up_kw headroom) (allowance_kw Export)\<rparr>)"

section \<open>The tightest value\<close>

lemma min_from_mem: "min_from l0 ls \<in> insert l0 (set ls)"
  by (induction ls arbitrary: l0) auto

lemma min_from_le: "l \<in> insert l0 (set ls) \<Longrightarrow> cl_limit_kw (min_from l0 ls) \<le> cl_limit_kw l"
proof (induction ls arbitrary: l l0)
  case (Cons k ks)
  have le: "cl_limit_kw (min_from m ks) \<le> cl_limit_kw m" for m by (rule Cons.IH) simp
  show ?case using le [of k] le [of l0] Cons.prems Cons.IH [of l k] Cons.IH [of l l0] by auto
qed simp

lemma tightest_over_None:
  "tightest_over schedule a b pick = None \<longleftrightarrow>
     (\<forall>s \<in> set schedule. tw_overlaps (cs_start s) (cs_end s) a b \<longrightarrow> pick s = None)"
proof -
  have "List.map_filter pick xs = [] \<longleftrightarrow> (\<forall>s \<in> set xs. pick s = None)" for xs
    by (induction xs) (auto simp: map_filter_Cons List.map_filter_def split: option.splits)
  from this [of "filter (\<lambda>s. tw_overlaps (cs_start s) (cs_end s) a b) schedule"] show ?thesis
    by (auto simp: tightest_over_def split: list.split)
qed

lemma tightest_over_Some:
  assumes "tightest_over schedule a b pick = Some l"
  shows "(\<exists>s \<in> set schedule. tw_overlaps (cs_start s) (cs_end s) a b \<and> pick s = Some l) \<and>
    (\<forall>s \<in> set schedule. \<forall>k. tw_overlaps (cs_start s) (cs_end s) a b \<and> pick s = Some k \<longrightarrow>
       cl_limit_kw l \<le> cl_limit_kw k)"
proof -
  let ?ls = "List.map_filter pick (filter (\<lambda>s. tw_overlaps (cs_start s) (cs_end s) a b) schedule)"
  from assms obtain m ms where ls: "?ls = m # ms" and l: "l = min_from m ms"
    by (auto simp: tightest_over_def split: list.splits)
  have mem: "k \<in> set ?ls \<longleftrightarrow> (\<exists>s \<in> set schedule. tw_overlaps (cs_start s) (cs_end s) a b \<and> pick s = Some k)" for k
    by (auto simp: map_filter_mem)
  have "l \<in> set ?ls" unfolding ls l using min_from_mem [of m ms] by simp
  moreover have "k \<in> set ?ls \<Longrightarrow> cl_limit_kw l \<le> cl_limit_kw k" for k
    unfolding ls l by (rule min_from_le) simp
  ultimately show ?thesis unfolding mem by blast
qed

text \<open>At an instant, a schedule whose windows never overlap has one value at most.\<close>

lemma tightest_over_instant:
  assumes "filter (\<lambda>s. tw_covers (cs_start s) (cs_end s) t) schedule = (case c of None \<Rightarrow> [] | Some s \<Rightarrow> [s])"
  shows "tightest_over schedule t t pick = Option.bind c pick"
  using assms
  by (auto simp: tightest_over_def overlaps_instant List.map_filter_def split: option.splits)

definition limit_type :: "commitment_direction \<Rightarrow> string" where
  "limit_type d = (case d of Import \<Rightarrow> ''IMPORT_CAPACITY_LIMIT'' | Export \<Rightarrow> ''EXPORT_CAPACITY_LIMIT'')"

lemma covering_map:
  assumes "\<And>x. x \<in> set xs \<Longrightarrow> st' (f x) = st x \<and> en' (f x) = en x"
  shows "filter (\<lambda>w. tw_covers (st' w) (en' w) t) (map f xs) = map f (filter (\<lambda>w. tw_covers (st w) (en w) t) xs)"
  using assms by (induction xs) auto

lemma resolve_covering:
  assumes "resolve env evs reader types = Some r"
  shows "filter (\<lambda>s. tw_covers (seg_start s) (seg_end s) t) (rs_segments r) =
    (case covering seg_start seg_end (rs_segments r) t of None \<Rightarrow> [] | Some w \<Rightarrow> [w])"
proof -
  from assms obtain cs where "rs_segments r = resolve_segments cs" by (auto simp: resolve_def Let_def)
  then show ?thesis by (simp add: seg.covering_filter)
qed

lemma snapshot_limit_of_segment:
  "snapshot_limit d (capacity_of_segment seg) =
     map_option (\<lambda>w. \<lparr>cl_limit_kw = wn_value w, cl_event_id = Some (wn_event_id w)\<rparr>)
       (hm_get (seg_winners seg) (limit_type d))"
  by (cases d; cases "hm_get (seg_winners seg) (limit_type d)")
    (simp_all add: snapshot_limit_def capacity_of_segment_def limit_type_def seg_value_def seg_event_id_def)

text \<open>One open-ended event with one value, as the two witnesses poll it.\<close>

definition one_value_event :: "string \<Rightarrow> oadr_event" where
  "one_value_event ty = sample_event None None [\<lparr>iv_period = None,
     iv_payloads = [\<lparr>value_type = ty, pl_values = [VInteger 7]\<rparr>]\<rparr>]"

lemma one_value_resolved:
  assumes "ty \<in> {''IMPORT_CAPACITY_LIMIT'', ''PRICE''}" and "ty \<in> set wanted"
  shows "resolve sample_env [one_value_event ty] [] (Some wanted) =
    Some \<lparr>rs_segments = [\<lparr>seg_start = min_utc sample_env, seg_end = max_utc sample_env,
       seg_winners = [(ty, \<lparr>wn_value = 7, wn_declared_by = ProfileDefault, wn_event_id = ''e1'', wn_event_name = None\<rparr>)]\<rparr>],
      rs_refused = []\<rparr>"
proof -
  let ?p = "\<lparr>value_type = ty, pl_values = [VInteger 7]\<rparr>" and ?ev = "one_value_event ty"
  let ?iv = "\<lparr>iv_period = None, iv_payloads = [?p]\<rparr>"
  have timed: "timed_intervals sample_env ?ev =
      Some [\<lparr>t_interval = ?iv, t_start = min_utc sample_env, t_end = max_utc sample_env\<rparr>]"
    by (simp add: one_value_event_def timed_intervals_def event_window_end_def base_intervals_def
        event_intervals_def timed_of_def sample_event_def)
  have rd: "read_payload [] ?ev ?p = Some (Inr \<lparr>rd_value = 7, rd_declared_by = ProfileDefault\<rparr>)"
  proof -
    from assms(1) have "event_quantity_of ty \<in> {Some PowerKw, Some PricePerKwhEur}"
      by (elim insertE emptyE) (simp_all add: event_quantity_of_def event_quantities_def)
    then obtain q where "event_quantity_of ty = Some q" "quantity_units q \<noteq> None" by auto
    then show ?thesis
      by (simp add: one_value_event_def read_payload_def first_number_def numeric_value_def
          find_descriptor_def sample_event_def)
  qed
  let ?c = "\<lparr>c_start = min_utc sample_env, c_end = max_utc sample_env, c_rank = 0, c_event = ?ev,
      c_payloads = [(ty, 7, ProfileDefault)]\<rparr>"
  have "event_candidates sample_env [] (Some wanted) (0, ?ev) = Some ([?c], [])"
    using timed rd assms(2) by (simp add: event_candidates_def interval_candidate_def sample_env_def)
  then have r: "resolve sample_env [?ev] [] (Some wanted) = Some \<lparr>rs_segments = resolve_segments [?c], rs_refused = []\<rparr>"
    by (simp add: resolve_def)
  have "bounds_of [?c] = [min_utc sample_env, max_utc sample_env]"
    by (simp add: bounds_of_def sample_env_def)
  moreover have "winner_of ?c 7 ProfileDefault =
      \<lparr>wn_value = 7, wn_declared_by = ProfileDefault, wn_event_id = ''e1'', wn_event_name = None\<rparr>"
    by (simp add: winner_of_def one_value_event_def sample_event_def)
  ultimately show ?thesis
    using r by (simp add: resolve_segments_def segment_of_def winners_in_def put_winner_def hm_put_def
        List.map_filter_def)
qed

lemma sample_now: "min_utc sample_env \<le> 0" "0 < max_utc sample_env"
  by (simp_all add: sample_env_def)

section \<open>Properties\<close>

text \<open>
  C26. The capacity limit in force at an instant is the value, and names the event, that wins the
  limit's payload type at that instant in the resolution of the polled events; only where no event
  offers one does the limit injected into the simulator stand in, and it never overrides one.
\<close>

theorem capacity_limit_in_force:
  assumes "resolve env evs reader (Some capacity_payload_types) = Some r"
    and "parse_capacity_schedule env evs reader = Some schedule"
  shows "effective_capacity_limit schedule inject d t t =
    (case winner_at (rs_segments r) t (limit_type d) of
       Some w \<Rightarrow> Some \<lparr>cl_limit_kw = wn_value w, cl_event_id = Some (wn_event_id w)\<rparr>
     | None \<Rightarrow> map_option (\<lambda>kw. \<lparr>cl_limit_kw = kw, cl_event_id = None\<rparr>)
         (case d of Import \<Rightarrow> si_grid_import_limit_kw inject | Export \<Rightarrow> si_grid_export_limit_kw inject))"
proof -
  have sched: "schedule = map capacity_of_segment (rs_segments r)"
    using assms by (simp add: parse_capacity_schedule_def)
  have "filter (\<lambda>s. tw_covers (cs_start s) (cs_end s) t) schedule =
      map capacity_of_segment (filter (\<lambda>s. tw_covers (seg_start s) (seg_end s) t) (rs_segments r))"
    unfolding sched by (rule covering_map) (simp add: capacity_of_segment_def)
  then have "filter (\<lambda>s. tw_covers (cs_start s) (cs_end s) t) schedule =
      (case map_option capacity_of_segment (covering seg_start seg_end (rs_segments r) t) of None \<Rightarrow> [] | Some s \<Rightarrow> [s])"
    by (simp add: resolve_covering [OF assms(1)] split: option.split)
  note inst = tightest_over_instant [OF this]
  show ?thesis
    unfolding effective_capacity_limit_def tightest_capacity_limit_def inst winner_at_def
    by (cases "covering seg_start seg_end (rs_segments r) t") (simp_all add: snapshot_limit_of_segment split: option.split)
qed

lemma capacity_limit_in_force_witness:
  "\<exists>schedule. parse_capacity_schedule sample_env [one_value_event ''IMPORT_CAPACITY_LIMIT''] [] = Some schedule \<and>
     effective_capacity_limit schedule \<lparr>si_grid_import_limit_kw = Some 3, si_grid_export_limit_kw = None,
       si_pv_generation_limit_kw = None, si_heater_emergency_curtail = None, si_heater_emergency_absorb = None\<rparr>
       Import 0 0 = Some \<lparr>cl_limit_kw = 7, cl_event_id = Some ''e1''\<rparr>"
proof -
  note r = one_value_resolved [of "''IMPORT_CAPACITY_LIMIT''" capacity_payload_types]
  then obtain schedule where
    p: "parse_capacity_schedule sample_env [one_value_event ''IMPORT_CAPACITY_LIMIT''] [] = Some schedule"
    by (simp add: parse_capacity_schedule_def capacity_payload_types_def)
  have "''IMPORT_CAPACITY_LIMIT'' \<in> set capacity_payload_types" by (simp add: capacity_payload_types_def)
  from capacity_limit_in_force [OF r [OF _ this] p, of "\<lparr>si_grid_import_limit_kw = Some 3, si_grid_export_limit_kw = None,
       si_pv_generation_limit_kw = None, si_heater_emergency_curtail = None, si_heater_emergency_absorb = None\<rparr>" Import 0] sample_now
  show ?thesis using p by (simp add: winner_at_def covering_def tw_covers_def limit_type_def)
qed

text \<open>
  Over a span the code answers the smallest limit in force at any instant of the span, and none
  exactly when no instant of the span has one.
\<close>

theorem tightest_limit_over_span:
  assumes "from_t < to_t" and proper: "list_all (\<lambda>s. cs_start s < cs_end s) schedule"
  shows "case tightest_capacity_limit schedule d from_t to_t of
      None \<Rightarrow> \<forall>t. from_t \<le> t \<and> t < to_t \<longrightarrow> tightest_capacity_limit schedule d t t = None
    | Some l \<Rightarrow>
        (\<exists>t k. from_t \<le> t \<and> t < to_t \<and> tightest_capacity_limit schedule d t t = Some k \<and> cl_limit_kw k = cl_limit_kw l) \<and>
        (\<forall>t k. from_t \<le> t \<and> t < to_t \<and> tightest_capacity_limit schedule d t t = Some k \<longrightarrow> cl_limit_kw l \<le> cl_limit_kw k)"
proof -
  let ?p = "snapshot_limit d"
  have over: "tw_overlaps (cs_start s) (cs_end s) from_t to_t \<longleftrightarrow>
      (\<exists>t. from_t \<le> t \<and> t < to_t \<and> tw_covers (cs_start s) (cs_end s) t)" if "s \<in> set schedule" for s
    using overlaps_iff_common_instant [of "cs_start s" "cs_end s" from_t to_t] assms that
    by (auto simp: list_all_iff tw_covers_def)
  show ?thesis
  proof (cases "tightest_over schedule from_t to_t ?p")
    case None
    have "tightest_over schedule t t ?p = None" if "from_t \<le> t" "t < to_t" for t
      unfolding tightest_over_None
      using None over that by (auto simp: tightest_over_None overlaps_instant simp del: not_None_eq)
    with None show ?thesis by (simp add: tightest_capacity_limit_def)
  next
    case (Some l)
    note span = tightest_over_Some [OF Some]
    from span obtain s t where s: "s \<in> set schedule" "?p s = Some l"
      and t: "from_t \<le> t" "t < to_t" "tw_covers (cs_start s) (cs_end s) t" using over by blast
    then obtain k where k: "tightest_over schedule t t ?p = Some k"
      using tightest_over_None [of schedule t t ?p] by (fastforce simp: overlaps_instant)
    have above: "cl_limit_kw l \<le> cl_limit_kw k'"
      if "from_t \<le> t'" "t' < to_t" "tightest_over schedule t' t' ?p = Some k'" for t' k'
      using tightest_over_Some [OF that(3)] span over that(1,2) by (fastforce simp: overlaps_instant)
    have "cl_limit_kw k \<le> cl_limit_kw l"
      using tightest_over_Some [OF k] s t(3) by (auto simp: overlaps_instant)
    with above [OF t(1,2) k] have "cl_limit_kw k = cl_limit_kw l" by simp
    with k t above Some show ?thesis by (auto simp: tightest_capacity_limit_def)
  qed
qed

lemma tightest_limit_over_span_witness:
  "case tightest_capacity_limit
      [capacity_of_segment \<lparr>seg_start = 0, seg_end = 10, seg_winners = []\<rparr> \<lparr>cs_import_limit_kw := Some 4\<rparr>] Import 2 5 of
      None \<Rightarrow> False | Some l \<Rightarrow> cl_limit_kw l = 4"
  using tightest_limit_over_span [of 2 5
      "[capacity_of_segment \<lparr>seg_start = 0, seg_end = 10, seg_winners = []\<rparr> \<lparr>cs_import_limit_kw := Some 4\<rparr>]" Import]
  by (simp add: capacity_of_segment_def tightest_capacity_limit_def tightest_over_def tw_overlaps_def
      snapshot_limit_def List.map_filter_def)

section \<open>The tariff series\<close>

definition tariff_windows :: "tariff_snapshot list \<Rightarrow> bool" where
  "tariff_windows ss \<longleftrightarrow>
     sorted_wrt (\<lambda>a b. tf_end a \<le> tf_start b) ss \<and> list_all (\<lambda>s. tf_start s < tf_end s) ss"

lemma tariff_windows_starts: "tariff_windows ss \<Longrightarrow> sorted_wrt (\<lambda>a b. tf_start a < tf_start b) ss"
  unfolding tariff_windows_def by (induction ss) (auto intro: order.strict_trans2)

definition samples_of :: "(tariff_snapshot \<Rightarrow> f64 option) \<Rightarrow> tariff_snapshot list \<Rightarrow> (instant \<times> f64) list" where
  "samples_of pick ss = List.map_filter (\<lambda>s. map_option (Pair (tf_start s)) (pick s)) ss"

lemma samples_of_append: "samples_of pick (xs @ ys) = samples_of pick xs @ samples_of pick ys"
  by (simp add: samples_of_def List.map_filter_def)

lemma samples_of_start: "p \<in> set (samples_of pick ss) \<Longrightarrow> \<exists>s \<in> set ss. fst p = tf_start s"
  by (auto simp: samples_of_def map_filter_mem)

lemma fold_push_value:
  "sorted_wrt (\<lambda>a b. tf_start a < tf_start b) ss \<Longrightarrow> fold (push_value pick) ss [] = samples_of pick ss"
proof (induction ss rule: rev_induct)
  case Nil
  then show ?case by (simp add: samples_of_def List.map_filter_def)
next
  case (snoc s ss)
  have "fst (last (samples_of pick ss)) \<noteq> tf_start s" if "samples_of pick ss \<noteq> []"
    using samples_of_start [OF last_in_set [OF that]] snoc.prems by (auto simp: sorted_wrt_append)
  then show ?case
    using snoc by (auto simp: sorted_wrt_append push_value_def push_sample_def samples_of_append
        samples_of_def List.map_filter_def split: option.split)
qed

lemma samples_of_ascending:
  "sorted_wrt (\<lambda>a b. tf_start a < tf_start b) ss \<Longrightarrow> sorted_wrt (<) (map fst (samples_of pick ss))"
proof (induction ss)
  case (Cons s ss)
  then show ?case
    using samples_of_start [of _ pick ss]
    by (fastforce simp: samples_of_def map_filter_Cons split: option.split)
qed (simp add: samples_of_def List.map_filter_def)

lemma series_at_window:
  assumes w: "tariff_windows ss" and cov: "covering tf_start tf_end ss t = Some s" and v: "pick s = Some v"
  shows "interpolate_at \<lparr>ts_samples = fold (push_value pick) (sort_key tf_start ss) [], ts_mode = Step\<rparr> t = Some v"
proof -
  have starts: "sorted_wrt (\<lambda>a b. tf_start a < tf_start b) ss" by (rule tariff_windows_starts [OF w])
  have "sorted (map tf_start ss)"
    unfolding sorted_wrt_map using starts by (rule sorted_wrt_mono_rel [rotated]) simp
  then have sort: "sort_key tf_start ss = ss" by (rule sort_key_id_if_sorted)
  from covering_Some_D [OF cov] have mem: "s \<in> set ss" and in_s: "tf_start s \<le> t" "t < tf_end s"
    by (auto simp: tw_covers_def)
  then obtain ys zs where ss: "ss = ys @ s # zs" by (meson split_list)
  have "\<not> fst p \<le> t" if "p \<in> set (samples_of pick zs)" for p
    using samples_of_start [OF that] w in_s by (fastforce simp: ss tariff_windows_def sorted_wrt_append)
  moreover have "fst p \<le> t" if "p \<in> set (samples_of pick ys)" for p
    using samples_of_start [OF that] starts in_s by (fastforce simp: ss sorted_wrt_append)
  moreover have "samples_of pick (s # zs) = (tf_start s, v) # samples_of pick zs"
    by (simp add: samples_of_def map_filter_Cons v)
  ultimately have upto: "filter (\<lambda>p. fst p \<le> t) (samples_of pick ss) = samples_of pick ys @ [(tf_start s, v)]"
    using in_s by (simp add: ss samples_of_append filter_id_conv filter_empty_conv)
  have "is_ascending \<lparr>ts_samples = samples_of pick ss, ts_mode = Step\<rparr>"
    by (simp add: ascending_sorted samples_of_ascending [OF starts])
  from step_last [OF this] upto show ?thesis by (simp add: sort fold_push_value [OF starts])
qed

lemma parsed_tariff_windows:
  assumes "parse_rate_snapshots env evs reader = Some ss"
  shows "tariff_windows ss"
proof -
  from assms obtain cs where ss: "ss = List.map_filter tariff_of_segment (resolve_segments cs)"
    by (auto simp: parse_rate_snapshots_def resolve_def Let_def)
  have bounds: "tf_start s = seg_start g \<and> tf_end s = seg_end g" if "tariff_of_segment g = Some s" for g s
    using that by (auto simp: tariff_of_segment_def Let_def split: if_splits)
  have "sorted_wrt (\<lambda>a b. tf_end a \<le> tf_start b) (List.map_filter tariff_of_segment gs)"
    if "sorted_wrt (\<lambda>a b. seg_end a \<le> seg_start b) gs" for gs
    using that
  proof (induction gs)
    case (Cons g gs)
    then show ?case
      using bounds by (fastforce simp: map_filter_Cons map_filter_mem split: option.split)
  qed (simp add: List.map_filter_def)
  moreover have "tf_start s < tf_end s" if "s \<in> set ss" for s
    using that bounds seg.proper by (fastforce simp: ss map_filter_mem)
  ultimately show ?thesis
    unfolding tariff_windows_def ss by (simp add: list_all_iff seg.ordered)
qed

text \<open>
  The planner's tariff series and the tick's tariff lookup agree: wherever a parsed tariff window
  covers an instant and carries a price (import, export or CO2), the step series built from the same
  snapshots answers that price there.
\<close>

theorem tariff_series_agrees:
  assumes "parse_rate_snapshots env evs reader = Some ss" and "tariff_at ss t = Some s"
  shows "(tf_import s \<noteq> None \<longrightarrow> interpolate_at (tts_import (from_snapshots ss)) t = tf_import s) \<and>
    (tf_export s \<noteq> None \<longrightarrow> interpolate_at (tts_export (from_snapshots ss)) t = tf_export s) \<and>
    (tf_co2 s \<noteq> None \<longrightarrow> interpolate_at (tts_co2 (from_snapshots ss)) t = tf_co2 s)"
proof -
  note win = series_at_window [OF parsed_tariff_windows [OF assms(1)] assms(2) [unfolded tariff_at_def]]
  show ?thesis
    by (auto simp: from_snapshots_def Let_def win)
qed

lemma tariff_series_agrees_witness:
  "\<exists>ss. parse_rate_snapshots sample_env [one_value_event ''PRICE''] [] = Some ss \<and>
     interpolate_at (tts_import (from_snapshots ss)) 0 = Some 7"
proof -
  let ?s = "\<lparr>tf_start = min_utc sample_env, tf_end = max_utc sample_env, tf_import = Some 7,
      tf_export = None, tf_co2 = None\<rparr>"
  have p: "parse_rate_snapshots sample_env [one_value_event ''PRICE''] [] = Some [?s]"
    using one_value_resolved [of "''PRICE''" "[''PRICE'', ''EXPORT_PRICE'', ''GHG'']"]
    by (simp add: parse_rate_snapshots_def tariff_of_segment_def seg_value_def List.map_filter_def)
  have "tariff_at [?s] 0 = Some ?s"
    using sample_now by (simp add: tariff_at_def covering_def tw_covers_def)
  from tariff_series_agrees [OF p this] p show ?thesis by simp
qed

end
