(* ===== verification/Arbiter_Passes.thy ===== *)
theory Arbiter_Passes
  imports Arbiter_Ranked Capacity Session_Queue Fleet_Channel
begin

text \<open>
  \<open>VEN/src/controller/arbiter.rs\<close>, \<open>arbiter/release.rs\<close>, \<open>limit.rs\<close>, \<open>dispatch.rs\<close>,
  \<open>stages.rs\<close>, \<open>emergency.rs\<close> and \<open>decision.rs\<close>, with \<open>controller/dispatcher.rs\<close> and
  \<open>controller/comms_loss.rs\<close>: the passes of one controller tick. A pass answers \<open>None\<close> where
  the code panics (a storage asset whose range is crossed).
\<close>

section \<open>The plan's setpoints\<close>

definition current_slot :: "plan_time_slot list \<Rightarrow> instant \<Rightarrow> plan_time_slot option" where
  "current_slot slots now = covering ps_start ps_end slots now"

definition setpoints_from :: "sim_snapshot \<Rightarrow> (string \<times> f64) list option \<Rightarrow> f64 hmap \<Rightarrow> setpoints" where
  "setpoints_from sim allocs thermostat =
     (let base = fold (\<lambda>(i, kw). hm_put i kw) (hm_or [] allocs) (default_setpoints sim) in
      fold (\<lambda>(i, kw) sp. if i \<in> fst ` set (hm_or [] allocs) then sp else hm_put i kw sp) thermostat base)"

definition build_setpoints :: "plan_time_slot list \<Rightarrow> sim_snapshot \<Rightarrow> f64 hmap \<Rightarrow> instant \<Rightarrow> setpoints" where
  "build_setpoints plan sim thermostat now =
     setpoints_from sim (map_option ps_allocations (current_slot plan now)) thermostat"

definition build_setpoints_without_plan :: "sim_snapshot \<Rightarrow> f64 hmap \<Rightarrow> setpoints" where
  "build_setpoints_without_plan sim thermostat = setpoints_from sim None thermostat"

definition plan_allocates :: "plan_time_slot list \<Rightarrow> instant \<Rightarrow> string \<Rightarrow> bool" where
  "plan_allocates plan now i \<longleftrightarrow>
     (case current_slot plan now of None \<Rightarrow> False
      | Some s \<Rightarrow> list_ex (\<lambda>a. fst a = i) (ps_allocations s))"

section \<open>The generation limit\<close>

datatype pv_curtailment_source =
  CurtailCapacity | CurtailPlan | CurtailArbiter | CurtailManual | CurtailCommsLoss | CurtailNone

record resolved_pv_limit =
  pv_limit_kw :: "f64 option"
  pv_source :: pv_curtailment_source

definition plan_pv_limit :: "plan_time_slot list option \<Rightarrow> instant \<Rightarrow> f64 option" where
  "plan_pv_limit plan now =
     Option.bind plan (\<lambda>p. Option.bind (current_slot p now) (\<lambda>s.
       if ps_pv_used_kw s + 1 / 10 ^ 6 < ps_pv_forecast_kw s then Some (- ps_pv_used_kw s) else None))"

text \<open>\<open>Iterator::max_by\<close>: the last of equally large elements.\<close>

fun max_from :: "f64 \<times> 'a \<Rightarrow> (f64 \<times> 'a) list \<Rightarrow> f64 \<times> 'a" where
  "max_from b [] = b"
| "max_from b (x # xs) = (if fst b \<le> fst x then max_from x xs else max_from b xs)"

definition resolve_pv_generation_limit ::
  "plan_time_slot list option \<Rightarrow> f64 option \<Rightarrow> instant \<Rightarrow> f64 option \<Rightarrow> f64 option \<Rightarrow> f64 option \<Rightarrow> resolved_pv_limit" where
  "resolve_pv_generation_limit plan export_limit now tighten manual comms =
     (let neg = map_option (\<lambda>v. - \<bar>v\<bar>);
          candidates = [(neg export_limit, CurtailCapacity), (plan_pv_limit plan now, CurtailPlan),
            (neg tighten, CurtailArbiter), (neg manual, CurtailManual), (neg comms, CurtailCommsLoss)]
      in case List.map_filter (\<lambda>(l, s). map_option (\<lambda>v. (v, s)) l) candidates of
           [] \<Rightarrow> \<lparr>pv_limit_kw = None, pv_source = CurtailNone\<rparr>
         | x # xs \<Rightarrow> (let (v, s) = max_from x xs in \<lparr>pv_limit_kw = Some v, pv_source = s\<rparr>))"

record comms_loss_state =
  cm_active :: bool
  cm_max_power_pct :: f64

definition pv_ceiling_kw :: "comms_loss_state \<Rightarrow> sim_snapshot \<Rightarrow> f64 option" where
  "pv_ceiling_kw cl sim =
     (if \<not> cm_active cl then None
      else case List.map_filter (\<lambda>(_, a). as_ac_ceiling_kw a) sim of
        [] \<Rightarrow> None | x # xs \<Rightarrow> Some (cm_max_power_pct cl * foldl (+) x xs))"

definition pv_generation_limit ::
  "sim_snapshot \<Rightarrow> plan_time_slot list option \<Rightarrow> capacity_snapshot list \<Rightarrow> sim_inject \<Rightarrow> instant \<Rightarrow> f64 option \<Rightarrow>
     comms_loss_state option \<Rightarrow> resolved_pv_limit" where
  "pv_generation_limit sim plan schedule inject now tighten comms =
     resolve_pv_generation_limit plan
       (map_option cl_limit_kw (effective_capacity_limit schedule inject Export now now)) now tighten
       (si_pv_generation_limit_kw inject) (Option.bind comms (\<lambda>c. pv_ceiling_kw c sim))"

section \<open>EV overlays\<close>

record ev_settings =
  es_opportunistic_enabled :: bool
  es_paused_by_active_session :: bool

definition ev_settings_default :: ev_settings where
  "ev_settings_default = \<lparr>es_opportunistic_enabled = True, es_paused_by_active_session = False\<rparr>"

definition overlay_enabled :: "ev_settings \<Rightarrow> bool \<Rightarrow> bool" where
  "overlay_enabled s session_active \<longleftrightarrow> es_opportunistic_enabled s \<and> \<not> session_active"

definition overlay_enabled_of :: "bool hmap \<Rightarrow> string \<Rightarrow> bool" where
  "overlay_enabled_of m i = hm_or (overlay_enabled ev_settings_default False) (hm_get m i)"

definition overlay_enabled_at ::
  "ev_settings hmap \<Rightarrow> session_queue hmap \<Rightarrow> instant \<Rightarrow> bool hmap \<times> ev_session hmap" where
  "overlay_enabled_at settings queues now =
     (let sessions_now = List.map_filter (\<lambda>(i, q). map_option (Pair i) (queue_current q now)) queues;
          enabled = fold (\<lambda>i. hm_put i
             (overlay_enabled (hm_or ev_settings_default (hm_get settings i)) (hm_get sessions_now i \<noteq> None)))
             (map fst settings @ map fst sessions_now) []
      in (enabled, sessions_now))"

definition ev_overlays ::
  "sim_snapshot \<Rightarrow> plan_time_slot list option \<Rightarrow> instant \<Rightarrow> (string \<Rightarrow> bool) \<Rightarrow> ev_overlay hmap" where
  "ev_overlays sim plan now enabled =
     map (\<lambda>i. (i, \<lparr>ov_plan_allocates = (case plan of None \<Rightarrow> False | Some p \<Rightarrow> plan_allocates p now i),
                   ov_enabled = enabled i\<rparr>)) (lever_asset_ids [SurplusCharge] sim)"

section \<open>Release\<close>

definition carried_ids :: "sim_snapshot \<Rightarrow> string list" where
  "carried_ids sim = lever_asset_ids [Storage] sim @ lever_asset_ids [SurplusCharge] sim"

definition at_plan :: "setpoints \<Rightarrow> setpoints \<Rightarrow> sim_snapshot \<Rightarrow> setpoints" where
  "at_plan sp plan_sp sim =
     fold (\<lambda>i sp. case hm_get plan_sp i of None \<Rightarrow> sp | Some kw \<Rightarrow> hm_put i kw sp) (carried_ids sim) sp"

definition deviation_kw :: "plan_time_slot \<Rightarrow> f64 \<Rightarrow> f64 option \<Rightarrow> f64" where
  "deviation_kw slot net limit_target =
     (let planned = ps_net_import_kw slot - ps_net_export_kw slot;
          target = (case limit_target of None \<Rightarrow> planned | Some t \<Rightarrow> min planned t)
      in net - target)"

definition landed_kw :: "sim_snapshot \<Rightarrow> setpoints \<Rightarrow> string \<Rightarrow> f64" where
  "landed_kw sim sp i =
     (case hm_get sim i of None \<Rightarrow> 0 | Some a \<Rightarrow> power_when_command_lands a (current_setpoint sp sim i))"

definition deviation_without_correction ::
  "arbiter_tick \<Rightarrow> plan_time_slot \<Rightarrow> setpoints \<Rightarrow> setpoints \<Rightarrow> f64" where
  "deviation_without_correction tick slot sp plan_sp =
     (let live = hm_or (at_live tick) (at_live_released tick); sim = at_sim tick; carried = carried_ids sim;
          others = projected_net_except sim sp live carried;
          released = at_plan sp plan_sp sim;
          levers_at_plan = sum_list (map (landed_kw sim released) carried)
      in deviation_kw slot (others + levers_at_plan) (at_limit_target_kw tick))"

definition setpoint_shift :: "setpoints \<Rightarrow> string list \<Rightarrow> (string \<Rightarrow> f64) \<Rightarrow> f64 hmap" where
  "setpoint_shift after ids before =
     List.map_filter (\<lambda>i. case hm_get after i of None \<Rightarrow> None
       | Some v \<Rightarrow> if 1 / 10 ^ 9 < \<bar>v - before i\<bar> then Some (i, v - before i) else None) ids"

definition displaced_from_plan :: "setpoints \<Rightarrow> setpoints \<Rightarrow> sim_snapshot \<Rightarrow> f64 hmap" where
  "displaced_from_plan sp plan_sp sim =
     setpoint_shift sp (carried_ids sim) (\<lambda>i. hm_or 0 (hm_get plan_sp i))"

definition holding_lever :: "f64 hmap \<Rightarrow> sim_snapshot \<Rightarrow> string option" where
  "holding_lever displaced sim =
     Option.bind (List.find (\<lambda>i. hm_get displaced i \<noteq> None) (carried_ids sim)) (\<lambda>i.
       Option.bind (hm_get sim i) (\<lambda>a. map_option (\<lambda>l. key_of (lever_kind_of (al_kind l)) (Some i))
         (as_arbiter_lever a)))"

section \<open>The limit pass\<close>

definition limit_margin_kw :: f64 where "limit_margin_kw = 1 / 10"
definition limit_release_hysteresis_kw :: f64 where "limit_release_hysteresis_kw = 2 / 10"

definition switching_levers :: "string list" where
  "switching_levers = [kind_name LHeaterPause, kind_name LEv]"

definition limit_policy :: lever_policy where
  "limit_policy = \<lparr>lp_ev_overrides_plan = True, lp_battery_respects_objective = False,
     lp_admits = all_levers\<rparr>"

definition hard_import_limit :: "f64 option \<Rightarrow> bool \<Rightarrow> f64 option" where
  "hard_import_limit capacity alert = (if alert then Some 0 else capacity)"

definition limit_target :: "f64 option \<Rightarrow> string option \<Rightarrow> f64 option" where
  "limit_target hard incumbent =
     (let hysteresis = (case incumbent of None \<Rightarrow> 0
          | Some l \<Rightarrow> if kind_of_key l \<in> set switching_levers then limit_release_hysteresis_kw else 0)
      in map_option (\<lambda>kw. kw - limit_margin_kw - hysteresis) hard)"

record limit_outcome =
  lo_target_kw :: f64
  lo_excess_kw :: f64
  lo_unresolved_kw :: f64
  lo_active :: "string option"
  lo_emergency_mode :: "(bool \<times> bool) hmap"
  lo_adjusted :: "f64 hmap"
  lo_bridge :: "f64 hmap"

fun hold_evs :: "sim_snapshot \<Rightarrow> string list \<Rightarrow> f64 \<Rightarrow> string option \<Rightarrow> limit_outcome \<Rightarrow> setpoints \<Rightarrow>
    string option \<times> limit_outcome \<times> setpoints" where
  "hold_evs sim [] excess held out sp = (held, out, sp)"
| "hold_evs sim (i # ids) excess held out sp =
     (if excess < dead_band_kw then (held, out, sp)
      else (let before = current_setpoint sp sim i; (e, sp') = apply_ev_lever sim i excess sp in
        if 0 < le_landed_kw e
        then (let shift = current_setpoint sp' sim i - before in
          hold_evs sim ids (excess - le_landed_kw e) (Some (hm_or (key_of LEv (Some i)) held))
            (out\<lparr>lo_adjusted := hm_put i (hm_or 0 (hm_get (lo_adjusted out) i) + shift) (lo_adjusted out)\<rparr>) sp')
        else hold_evs sim ids excess held out sp'))"

definition hold_where_commands_land ::
  "arbiter_tick \<Rightarrow> limit_outcome option \<Rightarrow> setpoints \<Rightarrow> limit_outcome option \<times> setpoints" where
  "hold_where_commands_land tick outcome sp =
     (case outcome of
        None \<Rightarrow> (None, sp)
      | Some out \<Rightarrow>
          (let excess = projected_landed_net (at_sim tick) sp (at_live tick) - lo_target_kw out;
               (held, out', sp') = hold_evs (at_sim tick) (lever_asset_ids [SurplusCharge] (at_sim tick)) excess None out sp
           in case held of
                None \<Rightarrow> (Some out', sp')
              | Some l \<Rightarrow> (Some (out'\<lparr>lo_active := Some (hm_or l (lo_active out'))\<rparr>), sp')))"

definition enforce_import_limit ::
  "arbiter_tick \<Rightarrow> string option \<Rightarrow> setpoint_bounds \<Rightarrow> setpoints \<Rightarrow> (limit_outcome option \<times> setpoints) option" where
  "enforce_import_limit tick incumbent bounds sp =
     (case at_limit_target_kw tick of
        None \<Rightarrow> Some (None, sp)
      | Some target \<Rightarrow>
          (let excess = projected_net (at_sim tick) sp (at_live tick) - target;
               out = \<lparr>lo_target_kw = target, lo_excess_kw = excess, lo_unresolved_kw = 0, lo_active = None,
                      lo_emergency_mode = [], lo_adjusted = [], lo_bridge = []\<rparr>
           in if excess < dead_band_kw then Some (Some out, sp)
              else (case apply_ranked_levers limit_policy tick incumbent bounds excess sp of
                      None \<Rightarrow> None
                    | Some (ap, sp') \<Rightarrow>
                        Some (Some (out\<lparr>lo_unresolved_kw := ap_unresolved_kw ap, lo_active := ap_active ap,
                          lo_emergency_mode := ap_emergency_mode ap, lo_bridge := ap_bridge ap,
                          lo_adjusted := setpoint_shift sp' (map fst sp') (current_setpoint sp (at_sim tick))\<rparr>), sp'))))"

section \<open>The deviation pass\<close>

record waiting_asset =
  wa_asset_id :: string
  wa_start_by :: instant

record opportunistic_outcome =
  oo_site_kw :: f64
  oo_leading_asset :: "string option"
  oo_absorbing :: bool
  oo_unresolved_kw :: f64
  oo_waiting :: "waiting_asset list"

record arbiter_outcome =
  ao_setpoints :: setpoints
  ao_emergency_mode :: "(bool \<times> bool) hmap"
  ao_pv_tighten_kw :: "f64 option"
  ao_displaced :: "f64 hmap"
  ao_active :: "string option"
  ao_net_kw :: "f64 option"
  ao_dev_kw :: "f64 option"
  ao_dev_without_correction_kw :: "f64 option"
  ao_unresolved_kw :: f64
  ao_limit :: "limit_outcome option"
  ao_bridge :: "f64 hmap"
  ao_opportunistic :: "opportunistic_outcome option"

definition outcome_default :: arbiter_outcome where
  "outcome_default = \<lparr>ao_setpoints = [], ao_emergency_mode = [], ao_pv_tighten_kw = None, ao_displaced = [],
     ao_active = None, ao_net_kw = None, ao_dev_kw = None, ao_dev_without_correction_kw = None,
     ao_unresolved_kw = 0, ao_limit = None, ao_bridge = [], ao_opportunistic = None\<rparr>"

text \<open>The baseline the pass starts from: the carried levers at the command they last took.\<close>

definition carry_forward :: "arbiter_tick \<Rightarrow> setpoints \<Rightarrow> setpoints" where
  "carry_forward tick base =
     drop_last_bridge (at_prev_bridge tick)
       (fold (\<lambda>i sp. case hm_get (at_sim tick) i of None \<Rightarrow> sp | Some a \<Rightarrow> hm_put i (setpoint_or_power a) sp)
         (carried_ids (at_sim tick)) base)"

definition reconcile :: "arbiter_tick \<Rightarrow> setpoints \<Rightarrow> string option \<Rightarrow> arbiter_outcome option" where
  "reconcile tick base incumbent =
     (let sim = at_sim tick; sp = carry_forward tick base in
      case at_slot tick of
        None \<Rightarrow> Some (outcome_default\<lparr>ao_setpoints :=
            apply_ev_lever_opportunistic sim (at_live tick) (at_overlay tick) sp\<rparr>)
      | Some slot \<Rightarrow>
          (let net = projected_net sim sp (at_live tick);
               dev = deviation_kw slot net (at_limit_target_kw tick);
               without = deviation_without_correction tick slot sp base;
               quiet = outcome_default\<lparr>ao_net_kw := Some net, ao_dev_kw := Some dev,
                 ao_dev_without_correction_kw := Some without\<rparr>
           in if \<bar>without\<bar> < dead_band_kw then Some (quiet\<lparr>ao_setpoints := at_plan sp base sim\<rparr>)
              else if \<bar>dev\<bar> < dead_band_kw
              then (let displaced = displaced_from_plan sp base sim in
                Some (quiet\<lparr>ao_setpoints := sp, ao_displaced := displaced, ao_active := holding_lever displaced sim\<rparr>))
              else (case apply_ranked_levers deviation_policy tick incumbent [] dev sp of
                      None \<Rightarrow> None
                    | Some (ap, sp') \<Rightarrow>
                        (let displaced = displaced_from_plan sp' base sim in
                         Some (quiet\<lparr>ao_setpoints := sp', ao_emergency_mode := ap_emergency_mode ap,
                           ao_pv_tighten_kw := ap_pv_tighten_kw ap,
                           ao_active := (case ap_active ap of Some l \<Rightarrow> Some l | None \<Rightarrow> holding_lever displaced sim),
                           ao_displaced := displaced, ao_unresolved_kw := ap_unresolved_kw ap,
                           ao_bridge := ap_bridge ap\<rparr>)))))"

definition residual_kwh_by_asset :: "f64 \<Rightarrow> sim_snapshot \<Rightarrow> arbiter_outcome \<Rightarrow> f64 hmap" where
  "residual_kwh_by_asset dt_s sim o' =
     fold (\<lambda>(i, kw) acc.
         if (case hm_get sim i of None \<Rightarrow> False | Some a \<Rightarrow> has_state_of_charge a)
         then hm_put i (hm_or 0 (hm_get acc i) + energy_kwh \<bar>kw\<bar> (dt_h_from_s dt_s)) acc else acc)
       (ao_displaced o' @ (case ao_limit o' of None \<Rightarrow> [] | Some l \<Rightarrow> lo_adjusted l)) []"

section \<open>The dispatch override and the comms-loss clamp\<close>

record dispatch_window =
  dw_setpoint_kw :: f64
  dw_start :: instant
  dw_end :: instant
  dw_event_id :: string

record alert_window =
  aw_alert_type :: string
  aw_start :: instant
  aw_end :: instant
  aw_event_id :: string
  aw_message :: string

definition meet_dispatch_setpoint :: "arbiter_tick \<Rightarrow> f64 \<Rightarrow> setpoints \<Rightarrow> setpoints option" where
  "meet_dispatch_setpoint tick setpoint sp =
     map_option snd (apply_ranked_levers dispatch_policy tick None []
       (projected_net (at_sim tick) sp (at_live tick) - setpoint) sp)"

definition apply_dispatch_override ::
  "arbiter_tick \<Rightarrow> instant \<Rightarrow> dispatch_window list \<Rightarrow> alert_window list \<Rightarrow> setpoints \<Rightarrow> setpoints option" where
  "apply_dispatch_override tick now dispatch alerts sp =
     (if any_covering aw_start aw_end alerts now then Some sp
      else (case covering dw_start dw_end dispatch now of
              None \<Rightarrow> Some sp
            | Some w \<Rightarrow> meet_dispatch_setpoint tick (dw_setpoint_kw w) sp))"

definition comms_loss_bounds :: "sim_snapshot \<Rightarrow> comms_loss_state option \<Rightarrow> setpoint_bounds" where
  "comms_loss_bounds sim comms =
     (case comms of
        None \<Rightarrow> []
      | Some cl \<Rightarrow>
          if \<not> cm_active cl then []
          else List.map_filter (\<lambda>(i, a). map_option (\<lambda>l.
            (i, - (cm_max_power_pct cl * al_rated_export_kw l), cm_max_power_pct cl * al_rated_import_kw l))
            (as_arbiter_lever a)) sim)"

definition apply_comms_loss_clamp :: "sim_snapshot \<Rightarrow> comms_loss_state option \<Rightarrow> setpoints \<Rightarrow> setpoints option" where
  "apply_comms_loss_clamp sim comms sp =
     try_fold (\<lambda>(i, lo, hi) sp. case hm_get sp i of None \<Rightarrow> Some sp
       | Some v \<Rightarrow> map_option (\<lambda>c. hm_put i c sp) (clamp_checked lo hi v)) (comms_loss_bounds sim comms) sp"

record dispatch_stages =
  ds_dispatch_windows :: "dispatch_window list"
  ds_alert_windows :: "alert_window list"
  ds_comms_loss :: "comms_loss_state option"
  ds_limit_incumbent :: "string option"

definition apply_stages ::
  "arbiter_tick \<Rightarrow> instant \<Rightarrow> dispatch_stages \<Rightarrow> arbiter_outcome \<Rightarrow> arbiter_outcome option" where
  "apply_stages tick now st o' =
     Option.bind (apply_dispatch_override tick now (ds_dispatch_windows st) (ds_alert_windows st) (ao_setpoints o'))
      (\<lambda>sp1. Option.bind (apply_comms_loss_clamp (at_sim tick) (ds_comms_loss st) sp1)
      (\<lambda>sp2. Option.bind (enforce_import_limit
          (tick\<lparr>at_live := tighten_generation (at_live tick) (at_sim tick) (hm_or 0 (ao_pv_tighten_kw o'))\<rparr>)
          (ds_limit_incumbent st) (comms_loss_bounds (at_sim tick) (ds_comms_loss st)) sp2)
      (\<lambda>(lim, sp3).
        let (lim', sp4) = hold_where_commands_land tick lim sp3;
            modes = (case lim' of None \<Rightarrow> [] | Some l \<Rightarrow> lo_emergency_mode l)
        in Some (o'\<lparr>ao_setpoints := sp4, ao_limit := lim',
             ao_emergency_mode := fold (\<lambda>(i, m). hm_put i m) modes (ao_emergency_mode o')\<rparr>))))"

section \<open>Emergency modes and decisions\<close>

definition heater_emergency_modes ::
  "sim_inject \<Rightarrow> (bool \<times> bool) hmap \<Rightarrow> sim_snapshot \<Rightarrow> (bool option \<times> bool option) hmap" where
  "heater_emergency_modes inject arbiter_mode sim =
     (if si_heater_emergency_curtail inject \<noteq> None \<or> si_heater_emergency_absorb inject \<noteq> None
      then map (\<lambda>(i, _). (i, si_heater_emergency_curtail inject, si_heater_emergency_absorb inject))
        (filter (\<lambda>(_, a). as_emergency_what_ifs a \<noteq> None) sim)
      else map (\<lambda>(i, c, a). (i, Some c, Some a)) arbiter_mode)"

record arbiter_decision =
  ad_ts :: instant
  ad_pass :: string
  ad_active_lever :: "string option"
  ad_target_kw :: "f64 option"
  ad_excess_kw :: "f64 option"
  ad_unresolved_kw :: f64

definition decision_event ::
  "string \<Rightarrow> string option \<times> f64 \<Rightarrow> string option \<times> f64 \<Rightarrow> f64 option \<Rightarrow> f64 option \<Rightarrow> instant \<Rightarrow> arbiter_decision option" where
  "decision_event pass prev now target excess ts =
     (let unresolved = (\<lambda>kw. dead_band_kw < kw);
          changed = (fst prev \<noteq> fst now \<or> unresolved (snd prev) \<noteq> unresolved (snd now))
      in if changed then Some \<lparr>ad_ts = ts, ad_pass = pass, ad_active_lever = fst now, ad_target_kw = target,
           ad_excess_kw = excess, ad_unresolved_kw = snd now\<rparr> else None)"

end
