(* ===== verification/Arbiter_Facts.thy ===== *)
theory Arbiter_Facts
  imports Arbiter_Passes
begin

text \<open>
  What a pass of the arbiter achieves: the ranking, the accounting of the lever loop against the
  projected net power, the frame of the setpoints no lever names, and the bounds of the storage.
\<close>

section \<open>Ranking\<close>

lemma position_Some: "position P xs = Some i \<Longrightarrow> i < length xs \<and> P (xs ! i)"
  by (induction xs arbitrary: i) (auto split: if_splits)

lemma position_None: "position P xs = None \<longleftrightarrow> (\<forall>x \<in> set xs. \<not> P x)"
  by (induction xs) auto

lemma swap_to_head_mset: "i < length xs \<Longrightarrow> mset (swap_to_head i xs) = mset xs"
  unfolding swap_to_head_def by (rule mset_swap) auto

lemma swap_to_head_nth0: "i < length xs \<Longrightarrow> swap_to_head i xs ! 0 = xs ! i"
  unfolding swap_to_head_def by (cases xs; cases i) auto

lemma rank_levers_mset: "mset (rank_levers ls inc) = mset ls"
proof -
  have "mset (swap_to_head i (sort_key lv_cost ls)) = mset ls"
    if "position (\<lambda>l. lever_key l = k) (sort_key lv_cost ls) = Some i" for i k
    using swap_to_head_mset [of i "sort_key lv_cost ls"] position_Some [OF that] by simp
  then show ?thesis
    by (auto simp: rank_levers_def Let_def split: option.split list.split)
      (metis list.distinct(1) mset_sort mset_zero_iff)+
qed

lemma rank_levers_set: "set (rank_levers ls inc) = set ls"
  using rank_levers_mset by (metis set_mset_mset)

lemma rank_levers_cases:
  assumes "ls \<noteq> []"
  obtains "rank_levers ls inc = sort_key lv_cost ls"
      "\<forall>i. inc \<noteq> None \<and> lever_key (hd (sort_key lv_cost ls)) \<noteq> the inc \<and>
         position (\<lambda>l. lever_key l = the inc) (sort_key lv_cost ls) = Some i \<longrightarrow>
         lever_preemption_margin < lv_cost (sort_key lv_cost ls ! i) - lv_cost (hd (sort_key lv_cost ls))"
  | i key where "inc = Some key" "rank_levers ls inc = swap_to_head i (sort_key lv_cost ls)"
      "position (\<lambda>l. lever_key l = key) (sort_key lv_cost ls) = Some i"
      "lv_cost (sort_key lv_cost ls ! i) - lv_cost (hd (sort_key lv_cost ls)) \<le> lever_preemption_margin"
proof (cases inc)
  case None
  then show ?thesis using that(1) by (simp add: rank_levers_def Let_def)
next
  case (Some key)
  obtain c cs where s: "sort_key lv_cost ls = c # cs"
    using assms by (metis list.exhaust mset_sort mset_zero_iff)
  show ?thesis
  proof (cases "lever_key c \<noteq> key \<and> (\<exists>i. position (\<lambda>l. lever_key l = key) (c # cs) = Some i \<and>
      \<not> lever_preemption_margin < lv_cost ((c # cs) ! i) - lv_cost c)")
    case True
    then obtain i where "lever_key c \<noteq> key" "position (\<lambda>l. lever_key l = key) (c # cs) = Some i"
      "\<not> lever_preemption_margin < lv_cost ((c # cs) ! i) - lv_cost c" by blast
    then show ?thesis using that(2) [of key i] Some s by (simp add: rank_levers_def Let_def del: position.simps)
  next
    case False
    have "rank_levers ls inc = sort_key lv_cost ls"
      using False Some s
      by (auto simp: rank_levers_def Let_def simp del: position.simps split: option.split)
    then show ?thesis using that(1) False Some s by (auto simp del: position.simps)
  qed
qed

lemma sorted_head_least:
  assumes "ls \<noteq> []" and "l \<in> set ls"
  shows "lv_cost (hd (sort_key lv_cost ls)) \<le> lv_cost l"
proof -
  obtain c cs where s: "sort_key lv_cost ls = c # cs"
    using assms(1) by (metis list.exhaust mset_sort mset_zero_iff)
  have "sorted (map lv_cost (c # cs))" using sorted_sort_key [of lv_cost ls] by (simp add: s)
  moreover have "l \<in> set (c # cs)" using assms(2) by (metis s set_sort)
  ultimately show ?thesis by (auto simp: s)
qed

section \<open>The projected net power\<close>

lemma current_put: "current_setpoint (hm_put i v sp) sim j = (if j = i then v else current_setpoint sp sim j)"
  by (simp add: current_setpoint_def hm_simps)

lemma net_put:
  assumes wf: "hm_wf sim" and a: "hm_get sim i = Some a" and live: "hm_get live i = None"
  shows "projected_net sim (hm_put i v sp) live =
    projected_net sim sp live - power_drawn_for_setpoint a (current_setpoint sp sim i) + power_drawn_for_setpoint a v"
proof -
  let ?f = "asset_draw sp sim live" and ?g = "asset_draw (hm_put i v sp) sim live"
  from hm_get_mem [OF a] obtain xs ys where sim: "sim = xs @ (i, a) # ys" by (meson split_list)
  have "i \<notin> fst ` set (xs @ ys)" using wf by (auto simp: hm_wf_def sim)
  then have "?g x = ?f x" if "x \<in> set (xs @ ys)" for x
    using that by (cases x) (force simp: asset_draw_def current_put split: option.split)
  then have same: "map ?g xs = map ?f xs" "map ?g ys = map ?f ys" by simp_all
  have net: "projected_net sim sp' live = sum_list (map (asset_draw sp' sim live) xs) +
      asset_draw sp' sim live (i, a) + sum_list (map (asset_draw sp' sim live) ys)" for sp'
    unfolding projected_net_def projected_net_except_def by (simp add: sim case_prod_unfold)
  have here: "asset_draw sp' sim live (i, a) = power_drawn_for_setpoint a (current_setpoint sp' sim i)" for sp'
    by (simp add: asset_draw_def live)
  show ?thesis unfolding net same here by (simp add: current_put)
qed

section \<open>Monotone responses\<close>

lemma clamp_range_mono: "x \<le> y \<Longrightarrow> clamp_range lo hi x \<le> clamp_range lo hi y"
  by (auto simp: clamp_range_def)

lemma nearest_step_best: "x \<in> set steps \<Longrightarrow> \<bar>nearest_power_step steps sp - sp\<bar> \<le> \<bar>x - sp\<bar>"
  using nearest_from_best by (cases steps) auto

lemma nearest_step_mono:
  assumes "x \<le> y"
  shows "nearest_power_step steps x \<le> nearest_power_step steps y"
proof (cases "steps = [] \<or> x = y")
  case True
  then show ?thesis using assms by (cases steps) auto
next
  case False
  then have "nearest_power_step steps x \<in> set steps" "nearest_power_step steps y \<in> set steps"
    by (auto simp: nearest_step_mem)
  then have "\<bar>nearest_power_step steps x - x\<bar> \<le> \<bar>nearest_power_step steps y - x\<bar>"
    "\<bar>nearest_power_step steps y - y\<bar> \<le> \<bar>nearest_power_step steps x - y\<bar>"
    by (auto intro: nearest_step_best)
  with False assms show ?thesis by linarith
qed

lemma lands_mono:
  assumes ok: "response_ok r lo hi" and "x \<le> y"
  shows "lands r lo hi x \<le> lands r lo hi y"
proof -
  note c = clamp_range_mono [OF \<open>x \<le> y\<close>, of lo hi]
  show ?thesis
  proof (cases "sr_step_rule r")
    case Continuous
    with c show ?thesis by (auto simp: lands_def Let_def snapped_to_zero_def)
  next
    case Nearest
    with c show ?thesis by (simp add: lands_def Let_def nearest_step_mono)
  next
    case LatchOnFull
    then have ne: "sr_power_steps_kw r \<noteq> []" using ok by (simp add: response_ok_def)
    then have "hd (sr_power_steps_kw r) \<le> last (sr_power_steps_kw r)"
      using ok sorted_hd_last [of "sr_power_steps_kw r" "last (sr_power_steps_kw r)"] by (simp add: response_ok_def)
    with LatchOnFull ne c show ?thesis by (auto simp: lands_def Let_def step_range_simps)
  qed
qed

section \<open>The accounting of one lever\<close>

text \<open>
  What a lever's account rests on: a storage asset that follows its setpoint and whose command lies in
  its range, a charger or a load with a well-formed response. A staged load's stages differ by more than
  the code's comparison tolerance.
\<close>

definition storage_ready :: "asset_snapshot \<Rightarrow> (f64 \<times> f64) option \<Rightarrow> f64 \<Rightarrow> bool" where
  "storage_ready a bounds cur \<longleftrightarrow>
     as_response a = resp_continuous \<and> fst (storage_range a bounds) \<le> cur \<and> cur \<le> snd (storage_range a bounds) \<and>
     - \<bar>as_cap_max_export_kw a\<bar> \<le> fst (storage_range a bounds) \<and> snd (storage_range a bounds) \<le> as_cap_max_import_kw a"

definition charger_ready :: "asset_snapshot \<Rightarrow> f64 \<Rightarrow> bool" where
  "charger_ready a cur \<longleftrightarrow>
     response_ok (as_response a) (- \<bar>as_cap_max_export_kw a\<bar>) (as_cap_max_import_kw a) \<and> 0 \<le> cur"

definition load_ready :: "asset_snapshot \<Rightarrow> bool" where
  "load_ready a \<longleftrightarrow>
     response_ok (as_response a) (- \<bar>as_cap_max_export_kw a\<bar>) (as_cap_max_import_kw a) \<and>
     sr_step_rule (as_response a) = Nearest \<and> hd (sr_power_steps_kw (as_response a)) = 0 \<and>
     list_all (\<lambda>s. s = 0 \<or> 1 / 10 ^ 9 < s) (sr_power_steps_kw (as_response a))"

definition lever_ready ::
  "sim_snapshot \<Rightarrow> f64 hmap \<Rightarrow> setpoint_bounds \<Rightarrow> f64 \<Rightarrow> setpoints \<Rightarrow> lever \<Rightarrow> bool" where
  "lever_ready sim live bounds dev sp l \<longleftrightarrow>
     (\<exists>i a. lv_asset l = Some i \<and> hm_get sim i = Some a \<and> hm_get live i = None \<and>
        (lv_kind l = LBattery \<and> storage_ready a (hm_get bounds i) (current_setpoint sp sim i)
         \<or> lv_kind l = LEv \<and> charger_ready a (current_setpoint sp sim i)
         \<or> lv_kind l = LHeaterPause \<and> load_ready a \<and> 0 < dev \<and> lv_capacity_kw l = drawn_kw sp sim i))"

lemma draw_continuous:
  "as_response a = resp_continuous \<Longrightarrow> - \<bar>as_cap_max_export_kw a\<bar> \<le> x \<Longrightarrow> x \<le> as_cap_max_import_kw a \<Longrightarrow>
     power_drawn_for_setpoint a x = x"
  by (simp add: power_drawn_for_setpoint_def draws_def resp_continuous_def lands_def clamp_range_id snapped_to_zero_def)

lemma if_Some_cases:
  "(if A then Some (x, y) else if B then Some (x, y) else Some (u, v)) = Some (r, s) \<Longrightarrow>
     r = x \<and> s = y \<or> r = u \<and> s = v"
  by (simp split: if_splits)

lemma battery_account:
  assumes wf: "hm_wf sim" and a: "hm_get sim i = Some a" and live: "hm_get live i = None"
    and ready: "storage_ready a bnds (current_setpoint sp sim i)"
    and app: "apply_battery_lever sim i (if 0 < dev then x else - x) obj bnds sp = Some (kw, sp')" and x: "0 \<le> x"
  shows "projected_net sim sp' live = projected_net sim sp live - (if 0 < dev then kw else - kw) \<and> 0 \<le> kw \<and> kw \<le> x"
proof -
  define cur where "cur = current_setpoint sp sim i"
  define t where "t = (if 0 < dev then x else - x)"
  obtain lo hi where rng: "storage_range a bnds = (lo, hi)" by (metis prod.exhaust)
  from ready rng have r: "lo \<le> cur" "cur \<le> hi" "- \<bar>as_cap_max_export_kw a\<bar> \<le> lo" "hi \<le> as_cap_max_import_kw a"
    "as_response a = resp_continuous" by (auto simp: storage_ready_def cur_def)
  define c where "c = clamp_range lo hi (cur - t)"
  have c: "lo \<le> c" "c \<le> hi" using clamp_range_in [of lo hi] r by (auto simp: c_def)
  have "c - cur = - \<bar>c - cur\<bar> \<and> \<bar>c - cur\<bar> \<le> x" if "0 < dev"
    using r(1,2) x that unfolding c_def t_def clamp_range_def by simp
  moreover have "c - cur = \<bar>c - cur\<bar> \<and> \<bar>c - cur\<bar> \<le> x" if "\<not> 0 < dev"
    using r(1,2) x that unfolding c_def t_def clamp_range_def by simp
  ultimately have delta: "c - cur = (if 0 < dev then - \<bar>c - cur\<bar> else \<bar>c - cur\<bar>)" "\<bar>c - cur\<bar> \<le> x"
    by (meson)+
  have "apply_battery_lever sim i t obj bnds sp =
      (if obj = MaxRevenue \<and> 0 < t then Some (0, sp)
       else if \<bar>c - cur\<bar> < 1 / 10 ^ 6 then Some (0, sp) else Some (\<bar>c - cur\<bar>, hm_put i c sp))"
    unfolding apply_battery_lever_def a rng option.case prod.case Let_def clamp_checked_def c_def cur_def
    using order_trans [OF r(1,2)] by simp
  from if_Some_cases [OF trans [OF this [symmetric] app [folded t_def]]]
  consider "kw = 0" "sp' = sp" | "kw = \<bar>c - cur\<bar>" "sp' = hm_put i c sp" by blast
  then show ?thesis
  proof cases
    case 1
    then show ?thesis using x by simp
  next
    case 2
    have "power_drawn_for_setpoint a cur = cur" "power_drawn_for_setpoint a c = c"
      using r c by (auto intro: draw_continuous)
    then have "projected_net sim sp' live = projected_net sim sp live + (c - cur)"
      by (simp add: 2 net_put [OF wf a live] cur_def [symmetric])
    then show ?thesis using delta 2(1) by (cases "0 < dev") auto
  qed
qed

lemma drawn_landed_stable:
  assumes "response_ok (as_response a) (- \<bar>as_cap_max_export_kw a\<bar>) (as_cap_max_import_kw a)"
  shows "power_drawn_for_setpoint a (power_when_command_lands a y) = power_drawn_for_setpoint a y"
  using lands_range [OF assms]
  by (simp add: power_drawn_for_setpoint_def power_when_command_lands_def draws_def split: option.split)

lemma drawn_mono:
  assumes "response_ok (as_response a) (- \<bar>as_cap_max_export_kw a\<bar>) (as_cap_max_import_kw a)" and "x \<le> y"
  shows "power_drawn_for_setpoint a x \<le> power_drawn_for_setpoint a y"
  using lands_mono [OF assms] by (simp add: power_drawn_for_setpoint_def draws_def split: option.split)

lemma ev_account:
  assumes wf: "hm_wf sim" and a: "hm_get sim i = Some a" and live: "hm_get live i = None"
    and ready: "charger_ready a (current_setpoint sp sim i)" and x: "0 \<le> x"
    and app: "apply_ev_lever sim i (if 0 < dev then x else - x) sp = (e, sp')"
  shows "projected_net sim sp' live = projected_net sim sp live - (if 0 < dev then le_now_kw e else - le_now_kw e) \<and>
    0 \<le> le_now_kw e"
proof -
  let ?cur = "current_setpoint sp sim i" and ?s = "if 0 < dev then x else - x"
  let ?new = "power_when_command_lands a (max (?cur - ?s) 0)" and ?d = "power_drawn_for_setpoint a"
  from ready have ok: "response_ok (as_response a) (- \<bar>as_cap_max_export_kw a\<bar>) (as_cap_max_import_kw a)"
    and cur: "0 \<le> ?cur" by (auto simp: charger_ready_def)
  have drawn: "?d ?new = ?d (max (?cur - ?s) 0)" by (rule drawn_landed_stable [OF ok])
  have "?d ?new \<le> ?d ?cur" if "0 < dev"
    unfolding drawn using that x cur by (intro drawn_mono [OF ok]) simp
  moreover have "?d ?cur \<le> ?d ?new" if "\<not> 0 < dev"
    unfolding drawn using that x by (intro drawn_mono [OF ok]) simp
  moreover have e: "le_now_kw e = \<bar>?d ?cur - ?d ?new\<bar>" "sp' = hm_put i ?new sp"
    using app a cur by (auto simp: apply_ev_lever_def Let_def max_def)
  ultimately show ?thesis by (simp add: net_put [OF wf a live])
qed

lemma heater_account:
  assumes wf: "hm_wf sim" and a: "hm_get sim i = Some a" and live: "hm_get live i = None"
    and ready: "load_ready a" and x: "0 < x" "x = drawn_kw sp sim i \<or> dead_band_kw \<le> x" "x \<le> drawn_kw sp sim i"
    and app: "apply_heater_pause_lever sim i x sp = (kw, sp')"
  shows "projected_net sim sp' live = projected_net sim sp live - kw \<and> 0 \<le> kw"
proof -
  let ?r = "as_response a" and ?lo = "- \<bar>as_cap_max_export_kw a\<bar>" and ?hi = "as_cap_max_import_kw a"
  let ?cur = "current_setpoint sp sim i" and ?d = "power_drawn_for_setpoint a" and ?drawn = "drawn_kw sp sim i"
  let ?new = "setpoint_for_power_at_or_below a (max (?drawn - x) 0)"
  have ok: "response_ok ?r ?lo ?hi" and near: "sr_step_rule ?r = Nearest"
    and steps: "sr_power_steps_kw ?r \<noteq> []" "hd (sr_power_steps_kw ?r) = 0"
      "\<And>s. s \<in> set (sr_power_steps_kw ?r) \<Longrightarrow> s = 0 \<or> 1 / 10 ^ 9 < s"
    using ready by (auto simp: load_ready_def response_ok_def list_all_iff)
  have drawn: "?drawn = ?d ?cur" using a by (simp add: drawn_kw_def)
  have res: "kw = ?drawn - ?d ?new" "sp' = hm_put i ?new sp"
    using app a by (auto simp: apply_heater_pause_lever_def Let_def)
  have "?d ?new \<le> ?drawn"
  proof (cases "sr_power_next_tick_kw ?r")
    case (Some kw)
    then show ?thesis by (simp add: drawn power_drawn_for_setpoint_def draws_def)
  next
    case None
    let ?k = "clamp_range ?lo ?hi (max (?drawn - x) 0)"
    have in_steps: "?new \<in> set (sr_power_steps_kw ?r)"
      using highest_step_mem [OF steps(1)] near
      by (simp add: setpoint_for_power_at_or_below_def setpoint_at_or_below_def)
    then have "?lo \<le> ?new" "?new \<le> ?hi" using ok by (auto simp: response_ok_def)
    then have new: "?d ?new = ?new"
      using None near in_steps
      by (simp add: power_drawn_for_setpoint_def draws_def lands_def clamp_range_id nearest_step_exact)
    have k: "?k \<le> max (?drawn - x) 0" using ok by (auto simp: clamp_range_def response_ok_def)
    have "?new \<le> ?k + 1 / 10 ^ 9 \<or> ?new = 0"
      using highest_step_le [of "sr_power_steps_kw ?r" ?k] ok steps near
      by (simp add: setpoint_for_power_at_or_below_def setpoint_at_or_below_def response_ok_def)
    with steps(3) [OF in_steps] k x show ?thesis unfolding new dead_band_kw_def by auto
  qed
  then show ?thesis using res by (simp add: net_put [OF wf a live] drawn)
qed

section \<open>The accounting of a pass\<close>

lemma apply_frame:
  assumes "apply_lever tick obj bounds dev l x p = Some (k, q)" and "lv_asset l \<noteq> Some j"
  shows "current_setpoint (pa_setpoints q) sim j = current_setpoint (pa_setpoints p) sim j"
proof (cases "lv_asset l")
  case None
  with assms(1) show ?thesis by (cases "lv_kind l") (auto simp: apply_lever_def)
next
  case (Some i)
  with assms(2) have "i \<noteq> j" by simp
  with assms(1) Some show ?thesis
    by (cases "lv_kind l")
      (auto simp: apply_lever_def Let_def current_put apply_battery_lever_def apply_ev_lever_def
        apply_heater_pause_lever_def split: option.splits prod.splits if_splits)
qed

lemma apply_account:
  assumes wf: "hm_wf (at_sim tick)"
    and ready: "lever_ready (at_sim tick) (at_live tick) bounds dev (pa_setpoints p) l"
    and x: "0 < x" "x = lv_capacity_kw l \<or> dead_band_kw \<le> x" "x \<le> lv_capacity_kw l"
    and app: "apply_lever tick obj bounds dev l x p = Some (k, q)"
  shows "projected_net (at_sim tick) (pa_setpoints q) (at_live tick) =
      projected_net (at_sim tick) (pa_setpoints p) (at_live tick) - (if 0 < dev then k else - k) \<and>
    0 \<le> k \<and> pa_remaining_kw q = pa_remaining_kw p"
proof -
  from ready obtain i a where i: "lv_asset l = Some i" "hm_get (at_sim tick) i = Some a" "hm_get (at_live tick) i = None"
    and kinds: "lv_kind l = LBattery \<and> storage_ready a (hm_get bounds i) (current_setpoint (pa_setpoints p) (at_sim tick) i)
      \<or> lv_kind l = LEv \<and> charger_ready a (current_setpoint (pa_setpoints p) (at_sim tick) i)
      \<or> lv_kind l = LHeaterPause \<and> load_ready a \<and> 0 < dev \<and> lv_capacity_kw l = drawn_kw (pa_setpoints p) (at_sim tick) i"
    unfolding lever_ready_def by blast
  consider (battery) "lv_kind l = LBattery" "storage_ready a (hm_get bounds i) (current_setpoint (pa_setpoints p) (at_sim tick) i)"
    | (ev) "lv_kind l = LEv" "charger_ready a (current_setpoint (pa_setpoints p) (at_sim tick) i)"
    | (heater) "lv_kind l = LHeaterPause" "load_ready a" "0 < dev" "lv_capacity_kw l = drawn_kw (pa_setpoints p) (at_sim tick) i"
    using kinds by blast
  then show ?thesis
  proof cases
    case battery
    obtain kw sp b where r: "apply_battery_lever (at_sim tick) i (if 0 < dev then x else - x) obj (hm_get bounds i)
        (pa_setpoints p) = Some (kw, sp)" and moved: "battery_moved i kw dev (pa_bridge p) = (k, b)"
      and q: "q = p\<lparr>pa_setpoints := sp, pa_bridge := b\<rparr>"
      using app battery(1) i(1) by (auto simp: apply_lever_def Let_def split: option.splits prod.splits)
    have "k = kw" using moved by (auto simp: battery_moved_def Let_def split: if_splits)
    with battery_account [OF wf i(2,3) battery(2) r] x(1) show ?thesis by (simp add: q)
  next
    case ev
    obtain e sp b where r: "apply_ev_lever (at_sim tick) i (if 0 < dev then x else - x) (pa_setpoints p) = (e, sp)"
      and k: "k = le_now_kw e" and q: "q = p\<lparr>pa_setpoints := sp, pa_bridge := b\<rparr>"
      using app ev(1) i(1) by (auto simp: apply_lever_def ev_moved_def Let_def split: prod.splits)
    from ev_account [OF wf i(2,3) ev(2) _ r] x(1) show ?thesis by (simp add: q k)
  next
    case heater
    obtain sp where r: "apply_heater_pause_lever (at_sim tick) i x (pa_setpoints p) = (k, sp)"
      and q: "q = p\<lparr>pa_setpoints := sp\<rparr>"
      using app heater(1,3) i(1) by (auto simp: apply_lever_def Let_def split: prod.splits)
    from heater_account [OF wf i(2,3) heater(2) _ _ _ r] x heater(3,4) show ?thesis by (simp add: q)
  qed
qed

lemma ready_frame:
  assumes "lever_ready sim live bounds dev sp l"
    and "\<And>i. lv_asset l = Some i \<Longrightarrow> current_setpoint sp' sim i = current_setpoint sp sim i"
  shows "lever_ready sim live bounds dev sp' l"
  using assms unfolding lever_ready_def drawn_kw_def by (auto split: option.splits)

lemma run_Cons_cases:
  assumes "run_levers tick obj bounds dev (l # ls) p = Some q"
  obtains (stop) "pa_remaining_kw p < dead_band_kw" "q = p"
  | (skip) "\<not> pa_remaining_kw p < dead_band_kw" "min (pa_remaining_kw p) (lv_capacity_kw l) \<le> 0"
      "run_levers tick obj bounds dev ls p = Some q"
  | (step) k r where "\<not> pa_remaining_kw p < dead_band_kw" "\<not> min (pa_remaining_kw p) (lv_capacity_kw l) \<le> 0"
      "apply_lever tick obj bounds dev l (min (pa_remaining_kw p) (lv_capacity_kw l)) p = Some (k, r)"
      "run_levers tick obj bounds dev ls (account l k r) = Some q"
proof -
  consider "pa_remaining_kw p < dead_band_kw"
    | "\<not> pa_remaining_kw p < dead_band_kw" "min (pa_remaining_kw p) (lv_capacity_kw l) \<le> 0"
    | "\<not> pa_remaining_kw p < dead_band_kw" "\<not> min (pa_remaining_kw p) (lv_capacity_kw l) \<le> 0" by blast
  then show ?thesis
  proof cases
    case 1
    with assms show ?thesis by (intro stop) simp_all
  next
    case 2
    with assms show ?thesis by (intro skip) (simp_all add: Let_def)
  next
    case 3
    with assms show ?thesis
      by (cases "apply_lever tick obj bounds dev l (min (pa_remaining_kw p) (lv_capacity_kw l)) p")
        (auto simp: Let_def simp del: not_le intro: step)
  qed
qed

lemma run_account:
  assumes wf: "hm_wf (at_sim tick)"
    and "distinct (map lv_asset ls)"
    and "\<forall>l \<in> set ls. lever_ready (at_sim tick) (at_live tick) bounds dev (pa_setpoints p) l"
    and "run_levers tick obj bounds dev ls p = Some q"
  shows "projected_net (at_sim tick) (pa_setpoints q) (at_live tick) =
    projected_net (at_sim tick) (pa_setpoints p) (at_live tick)
      - (if 0 < dev then pa_remaining_kw p - pa_remaining_kw q else pa_remaining_kw q - pa_remaining_kw p)"
  using assms(2-4)
proof (induction ls arbitrary: p)
  case Nil
  then show ?case by simp
next
  case (Cons l ls)
  let ?x = "min (pa_remaining_kw p) (lv_capacity_kw l)"
  consider "pa_remaining_kw p < dead_band_kw" | "\<not> pa_remaining_kw p < dead_band_kw" "?x \<le> 0"
    | "\<not> pa_remaining_kw p < dead_band_kw" "0 < ?x" by linarith
  then show ?case
  proof cases
    case 1
    with Cons.prems show ?thesis by simp
  next
    case 2
    with Cons.prems have run: "run_levers tick obj bounds dev ls p = Some q" by (simp add: Let_def)
    show ?thesis by (rule Cons.IH [OF _ _ run]) (use Cons.prems in auto)
  next
    case 3
    obtain k r where app: "apply_lever tick obj bounds dev l ?x p = Some (k, r)"
      and run: "run_levers tick obj bounds dev ls (account l k r) = Some q"
      using Cons.prems(3) 3 by (auto simp: Let_def split: option.splits)
    have "dead_band_kw \<le> ?x \<or> ?x = lv_capacity_kw l" using 3 by (auto simp: min_def)
    then have acc: "projected_net (at_sim tick) (pa_setpoints r) (at_live tick) =
        projected_net (at_sim tick) (pa_setpoints p) (at_live tick) - (if 0 < dev then k else - k)"
      "0 \<le> k" "pa_remaining_kw r = pa_remaining_kw p"
      using apply_account [OF wf _ 3(2) _ _ app] Cons.prems(2) by auto
    have same: "pa_setpoints (account l k r) = pa_setpoints r" by (simp add: account_def)
    have rem: "pa_remaining_kw (account l k r) = pa_remaining_kw p - k" using acc(2,3) by (simp add: account_def)
    have ready: "\<forall>m \<in> set ls. lever_ready (at_sim tick) (at_live tick) bounds dev (pa_setpoints (account l k r)) m"
    proof
      fix m assume m: "m \<in> set ls"
      show "lever_ready (at_sim tick) (at_live tick) bounds dev (pa_setpoints (account l k r)) m"
        unfolding same
      proof (rule ready_frame)
        show "lever_ready (at_sim tick) (at_live tick) bounds dev (pa_setpoints p) m" using Cons.prems(2) m by simp
        fix i assume "lv_asset m = Some i"
        then have "lv_asset l \<noteq> Some i" using Cons.prems(1) m by (metis distinct.simps(2) image_eqI list.set_map list.simps(9))
        then show "current_setpoint (pa_setpoints r) (at_sim tick) i = current_setpoint (pa_setpoints p) (at_sim tick) i"
          by (rule apply_frame [OF app])
      qed
    qed
    have "distinct (map lv_asset ls)" using Cons.prems(1) by simp
    from Cons.IH [OF this ready run] show ?thesis
      unfolding same rem acc(1) by (simp add: algebra_simps split: if_splits)
  qed
qed

section \<open>The levers on offer\<close>

definition asset_ready :: "f64 hmap \<Rightarrow> setpoint_bounds \<Rightarrow> setpoints \<Rightarrow> sim_snapshot \<Rightarrow> string \<times> asset_snapshot \<Rightarrow> bool" where
  "asset_ready live bounds sp sim = (\<lambda>(i, a).
     case as_arbiter_lever a of None \<Rightarrow> True
     | Some l \<Rightarrow> hm_get live i = None \<and>
         (case al_kind l of
            Storage \<Rightarrow> storage_ready a (hm_get bounds i) (current_setpoint sp sim i)
          | SurplusCharge \<Rightarrow> charger_ready a (current_setpoint sp sim i)
          | PausableLoad \<Rightarrow> load_ready a))"

definition site_ready :: "arbiter_tick \<Rightarrow> setpoint_bounds \<Rightarrow> setpoints \<Rightarrow> bool" where
  "site_ready tick bounds sp \<longleftrightarrow>
     hm_wf (at_sim tick) \<and> list_all (asset_ready (at_live tick) bounds sp (at_sim tick)) (at_sim tick)"

lemma site_ready_asset:
  assumes "site_ready tick bounds sp" and "i \<in> set (lever_asset_ids [k] (at_sim tick))"
  shows "\<exists>a. hm_get (at_sim tick) i = Some a \<and> hm_get (at_live tick) i = None \<and>
    (case k of Storage \<Rightarrow> storage_ready a (hm_get bounds i) (current_setpoint sp (at_sim tick) i)
     | SurplusCharge \<Rightarrow> charger_ready a (current_setpoint sp (at_sim tick) i)
     | PausableLoad \<Rightarrow> load_ready a)"
proof -
  from assms(2) obtain a l where a: "(i, a) \<in> set (at_sim tick)" "as_arbiter_lever a = Some l" "al_kind l = k"
    by (auto simp: lever_asset_ids_mem)
  then have "hm_get (at_sim tick) i = Some a" using assms(1) by (simp add: site_ready_def hm_get_wf)
  moreover have "asset_ready (at_live tick) bounds sp (at_sim tick) (i, a)"
    using assms(1) a(1) by (auto simp: site_ready_def list_all_iff)
  ultimately show ?thesis using a by (auto simp: asset_ready_def)
qed

lemma lever_ids_disjoint:
  assumes "hm_wf sim" and "j \<noteq> k"
  shows "set (lever_asset_ids [j] sim) \<inter> set (lever_asset_ids [k] sim) = {}"
proof -
  have False if "i \<in> set (lever_asset_ids [j] sim)" "i \<in> set (lever_asset_ids [k] sim)" for i
  proof -
    from that obtain a b l m where "(i, a) \<in> set sim" "(i, b) \<in> set sim" "as_arbiter_lever a = Some l"
      "as_arbiter_lever b = Some m" "al_kind l = j" "al_kind m = k" by (auto simp: lever_asset_ids_mem)
    moreover from this have "a = b" by (metis hm_get_wf assms(1) option.inject)
    ultimately show False using assms(2) by simp
  qed
  then show ?thesis by blast
qed

lemma battery_lever_D: "battery_lever sp sim i slot dev b = Some l \<Longrightarrow> lv_kind l = LBattery \<and> lv_asset l = Some i"
  by (auto simp: battery_lever_def Let_def split: option.splits prod.splits if_splits)

lemma ev_lever_D: "ev_lever sp sim i dev ov = Some l \<Longrightarrow> lv_kind l = LEv \<and> lv_asset l = Some i"
  by (auto simp: ev_lever_def Let_def split: option.splits if_splits)

lemma pause_lever_D: "heater_pause_lever sp sim i dev = Some l \<Longrightarrow>
    lv_kind l = LHeaterPause \<and> lv_asset l = Some i \<and> lv_capacity_kw l = drawn_kw sp sim i \<and> 0 \<le> dev"
  by (auto simp: heater_pause_lever_def Let_def split: option.splits if_splits)

lemma emergency_lever_D: "heater_emergency_lever sim i slot dev inc alert = Some l \<Longrightarrow>
    lv_kind l = LHeaterEmergency \<and> lv_asset l = Some i \<and> (0 < dev \<longrightarrow> alert)"
  by (auto simp: heater_emergency_lever_def Let_def split: option.splits if_splits)

lemma pv_lever_D: "pv_curtailment_lever slot dev = Some l \<Longrightarrow> lv_kind l = LPvCurtail \<and> lv_asset l = None \<and> dev < 0"
  by (auto simp: pv_curtailment_lever_def split: option.splits if_splits)

text \<open>Without an alert, import is shed by setpoint levers alone; storage alone meets a dispatch window.\<close>

definition setpoint_levers :: "setpoints \<Rightarrow> lever_policy \<Rightarrow> arbiter_tick \<Rightarrow> setpoint_bounds \<Rightarrow> f64 \<Rightarrow> lever list" where
  "setpoint_levers sp policy tick bounds dev =
     filter (\<lambda>l. lv_kind l \<in> set (lp_admits policy))
       (List.map_filter (\<lambda>i. battery_lever sp (at_sim tick) i (at_slot tick) dev (hm_get bounds i)) (declaring (at_sim tick) Storage)
        @ List.map_filter (\<lambda>i. ev_lever sp (at_sim tick) i dev (overlay_of policy tick i)) (declaring (at_sim tick) SurplusCharge)
        @ List.map_filter (\<lambda>i. heater_pause_lever sp (at_sim tick) i dev) (declaring (at_sim tick) PausableLoad))"

lemma map_filter_none: "(\<And>x. x \<in> set xs \<Longrightarrow> f x = None) \<Longrightarrow> List.map_filter f xs = []"
  by (induction xs) (auto simp: map_filter_Cons List.map_filter_def)

lemma candidates_setpoint:
  assumes "0 < dev \<and> \<not> at_alert tick \<or> lp_admits policy = [LBattery]"
  shows "lever_candidates sp policy tick inc bounds dev = setpoint_levers sp policy tick bounds dev"
proof -
  have em: "filter (\<lambda>l. lv_kind l \<in> set (lp_admits policy))
      (List.map_filter (\<lambda>i. heater_emergency_lever (at_sim tick) i (at_slot tick) dev
         (inc = Some (key_of LHeaterEmergency (Some i))) (at_alert tick)) (emergency_ids (at_sim tick))) = []"
    using assms by (auto simp: filter_empty_conv map_filter_mem dest!: emergency_lever_D)
  have pv: "filter (\<lambda>l. lv_kind l \<in> set (lp_admits policy))
      (case pv_curtailment_lever (at_slot tick) dev of None \<Rightarrow> [] | Some l \<Rightarrow> [l]) = []"
    using assms by (auto split: option.split dest!: pv_lever_D)
  show ?thesis unfolding lever_candidates_def setpoint_levers_def Let_def filter_append em pv by simp
qed

lemma assets_map_filter:
  assumes "\<And>i l. f i = Some l \<Longrightarrow> lv_asset l = Some i"
  shows "map lv_asset (List.map_filter f ids) = map Some (filter (\<lambda>i. f i \<noteq> None) ids)"
  using assms by (induction ids) (auto simp: map_filter_Cons List.map_filter_def)

lemma setpoint_levers_distinct:
  assumes wf: "hm_wf (at_sim tick)"
  shows "distinct (map lv_asset (setpoint_levers sp policy tick bounds dev))"
proof -
  note dis = lever_ids_disjoint [OF wf]
  have "distinct (map lv_asset
     (List.map_filter (\<lambda>i. battery_lever sp (at_sim tick) i (at_slot tick) dev (hm_get bounds i)) (declaring (at_sim tick) Storage)
        @ List.map_filter (\<lambda>i. ev_lever sp (at_sim tick) i dev (overlay_of policy tick i)) (declaring (at_sim tick) SurplusCharge)
        @ List.map_filter (\<lambda>i. heater_pause_lever sp (at_sim tick) i dev) (declaring (at_sim tick) PausableLoad)))"
    unfolding map_append
    apply (subst assets_map_filter, drule battery_lever_D, simp)
    apply (subst assets_map_filter, drule ev_lever_D, simp)
    apply (subst assets_map_filter, drule pause_lever_D, simp)
    using dis [of Storage SurplusCharge] dis [of Storage PausableLoad] dis [of SurplusCharge PausableLoad]
    by (auto simp: distinct_map declaring_def lever_asset_ids_distinct [OF wf])
  then show ?thesis unfolding setpoint_levers_def by (rule distinct_map_filter)
qed

lemma setpoint_levers_ready:
  assumes site: "site_ready tick bounds sp" and l: "l \<in> set (setpoint_levers sp policy tick bounds dev)"
    and dev: "0 < dev \<or> lp_admits policy = [LBattery]"
  shows "lever_ready (at_sim tick) (at_live tick) bounds dev sp l"
proof -
  from l consider (b) i where "i \<in> set (lever_asset_ids [Storage] (at_sim tick))" "lv_kind l = LBattery" "lv_asset l = Some i"
    | (e) i where "i \<in> set (lever_asset_ids [SurplusCharge] (at_sim tick))" "lv_kind l = LEv" "lv_asset l = Some i"
    | (h) i where "i \<in> set (lever_asset_ids [PausableLoad] (at_sim tick))" "lv_kind l = LHeaterPause" "lv_asset l = Some i"
        "lv_capacity_kw l = drawn_kw sp (at_sim tick) i" "lv_kind l \<in> set (lp_admits policy)"
    by (auto simp: setpoint_levers_def declaring_def map_filter_mem dest: battery_lever_D ev_lever_D pause_lever_D)
  then show ?thesis
  proof cases
    case b
    with site_ready_asset [OF site b(1)] show ?thesis by (auto simp: lever_ready_def)
  next
    case e
    with site_ready_asset [OF site e(1)] show ?thesis by (auto simp: lever_ready_def)
  next
    case h
    with site_ready_asset [OF site h(1)] dev show ?thesis by (auto simp: lever_ready_def)
  qed
qed

text \<open>The projection after a pass of setpoint levers: the deviation less what stayed unresolved.\<close>

lemma pass_account:
  assumes site: "site_ready tick bounds sp"
    and dev: "0 < dev \<and> \<not> at_alert tick \<or> lp_admits policy = [LBattery]"
    and run: "apply_ranked_levers policy tick inc bounds dev sp = Some (ap, sp')"
  shows "\<exists>rem. projected_net (at_sim tick) sp' (at_live tick) =
      projected_net (at_sim tick) sp (at_live tick) - (if 0 < dev then \<bar>dev\<bar> - rem else rem - \<bar>dev\<bar>) \<and>
    ap_unresolved_kw ap = max rem 0"
proof -
  let ?ls = "rank_levers (setpoint_levers sp policy tick bounds dev) inc"
  from run obtain q where q: "run_levers tick (storage_objective policy tick) bounds dev ?ls (pass_start sp dev) = Some q"
    and ap: "ap_unresolved_kw ap = max (pa_remaining_kw q) 0" and sp': "sp' = pa_setpoints q"
    unfolding apply_ranked_levers_def candidates_setpoint [OF dev] by (auto split: option.splits)
  have wf: "hm_wf (at_sim tick)" using site by (simp add: site_ready_def)
  have "mset (map lv_asset ?ls) = mset (map lv_asset (setpoint_levers sp policy tick bounds dev))"
    by (simp add: rank_levers_mset)
  then have "distinct (map lv_asset ?ls)"
    using setpoint_levers_distinct [OF wf] mset_eq_imp_distinct_iff by blast
  moreover have "\<forall>l \<in> set ?ls. lever_ready (at_sim tick) (at_live tick) bounds dev (pa_setpoints (pass_start sp dev)) l"
    using setpoint_levers_ready [OF site] dev by (auto simp: rank_levers_set pass_start_def)
  ultimately show ?thesis
    using run_account [OF wf _ _ q] by (intro exI [of _ "pa_remaining_kw q"]) (simp add: ap sp' pass_start_def)
qed

section \<open>A pass returns\<close>

definition uncrossed :: "sim_snapshot \<Rightarrow> setpoint_bounds \<Rightarrow> lever \<Rightarrow> bool" where
  "uncrossed sim bounds l \<longleftrightarrow>
     (case lv_asset l of None \<Rightarrow> True | Some i \<Rightarrow>
        (case hm_get sim i of None \<Rightarrow> True | Some a \<Rightarrow>
           fst (storage_range a (hm_get bounds i)) \<le> snd (storage_range a (hm_get bounds i))))"

lemma apply_total:
  assumes "lv_kind l = LBattery \<longrightarrow> uncrossed (at_sim tick) bounds l"
  shows "\<exists>k q. apply_lever tick obj bounds dev l x p = Some (k, q)"
  using assms
  by (cases "lv_kind l"; cases "lv_asset l")
    (auto simp: apply_lever_def Let_def uncrossed_def apply_battery_lever_def clamp_checked_def
      split: option.splits prod.splits)

lemma run_total:
  assumes "\<forall>l \<in> set ls. lv_kind l = LBattery \<longrightarrow> uncrossed (at_sim tick) bounds l"
  shows "\<exists>q. run_levers tick obj bounds dev ls p = Some q"
  using assms
proof (induction ls arbitrary: p)
  case (Cons l ls)
  then obtain k q where "apply_lever tick obj bounds dev l (min (pa_remaining_kw p) (lv_capacity_kw l)) p = Some (k, q)"
    using apply_total by (metis list.set_intros(1))
  with Cons show ?case by (auto simp: Let_def)
qed simp

lemma ready_uncrossed:
  "lever_ready sim live bounds dev sp l \<Longrightarrow> lv_kind l = LBattery \<Longrightarrow> uncrossed sim bounds l"
  by (auto simp: lever_ready_def uncrossed_def storage_ready_def)

lemma pass_total:
  assumes site: "site_ready tick bounds sp"
    and dev: "0 < dev \<and> \<not> at_alert tick \<or> lp_admits policy = [LBattery]"
  shows "\<exists>ap sp'. apply_ranked_levers policy tick inc bounds dev sp = Some (ap, sp')"
proof -
  have "0 < dev \<or> lp_admits policy = [LBattery]" using dev by blast
  then have "\<forall>l \<in> set (rank_levers (setpoint_levers sp policy tick bounds dev) inc).
      lv_kind l = LBattery \<longrightarrow> uncrossed (at_sim tick) bounds l"
    unfolding rank_levers_set using setpoint_levers_ready [OF site] ready_uncrossed by blast
  from run_total [OF this] show ?thesis
    unfolding apply_ranked_levers_def candidates_setpoint [OF dev]
    by (metis (no_types, lifting) option.case(2))
qed

section \<open>A pass of storage alone\<close>

definition storage_limit :: "sim_snapshot \<Rightarrow> setpoint_bounds \<Rightarrow> f64 \<Rightarrow> string \<Rightarrow> f64" where
  "storage_limit sim bounds dev i =
     (case hm_get sim i of None \<Rightarrow> 0 | Some a \<Rightarrow>
        (if 0 < dev then fst (storage_range a (hm_get bounds i)) else snd (storage_range a (hm_get bounds i))))"

definition storage_lever_ready ::
  "sim_snapshot \<Rightarrow> f64 hmap \<Rightarrow> setpoint_bounds \<Rightarrow> f64 \<Rightarrow> setpoints \<Rightarrow> lever \<Rightarrow> bool" where
  "storage_lever_ready sim live bounds dev sp l \<longleftrightarrow>
     (\<exists>i a. lv_kind l = LBattery \<and> lv_asset l = Some i \<and> hm_get sim i = Some a \<and> hm_get live i = None \<and>
        storage_ready a (hm_get bounds i) (current_setpoint sp sim i) \<and>
        lv_capacity_kw l = \<bar>current_setpoint sp sim i - storage_limit sim bounds dev i\<bar>)"

lemma storage_step:
  assumes ready: "storage_lever_ready (at_sim tick) (at_live tick) bounds dev (pa_setpoints p) l"
    and i: "lv_asset l = Some i" and obj: "obj \<noteq> MaxRevenue"
    and x: "0 < x" "x = min (pa_remaining_kw p) (lv_capacity_kw l)" "dead_band_kw \<le> pa_remaining_kw p"
    and app: "apply_lever tick obj bounds dev l x p = Some (k, q)"
  shows "0 \<le> k \<and> k \<le> x \<and> pa_remaining_kw q = pa_remaining_kw p \<and>
    (k < pa_remaining_kw p \<longrightarrow>
       \<bar>current_setpoint (pa_setpoints q) (at_sim tick) i - storage_limit (at_sim tick) bounds dev i\<bar> < 1 / 10 ^ 6)"
proof -
  define cur where "cur = current_setpoint (pa_setpoints p) (at_sim tick) i"
  define t where "t = (if 0 < dev then x else - x)"
  from ready i obtain a where kind: "lv_kind l = LBattery" and a: "hm_get (at_sim tick) i = Some a"
    and st: "storage_ready a (hm_get bounds i) cur"
    and cap: "lv_capacity_kw l = \<bar>cur - storage_limit (at_sim tick) bounds dev i\<bar>"
    by (auto simp: storage_lever_ready_def cur_def)
  obtain lo hi where rng: "storage_range a (hm_get bounds i) = (lo, hi)" by (metis prod.exhaust)
  from st rng have r: "lo \<le> cur" "cur \<le> hi" by (auto simp: storage_ready_def)
  define c where "c = clamp_range lo hi (cur - t)"
  have lim: "storage_limit (at_sim tick) bounds dev i = (if 0 < dev then lo else hi)"
    by (simp add: storage_limit_def a rng)
  have xcap: "x \<le> \<bar>cur - (if 0 < dev then lo else hi)\<bar>" using x(2) cap lim by simp
  have "c = cur - t"
    using r x(1) xcap unfolding c_def t_def clamp_range_def by (cases "0 < dev") (simp_all add: min_def max_def)
  then have delta: "\<bar>c - cur\<bar> = x" using x(1) by (simp add: t_def)
  have "apply_battery_lever (at_sim tick) i t obj (hm_get bounds i) (pa_setpoints p) =
      (if \<bar>c - cur\<bar> < 1 / 10 ^ 6 then Some (0, pa_setpoints p) else Some (\<bar>c - cur\<bar>, hm_put i c (pa_setpoints p)))"
    unfolding apply_battery_lever_def a rng option.case prod.case Let_def clamp_checked_def c_def cur_def
    using order_trans [OF r] obj by simp
  then have "if x < 1 / 10 ^ 6 then k = 0 \<and> pa_setpoints q = pa_setpoints p
      else k = x \<and> pa_setpoints q = hm_put i c (pa_setpoints p)"
    and rem: "pa_remaining_kw q = pa_remaining_kw p"
    using app kind i unfolding delta t_def
    by (auto simp: apply_lever_def Let_def battery_moved_def split: option.splits prod.splits if_splits)
  then consider (still) "x < 1 / 10 ^ 6" "k = 0" "current_setpoint (pa_setpoints q) (at_sim tick) i = cur"
    | (moved) "k = x" "current_setpoint (pa_setpoints q) (at_sim tick) i = c"
    by (auto simp: current_put cur_def split: if_splits)
  then show ?thesis
  proof cases
    case still
    then have "x = lv_capacity_kw l" using x(2,3) by (auto simp: dead_band_kw_def min_def)
    then show ?thesis using still rem x(1) cap by simp
  next
    case moved
    have "\<bar>c - storage_limit (at_sim tick) bounds dev i\<bar> < 1 / 10 ^ 6" if "x < pa_remaining_kw p"
    proof -
      have "x = \<bar>cur - (if 0 < dev then lo else hi)\<bar>" using that x(2) cap lim by simp
      then have "c = (if 0 < dev then lo else hi)"
        using \<open>c = cur - t\<close> r by (simp add: t_def split: if_splits)
      then show ?thesis by (simp add: lim)
    qed
    then show ?thesis using moved rem x(1) by simp
  qed
qed

lemma storage_ready_frame:
  assumes "storage_lever_ready sim live bounds dev sp l"
    and "\<And>i. lv_asset l = Some i \<Longrightarrow> current_setpoint sp' sim i = current_setpoint sp sim i"
  shows "storage_lever_ready sim live bounds dev sp' l"
  using assms unfolding storage_lever_ready_def by auto

definition at_its_limit :: "sim_snapshot \<Rightarrow> setpoint_bounds \<Rightarrow> f64 \<Rightarrow> setpoints \<Rightarrow> lever \<Rightarrow> bool" where
  "at_its_limit sim bounds dev sp l \<longleftrightarrow>
     (case lv_asset l of None \<Rightarrow> True
      | Some i \<Rightarrow> \<bar>current_setpoint sp sim i - storage_limit sim bounds dev i\<bar> < 1 / 10 ^ 6)"

lemma run_frame:
  assumes "run_levers tick obj bounds dev ls p = Some q" and "Some j \<notin> lv_asset ` set ls"
  shows "current_setpoint (pa_setpoints q) sim j = current_setpoint (pa_setpoints p) sim j"
  using assms
proof (induction ls arbitrary: p)
  case (Cons l ls)
  from Cons.prems(1) show ?case
  proof (cases rule: run_Cons_cases)
    case stop
    then show ?thesis by simp
  next
    case skip
    with Cons show ?thesis by simp
  next
    case (step k r)
    have "current_setpoint (pa_setpoints r) sim j = current_setpoint (pa_setpoints p) sim j"
      by (rule apply_frame [OF step(3)]) (use Cons.prems(2) in force)
    with Cons.IH [OF step(4)] Cons.prems(2) show ?thesis by (simp add: account_def)
  qed
qed simp

lemma run_storage:
  assumes obj: "obj \<noteq> MaxRevenue" and "distinct (map lv_asset ls)"
    and "\<forall>l \<in> set ls. storage_lever_ready (at_sim tick) (at_live tick) bounds dev (pa_setpoints p) l"
    and "0 \<le> pa_remaining_kw p" and "run_levers tick obj bounds dev ls p = Some q"
  shows "0 \<le> pa_remaining_kw q \<and> pa_remaining_kw q \<le> pa_remaining_kw p \<and>
    (dead_band_kw \<le> pa_remaining_kw q \<longrightarrow>
      (\<forall>l \<in> set ls. at_its_limit (at_sim tick) bounds dev (pa_setpoints q) l))"
  using assms(2-)
proof (induction ls arbitrary: p)
  case Nil
  then show ?case by simp
next
  case (Cons l ls)
  let ?x = "min (pa_remaining_kw p) (lv_capacity_kw l)" and ?lim = "at_its_limit (at_sim tick) bounds dev"
  from Cons.prems(2) obtain i where i: "lv_asset l = Some i"
    and ready: "storage_lever_ready (at_sim tick) (at_live tick) bounds dev (pa_setpoints p) l"
    by (auto simp: storage_lever_ready_def)
  have later: "Some i \<notin> lv_asset ` set ls" "distinct (map lv_asset ls)" using Cons.prems(1) i by auto
  consider "pa_remaining_kw p < dead_band_kw" | "\<not> pa_remaining_kw p < dead_band_kw" "?x \<le> 0"
    | k r where "\<not> pa_remaining_kw p < dead_band_kw" "\<not> ?x \<le> 0" "apply_lever tick obj bounds dev l ?x p = Some (k, r)"
      "run_levers tick obj bounds dev ls (account l k r) = Some q"
    using Cons.prems(4) by (auto simp: Let_def split: option.splits if_splits)
  then show ?case
  proof cases
    case 1
    then have "q = p" using Cons.prems(4) by simp
    with 1 Cons.prems(3) show ?thesis by simp
  next
    case 2
    then have run: "run_levers tick obj bounds dev ls p = Some q" using Cons.prems(4) by (simp add: Let_def)
    have "lv_capacity_kw l \<le> 0" using 2 by (auto simp: dead_band_kw_def min_def split: if_splits)
    then have "?lim (pa_setpoints p) l" using ready i by (auto simp: storage_lever_ready_def at_its_limit_def)
    then have "?lim (pa_setpoints q) l" using run_frame [OF run later(1)] i by (simp add: at_its_limit_def)
    moreover note Cons.IH [OF later(2) _ Cons.prems(3) run]
    ultimately show ?thesis using Cons.prems(2) by auto
  next
    case 3
    have "0 < ?x" "dead_band_kw \<le> pa_remaining_kw p" using 3(1,2) by linarith+
    from storage_step [OF ready i obj this(1) refl this(2) 3(3)]
    have s: "0 \<le> k" "k \<le> ?x" "pa_remaining_kw r = pa_remaining_kw p"
      "k < pa_remaining_kw p \<longrightarrow> ?lim (pa_setpoints r) l" by (auto simp: at_its_limit_def i)
    have acc: "pa_setpoints (account l k r) = pa_setpoints r" "pa_remaining_kw (account l k r) = pa_remaining_kw p - k"
      using s by (auto simp: account_def)
    have ready': "\<forall>m \<in> set ls. storage_lever_ready (at_sim tick) (at_live tick) bounds dev (pa_setpoints (account l k r)) m"
    proof
      fix m assume m: "m \<in> set ls"
      show "storage_lever_ready (at_sim tick) (at_live tick) bounds dev (pa_setpoints (account l k r)) m"
        unfolding acc
      proof (rule storage_ready_frame)
        show "storage_lever_ready (at_sim tick) (at_live tick) bounds dev (pa_setpoints p) m" using Cons.prems(2) m by simp
        fix j assume "lv_asset m = Some j"
        then have "lv_asset l \<noteq> Some j" using later(1) m i by force
        then show "current_setpoint (pa_setpoints r) (at_sim tick) j = current_setpoint (pa_setpoints p) (at_sim tick) j"
          by (rule apply_frame [OF 3(3)])
      qed
    qed
    have "0 \<le> pa_remaining_kw (account l k r)" using s(2) acc by simp
    note IH = Cons.IH [OF later(2) ready' this 3(4)]
    have "?lim (pa_setpoints q) l" if "dead_band_kw \<le> pa_remaining_kw q"
    proof -
      have "k < pa_remaining_kw p" using that IH acc by (auto simp: dead_band_kw_def)
      with s(4) have "?lim (pa_setpoints r) l" by simp
      then show ?thesis using run_frame [OF 3(4) later(1)] i acc by (simp add: at_its_limit_def)
    qed
    with IH acc s(1) show ?thesis by auto
  qed
qed

definition storage_empty :: "sim_snapshot \<Rightarrow> f64 \<Rightarrow> string \<Rightarrow> bool" where
  "storage_empty sim dev i \<longleftrightarrow>
     (case hm_get sim i of None \<Rightarrow> True | Some a \<Rightarrow>
        (case (if 0 < dev then as_available_discharge_kwh a else as_available_charge_kwh a) of
           None \<Rightarrow> False | Some e \<Rightarrow> e \<le> 0))"

lemma battery_lever_offered:
  assumes site: "site_ready tick bounds sp" and i: "i \<in> set (lever_asset_ids [Storage] (at_sim tick))"
  shows "case battery_lever sp (at_sim tick) i slot dev (hm_get bounds i) of
      None \<Rightarrow> storage_empty (at_sim tick) dev i \<or> current_setpoint sp (at_sim tick) i = storage_limit (at_sim tick) bounds dev i
    | Some l \<Rightarrow> storage_lever_ready (at_sim tick) (at_live tick) bounds dev sp l"
proof -
  from site_ready_asset [OF site i] obtain a where a: "hm_get (at_sim tick) i = Some a" "hm_get (at_live tick) i = None"
    and st: "storage_ready a (hm_get bounds i) (current_setpoint sp (at_sim tick) i)" by auto
  obtain lo hi where rng: "storage_range a (hm_get bounds i) = (lo, hi)" by (metis prod.exhaust)
  have lim: "storage_limit (at_sim tick) bounds dev i = (if 0 < dev then lo else hi)"
    by (simp add: storage_limit_def a rng)
  have r: "lo \<le> current_setpoint sp (at_sim tick) i" "current_setpoint sp (at_sim tick) i \<le> hi"
    using st rng by (auto simp: storage_ready_def)
  have empty: "storage_empty (at_sim tick) dev i \<longleftrightarrow>
      (case (if 0 < dev then as_available_discharge_kwh a else as_available_charge_kwh a) of None \<Rightarrow> False | Some e \<Rightarrow> e \<le> 0)"
    by (simp add: storage_empty_def a)
  show ?thesis
  proof (cases "storage_empty (at_sim tick) dev i")
    case True
    then have "battery_lever sp (at_sim tick) i slot dev (hm_get bounds i) = None"
      unfolding empty battery_lever_def by (simp add: a rng Let_def split: if_splits)
    with True show ?thesis by simp
  next
    case False
    let ?cap = "if 0 < dev then current_setpoint sp (at_sim tick) i - lo else hi - current_setpoint sp (at_sim tick) i"
    have bl: "battery_lever sp (at_sim tick) i slot dev (hm_get bounds i) =
        (if ?cap \<le> 0 then None else Some \<lparr>lv_kind = LBattery, lv_asset = Some i, lv_capacity_kw = ?cap,
           lv_cost = (if 0 < dev then (case slot of None \<Rightarrow> 0 | Some s \<Rightarrow> ps_marginal_cost_import s)
             else (case slot of None \<Rightarrow> 0 | Some s \<Rightarrow> ps_marginal_cost_export s))\<rparr>)"
      using False unfolding empty battery_lever_def by (cases "0 < dev") (simp_all add: a rng Let_def)
    have cap: "?cap = \<bar>current_setpoint sp (at_sim tick) i - storage_limit (at_sim tick) bounds dev i\<bar>"
      using r by (simp add: lim)
    show ?thesis
    proof (cases "?cap \<le> 0")
      case True
      then have "current_setpoint sp (at_sim tick) i = storage_limit (at_sim tick) bounds dev i"
        unfolding cap by simp
      with True bl show ?thesis by simp
    next
      case pos: False
      then show ?thesis
        unfolding bl using a st cap by (simp add: storage_lever_ready_def)
    qed
  qed
qed

text \<open>A site for the witnesses: a battery, a charger and a base load drawing 3 kW.\<close>

definition sample_asset :: asset_snapshot where
  "sample_asset = \<lparr>as_power_kw = 0, as_cap_max_import_kw = 5, as_cap_max_export_kw = 5,
     as_available_discharge_kwh = Some 4, as_available_charge_kwh = Some 4, as_forced_power_kw = None,
     as_response = resp_continuous, as_default_setpoint_kw = Some 0, as_setpoint_kw = Some 0, as_soc_frac = Some (1 / 2),
     as_emergency_what_ifs = None, as_ac_ceiling_kw = None,
     as_arbiter_lever = Some \<lparr>al_kind = Storage, al_rated_import_kw = 5, al_rated_export_kw = 5\<rparr>,
     as_surplus_claim_rank = Some 0, as_full_effort_time_to_target_s = None, as_dispatch_without_request = None,
     as_roster_index = 0\<rparr>"

definition sample_charger :: asset_snapshot where
  "sample_charger = sample_asset\<lparr>as_cap_max_export_kw := 0, as_setpoint_kw := Some 2, as_roster_index := 2,
     as_arbiter_lever := Some \<lparr>al_kind = SurplusCharge, al_rated_import_kw = 5, al_rated_export_kw = 0\<rparr>\<rparr>"

definition sample_load :: asset_snapshot where
  "sample_load = sample_asset\<lparr>as_arbiter_lever := None, as_response := resp_fixed 3\<rparr>"

definition sample_sim :: sim_snapshot where
  "sample_sim = [(''bat'', sample_asset), (''ev'', sample_charger), (''base'', sample_load)]"

definition sample_tick :: arbiter_tick where
  "sample_tick = \<lparr>at_sim = sample_sim, at_slot = None, at_objective = MinCost, at_overlay = [],
     at_live = [(''base'', 3)], at_live_released = None, at_alert = False, at_limit_target_kw = Some 2,
     at_prev_bridge = []\<rparr>"

lemma sample_ready: "site_ready sample_tick [] []"
  by (simp add: site_ready_def sample_tick_def sample_sim_def sample_asset_def sample_charger_def sample_load_def
      hm_wf_def asset_ready_def storage_ready_def storage_range_def current_setpoint_def setpoint_or_power_def
      charger_ready_def response_ok_def resp_continuous_def)

lemma sample_net: "projected_net sample_sim [] (at_live sample_tick) = 5"
  by (simp add: projected_net_def projected_net_except_def sample_tick_def sample_sim_def sample_asset_def
      sample_charger_def sample_load_def asset_draw_def current_setpoint_def setpoint_or_power_def
      power_drawn_for_setpoint_def draws_def resp_continuous_def lands_def clamp_range_def snapped_to_zero_def)

section \<open>Properties\<close>

text \<open>
  Ranking permutes the levers on offer, never puts in front one that costs more than the
  preemption margin above the cheapest, and puts a dearer one in front only when it is the incumbent.
\<close>

theorem rank_levers_head:
  assumes ne: "ls \<noteq> []"
  shows "mset (rank_levers ls inc) = mset ls \<and>
    (\<forall>l \<in> set ls. lv_cost (hd (rank_levers ls inc)) \<le> lv_cost l + lever_preemption_margin) \<and>
    (rank_levers ls inc = sort_key lv_cost ls \<or> inc = Some (lever_key (hd (rank_levers ls inc))))"
proof (rule rank_levers_cases [OF ne])
  assume a: "rank_levers ls inc = sort_key lv_cost ls"
  have "lv_cost (hd (sort_key lv_cost ls)) \<le> lv_cost l + lever_preemption_margin" if "l \<in> set ls" for l
    using sorted_head_least [OF ne that] by (simp add: lever_preemption_margin_def)
  then show ?thesis by (simp add: a rank_levers_mset)
next
  fix i key
  assume a: "inc = Some key" "rank_levers ls inc = swap_to_head i (sort_key lv_cost ls)"
    "position (\<lambda>l. lever_key l = key) (sort_key lv_cost ls) = Some i"
    "lv_cost (sort_key lv_cost ls ! i) - lv_cost (hd (sort_key lv_cost ls)) \<le> lever_preemption_margin"
  from position_Some [OF a(3)] have i: "i < length (sort_key lv_cost ls)" "lever_key (sort_key lv_cost ls ! i) = key" by auto
  then have "sort_key lv_cost ls \<noteq> []" by (metis gr_implies_not0 length_0_conv)
  then have "swap_to_head i (sort_key lv_cost ls) \<noteq> []" by (simp add: swap_to_head_def)
  then have hd: "hd (rank_levers ls inc) = sort_key lv_cost ls ! i"
    using swap_to_head_nth0 [OF i(1)] by (simp add: a(2) hd_conv_nth)
  have "lv_cost (sort_key lv_cost ls ! i) \<le> lv_cost l + lever_preemption_margin" if "l \<in> set ls" for l
    using sorted_head_least [OF ne that] a(4) by simp
  then show ?thesis unfolding hd using i a(1) by (simp add: rank_levers_mset)
qed

definition lever_at :: "string \<Rightarrow> f64 \<Rightarrow> lever" where
  "lever_at i cost = \<lparr>lv_kind = LBattery, lv_asset = Some i, lv_capacity_kw = 1, lv_cost = cost\<rparr>"

lemma rank_levers_head_witness:
  "mset (rank_levers [lever_at ''a'' 5, lever_at ''b'' 2] None) = mset [lever_at ''a'' 5, lever_at ''b'' 2]"
  using rank_levers_head [of "[lever_at ''a'' 5, lever_at ''b'' 2]" None] by simp

text \<open>
  The incumbent is moved to the front by a swap, so the lever it displaces falls behind dearer ones:
  with costs 0, 0.010 and 0.015 and the dearest as incumbent, the cheapest lever comes last.
\<close>

theorem rank_levers_swap_unsorted:
  "map lv_cost (rank_levers [lever_at ''a'' 0, lever_at ''b'' (1 / 100), lever_at ''c'' (15 / 1000)]
     (Some (lever_key (lever_at ''c'' (15 / 1000))))) = [15 / 1000, 1 / 100, 0]"
  by (simp add: rank_levers_def lever_at_def swap_to_head_def lever_preemption_margin_def Let_def
      lever_key_def key_of_def)



text \<open>
  A dispatch window is met as far as the storage reaches: the pass always returns, never moves away
  from the window's setpoint or past it, and leaves a gap of the dead band or more only where every
  storage asset is out of energy in that direction or within 1e-6 kW of its limit.
\<close>

theorem dispatch_meets_setpoint:
  assumes site: "site_ready tick [] sp"
  shows "\<exists>sp'. meet_dispatch_setpoint tick s sp = Some sp' \<and>
    (let d = projected_net (at_sim tick) sp (at_live tick) - s;
         d' = projected_net (at_sim tick) sp' (at_live tick) - s in
       \<bar>d'\<bar> \<le> \<bar>d\<bar> \<and> 0 \<le> d * d' \<and>
       (\<bar>d'\<bar> < dead_band_kw \<or>
        (\<forall>i \<in> set (lever_asset_ids [Storage] (at_sim tick)).
           storage_empty (at_sim tick) d i \<or>
           \<bar>current_setpoint sp' (at_sim tick) i - storage_limit (at_sim tick) [] d i\<bar> < 1 / 10 ^ 6)))"
proof -
  let ?d = "projected_net (at_sim tick) sp (at_live tick) - s"
  have adm: "lp_admits dispatch_policy = [LBattery]" by (simp add: dispatch_policy_def)
  then have dev: "0 < ?d \<and> \<not> at_alert tick \<or> lp_admits dispatch_policy = [LBattery]" by simp
  from pass_total [OF site dev] obtain ap sp' where
    pass: "apply_ranked_levers dispatch_policy tick None [] ?d sp = Some (ap, sp')" by blast
  let ?base = "setpoint_levers sp dispatch_policy tick [] ?d"
  let ?ls = "rank_levers ?base None"
  from pass obtain q where q: "run_levers tick (storage_objective dispatch_policy tick) [] ?d ?ls (pass_start sp ?d) = Some q"
    and sp': "sp' = pa_setpoints q"
    unfolding apply_ranked_levers_def candidates_setpoint [OF dev] by (auto split: option.splits)
  have wf: "hm_wf (at_sim tick)" using site by (simp add: site_ready_def)
  have mem: "l \<in> set ?base \<longleftrightarrow> (\<exists>i \<in> set (lever_asset_ids [Storage] (at_sim tick)).
      battery_lever sp (at_sim tick) i (at_slot tick) ?d (hm_get [] i) = Some l)" for l
    using battery_lever_D ev_lever_D pause_lever_D
    by (fastforce simp: setpoint_levers_def adm map_filter_mem declaring_def)
  have ready: "\<forall>l \<in> set ?ls. storage_lever_ready (at_sim tick) (at_live tick) [] ?d (pa_setpoints (pass_start sp ?d)) l"
  proof
    fix l assume "l \<in> set ?ls"
    then obtain i where i: "i \<in> set (lever_asset_ids [Storage] (at_sim tick))"
      "battery_lever sp (at_sim tick) i (at_slot tick) ?d (hm_get [] i) = Some l" using mem by (auto simp: rank_levers_set)
    from battery_lever_offered [OF site i(1), of ?d "at_slot tick"] i(2)
    show "storage_lever_ready (at_sim tick) (at_live tick) [] ?d (pa_setpoints (pass_start sp ?d)) l"
      by (simp add: pass_start_def)
  qed
  have "mset (map lv_asset ?ls) = mset (map lv_asset ?base)" by (simp add: rank_levers_mset)
  then have dist: "distinct (map lv_asset ?ls)"
    using setpoint_levers_distinct [OF wf] mset_eq_imp_distinct_iff by blast
  have obj: "storage_objective dispatch_policy tick \<noteq> MaxRevenue"
    by (simp add: storage_objective_def dispatch_policy_def)
  have "0 \<le> pa_remaining_kw (pass_start sp ?d)" by (simp add: pass_start_def)
  note run = run_storage [OF obj dist ready this q]
  let ?rem = "pa_remaining_kw q"
  have rem: "0 \<le> ?rem" "?rem \<le> \<bar>?d\<bar>" using run by (auto simp: pass_start_def)
  have lready: "\<forall>l \<in> set ?ls. lever_ready (at_sim tick) (at_live tick) [] ?d (pa_setpoints (pass_start sp ?d)) l"
    using setpoint_levers_ready [OF site] adm by (auto simp: rank_levers_set pass_start_def)
  have "projected_net (at_sim tick) sp' (at_live tick) - s = (if 0 < ?d then ?rem else - ?rem)"
    using run_account [OF wf dist lready q] by (simp add: sp' pass_start_def)
  then have gap: "\<bar>projected_net (at_sim tick) sp' (at_live tick) - s\<bar> = ?rem"
    "0 \<le> ?d * (projected_net (at_sim tick) sp' (at_live tick) - s)"
    using rem by (auto simp: zero_le_mult_iff mult_le_0_iff)
  have limits: "storage_empty (at_sim tick) ?d i \<or>
      \<bar>current_setpoint sp' (at_sim tick) i - storage_limit (at_sim tick) [] ?d i\<bar> < 1 / 10 ^ 6"
    if "\<not> ?rem < dead_band_kw" and i: "i \<in> set (lever_asset_ids [Storage] (at_sim tick))" for i
  proof (cases "battery_lever sp (at_sim tick) i (at_slot tick) ?d (hm_get [] i)")
    case (Some l)
    then have "l \<in> set ?ls" "lv_asset l = Some i" using mem i battery_lever_D by (auto simp: rank_levers_set)
    with run that(1) show ?thesis by (auto simp: at_its_limit_def sp')
  next
    case None
    then have "Some i \<notin> lv_asset ` set ?ls" using mem battery_lever_D by (fastforce simp: rank_levers_set)
    then have "current_setpoint sp' (at_sim tick) i = current_setpoint sp (at_sim tick) i"
      using run_frame [OF q] by (simp add: sp' pass_start_def)
    with battery_lever_offered [OF site i, of ?d "at_slot tick"] None show ?thesis by auto
  qed
  have "meet_dispatch_setpoint tick s sp = Some sp'"
    unfolding meet_dispatch_setpoint_def pass by simp
  with gap rem limits show ?thesis by (auto simp: Let_def)
qed

lemma dispatch_meets_setpoint_witness:
  "\<exists>sp'. meet_dispatch_setpoint sample_tick 4 [] = Some sp' \<and>
     \<bar>projected_net sample_sim sp' (at_live sample_tick) - 4\<bar> \<le> 1"
  using dispatch_meets_setpoint [OF sample_ready, of 4] sample_net
  by (auto simp: Let_def sample_tick_def)

end
