(* ===== verification/Opportunistic_Pass.thy ===== *)
theory Opportunistic_Pass
  imports Arbiter_Facts User_Requests "HOL-Library.Option_ord"
begin

text \<open>
  \<open>VEN/src/controller/arbiter/opportunistic.rs\<close>, \<open>UserRequestMode::non_planning_dispatch\<close> of
  \<open>entities/design_vocabulary.rs\<close> and \<open>VEN/src/tasks/sim_tick/setpoints.rs\<close>: dispatch without
  look-ahead, and the one function that composes a tick's setpoints from all the passes.
\<close>

section \<open>Requests\<close>

fun states_a_firm_deadline :: "user_request_mode \<Rightarrow> bool" where
  "states_a_firm_deadline m = (m = ByDeadline \<or> m = Asap)"

fun charges_until_departure :: "user_request_mode \<Rightarrow> bool" where
  "charges_until_departure m = (m = ByDeadline \<or> m = Asap \<or> m = ByDeadlineFree)"

fun mode_dispatch :: "user_request_mode \<Rightarrow> instant \<Rightarrow> non_planning_dispatch" where
  "mode_dispatch Asap deadline = StartNow"
| "mode_dispatch ByDeadline deadline = StartBy deadline"
| "mode_dispatch AsapFree deadline = SurplusOnly"
| "mode_dispatch ByDeadlineFree deadline = SurplusOnly"
| "mode_dispatch MaxCost deadline = SurplusOnly"
| "mode_dispatch Opportunistic deadline = SurplusOnly"

record opportunistic_requests =
  or_dispatch :: "non_planning_dispatch hmap"
  or_ev_target_frac :: "f64 hmap"
  or_heater_ceiling_c :: "f64 hmap"

definition no_requests :: opportunistic_requests where
  "no_requests = \<lparr>or_dispatch = [], or_ev_target_frac = [], or_heater_ceiling_c = []\<rparr>"

definition add_ev_session :: "string \<times> ev_session \<Rightarrow> opportunistic_requests \<Rightarrow> opportunistic_requests" where
  "add_ev_session = (\<lambda>(i, s) r.
     r\<lparr>or_dispatch := hm_put i (mode_dispatch (es_mode s) (es_departure_time s)) (or_dispatch r),
       or_ev_target_frac := hm_put i (es_target_soc_frac s) (or_ev_target_frac r)\<rparr>)"

definition add_heater_target :: "string \<times> heater_target \<Rightarrow> opportunistic_requests \<Rightarrow> opportunistic_requests" where
  "add_heater_target = (\<lambda>(i, t) r.
     let d = mode_dispatch (ht_mode t) (ht_ready_by t); r' = r\<lparr>or_dispatch := hm_put i d (or_dispatch r)\<rparr> in
     if d \<noteq> SurplusOnly
     then r'\<lparr>or_heater_ceiling_c := hm_put i (ht_target_temp_c t) (or_heater_ceiling_c r')\<rparr> else r')"

definition add_shiftable :: "shiftable_request \<Rightarrow> opportunistic_requests \<Rightarrow> opportunistic_requests" where
  "add_shiftable l r =
     r\<lparr>or_dispatch := hm_put (sr_asset_id l) (mode_dispatch (sr_mode l) (sr_latest_end l)) (or_dispatch r)\<rparr>"

definition collect_requests ::
  "instant \<Rightarrow> ev_session hmap \<Rightarrow> heater_target hmap \<Rightarrow> shiftable_request list \<Rightarrow> opportunistic_requests" where
  "collect_requests now sessions targets loads =
     fold add_shiftable (filter (\<lambda>l. sr_earliest_start l \<le> now \<and> now < sr_latest_end l) loads)
       (fold add_heater_target targets (fold add_ev_session sessions no_requests))"

section \<open>The regime\<close>

definition deadline_margin_s :: f64 where "deadline_margin_s = 900"

text \<open>\<open>chrono::Duration::seconds\<close> panics beyond \<open>i64::MAX / 1000\<close>, and so does an instant out of range.\<close>

definition start_by :: "wire_env \<Rightarrow> instant \<Rightarrow> f64 \<Rightarrow> instant option" where
  "start_by env deadline time_to_target_s =
     (let lead = f64_as_i64 (of_int \<lceil>time_to_target_s + deadline_margin_s\<rceil>) in
      if \<bar>lead\<bar> \<le> 9223372036854775 then checked_add env deadline (- seconds lead) else None)"

record request_regime =
  rg_base :: setpoints
  rg_excluded :: "string list"
  rg_waiting :: "waiting_asset list"

definition regime_step ::
  "wire_env \<Rightarrow> non_planning_dispatch hmap \<Rightarrow> (string \<Rightarrow> bool) \<Rightarrow> instant \<Rightarrow> string \<times> asset_snapshot \<Rightarrow>
     request_regime \<Rightarrow> request_regime option" where
  "regime_step env requests switch_on now = (\<lambda>(i, a) r.
     let surplus_charger = (case as_arbiter_lever a of None \<Rightarrow> False | Some l \<Rightarrow> al_kind l = SurplusCharge);
         start = r\<lparr>rg_base := hm_put i (as_cap_max_import_kw a) (rg_base r), rg_excluded := rg_excluded r @ [i]\<rparr>
     in if hm_get requests i = None \<and> surplus_charger \<and> \<not> switch_on i
        then Some (r\<lparr>rg_excluded := rg_excluded r @ [i]\<rparr>)
        else (case (case hm_get requests i of Some d \<Rightarrow> Some d | None \<Rightarrow> as_dispatch_without_request a) of
                Some StartNow \<Rightarrow> Some start
              | Some (StartBy deadline) \<Rightarrow>
                  (case as_full_effort_time_to_target_s a of
                     None \<Rightarrow> Some start
                   | Some t \<Rightarrow>
                       (case start_by env deadline t of
                          None \<Rightarrow> None
                        | Some sb \<Rightarrow>
                            if sb \<le> now then Some start
                            else Some (r\<lparr>rg_waiting := rg_waiting r @ [\<lparr>wa_asset_id = i, wa_start_by = sb\<rparr>]\<rparr>)))
              | _ \<Rightarrow> Some r))"

definition make_regime ::
  "wire_env \<Rightarrow> sim_snapshot \<Rightarrow> setpoints \<Rightarrow> non_planning_dispatch hmap \<Rightarrow> (string \<Rightarrow> bool) \<Rightarrow> instant \<Rightarrow>
     request_regime option" where
  "make_regime env sim base requests switch_on now =
     try_fold (regime_step env requests switch_on now) (assets_in_roster_order sim)
       \<lparr>rg_base = base, rg_excluded = [], rg_waiting = []\<rparr>"

section \<open>The pass\<close>

definition is_storage :: "asset_snapshot \<Rightarrow> bool" where
  "is_storage a \<longleftrightarrow> (case as_arbiter_lever a of None \<Rightarrow> False | Some l \<Rightarrow> al_kind l = Storage)"

definition has_energy :: "f64 option \<Rightarrow> bool" where
  "has_energy e \<longleftrightarrow> (case e of None \<Rightarrow> True | Some kwh \<Rightarrow> 0 < kwh)"

definition allocate :: "asset_snapshot \<Rightarrow> f64 \<Rightarrow> f64 \<Rightarrow> f64 \<times> f64" where
  "allocate a base balance =
     (let base_draw = power_when_command_lands a base;
          want = min (- balance) (as_cap_max_import_kw a);
          surplus_sp = setpoint_for_power_at_or_below a want;
          surplus_draw = power_when_command_lands a surplus_sp
      in if balance \<le> - dead_band_kw \<and> has_energy (as_available_charge_kwh a) \<and> base_draw < surplus_draw
         then (surplus_sp, surplus_draw)
         else if dead_band_kw \<le> balance + base_draw \<and> is_storage a \<and> has_energy (as_available_discharge_kwh a)
         then (let sp = max (- (balance + base_draw)) (- \<bar>as_cap_max_export_kw a\<bar>) in
               (sp, power_when_command_lands a sp))
         else (base, base_draw))"

definition ranked_assets :: "sim_snapshot \<Rightarrow> string list \<Rightarrow> (string \<times> asset_snapshot) list" where
  "ranked_assets sim excluded =
     sort_key (\<lambda>(_, a). as_surplus_claim_rank a)
       (filter (\<lambda>(i, a). as_surplus_claim_rank a \<noteq> None \<and> i \<notin> set excluded) (assets_in_roster_order sim))"

definition base_command :: "setpoints \<Rightarrow> string \<times> asset_snapshot \<Rightarrow> f64" where
  "base_command base = (\<lambda>(i, a). case hm_get base i of Some kw \<Rightarrow> kw
     | None \<Rightarrow> hm_or (as_power_kw a) (as_default_setpoint_kw a))"

record share_state =
  sh_setpoints :: setpoints
  sh_balance_kw :: f64
  sh_leading :: "(string \<times> bool) option"

definition share_step :: "setpoints \<Rightarrow> string \<times> asset_snapshot \<Rightarrow> share_state \<Rightarrow> share_state" where
  "share_step base = (\<lambda>(i, a) s.
     let b = base_command base (i, a); (sp, drawn) = allocate a b (sh_balance_kw s);
         moved = 1 / 10 ^ 9 < \<bar>drawn - power_when_command_lands a b\<bar>
     in \<lparr>sh_setpoints = hm_put i sp (sh_setpoints s), sh_balance_kw = sh_balance_kw s + drawn,
         sh_leading = (if moved \<and> sh_leading s = None then Some (i, sh_balance_kw s < 0) else sh_leading s)\<rparr>)"

definition opportunistic_pass :: "arbiter_tick \<Rightarrow> setpoints \<Rightarrow> string list \<Rightarrow> arbiter_outcome" where
  "opportunistic_pass tick base excluded =
     (let sim = at_sim tick; ranked = ranked_assets sim excluded;
          site = projected_net_except sim base (at_live tick) (map fst ranked);
          s = fold (share_step base) ranked \<lparr>sh_setpoints = base, sh_balance_kw = site, sh_leading = None\<rparr>
      in outcome_default\<lparr>ao_setpoints := sh_setpoints s,
           ao_opportunistic := Some \<lparr>oo_site_kw = site, oo_leading_asset = map_option fst (sh_leading s),
             oo_absorbing = (case sh_leading s of None \<Rightarrow> False | Some l \<Rightarrow> snd l),
             oo_unresolved_kw = (if \<bar>sh_balance_kw s\<bar> < dead_band_kw then 0 else sh_balance_kw s),
             oo_waiting = []\<rparr>\<rparr>)"

definition opportunistic_step ::
  "wire_env \<Rightarrow> arbiter_tick \<Rightarrow> setpoints \<Rightarrow> opportunistic_requests \<Rightarrow> (string \<Rightarrow> bool) \<Rightarrow> instant \<Rightarrow> dispatch_stages \<Rightarrow>
     arbiter_outcome option" where
  "opportunistic_step env tick defaults requests switch_on now st =
     Option.bind (make_regime env (at_sim tick) defaults (or_dispatch requests) switch_on now) (\<lambda>r.
       let o' = opportunistic_pass tick (rg_base r) (rg_excluded r) in
       apply_stages tick now st
         (o'\<lparr>ao_opportunistic := map_option (\<lambda>p. p\<lparr>oo_waiting := rg_waiting r\<rparr>) (ao_opportunistic o')\<rparr>))"

section \<open>One tick\<close>

record tick_context =
  tc_plan :: "(plan_time_slot list \<times> planner_objective) option"
  tc_alert_windows :: "alert_window list"
  tc_dispatch_windows :: "dispatch_window list"
  tc_capacity_schedule :: "capacity_snapshot list"
  tc_inject :: sim_inject
  tc_limit_enforcement :: bool
  tc_deviation_arbiter :: bool
  tc_opportunistic :: "opportunistic_requests option"
  tc_overlay_enabled :: "bool hmap"
  tc_limit_incumbent :: "string option"
  tc_incumbent :: "string option"
  tc_bridge :: "f64 hmap"
  tc_comms_loss :: "comms_loss_state option"

definition tick_of :: "tick_context \<Rightarrow> sim_snapshot \<Rightarrow> instant \<Rightarrow> f64 hmap \<Rightarrow> f64 hmap \<Rightarrow> arbiter_tick" where
  "tick_of ctx sim now live live_released =
     (let alert = any_covering aw_start aw_end (tc_alert_windows ctx) now;
          capacity = map_option cl_limit_kw (effective_capacity_limit (tc_capacity_schedule ctx) (tc_inject ctx) Import now now);
          hard = (if tc_limit_enforcement ctx then hard_import_limit capacity alert else None);
          followed = (if tc_opportunistic ctx = None then map_option fst (tc_plan ctx) else None)
      in \<lparr>at_sim = sim, at_slot = Option.bind followed (\<lambda>p. current_slot p now),
          at_objective = (case tc_plan ctx of None \<Rightarrow> MinCost | Some (_, ob) \<Rightarrow> ob),
          at_overlay = ev_overlays sim followed now (overlay_enabled_of (tc_overlay_enabled ctx)),
          at_live = live, at_live_released = Some live_released, at_alert = alert,
          at_limit_target_kw = limit_target hard (tc_limit_incumbent ctx), at_prev_bridge = tc_bridge ctx\<rparr>)"

definition build_tick_setpoints ::
  "wire_env \<Rightarrow> tick_context \<Rightarrow> sim_snapshot \<Rightarrow> f64 hmap \<Rightarrow> instant \<Rightarrow> f64 hmap \<Rightarrow> f64 hmap \<Rightarrow> arbiter_outcome option" where
  "build_tick_setpoints env ctx sim thermostat now live live_released =
     (let base = (case tc_plan ctx of Some (p, _) \<Rightarrow> build_setpoints p sim thermostat now | None \<Rightarrow> default_setpoints sim);
          tick = tick_of ctx sim now live live_released;
          st = \<lparr>ds_dispatch_windows = tc_dispatch_windows ctx, ds_alert_windows = tc_alert_windows ctx,
                ds_comms_loss = tc_comms_loss ctx, ds_limit_incumbent = tc_limit_incumbent ctx\<rparr>
      in case tc_opportunistic ctx of
           Some requests \<Rightarrow>
             opportunistic_step env tick (build_setpoints_without_plan sim thermostat) requests
               (overlay_enabled_of (tc_overlay_enabled ctx)) now st
         | None \<Rightarrow>
             Option.bind
               (if tc_deviation_arbiter ctx then reconcile tick base (tc_incumbent ctx)
                else Some (outcome_default\<lparr>ao_setpoints := apply_ev_lever_opportunistic sim live (at_overlay tick) base\<rparr>))
               (apply_stages tick now st))"

end
