(* ===== verification/Arbiter_Safety.thy ===== *)
theory Arbiter_Safety
  imports Opportunistic_Pass
begin

text \<open>
  What holds of the passes whatever the site: the storage never leaves the comms-loss bounds, a pass
  writes only the setpoints of assets that offer a lever, a correction is released to the plan, the
  generation limit is the tightest of its sources, and the opportunistic pass stays within the balance.
\<close>

section \<open>Generation\<close>

lemma generating_nonneg: "0 \<le> generating_kw live sim"
  unfolding generating_kw_def by (induction live) auto

lemma tighten_get:
  "hm_get (tighten_generation live sim x) i =
     map_option (\<lambda>kw. if is_array sim i \<and> 0 < generating_kw live sim
       then min (kw + x * (max (- kw) 0 / generating_kw live sim)) 0 else kw) (hm_get live i)"
proof -
  have "hm_get (map (\<lambda>(i, kw). (i, f i kw)) m) j = map_option (f j) (hm_get m j)"
    for f :: "string \<Rightarrow> f64 \<Rightarrow> f64" and m j
    by (induction m) auto
  from this [of "\<lambda>i kw. if is_array sim i \<and> 0 < generating_kw live sim
      then min (kw + x * (max (- kw) 0 / generating_kw live sim)) 0 else kw" live i]
  show ?thesis unfolding tighten_generation_def Let_def by simp
qed

lemma tightened_share:
  assumes "0 \<le> x" and "x \<le> g" and "0 < (g::f64)" and "kw \<le> 0"
  shows "max (- min (kw + x * (max (- kw) 0 / g)) 0) 0 = max (- kw) 0 * (1 - x / g)"
proof -
  have "x / g \<le> 1" using assms by simp
  then have "(- kw) * (x / g) \<le> (- kw) * 1" using assms(4) by (intro mult_left_mono) auto
  then have le: "kw + x * ((- kw) / g) \<le> 0" by (simp add: algebra_simps)
  then have "min (kw + x * (max (- kw) 0 / g)) 0 = kw + x * ((- kw) / g)" using assms(4) by simp
  then show ?thesis using le assms by (simp add: algebra_simps)
qed

text \<open>
  Tightening the generation takes exactly the asked-for power off the arrays' total, where they
  generate that much and none of them consumes, and leaves every other asset as it is.
\<close>

theorem tighten_generation_total:
  assumes x: "0 \<le> x" "x \<le> generating_kw live sim"
    and gen: "\<forall>i kw. (i, kw) \<in> set live \<and> is_array sim i \<longrightarrow> kw \<le> 0"
  shows "generating_kw (tighten_generation live sim x) sim = generating_kw live sim - x \<and>
    (\<forall>i. \<not> is_array sim i \<longrightarrow> hm_get (tighten_generation live sim x) i = hm_get live i)"
proof (cases "0 < generating_kw live sim")
  case False
  then have "generating_kw live sim = 0" using generating_nonneg [of live sim] by simp
  moreover have "tighten_generation live sim x = live"
    using False by (simp add: tighten_generation_def Let_def map_idI split: prod.split)
  ultimately show ?thesis using x by simp
next
  case True
  let ?g = "generating_kw live sim" and ?arrays = "filter (\<lambda>(i, _). is_array sim i) live"
  let ?t = "\<lambda>(i, kw). (i, if is_array sim i \<and> 0 < ?g then min (kw + x * (max (- kw) 0 / ?g)) 0 else kw)"
  have fm: "filter (\<lambda>(i, _). is_array sim i) (map ?t live) = map ?t ?arrays"
    by (simp add: filter_map case_prod_unfold comp_def)
  have tg: "tighten_generation live sim x = map ?t live" by (simp only: tighten_generation_def Let_def)
  have "max (- snd (?t p)) 0 = (1 - x / ?g) * max (- snd p) 0" if "p \<in> set ?arrays" for p
  proof -
    from that obtain i kw where p: "p = (i, kw)" "(i, kw) \<in> set live" "is_array sim i" by auto
    then have "kw \<le> 0" using gen by blast
    moreover have "snd (?t p) = min (kw + x * (max (- kw) 0 / ?g)) 0" using p True by simp
    ultimately show ?thesis
      unfolding p(1) snd_conv using tightened_share [OF x True, of kw] by (simp only: mult.commute)
  qed
  then have "map (\<lambda>(_, kw). max (- kw) 0) (map ?t ?arrays) = map (\<lambda>p. (1 - x / ?g) * max (- snd p) 0) ?arrays"
    unfolding map_map by (intro map_cong refl) (simp only: comp_def case_prod_unfold)
  then have "generating_kw (tighten_generation live sim x) sim = (1 - x / ?g) * sum_list (map (\<lambda>p. max (- snd p) 0) ?arrays)"
    unfolding tg generating_kw_def [of "map ?t live" sim] fm by (simp only: sum_list_scale)
  also have "sum_list (map (\<lambda>p. max (- snd p) 0) ?arrays) = ?g"
    unfolding generating_kw_def by (simp add: case_prod_unfold)
  also have "(1 - x / ?g) * ?g = ?g - x" using True by (simp add: field_simps)
  finally show ?thesis by (simp add: tighten_get option.map_ident)
qed

definition sample_array :: asset_snapshot where
  "sample_array = sample_asset\<lparr>as_arbiter_lever := None, as_ac_ceiling_kw := Some 6\<rparr>"

lemma tighten_generation_total_witness:
  "generating_kw (tighten_generation [(''pv'', - 5)] [(''pv'', sample_array)] 1) [(''pv'', sample_array)] = 4"
  using tighten_generation_total [of 1 "[(''pv'', - 5)]" "[(''pv'', sample_array)]"]
  by (simp add: generating_kw_def is_array_def sample_array_def)

section \<open>The generation limit\<close>

lemma max_from_mem: "max_from b xs \<in> insert b (set xs)"
  by (induction xs arbitrary: b) auto

lemma max_from_ge: "x \<in> insert b (set xs) \<Longrightarrow> fst x \<le> fst (max_from b xs)"
proof (induction xs arbitrary: x b)
  case (Cons y ys)
  have ge: "fst c \<le> fst (max_from c ys)" for c by (rule Cons.IH) simp
  show ?case using ge [of y] ge [of b] Cons.prems Cons.IH [of x y] Cons.IH [of x b] by auto
qed simp

lemma max_from_last:
  "\<exists>pre post. b # xs = pre @ max_from b xs # post \<and> (\<forall>x \<in> set post. fst x < fst (max_from b xs))"
proof (induction xs arbitrary: b)
  case Nil
  then show ?case by (intro exI [of _ "[]"]) simp
next
  case (Cons y ys)
  show ?case
  proof (cases "fst b \<le> fst y")
    case True
    from Cons.IH [of y] obtain pre post where
      "y # ys = pre @ max_from y ys # post" "\<forall>x \<in> set post. fst x < fst (max_from y ys)" by blast
    moreover have "max_from b (y # ys) = max_from y ys" using True by simp
    ultimately show ?thesis by (metis append_Cons)
  next
    case False
    from Cons.IH [of b] obtain pre post where
      ih: "b # ys = pre @ max_from b ys # post" "\<forall>x \<in> set post. fst x < fst (max_from b ys)" by blast
    show ?thesis
    proof (cases pre)
      case Nil
      have "fst y < fst (max_from b ys)" using False max_from_ge [of b b ys] by simp
      moreover have "max_from b (y # ys) = max_from b ys" using False by simp
      moreover have "b = max_from b ys \<and> ys = post" using ih(1) unfolding Nil append_Nil list.inject .
      ultimately show ?thesis using ih(2) by (metis append_Nil set_ConsD)
    next
      case (Cons z zs)
      moreover have "max_from b (y # ys) = max_from b ys" using False by simp
      moreover have "b = z \<and> ys = zs @ max_from b ys # post" using ih(1) unfolding Cons append_Cons list.inject .
      ultimately show ?thesis using ih(2) by (metis append_Cons)
    qed
  qed
qed

definition pv_sources ::
  "plan_time_slot list option \<Rightarrow> f64 option \<Rightarrow> instant \<Rightarrow> f64 option \<Rightarrow> f64 option \<Rightarrow> f64 option \<Rightarrow>
     (f64 \<times> pv_curtailment_source) list" where
  "pv_sources plan export_limit now tighten manual comms =
     List.map_filter (\<lambda>(l, s). map_option (\<lambda>v. (v, s)) l)
       [(map_option (\<lambda>v. - \<bar>v\<bar>) export_limit, CurtailCapacity), (plan_pv_limit plan now, CurtailPlan),
        (map_option (\<lambda>v. - \<bar>v\<bar>) tighten, CurtailArbiter), (map_option (\<lambda>v. - \<bar>v\<bar>) manual, CurtailManual),
        (map_option (\<lambda>v. - \<bar>v\<bar>) comms, CurtailCommsLoss)]"

text \<open>
  The generation limit is the tightest of the sources that impose one and carries the tag of the last
  listed source that imposes it; without a source there is no limit.
\<close>

theorem pv_limit_tightest:
  "let r = resolve_pv_generation_limit plan export_limit now tighten manual comms;
       sources = pv_sources plan export_limit now tighten manual comms in
     if sources = [] then r = \<lparr>pv_limit_kw = None, pv_source = CurtailNone\<rparr>
     else \<exists>v pre post. pv_limit_kw r = Some v \<and> sources = pre @ (v, pv_source r) # post \<and>
       list_all (\<lambda>x. fst x \<le> v) pre \<and> list_all (\<lambda>x. fst x < v) post"
proof (cases "pv_sources plan export_limit now tighten manual comms")
  case Nil
  then show ?thesis by (simp add: resolve_pv_generation_limit_def pv_sources_def Let_def)
next
  case (Cons x xs)
  obtain v s where m: "max_from x xs = (v, s)" by (metis prod.exhaust)
  have r: "resolve_pv_generation_limit plan export_limit now tighten manual comms = \<lparr>pv_limit_kw = Some v, pv_source = s\<rparr>"
    using Cons m by (simp add: resolve_pv_generation_limit_def pv_sources_def Let_def)
  from max_from_last [of x xs] m obtain pre post where
    split: "x # xs = pre @ (v, s) # post" "\<forall>y \<in> set post. fst y < v" by auto
  have "\<forall>y \<in> set pre. fst y \<le> v"
  proof
    fix y assume "y \<in> set pre"
    then have "y \<in> set (x # xs)" unfolding split by simp
    then show "fst y \<le> v" using max_from_ge [of y x xs] m by simp
  qed
  with split show ?thesis
    unfolding Let_def r Cons by (auto simp: list_all_iff)
qed

text \<open>
  The amount by which the arbiter wants the generation reduced is used as the ceiling itself: an array
  generating 5 kW of which 1 kW should go is projected at 4 kW by the limit pass, and limited to 1 kW.
\<close>

theorem pv_tighten_used_as_ceiling:
  "hm_get (tighten_generation [(''pv'', - 5)] [(''pv'', sample_array)] 1) ''pv'' = Some (- 4) \<and>
   resolve_pv_generation_limit None None now (Some 1) None None =
     \<lparr>pv_limit_kw = Some (- 1), pv_source = CurtailArbiter\<rparr>"
  by (simp add: tighten_get generating_kw_def is_array_def sample_array_def resolve_pv_generation_limit_def
      plan_pv_limit_def List.map_filter_def)

section \<open>The opportunistic pass\<close>

text \<open>An asset that takes part: a well-formed response, and nothing drawn by its base command.\<close>

definition takes_part :: "asset_snapshot \<Rightarrow> f64 \<Rightarrow> bool" where
  "takes_part a base \<longleftrightarrow>
     response_ok (as_response a) (- \<bar>as_cap_max_export_kw a\<bar>) (as_cap_max_import_kw a) \<and>
     power_when_command_lands a base = 0 \<and> (is_storage a \<longrightarrow> as_response a = resp_continuous)"

lemma surplus_draw_le:
  assumes ok: "response_ok (as_response a) (- \<bar>as_cap_max_export_kw a\<bar>) (as_cap_max_import_kw a)"
    and want: "0 \<le> want" and more: "power_when_command_lands a base < power_when_command_lands a (setpoint_for_power_at_or_below a want)"
  shows "power_when_command_lands a (setpoint_for_power_at_or_below a want) \<le> want + 1 / 10 ^ 9"
proof -
  let ?r = "as_response a" and ?lo = "- \<bar>as_cap_max_export_kw a\<bar>" and ?hi = "as_cap_max_import_kw a"
  have "\<not> (sr_step_rule ?r \<noteq> Continuous \<and>
      lands ?r ?lo ?hi (setpoint_at_or_below ?r ?lo ?hi want) = hd (sr_power_steps_kw ?r))"
  proof
    assume h: "sr_step_rule ?r \<noteq> Continuous \<and>
        lands ?r ?lo ?hi (setpoint_at_or_below ?r ?lo ?hi want) = hd (sr_power_steps_kw ?r)"
    have ne: "sr_power_steps_kw ?r \<noteq> []" using ok h by (simp add: response_ok_def)
    then have "lands ?r ?lo ?hi base \<in> set (sr_power_steps_kw ?r)"
      using h by (cases "sr_step_rule ?r") (auto simp: lands_def Let_def nearest_step_mem step_range_simps)
    then have "hd (sr_power_steps_kw ?r) \<le> lands ?r ?lo ?hi base"
      using ok sorted_hd_last by (auto simp: response_ok_def)
    with more h show False by (simp add: power_when_command_lands_def setpoint_for_power_at_or_below_def)
  qed
  with at_or_below_sheds [OF ok, of want] want show ?thesis
    by (auto simp: power_when_command_lands_def setpoint_for_power_at_or_below_def)
qed

lemma land_continuous:
  "as_response a = resp_continuous \<Longrightarrow> - \<bar>as_cap_max_export_kw a\<bar> \<le> x \<Longrightarrow> x \<le> as_cap_max_import_kw a \<Longrightarrow>
     power_when_command_lands a x = x"
  by (simp add: power_when_command_lands_def resp_continuous_def lands_def clamp_range_id snapped_to_zero_def)

lemma allocate_within:
  assumes part: "takes_part a base"
  obtains "allocate a base balance = (base, 0)"
  | sp drawn where "allocate a base balance = (sp, drawn)" "balance \<le> - dead_band_kw" "0 < drawn" "drawn \<le> - balance + 1 / 10 ^ 9"
  | sp drawn where "allocate a base balance = (sp, drawn)" "dead_band_kw \<le> balance" "- balance \<le> drawn" "drawn \<le> 0"
proof -
  let ?want = "min (- balance) (as_cap_max_import_kw a)"
  let ?draw = "power_when_command_lands a (setpoint_for_power_at_or_below a ?want)"
  have ok: "response_ok (as_response a) (- \<bar>as_cap_max_export_kw a\<bar>) (as_cap_max_import_kw a)"
    and b: "power_when_command_lands a base = 0" using part by (auto simp: takes_part_def)
  show ?thesis
  proof (cases "balance \<le> - dead_band_kw \<and> has_energy (as_available_charge_kwh a) \<and> 0 < ?draw")
    case True
    have "0 \<le> ?want" using True ok by (simp add: dead_band_kw_def response_ok_def)
    then have "?draw \<le> ?want + 1 / 10 ^ 9" using True b by (intro surplus_draw_le [OF ok, of _ base]) auto
    then show ?thesis using True b by (intro that(2) [OF _ _ _]) (auto simp: allocate_def Let_def)
  next
    case no_surplus: False
    show ?thesis
    proof (cases "dead_band_kw \<le> balance \<and> is_storage a \<and> has_energy (as_available_discharge_kwh a)")
      case True
      let ?sp = "max (- balance) (- \<bar>as_cap_max_export_kw a\<bar>)"
      have "?sp \<le> 0" using True by (simp add: dead_band_kw_def)
      moreover have "0 \<le> as_cap_max_import_kw a" using ok by (simp add: response_ok_def)
      ultimately have "power_when_command_lands a ?sp = ?sp"
        using True part by (intro land_continuous) (auto simp: takes_part_def)
      then have "allocate a base balance = (?sp, ?sp)"
        unfolding allocate_def Let_def b add_0_right if_not_P [OF no_surplus] using True by simp
      then show ?thesis using True \<open>?sp \<le> 0\<close> by (intro that(3)) auto
    next
      case False
      then show ?thesis by (intro that(1)) (simp only: allocate_def Let_def b add_0_right if_not_P [OF no_surplus] if_False)
    qed
  qed
qed

lemma share_balance:
  assumes "\<forall>x \<in> set ranked. takes_part (snd x) (base_command base x)"
  shows "let b = sh_balance_kw s; b' = sh_balance_kw (fold (share_step base) ranked s) in
    (b < dead_band_kw \<longrightarrow> b \<le> b' \<and> b' \<le> max b (1 / 10 ^ 9)) \<and> (- dead_band_kw < b \<longrightarrow> min b 0 \<le> b' \<and> b' \<le> b)"
  using assms
proof (induction ranked arbitrary: s)
  case Nil
  then show ?case by (simp add: Let_def)
next
  case (Cons x ranked)
  obtain i a where x: "x = (i, a)" by (cases x)
  let ?s = "share_step base x s"
  have part: "takes_part a (base_command base x)" using Cons.prems by (simp add: x)
  have bal: "sh_balance_kw ?s = sh_balance_kw s + snd (allocate a (base_command base x) (sh_balance_kw s))"
    by (simp add: share_step_def x Let_def split: prod.split)
  have db: "(1::f64) / 10 ^ 9 < dead_band_kw" by (simp add: dead_band_kw_def)
  note IH = Cons.IH [of ?s, unfolded Let_def]
  have rest: "\<forall>x \<in> set ranked. takes_part (snd x) (base_command base x)" using Cons.prems by simp
  show ?case unfolding Let_def fold_simps(2)
    by (rule allocate_within [OF part, of "sh_balance_kw s"]) (use IH [OF rest] bal db in \<open>auto simp: min_def max_def split: if_splits\<close>)
qed

text \<open>
  The opportunistic pass never crosses zero: a site with a surplus is not turned into an importing one,
  a site with an import is not turned into an exporting one, and what is left is no more than there was.
\<close>

theorem opportunistic_keeps_side:
  assumes part: "\<forall>x \<in> set (ranked_assets (at_sim tick) excluded). takes_part (snd x) (base_command base x)"
    and pass: "ao_opportunistic (opportunistic_pass tick base excluded) = Some o'"
  shows "(oo_site_kw o' \<le> 0 \<longrightarrow> oo_site_kw o' \<le> oo_unresolved_kw o' \<and> oo_unresolved_kw o' \<le> 0) \<and>
    (0 \<le> oo_site_kw o' \<longrightarrow> 0 \<le> oo_unresolved_kw o' \<and> oo_unresolved_kw o' \<le> oo_site_kw o')"
proof -
  let ?ranked = "ranked_assets (at_sim tick) excluded"
  let ?site = "projected_net_except (at_sim tick) base (at_live tick) (map fst ?ranked)"
  let ?b = "sh_balance_kw (fold (share_step base) ?ranked
      \<lparr>sh_setpoints = base, sh_balance_kw = ?site, sh_leading = None\<rparr>)"
  have o': "oo_site_kw o' = ?site" "oo_unresolved_kw o' = (if \<bar>?b\<bar> < dead_band_kw then 0 else ?b)"
    using pass by (auto simp: opportunistic_pass_def Let_def)
  have db: "(1::f64) / 10 ^ 9 < dead_band_kw" "0 < dead_band_kw" by (simp_all add: dead_band_kw_def)
  note bal = share_balance [OF part, of "\<lparr>sh_setpoints = base, sh_balance_kw = ?site, sh_leading = None\<rparr>", unfolded Let_def, simplified]
  show ?thesis unfolding o' using bal db by (auto simp: max_def min_def split: if_splits)
qed

lemma opportunistic_keeps_side_witness:
  "\<exists>o'. ao_opportunistic (opportunistic_pass sample_tick [] []) = Some o' \<and> \<bar>oo_unresolved_kw o'\<bar> \<le> \<bar>oo_site_kw o'\<bar>"
proof -
  have "\<forall>x \<in> set (ranked_assets sample_sim []). x \<in> set sample_sim"
    by (auto simp: ranked_assets_def assets_in_roster_order_def)
  moreover have "list_all (\<lambda>x. takes_part (snd x) (base_command [] x)) sample_sim"
    by (simp add: sample_sim_def sample_asset_def sample_load_def sample_charger_def takes_part_def base_command_def
        response_ok_def resp_fixed_def resp_continuous_def power_when_command_lands_def lands_def clamp_range_def
        snapped_to_zero_def is_storage_def)
  ultimately have part: "\<forall>x \<in> set (ranked_assets (at_sim sample_tick) []). takes_part (snd x) (base_command [] x)"
    by (auto simp: list_all_iff sample_tick_def)
  obtain o' where o': "ao_opportunistic (opportunistic_pass sample_tick [] []) = Some o'"
    by (simp add: opportunistic_pass_def Let_def)
  from opportunistic_keeps_side [OF part o'] o' show ?thesis by (intro exI [of _ o']) auto
qed

section \<open>The comms-loss bounds\<close>

definition inside :: "string \<Rightarrow> f64 \<Rightarrow> f64 \<Rightarrow> setpoints \<Rightarrow> bool" where
  "inside i lo hi sp \<longleftrightarrow> (case hm_get sp i of None \<Rightarrow> True | Some v \<Rightarrow> lo \<le> v \<and> v \<le> hi)"

lemma inside_put: "inside i lo hi (hm_put j v sp) \<longleftrightarrow> (if j = i then lo \<le> v \<and> v \<le> hi else inside i lo hi sp)"
  by (simp add: inside_def hm_simps)

definition clamp_step :: "string \<times> f64 \<times> f64 \<Rightarrow> setpoints \<Rightarrow> setpoints option" where
  "clamp_step = (\<lambda>(i, lo, hi) sp. case hm_get sp i of None \<Rightarrow> Some sp
     | Some v \<Rightarrow> map_option (\<lambda>c. hm_put i c sp) (clamp_checked lo hi v))"

lemma clamp_step_get: "clamp_step (j, lo, hi) sp = Some sp' \<Longrightarrow> i \<noteq> j \<Longrightarrow> hm_get sp' i = hm_get sp i"
  by (auto simp: clamp_step_def hm_simps split: option.splits)

lemma clamp_step_inside: "clamp_step (i, lo, hi) sp = Some sp' \<Longrightarrow> inside i lo hi sp'"
  by (auto simp: clamp_step_def inside_def hm_simps clamp_checked_def clamp_range_in split: option.splits if_splits)

lemma clamp_fold_frame:
  "try_fold clamp_step bs sp = Some sp' \<Longrightarrow> i \<notin> fst ` set bs \<Longrightarrow> hm_get sp' i = hm_get sp i"
proof (induction bs arbitrary: sp)
  case (Cons b bs)
  obtain j lo hi where b: "b = (j, lo, hi)" by (cases b)
  with Cons.prems obtain sp1 where "clamp_step (j, lo, hi) sp = Some sp1" "try_fold clamp_step bs sp1 = Some sp'"
    by (auto split: option.splits)
  with Cons.IH [of sp1] Cons.prems(2) clamp_step_get [of j lo hi sp sp1 i] b show ?case by auto
qed simp

lemma clamp_fold_inside:
  "try_fold clamp_step bs sp = Some sp' \<Longrightarrow> distinct (map fst bs) \<Longrightarrow> (i, lo, hi) \<in> set bs \<Longrightarrow> inside i lo hi sp'"
proof (induction bs arbitrary: sp)
  case (Cons b bs)
  obtain j l h where b: "b = (j, l, h)" by (cases b)
  with Cons.prems obtain sp1 where st: "clamp_step (j, l, h) sp = Some sp1" and run: "try_fold clamp_step bs sp1 = Some sp'"
    by (auto split: option.splits)
  show ?case
  proof (cases "j = i")
    case True
    then have "i \<notin> fst ` set bs" using Cons.prems(2) b by simp
    moreover have "(l, h) = (lo, hi)"
      using Cons.prems(3) b True calculation by (force simp: image_iff)
    ultimately show ?thesis
      using clamp_step_inside [of i lo hi sp sp1] st clamp_fold_frame [OF run, of i] True by (simp add: inside_def)
  next
    case False
    then show ?thesis using Cons.IH [OF run] Cons.prems b by auto
  qed
qed simp

lemma comms_bounds_distinct: "hm_wf sim \<Longrightarrow> distinct (map fst (comms_loss_bounds sim c))"
proof -
  have "map fst (List.map_filter (\<lambda>(i, a). map_option (\<lambda>l. (i, f l)) (as_arbiter_lever a)) sim) =
      map fst (filter (\<lambda>(i, a). as_arbiter_lever a \<noteq> None) sim)" for f :: "arbiter_lever \<Rightarrow> f64 \<times> f64" and sim
    by (induction sim) (auto simp: map_filter_Cons List.map_filter_def split: option.split, metis surj_pair)
  note keys = this
  assume "hm_wf sim"
  then show "distinct (map fst (comms_loss_bounds sim c))"
    by (auto simp: comms_loss_bounds_def hm_wf_def keys distinct_map_filter simp del: not_None_eq split: option.split)
qed

lemma comms_bounds_mem:
  assumes "hm_wf sim" and "hm_get sim i = Some a" and "as_arbiter_lever a = Some l" and "cm_active cl"
  shows "(i, - (cm_max_power_pct cl * al_rated_export_kw l), cm_max_power_pct cl * al_rated_import_kw l)
    \<in> set (comms_loss_bounds sim (Some cl))"
  using hm_get_mem [OF assms(2)] assms(3,4) by (force simp: comms_loss_bounds_def map_filter_mem)

lemma storage_range_within:
  "lo \<le> 0 \<Longrightarrow> 0 \<le> hi \<Longrightarrow> lo \<le> fst (storage_range a (Some (lo, hi))) \<and> snd (storage_range a (Some (lo, hi))) \<le> hi"
  by (auto simp: storage_range_def)

lemma battery_inside:
  assumes app: "apply_battery_lever sim j x obj bnds sp = Some (kw, sp')" and ins: "inside i lo hi sp"
    and b: "j = i \<longrightarrow> bnds = Some (lo, hi)" and z: "lo \<le> 0" "0 \<le> hi"
  shows "inside i lo hi sp'"
proof (cases "j = i \<and> sp' \<noteq> sp")
  case True
  then obtain a where a: "hm_get sim i = Some a" using app by (auto simp: apply_battery_lever_def split: option.splits)
  obtain l h where rng: "storage_range a (Some (lo, hi)) = (l, h)" by (metis prod.exhaust)
  from True app a rng b obtain c where "clamp_checked l h (current_setpoint sp sim i - x) = Some c" "sp' = hm_put i c sp"
    by (auto simp: apply_battery_lever_def Let_def split: option.splits if_splits)
  moreover from this have "l \<le> c \<and> c \<le> h" by (auto simp: clamp_checked_def clamp_range_in split: if_splits)
  ultimately show ?thesis using storage_range_within [OF z, of a] rng by (simp add: inside_put)
next
  case False
  then have "sp' = sp \<or> (j \<noteq> i \<and> (\<exists>c. sp' = hm_put j c sp))"
    using app by (auto simp: apply_battery_lever_def Let_def split: option.splits prod.splits if_splits)
  with ins show ?thesis by (auto simp: inside_put)
qed

lemma apply_get_frame:
  assumes "apply_lever tick obj bounds dev l x p = Some (k, q)" and "lv_asset l \<noteq> Some j"
  shows "hm_get (pa_setpoints q) j = hm_get (pa_setpoints p) j"
proof (cases "lv_asset l")
  case None
  with assms(1) show ?thesis by (cases "lv_kind l") (auto simp: apply_lever_def)
next
  case (Some i)
  with assms(2) have "i \<noteq> j" by simp
  with assms(1) Some show ?thesis
    by (cases "lv_kind l")
      (auto simp: apply_lever_def Let_def hm_simps apply_battery_lever_def apply_ev_lever_def
        apply_heater_pause_lever_def split: option.splits prod.splits if_splits)
qed

lemma apply_inside:
  assumes app: "apply_lever tick obj bounds dev l x p = Some (k, q)" and ins: "inside i lo hi (pa_setpoints p)"
    and kind: "lv_asset l = Some i \<longrightarrow> lv_kind l = LBattery \<or> lv_kind l = LHeaterEmergency"
    and b: "hm_get bounds i = Some (lo, hi)" and z: "lo \<le> 0" "0 \<le> hi"
  shows "inside i lo hi (pa_setpoints q)"
proof (cases "lv_kind l = LBattery")
  case True
  show ?thesis
  proof (cases "lv_asset l")
    case None
    with True app ins show ?thesis by (simp add: apply_lever_def)
  next
    case (Some j)
    obtain kw sp b' where r: "apply_battery_lever (at_sim tick) j (if 0 < dev then x else - x) obj (hm_get bounds j)
        (pa_setpoints p) = Some (kw, sp)" and q: "q = p\<lparr>pa_setpoints := sp, pa_bridge := b'\<rparr>"
      using app True Some by (auto simp: apply_lever_def Let_def split: option.splits prod.splits)
    have "j = i \<longrightarrow> hm_get bounds j = Some (lo, hi)" using b by simp
    from battery_inside [OF r ins this z] show ?thesis by (simp add: q)
  qed
next
  case False
  show ?thesis
  proof (cases "lv_asset l = Some i")
    case True
    with False kind have "lv_kind l = LHeaterEmergency" by blast
    with True app ins z show ?thesis by (auto simp: apply_lever_def Let_def inside_put split: if_splits)
  next
    case False
    with apply_get_frame [OF app] ins show ?thesis by (simp add: inside_def)
  qed
qed

lemma run_inside:
  assumes "run_levers tick obj bounds dev ls p = Some q" and "inside i lo hi (pa_setpoints p)"
    and "\<forall>l \<in> set ls. lv_asset l = Some i \<longrightarrow> lv_kind l = LBattery \<or> lv_kind l = LHeaterEmergency"
    and b: "hm_get bounds i = Some (lo, hi)" and z: "lo \<le> 0" "0 \<le> hi"
  shows "inside i lo hi (pa_setpoints q)"
  using assms(1-3)
proof (induction ls arbitrary: p)
  case (Cons l ls)
  from Cons.prems(1) show ?case
  proof (cases rule: run_Cons_cases)
    case stop
    with Cons.prems(2) show ?thesis by simp
  next
    case skip
    with Cons show ?thesis by simp
  next
    case (step k r)
    have "inside i lo hi (pa_setpoints r)"
      by (rule apply_inside [OF step(3) Cons.prems(2) _ b z]) (use Cons.prems(3) in simp)
    then have "inside i lo hi (pa_setpoints (account l k r))" by (simp add: account_def)
    with step(4) Cons show ?thesis by simp
  qed
qed simp

lemma storage_candidates:
  assumes wf: "hm_wf (at_sim tick)" and i: "i \<in> set (lever_asset_ids [Storage] (at_sim tick))"
    and l: "l \<in> set (lever_candidates sp policy tick inc bounds dev)" "lv_asset l = Some i"
  shows "lv_kind l = LBattery \<or> lv_kind l = LHeaterEmergency"
proof -
  note dis = lever_ids_disjoint [OF wf, of Storage SurplusCharge] lever_ids_disjoint [OF wf, of Storage PausableLoad]
  from l show ?thesis
    using i dis by (auto simp: lever_candidates_def Let_def map_filter_mem declaring_def split: option.splits
        dest!: battery_lever_D ev_lever_D pause_lever_D emergency_lever_D pv_lever_D pv_lever_D [OF sym])
qed

lemma hold_inside:
  "hold_evs sim ids excess held out sp = (h, o', sp') \<Longrightarrow> i \<notin> set ids \<Longrightarrow> inside i lo hi sp \<Longrightarrow> inside i lo hi sp'"
proof (induction sim ids excess held out sp arbitrary: h o' sp' rule: hold_evs.induct)
  case (2 sim j ids excess held out sp)
  have "inside i lo hi (snd (apply_ev_lever sim j excess sp))"
    using 2(4,5) by (auto simp: apply_ev_lever_def Let_def inside_put split: option.split)
  with 2 show ?case by (auto simp: Let_def split: prod.splits if_splits)
qed simp

text \<open>
  C22. While comms-loss is active no later stage takes a storage asset's setpoint out of the fail-safe's
  bounds: whatever was proposed and whatever the import limit asks for, the setpoint that leaves the stages is
  within the rated range times the profile's percentage.
\<close>

theorem comms_loss_storage_bounds:
  assumes wf: "hm_wf (at_sim tick)" and a: "hm_get (at_sim tick) i = Some a" "as_arbiter_lever a = Some l" "al_kind l = Storage"
    and cl: "ds_comms_loss st = Some cl" "cm_active cl" "0 \<le> cm_max_power_pct cl"
    and rated: "0 \<le> al_rated_export_kw l" "0 \<le> al_rated_import_kw l"
    and out: "apply_stages tick now st o' = Some r" "hm_get (ao_setpoints r) i = Some v"
  shows "- (cm_max_power_pct cl * al_rated_export_kw l) \<le> v \<and> v \<le> cm_max_power_pct cl * al_rated_import_kw l"
proof -
  define lo where "lo = - (cm_max_power_pct cl * al_rated_export_kw l)"
  define hi where "hi = cm_max_power_pct cl * al_rated_import_kw l"
  have z: "lo \<le> 0" "0 \<le> hi" using cl(3) rated by (simp_all add: lo_def hi_def)
  let ?sim = "at_sim tick" and ?bounds = "comms_loss_bounds (at_sim tick) (ds_comms_loss st)"
  let ?ltick = "tick\<lparr>at_live := tighten_generation (at_live tick) ?sim (hm_or 0 (ao_pv_tighten_kw o'))\<rparr>"
  have i: "i \<in> set (lever_asset_ids [Storage] ?sim)"
    using a hm_get_mem [OF a(1)] by (auto simp: lever_asset_ids_mem)
  have mem: "(i, lo, hi) \<in> set ?bounds"
    unfolding cl(1) lo_def hi_def by (rule comms_bounds_mem [OF wf a(1,2) cl(2)])
  have dist: "distinct (map fst ?bounds)" by (rule comms_bounds_distinct [OF wf])
  then have get: "hm_get ?bounds i = Some (lo, hi)" using mem by (simp add: hm_get_wf hm_wf_def)
  from out(1) obtain sp1 sp2 lim sp3 where
    clamp: "apply_comms_loss_clamp ?sim (ds_comms_loss st) sp1 = Some sp2"
    and enf: "enforce_import_limit ?ltick (ds_limit_incumbent st) ?bounds sp2 = Some (lim, sp3)"
    and r: "ao_setpoints r = snd (hold_where_commands_land tick lim sp3)"
    by (auto simp: apply_stages_def Let_def split: Option.bind_splits prod.splits)
  have ins2: "inside i lo hi sp2"
    using clamp_fold_inside [OF _ dist mem] clamp by (simp add: apply_comms_loss_clamp_def clamp_step_def)
  have ins3: "inside i lo hi sp3"
  proof (cases "at_limit_target_kw ?ltick")
    case None
    with enf ins2 show ?thesis by (simp add: enforce_import_limit_def)
  next
    case (Some t)
    let ?ex = "projected_net ?sim sp2 (at_live ?ltick) - t"
    show ?thesis
    proof (cases "?ex < dead_band_kw")
      case True
      with enf ins2 Some show ?thesis by (simp add: enforce_import_limit_def Let_def)
    next
      case False
      with enf Some obtain ap where
        pass: "apply_ranked_levers limit_policy ?ltick (ds_limit_incumbent st) ?bounds ?ex sp2 = Some (ap, sp3)"
        by (auto simp: enforce_import_limit_def Let_def split: option.splits)
      then obtain q where run: "run_levers ?ltick (storage_objective limit_policy ?ltick) ?bounds ?ex
          (rank_levers (lever_candidates sp2 limit_policy ?ltick (ds_limit_incumbent st) ?bounds ?ex) (ds_limit_incumbent st))
          (pass_start sp2 ?ex) = Some q" and sp3: "sp3 = pa_setpoints q"
        by (auto simp: apply_ranked_levers_def split: option.splits)
      show ?thesis unfolding sp3
      proof (rule run_inside [OF run _ _ get z])
        show "inside i lo hi (pa_setpoints (pass_start sp2 ?ex))" using ins2 by (simp add: pass_start_def)
        show "\<forall>l \<in> set (rank_levers (lever_candidates sp2 limit_policy ?ltick (ds_limit_incumbent st) ?bounds ?ex)
            (ds_limit_incumbent st)). lv_asset l = Some i \<longrightarrow> lv_kind l = LBattery \<or> lv_kind l = LHeaterEmergency"
          unfolding rank_levers_set using storage_candidates [of ?ltick i] wf i by auto
      qed
    qed
  qed
  have "i \<notin> set (lever_asset_ids [SurplusCharge] ?sim)" using i lever_ids_disjoint [OF wf, of Storage SurplusCharge] by auto
  then have "inside i lo hi (ao_setpoints r)"
    unfolding r using ins3 hold_inside
    by (auto simp: hold_where_commands_land_def Let_def split: option.split prod.splits)
  then show ?thesis using out(2) by (simp add: inside_def lo_def hi_def)
qed

definition sample_stages :: dispatch_stages where
  "sample_stages = \<lparr>ds_dispatch_windows = [], ds_alert_windows = [],
     ds_comms_loss = Some \<lparr>cm_active = True, cm_max_power_pct = 1 / 5\<rparr>, ds_limit_incumbent = None\<rparr>"

lemma comms_loss_storage_bounds_witness:
  "\<exists>r v. apply_stages (sample_tick\<lparr>at_limit_target_kw := None\<rparr>) 0 sample_stages
       (outcome_default\<lparr>ao_setpoints := [(''bat'', 3)]\<rparr>) = Some r \<and>
     hm_get (ao_setpoints r) ''bat'' = Some v \<and> v \<le> 1"
proof -
  let ?tick = "sample_tick\<lparr>at_limit_target_kw := None\<rparr>" and ?o = "outcome_default\<lparr>ao_setpoints := [(''bat'', 3)]\<rparr>"
  have clamp: "apply_comms_loss_clamp sample_sim (ds_comms_loss sample_stages) [(''bat'', 3)] = Some [(''bat'', 1)]"
  proof -
    have bounds: "comms_loss_bounds sample_sim (ds_comms_loss sample_stages) = [(''bat'', - 1, 1), (''ev'', 0, 1)]"
      by (simp add: comms_loss_bounds_def sample_stages_def sample_sim_def sample_asset_def
          sample_charger_def sample_load_def List.map_filter_def)
    show ?thesis
      by (simp only: apply_comms_loss_clamp_def bounds) (simp add: clamp_checked_def clamp_range_def hm_put_def)
  qed
  define r where "r = ?o\<lparr>ao_setpoints := [(''bat'', 1)]\<rparr>"
  have r: "apply_stages ?tick 0 sample_stages ?o = Some r" "ao_setpoints r = [(''bat'', 1)]"
    using clamp by (simp_all add: r_def apply_stages_def apply_dispatch_override_def any_covering_def covering_def
        sample_stages_def sample_tick_def enforce_import_limit_def hold_where_commands_land_def outcome_default_def)
  have "hm_wf (at_sim ?tick)" "hm_get (at_sim ?tick) ''bat'' = Some sample_asset"
    "as_arbiter_lever sample_asset = Some \<lparr>al_kind = Storage, al_rated_import_kw = 5, al_rated_export_kw = 5\<rparr>"
    by (simp_all add: sample_tick_def sample_sim_def hm_wf_def sample_asset_def)
  from comms_loss_storage_bounds [OF this, of sample_stages "\<lparr>cm_active = True, cm_max_power_pct = 1 / 5\<rparr>" 0 ?o r 1] r
  show ?thesis by - (rule exI [of _ r], rule exI [of _ 1], simp add: sample_stages_def)
qed

section \<open>Release\<close>

lemma fold_put_frame:
  "i \<notin> set ids \<Longrightarrow> hm_get (fold (\<lambda>i sp. case f i of None \<Rightarrow> sp | Some v \<Rightarrow> hm_put i (g v) sp) ids sp) i = hm_get sp i"
  by (induction ids arbitrary: sp) (auto simp: hm_simps split: option.split)

lemma fold_put_get:
  "hm_get (fold (\<lambda>i sp. case f i of None \<Rightarrow> sp | Some v \<Rightarrow> hm_put i (g v) sp) ids sp) i =
     (if i \<in> set ids \<and> f i \<noteq> None then map_option g (f i) else hm_get sp i)"
proof (induction ids arbitrary: sp)
  case (Cons j ids)
  then show ?case by (auto simp: hm_simps split: option.split)
qed simp

lemma at_plan_get:
  "hm_get (at_plan sp plan_sp sim) i =
     (if i \<in> set (carried_ids sim) \<and> hm_get plan_sp i \<noteq> None then hm_get plan_sp i else hm_get sp i)"
  unfolding at_plan_def by (subst fold_put_get [where g = "\<lambda>v. v"]) (auto simp: option.map_ident)

lemma drop_bridge_frame: "i \<notin> fst ` set b \<Longrightarrow> hm_get (drop_last_bridge b sp) i = hm_get sp i"
  unfolding drop_last_bridge_def
  by (induction b arbitrary: sp) (auto simp: hm_simps split: option.split)

text \<open>The sample site once its charger has taken a surplus.\<close>

lemmas site_defs = sample_tick_def sample_sim_def sample_asset_def sample_charger_def sample_load_def

lemma sample_lever_ids:
  "lever_asset_ids [Storage] sample_sim = [''bat'']" "lever_asset_ids [SurplusCharge] sample_sim = [''ev'']"
  by (simp_all add: lever_asset_ids_def assets_in_roster_order_def site_defs)

lemma sample_carried: "carried_ids sample_sim = [''bat'', ''ev'']"
  by (simp add: carried_ids_def sample_lever_ids)

lemma sample_carry:
  "at_sim tick = sample_sim \<Longrightarrow> at_prev_bridge tick = [] \<Longrightarrow>
     carry_forward tick [(''ev'', 0), (''bat'', 0)] = [(''ev'', 2), (''bat'', 0)]"
  by (simp add: carry_forward_def carried_ids_def drop_last_bridge_def sample_lever_ids)
    (simp add: site_defs hm_put_def setpoint_or_power_def)

text \<open>
  A correction is released in one tick and wholly: where putting the carried levers back would leave no
  deviation, every carried asset the plan commands gets exactly its plan setpoint, every asset that is not
  carried and was not bridged keeps its own, and the pass reports nothing held, moved or unresolved.
\<close>

theorem reconcile_releases:
  assumes slot: "at_slot tick = Some slot"
    and gone: "\<bar>deviation_without_correction tick slot (carry_forward tick base) base\<bar> < dead_band_kw"
  shows "\<exists>o'. reconcile tick base inc = Some o' \<and>
    (\<forall>i \<in> set (carried_ids (at_sim tick)). hm_get base i \<noteq> None \<longrightarrow> hm_get (ao_setpoints o') i = hm_get base i) \<and>
    (\<forall>i. i \<notin> set (carried_ids (at_sim tick)) \<and> i \<notin> fst ` set (at_prev_bridge tick) \<longrightarrow>
       hm_get (ao_setpoints o') i = hm_get base i) \<and>
    ao_displaced o' = [] \<and> ao_active o' = None \<and> ao_unresolved_kw o' = 0 \<and> ao_bridge o' = [] \<and>
    ao_pv_tighten_kw o' = None \<and> ao_emergency_mode o' = []"
proof -
  obtain o' where o': "reconcile tick base inc = Some o'"
    "ao_setpoints o' = at_plan (carry_forward tick base) base (at_sim tick)"
    "ao_displaced o' = [] \<and> ao_active o' = None \<and> ao_unresolved_kw o' = 0 \<and> ao_bridge o' = [] \<and>
     ao_pv_tighten_kw o' = None \<and> ao_emergency_mode o' = []"
    using slot gone by (auto simp: reconcile_def Let_def outcome_default_def)
  have "hm_get (carry_forward tick base) i = hm_get base i"
    if "i \<notin> set (carried_ids (at_sim tick))" "i \<notin> fst ` set (at_prev_bridge tick)" for i
    unfolding carry_forward_def drop_bridge_frame [OF that(2)] by (rule fold_put_frame [OF that(1)])
  with o' show ?thesis by (intro exI [of _ o']) (auto simp: at_plan_get)
qed

definition sample_slot :: plan_time_slot where
  "sample_slot = \<lparr>ps_start = 0, ps_end = 300, ps_export_tariff = 0, ps_marginal_cost_import = 0, ps_marginal_cost_export = 0,
     ps_pv_forecast_kw = 0, ps_pv_used_kw = 0, ps_allocations = [], ps_net_import_kw = 3, ps_net_export_kw = 0\<rparr>"

lemma reconcile_releases_witness:
  "\<exists>o'. reconcile (sample_tick\<lparr>at_slot := Some sample_slot, at_limit_target_kw := None\<rparr>) [(''ev'', 0), (''bat'', 0)] None = Some o' \<and>
     hm_get (ao_setpoints o') ''ev'' = Some 0 \<and> ao_unresolved_kw o' = 0"
proof -
  let ?tick = "sample_tick\<lparr>at_slot := Some sample_slot, at_limit_target_kw := None\<rparr>"
  let ?base = "[(''ev'', 0), (''bat'', 0)] :: setpoints"
  have carry: "carry_forward ?tick ?base = [(''ev'', 2), (''bat'', 0)]"
    by (rule sample_carry) (simp_all add: sample_tick_def)
  have plan: "at_plan [(''ev'', 2), (''bat'', 0)] ?base sample_sim = ?base"
    by (simp add: at_plan_def sample_carried hm_put_def)
  have "deviation_without_correction ?tick sample_slot (carry_forward ?tick ?base) ?base = 0"
    unfolding carry deviation_without_correction_def Let_def
    by (simp add: sample_tick_def sample_carried plan)
      (simp add: deviation_kw_def sample_slot_def landed_kw_def projected_net_except_def site_defs asset_draw_def
        current_setpoint_def power_when_command_lands_def lands_def clamp_range_def snapped_to_zero_def resp_continuous_def)
  then have dev: "\<bar>deviation_without_correction ?tick sample_slot (carry_forward ?tick ?base) ?base\<bar> < dead_band_kw"
    by (simp add: dead_band_kw_def)
  have slot: "at_slot ?tick = Some sample_slot" by simp
  from reconcile_releases [OF slot dev, of None] show ?thesis
    by (auto simp: sample_tick_def sample_carried)
qed

text \<open>
  Without a plan a charger that took a surplus is not stopped when the surplus is gone: the pass carries
  its last command forward and the surplus offer leaves it alone, so it goes on charging from the grid.
\<close>

theorem no_plan_keeps_charging:
  "\<exists>o'. reconcile (sample_tick\<lparr>at_overlay := [(''ev'', overlay_overriding)]\<rparr>) [(''ev'', 0), (''bat'', 0)] inc = Some o' \<and>
     hm_get (ao_setpoints o') ''ev'' = Some 2 \<and> projected_net sample_sim (ao_setpoints o') (at_live sample_tick) = 5"
proof -
  let ?tick = "sample_tick\<lparr>at_overlay := [(''ev'', overlay_overriding)]\<rparr>"
  have carry: "carry_forward ?tick [(''ev'', 0), (''bat'', 0)] = [(''ev'', 2), (''bat'', 0)]"
    by (rule sample_carry) (simp_all add: sample_tick_def)
  have evs: "surplus_evs sample_sim (at_overlay ?tick) = [''ev'']"
    by (simp add: surplus_evs_def sample_lever_ids offers_surplus_def overlay_overriding_def)
  have surplus: "ev_surplus_kw sample_sim (at_live ?tick) (at_overlay ?tick) [(''ev'', 2), (''bat'', 0)] = 0"
    unfolding ev_surplus_kw_def evs sample_lever_ids Let_def
    by (simp add: projected_net_except_def asset_draw_def site_defs hm_or_def)
  have "apply_ev_lever_opportunistic sample_sim (at_live ?tick) (at_overlay ?tick) [(''ev'', 2), (''bat'', 0)] =
      [(''ev'', 2), (''bat'', 0)]"
    unfolding apply_ev_lever_opportunistic_def surplus evs by (simp add: dead_band_kw_def)
  then obtain o' where o': "reconcile ?tick [(''ev'', 0), (''bat'', 0)] inc = Some o'"
    "ao_setpoints o' = [(''ev'', 2), (''bat'', 0)]"
    using carry by (simp add: reconcile_def Let_def sample_tick_def)
  moreover have "projected_net sample_sim [(''ev'', 2), (''bat'', 0)] (at_live sample_tick) = 5"
    by (simp add: projected_net_def projected_net_except_def site_defs asset_draw_def current_setpoint_def
        power_drawn_for_setpoint_def draws_def resp_continuous_def lands_def clamp_range_def snapped_to_zero_def)
  ultimately show ?thesis by (intro exI [of _ o']) simp
qed

end
