(* ===== verification/Asset_Physics.thy ===== *)
theory Asset_Physics
  imports Setpoint_Response Fleet_Channel Capacity
begin

text \<open>
  \<open>VEN/src/assets/asset_trait.rs\<close>, \<open>VEN/src/assets/max_power.rs\<close> and the capability part of
  \<open>VEN/src/entities/asset.rs\<close>: what every asset of the roster answers, the walk that projects an asset
  through a schedule of setpoints, and the contract the assets' physics keep.

  An asset is a pair of a configuration and a state; the trait's \<open>step\<close> is a parameter of the walk. The
  instants of a schedule are unbounded here: the panic of \<open>DateTime + Duration\<close> at the end of the calendar is
  outside this model.
\<close>

datatype power_adjustability = AdjNone | Recommendation | OnOff | Stepped | Stepless | Croppable

record asset_capability =
  cap_max_export_kw :: f64
  cap_max_import_kw :: f64
  cap_adjustability :: power_adjustability
  cap_response :: setpoint_response

record flexibility_floor =
  ff_min_export_kw :: f64
  ff_min_import_kw :: f64

definition cap_draws :: "asset_capability \<Rightarrow> f64 \<Rightarrow> f64" where
  "cap_draws c sp = draws (cap_response c) (- \<bar>cap_max_export_kw c\<bar>) (cap_max_import_kw c) sp"

definition cap_lands :: "asset_capability \<Rightarrow> f64 \<Rightarrow> f64" where
  "cap_lands c sp = lands (cap_response c) (- \<bar>cap_max_export_kw c\<bar>) (cap_max_import_kw c) sp"

definition is_fixed :: "asset_capability \<Rightarrow> flexibility_floor \<Rightarrow> bool" where
  "is_fixed c f \<longleftrightarrow> \<bar>cap_max_export_kw c - ff_min_export_kw f\<bar> < 1 / 10 ^ 6 \<and>
     \<bar>cap_max_import_kw c - ff_min_import_kw f\<bar> < 1 / 10 ^ 6"

section \<open>Units\<close>

definition energy_kwh_from_min :: "f64 \<Rightarrow> f64 \<Rightarrow> f64" where
  "energy_kwh_from_min power_kw minutes = power_kw * minutes / 60"

definition s_from_h :: "f64 \<Rightarrow> f64" where
  "s_from_h h = h * 3600"

definition s_from_min :: "f64 \<Rightarrow> f64" where
  "s_from_min minutes = minutes * 60"

lemma dt_h_nonneg: "0 \<le> dt \<Longrightarrow> 0 \<le> dt_h_from_duration dt"
  by (simp add: dt_h_from_duration_def num_milliseconds_nonneg)

lemma dt_h_zero [simp]: "dt_h_from_duration 0 = 0"
  by (simp add: dt_h_from_duration_def num_milliseconds_def trunc_div_def)

lemma dt_h_mono: "0 \<le> a \<Longrightarrow> a \<le> b \<Longrightarrow> dt_h_from_duration a \<le> dt_h_from_duration b"
  by (simp add: dt_h_from_duration_def num_milliseconds_def time_simps zdiv_mono1 divide_right_mono)

section \<open>A schedule and the walk through it\<close>

type_synonym schedule = "(instant \<times> f64) list"
type_synonym 's trajectory = "(instant \<times> f64 \<times> 's) list"

text \<open>\<open>Asset::simulate_forward\<close>: each point holds the state before its window and the power in it.\<close>

fun simulate_forward :: "('s \<Rightarrow> f64 \<Rightarrow> span \<Rightarrow> 's \<times> f64) \<Rightarrow> 's \<Rightarrow> schedule \<Rightarrow> 's trajectory" where
  "simulate_forward step s [] = []"
| "simulate_forward step s [(ts, sp)] = [(ts, snd (step s sp 0), s)]"
| "simulate_forward step s ((ts, sp) # (ts', sp') # rest) =
     (let (next, actual_kw) = step s sp (ts' - ts)
      in (ts, actual_kw, s) # simulate_forward step next ((ts', sp') # rest))"

text \<open>The instants of \<open>max_effort_schedule\<close>: every 60 s from \<open>t\<close> on, before \<open>tend\<close>.\<close>

function effort_instants :: "instant \<Rightarrow> instant \<Rightarrow> instant list" where
  "effort_instants t tend = (if t < tend then t # effort_instants (t + seconds 60) tend else [])"
  by auto
termination
  by (relation "measure (\<lambda>(t, tend). nat (tend - t))") (auto simp: seconds_def)

declare effort_instants.simps [simp del]

definition max_effort_setpoint :: "asset_capability \<Rightarrow> commitment_direction \<Rightarrow> f64" where
  "max_effort_setpoint c d = (case d of Import \<Rightarrow> cap_max_import_kw c | Export \<Rightarrow> cap_max_export_kw c)"

definition max_effort_schedule :: "asset_capability \<Rightarrow> commitment_direction \<Rightarrow> instant \<Rightarrow> instant \<Rightarrow> schedule" where
  "max_effort_schedule c d t1 tend =
     (let sp = max_effort_setpoint c d in
      if tend \<le> t1 then [(t1, sp), (t1, sp)]
      else map (\<lambda>t. (t, sp)) (effort_instants t1 tend) @ [(tend, sp)])"

text \<open>\<open>asset_max_power_series\<close>: seconds since \<open>t1\<close>, the power, the energy moved before the point.\<close>

fun power_series :: "instant \<Rightarrow> f64 \<Rightarrow> 's trajectory \<Rightarrow> (int \<times> f64 \<times> f64) list" where
  "power_series t1 energy [] = []"
| "power_series t1 energy [(ts, kw, s)] = [(num_seconds (ts - t1), kw, energy)]"
| "power_series t1 energy ((ts, kw, s) # (ts', kw', s') # rest) =
     (num_seconds (ts - t1), kw, energy) #
     power_series t1 (energy + energy_kwh \<bar>kw\<bar> (dt_h_from_duration (ts' - ts))) ((ts', kw', s') # rest)"

definition asset_max_power_series ::
  "('s \<Rightarrow> f64 \<Rightarrow> span \<Rightarrow> 's \<times> f64) \<Rightarrow> 's \<Rightarrow> schedule \<Rightarrow> instant \<Rightarrow> (int \<times> f64 \<times> f64) list" where
  "asset_max_power_series step s sched t1 = power_series t1 0 (simulate_forward step s sched)"

lemma effort_instants_mem: "t \<in> set (effort_instants t1 tend) \<Longrightarrow> t1 \<le> t \<and> t < tend"
proof (induction t1 tend rule: effort_instants.induct)
  case (1 t1 tend)
  show ?case
  proof (cases "t1 < tend")
    case True
    have "t = t1 \<or> t \<in> set (effort_instants (t1 + seconds 60) tend)"
      using "1.prems" True by (subst (asm) effort_instants.simps) simp
    with "1.IH" [OF True] True show ?thesis by (auto simp: seconds_def)
  qed (use "1.prems" in \<open>subst (asm) effort_instants.simps, simp\<close>)
qed

lemma effort_instants_sorted: "sorted_wrt (<) (effort_instants t1 tend)"
proof (induction t1 tend rule: effort_instants.induct)
  case (1 t1 tend)
  then show ?case
    by (subst effort_instants.simps) (auto dest: effort_instants_mem simp: seconds_def)
qed

lemma simulate_forward_instants: "map fst (simulate_forward step s sched) = map fst sched"
  by (induction step s sched rule: simulate_forward.induct) (auto split: prod.split)

lemma simulate_forward_length [simp]: "length (simulate_forward step s sched) = length sched"
  using simulate_forward_instants [of step s sched] by (metis length_map)

section \<open>A run of ticks\<close>

text \<open>What the tick loop does to one asset: a step per commanded setpoint and tick length.\<close>

fun run_steps :: "('s \<Rightarrow> f64 \<Rightarrow> span \<Rightarrow> 's \<times> f64) \<Rightarrow> 's \<Rightarrow> (f64 \<times> span) list \<Rightarrow> 's \<times> (f64 \<times> span) list" where
  "run_steps step s [] = (s, [])"
| "run_steps step s ((sp, dt) # cmds) =
     (let (s', kw) = step s sp dt; (s'', out) = run_steps step s' cmds in (s'', (kw, dt) # out))"

lemma run_steps_snoc:
  "run_steps step s (cmds @ [(sp, dt)]) =
     (let (s', out) = run_steps step s cmds; (s'', kw) = step s' sp dt in (s'', out @ [(kw, dt)]))"
  by (induction cmds arbitrary: s) (auto split: prod.splits)

definition energy_of :: "(f64 \<times> span) list \<Rightarrow> f64" where
  "energy_of out = sum_list (map (\<lambda>(kw, dt). energy_kwh kw (dt_h_from_duration dt)) out)"

text \<open>What the asset took and what it gave over a run, each as a magnitude.\<close>

definition taken_kwh :: "(f64 \<times> span) list \<Rightarrow> f64" where
  "taken_kwh out = energy_of (map (\<lambda>(kw, dt). (max kw 0, dt)) out)"

definition given_kwh :: "(f64 \<times> span) list \<Rightarrow> f64" where
  "given_kwh out = energy_of (map (\<lambda>(kw, dt). (max (- kw) 0, dt)) out)"

lemma energy_of_simps [simp]:
  "energy_of [] = 0" "energy_of ((kw, dt) # out) = energy_kwh kw (dt_h_from_duration dt) + energy_of out"
  by (simp_all add: energy_of_def)

lemma taken_given_simps [simp]:
  "taken_kwh [] = 0" "taken_kwh ((kw, dt) # out) = max kw 0 * dt_h_from_duration dt + taken_kwh out"
  "given_kwh [] = 0" "given_kwh ((kw, dt) # out) = max (- kw) 0 * dt_h_from_duration dt + given_kwh out"
  by (simp_all add: taken_kwh_def given_kwh_def energy_kwh_def)

section \<open>The contract of an asset's physics\<close>

text \<open>
  Whatever is commanded, a step keeps the asset's invariant and its power lies in the range the asset is rated
  for. The projections of \<open>capacity_headroom\<close> and of the planner rest on this alone.
\<close>

locale asset_physics =
  fixes inv :: "'c \<Rightarrow> 's \<Rightarrow> bool"
    and step :: "'c \<Rightarrow> 's \<Rightarrow> f64 \<Rightarrow> span \<Rightarrow> 's \<times> f64"
    and rated :: "'c \<Rightarrow> f64 \<times> f64"
  assumes step_inv: "inv c s \<Longrightarrow> inv c (fst (step c s sp dt))"
    and step_rated: "inv c s \<Longrightarrow> fst (rated c) \<le> snd (step c s sp dt) \<and> snd (step c s sp dt) \<le> snd (rated c)"
begin

lemma forward_points:
  "inv c s \<Longrightarrow> (ts, kw, s') \<in> set (simulate_forward (step c) s sched) \<Longrightarrow>
     inv c s' \<and> fst (rated c) \<le> kw \<and> kw \<le> snd (rated c)"
proof (induction "step c" s sched rule: simulate_forward.induct)
  case (2 s ts' sp)
  then show ?case using step_rated [OF "2.prems"(1)] by auto
next
  case (3 s t1 sp t2 sp2 rest)
  obtain n a where st: "step c s sp (t2 - t1) = (n, a)" by (metis prod.exhaust)
  have "inv c n" using step_inv [OF "3.prems"(1), of sp "t2 - t1"] st by simp
  with "3.hyps" [OF st [symmetric] refl] "3.prems" step_rated [OF "3.prems"(1), of sp "t2 - t1"] st
  show ?case by auto
qed simp

lemma run_inv: "inv c s \<Longrightarrow> inv c (fst (run_steps (step c) s cmds))"
proof (induction cmds arbitrary: s)
  case (Cons cmd cmds)
  obtain sp dt where cmd: "cmd = (sp, dt)" by (cases cmd)
  show ?case using Cons.IH [OF step_inv [OF Cons.prems, of sp dt]]
    by (auto simp: cmd split: prod.split)
qed simp

lemma run_rated: "inv c s \<Longrightarrow> (kw, dt) \<in> set (snd (run_steps (step c) s cmds)) \<Longrightarrow>
    fst (rated c) \<le> kw \<and> kw \<le> snd (rated c)"
proof (induction cmds arbitrary: s)
  case (Cons cmd cmds)
  obtain sp d where cmd: "cmd = (sp, d)" by (cases cmd)
  show ?case
    using Cons.prems Cons.IH [OF step_inv [OF Cons.prems(1), of sp d]] step_rated [OF Cons.prems(1), of sp d]
    by (auto simp: cmd split: prod.splits)
qed simp

end

text \<open>A roster entry keeps its configuration through a run: the physics never writes it.\<close>

definition entry_step :: "('c \<Rightarrow> 's \<Rightarrow> f64 \<Rightarrow> span \<Rightarrow> 's \<times> f64) \<Rightarrow> 'c \<times> 's \<Rightarrow> f64 \<times> span \<Rightarrow> 'c \<times> 's" where
  "entry_step step e cmd = (fst e, fst (step (fst e) (snd e) (fst cmd) (snd cmd)))"

sublocale asset_physics \<subseteq> entry: framed_steps "\<lambda>e. inv (fst e) (snd e)" "entry_step step" fst
  by unfold_locales (auto simp: entry_step_def step_inv)

end
