(* ===== verification/Battery.thy ===== *)
theory Battery
  imports Asset_Physics
begin

text \<open>
  \<open>VEN/src/assets/battery.rs\<close>: the battery's configuration and state, one physics step, what it reports, and
  the edits a user may make. The loss is split on both legs: a charge stores \<open>sqrt \<eta>\<close> of what it takes, a
  discharge takes \<open>1 / sqrt \<eta>\<close> of what it gives.
\<close>

record battery =
  bt_capacity_kwh :: f64
  bt_max_charge_kw :: f64
  bt_max_discharge_kw :: f64
  bt_round_trip_efficiency :: f64
  bt_min_soc_frac :: f64

record battery_params =
  bp_capacity_kwh :: f64
  bp_max_charge_kw :: f64
  bp_max_discharge_kw :: f64
  bp_initial_soc_frac :: f64
  bp_round_trip_efficiency :: f64
  bp_min_soc_frac :: f64

record battery_state =
  bs_soc_frac :: f64
  bs_actual_power_kw :: f64

definition battery_params_default :: battery_params where
  "battery_params_default = \<lparr>bp_capacity_kwh = 10, bp_max_charge_kw = 5, bp_max_discharge_kw = 5,
     bp_initial_soc_frac = 1 / 2, bp_round_trip_efficiency = 92 / 100, bp_min_soc_frac = 1 / 10\<rparr>"

definition battery_from_params :: "battery_params \<Rightarrow> battery" where
  "battery_from_params p = \<lparr>bt_capacity_kwh = bp_capacity_kwh p, bt_max_charge_kw = bp_max_charge_kw p,
     bt_max_discharge_kw = bp_max_discharge_kw p, bt_round_trip_efficiency = bp_round_trip_efficiency p,
     bt_min_soc_frac = bp_min_soc_frac p\<rparr>"

definition battery_initial :: "battery_params \<Rightarrow> battery_state" where
  "battery_initial p = \<lparr>bs_soc_frac = bp_initial_soc_frac p, bs_actual_power_kw = 0\<rparr>"

definition bt_leg_eff :: "battery \<Rightarrow> f64" where
  "bt_leg_eff b = sqrt (bt_round_trip_efficiency b)"

definition battery_power :: "battery \<Rightarrow> battery_state \<Rightarrow> f64 \<Rightarrow> f64" where
  "battery_power b s sp =
     (let clamped = min (max sp (- bt_max_discharge_kw b)) (bt_max_charge_kw b) in
      if (0 < clamped \<and> 1 \<le> bs_soc_frac s) \<or> (clamped < 0 \<and> bs_soc_frac s \<le> bt_min_soc_frac b) then 0 else clamped)"

definition battery_step :: "battery \<Rightarrow> battery_state \<Rightarrow> f64 \<Rightarrow> span \<Rightarrow> battery_state \<times> f64" where
  "battery_step b s sp dt =
     (let dt_h = dt_h_from_duration dt; actual = battery_power b s sp; eff = bt_leg_eff b;
          energy = actual * dt_h * (if 0 < actual then eff else 1 / eff);
          new_soc = clamp_range 0 1 (bs_soc_frac s + energy / bt_capacity_kwh b)
      in (\<lparr>bs_soc_frac = new_soc, bs_actual_power_kw = actual\<rparr>, actual))"

definition sustained_power_min_s :: f64 where "sustained_power_min_s = 60"

definition battery_capability :: "battery \<Rightarrow> battery_state \<Rightarrow> asset_capability" where
  "battery_capability b s =
     (let eff = bt_leg_eff b; window_h = dt_h_from_s sustained_power_min_s;
          charge_room = (1 - bs_soc_frac s) * bt_capacity_kwh b;
          discharge_room = (bs_soc_frac s - bt_min_soc_frac b) * bt_capacity_kwh b
      in \<lparr>cap_max_export_kw = (if bt_max_discharge_kw b / eff * window_h < discharge_room then - bt_max_discharge_kw b else 0),
          cap_max_import_kw = (if bt_max_charge_kw b * eff * window_h < charge_room then bt_max_charge_kw b else 0),
          cap_adjustability = Stepless, cap_response = resp_continuous\<rparr>)"

definition battery_floor :: "battery_state \<Rightarrow> flexibility_floor" where
  "battery_floor s = \<lparr>ff_min_export_kw = 0, ff_min_import_kw = 0\<rparr>"

definition battery_lever_of :: "battery \<Rightarrow> arbiter_lever" where
  "battery_lever_of b = \<lparr>al_kind = Storage, al_rated_import_kw = bt_max_charge_kw b, al_rated_export_kw = bt_max_discharge_kw b\<rparr>"

definition battery_surplus_claim_rank :: nat where "battery_surplus_claim_rank = 3"

definition battery_stored_kwh :: "battery \<Rightarrow> battery_state \<Rightarrow> f64" where
  "battery_stored_kwh b s = bs_soc_frac s * bt_capacity_kwh b"

definition battery_available_storage :: "battery \<Rightarrow> battery_state \<Rightarrow> f64 \<times> f64" where
  "battery_available_storage b s =
     (max (bs_soc_frac s - bt_min_soc_frac b) 0 * bt_capacity_kwh b, max (1 - bs_soc_frac s) 0 * bt_capacity_kwh b)"

section \<open>Edits\<close>

definition battery_reset :: "f64 hmap \<Rightarrow> battery_state \<Rightarrow> battery_state" where
  "battery_reset values s = (case hm_get values ''soc'' of None \<Rightarrow> s | Some v \<Rightarrow> s\<lparr>bs_soc_frac := clamp_range 0 1 v\<rparr>)"

text \<open>The first broken limit, with the key that breaks it.\<close>

definition outside_unit :: "f64 option \<Rightarrow> bool" where
  "outside_unit v = (case v of None \<Rightarrow> False | Some x \<Rightarrow> \<not> (0 \<le> x \<and> x \<le> 1))"

definition battery_validate :: "f64 hmap \<Rightarrow> string + unit" where
  "battery_validate values =
     (case List.find (\<lambda>key. outside_unit (hm_get values key)) [''soc'', ''min_soc''] of
        Some key \<Rightarrow> Inl key
      | None \<Rightarrow>
          if (case hm_get values ''capacity_kwh'' of None \<Rightarrow> False | Some v \<Rightarrow> v \<le> 0)
          then Inl ''capacity_kwh'' else Inr ())"

definition battery_update_config :: "f64 hmap \<Rightarrow> battery \<Rightarrow> battery" where
  "battery_update_config values b0 =
     (let b1 = (case hm_get values ''capacity_kwh'' of None \<Rightarrow> b0 | Some v \<Rightarrow> b0\<lparr>bt_capacity_kwh := max v (1 / 10)\<rparr>)
      in case hm_get values ''min_soc'' of None \<Rightarrow> b1 | Some v \<Rightarrow> b1\<lparr>bt_min_soc_frac := clamp_range 0 1 v\<rparr>)"

section \<open>The battery keeps the contract\<close>

definition battery_wf :: "battery \<Rightarrow> bool" where
  "battery_wf b \<longleftrightarrow> 0 < bt_capacity_kwh b \<and> 0 \<le> bt_max_charge_kw b \<and> 0 \<le> bt_max_discharge_kw b \<and>
     0 < bt_round_trip_efficiency b \<and> bt_round_trip_efficiency b \<le> 1 \<and>
     0 \<le> bt_min_soc_frac b \<and> bt_min_soc_frac b \<le> 1"

definition battery_inv :: "battery \<Rightarrow> battery_state \<Rightarrow> bool" where
  "battery_inv b s \<longleftrightarrow> battery_wf b \<and> 0 \<le> bs_soc_frac s \<and> bs_soc_frac s \<le> 1"

definition battery_rated :: "battery \<Rightarrow> f64 \<times> f64" where
  "battery_rated b = (- bt_max_discharge_kw b, bt_max_charge_kw b)"

lemma battery_power_rated:
  "battery_wf b \<Longrightarrow> - bt_max_discharge_kw b \<le> battery_power b s sp \<and> battery_power b s sp \<le> bt_max_charge_kw b"
  by (auto simp: battery_power_def battery_wf_def Let_def)

lemma clamp_unit: "0 \<le> clamp_range 0 1 x \<and> clamp_range 0 1 x \<le> 1"
  by (simp add: clamp_range_def)

interpretation bat: asset_physics battery_inv battery_step battery_rated
  by unfold_locales
    (auto simp: battery_inv_def battery_step_def Let_def clamp_unit battery_rated_def battery_power_rated
       dest: battery_power_rated)

lemma bt_eff_range: "battery_wf b \<Longrightarrow> 0 < bt_leg_eff b \<and> bt_leg_eff b \<le> 1"
  by (simp add: battery_wf_def bt_leg_eff_def)

lemma bt_eff_square: "battery_wf b \<Longrightarrow> bt_leg_eff b * bt_leg_eff b = bt_round_trip_efficiency b"
  by (simp add: battery_wf_def bt_leg_eff_def)

section \<open>Charge and energy over a run\<close>

text \<open>One tick of at most \<open>d\<close> of full discharge below the floor.\<close>

definition undershoot :: "battery \<Rightarrow> span \<Rightarrow> f64" where
  "undershoot b d = bt_max_discharge_kw b * dt_h_from_duration d / (bt_leg_eff b * bt_capacity_kwh b)"

lemma discharge_drop:
  assumes wf: "battery_wf b" and dt: "0 \<le> dt" "dt \<le> d" and a: "- bt_max_discharge_kw b \<le> a" "a \<le> 0"
  shows "- undershoot b d \<le> a * dt_h_from_duration dt * (1 / bt_leg_eff b) / bt_capacity_kwh b"
proof -
  have pos: "0 < bt_leg_eff b * bt_capacity_kwh b" using bt_eff_range [OF wf] wf by (simp add: battery_wf_def)
  have "- a * dt_h_from_duration dt \<le> bt_max_discharge_kw b * dt_h_from_duration d"
    using a wf by (intro mult_mono dt_h_mono dt dt_h_nonneg) (auto simp: battery_wf_def)
  then have "- (bt_max_discharge_kw b * dt_h_from_duration d) \<le> a * dt_h_from_duration dt" by simp
  from divide_right_mono [OF this less_imp_le [OF pos]] show ?thesis by (simp add: undershoot_def divide_divide_eq_left)
qed

lemma battery_power_neg: "battery_power b s sp < 0 \<Longrightarrow> bt_min_soc_frac b < bs_soc_frac s"
  by (auto simp: battery_power_def Let_def split: if_splits)

lemma battery_step_soc:
  "bs_soc_frac (fst (battery_step b s sp dt)) = clamp_range 0 1 (bs_soc_frac s + battery_power b s sp *
     dt_h_from_duration dt * (if 0 < battery_power b s sp then bt_leg_eff b else 1 / bt_leg_eff b) / bt_capacity_kwh b)"
  by (simp add: battery_step_def Let_def)

text \<open>
  Before the clamp, a tick moves the charge by what the leg stores or takes, and never below the floor by more
  than one tick of discharge.
\<close>

lemma battery_step_floor:
  fixes sp :: f64
  assumes inv: "battery_inv b s" and dt: "0 \<le> dt" "dt \<le> d"
    and soc: "bt_min_soc_frac b - undershoot b d \<le> bs_soc_frac s"
  defines "a \<equiv> battery_power b s sp"
  shows "bt_min_soc_frac b - undershoot b d \<le> bs_soc_frac s + a * dt_h_from_duration dt *
      (if 0 < a then bt_leg_eff b else 1 / bt_leg_eff b) / bt_capacity_kwh b"
proof -
  have wf: "battery_wf b" using inv by (simp add: battery_inv_def)
  have cap: "0 < bt_capacity_kwh b" "0 < bt_leg_eff b" using wf bt_eff_range [OF wf] by (simp_all add: battery_wf_def)
  show ?thesis
  proof (cases "a < 0")
    case True
    then have "bt_min_soc_frac b < bs_soc_frac s" by (simp add: a_def battery_power_neg)
    moreover have "- undershoot b d \<le> a * dt_h_from_duration dt * (1 / bt_leg_eff b) / bt_capacity_kwh b"
      using True battery_power_rated [OF wf, of s sp] by (intro discharge_drop wf dt) (simp_all add: a_def)
    ultimately show ?thesis using True by simp
  next
    case False
    then have "0 \<le> a * dt_h_from_duration dt * (if 0 < a then bt_leg_eff b else 1 / bt_leg_eff b) / bt_capacity_kwh b"
      using cap dt_h_nonneg [OF dt(1)] by simp
    with soc show ?thesis by linarith
  qed
qed

lemma battery_soc_bounds_step:
  assumes inv: "battery_inv b s" and dt: "0 \<le> dt" "dt \<le> d"
    and soc: "bt_min_soc_frac b - undershoot b d \<le> bs_soc_frac s"
  shows "bt_min_soc_frac b - undershoot b d \<le> bs_soc_frac (fst (battery_step b s sp dt))"
proof -
  have "bt_min_soc_frac b - undershoot b d \<le> 1" using soc inv by (simp add: battery_inv_def)
  then show ?thesis
    unfolding battery_step_soc clamp_range_def using battery_step_floor [OF inv dt soc, of sp] by auto
qed

text \<open>
  The state of charge stays in its range, and no run of ticks of at most \<open>d\<close> takes it further below the
  minimum state of charge than one such tick of full discharge: the step itself checks the minimum only at its start.
\<close>

theorem battery_soc_bounds:
  assumes "battery_inv b s" and "\<forall>(sp, dt) \<in> set cmds. 0 \<le> dt \<and> dt \<le> d"
    and "bt_min_soc_frac b - undershoot b d \<le> bs_soc_frac s"
  defines "s' \<equiv> fst (run_steps (battery_step b) s cmds)"
  shows "0 \<le> bs_soc_frac s' \<and> bs_soc_frac s' \<le> 1 \<and> bt_min_soc_frac b - undershoot b d \<le> bs_soc_frac s'"
proof -
  have "battery_inv b s'" unfolding s'_def by (rule bat.run_inv [OF assms(1)])
  moreover have "bt_min_soc_frac b - undershoot b d \<le> bs_soc_frac s'"
    unfolding s'_def using assms(1-3)
  proof (induction cmds arbitrary: s)
    case (Cons cmd cmds)
    obtain sp dt where cmd: "cmd = (sp, dt)" by (cases cmd)
    have "bt_min_soc_frac b - undershoot b d \<le> bs_soc_frac (fst (battery_step b s sp dt))"
      by (rule battery_soc_bounds_step [OF Cons.prems(1) _ _ Cons.prems(3)]) (use Cons.prems(2) cmd in auto)
    from Cons.IH [OF bat.step_inv [OF Cons.prems(1), of sp dt] _ this] Cons.prems(2)
    show ?case by (auto simp: cmd split: prod.split)
  qed simp
  ultimately show ?thesis by (simp add: battery_inv_def)
qed

definition sample_battery :: battery where
  "sample_battery = \<lparr>bt_capacity_kwh = 10, bt_max_charge_kw = 5, bt_max_discharge_kw = 5,
     bt_round_trip_efficiency = 1, bt_min_soc_frac = 1 / 10\<rparr>"

definition half_full :: battery_state where
  "half_full = \<lparr>bs_soc_frac = 1 / 2, bs_actual_power_kw = 0\<rparr>"

lemma sample_battery_inv: "battery_inv sample_battery half_full"
  by (simp add: battery_inv_def battery_wf_def sample_battery_def half_full_def)

lemma dt_h_hour: "dt_h_from_duration (seconds 3600) = 1"
  by (simp add: dt_h_whole_seconds dt_h_from_s_def)

lemma sample_undershoot: "undershoot sample_battery (seconds 3600) = 1 / 2"
  by (simp add: undershoot_def sample_battery_def bt_leg_eff_def dt_h_hour)

lemma battery_soc_bounds_witness:
  "- 4 / 10 \<le> bs_soc_frac (fst (run_steps (battery_step sample_battery) half_full [(- 5, seconds 3600), (- 9, seconds 60)]))"
proof -
  have "\<forall>(sp, dt) \<in> set [(- 5 :: f64, seconds 3600), (- 9, seconds 60)]. 0 \<le> dt \<and> dt \<le> seconds 3600"
    by (simp add: seconds_def)
  from battery_soc_bounds [OF sample_battery_inv this] show ?thesis
    by (simp add: sample_undershoot) (simp add: sample_battery_def half_full_def)
qed

text \<open>The charge a tick adds is at most what the leg stores of the energy taken, less what a discharge takes.\<close>

lemma battery_step_energy:
  assumes inv: "battery_inv b s" and dt: "0 \<le> dt" "dt \<le> d"
    and soc: "bt_min_soc_frac b - undershoot b d \<le> bs_soc_frac s" and fits: "undershoot b d \<le> bt_min_soc_frac b"
    and st: "battery_step b s sp dt = (s', kw)"
  shows "bs_soc_frac s' * bt_capacity_kwh b \<le> bs_soc_frac s * bt_capacity_kwh b
    + bt_leg_eff b * (max kw 0 * dt_h_from_duration dt) - max (- kw) 0 * dt_h_from_duration dt / bt_leg_eff b"
proof -
  have wf: "battery_wf b" using inv by (simp add: battery_inv_def)
  have cap: "0 < bt_capacity_kwh b" using wf by (simp add: battery_wf_def)
  have kw: "kw = battery_power b s sp" using st by (simp add: battery_step_def Let_def)
  define x where "x = kw * dt_h_from_duration dt * (if 0 < kw then bt_leg_eff b else 1 / bt_leg_eff b)"
  have "bs_soc_frac s' = clamp_range 0 1 (bs_soc_frac s + x / bt_capacity_kwh b)"
    using battery_step_soc [of b s sp dt] st by (simp add: kw x_def)
  moreover have "0 \<le> bs_soc_frac s + x / bt_capacity_kwh b"
    using battery_step_floor [OF inv dt soc, of sp] fits by (simp add: kw x_def)
  ultimately have "bs_soc_frac s' \<le> bs_soc_frac s + x / bt_capacity_kwh b" by (simp add: clamp_range_def)
  then have "bs_soc_frac s' * bt_capacity_kwh b \<le> (bs_soc_frac s + x / bt_capacity_kwh b) * bt_capacity_kwh b"
    using cap by (intro mult_right_mono) simp_all
  also have "\<dots> = bs_soc_frac s * bt_capacity_kwh b + x" using cap by (simp add: field_simps)
  also have "x = bt_leg_eff b * (max kw 0 * dt_h_from_duration dt) - max (- kw) 0 * dt_h_from_duration dt / bt_leg_eff b"
    by (simp add: x_def max_def)
  finally show ?thesis by simp
qed

lemma battery_run_energy:
  assumes "battery_inv b s" and "\<forall>(sp, dt) \<in> set cmds. 0 \<le> dt \<and> dt \<le> d"
    and "bt_min_soc_frac b - undershoot b d \<le> bs_soc_frac s" and fits: "undershoot b d \<le> bt_min_soc_frac b"
    and "run_steps (battery_step b) s cmds = (s', out)"
  shows "battery_stored_kwh b s' \<le> battery_stored_kwh b s + bt_leg_eff b * taken_kwh out - given_kwh out / bt_leg_eff b"
  using assms(1-3,5)
proof (induction cmds arbitrary: s out)
  case (Cons cmd cmds)
  obtain sp dt where cmd: "cmd = (sp, dt)" by (cases cmd)
  obtain s1 kw where st: "battery_step b s sp dt = (s1, kw)" by (metis prod.exhaust)
  obtain out' where run: "run_steps (battery_step b) s1 cmds = (s', out')" and out: "out = (kw, dt) # out'"
    using Cons.prems(4) by (auto simp: cmd st split: prod.splits)
  have dt: "0 \<le> dt" "dt \<le> d" using Cons.prems(2) cmd by auto
  have inv: "battery_inv b s1" using bat.step_inv [OF Cons.prems(1), of sp dt] st by simp
  have "bt_min_soc_frac b - undershoot b d \<le> bs_soc_frac s1"
    using battery_soc_bounds_step [OF Cons.prems(1) dt Cons.prems(3)] st by (metis fst_conv)
  from Cons.IH [OF inv _ this run] Cons.prems(2) battery_step_energy [OF Cons.prems(1) dt Cons.prems(3) fits st]
  show ?case by (simp add: out battery_stored_kwh_def algebra_simps add_divide_distrib)
qed simp

text \<open>
  C37. A battery is never an energy source: over any run of ticks short enough that one of them fits under the
  minimum state of charge, a battery that ends at least as full as it began has given back at most the round-trip
  efficiency's share of the energy it took.
\<close>

theorem battery_cycle_loss:
  assumes inv: "battery_inv b s" and dt: "\<forall>(sp, dt) \<in> set cmds. 0 \<le> dt \<and> dt \<le> d"
    and soc: "bt_min_soc_frac b \<le> bs_soc_frac s" and fits: "undershoot b d \<le> bt_min_soc_frac b" "0 \<le> d"
    and run: "run_steps (battery_step b) s cmds = (s', out)" and full: "bs_soc_frac s \<le> bs_soc_frac s'"
  shows "given_kwh out \<le> bt_round_trip_efficiency b * taken_kwh out"
proof -
  have wf: "battery_wf b" using inv by (simp add: battery_inv_def)
  have eff: "0 < bt_leg_eff b" using bt_eff_range [OF wf] by simp
  have "0 \<le> undershoot b d" using wf eff dt_h_nonneg [OF fits(2)] by (simp add: undershoot_def battery_wf_def)
  then have "bt_min_soc_frac b - undershoot b d \<le> bs_soc_frac s" using soc by linarith
  from battery_run_energy [OF inv dt this fits(1) run]
  have "battery_stored_kwh b s' - battery_stored_kwh b s \<le> bt_leg_eff b * taken_kwh out - given_kwh out / bt_leg_eff b"
    by linarith
  moreover have "0 \<le> battery_stored_kwh b s' - battery_stored_kwh b s"
    using full wf by (simp add: battery_stored_kwh_def battery_wf_def mult_right_mono)
  ultimately have "given_kwh out / bt_leg_eff b \<le> bt_leg_eff b * taken_kwh out" by linarith
  then have "given_kwh out \<le> bt_leg_eff b * taken_kwh out * bt_leg_eff b"
    using eff by (simp add: pos_divide_le_eq)
  also have "\<dots> = bt_round_trip_efficiency b * taken_kwh out"
    using bt_eff_square [OF wf] by (simp add: ac_simps)
  finally show ?thesis .
qed

definition lossy_battery :: battery where
  "lossy_battery = sample_battery\<lparr>bt_round_trip_efficiency := 1 / 4\<rparr>"

lemma dt_h_tenth: "dt_h_from_duration (seconds 360) = 1 / 10"
  by (simp add: dt_h_whole_seconds dt_h_from_s_def)

lemma battery_cycle_loss_witness:
  "let out = snd (run_steps (battery_step lossy_battery) half_full [(7, seconds 360), (- 1, seconds 360)])
   in given_kwh out = 1 / 10 \<and> given_kwh out \<le> bt_round_trip_efficiency lossy_battery * taken_kwh out"
proof -
  have eff: "bt_leg_eff lossy_battery = 1 / 2"
    by (simp add: bt_leg_eff_def lossy_battery_def real_sqrt_divide)
  have fields: "bt_capacity_kwh lossy_battery = 10" "bt_max_charge_kw lossy_battery = 5"
      "bt_max_discharge_kw lossy_battery = 5" "bt_min_soc_frac lossy_battery = 1 / 10"
    by (simp_all add: lossy_battery_def sample_battery_def)
  have power: "battery_power lossy_battery half_full 7 = 5"
      "battery_power lossy_battery \<lparr>bs_soc_frac = 21 / 40, bs_actual_power_kw = 5\<rparr> (- 1) = - 1"
    by (simp_all add: battery_power_def fields half_full_def)
  have step: "battery_step lossy_battery half_full 7 (seconds 360) = (\<lparr>bs_soc_frac = 21 / 40, bs_actual_power_kw = 5\<rparr>, 5)"
      "battery_step lossy_battery \<lparr>bs_soc_frac = 21 / 40, bs_actual_power_kw = 5\<rparr> (- 1) (seconds 360) =
        (\<lparr>bs_soc_frac = 101 / 200, bs_actual_power_kw = - 1\<rparr>, - 1)"
    unfolding battery_step_def Let_def power eff dt_h_tenth fields by (simp_all add: clamp_range_def half_full_def)
  have run: "run_steps (battery_step lossy_battery) half_full [(7, seconds 360), (- 1, seconds 360)] =
      (\<lparr>bs_soc_frac = 101 / 200, bs_actual_power_kw = - 1\<rparr>, [(5, seconds 360), (- 1, seconds 360)])"
    by (simp add: step)
  have inv: "battery_inv lossy_battery half_full"
    by (simp add: battery_inv_def battery_wf_def lossy_battery_def sample_battery_def half_full_def)
  have dt: "\<forall>(sp, dt) \<in> set [(7 :: f64, seconds 360), (- 1, seconds 360)]. 0 \<le> dt \<and> dt \<le> seconds 360"
    by (simp add: seconds_def)
  have fits: "undershoot lossy_battery (seconds 360) \<le> bt_min_soc_frac lossy_battery" "0 \<le> seconds 360"
    by (simp add: undershoot_def eff dt_h_tenth fields) (simp add: seconds_def)
  have soc: "bt_min_soc_frac lossy_battery \<le> bs_soc_frac half_full" by (simp add: fields half_full_def)
  from battery_cycle_loss [OF inv dt soc fits run]
  show ?thesis unfolding run Let_def snd_conv by (simp add: dt_h_tenth half_full_def)
qed

text \<open>
  The minimum state of charge is checked at the start of a tick only: one tick of an hour empties a battery
  down past its minimum, and gives back energy it never held.
\<close>

theorem battery_floor_not_held:
  "battery_step sample_battery \<lparr>bs_soc_frac = 2 / 10, bs_actual_power_kw = 0\<rparr> (- 5) (seconds 3600) =
     (\<lparr>bs_soc_frac = 0, bs_actual_power_kw = - 5\<rparr>, - 5)"
  by (simp add: battery_step_def battery_power_def Let_def dt_h_hour clamp_range_def sample_battery_def bt_leg_eff_def)

end
