(* ===== verification/Time_Grid.thy ===== *)
theory Time_Grid
  imports Lab_Prelude Fleet_Channel
begin

text \<open>
  \<open>VEN/src/entities/time_grid.rs\<close>: the slots of a plan, laid out from the profile's zones, and the slot that holds
  an instant. A zone's step is a \<open>u64\<close> below \<open>2 ^ 63\<close> and the horizon fits an \<open>i64\<close>, so the casts are exact.
\<close>

record plan_zone =
  pz_step_s :: nat
  pz_slots :: nat

record time_grid =
  tg_n :: nat
  tg_cum_s :: "int list"
  tg_dt_h :: "f64 list"

definition slot_count :: "plan_zone list \<Rightarrow> nat" where
  "slot_count zones = sum_list (map pz_slots zones)"

text \<open>The loop's state: the end of the last slot, the boundaries and the lengths so far.\<close>

definition push_slot :: "nat \<Rightarrow> int \<times> int list \<times> f64 list \<Rightarrow> int \<times> int list \<times> f64 list" where
  "push_slot step_s = (\<lambda>(end_s, cum, dt). (end_s + int step_s, cum @ [end_s + int step_s], dt @ [dt_h_from_s (of_nat step_s)]))"

definition push_zone :: "plan_zone \<Rightarrow> int \<times> int list \<times> f64 list \<Rightarrow> int \<times> int list \<times> f64 list" where
  "push_zone z = push_slot (pz_step_s z) ^^ pz_slots z"

definition from_zones :: "plan_zone list \<Rightarrow> time_grid" where
  "from_zones zones =
     (let (_, cum, dt) = fold push_zone zones (0, [0], [])
      in \<lparr>tg_n = slot_count zones, tg_cum_s = cum, tg_dt_h = dt\<rparr>)"

definition slot_hours :: "int list \<Rightarrow> f64 list" where
  "slot_hours cum = map (\<lambda>(a, b). dt_h_from_s (of_int (b - a))) (windows2 cum)"

definition slot_at :: "int list \<Rightarrow> nat \<Rightarrow> int \<Rightarrow> nat" where
  "slot_at cum n offset_s = min (partition_point (\<lambda>start_s. start_s \<le> offset_s) cum - 1) (n - 1)"

section \<open>The layout\<close>

definition grid_ok :: "nat \<Rightarrow> int \<times> int list \<times> f64 list \<Rightarrow> bool" where
  "grid_ok n = (\<lambda>(end_s, cum, dt). cum \<noteq> [] \<and> hd cum = 0 \<and> last cum = end_s \<and> length cum = Suc n \<and> length dt = n \<and>
     sorted_wrt (<) cum \<and> slot_hours cum = dt)"

lemma windows2_snoc: "xs \<noteq> [] \<Longrightarrow> windows2 (xs @ [y]) = windows2 xs @ [(last xs, y)]"
proof (induction xs)
  case (Cons x xs)
  then show ?case by (cases xs) auto
qed simp

lemma push_slot_ok: "grid_ok n g \<Longrightarrow> 0 < step \<Longrightarrow> grid_ok (Suc n) (push_slot step g)"
  by (cases g) (auto simp: grid_ok_def push_slot_def sorted_wrt_append slot_hours_def windows2_snoc
      dest!: strict_sorted_imp_sorted sorted_hd_last)

lemma push_zone_ok: "grid_ok n g \<Longrightarrow> 0 < pz_step_s z \<Longrightarrow> grid_ok (n + pz_slots z) (push_zone z g)"
proof -
  assume g: "grid_ok n g" and z: "0 < pz_step_s z"
  have "grid_ok (n + k) ((push_slot (pz_step_s z) ^^ k) g)" for k
    by (induction k) (use g push_slot_ok [OF _ z] in auto)
  then show ?thesis by (simp add: push_zone_def)
qed

lemma push_zones_ok:
  "grid_ok n g \<Longrightarrow> \<forall>z \<in> set zones. 0 < pz_step_s z \<Longrightarrow> grid_ok (n + slot_count zones) (fold push_zone zones g)"
proof (induction zones arbitrary: n g)
  case (Cons z zones)
  from Cons.IH [OF push_zone_ok [OF Cons.prems(1), of z]] Cons.prems(2) show ?case
    by (simp add: slot_count_def add.assoc)
qed (simp add: slot_count_def)

lemma from_zones_ok:
  assumes "\<forall>z \<in> set zones. 0 < pz_step_s z"
  obtains e where "grid_ok (slot_count zones) (e, tg_cum_s (from_zones zones), tg_dt_h (from_zones zones))"
    and "tg_n (from_zones zones) = slot_count zones"
proof -
  have "grid_ok (0 + slot_count zones) (fold push_zone zones (0, [0], []))"
    by (rule push_zones_ok [OF _ assms]) (simp add: grid_ok_def slot_hours_def)
  moreover obtain e cum dt where r: "fold push_zone zones (0, [0], []) = (e, cum, dt)" by (metis prod.exhaust)
  ultimately have "grid_ok (slot_count zones) (e, cum, dt)" by simp
  with r show ?thesis by (intro that [of e]) (simp_all add: from_zones_def)
qed

text \<open>
  The slots of a plan lie end to end from its start: there are as many as the zones say, each boundary lies
  after the one before it, and the lengths the planner integrates over are the distances of the boundaries.
\<close>

theorem from_zones_regular:
  assumes "\<forall>z \<in> set zones. 0 < pz_step_s z"
  defines "g \<equiv> from_zones zones"
  shows "tg_n g = slot_count zones \<and> length (tg_cum_s g) = Suc (tg_n g) \<and> tg_cum_s g ! 0 = 0 \<and>
    sorted_wrt (<) (tg_cum_s g) \<and> length (tg_dt_h g) = tg_n g \<and> slot_hours (tg_cum_s g) = tg_dt_h g"
proof -
  obtain e where "grid_ok (slot_count zones) (e, tg_cum_s g, tg_dt_h g)" and "tg_n g = slot_count zones"
    unfolding g_def by (rule from_zones_ok [OF assms(1)])
  then show ?thesis by (auto simp: grid_ok_def simp flip: hd_conv_nth)
qed

lemma from_zones_regular_witness:
  "sorted_wrt (<) (tg_cum_s (from_zones [\<lparr>pz_step_s = 300, pz_slots = 2\<rparr>, \<lparr>pz_step_s = 900, pz_slots = 1\<rparr>]))"
proof -
  have "\<forall>z \<in> set [\<lparr>pz_step_s = 300, pz_slots = 2\<rparr>, \<lparr>pz_step_s = 900, pz_slots = 1\<rparr>]. 0 < pz_step_s z"
    by simp
  from from_zones_regular [OF this] show ?thesis by blast
qed

section \<open>The slot of an instant\<close>

lemma partition_point_strict:
  fixes cum :: "int list"
  assumes "sorted_wrt (<) cum"
  shows "i < length cum \<Longrightarrow> i < partition_point (\<lambda>s. s \<le> x) cum \<longleftrightarrow> cum ! i \<le> x"
  using assms
proof (induction cum arbitrary: i)
  case (Cons c cum)
  show ?case
  proof (cases i)
    case (Suc j)
    have "c < cum ! j" using Cons.prems Suc by (simp add: all_set_conv_all_nth)
    moreover have "j < partition_point (\<lambda>s. s \<le> x) cum \<longleftrightarrow> cum ! j \<le> x"
      using Cons.prems Suc by (intro Cons.IH) simp_all
    ultimately show ?thesis using Suc by (auto simp: partition_point_def)
  qed (auto simp: partition_point_def)
qed simp

lemma slot_at_holds:
  assumes "sorted_wrt (<) cum" and "length cum = Suc n" and "cum ! 0 \<le> x" and "x < cum ! n"
  shows "slot_at cum n x < n \<and> cum ! slot_at cum n x \<le> x \<and> x < cum ! Suc (slot_at cum n x)"
proof -
  define p where "p = partition_point (\<lambda>s. s \<le> x) cum"
  note part = partition_point_strict [OF assms(1), of _ x, folded p_def]
  have "p \<le> length cum" by (simp add: p_def partition_point_def length_takeWhile_le)
  moreover have "0 < p" "\<not> n < p" using part [of 0] part [of n] assms(2-4) by auto
  moreover have "\<not> p < p" by simp
  ultimately show ?thesis
    using part [of "p - 1"] part [of p] assms(2) by (auto simp: slot_at_def p_def [symmetric])
qed

text \<open>Before the plan and after it the first and the last slot answer, whatever the boundaries.\<close>

lemma slot_at_le: "n \<noteq> 0 \<Longrightarrow> slot_at cum n x < n"
  by (simp add: slot_at_def)

lemma slot_at_start_le:
  assumes "sorted_wrt (<) cum" and "length cum = Suc n" and "0 < n" and "cum ! 0 \<le> x"
  shows "cum ! slot_at cum n x \<le> x"
proof (cases "x < cum ! n")
  case True
  from slot_at_holds [OF assms(1,2,4) this] show ?thesis by simp
next
  case False
  have "cum ! (n - 1) < cum ! n" using assms(1-3) by (simp add: sorted_wrt_nth_less)
  moreover have "slot_at cum n x \<le> n - 1" using slot_at_le [of n cum x] assms(3) by simp
  then have "cum ! slot_at cum n x \<le> cum ! (n - 1)"
    using assms(1-3) by (metis (no_types, lifting) Suc_pred diff_less le_neq_implies_less less_SucI less_imp_le order_refl
        sorted_wrt_nth_less zero_less_one)
  ultimately show ?thesis using False by simp
qed

end
