(* ===== verification/Shiftable_Load.thy ===== *)
theory Shiftable_Load
  imports Asset_Physics Time_Grid
begin

text \<open>
  \<open>VEN/src/assets/shiftable_load.rs\<close>: a load of fixed power that runs once, uninterrupted, inside its window:
  its state, its step, what it reports and how a commitment places its run. What it hands to the planner is in
  \<open>build_milp_context\<close>: the length of the run in slots and the slots it may start in.
\<close>

record shiftable_load =
  sl_power_kw :: f64
  sl_duration_min :: nat
  sl_earliest_start :: instant
  sl_latest_end :: instant

record shiftable_state =
  ss_started :: bool
  ss_elapsed_min :: f64
  ss_actual_power_kw :: f64
  ss_past_deadline :: bool

definition shiftable_initial :: shiftable_state where
  "shiftable_initial = \<lparr>ss_started = False, ss_elapsed_min = 0, ss_actual_power_kw = 0, ss_past_deadline = False\<rparr>"

definition note_clock :: "shiftable_load \<Rightarrow> instant \<Rightarrow> shiftable_state \<Rightarrow> shiftable_state" where
  "note_clock l now s = s\<lparr>ss_past_deadline := ss_past_deadline s \<or> sl_latest_end l \<le> now\<rparr>"

definition load_finished :: "shiftable_load \<Rightarrow> shiftable_state \<Rightarrow> bool" where
  "load_finished l s \<longleftrightarrow> ss_started s \<and> of_nat (sl_duration_min l) \<le> ss_elapsed_min s"

definition remaining_min :: "shiftable_load \<Rightarrow> shiftable_state \<Rightarrow> f64" where
  "remaining_min l s = max (of_nat (sl_duration_min l) - ss_elapsed_min s) 0"

definition remaining_energy_kwh :: "shiftable_load \<Rightarrow> shiftable_state \<Rightarrow> f64" where
  "remaining_energy_kwh l s = energy_kwh_from_min (sl_power_kw l) (remaining_min l s)"

definition shiftable_unserved_kwh :: "shiftable_load \<Rightarrow> shiftable_state \<Rightarrow> f64" where
  "shiftable_unserved_kwh l s = (if ss_past_deadline s then remaining_energy_kwh l s else 0)"

definition shiftable_time_to_target_s :: "shiftable_load \<Rightarrow> shiftable_state \<Rightarrow> f64" where
  "shiftable_time_to_target_s l s = s_from_min (remaining_min l s)"

definition shiftable_response :: "shiftable_load \<Rightarrow> shiftable_state \<Rightarrow> setpoint_response" where
  "shiftable_response l s =
     (if load_finished l s then with_power_next_tick 0 (resp_latching [0])
      else if ss_started s then with_power_next_tick (sl_power_kw l) (resp_latching [sl_power_kw l])
      else resp_latching [0, sl_power_kw l])"

definition shiftable_capability :: "shiftable_load \<Rightarrow> shiftable_state \<Rightarrow> asset_capability" where
  "shiftable_capability l s =
     (let r = shiftable_response l s in
      \<lparr>cap_max_export_kw = 0,
       cap_max_import_kw = (if sr_power_steps_kw r = [] then 0 else last (sr_power_steps_kw r)),
       cap_adjustability = Stepped, cap_response = r\<rparr>)"

definition shiftable_floor :: "shiftable_load \<Rightarrow> shiftable_state \<Rightarrow> flexibility_floor" where
  "shiftable_floor l s = \<lparr>ff_min_export_kw = 0,
     ff_min_import_kw = (if ss_started s \<and> \<not> load_finished l s then sl_power_kw l else 0)\<rparr>"

definition minutes_of :: "span \<Rightarrow> f64" where
  "minutes_of dt = of_int (num_milliseconds dt) / 60000"

definition shiftable_step :: "shiftable_load \<Rightarrow> shiftable_state \<Rightarrow> f64 \<Rightarrow> span \<Rightarrow> shiftable_state \<times> f64" where
  "shiftable_step l s sp dt =
     (if load_finished l s then (s\<lparr>ss_actual_power_kw := 0\<rparr>, 0)
      else if \<not> (ss_started s \<or> 1 / 10 ^ 6 < sp)
      then (s\<lparr>ss_started := False, ss_elapsed_min := 0, ss_actual_power_kw := 0\<rparr>, 0)
      else (let elapsed = min (ss_elapsed_min s + minutes_of dt) (of_nat (sl_duration_min l));
                actual = cap_draws (shiftable_capability l s) sp
            in (s\<lparr>ss_started := True, ss_elapsed_min := elapsed, ss_actual_power_kw := actual\<rparr>, actual)))"

definition shiftable_surplus_claim_rank :: nat where "shiftable_surplus_claim_rank = 2"

definition shiftable_cancellable :: "shiftable_state \<Rightarrow> bool" where
  "shiftable_cancellable s \<longleftrightarrow> \<not> ss_started s"

section \<open>Where a commitment places the run\<close>

definition minutes_span :: "nat \<Rightarrow> span" where
  "minutes_span n = seconds (60 * of_nat n)"

definition effort_start :: "shiftable_load \<Rightarrow> shiftable_state \<Rightarrow> commitment_direction \<Rightarrow> instant \<Rightarrow> instant" where
  "effort_start l s d t1 =
     (if ss_started s then t1
      else case d of Import \<Rightarrow> max (sl_earliest_start l) t1
           | Export \<Rightarrow> max (sl_latest_end l - minutes_span (sl_duration_min l)) t1)"

definition shiftable_effort_schedule ::
  "shiftable_load \<Rightarrow> shiftable_state \<Rightarrow> commitment_direction \<Rightarrow> instant \<Rightarrow> instant \<Rightarrow> schedule" where
  "shiftable_effort_schedule l s d t1 tend =
     (let start = effort_start l s d t1; kw = (if start \<le> t1 then sl_power_kw l else 0) in
      if tend \<le> t1 then [(t1, kw), (t1, kw)]
      else if tend \<le> start then [(t1, 0), (tend, 0)]
      else map (\<lambda>t. (t, if t < start then 0 else sl_power_kw l)) (effort_instants t1 tend) @ [(tend, sl_power_kw l)])"

section \<open>The load keeps the contract\<close>

definition shiftable_wf :: "shiftable_load \<Rightarrow> bool" where
  "shiftable_wf l \<longleftrightarrow> 1 / 10 ^ 6 < sl_power_kw l"

definition shiftable_inv :: "shiftable_load \<Rightarrow> shiftable_state \<Rightarrow> bool" where
  "shiftable_inv l s \<longleftrightarrow> shiftable_wf l \<and> ss_elapsed_min s \<le> of_nat (sl_duration_min l) \<and>
     (\<not> ss_started s \<longrightarrow> ss_elapsed_min s = 0)"

definition shiftable_rated :: "shiftable_load \<Rightarrow> f64 \<times> f64" where
  "shiftable_rated l = (0, sl_power_kw l)"

lemmas shiftable_response_simps =
  shiftable_capability_def shiftable_response_def cap_draws_def draws_def lands_def resp_latching_def
  resp_continuous_def with_power_next_tick_def step_range_def clamp_range_def

text \<open>What an unfinished load draws when commanded: its power once started or switched on, else nothing.\<close>

lemma shiftable_draws:
  assumes "shiftable_wf l" and "\<not> load_finished l s" and "ss_started s \<or> 1 / 10 ^ 6 < sp"
  shows "cap_draws (shiftable_capability l s) sp = sl_power_kw l"
  using assms by (auto simp: shiftable_response_simps shiftable_wf_def Let_def)

lemma shiftable_step_running:
  assumes "shiftable_wf l" and "\<not> load_finished l s" and "ss_started s \<or> 1 / 10 ^ 6 < sp"
  shows "shiftable_step l s sp dt = (s\<lparr>ss_started := True, ss_actual_power_kw := sl_power_kw l,
     ss_elapsed_min := min (ss_elapsed_min s + minutes_of dt) (of_nat (sl_duration_min l))\<rparr>, sl_power_kw l)"
  using assms by (auto simp: shiftable_step_def Let_def shiftable_draws)

lemma shiftable_step_cases:
  assumes "shiftable_wf l"
  obtains (finished) "load_finished l s" "shiftable_step l s sp dt = (s\<lparr>ss_actual_power_kw := 0\<rparr>, 0)"
  | (pending) "\<not> ss_started s" "sp \<le> 1 / 10 ^ 6"
      "shiftable_step l s sp dt = (s\<lparr>ss_started := False, ss_elapsed_min := 0, ss_actual_power_kw := 0\<rparr>, 0)"
  | (running) "\<not> load_finished l s" "ss_started s \<or> 1 / 10 ^ 6 < sp"
      "shiftable_step l s sp dt = (s\<lparr>ss_started := True, ss_actual_power_kw := sl_power_kw l,
         ss_elapsed_min := min (ss_elapsed_min s + minutes_of dt) (of_nat (sl_duration_min l))\<rparr>, sl_power_kw l)"
  using shiftable_step_running [OF assms] by (cases "load_finished l s"; cases "ss_started s \<or> 1 / 10 ^ 6 < sp")
    (auto simp: shiftable_step_def)

interpretation shl: asset_physics shiftable_inv shiftable_step shiftable_rated
proof
  fix l s sp dt
  assume inv: "shiftable_inv l s"
  then have wf: "shiftable_wf l" and p: "0 \<le> sl_power_kw l" by (simp_all add: shiftable_inv_def shiftable_wf_def)
  show "shiftable_inv l (fst (shiftable_step l s sp dt))"
    by (rule shiftable_step_cases [OF wf, of s sp dt]) (use inv in \<open>auto simp: shiftable_inv_def\<close>)
  show "fst (shiftable_rated l) \<le> snd (shiftable_step l s sp dt) \<and>
      snd (shiftable_step l s sp dt) \<le> snd (shiftable_rated l)"
    by (rule shiftable_step_cases [OF wf, of s sp dt]) (use p in \<open>auto simp: shiftable_rated_def\<close>)
qed

section \<open>The run\<close>

definition minutes_total :: "(f64 \<times> span) list \<Rightarrow> f64" where
  "minutes_total cmds = sum_list (map (\<lambda>c. minutes_of (snd c)) cmds)"

lemma minutes_total_simps [simp]:
  "minutes_total [] = 0" "minutes_total (c # cmds) = minutes_of (snd c) + minutes_total cmds"
  by (simp_all add: minutes_total_def)

lemma minutes_total_nonneg: "\<forall>c \<in> set cmds. 0 \<le> snd c \<Longrightarrow> 0 \<le> minutes_total cmds"
  by (induction cmds) (auto simp: minutes_of_def num_milliseconds_nonneg)

lemma finished_run:
  "load_finished l s \<Longrightarrow> run_steps (shiftable_step l) s cmds = (s', out) \<Longrightarrow>
     load_finished l s' \<and> map fst out = replicate (length cmds) 0"
proof (induction cmds arbitrary: s out)
  case (Cons c cmds)
  have "load_finished l (s\<lparr>ss_actual_power_kw := 0\<rparr>)" using Cons.prems(1) by (simp add: load_finished_def)
  from Cons.IH [OF this] Cons.prems show ?case
    by (cases c) (auto simp: shiftable_step_def split: prod.splits)
qed simp

text \<open>The run is one block of ticks at full power, just long enough, and nothing after it.\<close>

definition one_block :: "shiftable_load \<Rightarrow> f64 \<Rightarrow> (f64 \<times> span) list \<Rightarrow> f64 list \<Rightarrow> nat \<Rightarrow> bool" where
  "one_block l need cmds powers k \<longleftrightarrow> k \<le> length cmds \<and>
     powers = replicate k (sl_power_kw l) @ replicate (length cmds - k) 0 \<and>
     need \<le> minutes_total (take k cmds) \<and> (\<forall>j < k. minutes_total (take j cmds) < need)"

lemma one_block_Cons:
  assumes "one_block l (max (need - minutes_of (snd c)) 0) cmds powers k" and "0 < need" and "0 \<le> minutes_of (snd c)"
    and "need \<le> minutes_of (snd c) \<Longrightarrow> k = 0"
  shows "one_block l need (c # cmds) (sl_power_kw l # powers) (Suc k)"
proof -
  have "minutes_total (take j (c # cmds)) < need" if "j < Suc k" for j
  proof (cases j)
    case (Suc i)
    then have i: "minutes_total (take i cmds) < max (need - minutes_of (snd c)) 0" "k \<noteq> 0"
      using assms(1) that by (auto simp: one_block_def)
    then have "minutes_of (snd c) < need" using assms(4) by fastforce
    with i Suc show ?thesis by simp
  qed (use assms(2) in simp)
  with assms show ?thesis by (auto simp: one_block_def)
qed

lemma running_run:
  assumes "shiftable_inv l s" and "\<forall>c \<in> set cmds. 0 \<le> snd c" and "run_steps (shiftable_step l) s cmds = (s', out)"
    and "ss_started s \<or> cmds \<noteq> [] \<and> 1 / 10 ^ 6 < fst (hd cmds)" and "0 < sl_duration_min l"
    and "remaining_min l s \<le> minutes_total cmds"
  shows "load_finished l s' \<and> (\<exists>k. one_block l (remaining_min l s) cmds (map fst out) k \<and> (remaining_min l s = 0 \<longrightarrow> k = 0))"
  using assms
proof (induction cmds arbitrary: s out)
  case Nil
  then show ?case by (auto simp: load_finished_def remaining_min_def one_block_def)
next
  case (Cons c cmds)
  have wf: "shiftable_wf l" using Cons.prems(1) by (simp add: shiftable_inv_def)
  have m: "0 \<le> minutes_of (snd c)" using Cons.prems(2) by (simp add: minutes_of_def num_milliseconds_nonneg)
  show ?case
  proof (cases "load_finished l s")
    case True
    from finished_run [OF True Cons.prems(3)] True show ?thesis
      by (auto simp: remaining_min_def load_finished_def one_block_def minutes_total_nonneg)
  next
    case False
    obtain sp dt where c: "c = (sp, dt)" by (cases c)
    define s1 where "s1 = s\<lparr>ss_started := True, ss_actual_power_kw := sl_power_kw l,
      ss_elapsed_min := min (ss_elapsed_min s + minutes_of dt) (of_nat (sl_duration_min l))\<rparr>"
    have on: "ss_started s \<or> 1 / 10 ^ 6 < sp" using Cons.prems(4) c by simp
    have st: "shiftable_step l s sp dt = (s1, sl_power_kw l)"
      unfolding s1_def by (rule shiftable_step_running [OF wf False on])
    then obtain out' where run: "run_steps (shiftable_step l) s1 cmds = (s', out')"
      and out: "out = (sl_power_kw l, dt) # out'" using Cons.prems(3) by (auto simp: c split: prod.splits)
    have inv1: "shiftable_inv l s1" using shl.step_inv [OF Cons.prems(1), of sp dt] st by simp
    have pos: "0 < remaining_min l s"
      using False Cons.prems(1,5) by (auto simp: remaining_min_def load_finished_def shiftable_inv_def)
    have rem1: "remaining_min l s1 = max (remaining_min l s - minutes_of dt) 0"
      using Cons.prems(1) by (auto simp: remaining_min_def s1_def shiftable_inv_def min_def max_def)
    have "remaining_min l s1 \<le> minutes_total cmds"
      using Cons.prems(2,6) by (simp add: rem1 c minutes_total_nonneg)
    then obtain k where k: "load_finished l s'" "one_block l (remaining_min l s1) cmds (map fst out') k"
      "remaining_min l s1 = 0 \<longrightarrow> k = 0"
      using Cons.IH [OF inv1 _ run _ Cons.prems(5)] Cons.prems(2) by (auto simp: s1_def)
    have "one_block l (remaining_min l s) (c # cmds) (sl_power_kw l # map fst out') (Suc k)"
      by (rule one_block_Cons [OF _ pos m]) (use k rem1 c in auto)
    with k(1) pos out show ?thesis by auto
  qed
qed

text \<open>
  A run that is begun completes and is never interrupted: once a load has started, or is commanded on in the
  first tick, whatever it is commanded afterwards it draws its power in one block of ticks, exactly as many as cover
  the rest of its run, draws nothing after them, and is finished when the ticks cover that rest.
\<close>

theorem shiftable_run_completes:
  assumes "shiftable_inv l s" and "\<forall>c \<in> set cmds. 0 \<le> snd c" and "run_steps (shiftable_step l) s cmds = (s', out)"
    and "ss_started s \<or> cmds \<noteq> [] \<and> 1 / 10 ^ 6 < fst (hd cmds)" and "0 < sl_duration_min l"
    and "remaining_min l s \<le> minutes_total cmds"
  shows "load_finished l s' \<and> (\<exists>k. k \<le> length cmds \<and>
    map fst out = replicate k (sl_power_kw l) @ replicate (length cmds - k) 0 \<and>
    remaining_min l s \<le> minutes_total (take k cmds) \<and> (\<forall>j < k. minutes_total (take j cmds) < remaining_min l s))"
  using running_run [OF assms] by (auto simp: one_block_def)

definition sample_washer :: shiftable_load where
  "sample_washer = \<lparr>sl_power_kw = 2, sl_duration_min = 2, sl_earliest_start = 0, sl_latest_end = seconds 3600\<rparr>"

lemma shiftable_run_completes_witness:
  "load_finished sample_washer (fst (run_steps (shiftable_step sample_washer) shiftable_initial
     [(2, seconds 60), (0, seconds 60), (0, seconds 60)]))"
proof -
  let ?cmds = "[(2, seconds 60), (0, seconds 60), (0, seconds 60)] :: (f64 \<times> span) list"
  have "minutes_of (seconds 60) = 1" by (simp add: minutes_of_def num_ms_seconds)
  then have total: "remaining_min sample_washer shiftable_initial \<le> minutes_total ?cmds"
    by (simp add: remaining_min_def sample_washer_def shiftable_initial_def)
  have inv: "shiftable_inv sample_washer shiftable_initial"
    by (simp add: shiftable_inv_def shiftable_wf_def sample_washer_def shiftable_initial_def)
  obtain s' out where run: "run_steps (shiftable_step sample_washer) shiftable_initial ?cmds = (s', out)"
    by (metis prod.exhaust)
  have "load_finished sample_washer s'"
    using shiftable_run_completes [OF inv _ run _ _ total] by (simp add: seconds_def sample_washer_def)
  with run show ?thesis by simp
qed

section \<open>What the planner may choose\<close>

text \<open>\<open>build_milp_context\<close>: the length of the run in slots and the slots it may start in.\<close>

definition slots_covering :: "int list \<Rightarrow> nat \<Rightarrow> int \<Rightarrow> nat" where
  "slots_covering cum n secs = hm_or n (List.find (\<lambda>k. secs \<le> cum ! k) [1..<Suc n])"

record shiftable_milp_context =
  sm_power_kw :: f64
  sm_duration_slots :: nat
  sm_valid_start_slots :: "nat list"
  sm_duration_min :: nat
  sm_earliest_start :: instant
  sm_latest_end :: instant

definition valid_starts :: "shiftable_load \<Rightarrow> int list \<Rightarrow> nat \<Rightarrow> instant \<Rightarrow> nat \<Rightarrow> nat list" where
  "valid_starts l cum n now duration_slots =
     (let dur_s = int (sl_duration_min l) * 60;
          window_start_s = max (num_seconds (sl_earliest_start l - now)) 0;
          window_end_s = max (num_seconds (sl_latest_end l - now)) 0;
          first_slot = slot_at cum n window_start_s; last_valid_s = window_end_s - dur_s
      in if last_valid_s < 0 \<or> duration_slots = 0 then []
         else filter (\<lambda>slot. slot + duration_slots \<le> n)
           [first_slot..<Suc (min (slot_at cum n last_valid_s) (n - duration_slots))])"

definition shiftable_milp :: "shiftable_load \<Rightarrow> shiftable_state \<Rightarrow> int list \<Rightarrow> nat \<Rightarrow> instant \<Rightarrow> shiftable_milp_context" where
  "shiftable_milp l s cum n now =
     (let (ds, starts) =
        (if ss_started s
         then (slots_covering cum n (round (max (of_nat (sl_duration_min l) - ss_elapsed_min s) 1 * 60)), [0])
         else (let ds = slots_covering cum n (int (sl_duration_min l) * 60) in (ds, valid_starts l cum n now ds)))
      in \<lparr>sm_power_kw = sl_power_kw l, sm_duration_slots = ds, sm_valid_start_slots = starts,
          sm_duration_min = sl_duration_min l, sm_earliest_start = sl_earliest_start l, sm_latest_end = sl_latest_end l\<rparr>)"

lemma num_seconds_le: "0 \<le> d \<Longrightarrow> seconds (num_seconds d) \<le> d"
  by (simp add: num_seconds_def seconds_def time_simps)

text \<open>
  Whatever start the planner chooses for a pending load, the run it begins ends by the load's latest end, and
  the slots the plan reserves for it exist.
\<close>

lemma shiftable_starts_end_in_window:
  assumes "sorted_wrt (<) cum" and "length cum = Suc n" and "cum ! 0 = 0"
    and "j \<in> set (sm_valid_start_slots (shiftable_milp l s cum n now))" and "\<not> ss_started s" "0 < sl_duration_min l"
  shows "now + seconds (cum ! j) + minutes_span (sl_duration_min l) \<le> sl_latest_end l \<and>
    j + sm_duration_slots (shiftable_milp l s cum n now) \<le> n"
proof -
  define ds where "ds = slots_covering cum n (int (sl_duration_min l) * 60)"
  define x where "x = max (num_seconds (sl_latest_end l - now)) 0 - int (sl_duration_min l) * 60"
  have milp: "sm_valid_start_slots (shiftable_milp l s cum n now) = valid_starts l cum n now ds"
    "sm_duration_slots (shiftable_milp l s cum n now) = ds"
    using assms(5) by (simp_all add: shiftable_milp_def ds_def Let_def)
  have j: "0 \<le> x" "0 < ds" "j \<le> slot_at cum n x" "j + ds \<le> n"
    using assms(4) unfolding milp(1) valid_starts_def Let_def x_def [symmetric]
    by (auto split: if_splits)
  then have n: "0 < n" by simp
  have "cum ! j \<le> cum ! slot_at cum n x"
    using j(3) slot_at_le [of n cum x] n assms(1,2) by (cases "j = slot_at cum n x") (auto simp: sorted_wrt_nth_less less_imp_le)
  also have "\<dots> \<le> x" by (rule slot_at_start_le [OF assms(1,2) n]) (simp add: assms(3) j(1))
  finally have cum: "cum ! j \<le> x" .
  have "0 \<le> cum ! j"
    using assms(1-3) j n by (cases j) (auto intro!: less_imp_le simp: sorted_wrt_nth_less [of "(<)" cum 0, unfolded assms(3)])
  show ?thesis
  proof (cases "0 \<le> sl_latest_end l - now")
    case True
    have "seconds (cum ! j + int (sl_duration_min l) * 60) \<le> seconds (num_seconds (sl_latest_end l - now))"
      using cum True by (simp add: x_def seconds_def num_seconds_def time_simps pos_imp_zdiv_nonneg_iff)
    also have "\<dots> \<le> sl_latest_end l - now" by (rule num_seconds_le [OF True])
    finally show ?thesis using j(4) by (simp add: milp(2) seconds_def minutes_span_def)
  next
    case False
    then have "sl_latest_end l < now" by simp
    then have "num_seconds (sl_latest_end l - now) \<le> 0"
      by (simp add: num_seconds_def trunc_div_def pos_imp_zdiv_nonneg_iff)
    with j(1) assms(6) show ?thesis by (simp add: x_def)
  qed
qed

text \<open>A washer that may start 100 s from now, on a grid of five-minute slots.\<close>

definition late_washer :: shiftable_load where
  "late_washer = sample_washer\<lparr>sl_earliest_start := seconds 100\<rparr>"

lemma late_washer_starts:
  "shiftable_milp late_washer shiftable_initial [0, 300, 600] 2 0 =
     \<lparr>sm_power_kw = 2, sm_duration_slots = 1, sm_valid_start_slots = [0, 1], sm_duration_min = 2,
      sm_earliest_start = seconds 100, sm_latest_end = seconds 3600\<rparr>"
proof -
  have "slots_covering [0, 300, 600] 2 120 = 1"
    by (simp add: slots_covering_def upt_rec)
  moreover have "valid_starts late_washer [0, 300, 600] 2 0 1 = [0, 1]"
    by (simp add: valid_starts_def late_washer_def sample_washer_def slot_at_def partition_point_def upt_rec)
  ultimately show ?thesis
    by (simp add: shiftable_milp_def shiftable_initial_def) (simp add: late_washer_def sample_washer_def)
qed

text \<open>
  The other end of the window is not kept: the first start the planner may choose is the slot that holds the
  earliest start, and that slot begins before it.
\<close>

theorem shiftable_start_before_earliest:
  "0 \<in> set (sm_valid_start_slots (shiftable_milp late_washer shiftable_initial [0, 300, 600] 2 0)) \<and>
   0 + seconds ([0, 300, 600] ! 0) < sl_earliest_start late_washer"
  by (rule conjI, simp add: late_washer_starts, simp add: late_washer_def seconds_def)

end
