(* ===== verification/Heater.thy ===== *)
theory Heater
  imports Asset_Physics
begin

text \<open>
  \<open>VEN/src/assets/heater.rs\<close>, \<open>heater_emergency.rs\<close>, \<open>heater_thermostat.rs\<close>, \<open>heater_time_to_target.rs\<close>,
  \<open>heater_capabilities.rs\<close> and the tank's energy conversions of \<open>entities/asset_params.rs\<close>: a staged heating
  element in a tank, with the thermostat that overrides every command at both ends of the comfort band.
\<close>

datatype heater_emergency_mode = EmNormal | EmCurtail | EmAbsorb

definition mode_from_overrides :: "bool option \<Rightarrow> bool option \<Rightarrow> heater_emergency_mode" where
  "mode_from_overrides curtail absorb =
     (if hm_or False curtail then EmCurtail else if hm_or False absorb then EmAbsorb else EmNormal)"

record heater_params =
  hp_max_kw :: f64
  hp_temp_initial_c :: f64
  hp_temp_min_c :: f64
  hp_temp_max_c :: f64
  hp_temp_safety_max_c :: f64
  hp_default_target_temp_c :: "f64 option"
  hp_thermostat_delta_c :: f64
  hp_power_stages :: nat
  hp_thermal_mass_kwh_per_c :: f64
  hp_k_loss_kw_per_c :: f64
  hp_draw_kw :: f64
  hp_switching_penalty_eur :: f64

record heater =
  ht_max_kw :: f64
  ht_power_stages :: nat
  ht_temp_min_c :: f64
  ht_temp_max_c :: f64
  ht_temp_min_c_profile :: f64
  ht_temp_max_c_profile :: f64
  ht_temp_safety_max_c :: f64
  ht_default_target_temp_c :: "f64 option"
  ht_thermostat_delta_c :: f64
  ht_emergency_mode :: heater_emergency_mode
  ht_thermal_mass_kwh_per_c :: f64
  ht_k_loss_kw_per_c :: f64
  ht_draw_kw :: f64
  ht_switching_penalty_eur :: f64
  ht_ambient_temp_c :: f64

record heater_state =
  hs_temperature_c :: f64
  hs_actual_power_kw :: f64
  hs_emergency_latched :: bool
  hs_ceiling_latched :: bool

definition p_step_kw :: "heater \<Rightarrow> f64" where
  "p_step_kw h = ht_max_kw h / of_nat (max (ht_power_stages h) 1)"

definition heater_power_steps :: "heater \<Rightarrow> f64 list" where
  "heater_power_steps h = map (\<lambda>k. of_nat k * p_step_kw h) [0..<Suc (max (ht_power_stages h) 1)]"

definition heater_from_params :: "heater_params \<Rightarrow> heater" where
  "heater_from_params p = \<lparr>ht_max_kw = hp_max_kw p, ht_power_stages = max (hp_power_stages p) 1,
     ht_temp_min_c = hp_temp_min_c p, ht_temp_max_c = hp_temp_max_c p,
     ht_temp_min_c_profile = hp_temp_min_c p, ht_temp_max_c_profile = hp_temp_max_c p,
     ht_temp_safety_max_c = hp_temp_safety_max_c p, ht_default_target_temp_c = hp_default_target_temp_c p,
     ht_thermostat_delta_c = hp_thermostat_delta_c p, ht_emergency_mode = EmNormal,
     ht_thermal_mass_kwh_per_c = hp_thermal_mass_kwh_per_c p, ht_k_loss_kw_per_c = hp_k_loss_kw_per_c p,
     ht_draw_kw = hp_draw_kw p, ht_switching_penalty_eur = hp_switching_penalty_eur p, ht_ambient_temp_c = 10\<rparr>"

definition heater_initial :: "heater_params \<Rightarrow> heater_state" where
  "heater_initial p = \<lparr>hs_temperature_c = hp_temp_initial_c p, hs_actual_power_kw = 0,
     hs_emergency_latched = False, hs_ceiling_latched = hp_temp_max_c p \<le> hp_temp_initial_c p\<rparr>"

section \<open>The overrides of a tick\<close>

text \<open>The fields of \<open>TickOverrides\<close> a heater reads.\<close>

record heater_overrides =
  ho_ambient_temp_c :: "f64 option"
  ho_temp_min_c :: "f64 option"
  ho_temp_max_c :: "f64 option"
  ho_emergency_curtail :: "bool option"
  ho_emergency_absorb :: "bool option"
  ho_request_ceiling_c :: "f64 option"

definition apply_heater_overrides ::
  "f64 option \<Rightarrow> f64 option \<Rightarrow> f64 option \<Rightarrow> bool option \<Rightarrow> bool option \<Rightarrow> heater \<Rightarrow> heater" where
  "apply_heater_overrides ambient tmin tmax curtail absorb h =
     h\<lparr>ht_ambient_temp_c := hm_or 10 ambient,
       ht_temp_min_c := hm_or (ht_temp_min_c_profile h) tmin,
       ht_temp_max_c := hm_or (ht_temp_max_c_profile h) tmax,
       ht_emergency_mode := mode_from_overrides curtail absorb\<rparr>"

definition heater_ceiling_override :: "heater \<Rightarrow> heater_overrides \<Rightarrow> f64 option" where
  "heater_ceiling_override h ov =
     (let target = map_option (\<lambda>c. min c (ht_temp_max_c_profile h)) (ho_request_ceiling_c ov)
      in case (ho_temp_max_c ov, target) of
           (Some m, Some t) \<Rightarrow> Some (min m t)
         | (Some m, None) \<Rightarrow> Some m
         | (None, t) \<Rightarrow> t)"

definition heater_tick_overrides :: "heater_overrides \<Rightarrow> heater \<Rightarrow> heater" where
  "heater_tick_overrides ov h =
     apply_heater_overrides (ho_ambient_temp_c ov) (ho_temp_min_c ov) (heater_ceiling_override h ov)
       (ho_emergency_curtail ov) (ho_emergency_absorb ov) h"

section \<open>The thermostat\<close>

definition cut_out_ceiling_c :: "heater \<Rightarrow> heater_emergency_mode \<Rightarrow> f64" where
  "cut_out_ceiling_c h mode = (if mode = EmAbsorb then ht_temp_safety_max_c h else ht_temp_max_c h)"

definition emergency_active_in :: "heater \<Rightarrow> heater_state \<Rightarrow> heater_emergency_mode \<Rightarrow> bool" where
  "emergency_active_in h s mode \<longleftrightarrow> mode \<noteq> EmCurtail \<and>
     (hs_temperature_c s \<le> ht_temp_min_c h \<or>
      hs_emergency_latched s \<and> hs_temperature_c s < ht_temp_min_c h + ht_thermostat_delta_c h)"

definition latches_after :: "heater \<Rightarrow> heater_state \<Rightarrow> f64 \<Rightarrow> heater_emergency_mode \<Rightarrow> bool \<times> bool" where
  "latches_after h s new_temp mode =
     (let ceiling = cut_out_ceiling_c h mode
      in (emergency_active_in h s mode \<and> new_temp < ht_temp_min_c h + ht_thermostat_delta_c h,
          ceiling \<le> hs_temperature_c s \<or> ceiling \<le> new_temp \<or>
          hs_ceiling_latched s \<and> ceiling - ht_thermostat_delta_c h < hs_temperature_c s))"

definition thermostat_forced_kw_in :: "heater \<Rightarrow> heater_state \<Rightarrow> heater_emergency_mode \<Rightarrow> f64 option" where
  "thermostat_forced_kw_in h s mode =
     (let ceiling = cut_out_ceiling_c h mode in
      if ceiling \<le> hs_temperature_c s then Some 0
      else if emergency_active_in h s mode then Some (ht_max_kw h)
      else if hs_ceiling_latched s \<and> ceiling - ht_thermostat_delta_c h < hs_temperature_c s then Some 0
      else None)"

definition thermostat_forced_kw :: "heater \<Rightarrow> heater_state \<Rightarrow> f64 option" where
  "thermostat_forced_kw h s = thermostat_forced_kw_in h s (ht_emergency_mode h)"

fun forced_kw_ahead :: "heater \<Rightarrow> heater_state \<Rightarrow> f64 \<Rightarrow> f64 list \<Rightarrow> f64 list" where
  "forced_kw_ahead h s q_dem [] = []"
| "forced_kw_ahead h s q_dem (dt # dts) =
     (case thermostat_forced_kw_in h s (ht_emergency_mode h) of
        None \<Rightarrow> []
      | Some kw \<Rightarrow>
          (let new_temp = hs_temperature_c s + energy_kwh (kw - q_dem) dt / ht_thermal_mass_kwh_per_c h;
               (em, ceil) = latches_after h s new_temp (ht_emergency_mode h)
           in kw # forced_kw_ahead h (s\<lparr>hs_emergency_latched := em, hs_ceiling_latched := ceil,
                                        hs_temperature_c := new_temp\<rparr>) q_dem dts))"

section \<open>Capability and physics\<close>

definition heater_response :: "heater \<Rightarrow> heater_state \<Rightarrow> setpoint_response" where
  "heater_response h s =
     (let r = resp_stepped_nearest (heater_power_steps h) in
      case thermostat_forced_kw h s of None \<Rightarrow> r | Some kw \<Rightarrow> with_power_next_tick kw r)"

definition heater_capability :: "heater \<Rightarrow> heater_state \<Rightarrow> asset_capability" where
  "heater_capability h s = \<lparr>cap_max_export_kw = 0,
     cap_max_import_kw = hm_or (ht_max_kw h) (thermostat_forced_kw h s),
     cap_adjustability = Stepped, cap_response = heater_response h s\<rparr>"

definition heater_floor :: "heater \<Rightarrow> heater_state \<Rightarrow> flexibility_floor" where
  "heater_floor h s = \<lparr>ff_min_export_kw = 0, ff_min_import_kw = hm_or (p_step_kw h) (thermostat_forced_kw h s)\<rparr>"

definition heater_loss_kw :: "heater \<Rightarrow> f64 \<Rightarrow> f64" where
  "heater_loss_kw h temp = (temp - ht_ambient_temp_c h) * ht_k_loss_kw_per_c h"

definition heater_step :: "heater \<Rightarrow> heater_state \<Rightarrow> f64 \<Rightarrow> span \<Rightarrow> heater_state \<times> f64" where
  "heater_step h s sp dt =
     (let dt_h = dt_h_from_duration dt;
          actual = cap_draws (heater_capability h s) sp;
          delta_c = (actual - heater_loss_kw h (hs_temperature_c s) - ht_draw_kw h) / ht_thermal_mass_kwh_per_c h * dt_h;
          new_temp = hs_temperature_c s + delta_c;
          (em, ceil) = latches_after h s new_temp (ht_emergency_mode h)
      in (\<lparr>hs_temperature_c = new_temp, hs_actual_power_kw = actual, hs_emergency_latched = em,
           hs_ceiling_latched = ceil\<rparr>, actual))"

definition heater_what_ifs :: "heater \<Rightarrow> heater_state \<Rightarrow> emergency_what_ifs" where
  "heater_what_ifs h s = \<lparr>ew_emergency_heat_kw = hm_or 0 (thermostat_forced_kw_in h s EmNormal),
     ew_absorb_headroom_kw = hm_or (ht_max_kw h) (thermostat_forced_kw_in h s EmAbsorb)\<rparr>"

definition heater_lever_of :: "heater \<Rightarrow> arbiter_lever" where
  "heater_lever_of h = \<lparr>al_kind = PausableLoad, al_rated_import_kw = ht_max_kw h, al_rated_export_kw = 0\<rparr>"

definition heater_surplus_claim_rank :: nat where "heater_surplus_claim_rank = 1"

section \<open>Energy in the tank\<close>

definition heater_energy_above_min_kwh :: "f64 \<Rightarrow> f64 \<Rightarrow> f64 \<Rightarrow> f64" where
  "heater_energy_above_min_kwh temp tmin mass = (temp - tmin) * mass"

definition heater_temp_c_from_energy :: "f64 \<Rightarrow> f64 \<Rightarrow> f64 \<Rightarrow> f64" where
  "heater_temp_c_from_energy e tmin mass = tmin + e / mass"

definition heater_stored_kwh :: "heater \<Rightarrow> heater_state \<Rightarrow> f64" where
  "heater_stored_kwh h s =
     heater_energy_above_min_kwh (hs_temperature_c s) (ht_temp_min_c h) (ht_thermal_mass_kwh_per_c h)"

definition shortfall_tolerance_kwh :: f64 where "shortfall_tolerance_kwh = 1 / 1000"

definition heater_unserved_kwh :: "heater \<Rightarrow> heater_state \<Rightarrow> f64" where
  "heater_unserved_kwh h s =
     (let short = - heater_stored_kwh h s in if shortfall_tolerance_kwh < short then short else 0)"

definition forecast_demand_kw :: "heater \<Rightarrow> f64 \<Rightarrow> f64" where
  "forecast_demand_kw h ambient =
     max (ht_draw_kw h + ht_k_loss_kw_per_c h * ((ht_temp_min_c h + ht_temp_max_c h) / 2 - ambient)) 0"

record plan_trajectory =
  pt_e_kwh :: f64
  pt_temp_min_c :: f64
  pt_thermal_mass :: f64
  pt_q_dem_kw :: f64
  pt_e_max_kwh :: f64

text \<open>\<open>f64::clamp\<close> panics where the ceiling was pushed below the floor.\<close>

definition heater_plan_trajectory :: "heater \<Rightarrow> heater_state \<Rightarrow> plan_trajectory option" where
  "heater_plan_trajectory h s =
     (let e_max = heater_energy_above_min_kwh (ht_temp_max_c h) (ht_temp_min_c h) (ht_thermal_mass_kwh_per_c h)
      in if 0 \<le> e_max
         then Some \<lparr>pt_e_kwh = clamp_range 0 e_max (heater_stored_kwh h s), pt_temp_min_c = ht_temp_min_c h,
                    pt_thermal_mass = ht_thermal_mass_kwh_per_c h,
                    pt_q_dem_kw = forecast_demand_kw h (ht_ambient_temp_c h), pt_e_max_kwh = e_max\<rparr>
         else None)"

definition f64_epsilon :: f64 where "f64_epsilon = 1 / 2 ^ 52"

definition heater_time_to_target_s :: "heater \<Rightarrow> heater_state \<Rightarrow> f64 option" where
  "heater_time_to_target_s h s =
     (let target = ht_temp_max_c h; temp = hs_temperature_c s; net = ht_max_kw h - ht_draw_kw h;
          k = ht_k_loss_kw_per_c h; mass = ht_thermal_mass_kwh_per_c h; eq = ht_ambient_temp_c h + net / k
      in if target \<le> temp then Some 0
         else if k \<le> f64_epsilon
         then (if 0 < net then Some (s_from_h ((target - temp) * mass / net)) else None)
         else if eq \<le> target then None
         else Some (s_from_h (mass / k * ln ((eq - temp) / (eq - target)))))"

definition heater_update_config :: "f64 hmap \<Rightarrow> heater \<Rightarrow> heater" where
  "heater_update_config values h = (case hm_get values ''max_kw'' of None \<Rightarrow> h | Some v \<Rightarrow> h\<lparr>ht_max_kw := max v 0\<rparr>)"

definition heater_reset :: "f64 hmap \<Rightarrow> heater_state \<Rightarrow> heater_state" where
  "heater_reset values s = (case hm_get values ''temp_c'' of None \<Rightarrow> s | Some t \<Rightarrow> s\<lparr>hs_temperature_c := t\<rparr>)"

section \<open>The heater keeps the contract\<close>

definition heater_wf :: "heater \<Rightarrow> bool" where
  "heater_wf h \<longleftrightarrow> 0 \<le> ht_max_kw h \<and> 0 < ht_thermal_mass_kwh_per_c h \<and> 0 \<le> ht_k_loss_kw_per_c h \<and>
     0 \<le> ht_draw_kw h \<and> 0 \<le> ht_thermostat_delta_c h"

definition heater_inv :: "heater \<Rightarrow> heater_state \<Rightarrow> bool" where
  "heater_inv h s \<longleftrightarrow> heater_wf h \<and> 0 \<le> hs_actual_power_kw s \<and> hs_actual_power_kw s \<le> ht_max_kw h"

definition heater_rated :: "heater \<Rightarrow> f64 \<times> f64" where
  "heater_rated h = (0, ht_max_kw h)"

lemma heater_steps_range: "0 \<le> ht_max_kw h \<Longrightarrow> x \<in> set (heater_power_steps h) \<Longrightarrow> 0 \<le> x \<and> x \<le> ht_max_kw h"
proof -
  let ?n = "max (ht_power_stages h) 1"
  assume h: "0 \<le> ht_max_kw h" and "x \<in> set (heater_power_steps h)"
  then have "x \<in> (\<lambda>k. of_nat k * p_step_kw h) ` {0..<Suc ?n}" by (simp only: heater_power_steps_def set_map set_upt)
  then have "\<exists>k \<le> ?n. x = of_nat k * p_step_kw h" by (simp only: image_iff Bex_def atLeastLessThan_iff less_Suc_eq_le) blast
  then obtain k where k: "k \<le> ?n" "x = of_nat k * p_step_kw h" by blast
  have p: "0 \<le> p_step_kw h" "of_nat ?n * p_step_kw h = ht_max_kw h" using h by (simp_all add: p_step_kw_def)
  from mult_right_mono [OF _ p(1), of "of_nat k" "of_nat ?n"] k(1) p show ?thesis
    unfolding k(2) by (simp del: of_nat_max)
qed

lemma heater_draws_forced:
  "thermostat_forced_kw h s = Some kw \<Longrightarrow> cap_draws (heater_capability h s) sp = kw"
  by (simp add: cap_draws_def heater_capability_def heater_response_def draws_def with_power_next_tick_def Let_def)

lemma heater_draws_free:
  "thermostat_forced_kw h s = None \<Longrightarrow> cap_draws (heater_capability h s) sp =
     nearest_power_step (heater_power_steps h) (clamp_range 0 (ht_max_kw h) sp)"
  by (simp add: cap_draws_def heater_capability_def heater_response_def draws_def lands_def
      resp_stepped_nearest_def resp_continuous_def Let_def)

lemma forced_kw_cases: "thermostat_forced_kw_in h s mode = Some kw \<Longrightarrow> kw = 0 \<or> kw = ht_max_kw h"
  by (auto simp: thermostat_forced_kw_in_def Let_def split: if_splits)

text \<open>Whatever is commanded, the element draws one of its stages, none of them above its rating.\<close>

lemma heater_draws_stage:
  assumes "0 \<le> ht_max_kw h"
  shows "cap_draws (heater_capability h s) sp \<in> set (heater_power_steps h)"
proof (cases "thermostat_forced_kw h s")
  case None
  have "heater_power_steps h \<noteq> []" by (simp add: heater_power_steps_def)
  then show ?thesis by (simp add: heater_draws_free [OF None] nearest_step_mem)
next
  case (Some kw)
  let ?n = "max (ht_power_stages h) 1"
  have stage: "of_nat k * p_step_kw h \<in> set (heater_power_steps h)" if "k \<le> ?n" for k
    unfolding heater_power_steps_def set_map set_upt by (rule imageI) (use that in \<open>simp add: less_Suc_eq_le del: max_less_iff_conj\<close>)
  from stage [of 0] have "0 \<in> set (heater_power_steps h)" by simp
  moreover from stage [of ?n] have "ht_max_kw h \<in> set (heater_power_steps h)" by (simp add: p_step_kw_def)
  ultimately show ?thesis
    using forced_kw_cases [of h s "ht_emergency_mode h" kw] Some heater_draws_forced [OF Some, of sp]
    by (auto simp: thermostat_forced_kw_def)
qed

lemma heater_draws_range:
  "0 \<le> ht_max_kw h \<Longrightarrow> 0 \<le> cap_draws (heater_capability h s) sp \<and> cap_draws (heater_capability h s) sp \<le> ht_max_kw h"
  using heater_steps_range heater_draws_stage by blast

lemma heater_step_power [simp]: "snd (heater_step h s sp dt) = cap_draws (heater_capability h s) sp"
  by (simp add: heater_step_def Let_def split: prod.split)

lemma heater_step_state:
  assumes "heater_step h s sp dt = (s', kw)"
  shows "kw = cap_draws (heater_capability h s) sp" and "hs_actual_power_kw s' = kw"
    and "hs_temperature_c s' = hs_temperature_c s +
      (kw - heater_loss_kw h (hs_temperature_c s) - ht_draw_kw h) / ht_thermal_mass_kwh_per_c h * dt_h_from_duration dt"
    and "(hs_emergency_latched s', hs_ceiling_latched s') = latches_after h s (hs_temperature_c s') (ht_emergency_mode h)"
  using assms by (auto simp: heater_step_def Let_def split: prod.splits)

interpretation htr: asset_physics heater_inv heater_step heater_rated
proof
  fix h s sp dt
  assume "heater_inv h s"
  then have inv: "heater_wf h" "0 \<le> ht_max_kw h" by (simp_all add: heater_inv_def heater_wf_def)
  obtain s' kw where st: "heater_step h s sp dt = (s', kw)" by (metis prod.exhaust)
  show "heater_inv h (fst (heater_step h s sp dt))"
    using inv heater_draws_range [OF inv(2), of s sp] heater_step_state(1,2) [OF st] st by (simp add: heater_inv_def)
  show "fst (heater_rated h) \<le> snd (heater_step h s sp dt) \<and> snd (heater_step h s sp dt) \<le> snd (heater_rated h)"
    using heater_draws_range [OF inv(2)] by (simp add: heater_rated_def)
qed

section \<open>The deadband at the ceiling\<close>

text \<open>Cut out: at the ceiling, or latched and not yet a full delta below it.\<close>

definition cut_out :: "heater \<Rightarrow> heater_state \<Rightarrow> bool" where
  "cut_out h s \<longleftrightarrow> (let c = cut_out_ceiling_c h (ht_emergency_mode h) in
     c \<le> hs_temperature_c s \<or> hs_ceiling_latched s \<and> c - ht_thermostat_delta_c h < hs_temperature_c s)"

definition bands_apart :: "heater \<Rightarrow> bool" where
  "bands_apart h \<longleftrightarrow>
     ht_temp_min_c h + ht_thermostat_delta_c h \<le> cut_out_ceiling_c h (ht_emergency_mode h) - ht_thermostat_delta_c h"

lemma cut_out_forced:
  assumes "heater_wf h" and "bands_apart h" and "cut_out h s"
  shows "thermostat_forced_kw h s = Some 0"
proof -
  have "\<not> emergency_active_in h s (ht_emergency_mode h)" if "hs_temperature_c s < cut_out_ceiling_c h (ht_emergency_mode h)"
    using assms that by (auto simp: emergency_active_in_def cut_out_def bands_apart_def heater_wf_def Let_def)
  with assms(3) show ?thesis by (auto simp: thermostat_forced_kw_def thermostat_forced_kw_in_def cut_out_def Let_def)
qed

lemma cut_out_step:
  assumes "heater_wf h" and "cut_out h s" and "heater_step h s sp dt = (s', kw)"
    and "cut_out_ceiling_c h (ht_emergency_mode h) - ht_thermostat_delta_c h < hs_temperature_c s'"
  shows "cut_out h s'"
  using assms(2,4) heater_step_state(4) [OF assms(3)] by (auto simp: cut_out_def latches_after_def Let_def)

text \<open>
  The relay does not chatter at the ceiling: once the tank has reached its cut-out temperature the element
  draws nothing, whatever is commanded, for as long as the tank has not cooled by the full thermostat delta.
\<close>

theorem heater_stays_out:
  assumes "heater_wf h" and "bands_apart h" and "cut_out_ceiling_c h (ht_emergency_mode h) \<le> hs_temperature_c s"
    and "\<forall>k \<le> length cmds. cut_out_ceiling_c h (ht_emergency_mode h) - ht_thermostat_delta_c h
      < hs_temperature_c (fst (run_steps (heater_step h) s (take k cmds)))"
  shows "\<forall>kw \<in> set (map fst (snd (run_steps (heater_step h) s (cmds @ [(sp, dt)])))). kw = 0"
proof -
  have "cut_out h s" using assms(3) by (simp add: cut_out_def)
  then show ?thesis using assms(4)
  proof (induction cmds arbitrary: s)
    case Nil
    have "cap_draws (heater_capability h s) sp = 0"
      by (rule heater_draws_forced [OF cut_out_forced [OF assms(1,2) Nil.prems(1)]])
    then show ?case by (auto dest: heater_step_state(1) split: prod.splits)
  next
    case (Cons c cmds)
    obtain sp0 dt0 where c: "c = (sp0, dt0)" by (cases c)
    obtain s1 kw where st: "heater_step h s sp0 dt0 = (s1, kw)" by (metis prod.exhaust)
    have temps: "cut_out_ceiling_c h (ht_emergency_mode h) - ht_thermostat_delta_c h
        < hs_temperature_c (fst (run_steps (heater_step h) s1 (take k cmds)))" if "k \<le> length cmds" for k
      using Cons.prems(2) [rule_format, of "Suc k"] that by (simp add: c st split: prod.splits)
    have "cut_out h s1" using cut_out_step [OF assms(1) Cons.prems(1) st] temps [of 0] by simp
    with Cons.IH [of s1] temps have "\<forall>kw \<in> set (map fst (snd (run_steps (heater_step h) s1 (cmds @ [(sp, dt)])))). kw = 0"
      by blast
    moreover have "kw = 0"
      using heater_step_state(1) [OF st] heater_draws_forced [OF cut_out_forced [OF assms(1,2) Cons.prems(1)]] by simp
    ultimately show ?case by (auto simp: c st split: prod.splits)
  qed
qed

text \<open>A five-kilowatt element in a tank of 2 kWh/K that neither leaks nor is drawn from.\<close>

definition sample_heater :: heater where
  "sample_heater = \<lparr>ht_max_kw = 6, ht_power_stages = 2, ht_temp_min_c = 40, ht_temp_max_c = 60,
     ht_temp_min_c_profile = 40, ht_temp_max_c_profile = 60, ht_temp_safety_max_c = 70,
     ht_default_target_temp_c = None, ht_thermostat_delta_c = 3, ht_emergency_mode = EmNormal,
     ht_thermal_mass_kwh_per_c = 2, ht_k_loss_kw_per_c = 0, ht_draw_kw = 0, ht_switching_penalty_eur = 0,
     ht_ambient_temp_c = 10\<rparr>"

lemma sample_heater_wf: "heater_wf sample_heater"
  by (simp add: heater_wf_def sample_heater_def)

lemma heater_stays_out_witness:
  "snd (heater_step sample_heater \<lparr>hs_temperature_c = 61, hs_actual_power_kw = 0, hs_emergency_latched = False,
     hs_ceiling_latched = True\<rparr> 6 (seconds 60)) = 0"
proof -
  let ?s = "\<lparr>hs_temperature_c = 61, hs_actual_power_kw = 0, hs_emergency_latched = False, hs_ceiling_latched = True\<rparr>"
  have "bands_apart sample_heater" "cut_out_ceiling_c sample_heater (ht_emergency_mode sample_heater) \<le> hs_temperature_c ?s"
    "\<forall>k \<le> length []. cut_out_ceiling_c sample_heater (ht_emergency_mode sample_heater) - ht_thermostat_delta_c sample_heater
      < hs_temperature_c (fst (run_steps (heater_step sample_heater) ?s (take k [])))"
    by (simp_all add: bands_apart_def cut_out_ceiling_c_def sample_heater_def)
  from heater_stays_out [OF sample_heater_wf this, of 6 "seconds 60"] show ?thesis
    by (auto split: prod.splits dest: heater_step_state(1))
qed

section \<open>The emergency at the floor\<close>

definition release_c :: "heater \<Rightarrow> f64" where
  "release_c h = ht_temp_min_c h + ht_thermostat_delta_c h"

definition hours_total :: "(f64 \<times> span) list \<Rightarrow> f64" where
  "hours_total cmds = sum_list (map (\<lambda>c. dt_h_from_duration (snd c)) cmds)"

lemma hours_total_simps [simp]:
  "hours_total [] = 0" "hours_total (c # cmds) = dt_h_from_duration (snd c) + hours_total cmds"
  by (simp_all add: hours_total_def)

text \<open>What full power gains over the losses just below the release temperature, and so everywhere below it.\<close>

definition emergency_gain_kw :: "heater \<Rightarrow> f64" where
  "emergency_gain_kw h = ht_max_kw h - heater_loss_kw h (release_c h) - ht_draw_kw h"

lemma emergency_step:
  assumes wf: "heater_wf h" and em: "emergency_active_in h s (ht_emergency_mode h)"
    and low: "hs_temperature_c s < release_c h" "release_c h \<le> cut_out_ceiling_c h (ht_emergency_mode h)"
    and dt: "0 \<le> dt" and st: "heater_step h s sp dt = (s', kw)"
  shows "kw = ht_max_kw h"
    and "hs_temperature_c s + emergency_gain_kw h / ht_thermal_mass_kwh_per_c h * dt_h_from_duration dt \<le> hs_temperature_c s'"
    and "hs_temperature_c s' < release_c h \<Longrightarrow> emergency_active_in h s' (ht_emergency_mode h)"
proof -
  have "thermostat_forced_kw h s = Some (ht_max_kw h)"
    using em low by (auto simp: thermostat_forced_kw_def thermostat_forced_kw_in_def Let_def)
  then show kw: "kw = ht_max_kw h" using heater_step_state(1) [OF st] heater_draws_forced by simp
  have "heater_loss_kw h (hs_temperature_c s) \<le> heater_loss_kw h (release_c h)"
    using wf low(1) by (auto simp: heater_loss_kw_def heater_wf_def intro!: mult_right_mono)
  then have "emergency_gain_kw h / ht_thermal_mass_kwh_per_c h * dt_h_from_duration dt \<le>
      (kw - heater_loss_kw h (hs_temperature_c s) - ht_draw_kw h) / ht_thermal_mass_kwh_per_c h * dt_h_from_duration dt"
    using wf dt by (intro mult_right_mono divide_right_mono dt_h_nonneg) (auto simp: kw emergency_gain_kw_def heater_wf_def)
  then show "hs_temperature_c s + emergency_gain_kw h / ht_thermal_mass_kwh_per_c h * dt_h_from_duration dt \<le> hs_temperature_c s'"
    using heater_step_state(3) [OF st] by simp
  show "emergency_active_in h s' (ht_emergency_mode h)" if "hs_temperature_c s' < release_c h"
    using heater_step_state(4) [OF st] em that by (auto simp: latches_after_def emergency_active_in_def release_c_def Let_def)
qed

text \<open>
  A tank that has fallen to its comfort floor is brought back whatever is commanded: where full power outdoes
  the losses below the release temperature, the element runs at full power from the first tick until the tank is a
  full delta above its floor, which it reaches no later than the gain allows.
\<close>

theorem heater_recovers:
  assumes wf: "heater_wf h" and mode: "emergency_active_in h s (ht_emergency_mode h)"
    and low: "release_c h \<le> cut_out_ceiling_c h (ht_emergency_mode h)" and dt: "\<forall>c \<in> set cmds. 0 \<le> snd c"
    and time: "release_c h - hs_temperature_c s \<le> emergency_gain_kw h / ht_thermal_mass_kwh_per_c h * hours_total cmds"
  shows "\<exists>k \<le> length cmds. release_c h \<le> hs_temperature_c (fst (run_steps (heater_step h) s (take k cmds))) \<and>
    map fst (snd (run_steps (heater_step h) s (take k cmds))) = replicate k (ht_max_kw h)"
proof -
  have "emergency_active_in h s (ht_emergency_mode h) \<or> release_c h \<le> hs_temperature_c s" using mode by simp
  then show ?thesis using dt time
  proof (induction cmds arbitrary: s)
    case Nil
    then show ?case by simp
  next
    case (Cons c cmds)
    show ?case
    proof (cases "release_c h \<le> hs_temperature_c s")
      case True
      then show ?thesis by (intro exI [of _ 0]) simp
    next
      case False
      obtain sp d where c: "c = (sp, d)" by (cases c)
      obtain s1 kw where st: "heater_step h s sp d = (s1, kw)" by (metis prod.exhaust)
      have em: "emergency_active_in h s (ht_emergency_mode h)" "hs_temperature_c s < release_c h" "0 \<le> d"
        using False Cons.prems c by auto
      note step = emergency_step [OF wf em(1,2) low em(3) st]
      have "release_c h - hs_temperature_c s1 \<le> emergency_gain_kw h / ht_thermal_mass_kwh_per_c h * hours_total cmds"
        using step(2) Cons.prems(3) unfolding c hours_total_simps snd_conv distrib_left by linarith
      moreover have "emergency_active_in h s1 (ht_emergency_mode h) \<or> release_c h \<le> hs_temperature_c s1"
        using step(3) by fastforce
      ultimately obtain k where k: "k \<le> length cmds"
        "release_c h \<le> hs_temperature_c (fst (run_steps (heater_step h) s1 (take k cmds)))"
        "map fst (snd (run_steps (heater_step h) s1 (take k cmds))) = replicate k (ht_max_kw h)"
        using Cons.IH [of s1] Cons.prems(2) by auto
      then show ?thesis using step(1) by (intro exI [of _ "Suc k"]) (auto simp: c st split: prod.splits)
    qed
  qed
qed

definition cold_tank :: heater_state where
  "cold_tank = \<lparr>hs_temperature_c = 40, hs_actual_power_kw = 0, hs_emergency_latched = False, hs_ceiling_latched = False\<rparr>"

lemma heater_recovers_witness:
  "\<exists>k \<le> 1. 43 \<le> hs_temperature_c (fst (run_steps (heater_step sample_heater) cold_tank (take k [(0, seconds 3600)])))"
proof -
  have "emergency_active_in sample_heater cold_tank (ht_emergency_mode sample_heater)"
    by (simp add: emergency_active_in_def sample_heater_def cold_tank_def)
  moreover have "release_c sample_heater = 43" "emergency_gain_kw sample_heater = 6"
    by (simp_all add: release_c_def emergency_gain_kw_def heater_loss_kw_def sample_heater_def)
  moreover have "hours_total [(0, seconds 3600)] = 1"
    by (simp add: dt_h_whole_seconds dt_h_from_s_def)
  ultimately have "\<exists>k \<le> length [(0 :: f64, seconds 3600)].
      release_c sample_heater \<le> hs_temperature_c (fst (run_steps (heater_step sample_heater) cold_tank (take k [(0, seconds 3600)]))) \<and>
      map fst (snd (run_steps (heater_step sample_heater) cold_tank (take k [(0, seconds 3600)]))) =
        replicate k (ht_max_kw sample_heater)"
    by (intro heater_recovers sample_heater_wf)
      (simp_all add: cut_out_ceiling_c_def cold_tank_def, simp_all add: sample_heater_def seconds_def)
  then show ?thesis unfolding \<open>release_c sample_heater = 43\<close> by auto
qed

section \<open>How long it takes\<close>

text \<open>The tank at full power, \<open>t\<close> hours on: the solution of Newton's law with a constant heat source.\<close>

definition tank_at :: "heater \<Rightarrow> f64 \<Rightarrow> f64 \<Rightarrow> f64" where
  "tank_at h temp t =
     (let k = ht_k_loss_kw_per_c h; eq = ht_ambient_temp_c h + (ht_max_kw h - ht_draw_kw h) / k
      in eq - (eq - temp) * exp (- (k / ht_thermal_mass_kwh_per_c h) * t))"

lemma tank_at_starts: "tank_at h temp 0 = temp"
  by (simp add: tank_at_def Let_def)

lemma tank_at_obeys:
  assumes "0 < ht_k_loss_kw_per_c h" and "0 < ht_thermal_mass_kwh_per_c h"
  shows "(tank_at h temp has_real_derivative
    (ht_max_kw h - heater_loss_kw h (tank_at h temp t) - ht_draw_kw h) / ht_thermal_mass_kwh_per_c h) (at t)"
proof -
  define k m where "k = ht_k_loss_kw_per_c h" and "m = ht_thermal_mass_kwh_per_c h"
  define eq where "eq = ht_ambient_temp_c h + (ht_max_kw h - ht_draw_kw h) / k"
  define e where "e = exp (- (k / m) * t)"
  have fn: "tank_at h temp = (\<lambda>t. eq - (eq - temp) * exp (- (k / m) * t))"
    by (rule ext) (simp add: tank_at_def Let_def k_def m_def eq_def)
  have "(tank_at h temp has_real_derivative (eq - temp) * (k / m) * e) (at t)"
    unfolding fn e_def using assms(2) by (auto intro!: derivative_eq_intros simp: m_def)
  moreover have "ht_max_kw h - heater_loss_kw h (tank_at h temp t) - ht_draw_kw h = (eq - temp) * k * e"
  proof -
    have "k * eq = k * ht_ambient_temp_c h + (ht_max_kw h - ht_draw_kw h)"
      using assms(1) by (simp add: eq_def k_def distrib_left)
    then show ?thesis
      unfolding fn heater_loss_kw_def k_def [symmetric] e_def [symmetric] by (simp add: algebra_simps)
  qed
  ultimately show ?thesis by (simp add: m_def)
qed

text \<open>
  The time to target is the time the physics takes: where the heater can lift its tank to the target, the tank
  that heats at full power under its own losses stands exactly at the target at the answered time, which is not
  negative; and it answers none exactly when full power never lifts the tank that far.
\<close>

theorem heater_time_to_target_exact:
  assumes "f64_epsilon < ht_k_loss_kw_per_c h" and "0 < ht_thermal_mass_kwh_per_c h"
    and "hs_temperature_c s < ht_temp_max_c h"
  shows "(\<forall>t. heater_time_to_target_s h s = Some t \<longrightarrow>
      0 \<le> t \<and> tank_at h (hs_temperature_c s) (dt_h_from_s t) = ht_temp_max_c h) \<and>
    (heater_time_to_target_s h s = None \<longleftrightarrow>
      ht_ambient_temp_c h + (ht_max_kw h - ht_draw_kw h) / ht_k_loss_kw_per_c h \<le> ht_temp_max_c h)"
proof -
  define k m where "k = ht_k_loss_kw_per_c h" and "m = ht_thermal_mass_kwh_per_c h"
  define eq where "eq = ht_ambient_temp_c h + (ht_max_kw h - ht_draw_kw h) / k"
  define T g where "T = hs_temperature_c s" and "g = ht_temp_max_c h"
  have pos: "0 < k" "0 < m" "T < g" using assms by (simp_all add: k_def m_def T_def g_def f64_epsilon_def less_trans)
  have time: "heater_time_to_target_s h s = (if eq \<le> g then None else Some (s_from_h (m / k * ln ((eq - T) / (eq - g)))))"
    using assms by (simp add: heater_time_to_target_s_def Let_def k_def m_def eq_def T_def g_def)
  have "0 \<le> m / k * ln ((eq - T) / (eq - g)) \<and> tank_at h T (m / k * ln ((eq - T) / (eq - g))) = g" if "g < eq"
  proof -
    define q where "q = (eq - T) / (eq - g)"
    have q: "1 \<le> q" "0 < q" "0 < eq - T" using that pos by (simp_all add: q_def)
    have "exp (- (k / m) * (m / k * ln q)) = 1 / q" using pos q by (simp add: exp_minus inverse_eq_divide)
    then have "tank_at h T (m / k * ln q) = eq - (eq - T) * (1 / q)"
      by (simp add: tank_at_def Let_def k_def [symmetric] m_def [symmetric] eq_def [symmetric])
    also have "(eq - T) * (1 / q) = eq - g" using q that by (simp add: q_def)
    finally show ?thesis using q pos by (simp add: q_def [symmetric])
  qed
  moreover have "0 \<le> s_from_h x \<longleftrightarrow> 0 \<le> x" "dt_h_from_s (s_from_h x) = x" for x
    by (simp_all add: s_from_h_def dt_h_from_s_def)
  ultimately show ?thesis
    unfolding time T_def [symmetric] g_def [symmetric] eq_def [unfolded k_def, symmetric] by auto
qed

definition leaky_heater :: heater where
  "leaky_heater = sample_heater\<lparr>ht_k_loss_kw_per_c := 1 / 20\<rparr>"

lemma heater_time_to_target_exact_witness:
  "\<exists>t. heater_time_to_target_s leaky_heater cold_tank = Some t \<and> tank_at leaky_heater 40 (dt_h_from_s t) = 60"
proof -
  have "f64_epsilon < ht_k_loss_kw_per_c leaky_heater" "0 < ht_thermal_mass_kwh_per_c leaky_heater"
    "hs_temperature_c cold_tank < ht_temp_max_c leaky_heater"
    by (simp_all add: f64_epsilon_def leaky_heater_def sample_heater_def cold_tank_def)
  from heater_time_to_target_exact [OF this] show ?thesis
    by (auto simp: leaky_heater_def sample_heater_def cold_tank_def)
qed

end
