(* ===== verification/Ev_Charger.thy ===== *)
theory Ev_Charger
  imports Asset_Physics User_Requests
begin

text \<open>
  \<open>VEN/src/assets/ev.rs\<close>, \<open>ev_energy.rs\<close> and the part of \<open>ev_schedule.rs\<close> that decides when the car is away:
  a charger whose command lands one tick late, a pack with a charge ceiling and an optional floor for discharge, and
  trips that unplug the car and return it with less charge.

  The day's trip (\<open>daily_trip\<close>) is drawn from the \<open>rand\<close> crate's generator and a calendar date, neither of which
  is in the repository: a function from the day's number to the trip stands for it, the first argument of every
  definition that uses it. The day of an instant is its whole number of days since the epoch.
\<close>

datatype ev_usage_mode = Simulated | UsageForecast

record usage_trip =
  ut_leave_at :: instant
  ut_return_at :: instant
  ut_soc_drop_pct :: f64

record ev_usage =
  eu_mode :: ev_usage_mode
  eu_engage_charge_planning :: bool
  eu_min_soc_after_drop_pct :: f64

type_synonym daily_trips = "int \<Rightarrow> usage_trip option"

record ev_charger =
  ev_max_charge_kw :: f64
  ev_max_discharge_kw :: f64
  ev_v2g_capable :: bool
  ev_battery_kwh :: f64
  ev_consumption_kwh_per_km :: f64
  ev_soc_target_frac :: f64
  ev_soc_target_profile :: f64
  ev_default_charge_kw :: f64
  ev_min_soc_frac :: f64
  ev_min_charge_kw :: f64
  ev_response_delay_s :: f64
  ev_departure_time :: "instant option"
  ev_usage_sim :: "ev_usage option"

record ev_params =
  vp_max_charge_kw :: f64
  vp_max_discharge_kw :: f64
  vp_initial_soc_frac :: f64
  vp_battery_kwh :: f64
  vp_soc_target_frac :: f64
  vp_default_charge_kw :: f64
  vp_min_charge_kw :: f64
  vp_response_delay_s :: f64
  vp_v2g_capable :: bool
  vp_consumption_kwh_per_km :: f64
  vp_usage_sim :: "ev_usage option"

record ev_state =
  vs_soc_frac :: f64
  vs_plugged :: bool
  vs_actual_power_kw :: f64
  vs_pending_command_kw :: f64
  vs_was_away :: bool
  vs_unserved_at_departure_kwh :: f64

definition ev_from_params :: "ev_params \<Rightarrow> ev_charger" where
  "ev_from_params p = \<lparr>ev_max_charge_kw = vp_max_charge_kw p,
     ev_max_discharge_kw = (if vp_v2g_capable p then vp_max_discharge_kw p else 0), ev_v2g_capable = vp_v2g_capable p,
     ev_battery_kwh = vp_battery_kwh p, ev_consumption_kwh_per_km = vp_consumption_kwh_per_km p,
     ev_soc_target_frac = vp_soc_target_frac p, ev_soc_target_profile = vp_soc_target_frac p,
     ev_default_charge_kw = vp_default_charge_kw p, ev_min_soc_frac = 0, ev_min_charge_kw = vp_min_charge_kw p,
     ev_response_delay_s = vp_response_delay_s p, ev_departure_time = None, ev_usage_sim = vp_usage_sim p\<rparr>"

definition ev_initial :: "ev_params \<Rightarrow> ev_state" where
  "ev_initial p = \<lparr>vs_soc_frac = vp_initial_soc_frac p, vs_plugged = True, vs_actual_power_kw = vp_max_charge_kw p,
     vs_pending_command_kw = vp_max_charge_kw p, vs_was_away = False, vs_unserved_at_departure_kwh = 0\<rparr>"

section \<open>Capability and physics\<close>

definition ev_capability :: "ev_charger \<Rightarrow> ev_state \<Rightarrow> asset_capability" where
  "ev_capability e s =
     (if \<not> vs_plugged s
      then \<lparr>cap_max_export_kw = 0, cap_max_import_kw = 0, cap_adjustability = Stepless, cap_response = resp_fixed 0\<rparr>
      else \<lparr>cap_max_export_kw = (if vs_soc_frac s \<le> ev_min_soc_frac e then 0 else - ev_max_discharge_kw e),
            cap_max_import_kw = (if ev_soc_target_frac e \<le> vs_soc_frac s then 0 else ev_max_charge_kw e),
            cap_adjustability = Stepless,
            cap_response = with_power_next_tick (vs_pending_command_kw s)
              (with_snap_to_zero_below (ev_min_charge_kw e) resp_continuous)\<rparr>)"

definition ev_floor :: "ev_charger \<Rightarrow> ev_state \<Rightarrow> flexibility_floor" where
  "ev_floor e s = \<lparr>ff_min_export_kw = 0,
     ff_min_import_kw = (if \<not> vs_plugged s \<or> ev_soc_target_frac e \<le> vs_soc_frac s then 0 else ev_min_charge_kw e)\<rparr>"

definition ev_step :: "ev_charger \<Rightarrow> ev_state \<Rightarrow> f64 \<Rightarrow> span \<Rightarrow> ev_state \<times> f64" where
  "ev_step e s sp dt =
     (if \<not> vs_plugged s then (s\<lparr>vs_actual_power_kw := 0, vs_pending_command_kw := 0\<rparr>, 0)
      else (let kw = cap_lands (ev_capability e s) sp;
                applied = vs_pending_command_kw s;
                new_soc = clamp_range 0 1 (vs_soc_frac s + energy_kwh applied (dt_h_from_duration dt) / ev_battery_kwh e)
            in (s\<lparr>vs_soc_frac := new_soc, vs_actual_power_kw := applied, vs_pending_command_kw := kw\<rparr>, applied)))"

definition ev_reset :: "f64 hmap \<Rightarrow> ev_state \<Rightarrow> ev_state" where
  "ev_reset values s = (case hm_get values ''soc'' of None \<Rightarrow> s | Some v \<Rightarrow> s\<lparr>vs_soc_frac := clamp_range 0 1 v\<rparr>)"

definition ev_update_config :: "f64 hmap \<Rightarrow> ev_charger \<Rightarrow> ev_charger" where
  "ev_update_config values e =
     (case hm_get values ''max_charge_kw'' of None \<Rightarrow> e | Some v \<Rightarrow> e\<lparr>ev_max_charge_kw := max v 0\<rparr>)"

definition ev_lever_of :: "ev_charger \<Rightarrow> arbiter_lever" where
  "ev_lever_of e = \<lparr>al_kind = SurplusCharge, al_rated_import_kw = ev_max_charge_kw e,
     al_rated_export_kw = ev_max_discharge_kw e\<rparr>"

definition ev_surplus_claim_rank :: nat where "ev_surplus_claim_rank = 0"

section \<open>Energy\<close>

definition energy_to_soc_kwh :: "ev_charger \<Rightarrow> f64 \<Rightarrow> f64 \<Rightarrow> f64" where
  "energy_to_soc_kwh e from_soc to_soc = max (to_soc - from_soc) 0 * ev_battery_kwh e"

definition energy_to_target_kwh :: "ev_charger \<Rightarrow> ev_state \<Rightarrow> f64" where
  "energy_to_target_kwh e s = energy_to_soc_kwh e (vs_soc_frac s) (ev_soc_target_frac e)"

definition ev_time_to_target_s :: "ev_charger \<Rightarrow> ev_state \<Rightarrow> f64 option" where
  "ev_time_to_target_s e s =
     (if vs_plugged s then Some (s_from_h (energy_to_target_kwh e s / ev_max_charge_kw e)) else None)"

definition ev_unserved_kwh :: "ev_state \<Rightarrow> f64" where
  "ev_unserved_kwh s = (if vs_plugged s then 0 else vs_unserved_at_departure_kwh s)"

definition ev_stored_kwh :: "ev_charger \<Rightarrow> ev_state \<Rightarrow> f64" where
  "ev_stored_kwh e s = vs_soc_frac s * ev_battery_kwh e"

definition ev_dispatch_without_request :: "ev_charger \<Rightarrow> ev_state \<Rightarrow> non_planning_dispatch option" where
  "ev_dispatch_without_request e s =
     (if vs_plugged s \<and> vs_soc_frac s < ev_soc_target_frac e then Some StartNow else None)"

definition ev_available_storage :: "ev_charger \<Rightarrow> ev_state \<Rightarrow> (f64 \<times> f64) option" where
  "ev_available_storage e s =
     (if \<not> vs_plugged s then None
      else Some (max (vs_soc_frac s - ev_min_soc_frac e) 0 * ev_battery_kwh e, max (1 - vs_soc_frac s) 0 * ev_battery_kwh e))"

definition expected_trip_drop_frac :: "ev_charger \<Rightarrow> f64 \<Rightarrow> f64" where
  "expected_trip_drop_frac e distance_km =
     (if ev_battery_kwh e \<le> 0 then 0
      else clamp_range 0 1 (max distance_km 0 * ev_consumption_kwh_per_km e / ev_battery_kwh e))"

section \<open>Trips\<close>

definition day_of :: "instant \<Rightarrow> int" where
  "day_of t = t div seconds 86400"

definition day_start :: "int \<Rightarrow> instant" where
  "day_start d = d * seconds 86400"

text \<open>The trip under way, looked up under the day before and the day itself.\<close>

definition active_trip_at :: "daily_trips \<Rightarrow> instant \<Rightarrow> usage_trip option" where
  "active_trip_at trips ts =
     (let on = (\<lambda>d. case trips d of None \<Rightarrow> None
                | Some t \<Rightarrow> if ut_leave_at t \<le> ts \<and> ts < ut_return_at t then Some t else None)
      in case on (day_of ts - 1) of Some t \<Rightarrow> Some t | None \<Rightarrow> on (day_of ts))"

text \<open>The first day from \<open>day\<close> on whose trip leaves after \<open>now\<close> and within the horizon.\<close>

function next_trip_from :: "daily_trips \<Rightarrow> instant \<Rightarrow> instant \<Rightarrow> int \<Rightarrow> usage_trip option" where
  "next_trip_from trips now horizon day =
     (if day_start day \<le> horizon
      then (case trips day of
              Some t \<Rightarrow> if now < ut_leave_at t \<and> ut_leave_at t \<le> horizon then Some t
                        else next_trip_from trips now horizon (day + 1)
            | None \<Rightarrow> next_trip_from trips now horizon (day + 1))
      else None)"
  by auto
termination
  by (relation "measure (\<lambda>(trips, now, horizon, day). nat (horizon - day_start day + 1))")
    (auto simp: day_start_def seconds_def)

declare next_trip_from.simps [simp del]

definition next_trip_after :: "daily_trips \<Rightarrow> instant \<Rightarrow> instant \<Rightarrow> usage_trip option" where
  "next_trip_after trips now horizon = next_trip_from trips now horizon (day_of now)"

text \<open>Of two trips that have ended, the later return; of equal returns the last (\<open>max_by_key\<close>).\<close>

definition most_recently_ended :: "daily_trips \<Rightarrow> instant \<Rightarrow> usage_trip option" where
  "most_recently_ended trips ts =
     (let ended = (\<lambda>d. case trips d of None \<Rightarrow> None | Some t \<Rightarrow> if ut_return_at t \<le> ts then Some t else None)
      in case (ended (day_of ts - 1), ended (day_of ts)) of
           (Some a, Some b) \<Rightarrow> Some (if ut_return_at a \<le> ut_return_at b then b else a)
         | (Some a, None) \<Rightarrow> Some a
         | (None, b) \<Rightarrow> b)"

definition is_away_at :: "daily_trips \<Rightarrow> ev_charger \<Rightarrow> instant \<Rightarrow> bool" where
  "is_away_at trips e ts \<longleftrightarrow>
     (case ev_departure_time e of None \<Rightarrow> False | Some d \<Rightarrow> d \<le> ts) \<or>
     (ev_usage_sim e \<noteq> None \<and> active_trip_at trips ts \<noteq> None)"

definition ended_trip_at :: "daily_trips \<Rightarrow> ev_charger \<Rightarrow> instant \<Rightarrow> usage_trip option" where
  "ended_trip_at trips e ts = (if ev_usage_sim e = None then None else most_recently_ended trips ts)"

definition apply_return_drop :: "ev_charger \<Rightarrow> usage_trip \<Rightarrow> ev_state \<Rightarrow> ev_state" where
  "apply_return_drop e trip s =
     (let floor_frac = (case ev_usage_sim e of None \<Rightarrow> 0 | Some u \<Rightarrow> eu_min_soc_after_drop_pct u) / 100
      in s\<lparr>vs_soc_frac := max (vs_soc_frac s - ut_soc_drop_pct trip / 100) floor_frac\<rparr>)"

definition apply_usage_sim_tick :: "daily_trips \<Rightarrow> ev_charger \<Rightarrow> instant \<Rightarrow> bool option \<Rightarrow> ev_state \<Rightarrow> ev_state" where
  "apply_usage_sim_tick trips e now plugged_override s0 =
     (let away = is_away_at trips e now;
          s1 = (if vs_was_away s0 \<and> \<not> away
                then (case ended_trip_at trips e now of None \<Rightarrow> s0 | Some t \<Rightarrow> apply_return_drop e t s0) else s0);
          plugged = hm_or (\<not> away) plugged_override;
          s2 = s1\<lparr>vs_was_away := away, vs_plugged := plugged\<rparr>
      in s2\<lparr>vs_unserved_at_departure_kwh :=
           (if vs_plugged s1 \<and> \<not> plugged then energy_to_target_kwh e s2
            else if \<not> vs_plugged s1 \<and> plugged then 0
            else vs_unserved_at_departure_kwh s1)\<rparr>)"

definition ev_tick_overrides ::
  "daily_trips \<Rightarrow> instant \<Rightarrow> instant option \<Rightarrow> f64 option \<Rightarrow> bool option \<Rightarrow> ev_charger \<times> ev_state \<Rightarrow> ev_charger \<times> ev_state" where
  "ev_tick_overrides trips now departure soc_target plugged = (\<lambda>(e, s).
     (let e' = e\<lparr>ev_departure_time := departure, ev_soc_target_frac := hm_or (ev_soc_target_profile e) soc_target\<rparr>
      in (e', apply_usage_sim_tick trips e' now plugged s)))"

lemma next_trip_from_bounds:
  "next_trip_from trips now horizon day = Some t \<Longrightarrow> now < ut_leave_at t \<and> ut_leave_at t \<le> horizon"
proof (induction trips now horizon day rule: next_trip_from.induct)
  case (1 trips now horizon day)
  show ?case
  proof (cases "day_start day \<le> horizon")
    case True
    then show ?thesis using 1 by (subst (asm) (3) next_trip_from.simps) (auto split: option.splits if_splits)
  next
    case False
    with "1.prems" show ?thesis by (subst (asm) next_trip_from.simps) simp
  qed
qed

text \<open>\<open>trip_windows\<close>: each trip after the cursor, with the instant its charging window opens.\<close>

function trip_windows :: "daily_trips \<Rightarrow> instant \<Rightarrow> instant \<Rightarrow> instant \<Rightarrow> (instant \<times> usage_trip) list" where
  "trip_windows trips cursor window_open horizon =
     (case next_trip_after trips cursor horizon of
        None \<Rightarrow> []
      | Some t \<Rightarrow> (window_open, t) # trip_windows trips (ut_leave_at t) (ut_return_at t) horizon)"
  by auto
termination
  by (relation "measure (\<lambda>(trips, cursor, window_open, horizon). nat (horizon - cursor))")
    (auto simp: next_trip_after_def dest: next_trip_from_bounds)

declare trip_windows.simps [simp del]

text \<open>The ids of the new sessions come from \<open>fresh\<close>, one per trip.\<close>

definition planned_usage_sessions ::
  "daily_trips \<Rightarrow> (nat \<Rightarrow> uuid) \<Rightarrow> ev_charger \<Rightarrow> string \<Rightarrow> instant \<Rightarrow> span \<Rightarrow> ev_session list" where
  "planned_usage_sessions trips fresh e asset now window =
     (case ev_usage_sim e of
        None \<Rightarrow> []
      | Some u \<Rightarrow>
          if \<not> eu_engage_charge_planning u \<or> eu_mode u \<noteq> Simulated then []
          else map (\<lambda>(k, window_open, t).
              simulated_session (fresh k) asset (ev_soc_target_profile e) (max window_open now) (ut_leave_at t) now)
            (enumerate 0 (trip_windows trips now now (now + window))))"

text \<open>The projection of the charger along a schedule: \<open>simulate_forward_inner\<close>.\<close>

definition ev_available :: "daily_trips \<Rightarrow> ev_charger \<Rightarrow> bool \<Rightarrow> ev_state \<Rightarrow> instant \<Rightarrow> ev_state" where
  "ev_available trips e was_away s ts =
     (let away = is_away_at trips e ts;
          s1 = (if was_away \<and> \<not> away
                then (case ended_trip_at trips e ts of None \<Rightarrow> s | Some t \<Rightarrow> apply_return_drop e t s) else s)
      in s1\<lparr>vs_plugged := \<not> away\<rparr>)"

fun ev_forward :: "daily_trips \<Rightarrow> ev_charger \<Rightarrow> bool \<Rightarrow> ev_state \<Rightarrow> schedule \<Rightarrow> ev_state trajectory" where
  "ev_forward trips e was_away s [] = []"
| "ev_forward trips e was_away s [(ts, sp)] =
     (let s1 = ev_available trips e was_away s ts; staged = fst (ev_step e s1 sp 0)
      in [(ts, snd (ev_step e staged sp 0), s1)])"
| "ev_forward trips e was_away s ((ts, sp) # (ts', sp') # rest) =
     (let s1 = ev_available trips e was_away s ts; staged = fst (ev_step e s1 sp 0);
          (next, kw) = ev_step e staged sp (ts' - ts)
      in (ts, kw, s1) # ev_forward trips e (is_away_at trips e ts) next ((ts', sp') # rest))"

section \<open>The charger keeps the contract\<close>

definition ev_wf :: "ev_charger \<Rightarrow> bool" where
  "ev_wf e \<longleftrightarrow> 0 < ev_battery_kwh e \<and> 0 \<le> ev_max_charge_kw e \<and> 0 \<le> ev_max_discharge_kw e \<and> 0 \<le> ev_min_charge_kw e"

definition ev_inv :: "ev_charger \<Rightarrow> ev_state \<Rightarrow> bool" where
  "ev_inv e s \<longleftrightarrow> ev_wf e \<and> 0 \<le> vs_soc_frac s \<and> vs_soc_frac s \<le> 1 \<and>
     - ev_max_discharge_kw e \<le> vs_pending_command_kw s \<and> vs_pending_command_kw s \<le> ev_max_charge_kw e"

definition ev_rated :: "ev_charger \<Rightarrow> f64 \<times> f64" where
  "ev_rated e = (- ev_max_discharge_kw e, ev_max_charge_kw e)"

lemma ev_lands:
  assumes "vs_plugged s"
  shows "cap_lands (ev_capability e s) sp =
    (let kw = clamp_range (if vs_soc_frac s \<le> ev_min_soc_frac e then 0 else - \<bar>ev_max_discharge_kw e\<bar>)
       (if ev_soc_target_frac e \<le> vs_soc_frac s then 0 else ev_max_charge_kw e) sp
     in if 0 < kw \<and> kw < ev_min_charge_kw e then 0 else kw)"
  using assms by (simp add: cap_lands_def ev_capability_def lands_def with_power_next_tick_def
      with_snap_to_zero_below_def resp_continuous_def snapped_to_zero_def Let_def)

lemma ev_lands_range:
  assumes "ev_wf e" and "vs_plugged s"
  shows "- ev_max_discharge_kw e \<le> cap_lands (ev_capability e s) sp"
    and "cap_lands (ev_capability e s) sp \<le> (if ev_soc_target_frac e \<le> vs_soc_frac s then 0 else ev_max_charge_kw e)"
  using assms by (auto simp: ev_lands [OF assms(2)] ev_wf_def Let_def clamp_range_def)

lemma ev_step_unplugged: "\<not> vs_plugged s \<Longrightarrow> ev_step e s sp dt = (s\<lparr>vs_actual_power_kw := 0, vs_pending_command_kw := 0\<rparr>, 0)"
  by (simp add: ev_step_def)

lemma ev_step_plugged:
  "vs_plugged s \<Longrightarrow> ev_step e s sp dt = (s\<lparr>vs_soc_frac := clamp_range 0 1 (vs_soc_frac s +
       energy_kwh (vs_pending_command_kw s) (dt_h_from_duration dt) / ev_battery_kwh e),
     vs_actual_power_kw := vs_pending_command_kw s, vs_pending_command_kw := cap_lands (ev_capability e s) sp\<rparr>,
     vs_pending_command_kw s)"
  by (simp add: ev_step_def Let_def)

lemma unit_clamp: "0 \<le> clamp_range 0 1 x \<and> clamp_range 0 1 x \<le> 1"
  by (simp add: clamp_range_def)

interpretation evc: asset_physics ev_inv ev_step ev_rated
proof
  fix e s sp dt
  assume inv: "ev_inv e s"
  then have wf: "ev_wf e" by (simp add: ev_inv_def)
  have "cap_lands (ev_capability e s) sp \<le> ev_max_charge_kw e" if "vs_plugged s"
    using ev_lands_range(2) [OF wf that, of sp] wf by (auto simp: ev_wf_def split: if_splits)
  then show "ev_inv e (fst (ev_step e s sp dt))"
    using inv wf ev_lands_range(1) [OF wf, of s sp] unit_clamp
    by (cases "vs_plugged s") (auto simp: ev_step_unplugged ev_step_plugged ev_inv_def ev_wf_def)
  show "fst (ev_rated e) \<le> snd (ev_step e s sp dt) \<and> snd (ev_step e s sp dt) \<le> snd (ev_rated e)"
    using inv by (cases "vs_plugged s") (auto simp: ev_step_unplugged ev_step_plugged ev_inv_def ev_wf_def ev_rated_def)
qed

section \<open>The charge ceiling\<close>

text \<open>The charge of one tick of at most \<open>d\<close> at the full rate.\<close>

definition tick_charge :: "ev_charger \<Rightarrow> span \<Rightarrow> f64" where
  "tick_charge e d = ev_max_charge_kw e * dt_h_from_duration d / ev_battery_kwh e"

definition near_target :: "ev_charger \<Rightarrow> span \<Rightarrow> ev_state \<Rightarrow> bool" where
  "near_target e d s \<longleftrightarrow> vs_soc_frac s \<le> ev_soc_target_frac e + tick_charge e d \<or>
     vs_soc_frac s \<le> ev_soc_target_frac e + 2 * tick_charge e d \<and> vs_pending_command_kw s \<le> 0"

lemma tick_charge_nonneg: "ev_wf e \<Longrightarrow> 0 \<le> d \<Longrightarrow> 0 \<le> tick_charge e d"
  by (simp add: tick_charge_def ev_wf_def dt_h_nonneg)

lemma charge_of_tick:
  assumes "ev_wf e" and "kw \<le> ev_max_charge_kw e" and "0 \<le> dt" "dt \<le> d"
  shows "energy_kwh kw (dt_h_from_duration dt) / ev_battery_kwh e \<le> (if kw \<le> 0 then 0 else tick_charge e d)"
proof (cases "kw \<le> 0")
  case True
  then show ?thesis using assms dt_h_nonneg [OF assms(3)]
    by (simp add: energy_kwh_def ev_wf_def divide_nonpos_pos mult_nonpos_nonneg)
next
  case False
  then have "kw * dt_h_from_duration dt \<le> ev_max_charge_kw e * dt_h_from_duration d"
    using assms by (intro mult_mono dt_h_mono dt_h_nonneg) (auto simp: ev_wf_def)
  then show ?thesis using False assms(1) by (simp add: energy_kwh_def tick_charge_def ev_wf_def divide_right_mono)
qed

lemma near_target_step:
  assumes inv: "ev_inv e s" and t: "0 \<le> ev_soc_target_frac e" and dt: "0 \<le> dt" "dt \<le> d" and near: "near_target e d s"
  shows "near_target e d (fst (ev_step e s sp dt))"
proof (cases "vs_plugged s")
  case False
  with near tick_charge_nonneg [of e d] inv dt show ?thesis by (auto simp: ev_step_unplugged near_target_def ev_inv_def)
next
  case True
  have wf: "ev_wf e" and pend: "vs_pending_command_kw s \<le> ev_max_charge_kw e" using inv by (simp_all add: ev_inv_def)
  have c: "0 \<le> tick_charge e d" by (rule tick_charge_nonneg [OF wf]) (use dt in simp)
  let ?s' = "fst (ev_step e s sp dt)"
  let ?x = "vs_soc_frac s + energy_kwh (vs_pending_command_kw s) (dt_h_from_duration dt) / ev_battery_kwh e"
  have soc: "vs_soc_frac ?s' \<le> max ?x 0"
    by (simp add: ev_step_plugged [OF True] clamp_range_def)
  have x: "?x \<le> vs_soc_frac s + (if vs_pending_command_kw s \<le> 0 then 0 else tick_charge e d)"
    using charge_of_tick [OF wf pend dt] by simp
  have new: "vs_pending_command_kw ?s' \<le> (if ev_soc_target_frac e \<le> vs_soc_frac s then 0 else ev_max_charge_kw e)"
    using ev_lands_range(2) [OF wf True] by (simp add: ev_step_plugged [OF True])
  show ?thesis
    using soc x new near c t unfolding near_target_def by (auto split: if_splits)
qed

text \<open>
  The charge ceiling holds up to the charger's own delay: over any run of ticks of at most \<open>d\<close> that starts at or
  below the target, whatever is commanded, the state of charge never passes the target by more than two such ticks
  of full charge, the tick that crosses it and the command already accepted.
\<close>

theorem ev_soc_bounds:
  assumes "ev_inv e s" and "0 \<le> ev_soc_target_frac e" and "vs_soc_frac s \<le> ev_soc_target_frac e" and "0 \<le> d"
    and "\<forall>(sp, dt) \<in> set cmds. 0 \<le> dt \<and> dt \<le> d"
  defines "s' \<equiv> fst (run_steps (ev_step e) s cmds)"
  shows "0 \<le> vs_soc_frac s' \<and> vs_soc_frac s' \<le> 1 \<and> vs_soc_frac s' \<le> ev_soc_target_frac e + 2 * tick_charge e d"
proof -
  have c: "0 \<le> tick_charge e d" using assms(1,4) by (simp add: tick_charge_nonneg ev_inv_def)
  have "near_target e d s" using assms(3) c by (simp add: near_target_def)
  then have "near_target e d s'" unfolding s'_def using assms(1,5)
  proof (induction cmds arbitrary: s)
    case (Cons cmd cmds)
    obtain sp dt where cmd: "cmd = (sp, dt)" by (cases cmd)
    have "near_target e d (fst (ev_step e s sp dt))"
      by (rule near_target_step [OF Cons.prems(2) assms(2) _ _ Cons.prems(1)]) (use Cons.prems(3) cmd in auto)
    from Cons.IH [OF this evc.step_inv [OF Cons.prems(2)]] Cons.prems(3) show ?case by (auto simp: cmd split: prod.split)
  qed simp
  moreover have "ev_inv e s'" unfolding s'_def by (rule evc.run_inv [OF assms(1)])
  ultimately show ?thesis using c by (auto simp: near_target_def ev_inv_def)
qed

definition sample_ev :: ev_charger where
  "sample_ev = \<lparr>ev_max_charge_kw = 6, ev_max_discharge_kw = 0, ev_v2g_capable = False, ev_battery_kwh = 60,
     ev_consumption_kwh_per_km = 18 / 100, ev_soc_target_frac = 8 / 10, ev_soc_target_profile = 8 / 10,
     ev_default_charge_kw = 0, ev_min_soc_frac = 0, ev_min_charge_kw = 14 / 10, ev_response_delay_s = 10,
     ev_departure_time = None,
     ev_usage_sim = Some \<lparr>eu_mode = Simulated, eu_engage_charge_planning = True, eu_min_soc_after_drop_pct = 10\<rparr>\<rparr>"

definition plugged_in :: ev_state where
  "plugged_in = \<lparr>vs_soc_frac = 8 / 10, vs_plugged = True, vs_actual_power_kw = 0, vs_pending_command_kw = 6,
     vs_was_away = False, vs_unserved_at_departure_kwh = 0\<rparr>"

lemma ev_soc_bounds_witness:
  "vs_soc_frac (fst (run_steps (ev_step sample_ev) plugged_in [(6, seconds 3600), (6, seconds 3600)])) \<le> 1"
proof -
  have "\<forall>(sp, dt) \<in> set [(6 :: f64, seconds 3600), (6, seconds 3600)]. 0 \<le> dt \<and> dt \<le> seconds 3600"
    by (simp add: seconds_def)
  with ev_soc_bounds [of sample_ev plugged_in "seconds 3600" "[(6, seconds 3600), (6, seconds 3600)]"] show ?thesis
    by (simp add: ev_inv_def ev_wf_def sample_ev_def plugged_in_def seconds_def)
qed

section \<open>Trips and the session queue\<close>

text \<open>
  A trip that took the car home below the configured floor charges it: the floor is applied to the result, not to
  the drop.
\<close>

theorem ev_return_charges:
  "vs_soc_frac (apply_return_drop sample_ev \<lparr>ut_leave_at = 0, ut_return_at = 10, ut_soc_drop_pct = 20\<rparr>
     (plugged_in\<lparr>vs_soc_frac := 5 / 100\<rparr>)) = 10 / 100"
  by (simp add: apply_return_drop_def sample_ev_def plugged_in_def)

text \<open>
  The scan for the next departure starts at the day of \<open>now\<close>, so the trip of the day before that its jitter moved
  past midnight is not seen.
\<close>

theorem next_trip_after_midnight_missed:
  "next_trip_after (\<lambda>d. if d = 0 then Some \<lparr>ut_leave_at = seconds 86700, ut_return_at = seconds 90000, ut_soc_drop_pct = 20\<rparr> else None)
     (seconds 86400) (seconds 90000) = None"
  by (simp add: next_trip_after_def day_of_def next_trip_from.simps day_start_def seconds_def)

text \<open>Trips that never overlap: what the planner takes for granted of the generated schedule.\<close>

definition trips_apart :: "daily_trips \<Rightarrow> bool" where
  "trips_apart trips \<longleftrightarrow> (\<forall>t \<in> ran trips. ut_leave_at t < ut_return_at t \<and>
     (\<forall>t' \<in> ran trips. ut_leave_at t < ut_leave_at t' \<longrightarrow> ut_return_at t \<le> ut_leave_at t'))"

lemma next_trip_from_ran: "next_trip_from trips now horizon day = Some t \<Longrightarrow> t \<in> ran trips"
proof (induction trips now horizon day rule: next_trip_from.induct)
  case (1 trips now horizon day)
  show ?case
  proof (cases "day_start day \<le> horizon")
    case True
    then show ?thesis using 1
      by (subst (asm) (3) next_trip_from.simps) (auto simp: ran_def split: option.splits if_splits)
  next
    case False
    with "1.prems" show ?thesis by (subst (asm) next_trip_from.simps) simp
  qed
qed

lemma next_trip_after_facts:
  "next_trip_after trips now horizon = Some t \<Longrightarrow> t \<in> ran trips \<and> now < ut_leave_at t \<and> ut_leave_at t \<le> horizon"
  unfolding next_trip_after_def using next_trip_from_ran next_trip_from_bounds by blast

lemma trip_windows_facts:
  assumes "trips_apart trips" and "\<forall>t \<in> ran trips. cursor < ut_leave_at t \<longrightarrow> wo \<le> ut_leave_at t"
  shows "(\<forall>(w, t) \<in> set (trip_windows trips cursor wo horizon).
      wo \<le> w \<and> w \<le> ut_leave_at t \<and> cursor < ut_leave_at t \<and> ut_leave_at t \<le> horizon \<and> t \<in> ran trips) \<and>
    sorted_wrt (\<lambda>p q. ut_return_at (snd p) \<le> fst q) (trip_windows trips cursor wo horizon)"
  using assms
proof (induction trips cursor wo horizon rule: trip_windows.induct)
  case (1 trips cursor wo horizon)
  show ?case
  proof (cases "next_trip_after trips cursor horizon")
    case None
    then show ?thesis by (simp add: trip_windows.simps)
  next
    case (Some t)
    have t: "t \<in> ran trips" "cursor < ut_leave_at t" "ut_leave_at t \<le> horizon"
      using next_trip_after_facts [OF Some] by simp_all
    have ret: "ut_leave_at t < ut_return_at t"
      "\<forall>t' \<in> ran trips. ut_leave_at t < ut_leave_at t' \<longrightarrow> ut_return_at t \<le> ut_leave_at t'"
      using "1.prems"(1) t(1) by (auto simp: trips_apart_def)
    let ?rest = "trip_windows trips (ut_leave_at t) (ut_return_at t) horizon"
    have ih: "(\<forall>(w, t') \<in> set ?rest. ut_return_at t \<le> w \<and> w \<le> ut_leave_at t' \<and> ut_leave_at t < ut_leave_at t' \<and>
        ut_leave_at t' \<le> horizon \<and> t' \<in> ran trips) \<and> sorted_wrt (\<lambda>p q. ut_return_at (snd p) \<le> fst q) ?rest"
      by (rule "1.IH" [OF Some "1.prems"(1) ret(2)])
    have wo: "wo \<le> ut_leave_at t" using "1.prems"(2) t by simp
    have eq: "trip_windows trips cursor wo horizon = (wo, t) # ?rest" by (subst trip_windows.simps) (simp add: Some)
    show ?thesis unfolding eq using ih t ret(1) wo by fastforce
  qed
qed

text \<open>
  The charge sessions predicted from a usage schedule fit the queue they are meant for: where the trips do not
  overlap, they are ordered by window start, no two of them overlap, and each opens no earlier than now and closes
  with a departure inside the rolling window.
\<close>

theorem planned_sessions_fit:
  assumes "trips_apart trips"
  shows "queue_ok (planned_usage_sessions trips fresh e asset now window) \<and>
    (\<forall>s \<in> set (planned_usage_sessions trips fresh e asset now window).
       now \<le> es_window_start s \<and> es_window_start s \<le> es_departure_time s \<and> es_departure_time s \<le> now + window)"
proof -
  define ws where "ws = trip_windows trips now now (now + window)"
  define f where "f = (\<lambda>(k, window_open, t :: usage_trip).
      simulated_session (fresh k) asset (ev_soc_target_profile e) (max window_open now) (ut_leave_at t) now)"
  have facts: "\<forall>(w, t) \<in> set ws. now \<le> w \<and> w \<le> ut_leave_at t \<and> ut_leave_at t \<le> now + window \<and> t \<in> ran trips"
    and sorted: "sorted_wrt (\<lambda>p q. ut_return_at (snd p) \<le> fst q) ws"
    using trip_windows_facts [OF assms, of now now "now + window"] by (auto simp: ws_def)
  let ?ss = "map f (enumerate 0 ws)"
  have at_i: "now \<le> fst (ws ! i) \<and> fst (ws ! i) \<le> ut_leave_at (snd (ws ! i)) \<and>
      ut_leave_at (snd (ws ! i)) \<le> now + window \<and> ut_leave_at (snd (ws ! i)) < ut_return_at (snd (ws ! i))"
    if "i < length ws" for i
    using facts assms nth_mem [OF that] by (auto simp: trips_apart_def case_prod_unfold)
  have nth: "i < length ws \<Longrightarrow> es_window_start (?ss ! i) = fst (ws ! i) \<and> es_departure_time (?ss ! i) = ut_leave_at (snd (ws ! i))" for i
    using at_i [of i] by (simp add: f_def nth_enumerate_eq simulated_session_def case_prod_unfold max_def)
  have gap: "ut_leave_at (snd (ws ! i)) < fst (ws ! j)" if "i < j" "j < length ws" for i j
    using sorted_wrt_nth_less [OF sorted that] at_i [of i] that by simp
  have "sorted (map es_window_start ?ss)"
  proof (rule sorted_wrt_iff_nth_less [THEN iffD2], intro allI impI)
    fix i j
    assume ij: "i < j" "j < length (map es_window_start ?ss)"
    then have "i < length ws" "j < length ws" by simp_all
    with gap [of i j] at_i [of i] ij nth [of i] nth [of j] show "map es_window_start ?ss ! i \<le> map es_window_start ?ss ! j" by simp
  qed
  moreover have "apart (?ss ! i) (?ss ! j)" if "i < j" "j < length ws" for i j
    using gap [OF that] nth [of i] nth [of j] that by (simp add: apart_def sessions_overlap_def)
  then have "pairwise apart (set ?ss)"
    unfolding pairwise_def by (metis apart_sym in_set_conv_nth length_enumerate length_map nat_neq_iff)
  moreover have "\<forall>s \<in> set ?ss. now \<le> es_window_start s \<and> es_window_start s \<le> es_departure_time s \<and>
      es_departure_time s \<le> now + window"
  proof
    fix s
    assume "s \<in> set ?ss"
    then obtain i where "i < length ws" "s = ?ss ! i" by (auto simp: in_set_conv_nth)
    with nth [of i] at_i [of i] show "now \<le> es_window_start s \<and> es_window_start s \<le> es_departure_time s \<and>
      es_departure_time s \<le> now + window" by simp
  qed
  moreover have "planned_usage_sessions trips fresh e asset now window \<in> {[], ?ss}"
    by (simp add: planned_usage_sessions_def f_def ws_def split: option.split)
  moreover have "queue_ok []" by (simp add: queue_ok_def)
  ultimately show ?thesis by (auto simp: queue_ok_def)
qed

lemma planned_sessions_fit_witness:
  "queue_ok (planned_usage_sessions
     (\<lambda>d. Some \<lparr>ut_leave_at = day_start d + seconds 28800, ut_return_at = day_start d + seconds 61200, ut_soc_drop_pct = 20\<rparr>)
     (\<lambda>k. k) sample_ev ''ev'' 0 (seconds 604800))"
proof -
  have "trips_apart (\<lambda>d. Some \<lparr>ut_leave_at = day_start d + seconds 28800, ut_return_at = day_start d + seconds 61200,
      ut_soc_drop_pct = 20\<rparr>)"
    by (auto simp: trips_apart_def ran_def day_start_def seconds_def)
  from planned_sessions_fit [OF this] show ?thesis by blast
qed

end
