(* ===== verification/Comfort_Curve.thy ===== *)
theory Comfort_Curve
  imports Session_Queue Setpoint_Response
begin

text \<open>
  \<open>VEN/src/entities/comfort.rs\<close>, \<open>comfort_spend.rs\<close>, the interpolation of \<open>entities/asset.rs\<close> and
  \<open>VEN/src/assets/ev_comfort.rs\<close>: the curve of bids over the state of charge, what it must look like, how it is cut
  into priced bands for the planner, and how it is written and read as cumulative spend.

  \<open>f64\<close> being a real, every value is finite. A curve handed to the interpolation is not empty: it is passed as its
  first point and the others. \<open>as usize\<close> of the number of steps is exact, the number is between 0 and 21.
\<close>

section \<open>Interpolation\<close>

definition interpolate_at_fill :: "comfort_rate \<Rightarrow> comfort_rate list \<Rightarrow> f64 \<Rightarrow> (comfort_rate \<Rightarrow> f64) \<Rightarrow> f64" where
  "interpolate_at_fill r0 rs fill ex =
     (let rates = r0 # rs in
      if fill \<le> cr_fill r0 then ex r0
      else if cr_fill (last rates) \<le> fill then ex (last rates)
      else (let hi = length (takeWhile (\<lambda>r. \<not> fill \<le> cr_fill r) rates);
                r_lo = rates ! (hi - 1); r_hi = rates ! hi
            in if cr_fill r_hi = cr_fill r_lo then ex r_hi
               else ex r_lo + (fill - cr_fill r_lo) / (cr_fill r_hi - cr_fill r_lo) * (ex r_hi - ex r_lo)))"

definition value_at_fill :: "comfort_rate \<Rightarrow> comfort_rate list \<Rightarrow> f64 \<Rightarrow> f64" where
  "value_at_fill r0 rs fill = interpolate_at_fill r0 rs fill cr_max_marginal_price"

definition co2_value_at_fill :: "comfort_rate \<Rightarrow> comfort_rate list \<Rightarrow> f64 \<Rightarrow> f64" where
  "co2_value_at_fill r0 rs fill = interpolate_at_fill r0 rs fill cr_max_marginal_co2"

section \<open>What a curve must look like\<close>

datatype curve_error = NoPoint | FillOutside nat | FillNotIncreasing nat | PriceOutside nat | Co2Negative nat | PriceRises nat

definition max_bid_eur_kwh :: f64 where "max_bid_eur_kwh = 10"

fun validate_points :: "nat \<Rightarrow> f64 \<Rightarrow> f64 option \<Rightarrow> comfort_rate list \<Rightarrow> curve_error + unit" where
  "validate_points i prev_fill prev_price [] = Inr ()"
| "validate_points i prev_fill prev_price (r # rs) =
     (if \<not> (0 \<le> cr_fill r \<and> cr_fill r \<le> 1) then Inl (FillOutside i)
      else if cr_fill r \<le> prev_fill then Inl (FillNotIncreasing i)
      else if \<not> (0 \<le> cr_max_marginal_price r \<and> cr_max_marginal_price r \<le> max_bid_eur_kwh) then Inl (PriceOutside i)
      else if cr_max_marginal_co2 r < 0 then Inl (Co2Negative i)
      else if (case prev_price of None \<Rightarrow> False | Some p \<Rightarrow> p < cr_max_marginal_price r) then Inl (PriceRises i)
      else validate_points (Suc i) (cr_fill r) (Some (cr_max_marginal_price r)) rs)"

definition validate_curve :: "comfort_rate list \<Rightarrow> curve_error + unit" where
  "validate_curve rates = (if rates = [] then Inl NoPoint else validate_points 0 (- 1) None rates)"

section \<open>Bands\<close>

record energy_band =
  eb_kwh :: f64
  eb_eur_per_kwh :: f64

definition max_cost_eur :: "energy_band list \<Rightarrow> f64" where
  "max_cost_eur bands = sum_list (map (\<lambda>b. eb_kwh b * eb_eur_per_kwh b) bands)"

definition bands_energy_kwh :: "energy_band list \<Rightarrow> f64" where
  "bands_energy_kwh bands = sum_list (map eb_kwh bands)"

definition effective_comfort_rates :: "comfort_rate list hmap \<Rightarrow> string \<Rightarrow> comfort_rate list \<Rightarrow> comfort_rate list" where
  "effective_comfort_rates overrides asset default_rates = hm_or default_rates (hm_get overrides asset)"

datatype comfort_curve_source = CurveOverride | CurveDefault

definition comfort_curve_source_of :: "comfort_rate list hmap \<Rightarrow> string \<Rightarrow> comfort_curve_source" where
  "comfort_curve_source_of overrides asset = (if hm_get overrides asset \<noteq> None then CurveOverride else CurveDefault)"

record ev_band_range =
  br_init :: f64
  br_target :: f64
  br_max :: f64

text \<open>\<open>Vec::dedup_by\<close>: an element is dropped where it is close to the last one kept.\<close>

fun dedup_from :: "f64 \<Rightarrow> f64 list \<Rightarrow> f64 list" where
  "dedup_from b [] = []"
| "dedup_from b (a # xs) = (if \<bar>a - b\<bar> < 1 / 10 ^ 12 then dedup_from b xs else a # dedup_from a xs)"

definition dedup_close :: "f64 list \<Rightarrow> f64 list" where
  "dedup_close xs = (case xs of [] \<Rightarrow> [] | x # xs \<Rightarrow> x # dedup_from x xs)"

definition band_bounds :: "comfort_rate list \<Rightarrow> f64 \<Rightarrow> f64 \<Rightarrow> f64 \<Rightarrow> f64 list" where
  "band_bounds rates target start top_soc =
     dedup_close (sort ([start, top_soc] @
       (case rates of
          [] \<Rightarrow> (let t = clamp_range 0 1 target in if start < t \<and> t < top_soc then [t] else [])
        | _ \<Rightarrow> filter (\<lambda>f. start < f \<and> f < top_soc) (map cr_fill rates))))"

definition max_band_fill :: f64 where "max_band_fill = 5 / 100"

definition band_steps :: "f64 \<Rightarrow> f64 \<Rightarrow> nat" where
  "band_steps lo hi = max (nat \<lceil>(hi - lo) / max_band_fill\<rceil>) 1"

definition subdivide :: "f64 \<Rightarrow> f64 \<Rightarrow> f64 list" where
  "subdivide lo hi = map (\<lambda>k. lo + (hi - lo) * of_nat k / of_nat (band_steps lo hi)) [0..<band_steps lo hi]"

definition fine_bounds :: "f64 list \<Rightarrow> f64 \<Rightarrow> f64 list" where
  "fine_bounds bounds top_soc =
     concat (map (\<lambda>(lo, hi). subdivide lo hi) (windows2 bounds)) @ [if bounds = [] then top_soc else last bounds]"

definition band_price :: "comfort_rate list \<Rightarrow> f64 \<Rightarrow> f64 \<Rightarrow> f64 \<Rightarrow> f64 \<Rightarrow> f64 \<Rightarrow> f64" where
  "band_price rates target v_core v_extra w_ghg mid =
     (case rates of
        [] \<Rightarrow> if mid \<le> target then v_core else v_extra
      | r # rs \<Rightarrow> value_at_fill r rs mid + co2_value_at_fill r rs mid / 1000 * w_ghg)"

definition band_of :: "f64 \<Rightarrow> (f64 \<Rightarrow> f64) \<Rightarrow> f64 \<times> f64 \<Rightarrow> energy_band option" where
  "band_of battery price = (\<lambda>(lo, hi). let kwh = (hi - lo) * battery in
     if kwh \<le> 1 / 10 ^ 12 then None else Some \<lparr>eb_kwh = kwh, eb_eur_per_kwh = price ((lo + hi) / 2)\<rparr>)"

definition push_band :: "energy_band \<Rightarrow> energy_band list \<Rightarrow> energy_band list" where
  "push_band b merged =
     (if merged \<noteq> [] \<and> \<bar>eb_eur_per_kwh (last merged) - eb_eur_per_kwh b\<bar> < 1 / 10 ^ 9
      then butlast merged @ [(last merged)\<lparr>eb_kwh := eb_kwh (last merged) + eb_kwh b\<rparr>]
      else merged @ [b])"

definition ev_energy_segments ::
  "comfort_rate list \<Rightarrow> ev_band_range \<Rightarrow> f64 \<Rightarrow> f64 \<Rightarrow> f64 \<Rightarrow> f64 \<Rightarrow> energy_band list" where
  "ev_energy_segments rates rng battery v_core v_extra w_ghg =
     (let start = clamp_range 0 1 (br_init rng); top_soc = clamp_range 0 1 (br_max rng) in
      if battery \<le> 0 \<or> top_soc \<le> start then []
      else (let fine = fine_bounds (band_bounds rates (br_target rng) start top_soc) top_soc
            in fold push_band (List.map_filter (band_of battery (band_price rates (br_target rng) v_core v_extra w_ghg))
                 (windows2 fine)) []))"

definition ev_comfort_bands :: "f64 \<Rightarrow> f64 \<Rightarrow> f64 \<Rightarrow> comfort_rate list \<Rightarrow> energy_band list" where
  "ev_comfort_bands soc_target battery soc rates =
     ev_energy_segments rates \<lparr>br_init = soc, br_target = soc_target, br_max = soc_target\<rparr> battery 0 0 0"

section \<open>A curve as cumulative spend\<close>

record comfort_fill_span =
  fs_from_fill :: f64
  fs_limit_fill :: f64
  fs_capacity_kwh :: f64

record comfort_spend_point =
  sp_fill :: f64
  sp_cumulative_max_cost_eur :: f64
  sp_max_marginal_co2 :: f64

definition step_gap_fill :: f64 where "step_gap_fill = 1 / 1000"

definition min_interval_fill :: f64 where "min_interval_fill = 1 / 100"

datatype spend_error = NoSpendPoint | NoCapacity | FillAboveOne nat | FillTooClose nat | SpendFalls nat | BidRises nat
  | BadCurve curve_error

fun spend_intervals ::
  "f64 \<Rightarrow> nat \<Rightarrow> f64 \<Rightarrow> f64 \<Rightarrow> f64 option \<Rightarrow> comfort_spend_point list \<Rightarrow> spend_error + (comfort_rate list \<times> f64 option)" where
  "spend_intervals cap i lo prev_spend prev_bid [] = Inr ([], prev_bid)"
| "spend_intervals cap i lo prev_spend prev_bid (p # ps) =
     (if 1 < sp_fill p then Inl (FillAboveOne i)
      else if sp_fill p < lo + min_interval_fill then Inl (FillTooClose i)
      else if sp_cumulative_max_cost_eur p < prev_spend then Inl (SpendFalls i)
      else (let kwh = (sp_fill p - lo) * cap; bid = (sp_cumulative_max_cost_eur p - prev_spend) / kwh in
        if (case prev_bid of None \<Rightarrow> False | Some prev \<Rightarrow> prev * (1 + 1 / 10 ^ 9) + 1 / 10 ^ 12 < bid) then Inl (BidRises i)
        else (let bid' = (case prev_bid of None \<Rightarrow> bid | Some prev \<Rightarrow> min bid prev) in
          case spend_intervals cap (Suc i) (sp_fill p) (sp_cumulative_max_cost_eur p) (Some bid') ps of
            Inl e \<Rightarrow> Inl e
          | Inr (rates, last_bid) \<Rightarrow>
              Inr (map (\<lambda>f. \<lparr>cr_fill = f, cr_max_marginal_price = bid', cr_max_marginal_co2 = sp_max_marginal_co2 p\<rparr>)
                     [lo, sp_fill p - step_gap_fill] @ rates, last_bid))))"

definition rates_from_cumulative_spend :: "comfort_spend_point list \<Rightarrow> comfort_fill_span \<Rightarrow> spend_error + comfort_rate list" where
  "rates_from_cumulative_spend points fspan =
     (if points = [] then Inl NoSpendPoint
      else if fs_capacity_kwh fspan \<le> 0 then Inl NoCapacity
      else case spend_intervals (fs_capacity_kwh fspan) 0 (fs_from_fill fspan) 0 None points of
             Inl e \<Rightarrow> Inl e
           | Inr (rates, last_bid) \<Rightarrow>
               (let closed = rates @ (case last_bid of None \<Rightarrow> []
                      | Some b \<Rightarrow> [\<lparr>cr_fill = sp_fill (last points), cr_max_marginal_price = b,
                                   cr_max_marginal_co2 = sp_max_marginal_co2 (last points)\<rparr>])
                in case validate_curve closed of Inl e \<Rightarrow> Inl (BadCurve e) | Inr _ \<Rightarrow> Inr closed))"

fun spend_over :: "energy_band list \<Rightarrow> f64 \<Rightarrow> f64" where
  "spend_over [] remaining = 0"
| "spend_over (b # bs) remaining =
     (let taken = min (eb_kwh b) remaining; left = remaining - taken
      in taken * eb_eur_per_kwh b + (if left \<le> 1 / 10 ^ 12 then 0 else spend_over bs left))"

definition cumulative_spend_at :: "energy_band list \<Rightarrow> comfort_fill_span \<Rightarrow> f64 \<Rightarrow> f64" where
  "cumulative_spend_at bands fspan fill =
     spend_over bands (max ((fill - fs_from_fill fspan) * fs_capacity_kwh fspan) 0)"

fun thin_points :: "(f64 \<times> f64) list \<Rightarrow> (f64 \<times> f64) list" where
  "thin_points ((f, c) # (f', c') # rest) =
     (if f' - f < 15 / 10 * step_gap_fill then thin_points ((f', c') # rest) else (f, c) # thin_points ((f', c') # rest))"
| "thin_points ps = ps"

definition cumulative_spend_view :: "comfort_rate list \<Rightarrow> energy_band list \<Rightarrow> comfort_fill_span \<Rightarrow> comfort_spend_point list" where
  "cumulative_spend_view rates bands fspan =
     (let inner = filter (\<lambda>(f, c). fs_from_fill fspan + 1 / 10 ^ 9 < f \<and> f < fs_limit_fill fspan - 1 / 10 ^ 9)
            (map (\<lambda>r. (cr_fill r, cr_max_marginal_co2 r)) rates);
          fills = inner @ [(fs_limit_fill fspan, if rates = [] then 0 else cr_max_marginal_co2 (last rates))]
      in map (\<lambda>(f, c). \<lparr>sp_fill = f, sp_cumulative_max_cost_eur = cumulative_spend_at bands fspan f, sp_max_marginal_co2 = c\<rparr>)
           (thin_points fills))"

section \<open>Bands cover the range\<close>

lemma band_sums [simp]:
  "max_cost_eur [] = 0" "max_cost_eur (b # bs) = eb_kwh b * eb_eur_per_kwh b + max_cost_eur bs"
  "bands_energy_kwh [] = 0" "bands_energy_kwh (b # bs) = eb_kwh b + bands_energy_kwh bs"
  by (simp_all add: max_cost_eur_def bands_energy_kwh_def)

lemma push_band_sum:
  "bands_energy_kwh (push_band b merged) = bands_energy_kwh merged + eb_kwh b"
  by (cases merged rule: rev_cases) (auto simp: push_band_def bands_energy_kwh_def)

lemma push_bands_energy:
  "bands_energy_kwh (fold push_band bs merged) = bands_energy_kwh merged + bands_energy_kwh bs"
  by (induction bs arbitrary: merged) (simp_all add: push_band_sum)

text \<open>Merging moves the price of a band by less than the tolerance.\<close>

lemma push_band_cost:
  assumes "0 \<le> eb_kwh b"
  shows "\<bar>max_cost_eur (push_band b merged) - (max_cost_eur merged + eb_kwh b * eb_eur_per_kwh b)\<bar> \<le> eb_kwh b / 10 ^ 9"
proof (cases merged rule: rev_cases)
  case (snoc ms m)
  show ?thesis
  proof (cases "\<bar>eb_eur_per_kwh m - eb_eur_per_kwh b\<bar> < 1 / 10 ^ 9")
    case True
    have "max_cost_eur (push_band b merged) - (max_cost_eur merged + eb_kwh b * eb_eur_per_kwh b) =
        eb_kwh b * (eb_eur_per_kwh m - eb_eur_per_kwh b)"
      using True by (simp add: snoc push_band_def max_cost_eur_def algebra_simps)
    moreover have "\<bar>eb_kwh b * (eb_eur_per_kwh m - eb_eur_per_kwh b)\<bar> \<le> eb_kwh b * (1 / 10 ^ 9)"
      unfolding abs_mult using assms True by (intro mult_mono) simp_all
    ultimately show ?thesis by simp
  qed (use assms in \<open>simp add: snoc push_band_def max_cost_eur_def\<close>)
qed (use assms in \<open>simp add: push_band_def max_cost_eur_def\<close>)

lemma push_bands_cost:
  "\<forall>b \<in> set bs. 0 \<le> eb_kwh b \<Longrightarrow>
   \<bar>max_cost_eur (fold push_band bs merged) - (max_cost_eur merged + max_cost_eur bs)\<bar> \<le> bands_energy_kwh bs / 10 ^ 9"
proof (induction bs arbitrary: merged)
  case (Cons b bs)
  from Cons.IH [of "push_band b merged"] push_band_cost [of b merged] Cons.prems
  have "\<bar>max_cost_eur (fold push_band bs (push_band b merged)) - (max_cost_eur (push_band b merged) + max_cost_eur bs)\<bar>
      \<le> bands_energy_kwh bs / 10 ^ 9"
    "\<bar>max_cost_eur (push_band b merged) - (max_cost_eur merged + eb_kwh b * eb_eur_per_kwh b)\<bar> \<le> eb_kwh b / 10 ^ 9"
    by simp_all
  then show ?case unfolding fold_simps band_sums add_divide_distrib by linarith
qed simp

text \<open>A sum of differences along a list telescopes.\<close>

lemma windows2_telescope:
  fixes g :: "'a \<Rightarrow> real"
  shows "xs \<noteq> [] \<Longrightarrow> sum_list (map (\<lambda>(a, b). g b - g a) (windows2 xs)) = g (last xs) - g (hd xs)"
proof (induction xs)
  case (Cons x xs)
  then show ?case by (cases xs) auto
qed simp

section \<open>The bounds\<close>

lemma dedup_from_sorted:
  "sorted (b # xs) \<Longrightarrow> sorted_wrt (<) (b # dedup_from b xs)"
proof (induction b xs rule: dedup_from.induct)
  case (2 b a xs)
  show ?case
  proof (cases "\<bar>a - b\<bar> < 1 / 10 ^ 12")
    case True
    with 2 show ?thesis by auto
  next
    case False
    with "2.prems" have "b < a" by auto
    with False "2.IH"(2) "2.prems" show ?thesis by (auto dest: order.strict_trans)
  qed
qed simp

lemma dedup_close_sorted: "sorted xs \<Longrightarrow> sorted_wrt (<) (dedup_close xs)"
  using dedup_from_sorted by (auto simp: dedup_close_def split: list.split)

text \<open>Where no two elements are close, only equal ones are dropped.\<close>

definition well_spaced :: "f64 list \<Rightarrow> bool" where
  "well_spaced xs \<longleftrightarrow> (\<forall>x \<in> set xs. \<forall>y \<in> set xs. x = y \<or> 1 / 10 ^ 6 \<le> \<bar>x - y\<bar>)"

lemma well_spaced_subset: "set xs \<subseteq> set ys \<Longrightarrow> well_spaced ys \<Longrightarrow> well_spaced xs"
  unfolding well_spaced_def by blast

lemma dedup_from_set: "well_spaced (b # xs) \<Longrightarrow> insert b (set (dedup_from b xs)) = insert b (set xs)"
proof (induction b xs rule: dedup_from.induct)
  case (2 b a xs)
  show ?case
  proof (cases "\<bar>a - b\<bar> < 1 / 10 ^ 12")
    case True
    have "a = b"
    proof (rule ccontr)
      assume "a \<noteq> b"
      then have "1 / 10 ^ 6 \<le> \<bar>a - b\<bar>" using "2.prems" by (auto simp: well_spaced_def)
      with True show False by simp
    qed
    with True 2 show ?thesis by (auto simp: well_spaced_def)
  next
    case False
    have "well_spaced (a # xs)" using "2.prems" by (simp add: well_spaced_def)
    with False "2.IH"(2) show ?thesis by auto
  qed
qed simp

lemma dedup_close_set: "well_spaced xs \<Longrightarrow> set (dedup_close xs) = set xs"
  using dedup_from_set [of "hd xs" "tl xs"] by (cases xs) (simp_all add: dedup_close_def)

section \<open>The fine bounds\<close>

definition cut :: "f64 \<Rightarrow> f64 \<Rightarrow> nat \<Rightarrow> f64" where
  "cut lo hi k = lo + (hi - lo) * of_nat k / of_nat (band_steps lo hi)"

lemma band_steps_pos: "0 < band_steps lo hi"
  by (simp add: band_steps_def)

lemma cut_ends [simp]: "cut lo hi 0 = lo" "cut lo hi (band_steps lo hi) = hi"
  using band_steps_pos [of lo hi] by (simp_all add: cut_def)

lemma cut_width: "cut lo hi (Suc k) - cut lo hi k = (hi - lo) / of_nat (band_steps lo hi)"
  by (simp add: cut_def distrib_left add_divide_distrib)

lemma cut_inside:
  assumes "lo \<le> hi" and "k \<le> band_steps lo hi"
  shows "lo \<le> cut lo hi k \<and> cut lo hi k \<le> hi"
proof -
  have "(hi - lo) * of_nat k \<le> (hi - lo) * of_nat (band_steps lo hi)" using assms by (intro mult_left_mono) simp_all
  then have "(hi - lo) * of_nat k / of_nat (band_steps lo hi) \<le> hi - lo"
    using band_steps_pos [of lo hi] by (simp add: pos_divide_le_eq)
  then show ?thesis using assms by (simp add: cut_def)
qed

lemma windows2_upt:
  "windows2 (map f [0..<n] @ f n # rest) = map (\<lambda>k. (f k, f (Suc k))) [0..<n] @ windows2 (f n # rest)"
  by (induction n arbitrary: rest) simp_all

lemma fine_bounds_Cons:
  "fine_bounds (x # y # ys) c = map (cut x y) [0..<band_steps x y] @ fine_bounds (y # ys) c"
  by (simp add: fine_bounds_def subdivide_def cut_def)

lemma fine_bounds_hd: "bounds \<noteq> [] \<Longrightarrow> fine_bounds bounds c \<noteq> [] \<and> hd (fine_bounds bounds c) = hd bounds"
proof (induction bounds)
  case (Cons x xs)
  show ?case
  proof (cases xs)
    case Nil
    then show ?thesis by (simp add: fine_bounds_def)
  next
    case (Cons y ys)
    have "[0..<band_steps x y] = 0 # [1..<band_steps x y]" using band_steps_pos [of x y] by (simp add: upt_conv_Cons)
    then show ?thesis by (simp add: Cons fine_bounds_Cons)
  qed
qed simp

lemma fine_bounds_last: "bounds \<noteq> [] \<Longrightarrow> last (fine_bounds bounds c) = last bounds"
  by (simp add: fine_bounds_def)

lemma fine_windows:
  "bounds \<noteq> [] \<Longrightarrow> windows2 (fine_bounds bounds c) =
     concat (map (\<lambda>(lo, hi). map (\<lambda>k. (cut lo hi k, cut lo hi (Suc k))) [0..<band_steps lo hi]) (windows2 bounds))"
proof (induction bounds)
  case (Cons x xs)
  show ?case
  proof (cases xs)
    case Nil
    then show ?thesis by (simp add: fine_bounds_def)
  next
    case (Cons y ys)
    obtain rest where r: "fine_bounds xs c = cut x y (band_steps x y) # rest"
      using fine_bounds_hd [of xs c] Cons by (cases "fine_bounds xs c") auto
    have "windows2 (fine_bounds (x # xs) c) = map (\<lambda>k. (cut x y k, cut x y (Suc k))) [0..<band_steps x y] @ windows2 (fine_bounds xs c)"
      unfolding Cons fine_bounds_Cons unfolding Cons [symmetric] r by (rule windows2_upt)
    with Cons Cons.IH show ?thesis by simp
  qed
qed simp

lemma fine_window_D:
  assumes "bounds \<noteq> []" and "sorted_wrt (<) bounds" and "(a, b) \<in> set (windows2 (fine_bounds bounds c))"
  obtains lo hi where "(lo, hi) \<in> set (windows2 bounds)" and "lo < hi" and "lo \<le> a" and "b \<le> hi"
    and "b - a = (hi - lo) / of_nat (band_steps lo hi)"
proof -
  from assms(3) obtain lo hi k where w: "(lo, hi) \<in> set (windows2 bounds)" and k: "k < band_steps lo hi"
    and ab: "a = cut lo hi k" "b = cut lo hi (Suc k)" by (auto simp: fine_windows [OF assms(1)])
  have "lo < hi" using windows2_gap [OF assms(2) w] by simp
  moreover from this have "lo \<le> a" "b \<le> hi"
    using cut_inside [of lo hi k] cut_inside [of lo hi "Suc k"] k by (simp_all add: ab)
  ultimately show ?thesis using that [OF w] cut_width [of lo hi k] by (simp add: ab)
qed

text \<open>A band is a twentieth of the pack or less, but never so narrow that it is dropped.\<close>

lemma band_width:
  assumes "1 / 10 ^ 6 \<le> hi - lo"
  shows "1 / 10 ^ 6 \<le> (hi - lo) / of_nat (band_steps lo hi)"
proof (cases "hi - lo \<le> max_band_fill")
  case True
  then have "(hi - lo) / max_band_fill \<le> 1" by (simp add: max_band_fill_def)
  then have "nat \<lceil>(hi - lo) / max_band_fill\<rceil> \<le> 1" by (simp add: nat_le_iff ceiling_le_iff)
  then have "band_steps lo hi = 1" by (simp add: band_steps_def)
  with assms show ?thesis by simp
next
  case False
  define q where "q = (hi - lo) / max_band_fill"
  have q: "1 < q" using False by (simp add: q_def max_band_fill_def)
  then have "band_steps lo hi = nat \<lceil>q\<rceil>" by (simp add: band_steps_def q_def [symmetric] max_def)
  then have "of_nat (band_steps lo hi) \<le> 2 * q" using q by linarith
  moreover have "hi - lo = q * max_band_fill" by (simp add: q_def max_band_fill_def)
  ultimately have "1 / 10 ^ 6 * of_nat (band_steps lo hi) \<le> hi - lo" using q by (simp add: max_band_fill_def)
  then show ?thesis using band_steps_pos [of lo hi] by (simp add: pos_le_divide_eq)
qed

lemma windows2_nth: "(a, b) \<in> set (windows2 xs) \<Longrightarrow> \<exists>i. Suc i < length xs \<and> a = xs ! i \<and> b = xs ! Suc i"
proof -
  assume "(a, b) \<in> set (windows2 xs)"
  then obtain i where "i < length (tl xs)" "a = xs ! i" "b = tl xs ! i" by (auto simp: windows2_def in_set_zip)
  then show ?thesis by (intro exI [of _ i]) (simp add: nth_tl)
qed

section \<open>Between two points of the curve the bid is a straight line\<close>

definition affine_on :: "f64 \<Rightarrow> f64 \<Rightarrow> (f64 \<Rightarrow> f64) \<Rightarrow> bool" where
  "affine_on lo hi f \<longleftrightarrow> (\<exists>m c. \<forall>x. lo \<le> x \<and> x \<le> hi \<longrightarrow> f x = m * x + c)"

definition curve_sorted :: "comfort_rate list \<Rightarrow> bool" where
  "curve_sorted rates \<longleftrightarrow> sorted_wrt (\<lambda>a b. cr_fill a < cr_fill b) rates"

lemma takeWhile_first:
  assumes "i < length xs" and "\<forall>j < i. P (xs ! j)" and "\<not> P (xs ! i)"
  shows "length (takeWhile P xs) = i"
  using assms
proof (induction xs arbitrary: i)
  case (Cons x xs)
  show ?case
  proof (cases i)
    case (Suc j)
    have "P x" using Cons.prems(2) Suc by auto
    moreover have "length (takeWhile P xs) = j"
      by (rule Cons.IH) (use Cons.prems Suc in \<open>simp_all add: All_less_Suc2\<close>)
    ultimately show ?thesis using Suc by simp
  qed (use Cons.prems in simp)
qed simp

lemma interpolate_cell:
  assumes srt: "curve_sorted (r0 # rs)" and i: "Suc i < length (r0 # rs)"
    and x: "cr_fill ((r0 # rs) ! i) \<le> x" "x \<le> cr_fill ((r0 # rs) ! Suc i)"
  shows "interpolate_at_fill r0 rs x ex = ex ((r0 # rs) ! i) + (x - cr_fill ((r0 # rs) ! i)) /
    (cr_fill ((r0 # rs) ! Suc i) - cr_fill ((r0 # rs) ! i)) * (ex ((r0 # rs) ! Suc i) - ex ((r0 # rs) ! i))"
proof -
  let ?r = "r0 # rs" and ?f = "\<lambda>j. cr_fill ((r0 # rs) ! j)"
  have inc: "?f j < ?f k" if "j < k" "k < length ?r" for j k
    using srt that unfolding curve_sorted_def by (rule sorted_wrt_nth_less)
  have f0: "?f 0 = cr_fill r0" by simp
  have flast: "?f (length rs) = cr_fill (last ?r)" by (simp add: last_conv_nth)
  have first: "length (takeWhile (\<lambda>r. \<not> x \<le> cr_fill r) ?r) = Suc k" if "Suc k < length ?r" "?f k < x" "x \<le> ?f (Suc k)" for k
  proof (rule takeWhile_first [OF that(1)])
    have "?f j \<le> ?f k" if "j < Suc k" for j using inc [of j k] that \<open>Suc k < length ?r\<close> by (cases "j = k") auto
    then show "\<forall>j < Suc k. \<not> x \<le> cr_fill (?r ! j)" using that(2) by force
  qed (use that in simp)
  have cell: "interpolate_at_fill r0 rs x ex = ex (?r ! k) + (x - ?f k) / (?f (Suc k) - ?f k) * (ex (?r ! Suc k) - ex (?r ! k))"
    if "Suc k < length ?r" "?f k < x" "x \<le> ?f (Suc k)" "\<not> x \<le> cr_fill r0" "\<not> cr_fill (last ?r) \<le> x" for k
    unfolding interpolate_at_fill_def Let_def first [OF that(1-3)] using that(4,5) inc [of k "Suc k"] that(1) by simp
  consider (lo) "x \<le> cr_fill r0" | (hi) "\<not> x \<le> cr_fill r0" "cr_fill (last ?r) \<le> x"
    | (at) "\<not> x \<le> cr_fill r0" "\<not> cr_fill (last ?r) \<le> x" "x = ?f i"
    | (mid) "\<not> x \<le> cr_fill r0" "\<not> cr_fill (last ?r) \<le> x" "?f i < x" using x by fastforce
  then show ?thesis
  proof cases
    case lo
    have "i = 0" using inc [of 0 i] i x lo f0 by (cases i) auto
    with lo x show ?thesis by (simp add: interpolate_at_fill_def)
  next
    case hi
    have "Suc i = length rs" using inc [of "Suc i" "length rs"] i x hi flast by (cases "Suc i = length rs") auto
    then have "x = ?f (Suc i)" "ex (last ?r) = ex (?r ! Suc i)" using x hi flast by (simp_all add: last_conv_nth)
    then show ?thesis using hi inc [of i "Suc i"] i by (simp add: interpolate_at_fill_def)
  next
    case at
    then obtain k where k: "i = Suc k" using f0 by (cases i) auto
    then have "?f k < x" "?f k < ?f i" using inc [of k i] i at by simp_all
    from cell [OF _ this(1)] k i at this(2) show ?thesis by simp
  next
    case mid
    from cell [OF i mid(3) x(2) mid(1,2)] show ?thesis .
  qed
qed

lemma interpolate_affine:
  assumes srt: "curve_sorted (r0 # rs)" and ab: "lo < hi"
    and gap: "\<forall>r \<in> set (r0 # rs). cr_fill r \<le> lo \<or> hi \<le> cr_fill r"
  shows "affine_on lo hi (\<lambda>x. interpolate_at_fill r0 rs x ex)"
proof -
  let ?r = "r0 # rs" and ?fs = "map cr_fill (r0 # rs)"
  consider (below) "hi \<le> cr_fill r0" | (above) "cr_fill (last ?r) \<le> lo" | (cell) "cr_fill r0 \<le> lo" "lo < cr_fill (last ?r)"
    using gap by (metis list.set_intros(1) linorder_not_le)
  then show ?thesis
  proof cases
    case below
    then show ?thesis by (intro affine_on_def [THEN iffD2] exI [of _ 0] exI [of _ "ex r0"]) (simp add: interpolate_at_fill_def)
  next
    case above
    then have "interpolate_at_fill r0 rs x ex = ex (last ?r)" if "lo \<le> x" for x
    proof (cases "rs = []")
      case False
      then have "cr_fill r0 < cr_fill (last ?r)" using srt by (simp add: curve_sorted_def)
      with that above show ?thesis by (simp add: interpolate_at_fill_def)
    qed (use that above in \<open>auto simp: interpolate_at_fill_def Let_def\<close>)
    then show ?thesis unfolding affine_on_def by (intro exI [of _ 0] exI [of _ "ex (last ?r)"]) simp
  next
    case cell
    have srt': "sorted_wrt (<) ?fs" using srt unfolding curve_sorted_def sorted_wrt_map .
    obtain a b where w: "(a, b) \<in> set (windows2 ?fs)" and a: "a \<le> lo" "lo < b"
    proof -
      have "last ?fs = cr_fill (last ?r)" by (rule last_map) simp
      with windows2_cell [OF srt', of lo] cell that show ?thesis by auto
    qed
    obtain i where i: "Suc i < length ?r" "a = cr_fill (?r ! i)" "b = cr_fill (?r ! Suc i)"
      using windows2_nth [OF w] by (metis Suc_lessD length_map nth_map)
    have "b \<in> set ?fs" using windows2_gap [OF srt' w] by simp
    then have b: "hi \<le> b" using gap a(2) by force
    define m where "m = (ex (?r ! Suc i) - ex (?r ! i)) / (b - a)"
    have "interpolate_at_fill r0 rs x ex = m * x + (ex (?r ! i) - m * a)" if "lo \<le> x" "x \<le> hi" for x
      using interpolate_cell [OF srt i(1), of x ex] that a b i by (simp add: m_def algebra_simps diff_divide_distrib)
    then show ?thesis unfolding affine_on_def by blast
  qed
qed

lemma affine_add: "affine_on lo hi f \<Longrightarrow> affine_on lo hi g \<Longrightarrow> affine_on lo hi (\<lambda>x. f x + g x / 1000 * w)"
proof -
  assume "affine_on lo hi f" and "affine_on lo hi g"
  then obtain m c m' c' where "\<forall>x. lo \<le> x \<and> x \<le> hi \<longrightarrow> f x = m * x + c" "\<forall>x. lo \<le> x \<and> x \<le> hi \<longrightarrow> g x = m' * x + c'"
    unfolding affine_on_def by blast
  then show ?thesis
    unfolding affine_on_def
    by (intro exI [of _ "m + m' / 1000 * w"] exI [of _ "c + c' / 1000 * w"]) (simp add: algebra_simps add_divide_distrib)
qed

lemma price_affine:
  assumes "curve_sorted (r # rs)" and "lo < hi" and "\<forall>p \<in> set (r # rs). cr_fill p \<le> lo \<or> hi \<le> cr_fill p"
  shows "affine_on lo hi (band_price (r # rs) target vc vx w)"
  unfolding band_price_def list.case value_at_fill_def co2_value_at_fill_def
  by (intro affine_add interpolate_affine assms)

section \<open>The bands are the area under the curve\<close>

text \<open>Over a stretch where the bid is a straight line, its midpoint times the width is what its primitive gains.\<close>

lemma midpoint_area:
  assumes "affine_on lo hi v" and "lo \<le> a" "a \<le> b" "b \<le> hi"
    and F: "\<And>x. a \<le> x \<Longrightarrow> x \<le> b \<Longrightarrow> (F has_real_derivative v x) (at x)"
  shows "v ((a + b) / 2) * (b - a) = F b - F a"
proof (cases "a = b")
  case False
  obtain m c where v: "v x = m * x + c" if "lo \<le> x" "x \<le> hi" for x
    using assms(1) unfolding affine_on_def by blast
  define G where "G x = F x - (m * x\<^sup>2 / 2 + c * x)" for x
  have G: "(G has_real_derivative 0) (at x)" if "a \<le> x" "x \<le> b" for x
    unfolding G_def using F [OF that] v [of x] that assms(2-4) by (auto intro!: derivative_eq_intros)
  have "continuous_on {a..b} G"
    using G by (intro continuous_at_imp_continuous_on ballI DERIV_isCont) auto
  then have "G b = G a" using False assms(3) G by (intro DERIV_isconst_end) auto
  then have gain: "F b - F a = (m * b\<^sup>2 / 2 + c * b) - (m * a\<^sup>2 / 2 + c * a)" by (simp add: G_def)
  have "v ((a + b) / 2) = m * ((a + b) / 2) + c" using assms(2-4) by (intro v) simp_all
  then have "v ((a + b) / 2) * (b - a) = (m * ((a + b) / 2) + c) * (b - a)" by simp
  also have "\<dots> = (m * b\<^sup>2 / 2 + c * b) - (m * a\<^sup>2 / 2 + c * a)" by (simp add: power2_eq_square field_simps)
  finally show ?thesis using gain by simp
qed simp

lemma concat_map_filter: "\<forall>x \<in> set xs. f x = Some (g x) \<Longrightarrow> List.map_filter f xs = map g xs"
  by (induction xs) (auto simp: map_filter_Cons List.map_filter_def)

text \<open>The bounds of the bands: the ends of the range and every point of the curve between them.\<close>

lemma bounds_facts:
  fixes target :: f64
  assumes "start < top_soc" and "well_spaced (start # top_soc # map cr_fill (r # rs))"
  defines "bs \<equiv> band_bounds (r # rs) target start top_soc"
  shows "sorted_wrt (<) bs" and "bs \<noteq> []" and "hd bs = start" and "last bs = top_soc"
    and "\<forall>p \<in> set (r # rs). start < cr_fill p \<and> cr_fill p < top_soc \<longrightarrow> cr_fill p \<in> set bs"
    and "\<forall>x \<in> set bs. \<forall>y \<in> set bs. x = y \<or> 1 / 10 ^ 6 \<le> \<bar>x - y\<bar>"
proof -
  let ?inner = "filter (\<lambda>f. start < f \<and> f < top_soc) (map cr_fill (r # rs))"
  have bs: "bs = dedup_close (sort ([start, top_soc] @ ?inner))" by (simp add: bs_def band_bounds_def)
  have "well_spaced (sort ([start, top_soc] @ ?inner))" 
    by (rule well_spaced_subset [OF _ assms(2)]) (unfold set_sort, auto)
  then have set: "set bs = set ([start, top_soc] @ ?inner)" unfolding bs by (simp only: dedup_close_set set_sort)
  show srt: "sorted_wrt (<) bs" unfolding bs by (rule dedup_close_sorted [OF sorted_sort])
  show ne: "bs \<noteq> []" using set by auto
  have mem: "start \<in> set bs" "top_soc \<in> set bs" "\<forall>x \<in> set bs. start \<le> x \<and> x \<le> top_soc" using set assms(1) by auto
  have ends: "hd bs \<in> set bs" "last bs \<in> set bs" using ne by simp_all
  note hl = sorted_hd_last [OF strict_sorted_imp_sorted [OF srt]]
  show "hd bs = start" using hl [OF mem(1)] mem(3) ends by (simp add: order_antisym)
  show "last bs = top_soc" using hl [OF mem(2)] mem(3) ends by (simp add: order_antisym)
  show "\<forall>p \<in> set (r # rs). start < cr_fill p \<and> cr_fill p < top_soc \<longrightarrow> cr_fill p \<in> set bs" using set by auto
  show "\<forall>x \<in> set bs. \<forall>y \<in> set bs. x = y \<or> 1 / 10 ^ 6 \<le> \<bar>x - y\<bar>"
    unfolding well_spaced_def [symmetric] by (rule well_spaced_subset [OF _ assms(2)]) (use set in auto)
qed

text \<open>
  C38. The bands the planner buys from are the user's own curve: from the current charge to the charge limit they cover
  exactly the energy of that range, and together they are worth what the curve is worth over it, the area under the
  bid (any primitive of it gives that area), up to the billionth of a euro per kWh within which equal bids are merged.
\<close>

theorem bands_are_area_under_curve:
  fixes F :: "f64 \<Rightarrow> f64" and target vc vx :: f64
  assumes "curve_sorted (r # rs)" and "0 \<le> start" "start < top_soc" "top_soc \<le> 1" and "1 / 1000 \<le> battery"
    and spaced: "well_spaced (start # top_soc # map cr_fill (r # rs))"
    and F: "\<And>x. start \<le> x \<Longrightarrow> x \<le> top_soc \<Longrightarrow>
      (F has_real_derivative value_at_fill r rs x + co2_value_at_fill r rs x / 1000 * w) (at x)"
  defines "bands \<equiv> ev_energy_segments (r # rs) \<lparr>br_init = start, br_target = target, br_max = top_soc\<rparr> battery vc vx w"
  shows "bands_energy_kwh bands = (top_soc - start) * battery \<and>
    \<bar>max_cost_eur bands - battery * (F top_soc - F start)\<bar> \<le> (top_soc - start) * battery / 10 ^ 9"
proof -
  define bs where "bs = band_bounds (r # rs) target start top_soc"
  define fine where "fine = fine_bounds bs top_soc"
  define v where "v = band_price (r # rs) target vc vx w"
  note bf = bounds_facts [OF assms(3) spaced, of target, folded bs_def]
  have bat: "0 < battery" using assms(5) by simp
  have fine: "fine \<noteq> []" "hd fine = start" "last fine = top_soc"
    using fine_bounds_hd [OF bf(2)] fine_bounds_last [OF bf(2)] bf(3,4) by (simp_all add: fine_def)
  have win: "1 / 10 ^ 12 < (b - a) * battery \<and> v ((a + b) / 2) * (b - a) = F b - F a"
    if "(a, b) \<in> set (windows2 fine)" for a b
  proof -
    note mem = that [unfolded fine_def]
    obtain lo hi where w: "(lo, hi) \<in> set (windows2 bs)" "lo < hi" "lo \<le> a" "b \<le> hi"
      "b - a = (hi - lo) / of_nat (band_steps lo hi)"
      by (rule fine_window_D [OF bf(2,1) mem])
    have gap: "lo \<in> set bs" "hi \<in> set bs" "\<forall>x \<in> set bs. x \<le> lo \<or> hi \<le> x"
      using windows2_gap [OF bf(1) w(1)] by simp_all
    have in_range: "start \<le> lo" "hi \<le> top_soc"
      using sorted_hd_last [OF strict_sorted_imp_sorted [OF bf(1)]] gap(1,2) bf(3,4) by auto
    have "\<forall>p \<in> set (r # rs). cr_fill p \<le> lo \<or> hi \<le> cr_fill p"
      using bf(5) gap(3) in_range by (metis dual_order.trans linorder_not_le order.strict_trans2 order_less_imp_le)
    from price_affine [OF assms(1) w(2) this] have aff: "affine_on lo hi v" unfolding v_def .
    have "1 / 10 ^ 6 \<le> hi - lo" using bf(6) gap(1,2) w(2) by force
    from band_width [OF this] have width: "1 / 10 ^ 6 \<le> b - a" unfolding w(5) .
    have "(0 :: real) \<le> 1 / 10 ^ 6" by simp
    with width have ab: "a \<le> b" by linarith
    have "1 / 10 ^ 12 < 1 / 10 ^ 6 * (1 / 1000 :: real)" by simp
    also have "\<dots> \<le> (b - a) * battery" using width assms(5) by (intro mult_mono) simp_all
    finally have kwh: "1 / 10 ^ 12 < (b - a) * battery" .
    have "v ((a + b) / 2) * (b - a) = F b - F a"
    proof (rule midpoint_area [OF aff w(3) ab w(4)])
      fix x
      assume "a \<le> x" "x \<le> b"
      then show "(F has_real_derivative v x) (at x)"
        using F [of x] w(3,4) in_range by (simp add: v_def band_price_def)
    qed
    with kwh show ?thesis by simp
  qed
  define raw where "raw = map (\<lambda>(a, b). \<lparr>eb_kwh = (b - a) * battery, eb_eur_per_kwh = v ((a + b) / 2)\<rparr>) (windows2 fine)"
  have "List.map_filter (band_of battery v) (windows2 fine) = raw"
    unfolding raw_def by (rule concat_map_filter) (use win in \<open>fastforce simp: band_of_def Let_def\<close>)
  moreover have "clamp_range 0 1 start = start" "clamp_range 0 1 top_soc = top_soc"
    using assms(2-4) by (simp_all add: clamp_range_def)
  ultimately have bands: "bands = fold push_band raw []"
    using assms(3) bat unfolding bands_def ev_energy_segments_def Let_def
    by (simp add: bs_def [symmetric] fine_def [symmetric] v_def [symmetric])
  have "bands_energy_kwh raw = sum_list (map (\<lambda>(a, b). b * battery - a * battery) (windows2 fine))"
    unfolding raw_def bands_energy_kwh_def map_map
    by (rule arg_cong [where f = sum_list], rule map_cong) (auto simp: left_diff_distrib)
  also have "\<dots> = (top_soc - start) * battery"
    using windows2_telescope [OF fine(1), of "\<lambda>x. x * battery"] fine by (simp add: left_diff_distrib)
  finally have energy: "bands_energy_kwh raw = (top_soc - start) * battery" .
  have "max_cost_eur raw = sum_list (map (\<lambda>(a, b). battery * F b - battery * F a) (windows2 fine))"
    unfolding raw_def max_cost_eur_def map_map
  proof (rule arg_cong [where f = sum_list], rule map_cong [OF refl])
    fix ab
    assume ab: "ab \<in> set (windows2 fine)"
    obtain a b where ab_eq: "ab = (a, b)" by (cases ab)
    have "(b - a) * battery * v ((a + b) / 2) = battery * (v ((a + b) / 2) * (b - a))" by simp
    also have "\<dots> = battery * F b - battery * F a" using win [of a b] ab ab_eq by (simp add: right_diff_distrib)
    finally show "((\<lambda>b. eb_kwh b * eb_eur_per_kwh b) \<circ> (\<lambda>(a, b). \<lparr>eb_kwh = (b - a) * battery, eb_eur_per_kwh = v ((a + b) / 2)\<rparr>)) ab =
        (case ab of (a, b) \<Rightarrow> battery * F b - battery * F a)" by (simp add: ab_eq)
  qed
  also have "\<dots> = battery * (F top_soc - F start)"
    using windows2_telescope [OF fine(1), of "\<lambda>x. battery * F x"] fine by (simp add: right_diff_distrib)
  finally have cost: "max_cost_eur raw = battery * (F top_soc - F start)" .
  have "\<forall>b \<in> set raw. 0 \<le> eb_kwh b" using win by (force simp: raw_def)
  from push_bands_cost [OF this, of "[]"] push_bands_energy [of raw "[]"] show ?thesis
    by (simp add: bands energy cost)
qed

text \<open>A ramp from half a euro at empty to a quarter at full, over the middle of a pack of 60 kWh.\<close>

definition ramp_start :: comfort_rate where
  "ramp_start = \<lparr>cr_fill = 0, cr_max_marginal_price = 1 / 2, cr_max_marginal_co2 = 0\<rparr>"

definition ramp_end :: comfort_rate where
  "ramp_end = \<lparr>cr_fill = 1, cr_max_marginal_price = 1 / 4, cr_max_marginal_co2 = 0\<rparr>"

lemma bands_are_area_under_curve_witness:
  "bands_energy_kwh (ev_energy_segments [ramp_start, ramp_end] \<lparr>br_init = 1 / 4, br_target = 3 / 4, br_max = 3 / 4\<rparr> 60 0 0 0) = 30"
proof -
  let ?F = "\<lambda>x :: f64. x / 2 - x\<^sup>2 / 8"
  have val: "value_at_fill ramp_start [ramp_end] x + co2_value_at_fill ramp_start [ramp_end] x / 1000 * 0 = 1 / 2 - x / 4"
    if "1 / 4 \<le> x" "x \<le> 3 / 4" for x
    using that by (simp add: value_at_fill_def interpolate_at_fill_def ramp_start_def ramp_end_def)
  have deriv: "(?F has_real_derivative value_at_fill ramp_start [ramp_end] x + co2_value_at_fill ramp_start [ramp_end] x / 1000 * 0) (at x)"
    if "1 / 4 \<le> x" "x \<le> 3 / 4" for x
    unfolding val [OF that] by (auto intro!: derivative_eq_intros)
  have "curve_sorted [ramp_start, ramp_end]" "(0 :: f64) \<le> 1 / 4" "(1 / 4 :: f64) < 3 / 4" "(3 / 4 :: f64) \<le> 1"
    "1 / 1000 \<le> (60 :: f64)" "well_spaced ((1 / 4) # (3 / 4) # map cr_fill [ramp_start, ramp_end])"
    by (simp_all add: curve_sorted_def well_spaced_def ramp_start_def ramp_end_def)
  from bands_are_area_under_curve [OF this deriv, of "3 / 4" 0 0] show ?thesis by simp
qed

text \<open>An accepted curve has its points in strictly rising order of fill: what the pricing takes for granted.\<close>

lemma validate_points_sorted:
  "validate_points i p q rates = Inr () \<Longrightarrow> curve_sorted rates \<and> (\<forall>r \<in> set rates. p < cr_fill r)"
  by (induction i p q rates rule: validate_points.induct)
    (auto simp: curve_sorted_def split: if_splits intro: order.strict_trans)

text \<open>
  Only a curve the planner can price is accepted: its points lie in the range of a pack in strictly rising order,
  with bids and carbon limits that are not negative and bids that never rise with the charge.
\<close>

theorem accepted_curve_ok:
  "validate_curve rates = Inr () \<longleftrightarrow> rates \<noteq> [] \<and> curve_sorted rates \<and>
     sorted_wrt (\<lambda>a b. cr_max_marginal_price b \<le> cr_max_marginal_price a) rates \<and>
     list_all (\<lambda>r. 0 \<le> cr_fill r \<and> cr_fill r \<le> 1 \<and> 0 \<le> cr_max_marginal_price r \<and>
       cr_max_marginal_price r \<le> max_bid_eur_kwh \<and> 0 \<le> cr_max_marginal_co2 r) rates"
proof -
  have points: "validate_points i p q rates = Inr () \<longleftrightarrow> curve_sorted rates \<and>
      sorted_wrt (\<lambda>a b. cr_max_marginal_price b \<le> cr_max_marginal_price a) rates \<and>
      (\<forall>r \<in> set rates. p < cr_fill r \<and> (case q of None \<Rightarrow> True | Some x \<Rightarrow> cr_max_marginal_price r \<le> x)) \<and>
      list_all (\<lambda>r. 0 \<le> cr_fill r \<and> cr_fill r \<le> 1 \<and> 0 \<le> cr_max_marginal_price r \<and>
        cr_max_marginal_price r \<le> max_bid_eur_kwh \<and> 0 \<le> cr_max_marginal_co2 r) rates" for i p q
    by (induction i p q rates rule: validate_points.induct)
      (auto simp: curve_sorted_def split: option.splits)
  show ?thesis by (auto simp: validate_curve_def points list_all_iff)
qed

end
