(* ===== verification/Report_Obligations.thy ===== *)
theory Report_Obligations
  imports Wire_Contract "HOL-Library.Option_ord" "HOL-Library.Multiset"
begin

text \<open>
  What the VEN owes the VTN: the report obligations an event's descriptors create
  (\<open>VEN/src/controller/openadr_interface.rs\<close>), the list of them on the state (\<open>VEN/src/state/obligations.rs\<close>),
  the loop that submits what is due (\<open>VEN/src/services/obligation.rs\<close>) and the window of intervals a report
  carries (\<open>VEN/src/controller/report_accumulator.rs\<close>, \<open>VEN/src/state/report_windows.rs\<close>,
  \<open>VEN/src/controller/report_payload.rs\<close>). The builder of a report (another component), the VTN's answer to a
  submission and fresh ids are parameters. A panic of date arithmetic is \<open>None\<close>.
\<close>

section \<open>Obligations\<close>

record report_obligation =
  ro_id :: uuid
  ro_event_id :: string
  ro_program_id :: "string option"
  ro_payload_type :: string
  ro_reading_type :: string
  ro_resource_name :: "string option"
  ro_due_at :: instant
  ro_interval_width_s :: nat
  ro_submit_every_s :: nat
  ro_fulfilled :: bool
  ro_created_at :: instant
  ro_historical :: bool
  ro_aggregate :: bool
  ro_ad_hoc :: bool

definition is_due :: "instant \<Rightarrow> report_obligation \<Rightarrow> bool" where
  "is_due now ob \<longleftrightarrow> \<not> ro_fulfilled ob \<and> ro_due_at ob \<le> now"

text \<open>An instant an unsigned count of seconds later.\<close>

definition later :: "wire_env \<Rightarrow> instant \<Rightarrow> nat \<Rightarrow> instant option" where
  "later env now every = Option.bind (duration_seconds (u64_as_i64 every)) (checked_add env now)"

definition saturating_mul :: "nat \<Rightarrow> nat \<Rightarrow> nat" where
  "saturating_mul a b = min (a * b) (2 ^ 64 - 1)"

definition default_report_cadence_s :: nat where "default_report_cadence_s = 3600"
definition ad_hoc_forecast_every_s :: nat where "ad_hoc_forecast_every_s = 900"
definition open_interval_width_s :: nat where "open_interval_width_s = 60"

definition ad_hoc_cadence_s :: "report_descriptor \<Rightarrow> nat" where
  "ad_hoc_cadence_s d = (if \<not> rd_historical d then ad_hoc_forecast_every_s else default_report_cadence_s)"

definition report_width_s :: "wire_env \<Rightarrow> report_descriptor \<Rightarrow> timed list \<Rightarrow> nat option" where
  "report_width_s env d intervals =
     (if rd_open_intervals d then Some open_interval_width_s
      else (case intervals of
          first # _ \<Rightarrow>
            if is_bounded env first then Some (nat (max 1 (num_seconds (t_end first - t_start first)))) else None
        | [] \<Rightarrow> None))"

definition report_timing_of :: "wire_env \<Rightarrow> report_descriptor \<Rightarrow> timed list \<Rightarrow> nat \<times> nat" where
  "report_timing_of env d intervals =
     (case report_width_s env d intervals of
        None \<Rightarrow> (default_report_cadence_s, default_report_cadence_s)
      | Some width \<Rightarrow>
          if rd_frequency d = 0 then (width, ad_hoc_cadence_s d)
          else (let n = (if 0 < rd_frequency d then nat (rd_frequency d)
                         else if 0 < rd_num_intervals d then nat (rd_num_intervals d)
                         else if rd_open_intervals d then 1
                         else max 1 (length intervals))
                in (width, saturating_mul width n)))"

definition report_timing :: "wire_env \<Rightarrow> oadr_event \<Rightarrow> report_descriptor \<Rightarrow> (nat \<times> nat) option" where
  "report_timing env ev d = map_option (report_timing_of env d) (timed_intervals env ev)"

definition owes :: "report_obligation list \<Rightarrow> string \<Rightarrow> string \<Rightarrow> bool" where
  "owes obs event_id ty \<longleftrightarrow> (\<exists>ob \<in> set obs. ro_event_id ob = event_id \<and> ro_payload_type ob = ty)"

definition new_obligation ::
  "wire_env \<Rightarrow> uuid \<Rightarrow> instant \<Rightarrow> oadr_event \<Rightarrow> report_descriptor \<Rightarrow> report_obligation option" where
  "new_obligation env fresh now ev d =
     Option.bind (report_timing env ev d) (\<lambda>(width, every).
       map_option (\<lambda>due.
         \<lparr>ro_id = fresh, ro_event_id = ev_id ev, ro_program_id = Some (ev_program_id ev),
          ro_payload_type = rd_payload_type d, ro_reading_type = hm_or ''DIRECT_READ'' (rd_reading_type d),
          ro_resource_name = None, ro_due_at = due, ro_interval_width_s = width, ro_submit_every_s = every,
          ro_fulfilled = False, ro_created_at = now, ro_historical = rd_historical d,
          ro_aggregate = rd_aggregate d, ro_ad_hoc = (rd_frequency d = 0)\<rparr>)
         (if rd_frequency d = 0 \<and> \<not> rd_historical d then Some now else later env now every))"

definition event_descriptors :: "oadr_event \<Rightarrow> report_descriptor list" where
  "event_descriptors ev = (case ev_report_descriptors ev of None \<Rightarrow> [] | Some ds \<Rightarrow> ds)"

definition extract_one ::
  "wire_env \<Rightarrow> (nat \<Rightarrow> uuid) \<Rightarrow> instant \<Rightarrow> report_obligation list \<Rightarrow> oadr_event \<times> report_descriptor \<Rightarrow> report_obligation list \<Rightarrow> report_obligation list option" where
  "extract_one env fresh now existing = (\<lambda>(ev, d) result.
     if owes existing (ev_id ev) (rd_payload_type d) \<or> owes result (ev_id ev) (rd_payload_type d) then Some result
     else map_option (\<lambda>ob. result @ [ob]) (new_obligation env (fresh (length result)) now ev d))"

definition demanded :: "oadr_event list \<Rightarrow> (oadr_event \<times> report_descriptor) list" where
  "demanded events = concat (map (\<lambda>ev. map (Pair ev) (event_descriptors ev)) events)"

definition extract_report_obligations ::
  "wire_env \<Rightarrow> (nat \<Rightarrow> uuid) \<Rightarrow> oadr_event list \<Rightarrow> instant \<Rightarrow> report_obligation list \<Rightarrow> report_obligation list option" where
  "extract_report_obligations env fresh events now existing =
     try_fold (extract_one env fresh now existing) (demanded events) []"

section \<open>The list on the state\<close>

definition add_obligations :: "report_obligation list \<Rightarrow> report_obligation list \<Rightarrow> report_obligation list" where
  "add_obligations new_obs obs =
     fold (\<lambda>ob obs. if \<exists>e \<in> set obs. ro_id e = ro_id ob then obs else obs @ [ob]) new_obs obs"

fun rearm_obligation :: "uuid \<Rightarrow> instant \<Rightarrow> report_obligation list \<Rightarrow> report_obligation list" where
  "rearm_obligation i next_due [] = []"
| "rearm_obligation i next_due (ob # obs) =
     (if ro_id ob = i then ob\<lparr>ro_due_at := next_due\<rparr> # obs else ob # rearm_obligation i next_due obs)"

definition remove_obligation :: "uuid \<Rightarrow> report_obligation list \<Rightarrow> report_obligation list" where
  "remove_obligation i obs = filter (\<lambda>ob. ro_id ob \<noteq> i) obs"

definition retire_obligations_not_in :: "string list \<Rightarrow> report_obligation list \<Rightarrow> report_obligation list" where
  "retire_obligations_not_in active obs = filter (\<lambda>ob. ro_event_id ob \<in> set active) obs"

definition any_obligation_due :: "instant \<Rightarrow> report_obligation list \<Rightarrow> bool" where
  "any_obligation_due now obs = list_ex (is_due now) obs"

definition due_obligations :: "instant \<Rightarrow> report_obligation list \<Rightarrow> report_obligation list" where
  "due_obligations now obs = filter (is_due now) obs"

text \<open>What an adopted plan makes due; an objective is the planner's, compared only for equality.\<close>

definition ad_hoc_forecasts_due_on_adoption :: "report_obligation list \<Rightarrow> 'o option \<Rightarrow> 'o \<Rightarrow> uuid list" where
  "ad_hoc_forecasts_due_on_adoption obs previous adopted =
     (if previous = Some adopted then []
      else map ro_id (filter (\<lambda>ob. ro_ad_hoc ob \<and> \<not> ro_historical ob \<and> \<not> ro_fulfilled ob) obs))"

definition rearm_ad_hoc_forecasts :: "'o option \<Rightarrow> 'o \<Rightarrow> instant \<Rightarrow> report_obligation list \<Rightarrow> report_obligation list" where
  "rearm_ad_hoc_forecasts previous adopted now obs =
     fold (\<lambda>i. rearm_obligation i now) (ad_hoc_forecasts_due_on_adoption obs previous adopted) obs"

section \<open>The window of intervals a report carries\<close>

record report_payload =
  rp_type :: string
  rp_values :: "wire_value list"

record report_interval =
  ri_id :: nat
  ri_start :: "string option"
  ri_duration :: "string option"
  ri_payloads :: "report_payload list"

record report_resource =
  rr_name :: string
  rr_intervals :: "report_interval list"

record report_payload_descriptor =
  rpd_payload_type :: string
  rpd_units :: "string option"

record report_body =
  rb_event_id :: "string option"
  rb_client_name :: string
  rb_report_name :: "string option"
  rb_resources :: "report_resource list"
  rb_descriptors :: "report_payload_descriptor list"

definition max_report_intervals :: nat where "max_report_intervals = 120"

definition renumber :: "report_interval list \<Rightarrow> report_interval list" where
  "renumber ivs = map (\<lambda>(i, iv). iv\<lparr>ri_id := i\<rparr>) (enumerate 0 ivs)"

definition carried :: "report_interval list \<Rightarrow> report_interval \<Rightarrow> bool" where
  "carried fresh iv = (case ri_start iv of None \<Rightarrow> False | Some s \<Rightarrow> Some s \<notin> ri_start ` set fresh)"

definition accumulate :: "report_interval list \<Rightarrow> report_interval list \<Rightarrow> nat \<Rightarrow> report_interval list" where
  "accumulate previous fresh max_intervals =
     (let merged = sort_key ri_start (filter (carried fresh) previous @ fresh)
      in renumber (drop (length merged - max_intervals) merged))"

definition is_stale :: "instant \<Rightarrow> instant \<Rightarrow> bool" where
  "is_stale last_submitted now \<longleftrightarrow> seconds (6 * 3600) < now - last_submitted"

record report_window =
  rw_intervals :: "report_interval list"
  rw_last_used :: "instant option"

definition accumulate_report_intervals ::
  "string \<Rightarrow> report_interval list \<Rightarrow> instant \<Rightarrow> report_window hmap \<Rightarrow> report_interval list \<times> report_window hmap" where
  "accumulate_report_intervals key fresh now windows =
     (let kept = filter (\<lambda>(k, w). k = key \<or> (case rw_last_used w of None \<Rightarrow> True | Some t \<Rightarrow> \<not> is_stale t now)) windows;
          entry = hm_or \<lparr>rw_intervals = [], rw_last_used = None\<rparr> (hm_get kept key);
          ivs = accumulate (rw_intervals entry) fresh max_report_intervals
      in (ivs, hm_put key \<lparr>rw_intervals = ivs, rw_last_used = Some now\<rparr> kept))"

definition declare_payload ::
  "report_payload \<Rightarrow> string list \<times> report_payload_descriptor list \<Rightarrow> string list \<times> report_payload_descriptor list" where
  "declare_payload p = (\<lambda>(seen, out).
     if rp_type p \<in> set seen then (seen, out)
     else (seen @ [rp_type p],
       (case report_quantity_of (rp_type p) of
          Some q \<Rightarrow> out @ [\<lparr>rpd_payload_type = rp_type p, rpd_units = quantity_units q\<rparr>]
        | None \<Rightarrow> out)))"

definition descriptors_for :: "report_interval list \<Rightarrow> report_payload_descriptor list" where
  "descriptors_for ivs = snd (fold declare_payload (concat (map ri_payloads ivs)) ([], []))"

definition accumulate_resource ::
  "string \<Rightarrow> instant \<Rightarrow> report_resource \<Rightarrow> report_resource list \<times> report_window hmap \<Rightarrow> report_resource list \<times> report_window hmap" where
  "accumulate_resource name now r = (\<lambda>(done_rs, windows).
     (case accumulate_report_intervals (name @ ''/'' @ rr_name r) (rr_intervals r) now windows of
        (ivs, windows') \<Rightarrow> (done_rs @ [r\<lparr>rr_intervals := ivs\<rparr>], windows')))"

definition accumulate_report_window ::
  "report_body \<Rightarrow> instant \<Rightarrow> report_window hmap \<Rightarrow> report_body \<times> report_window hmap" where
  "accumulate_report_window report now windows =
     (case rb_report_name report of
        None \<Rightarrow> (report, windows)
      | Some name \<Rightarrow>
          (case fold (accumulate_resource name now) (rb_resources report) ([], windows) of
             (rs, windows') \<Rightarrow>
               (report\<lparr>rb_resources := rs, rb_descriptors := descriptors_for (concat (map rr_intervals rs))\<rparr>, windows')))"

section \<open>Submitting what is due\<close>

datatype vtn_answer = VtnAccepted | VtnGone | VtnRefused string

record obligation_state =
  os_obligations :: "report_obligation list"
  os_windows :: "report_window hmap"
  os_sent :: "report_body list"
  os_recorded :: "(string \<times> string) list"

definition report_one ::
  "wire_env \<Rightarrow> (report_obligation \<Rightarrow> report_body option) \<Rightarrow> (report_body \<Rightarrow> vtn_answer) \<Rightarrow> instant \<Rightarrow> report_obligation \<Rightarrow> obligation_state \<Rightarrow> ((string + unit) \<times> obligation_state) option" where
  "report_one env build vtn now ob s =
     map_option (\<lambda>next_due.
       (case build ob of
          None \<Rightarrow> (Inr (), s\<lparr>os_obligations := rearm_obligation (ro_id ob) next_due (os_obligations s)\<rparr>)
        | Some report \<Rightarrow>
            (let (report, windows) = (if ro_historical ob then accumulate_report_window report now (os_windows s)
                                      else (report, os_windows s));
                 s = s\<lparr>os_windows := windows\<rparr>
             in (case vtn report of
                   VtnAccepted \<Rightarrow>
                     (Inr (), s\<lparr>os_obligations := rearm_obligation (ro_id ob) next_due (os_obligations s),
                                os_sent := os_sent s @ [report],
                                os_recorded := os_recorded s @ [(ro_payload_type ob, ro_event_id ob)]\<rparr>)
                 | VtnGone \<Rightarrow> (Inr (), s\<lparr>os_obligations := remove_obligation (ro_id ob) (os_obligations s)\<rparr>)
                 | VtnRefused e \<Rightarrow> (Inl e, s)))))
       (later env now (ro_submit_every_s ob))"

fun report_all ::
  "wire_env \<Rightarrow> (report_obligation \<Rightarrow> report_body option) \<Rightarrow> (report_body \<Rightarrow> vtn_answer) \<Rightarrow> instant \<Rightarrow> report_obligation list \<Rightarrow> obligation_state \<Rightarrow> ((string + unit) \<times> obligation_state) option" where
  "report_all env build vtn now [] s = Some (Inr (), s)"
| "report_all env build vtn now (ob # obs) s =
     (case report_one env build vtn now ob s of
        None \<Rightarrow> None
      | Some (Inl e, s') \<Rightarrow> Some (Inl e, s')
      | Some (Inr _, s') \<Rightarrow> report_all env build vtn now obs s')"

definition check_and_report ::
  "wire_env \<Rightarrow> (report_obligation \<Rightarrow> report_body option) \<Rightarrow> (report_body \<Rightarrow> vtn_answer) \<Rightarrow> instant \<Rightarrow> obligation_state \<Rightarrow> ((string + unit) \<times> obligation_state) option" where
  "check_and_report env build vtn now s = report_all env build vtn now (due_obligations now (os_obligations s)) s"

section \<open>A report's window\<close>

definition unnumbered :: "report_interval list \<Rightarrow> report_interval list" where
  "unnumbered ivs = map (\<lambda>iv. iv\<lparr>ri_id := 0\<rparr>) ivs"

lemma length_renumber [simp]: "length (renumber ivs) = length ivs"
  by (simp add: renumber_def)

lemma renumber_ids: "map ri_id (renumber ivs) = [0..<length ivs]"
  by (rule nth_equalityI) (simp_all add: renumber_def nth_enumerate_eq)

lemma renumber_starts [simp]: "map ri_start (renumber ivs) = map ri_start ivs"
  by (rule nth_equalityI) (simp_all add: renumber_def nth_enumerate_eq)

lemma renumber_nth: "i < length ivs \<Longrightarrow> renumber ivs ! i = (ivs ! i)\<lparr>ri_id := i\<rparr>"
  by (simp add: renumber_def nth_enumerate_eq)

lemma unnumbered_renumber [simp]: "unnumbered (renumber ivs) = unnumbered ivs"
  by (rule nth_equalityI) (simp_all add: unnumbered_def renumber_nth)

lemma renumber_cong: "unnumbered xs = unnumbered ys \<Longrightarrow> renumber xs = renumber ys"
proof (rule nth_equalityI)
  assume eq: "unnumbered xs = unnumbered ys"
  from eq have len: "length xs = length ys" by (metis length_map unnumbered_def)
  then show "length (renumber xs) = length (renumber ys)" by simp
  fix i assume "i < length (renumber xs)"
  then have i: "i < length xs" "i < length ys" using len by simp_all
  have "(xs ! i)\<lparr>ri_id := 0\<rparr> = (ys ! i)\<lparr>ri_id := 0\<rparr>"
    using arg_cong [OF eq, of "\<lambda>l. l ! i"] i by (simp add: unnumbered_def)
  then have "((xs ! i)\<lparr>ri_id := 0\<rparr>)\<lparr>ri_id := i\<rparr> = ((ys ! i)\<lparr>ri_id := 0\<rparr>)\<lparr>ri_id := i\<rparr>" by simp
  with i show "renumber xs ! i = renumber ys ! i" by (simp add: renumber_nth)
qed

lemma insort_key_map: "(\<And>x. f (g x) = f x) \<Longrightarrow> map g (insort_key f x xs) = insort_key f (g x) (map g xs)"
  by (induction xs) auto

lemma sort_key_map: "(\<And>x. f (g x) = f x) \<Longrightarrow> map g (sort_key f xs) = sort_key f (map g xs)"
  by (induction xs) (simp_all add: sort_key_def insort_key_map)

lemma unnumbered_sort: "unnumbered (sort_key ri_start xs) = sort_key ri_start (unnumbered xs)"
  unfolding unnumbered_def by (rule sort_key_map) simp

lemma carried_unnumbered [simp]: "carried fresh (iv\<lparr>ri_id := n\<rparr>) = carried fresh iv"
  by (simp add: carried_def)

lemma unnumbered_carried: "unnumbered (filter (carried fresh) xs) = filter (carried fresh) (unnumbered xs)"
  by (simp add: unnumbered_def filter_map comp_def)

lemma carried_same_start: "ri_start a = ri_start b \<Longrightarrow> carried fresh a = carried fresh b"
  by (simp add: carried_def)

lemma fresh_not_carried: "iv \<in> set fresh \<Longrightarrow> \<not> carried fresh iv"
  by (auto simp: carried_def split: option.split) (metis imageI)

text \<open>
  The window after a retry: what the first submission already carried stays where it was, so sorting it with the same
  fresh intervals again only drops carried ones that had fallen out.
\<close>

lemma sort_again:
  fixes key :: "'a \<Rightarrow> 'k::linorder"
  assumes m: "sort_key key (ps @ fs) = as @ ws" and ps: "\<forall>x \<in> set ps. keep x" and fs: "\<forall>x \<in> set fs. \<not> keep x"
    and keep: "\<And>x y. key x = key y \<Longrightarrow> keep x = keep y"
  shows "sort_key key (filter keep ws @ fs) = filter (\<lambda>x. \<not> keep x) as @ ws"
proof (rule properties_for_sort_key)
  have ms: "mset as + mset ws = mset ps + mset fs" using arg_cong [OF m, of mset] by simp
  have "mset fs = filter_mset (\<lambda>x. \<not> keep x) (mset ps + mset fs)"
    using ps fs by (simp add: filter_mset_eq_conv mset_filter filter_empty_conv flip: mset_filter)
  also have "\<dots> = filter_mset (\<lambda>x. \<not> keep x) (mset as) + filter_mset (\<lambda>x. \<not> keep x) (mset ws)"
    by (simp flip: ms)
  finally have "mset fs = mset (filter (\<lambda>x. \<not> keep x) as) + mset (filter (\<lambda>x. \<not> keep x) ws)" by (simp add: mset_filter)
  then show "mset (filter (\<lambda>x. \<not> keep x) as @ ws) = mset (filter keep ws @ fs)"
    by (simp add: mset_filter multiset_partition [of "mset ws" keep, symmetric] union_assoc)
next
  fix k assume "k \<in> set (filter (\<lambda>x. \<not> keep x) as @ ws)"
  have same: "(\<lambda>y. key k = key y) = (\<lambda>y. key y = key k)" by auto
  have stable: "filter (\<lambda>y. key k = key y) as @ filter (\<lambda>y. key k = key y) ws =
      filter (\<lambda>y. key k = key y) ps @ filter (\<lambda>y. key k = key y) fs"
    using sort_key_stable [of key "key k" "ps @ fs"] unfolding same m by simp
  have same_keep: "keep y = keep k" if "key k = key y" for y using keep [OF that] by simp
  show "filter (\<lambda>y. key k = key y) (filter (\<lambda>x. \<not> keep x) as @ ws) = filter (\<lambda>y. key k = key y) (filter keep ws @ fs)"
  proof (cases "keep k")
    case True
    then have "filter (\<lambda>y. key k = key y) fs = []"
      using fs by (auto simp: filter_empty_conv dest: same_keep)
    moreover have "(key k = key y \<and> \<not> keep y) = False" "(key k = key y \<and> keep y) = (key k = key y)" for y
      using True same_keep by blast+
    ultimately show ?thesis by (simp add: conj_commute)
  next
    case False
    then have "filter (\<lambda>y. key k = key y) ps = []"
      using ps by (auto simp: filter_empty_conv dest: same_keep)
    moreover have "(key k = key y \<and> keep y) = False" "(key k = key y \<and> \<not> keep y) = (key k = key y)" for y
      using False same_keep by blast+
    ultimately show ?thesis using stable by (simp add: conj_commute)
  qed
next
  have "sorted (map key (as @ ws))" using m by (metis sorted_sort_key)
  then show "sorted (map key (filter (\<lambda>x. \<not> keep x) as @ ws))"
    by (auto simp: sorted_append sorted_filter)
qed

lemma accumulate_unnumbered:
  "unnumbered (accumulate prev fresh n) =
     (let m = sort_key ri_start (filter (carried fresh) (unnumbered prev) @ unnumbered fresh) in drop (length m - n) m)"
proof -
  let ?m = "sort_key ri_start (filter (carried fresh) prev @ fresh)"
  have "unnumbered ?m = sort_key ri_start (filter (carried fresh) (unnumbered prev) @ unnumbered fresh)"
    unfolding unnumbered_sort by (simp add: unnumbered_def filter_map comp_def)
  moreover have "unnumbered (drop k ?m) = drop k (unnumbered ?m)" and "length (unnumbered ?m) = length ?m" for k
    by (simp_all add: unnumbered_def drop_map)
  ultimately show ?thesis
    by (simp add: accumulate_def Let_def del: length_sort)
qed

lemma accumulate_retry_core: "accumulate (accumulate prev fresh n) fresh n = accumulate prev fresh n"
proof -
  let ?keep = "carried fresh" and ?fs = "unnumbered fresh" and ?ps = "filter (carried fresh) (unnumbered prev)"
  define m where "m = sort_key ri_start (?ps @ ?fs)"
  define as where "as = take (length m - n) m"
  define ws where "ws = drop (length m - n) m"
  have m: "sort_key ri_start (?ps @ ?fs) = as @ ws" by (simp add: m_def as_def ws_def)
  have first: "unnumbered (accumulate prev fresh n) = ws"
    by (simp add: accumulate_unnumbered ws_def m_def Let_def)
  have fs: "\<forall>x \<in> set ?fs. \<not> ?keep x" by (auto simp: unnumbered_def fresh_not_carried)
  have again: "sort_key ri_start (filter ?keep ws @ ?fs) = filter (\<lambda>x. \<not> ?keep x) as @ ws"
    by (rule sort_again [OF m _ fs]) (simp, rule carried_same_start)
  have "unnumbered (accumulate (accumulate prev fresh n) fresh n) =
      drop (length (filter (\<lambda>x. \<not> ?keep x) as @ ws) - n) (filter (\<lambda>x. \<not> ?keep x) as @ ws)"
    by (subst accumulate_unnumbered) (simp only: first again Let_def)
  also have "\<dots> = ws"
    by (cases "n \<le> length m") (auto simp: as_def ws_def)
  finally have "unnumbered (accumulate (accumulate prev fresh n) fresh n) = unnumbered (accumulate prev fresh n)"
    by (simp add: first)
  moreover have "renumber (accumulate xs fresh n) = accumulate xs fresh n" for xs
    unfolding accumulate_def Let_def by (rule renumber_cong) simp
  ultimately show ?thesis by (metis renumber_cong)
qed

text \<open>
  A submission that failed and is tried again carries the same window: accumulating the same fresh intervals
  twice is accumulating them once. The window never exceeds its bound, is ordered by start and is numbered from zero.
\<close>

theorem report_window_retry:
  "accumulate (accumulate prev fresh n) fresh n = accumulate prev fresh n \<and>
   length (accumulate prev fresh n) \<le> n \<and> sorted (map ri_start (accumulate prev fresh n)) \<and>
   map ri_id (accumulate prev fresh n) = [0..<length (accumulate prev fresh n)]"
  using accumulate_retry_core
  by (simp add: accumulate_def Let_def renumber_ids sorted_wrt_drop flip: drop_map)

section \<open>The check loop\<close>

lemma rearm_map:
  "distinct (map ro_id obs) \<Longrightarrow>
   rearm_obligation i due obs = map (\<lambda>ob. if ro_id ob = i then ob\<lparr>ro_due_at := due\<rparr> else ob) obs"
proof (induction obs)
  case (Cons a obs)
  have "map (\<lambda>ob. if ro_id ob = ro_id a then ob\<lparr>ro_due_at := due\<rparr> else ob) obs = obs"
    by (rule map_idI) (use Cons.prems in \<open>auto simp: image_iff\<close>)
  with Cons show ?case by auto
qed simp

lemma rearm_ids [simp]: "map ro_id (rearm_obligation i due obs) = map ro_id obs"
  by (induction obs) auto

text \<open>What one submission may do to the list of obligations, and how it ends.\<close>

lemma report_one_cases:
  assumes "later env now (ro_submit_every_s ob) = Some due"
  obtains (rearmed) s' where "report_one env build vtn now ob s = Some (Inr (), s')"
      and "os_obligations s' = rearm_obligation (ro_id ob) due (os_obligations s)"
  | (gone) s' report where "report_one env build vtn now ob s = Some (Inr (), s')" and "vtn report = VtnGone"
      and "os_obligations s' = remove_obligation (ro_id ob) (os_obligations s)"
  | (refused) s' report e where "report_one env build vtn now ob s = Some (Inl e, s')"
      and "vtn report = VtnRefused e" and "os_obligations s' = os_obligations s"
proof -
  note that' = that
  show thesis
  proof (cases "build ob")
    case None
    with assms show thesis by (intro rearmed) (auto simp: report_one_def)
  next
    case (Some r)
    obtain report windows where rw: "(if ro_historical ob then accumulate_report_window r now (os_windows s)
        else (r, os_windows s)) = (report, windows)"
      by (cases "if ro_historical ob then accumulate_report_window r now (os_windows s) else (r, os_windows s)")
    show thesis
    proof (cases "vtn report")
      case VtnAccepted
      with assms Some rw show thesis by (intro rearmed) (auto simp: report_one_def Let_def)
    next
      case VtnGone
      with assms Some rw show thesis by (intro gone [of _ report]) (auto simp: report_one_def Let_def)
    next
      case (VtnRefused e)
      with assms Some rw show thesis by (intro refused [of e "s\<lparr>os_windows := windows\<rparr>" report]) (auto simp: report_one_def Let_def)
    qed
  qed
qed

text \<open>The list after the obligations \<open>served\<close> were submitted, those of \<open>gone\<close> dropped.\<close>

definition after_serving ::
  "wire_env \<Rightarrow> instant \<Rightarrow> uuid list \<Rightarrow> uuid list \<Rightarrow> report_obligation list \<Rightarrow> report_obligation list" where
  "after_serving env now served gone obs =
     map (\<lambda>ob. if ro_id ob \<in> set served
                then ob\<lparr>ro_due_at := hm_or (ro_due_at ob) (later env now (ro_submit_every_s ob))\<rparr> else ob)
       (filter (\<lambda>ob. ro_id ob \<notin> set gone) obs)"

lemma after_serving_none [simp]: "after_serving env now [] [] obs = obs"
  by (simp add: after_serving_def)

lemma after_serving_rearm:
  assumes "distinct (map ro_id obs)" and "ob \<in> set obs" and "later env now (ro_submit_every_s ob) = Some due"
    and "ro_id ob \<notin> set gone" and "ro_id ob \<notin> set served"
  shows "after_serving env now served gone (rearm_obligation (ro_id ob) due obs) =
    after_serving env now (ro_id ob # served) gone obs"
proof -
  have same: "x = ob" if "x \<in> set obs" "ro_id x = ro_id ob" for x
    using that assms(1,2) by (auto simp: distinct_map inj_on_def)
  have "after_serving env now served gone (rearm_obligation (ro_id ob) due obs) =
    map ((\<lambda>x. if ro_id x \<in> set served
                then x\<lparr>ro_due_at := hm_or (ro_due_at x) (later env now (ro_submit_every_s x))\<rparr> else x) \<circ>
         (\<lambda>x. if ro_id x = ro_id ob then x\<lparr>ro_due_at := due\<rparr> else x))
       (filter (\<lambda>x. ro_id x \<notin> set gone) obs)"
    by (simp add: after_serving_def rearm_map [OF assms(1)] filter_map comp_def if_distrib cong: filter_cong if_cong)
  also have "\<dots> = after_serving env now (ro_id ob # served) gone obs"
    unfolding after_serving_def by (rule map_cong) (use assms(3,5) in \<open>auto dest!: same\<close>)
  finally show ?thesis .
qed

lemma after_serving_remove:
  "after_serving env now served gone (remove_obligation i obs) = after_serving env now (i # served) (i # gone) obs"
  by (auto simp: after_serving_def remove_obligation_def intro!: map_cong)

definition loop_outcome ::
  "wire_env \<Rightarrow> (report_body \<Rightarrow> vtn_answer) \<Rightarrow> instant \<Rightarrow> report_obligation list \<Rightarrow> report_obligation list \<Rightarrow> string + unit \<Rightarrow> report_obligation list \<Rightarrow> bool" where
  "loop_outcome env vtn now due obs r obs' \<longleftrightarrow>
     (\<exists>served rest gone. due = served @ rest \<and> (rest = [] \<longleftrightarrow> r = Inr ()) \<and>
        (r \<noteq> Inr () \<longrightarrow> (\<exists>report e. vtn report = VtnRefused e \<and> r = Inl e)) \<and>
        set gone \<subseteq> ro_id ` set served \<and> (gone \<noteq> [] \<longrightarrow> VtnGone \<in> range vtn) \<and>
        obs' = after_serving env now (map ro_id served) gone obs)"

lemma loop_outcomeI:
  assumes "due = served @ rest" and "rest = [] \<longleftrightarrow> r = Inr ()"
    and "r \<noteq> Inr () \<Longrightarrow> \<exists>report e. vtn report = VtnRefused e \<and> r = Inl e"
    and "set gone \<subseteq> ro_id ` set served" and "gone \<noteq> [] \<Longrightarrow> VtnGone \<in> range vtn"
    and "obs' = after_serving env now (map ro_id served) gone obs"
  shows "loop_outcome env vtn now due obs r obs'"
  using assms unfolding loop_outcome_def by blast

lemma report_all_outcome:
  assumes "\<forall>ob \<in> set due. later env now (ro_submit_every_s ob) \<noteq> None" and "distinct (map ro_id (os_obligations s))"
    and "set due \<subseteq> set (os_obligations s)" and "distinct (map ro_id due)"
  shows "\<exists>r s'. report_all env build vtn now due s = Some (r, s') \<and> loop_outcome env vtn now due (os_obligations s) r (os_obligations s')"
  using assms
proof (induction due arbitrary: s)
  case Nil
  then show ?case by (auto simp: loop_outcome_def)
next
  case (Cons ob due)
  then obtain soon where soon: "later env now (ro_submit_every_s ob) = Some soon" by auto
  have other: "ro_id x \<noteq> ro_id ob" if "x \<in> set due" for x
    using Cons.prems(4) that by (auto simp: image_iff dest: bspec)
  show ?case
  proof (cases rule: report_one_cases [OF soon, of build vtn s, case_names rearmed gone refused])
    case (rearmed s')
    have "set due \<subseteq> set (os_obligations s')"
      using Cons.prems(2,3) other by (auto simp: rearmed(2) rearm_map)
    then obtain r s'' where run: "report_all env build vtn now due s' = Some (r, s'')"
      and out: "loop_outcome env vtn now due (os_obligations s') r (os_obligations s'')"
      using Cons.IH [of s'] Cons.prems by (auto simp: rearmed(2))
    obtain served rest gone where *: "due = served @ rest" "rest = [] \<longleftrightarrow> r = Inr ()"
        "r \<noteq> Inr () \<longrightarrow> (\<exists>report e. vtn report = VtnRefused e \<and> r = Inl e)"
        "set gone \<subseteq> ro_id ` set served" "gone \<noteq> [] \<longrightarrow> VtnGone \<in> range vtn"
        "os_obligations s'' = after_serving env now (map ro_id served) gone (os_obligations s')"
      using out unfolding loop_outcome_def by (elim exE conjE)
    have "ro_id ob \<notin> ro_id ` set served" using *(1) other by (metis UnI1 imageE set_append)
    then have "ro_id ob \<notin> set gone" "ro_id ob \<notin> set (map ro_id served)" using *(4) by auto
    with after_serving_rearm [OF Cons.prems(2) _ soon] Cons.prems(3) *(6)
    have "os_obligations s'' = after_serving env now (map ro_id (ob # served)) gone (os_obligations s)"
      by (simp add: rearmed(2))
    then have "loop_outcome env vtn now (ob # due) (os_obligations s) r (os_obligations s'')"
      by (intro loop_outcomeI [of _ "ob # served" rest r vtn gone]) (use * in auto)
    with run rearmed(1) show ?thesis by auto
  next
    case (gone s' report)
    have "set due \<subseteq> set (os_obligations s')"
      using Cons.prems(3) other by (auto simp: gone(3) remove_obligation_def)
    moreover have "distinct (map ro_id (os_obligations s'))"
      using Cons.prems(2) by (simp add: gone(3) remove_obligation_def distinct_map_filter)
    ultimately obtain r s'' where run: "report_all env build vtn now due s' = Some (r, s'')"
      and out: "loop_outcome env vtn now due (os_obligations s') r (os_obligations s'')"
      using Cons.IH [of s'] Cons.prems by auto
    obtain served rest dropped where *: "due = served @ rest" "rest = [] \<longleftrightarrow> r = Inr ()"
        "r \<noteq> Inr () \<longrightarrow> (\<exists>report e. vtn report = VtnRefused e \<and> r = Inl e)"
        "set dropped \<subseteq> ro_id ` set served"
        "os_obligations s'' = after_serving env now (map ro_id served) dropped (os_obligations s')"
      using out unfolding loop_outcome_def by (elim exE conjE)
    have "os_obligations s'' = after_serving env now (map ro_id (ob # served)) (ro_id ob # dropped) (os_obligations s)"
      by (simp add: *(5) gone(3) after_serving_remove)
    moreover have "VtnGone \<in> range vtn" using gone(2) by (metis rangeI)
    ultimately have "loop_outcome env vtn now (ob # due) (os_obligations s) r (os_obligations s'')"
      by (intro loop_outcomeI [of _ "ob # served" rest r vtn "ro_id ob # dropped"]) (use * in auto)
    with run gone(1) show ?thesis by auto
  next
    case (refused s' report e)
    then have "loop_outcome env vtn now (ob # due) (os_obligations s) (Inl e) (os_obligations s')"
      by (intro loop_outcomeI [of _ "[]" "ob # due" _ _ "[]"]) auto
    with refused(1) show ?thesis by auto
  qed
qed

lemma later_after:
  assumes "later env now every = Some t" and "0 < every" and "every < 2 ^ 63"
  shows "now < t"
  using assms by (auto simp: later_def u64_as_i64_def duration_seconds_def checked_add_def seconds_def
      split: if_splits option.splits Option.bind_splits)


definition chrono_env :: wire_env where
  "chrono_env = \<lparr>min_utc = seconds (- 8334601228800), max_utc = seconds 8210266876800, to_chrono = (\<lambda>d t. if d = ''P9999Y'' then seconds 315537984000 else seconds 3600),
     priority_key = (\<lambda>p. 0)\<rparr>"

definition hourly :: report_obligation where
  "hourly = \<lparr>ro_id = 1, ro_event_id = ''e'', ro_program_id = None, ro_payload_type = ''USAGE'', ro_reading_type = ''DIRECT_READ'',
     ro_resource_name = None, ro_due_at = seconds 100, ro_interval_width_s = 60, ro_submit_every_s = 3600, ro_fulfilled = False,
     ro_created_at = 0, ro_historical = True, ro_aggregate = False, ro_ad_hoc = False\<rparr>"


section \<open>One poll of the events\<close>

definition poll_obligations ::
  "wire_env \<Rightarrow> (nat \<Rightarrow> uuid) \<Rightarrow> oadr_event list \<Rightarrow> instant \<Rightarrow> report_obligation list \<Rightarrow> report_obligation list option" where
  "poll_obligations env fresh events now obs =
     map_option (\<lambda>new_obs. retire_obligations_not_in (map ev_id events) (add_obligations new_obs obs))
       (extract_report_obligations env fresh events now obs)"

definition ob_key :: "report_obligation \<Rightarrow> string \<times> string" where
  "ob_key ob = (ro_event_id ob, ro_payload_type ob)"

lemma owes_iff: "owes obs e ty \<longleftrightarrow> (e, ty) \<in> ob_key ` set obs"
  by (auto simp: owes_def ob_key_def image_iff)

lemma new_obligation_sel:
  assumes "new_obligation env i now ev d = Some ob"
  shows "ro_id ob = i" and "ob_key ob = (ev_id ev, rd_payload_type d)" and "\<not> ro_fulfilled ob"
  using assms by (auto simp: new_obligation_def ob_key_def split: Option.bind_splits)

lemma extract_fold:
  assumes "try_fold (extract_one env fresh now existing) ps acc = Some result"
    and "distinct (map ob_key acc)" and "ob_key ` set acc \<inter> ob_key ` set existing = {}" and "map ro_id acc = map fresh [0..<length acc]"
  shows "distinct (map ob_key result) \<and> ob_key ` set result \<inter> ob_key ` set existing = {} \<and>
    map ro_id result = map fresh [0..<length result] \<and>
    ob_key ` set result \<union> ob_key ` set existing =
      ob_key ` set acc \<union> ob_key ` set existing \<union> (\<lambda>(ev, d). (ev_id ev, rd_payload_type d)) ` set ps"
  using assms
proof (induction ps arbitrary: acc)
  case Nil
  then show ?case by simp
next
  case (Cons p ps)
  obtain ev d where p: "p = (ev, d)" by (cases p)
  let ?k = "(ev_id ev, rd_payload_type d)"
  show ?case
  proof (cases "?k \<in> ob_key ` set existing \<or> ?k \<in> ob_key ` set acc")
    case True
    with Cons.prems(1) have "try_fold (extract_one env fresh now existing) ps acc = Some result"
      by (simp add: p extract_one_def owes_iff)
    from Cons.IH [OF this Cons.prems(2-4)] True show ?thesis by (auto simp: p)
  next
    case False
    with Cons.prems(1) obtain ob where ob: "new_obligation env (fresh (length acc)) now ev d = Some ob"
      and rest: "try_fold (extract_one env fresh now existing) ps (acc @ [ob]) = Some result"
      by (auto simp: p extract_one_def owes_iff split: option.splits)
    note key = new_obligation_sel [OF ob]
    have "distinct (map ob_key (acc @ [ob]))" "ob_key ` set (acc @ [ob]) \<inter> ob_key ` set existing = {}"
      "map ro_id (acc @ [ob]) = map fresh [0..<length (acc @ [ob])]"
      using False Cons.prems(2-4) by (auto simp: key)
    from Cons.IH [OF rest this] show ?thesis by (simp add: p key Un_commute Un_left_commute)
  qed
qed

lemma add_obligations_fresh:
  assumes "distinct (map ro_id new_obs)" and "ro_id ` set new_obs \<inter> ro_id ` set obs = {}"
  shows "add_obligations new_obs obs = obs @ new_obs"
  using assms
proof (induction new_obs arbitrary: obs)
  case Nil
  then show ?case by (simp add: add_obligations_def)
next
  case (Cons ob new_obs)
  then have "\<not> (\<exists>e \<in> set obs. ro_id e = ro_id ob)" by (metis disjoint_iff image_eqI list.set_intros(1))
  then have "add_obligations (ob # new_obs) obs = add_obligations new_obs (obs @ [ob])"
    by (simp add: add_obligations_def)
  also have "\<dots> = obs @ ob # new_obs"
    using Cons.prems by (subst Cons.IH) auto
  finally show ?case .
qed

text \<open>
  C39. What is owed follows what the VTN lists: after a poll no event owes the same report twice, every report a listed
  event asks for is owed, and nothing is owed for an event that is no longer listed.
\<close>

theorem poll_obligations_follow:
  assumes "poll_obligations env fresh events now obs = Some obs'" and "distinct (map ob_key obs)"
    and "inj fresh" and "range fresh \<inter> ro_id ` set obs = {}"
  shows "distinct (map ob_key obs') \<and>
    (\<lambda>(ev, d). (ev_id ev, rd_payload_type d)) ` set (demanded events) \<subseteq> ob_key ` set obs' \<and>
    ro_event_id ` set obs' \<subseteq> ev_id ` set events"
proof -
  from assms(1) obtain new_obs where ex: "extract_report_obligations env fresh events now obs = Some new_obs"
    and obs': "obs' = retire_obligations_not_in (map ev_id events) (add_obligations new_obs obs)"
    by (auto simp: poll_obligations_def)
  from ex have new: "distinct (map ob_key new_obs)" "ob_key ` set new_obs \<inter> ob_key ` set obs = {}"
      "map ro_id new_obs = map fresh [0..<length new_obs]"
      "ob_key ` set new_obs \<union> ob_key ` set obs =
        ob_key ` set obs \<union> (\<lambda>(ev, d). (ev_id ev, rd_payload_type d)) ` set (demanded events)"
    using extract_fold [OF ex [unfolded extract_report_obligations_def]] by simp_all
  have "distinct (map ro_id new_obs)"
    using assms(3) by (simp add: new(3) distinct_map inj_on_def)
  moreover have "ro_id ` set new_obs \<inter> ro_id ` set obs = {}"
    using assms(4) arg_cong [OF new(3), of set] by auto
  ultimately have obs'_eq: "obs' = filter (\<lambda>ob. ro_event_id ob \<in> ev_id ` set events) (obs @ new_obs)"
    by (simp add: obs' add_obligations_fresh retire_obligations_not_in_def)
  have "distinct (map ob_key (obs @ new_obs))" using assms(2) new(1,2) by auto
  then have "distinct (map ob_key obs')" unfolding obs'_eq by (rule distinct_map_filter)
  moreover have "k \<in> ob_key ` set obs'" if "k \<in> (\<lambda>(ev, d). (ev_id ev, rd_payload_type d)) ` set (demanded events)" for k
  proof -
    from that new(4) obtain ob where ob: "ob \<in> set (obs @ new_obs)" "k = ob_key ob" by fastforce
    from that have "fst k \<in> ev_id ` set events" by (auto simp: demanded_def)
    with ob show ?thesis unfolding obs'_eq by (auto simp: ob_key_def)
  qed
  moreover have "ro_event_id ` set obs' \<subseteq> ev_id ` set events" unfolding obs'_eq by auto
  ultimately show ?thesis by blast
qed

definition standing_event :: "int \<Rightarrow> wire_duration \<Rightarrow> oadr_event" where
  "standing_event every len = \<lparr>ev_id = ''monitor'', ev_created = 0, ev_modified = 0, ev_name = None, ev_program_id = ''p'',
     ev_priority = None, ev_duration = None,
     ev_period = Some \<lparr>ip_start = 0, ip_duration = Some len, ip_randomize_start = None\<rparr>,
     ev_intervals = Some [\<lparr>iv_period = None, iv_payloads = []\<rparr>], ev_payload_descriptors = None,
     ev_report_descriptors = Some [\<lparr>rd_payload_type = ''USAGE'', rd_reading_type = None, rd_open_intervals = False,
       rd_frequency = every, rd_num_intervals = - 1, rd_historical = True, rd_aggregate = False\<rparr>]\<rparr>"

lemma standing_intervals:
  "timed_intervals chrono_env (standing_event every len) =
     Some [\<lparr>t_interval = \<lparr>iv_period = None, iv_payloads = []\<rparr>, t_start = 0, t_end = to_chrono chrono_env len 0\<rparr>]"
  by (simp add: timed_intervals_def event_window_end_def base_intervals_def standing_event_def event_intervals_def
      timed_of_def checked_add_def chrono_env_def seconds_def)

definition standing_obligation :: "uuid \<Rightarrow> report_obligation" where
  "standing_obligation i = hourly\<lparr>ro_id := i, ro_event_id := ''monitor'', ro_program_id := Some ''p'', ro_due_at := seconds 14400,
     ro_interval_width_s := 3600, ro_submit_every_s := 14400\<rparr>"

lemma standing_timing:
  "report_timing chrono_env (standing_event every len) (hd (event_descriptors (standing_event every len))) =
     Some (report_timing_of chrono_env (hd (event_descriptors (standing_event every len)))
       [\<lparr>t_interval = \<lparr>iv_period = None, iv_payloads = []\<rparr>, t_start = 0, t_end = to_chrono chrono_env len 0\<rparr>])"
  by (simp add: report_timing_def standing_intervals)

lemma standing_width:
  "report_width_s chrono_env (hd (event_descriptors (standing_event every len)))
     [\<lparr>t_interval = \<lparr>iv_period = None, iv_payloads = []\<rparr>, t_start = 0, t_end = to_chrono chrono_env len 0\<rparr>] =
   Some (if len = ''P9999Y'' then 315537984000 else 3600)"
proof -
  have "num_seconds (seconds n) = n" for n by (rule num_seconds_of_seconds)
  then show ?thesis
    by (simp add: report_width_s_def event_descriptors_def standing_event_def is_bounded_def chrono_env_def)
      (simp add: seconds_def)
qed

lemma standing_new:
  "new_obligation chrono_env i 0 (standing_event 4 ''PT1H'') (hd (event_descriptors (standing_event 4 ''PT1H''))) =
     Some (standing_obligation i)"
  unfolding new_obligation_def standing_timing report_timing_of_def standing_width
  by (simp add: event_descriptors_def standing_event_def saturating_mul_def later_def u64_as_i64_def duration_seconds_def
      checked_add_def chrono_env_def seconds_def standing_obligation_def hourly_def)

lemma standing_demanded:
  "demanded [standing_event every len] = [(standing_event every len, hd (event_descriptors (standing_event every len)))]"
  by (simp add: demanded_def event_descriptors_def standing_event_def)

lemma poll_obligations_follow_witness:
  "poll_obligations chrono_env (\<lambda>n. n + 2) [standing_event 4 ''PT1H''] 0 [hourly] = Some [standing_obligation 2] \<and>
   distinct (map ob_key [standing_obligation 2]) \<and> ro_event_id ` set [standing_obligation 2] \<subseteq> {''monitor''}"
proof -
  have poll: "poll_obligations chrono_env (\<lambda>n. n + 2) [standing_event 4 ''PT1H''] 0 [hourly] = Some [standing_obligation 2]"
    unfolding poll_obligations_def extract_report_obligations_def standing_demanded
    by (simp add: extract_one_def standing_new owes_def)
      (simp add: add_obligations_def retire_obligations_not_in_def standing_obligation_def hourly_def standing_event_def)
  have "distinct (map ob_key [hourly])" "inj (\<lambda>n::nat. n + 2)" "range (\<lambda>n::nat. n + 2) \<inter> ro_id ` set [hourly] = {}"
    by (auto simp: hourly_def inj_on_def)
  from poll_obligations_follow [OF poll this] poll show ?thesis
    by (simp add: standing_event_def)
qed

text \<open>
  The date arithmetic of a new obligation is not checked: a descriptor that asks for one report in thirty intervals of
  an event whose interval is the standard's infinity stops the poll.
\<close>

lemma obligation_due_date_panics:
  "extract_report_obligations chrono_env fresh [standing_event 30 ''P9999Y''] 0 [] = None"
proof -
  have "new_obligation chrono_env i 0 (standing_event 30 ''P9999Y'') (hd (event_descriptors (standing_event 30 ''P9999Y''))) = None" for i
    unfolding new_obligation_def standing_timing report_timing_of_def standing_width
    by (simp add: event_descriptors_def standing_event_def saturating_mul_def later_def u64_as_i64_def duration_seconds_def
        checked_add_def chrono_env_def seconds_def)
  then show ?thesis
    unfolding extract_report_obligations_def standing_demanded by (simp add: extract_one_def owes_def)
qed

end
