(* ===== verification/Notifications.thy ===== *)
theory Notifications
  imports Wire_Contract
begin

text \<open>
  What the resident is told: the bounded ring (\<open>VEN/src/entities/ring_buffer.rs\<close>,
  \<open>VEN/src/state/bounded_log.rs\<close>), the notification feed on the state (\<open>VEN/src/state/mod.rs\<close>), its
  table (\<open>VEN/src/history_store/notifications.rs\<close>) and the service that writes both
  (\<open>VEN/src/services/notify.rs\<close>), with the rejections \<open>/health\<close> shows (\<open>VEN/src/state/wire_health.rs\<close>,
  \<open>VEN/src/controller/wire_reject.rs\<close>) and the ring of a single asset (\<open>VEN/src/assets/history.rs\<close>). Each
  method holds its lock for its whole body, so it is one function. What the store answers to a write and the
  fresh id of a notification are part of the call; a count is an unbounded number.
\<close>

section \<open>The bounded ring\<close>

record 'a ring_buffer =
  rb_capacity :: nat
  rb_items :: "'a list"

definition rb_new :: "nat \<Rightarrow> 'a ring_buffer" where
  "rb_new cap = \<lparr>rb_capacity = cap, rb_items = []\<rparr>"

definition rb_push :: "'a \<Rightarrow> 'a ring_buffer \<Rightarrow> 'a ring_buffer" where
  "rb_push x r =
     (if rb_capacity r = 0 then r
      else r\<lparr>rb_items := (if rb_capacity r \<le> length (rb_items r) then tl (rb_items r) else rb_items r) @ [x]\<rparr>)"

definition newest_first :: "'a ring_buffer \<Rightarrow> 'a list" where
  "newest_first r = rev (rb_items r)"

definition oldest_first_where :: "('a \<Rightarrow> bool) \<Rightarrow> 'a ring_buffer \<Rightarrow> 'a list" where
  "oldest_first_where P r = filter P (rb_items r)"

fun bump_first :: "('a \<Rightarrow> bool) \<Rightarrow> ('a \<Rightarrow> 'a) \<Rightarrow> 'a list \<Rightarrow> ('a \<times> 'a list) option" where
  "bump_first P f [] = None"
| "bump_first P f (x # xs) =
     (if P x then Some (f x, f x # xs) else map_option (\<lambda>(y, ys). (y, x # ys)) (bump_first P f xs))"

definition bump_newest :: "('a \<Rightarrow> bool) \<Rightarrow> ('a \<Rightarrow> 'a) \<Rightarrow> 'a list \<Rightarrow> ('a \<times> 'a list) option" where
  "bump_newest P f xs = map_option (\<lambda>(y, ys). (y, rev ys)) (bump_first P f (rev xs))"

definition bump_newest_where ::
  "('a \<Rightarrow> bool) \<Rightarrow> ('a \<Rightarrow> 'a) \<Rightarrow> 'a ring_buffer \<Rightarrow> ('a \<times> 'a ring_buffer) option" where
  "bump_newest_where P f r = map_option (\<lambda>(y, ys). (y, r\<lparr>rb_items := ys\<rparr>)) (bump_newest P f (rb_items r))"

text \<open>The ring of one asset's history, whose push compares with the capacity for equality.\<close>

record 's history_point =
  hp_ts :: instant
  hp_power_kw :: f64
  hp_state :: 's

record 's asset_history =
  ah_capacity :: nat
  ah_points :: "'s history_point list"

definition ah_push :: "'s history_point \<Rightarrow> 's asset_history \<Rightarrow> 's asset_history" where
  "ah_push p h = h\<lparr>ah_points := (if length (ah_points h) = ah_capacity h then tl (ah_points h) else ah_points h) @ [p]\<rparr>"

definition ah_slice :: "span \<Rightarrow> instant \<Rightarrow> 's asset_history \<Rightarrow> 's history_point list" where
  "ah_slice window now h = filter (\<lambda>p. now - window \<le> hp_ts p \<and> hp_ts p \<le> now) (ah_points h)"

definition ah_latest :: "'s asset_history \<Rightarrow> 's history_point option" where
  "ah_latest h = (if ah_points h = [] then None else Some (last (ah_points h)))"

section \<open>Notifications\<close>

datatype notification_severity = Info | Warn | Alert

record user_notification =
  un_id :: uuid
  un_created_at :: instant
  un_severity :: notification_severity
  un_message :: string
  un_asset_id :: "string option"
  un_event_id :: "string option"
  un_dedup_key :: "string option"
  un_count :: nat
  un_last_seen_at :: instant

definition notification_new ::
  "uuid \<Rightarrow> instant \<Rightarrow> notification_severity \<Rightarrow> string \<Rightarrow> string option \<Rightarrow> string option \<Rightarrow> user_notification" where
  "notification_new fresh now sev msg asset event =
     \<lparr>un_id = fresh, un_created_at = now, un_severity = sev, un_message = msg, un_asset_id = asset,
      un_event_id = event, un_dedup_key = None, un_count = 1, un_last_seen_at = now\<rparr>"

definition notification_ring_cap :: nat where "notification_ring_cap = 200"

definition dedup_window :: span where "dedup_window = seconds (30 * 60)"

definition seen_within :: "string \<Rightarrow> instant \<Rightarrow> span \<Rightarrow> user_notification \<Rightarrow> bool" where
  "seen_within key now window n \<longleftrightarrow> un_dedup_key n = Some key \<and> now - un_last_seen_at n \<le> window"

definition seen_again :: "instant \<Rightarrow> user_notification \<Rightarrow> user_notification" where
  "seen_again now n = n\<lparr>un_count := un_count n + 1, un_last_seen_at := now\<rparr>"

definition bump_notification_seen ::
  "string \<Rightarrow> instant \<Rightarrow> span \<Rightarrow> user_notification ring_buffer \<Rightarrow> (user_notification \<times> user_notification ring_buffer) option" where
  "bump_notification_seen key now window r = bump_newest_where (seen_within key now window) (seen_again now) r"

definition notifications_since :: "instant option \<Rightarrow> user_notification ring_buffer \<Rightarrow> user_notification list" where
  "notifications_since since r =
     oldest_first_where (\<lambda>n. case since of None \<Rightarrow> True | Some s \<Rightarrow> s < un_created_at n) r"

section \<open>The table\<close>

definition to_unix :: "instant \<Rightarrow> int" where "to_unix t = t div 1000000000"

definition severity_to_str :: "notification_severity \<Rightarrow> string" where
  "severity_to_str s = (case s of Info \<Rightarrow> ''INFO'' | Warn \<Rightarrow> ''WARN'' | Alert \<Rightarrow> ''ALERT'')"

definition severity_from_str :: "string \<Rightarrow> notification_severity option" where
  "severity_from_str s =
     (if s = ''INFO'' then Some Info else if s = ''WARN'' then Some Warn
      else if s = ''ALERT'' then Some Alert else None)"

record notification_row =
  nr_id :: uuid
  nr_created_at :: int
  nr_severity :: string
  nr_message :: string
  nr_asset_id :: "string option"
  nr_event_id :: "string option"
  nr_dedup_key :: "string option"
  nr_count :: nat
  nr_last_seen_at :: int

definition row_of :: "user_notification \<Rightarrow> notification_row" where
  "row_of n =
     \<lparr>nr_id = un_id n, nr_created_at = to_unix (un_created_at n), nr_severity = severity_to_str (un_severity n),
      nr_message = un_message n, nr_asset_id = un_asset_id n, nr_event_id = un_event_id n,
      nr_dedup_key = un_dedup_key n, nr_count = un_count n, nr_last_seen_at = to_unix (un_last_seen_at n)\<rparr>"

definition of_row :: "notification_row \<Rightarrow> user_notification option" where
  "of_row r = map_option (\<lambda>sev.
     \<lparr>un_id = nr_id r, un_created_at = seconds (nr_created_at r), un_severity = sev, un_message = nr_message r,
      un_asset_id = nr_asset_id r, un_event_id = nr_event_id r, un_dedup_key = nr_dedup_key r,
      un_count = nr_count r, un_last_seen_at = seconds (nr_last_seen_at r)\<rparr>) (severity_from_str (nr_severity r))"

type_synonym notification_table = "notification_row list"

definition table_append :: "user_notification \<Rightarrow> notification_table \<Rightarrow> notification_table" where
  "table_append n rows = rows @ [row_of n]"

definition table_update_seen :: "uuid \<Rightarrow> nat \<Rightarrow> instant \<Rightarrow> notification_table \<Rightarrow> notification_table option" where
  "table_update_seen i count seen rows =
     (if \<exists>r \<in> set rows. nr_id r = i
      then Some (map (\<lambda>r. if nr_id r = i then r\<lparr>nr_count := count, nr_last_seen_at := to_unix seen\<rparr> else r) rows)
      else None)"

section \<open>The service\<close>

record notify_call =
  nc_now :: instant
  nc_severity :: notification_severity
  nc_message :: string
  nc_asset_id :: "string option"
  nc_event_id :: "string option"
  nc_dedup_key :: "string option"
  nc_fresh :: uuid
  nc_stored :: bool

record notify_state =
  ns_ring :: "user_notification ring_buffer"
  ns_history :: "notification_table option"
  ns_sent :: "user_notification list"

definition store_write :: "bool \<Rightarrow> (notification_table \<Rightarrow> notification_table option) \<Rightarrow> notification_table option \<Rightarrow> notification_table option" where
  "store_write stored write h =
     map_option (\<lambda>rows. if stored then (case write rows of None \<Rightarrow> rows | Some rows' \<Rightarrow> rows') else rows) h"

definition bumped :: "notify_call \<Rightarrow> notify_state \<Rightarrow> (user_notification \<times> user_notification ring_buffer) option" where
  "bumped c s = (case nc_dedup_key c of
     None \<Rightarrow> None
   | Some key \<Rightarrow> bump_notification_seen key (nc_now c) dedup_window (ns_ring s))"

definition call_notification :: "notify_call \<Rightarrow> user_notification" where
  "call_notification c =
     (notification_new (nc_fresh c) (nc_now c) (nc_severity c) (nc_message c) (nc_asset_id c) (nc_event_id c))
       \<lparr>un_dedup_key := nc_dedup_key c\<rparr>"

definition notify :: "notify_state \<Rightarrow> notify_call \<Rightarrow> user_notification \<times> notify_state" where
  "notify s c = (case bumped c s of
     Some (n, ring) \<Rightarrow>
       (n, s\<lparr>ns_ring := ring, ns_sent := ns_sent s @ [n],
             ns_history := store_write (nc_stored c) (table_update_seen (un_id n) (un_count n) (un_last_seen_at n)) (ns_history s)\<rparr>)
   | None \<Rightarrow>
       (let n = call_notification c in
        (n, s\<lparr>ns_ring := rb_push n (ns_ring s), ns_sent := ns_sent s @ [n],
              ns_history := store_write (nc_stored c) (\<lambda>rows. Some (table_append n rows)) (ns_history s)\<rparr>)))"

definition notify_step :: "notify_state \<Rightarrow> notify_call \<Rightarrow> notify_state" where
  "notify_step s c = snd (notify s c)"

section \<open>Producers\<close>

datatype warning_kind =
    SolverInfeasible | StaleRateEstimate | BudgetShortfall | CapacityViolation | PeakPenaltyExceeded
  | EvCoreEnergyUnmet | TargetAboveLimit | HeaterTargetUnmet | OtherKind

datatype warning_severity = InfoWarning | PlainWarning | CriticalWarning

record plan_warning =
  pw_severity :: warning_severity
  pw_kind :: warning_kind
  pw_message :: string
  pw_suggested_action :: "string option"

definition new_plan_warnings ::
  "plan_warning list option \<Rightarrow> plan_warning list \<Rightarrow> (notification_severity \<times> string) list" where
  "new_plan_warnings prev cur =
     (let prev_kinds = (case prev of None \<Rightarrow> [] | Some ws \<Rightarrow> map pw_kind ws) in
      List.map_filter (\<lambda>w. case pw_severity w of
          CriticalWarning \<Rightarrow> Some (Alert, pw_message w)
        | PlainWarning \<Rightarrow> Some (Warn, pw_message w)
        | InfoWarning \<Rightarrow> None)
        (filter (\<lambda>w. pw_kind w \<notin> set prev_kinds) cur))"

definition outage_transition :: "bool \<Rightarrow> bool \<Rightarrow> (notification_severity \<times> string) option" where
  "outage_transition was_ok now_ok =
     (if was_ok \<and> \<not> now_ok then Some (Warn, ''VTN unreachable: planning continues on last known rates'')
      else if \<not> was_ok \<and> now_ok then Some (Info, ''VTN connection restored'')
      else None)"

definition correction_transition ::
  "string option \<Rightarrow> string option \<Rightarrow> (notification_severity \<times> string \<times> string) option" where
  "correction_transition prev cur =
     (if prev = None \<and> cur \<noteq> None
      then Some (Warn, ''Reactive correction active'', ''arbiter-correction-active'')
      else if prev \<noteq> None \<and> cur = None
      then Some (Info, ''Reactive correction cleared'', ''arbiter-correction-cleared'')
      else None)"

definition notify_correction_edge ::
  "uuid \<Rightarrow> bool \<Rightarrow> instant \<Rightarrow> string option \<Rightarrow> string option \<Rightarrow> notify_state \<Rightarrow> notify_state" where
  "notify_correction_edge fresh stored now prev cur s = (case correction_transition prev cur of
     None \<Rightarrow> s
   | Some (sev, msg, key) \<Rightarrow>
       notify_step s \<lparr>nc_now = now, nc_severity = sev, nc_message = msg, nc_asset_id = None, nc_event_id = None,
         nc_dedup_key = Some key, nc_fresh = fresh, nc_stored = stored\<rparr>)"

definition notify_new_plan_warnings ::
  "(nat \<Rightarrow> uuid) \<Rightarrow> bool \<Rightarrow> instant \<Rightarrow> bool \<Rightarrow> plan_warning list option \<Rightarrow> plan_warning list \<Rightarrow> notify_state \<Rightarrow> notify_state" where
  "notify_new_plan_warnings fresh stored now adopted prev cur s =
     (if \<not> adopted then s
      else foldl notify_step s (map (\<lambda>(i, sev, msg).
        \<lparr>nc_now = now, nc_severity = sev, nc_message = msg, nc_asset_id = None, nc_event_id = None,
         nc_dedup_key = None, nc_fresh = fresh i, nc_stored = stored\<rparr>) (enumerate 0 (new_plan_warnings prev cur))))"

definition notify_outage_edge :: "uuid \<Rightarrow> bool \<Rightarrow> instant \<Rightarrow> bool \<Rightarrow> bool \<Rightarrow> notify_state \<Rightarrow> bool \<times> notify_state" where
  "notify_outage_edge fresh stored now was_ok now_ok s = (case outage_transition was_ok now_ok of
     None \<Rightarrow> (now_ok, s)
   | Some (sev, msg) \<Rightarrow>
       (now_ok, notify_step s \<lparr>nc_now = now, nc_severity = sev, nc_message = msg, nc_asset_id = None,
         nc_event_id = None, nc_dedup_key = None, nc_fresh = fresh, nc_stored = stored\<rparr>))"

section \<open>Refused objects\<close>

text \<open>The parser of one object and the reading of its id are serde's: parameters.\<close>

record rejected_object =
  rj_object_id :: "string option"
  rj_reason :: string

record 't fetch_outcome =
  fo_items :: "'t list"
  fo_rejected :: "rejected_object list"

fun show_nat :: "nat \<Rightarrow> string" where
  "show_nat n = (if n < 10 then [''0123456789'' ! n] else show_nat (n div 10) @ [''0123456789'' ! (n mod 10)])"

declare show_nat.simps [simp del]

fun join_with :: "string \<Rightarrow> string list \<Rightarrow> string" where
  "join_with sep [] = []"
| "join_with sep [x] = x"
| "join_with sep (x # y # ys) = x @ sep @ join_with sep (y # ys)"

definition describe :: "rejected_object \<Rightarrow> string" where
  "describe r = (case rj_object_id r of None \<Rightarrow> ''<no id>: '' | Some i \<Rightarrow> i @ '': '') @ rj_reason r"

definition rejection_summary :: "'t fetch_outcome \<Rightarrow> string \<Rightarrow> string option" where
  "rejection_summary out resource =
     (if fo_rejected out = [] then None
      else Some (''VTN sent '' @ show_nat (length (fo_rejected out)) @ '' malformed '' @ resource
        @ '' object(s), ignored: '' @ join_with ''; '' (map describe (fo_rejected out))))"

definition partition_valid :: "('j \<Rightarrow> string + 't) \<Rightarrow> ('j \<Rightarrow> string option) \<Rightarrow> 'j list \<Rightarrow> 't fetch_outcome" where
  "partition_valid parse json_id values =
     fold (\<lambda>v out. case parse v of
         Inr item \<Rightarrow> out\<lparr>fo_items := fo_items out @ [item]\<rparr>
       | Inl reason \<Rightarrow> out\<lparr>fo_rejected := fo_rejected out @ [\<lparr>rj_object_id = json_id v, rj_reason = reason\<rparr>]\<rparr>)
       values \<lparr>fo_items = [], fo_rejected = []\<rparr>"

record wire_health =
  wh_rejections :: "string hmap"
  wh_assumptions :: "(string \<times> nat) list"

definition set_wire_rejections :: "string \<Rightarrow> string option \<Rightarrow> wire_health \<Rightarrow> wire_health" where
  "set_wire_rejections resource summary w =
     w\<lparr>wh_rejections := (case summary of Some s \<Rightarrow> hm_put resource s (wh_rejections w)
                                   | None \<Rightarrow> AList.delete resource (wh_rejections w))\<rparr>"

definition scope_key :: string where "scope_key = ''token-scopes''"

definition set_scope_warning :: "string option \<Rightarrow> wire_health \<Rightarrow> wire_health" where
  "set_scope_warning warning w = set_wire_rejections scope_key warning w"

definition surface_wire_rejection ::
  "uuid \<Rightarrow> bool \<Rightarrow> instant \<Rightarrow> string \<Rightarrow> string \<Rightarrow> wire_health \<times> notify_state \<Rightarrow> wire_health \<times> notify_state" where
  "surface_wire_rejection fresh stored now resource summary = (\<lambda>(w, s).
     (set_wire_rejections resource (Some summary) w,
      notify_step s \<lparr>nc_now = now, nc_severity = Warn, nc_message = summary, nc_asset_id = None, nc_event_id = None,
        nc_dedup_key = Some (''wire-reject-'' @ resource), nc_fresh = fresh, nc_stored = stored\<rparr>))"

definition notify_wire_rejections ::
  "uuid \<Rightarrow> bool \<Rightarrow> instant \<Rightarrow> string \<Rightarrow> 't fetch_outcome \<Rightarrow> wire_health \<times> notify_state \<Rightarrow> wire_health \<times> notify_state" where
  "notify_wire_rejections fresh stored now resource outcome = (\<lambda>(w, s).
     (case rejection_summary outcome resource of
        None \<Rightarrow> (set_wire_rejections resource None w, s)
      | Some summary \<Rightarrow> surface_wire_rejection fresh stored now resource summary (w, s)))"

definition unit_refusals_key :: string where "unit_refusals_key = ''events:units''"

definition notify_unit_audit ::
  "(refusal \<Rightarrow> string) \<Rightarrow> uuid \<Rightarrow> bool \<Rightarrow> instant \<Rightarrow> wire_audit \<Rightarrow> wire_health \<times> notify_state \<Rightarrow> wire_health \<times> notify_state" where
  "notify_unit_audit render fresh stored now a = (\<lambda>(w, s).
     (let w = w\<lparr>wh_assumptions := wa_assumed a\<rparr> in
      if wa_refusals a = [] then (set_wire_rejections unit_refusals_key None w, s)
      else surface_wire_rejection fresh stored now unit_refusals_key
        (show_nat (length (wa_refusals a))
          @ '' event payload(s) not used, their declared unit is not the one this profile reads: ''
          @ join_with ''; '' (map render (wa_refusals a))) (w, s)))"

section \<open>The ring keeps the newest entries\<close>

definition lastn :: "nat \<Rightarrow> 'a list \<Rightarrow> 'a list" where
  "lastn n xs = drop (length xs - n) xs"

lemma length_lastn [simp]: "length (lastn n xs) = min n (length xs)"
  by (simp add: lastn_def min_def)

lemma lastn_all: "length xs \<le> n \<Longrightarrow> lastn n xs = xs"
  by (simp add: lastn_def)

lemma lastn_append_same: "length ys = min n (length (xs @ ys)) \<Longrightarrow> lastn n (xs @ ys) = ys"
  by (simp add: lastn_def min_def split: if_splits)

lemma take_lastn: "take (length xs - n) xs @ lastn n xs = xs"
  by (simp add: lastn_def)

lemma rb_push_capacity [simp]: "rb_capacity (rb_push x r) = rb_capacity r"
  by (simp add: rb_push_def)

lemma rb_push_lastn:
  assumes "rb_items r = lastn (rb_capacity r) l"
  shows "rb_items (rb_push x r) = lastn (rb_capacity r) (l @ [x])"
proof (cases "rb_capacity r \<le> length l")
  case True
  then have "tl (lastn (rb_capacity r) l) = drop (length l + 1 - rb_capacity r) l"
    by (simp add: lastn_def Suc_diff_le drop_Suc tl_drop)
  with True assms show ?thesis
    by (auto simp: rb_push_def lastn_def)
next
  case False
  with assms show ?thesis
    by (simp add: rb_push_def lastn_all)
qed

lemma bump_first_iff:
  "bump_first P f xs = Some (y, ys) \<longleftrightarrow>
     (\<exists>pre x post. xs = pre @ x # post \<and> (\<forall>z \<in> set pre. \<not> P z) \<and> P x \<and> y = f x \<and> ys = pre @ f x # post)"
proof (induction xs arbitrary: ys)
  case Nil
  then show ?case by simp
next
  case (Cons a xs)
  show ?case
  proof (cases "P a")
    case True
    show ?thesis
    proof
      assume "bump_first P f (a # xs) = Some (y, ys)"
      with True have "a # xs = [] @ a # xs \<and> y = f a \<and> ys = [] @ f a # xs" by auto
      with True show "\<exists>pre x post. a # xs = pre @ x # post \<and> (\<forall>z \<in> set pre. \<not> P z) \<and> P x \<and> y = f x \<and> ys = pre @ f x # post"
        by (metis empty_iff list.set(1))
    qed (use True in \<open>auto simp: Cons_eq_append_conv\<close>)
  next
    case False
    show ?thesis
    proof
      assume "bump_first P f (a # xs) = Some (y, ys)"
      with False obtain zs where "bump_first P f xs = Some (y, zs)" and ys: "ys = a # zs" by auto
      then obtain pre x post where *: "xs = pre @ x # post" "\<forall>z \<in> set pre. \<not> P z" "P x" "y = f x"
          "zs = pre @ f x # post"
        by (auto simp: Cons.IH)
      with False ys show "\<exists>pre x post. a # xs = pre @ x # post \<and> (\<forall>z \<in> set pre. \<not> P z) \<and> P x \<and> y = f x \<and> ys = pre @ f x # post"
        by (intro exI [of _ "a # pre"] exI [of _ x] exI [of _ post]) auto
    next
      assume "\<exists>pre x post. a # xs = pre @ x # post \<and> (\<forall>z \<in> set pre. \<not> P z) \<and> P x \<and> y = f x \<and> ys = pre @ f x # post"
      then obtain pre x post where *: "a # xs = pre @ x # post" "\<forall>z \<in> set pre. \<not> P z" "P x" "y = f x"
          "ys = pre @ f x # post" by blast
      with False obtain qs where "pre = a # qs" by (cases pre) auto
      with * have "bump_first P f xs = Some (y, qs @ f x # post)" unfolding Cons.IH by auto
      with False \<open>pre = a # qs\<close> * show "bump_first P f (a # xs) = Some (y, ys)" by simp
    qed
  qed
qed

lemma bump_newest_SomeE:
  assumes "bump_newest P f xs = Some (y, ys)"
  obtains pre x post where "xs = pre @ x # post" and "\<forall>z \<in> set post. \<not> P z" and "P x" and "y = f x"
    and "ys = pre @ f x # post"
proof -
  note that' = that
  from assms obtain zs where "bump_first P f (rev xs) = Some (y, zs)" and ys: "ys = rev zs"
    by (auto simp: bump_newest_def)
  then obtain pre x post where "rev xs = pre @ x # post" and *: "\<forall>z \<in> set pre. \<not> P z" "P x" "y = f x"
    and zs: "zs = pre @ f x # post"
    by (auto simp: bump_first_iff)
  then have "xs = rev post @ x # rev pre" by (simp add: rev_swap)
  with * zs ys show thesis by (intro that' [of "rev post" x "rev pre"]) auto
qed

lemma bump_first_None: "bump_first P f xs = None \<longleftrightarrow> (\<forall>x \<in> set xs. \<not> P x)"
  by (induction xs) auto

lemma bump_newest_None: "bump_newest P f xs = None \<longleftrightarrow> (\<forall>x \<in> set xs. \<not> P x)"
  by (simp add: bump_newest_def bump_first_None)

lemma bump_newest_length: "bump_newest P f xs = Some (y, ys) \<Longrightarrow> length ys = length xs"
  by (elim bump_newest_SomeE) simp

section \<open>One log behind the feed and the table\<close>

text \<open>
  The abstract account of the service: everything ever told, oldest first. A keyed repeat changes the newest
  qualifying entry among the last \<open>cap\<close>, anything else is appended.
\<close>

definition log_step :: "nat \<Rightarrow> user_notification list \<Rightarrow> notify_call \<Rightarrow> user_notification list" where
  "log_step cap l c =
     (case (case nc_dedup_key c of
              None \<Rightarrow> None
            | Some key \<Rightarrow> bump_newest (seen_within key (nc_now c) dedup_window) (seen_again (nc_now c)) (lastn cap l)) of
        Some (n, recent) \<Rightarrow> take (length l - cap) l @ recent
      | None \<Rightarrow> l @ [call_notification c])"

definition feed_rel :: "nat \<Rightarrow> notify_state \<Rightarrow> user_notification list \<Rightarrow> bool" where
  "feed_rel cap s l \<longleftrightarrow> rb_capacity (ns_ring s) = cap \<and> rb_items (ns_ring s) = lastn cap l"

definition history_rel :: "nat \<Rightarrow> notify_state \<Rightarrow> user_notification list \<Rightarrow> bool" where
  "history_rel cap s l \<longleftrightarrow> feed_rel cap s l \<and> ns_history s = Some (map row_of l) \<and> distinct (map un_id l)"

definition fresh_and_stored :: "user_notification list \<Rightarrow> notify_call \<Rightarrow> bool" where
  "fresh_and_stored l c \<longleftrightarrow> nc_stored c \<and> nc_fresh c \<notin> un_id ` set l"

lemma call_notification_sel [simp]:
  "un_id (call_notification c) = nc_fresh c" "un_dedup_key (call_notification c) = nc_dedup_key c"
  "un_count (call_notification c) = 1" "un_created_at (call_notification c) = nc_now c"
  "un_last_seen_at (call_notification c) = nc_now c" "un_message (call_notification c) = nc_message c"
  by (simp_all add: call_notification_def notification_new_def)

lemma seen_again_sel [simp]:
  "un_id (seen_again t n) = un_id n" "un_dedup_key (seen_again t n) = un_dedup_key n"
  "un_count (seen_again t n) = un_count n + 1" "un_created_at (seen_again t n) = un_created_at n"
  "un_last_seen_at (seen_again t n) = t" "un_message (seen_again t n) = un_message n"
  by (simp_all add: seen_again_def)

text \<open>A step either repeats the newest qualifying entry of the feed or appends, in both accounts alike.\<close>

lemma log_step_cases:
  assumes "feed_rel cap s l"
  obtains (repeat) key old pre x post where "nc_dedup_key c = Some key" and "lastn cap l = pre @ x # post"
      and "seen_within key (nc_now c) dedup_window x"
      and "log_step cap l c = old @ pre @ seen_again (nc_now c) x # post"
      and "l = old @ pre @ x # post"
      and "bumped c s = Some (seen_again (nc_now c) x, (ns_ring s)\<lparr>rb_items := pre @ seen_again (nc_now c) x # post\<rparr>)"
  | (new) "log_step cap l c = l @ [call_notification c]" and "bumped c s = None"
      and "\<forall>key. nc_dedup_key c = Some key \<longrightarrow> (\<forall>n \<in> set (lastn cap l). \<not> seen_within key (nc_now c) dedup_window n)"
proof -
  have items: "rb_items (ns_ring s) = lastn cap l" using assms by (simp add: feed_rel_def)
  show thesis
  proof (cases "nc_dedup_key c")
    case None
    then show thesis by (intro new) (simp_all add: log_step_def bumped_def)
  next
    case (Some key)
    show thesis
    proof (cases "bump_newest (seen_within key (nc_now c) dedup_window) (seen_again (nc_now c)) (lastn cap l)")
      case None
      moreover from None have "\<forall>n \<in> set (lastn cap l). \<not> seen_within key (nc_now c) dedup_window n"
        by (simp add: bump_newest_None)
      ultimately show thesis
        using Some items by (intro new) (simp_all add: log_step_def bumped_def bump_notification_seen_def
            bump_newest_where_def)
    next
      case (Some p)
      obtain y ys where p: "p = (y, ys)" by (cases p)
      from Some p obtain pre x post where *: "lastn cap l = pre @ x # post"
          "seen_within key (nc_now c) dedup_window x" "y = seen_again (nc_now c) x"
          "ys = pre @ seen_again (nc_now c) x # post"
        by (auto elim: bump_newest_SomeE)
      have "take (length l - cap) l @ pre @ x # post = l"
        using take_lastn [of l cap] by (simp only: *(1))
      then show thesis
        using Some p * items \<open>nc_dedup_key c = Some key\<close>
        by (intro repeat [of key pre x post "take (length l - cap) l"])
          (simp_all add: log_step_def bumped_def bump_notification_seen_def bump_newest_where_def)
    qed
  qed
qed

lemma feed_step:
  assumes "feed_rel cap s l"
  shows "feed_rel cap (notify_step s c) (log_step cap l c)"
  using assms
proof (cases rule: log_step_cases [where c = c])
  case (repeat key old pre x post)
  have "length (pre @ x # post) = min cap (length l)" by (simp flip: repeat(2))
  then have "lastn cap (log_step cap l c) = pre @ seen_again (nc_now c) x # post"
    unfolding repeat(4) by (intro lastn_append_same) (simp add: repeat(5))
  with assms repeat(6) show ?thesis
    by (simp add: feed_rel_def notify_step_def notify_def)
next
  case new
  with assms show ?thesis
    using rb_push_lastn [of "ns_ring s" l "call_notification c"]
    by (simp add: feed_rel_def notify_step_def notify_def Let_def)
qed

interpretation feed: simulation "feed_rel cap" "\<lambda>_ _. True" notify_step "log_step cap"
  by unfold_locales (rule feed_step)

lemma feed_all_allowed: "feed.all_allowed cap l ops"
  by (induction ops arbitrary: l) auto

lemmas feed_run = feed.sim_run [OF _ feed_all_allowed]

lemma row_of_seen_again:
  "row_of (seen_again t n) = (row_of n)\<lparr>nr_count := un_count (seen_again t n), nr_last_seen_at := to_unix t\<rparr>"
  by (simp add: row_of_def seen_again_def)

lemma row_id [simp]: "nr_id (row_of n) = un_id n"
  by (simp add: row_of_def)

lemma table_update_row:
  assumes "l = pre @ x # post" and "distinct (map un_id l)"
  shows "table_update_seen (un_id x) (un_count (seen_again t x)) t (map row_of l) =
    Some (map row_of (pre @ seen_again t x # post))"
proof -
  have "un_id y \<noteq> un_id x" if "y \<in> set pre \<union> set post" for y
    using assms that by (auto simp: image_iff)
  then show ?thesis
    by (auto simp: assms(1) table_update_seen_def row_of_seen_again)
qed

lemma history_step:
  assumes rel: "history_rel cap s l" and c: "fresh_and_stored l c"
  shows "history_rel cap (notify_step s c) (log_step cap l c)"
proof -
  have feed: "feed_rel cap s l" and rows: "ns_history s = Some (map row_of l)" and ids: "distinct (map un_id l)"
    using rel by (auto simp: history_rel_def)
  note next_feed = feed_step [OF feed, of c]
  from feed show ?thesis
  proof (cases rule: log_step_cases [where c = c])
    case (repeat key old pre x post)
    have "l = (old @ pre) @ x # post" by (simp add: repeat(5))
    have "distinct (map un_id (old @ pre @ x # post))" using ids by (simp only: repeat(5))
    then have ids_next: "distinct (map un_id (log_step cap l c))" unfolding repeat(4) by simp
    from table_update_row [OF \<open>l = (old @ pre) @ x # post\<close> ids, of "nc_now c"] next_feed rows c
    have "history_rel cap (notify_step s c) (log_step cap l c) \<longleftrightarrow> distinct (map un_id (log_step cap l c))"
      unfolding repeat(4)
      by (simp add: history_rel_def notify_step_def notify_def repeat(6) store_write_def fresh_and_stored_def)
    with ids_next show ?thesis by simp
  next
    case new
    with next_feed rows ids c show ?thesis
      by (simp add: history_rel_def notify_step_def notify_def Let_def store_write_def table_append_def
          fresh_and_stored_def)
  qed
qed

interpretation history: simulation "history_rel cap" fresh_and_stored notify_step "log_step cap"
  by unfold_locales (rule history_step)

lemma log_step_ids: "un_id ` set (log_step cap l c) \<subseteq> insert (nc_fresh c) (un_id ` set l)"
proof -
  have "feed_rel cap \<lparr>ns_ring = \<lparr>rb_capacity = cap, rb_items = lastn cap l\<rparr>, ns_history = None, ns_sent = []\<rparr> l"
    by (simp add: feed_rel_def)
  then show ?thesis
  proof (cases rule: log_step_cases [where c = c])
    case (repeat key old pre x post)
    then show ?thesis by auto
  next
    case new
    then show ?thesis by auto
  qed
qed

lemma disjoint_insertE: "A \<subseteq> insert a B \<Longrightarrow> a \<notin> N \<Longrightarrow> B \<inter> N = {} \<Longrightarrow> A \<inter> N = {}"
  by blast

lemma history_all_allowed:
  assumes "distinct (map nc_fresh ops)" and "\<forall>c \<in> set ops. nc_stored c" and "un_id ` set l \<inter> nc_fresh ` set ops = {}"
  shows "history.all_allowed cap l ops"
  using assms
proof (induction ops arbitrary: l)
  case (Cons c ops)
  have "un_id ` set (log_step cap l c) \<inter> nc_fresh ` set ops = {}"
    by (rule disjoint_insertE [OF log_step_ids]) (use Cons.prems in auto)
  with Cons have "history.all_allowed cap (log_step cap l c) ops" by simp
  moreover have "fresh_and_stored l c" using Cons.prems by (auto simp: fresh_and_stored_def)
  ultimately show ?case by simp
qed simp

definition notify_state_new :: "nat \<Rightarrow> notify_state" where
  "notify_state_new cap = \<lparr>ns_ring = rb_new cap, ns_history = Some [], ns_sent = []\<rparr>"


definition told :: "uuid \<Rightarrow> instant \<Rightarrow> string option \<Rightarrow> notify_call" where
  "told i now key = \<lparr>nc_now = now, nc_severity = Warn, nc_message = ''late'', nc_asset_id = None, nc_event_id = None,
     nc_dedup_key = key, nc_fresh = i, nc_stored = True\<rparr>"


section \<open>A flapping condition is told once\<close>

definition keyed :: "string \<Rightarrow> user_notification \<Rightarrow> bool" where
  "keyed key n \<longleftrightarrow> un_dedup_key n = Some key"

definition calls_of :: "string \<Rightarrow> notify_call list \<Rightarrow> notify_call list" where
  "calls_of key ops = filter (\<lambda>c. nc_dedup_key c = Some key) ops"

definition collapsed :: "notify_call list \<Rightarrow> user_notification" where
  "collapsed cs = (call_notification (hd cs))\<lparr>un_count := length cs, un_last_seen_at := nc_now (last cs)\<rparr>"

definition told_once :: "string \<Rightarrow> notify_call list \<Rightarrow> user_notification list" where
  "told_once key ops = (if calls_of key ops = [] then [] else [collapsed (calls_of key ops)])"

definition repeats_within :: "string \<Rightarrow> notify_call list \<Rightarrow> bool" where
  "repeats_within key ops \<longleftrightarrow>
     successively (\<lambda>a b. nc_now b - nc_now a \<le> dedup_window) (calls_of key ops)"

lemma calls_of_snoc: "calls_of key (ops @ [c]) = calls_of key ops @ (if nc_dedup_key c = Some key then [c] else [])"
  by (simp add: calls_of_def)

lemma repeats_within_snoc:
  assumes "repeats_within key (ops @ [c])"
  shows "repeats_within key ops \<and>
    (nc_dedup_key c = Some key \<longrightarrow> calls_of key ops \<noteq> [] \<longrightarrow> nc_now c - nc_now (last (calls_of key ops)) \<le> dedup_window)"
  using assms by (auto simp: repeats_within_def calls_of_snoc successively_append_iff split: if_splits)

lemma told_once_again:
  assumes "calls_of key ops \<noteq> []" and "nc_dedup_key c = Some key"
  shows "told_once key (ops @ [c]) = [seen_again (nc_now c) (collapsed (calls_of key ops))]"
  using assms by (simp add: told_once_def calls_of_snoc collapsed_def seen_again_def)

lemma collapsed_sel [simp]:
  "un_last_seen_at (collapsed cs) = nc_now (last cs)" "un_dedup_key (collapsed cs) = nc_dedup_key (hd cs)"
  by (simp_all add: collapsed_def)

lemma calls_of_key: "c \<in> set (calls_of key ops) \<Longrightarrow> nc_dedup_key c = Some key"
  by (simp add: calls_of_def)

text \<open>
  What a burst has left in the log: the entries that were there before it hold no entry of the key, and the burst
  itself has left at most one.
\<close>

definition burst_log :: "string \<Rightarrow> nat \<Rightarrow> notify_call list \<Rightarrow> user_notification list \<Rightarrow> bool" where
  "burst_log key n ops l \<longleftrightarrow> n \<le> length l \<and> length l \<le> n + length ops \<and>
     Some key \<notin> set (take n (map un_dedup_key l)) \<and> filter (keyed key) l = told_once key ops"

lemma filter_singleton_mid:
  "filter P (as @ x # bs) = [y] \<Longrightarrow> P x \<Longrightarrow> x = y \<and> filter P as = [] \<and> filter P bs = []"
  by (cases "filter P as") auto

lemma burst_log_recent:
  assumes "burst_log key n ops l" and "length ops \<le> cap"
  shows "filter (keyed key) (lastn cap l) = filter (keyed key) l"
proof -
  have "length l - cap \<le> n" using assms by (auto simp: burst_log_def)
  then have "set (take (length l - cap) (map un_dedup_key l)) \<subseteq> set (take n (map un_dedup_key l))"
    by (rule set_take_subset_set_take)
  with assms have "Some key \<notin> un_dedup_key ` set (take (length l - cap) l)"
    by (auto simp: burst_log_def take_map)
  then have "filter (keyed key) (take (length l - cap) l) = []"
    by (auto simp: filter_empty_conv keyed_def image_iff)
  moreover have "filter (keyed key) l = filter (keyed key) (take (length l - cap) l) @ filter (keyed key) (lastn cap l)"
    by (simp flip: filter_append add: take_lastn)
  ultimately show ?thesis by simp
qed

lemma burst_log_step:
  assumes l: "burst_log key n ops l" and cap: "length (ops @ [c]) \<le> cap" and gaps: "repeats_within key (ops @ [c])"
    and rel: "feed_rel cap s l"
  shows "burst_log key n (ops @ [c]) (log_step cap l c)"
  using rel
proof (cases rule: log_step_cases [where c = c])
  case (repeat key' old pre x post)
  have len: "length (log_step cap l c) = length l" and keys: "map un_dedup_key (log_step cap l c) = map un_dedup_key l"
    unfolding repeat(4) by (simp_all add: repeat(5))
  have "filter (keyed key) (log_step cap l c) = told_once key (ops @ [c])"
  proof (cases "key' = key")
    case True
    have x: "keyed key x" using repeat(3) True by (simp add: seen_within_def keyed_def)
    have split: "filter (keyed key) ((old @ pre) @ x # post) = told_once key ops"
      using l by (simp add: burst_log_def repeat(5))
    with x have calls: "calls_of key ops \<noteq> []" by (auto simp: told_once_def)
    with split have "filter (keyed key) ((old @ pre) @ x # post) = [collapsed (calls_of key ops)]"
      by (simp add: told_once_def)
    from filter_singleton_mid [OF this x] x True repeat(1) calls show ?thesis
      unfolding repeat(4) by (simp add: told_once_again) (simp add: keyed_def)
  next
    case False
    then have "un_dedup_key x \<noteq> Some key" using repeat(3) by (simp add: seen_within_def)
    then have "filter (keyed key) (log_step cap l c) = filter (keyed key) l"
      unfolding repeat(4) by (simp add: repeat(5) keyed_def)
    moreover have "told_once key (ops @ [c]) = told_once key ops"
      using False repeat(1) by (simp add: told_once_def calls_of_snoc)
    ultimately show ?thesis using l by (simp add: burst_log_def)
  qed
  with l show ?thesis unfolding burst_log_def len keys by simp
next
  case new
  have fresh: "calls_of key ops = []" if "nc_dedup_key c = Some key"
  proof (rule ccontr)
    assume calls: "calls_of key ops \<noteq> []"
    have "filter (keyed key) (lastn cap l) = [collapsed (calls_of key ops)]"
      using burst_log_recent [OF l, of cap] cap l calls by (simp add: burst_log_def told_once_def)
    then have "collapsed (calls_of key ops) \<in> set (filter (keyed key) (lastn cap l))" by simp
    then have "collapsed (calls_of key ops) \<in> set (lastn cap l)" by simp
    with new(3) that have "\<not> seen_within key (nc_now c) dedup_window (collapsed (calls_of key ops))" by simp
    moreover have "un_dedup_key (collapsed (calls_of key ops)) = Some key"
      using calls_of_key [of "hd (calls_of key ops)" key ops] calls by simp
    ultimately show False
      using repeats_within_snoc [OF gaps] that calls by (simp add: seen_within_def)
  qed
  have "filter (keyed key) (log_step cap l c) = told_once key (ops @ [c])"
    using l fresh unfolding new(1)
    by (auto simp: burst_log_def told_once_def calls_of_snoc keyed_def collapsed_def call_notification_def notification_new_def)
  with l show ?thesis by (simp add: burst_log_def new(1))
qed

lemma burst_run:
  assumes "feed_rel cap s l" and "\<not> List.list_ex (keyed key) l" and "length ops \<le> cap" and "repeats_within key ops"
  shows "burst_log key (length l) ops (foldl (log_step cap) l ops)"
  using assms(3,4)
proof (induction ops rule: rev_induct)
  case Nil
  have "filter (keyed key) l = []" "Some key \<notin> un_dedup_key ` set l"
    using assms(2) by (auto simp: list_ex_iff keyed_def filter_empty_conv image_iff)
  then show ?case by (simp add: burst_log_def told_once_def calls_of_def)
next
  case (snoc c ops)
  have "burst_log key (length l) ops (foldl (log_step cap) l ops)"
    using snoc repeats_within_snoc by auto
  with burst_log_step [OF this snoc.prems feed_run [OF assms(1)]] show ?case by simp
qed

text \<open>
  A flapping condition is told once: in a burst of calls no longer than the feed, in which the calls of a key come
  within half an hour of each other, the feed ends with exactly one entry for the key, the first call's, carrying the
  number of the calls and the time of the last, whatever else is told in between.
\<close>

theorem repeats_collapse:
  assumes "length (rb_items (ns_ring s)) \<le> rb_capacity (ns_ring s)"
    and "\<not> List.list_ex (keyed key) (rb_items (ns_ring s))" and "length ops \<le> rb_capacity (ns_ring s)"
    and "calls_of key ops = c # cs" and "repeats_within key ops"
  shows "filter (keyed key) (rb_items (ns_ring (foldl notify_step s ops))) =
    [(call_notification c)\<lparr>un_count := length (c # cs), un_last_seen_at := nc_now (last (c # cs))\<rparr>]"
proof -
  let ?l = "rb_items (ns_ring s)" and ?cap = "rb_capacity (ns_ring s)"
  have rel: "feed_rel ?cap s ?l" by (simp add: feed_rel_def lastn_all assms(1))
  note burst = burst_run [OF rel assms(2,3,5)]
  have "rb_items (ns_ring (foldl notify_step s ops)) = lastn ?cap (foldl (log_step ?cap) ?l ops)"
    using feed_run [OF rel, of ops] by (simp add: feed_rel_def)
  with burst_log_recent [OF burst assms(3)] burst assms(4) show ?thesis
    by (simp add: burst_log_def told_once_def collapsed_def)
qed

lemma repeats_collapse_witness:
  defines "ops \<equiv> [told 1 0 (Some ''k''), told 2 (seconds 60) None, told 3 (seconds 1200) (Some ''k''), told 4 (seconds 2400) (Some ''k'')]"
  shows "map un_count (filter (keyed ''k'') (rb_items (ns_ring (foldl notify_step (notify_state_new 200) ops)))) = [3]"
proof -
  have "filter (keyed ''k'') (rb_items (ns_ring (foldl notify_step (notify_state_new 200) ops))) =
    [(call_notification (told 1 0 (Some ''k'')))\<lparr>un_count := 3, un_last_seen_at := seconds 2400\<rparr>]"
    by (subst repeats_collapse [of _ _ _ "told 1 0 (Some ''k'')" "[told 3 (seconds 1200) (Some ''k''), told 4 (seconds 2400) (Some ''k'')]"])
      (simp_all add: notify_state_new_def rb_new_def ops_def calls_of_def repeats_within_def told_def dedup_window_def seconds_def)
  then show ?thesis by simp
qed

section \<open>Edges, severities and refusals\<close>

fun outage_notices :: "bool \<Rightarrow> bool list \<Rightarrow> notification_severity list" where
  "outage_notices was_ok [] = []"
| "outage_notices was_ok (ok # polls) =
     (case outage_transition was_ok ok of None \<Rightarrow> [] | Some (sev, _) \<Rightarrow> [sev]) @ outage_notices ok polls"

text \<open>Whatever the polls answer, the notices of outage and of recovery take turns, beginning with what is new.\<close>

lemma outage_notices_alternate:
  "distinct_adj (outage_notices was_ok polls) \<and> set (outage_notices was_ok polls) \<subseteq> {Warn, Info} \<and>
   (outage_notices was_ok polls = [] \<or> hd (outage_notices was_ok polls) = (if was_ok then Warn else Info))"
proof (induction polls arbitrary: was_ok)
  case (Cons ok polls)
  show ?case
    using Cons.IH [of True] Cons.IH [of False]
    by (cases was_ok; cases ok; cases "outage_notices True polls"; cases "outage_notices False polls")
      (auto simp: outage_transition_def)
qed simp

lemma severity_roundtrip: "severity_from_str (severity_to_str s) = Some s"
  by (cases s) (simp_all add: severity_to_str_def severity_from_str_def)

text \<open>A row reads back as the notification, its instants at whole seconds.\<close>

lemma row_roundtrip:
  "of_row (row_of n) = Some (n\<lparr>un_created_at := seconds (to_unix (un_created_at n)),
     un_last_seen_at := seconds (to_unix (un_last_seen_at n))\<rparr>)"
  by (simp add: of_row_def row_of_def severity_roundtrip)

text \<open>One malformed object costs exactly itself.\<close>

lemma partition_valid_exact:
  "fo_items (partition_valid parse json_id vs) = List.map_filter (\<lambda>v. case parse v of Inr x \<Rightarrow> Some x | Inl _ \<Rightarrow> None) vs \<and>
   length (fo_rejected (partition_valid parse json_id vs)) = length (filter (\<lambda>v. isl (parse v)) vs)"
proof -
  have "fo_items (fold (\<lambda>v out. case parse v of
         Inr item \<Rightarrow> out\<lparr>fo_items := fo_items out @ [item]\<rparr>
       | Inl reason \<Rightarrow> out\<lparr>fo_rejected := fo_rejected out @ [\<lparr>rj_object_id = json_id v, rj_reason = reason\<rparr>]\<rparr>) vs out) =
      fo_items out @ List.map_filter (\<lambda>v. case parse v of Inr x \<Rightarrow> Some x | Inl _ \<Rightarrow> None) vs \<and>
    length (fo_rejected (fold (\<lambda>v out. case parse v of
         Inr item \<Rightarrow> out\<lparr>fo_items := fo_items out @ [item]\<rparr>
       | Inl reason \<Rightarrow> out\<lparr>fo_rejected := fo_rejected out @ [\<lparr>rj_object_id = json_id v, rj_reason = reason\<rparr>]\<rparr>) vs out)) =
      length (fo_rejected out) + length (filter (\<lambda>v. isl (parse v)) vs)" for out
    by (induction vs arbitrary: out) (auto simp: map_filter_Cons List.map_filter_simps split: sum.split)
  from this [of "\<lparr>fo_items = [], fo_rejected = []\<rparr>"] show ?thesis
    by (simp add: partition_valid_def)
qed

text \<open>
  A single asset's ring of capacity 0 never evicts, where the shared ring of capacity 0 holds nothing.
\<close>

lemma asset_history_zero_grows:
  assumes "ah_capacity h = 0"
  shows "length (ah_points (foldl (\<lambda>h p. ah_push p h) h (p # ps))) = (if ah_points h = [] then 1 else Suc (length (ah_points h))) + length ps"
proof -
  have "length (ah_points (foldl (\<lambda>h p. ah_push p h) h ps)) = length (ah_points h) + length ps"
    if "ah_capacity h = 0" and "ah_points h \<noteq> []" for h :: "'a asset_history"
    using that by (induction ps arbitrary: h) (simp_all add: ah_push_def)
  from this [of "ah_push p h"] assms show ?thesis by (simp add: ah_push_def)
qed

end
