(* ===== verification/Event_Poll.thy ===== *)
theory Event_Poll
  imports Report_Obligations Notifications Arbiter_Passes
begin

text \<open>
  One poll of the VTN's events: the windowed signals (\<open>VEN/src/controller/openadr_interface.rs\<close>), what changed since
  the last poll (\<open>VEN/src/tasks/poll_events/\<close>), how the changes are applied and announced
  (\<open>VEN/src/tasks/poll_signals.rs\<close>), the connection's state (\<open>VEN/src/state/connection.rs\<close>) and the backoff of a
  failed poll (\<open>VEN/src/tasks/backoff.rs\<close>). The VTN's answer, the random jitter and fresh ids are parameters; log
  lines, counters and the JSON copy of an event in its history row are left out.
\<close>

section \<open>Windowed signals\<close>

record simple_window =
  sw_level :: nat
  sw_start :: instant
  sw_end :: instant
  sw_event_id :: string

record unapplied_payload =
  up_payload_type :: string
  up_event_id :: string
  up_reason :: string

definition timed_payloads_of :: "string list \<Rightarrow> oadr_event \<times> timed list \<Rightarrow> (oadr_event \<times> timed \<times> payload) list" where
  "timed_payloads_of types = (\<lambda>(ev, its).
     concat (map (\<lambda>it. map (\<lambda>p. (ev, it, p)) (filter (\<lambda>p. value_type p \<in> set types) (iv_payloads (t_interval it)))) its))"

definition with_intervals :: "wire_env \<Rightarrow> oadr_event list \<Rightarrow> (oadr_event \<times> timed list) list option" where
  "with_intervals env events =
     those (map (\<lambda>ev. map_option (Pair ev) (timed_intervals env ev)) events)"

definition timed_payloads :: "wire_env \<Rightarrow> oadr_event list \<Rightarrow> string list \<Rightarrow> (oadr_event \<times> timed \<times> payload) list option" where
  "timed_payloads env events types =
     map_option (\<lambda>evs. concat (map (timed_payloads_of types) evs)) (with_intervals env events)"

definition payload_text :: "payload \<Rightarrow> string option" where
  "payload_text p = (case pl_values p of VString s # _ \<Rightarrow> Some s | _ \<Rightarrow> None)"

definition parse_alert_windows :: "wire_env \<Rightarrow> oadr_event list \<Rightarrow> alert_window list option" where
  "parse_alert_windows env events =
     map_option (map (\<lambda>(ev, it, p).
       \<lparr>aw_alert_type = value_type p, aw_start = t_start it, aw_end = t_end it, aw_event_id = ev_id ev,
        aw_message = hm_or '''' (payload_text p)\<rparr>))
       (timed_payloads env events [''ALERT_GRID_EMERGENCY'', ''ALERT_BLACK_START''])"

definition simple_window_of :: "payload_reader \<Rightarrow> oadr_event \<times> timed \<times> payload \<Rightarrow> simple_window option" where
  "simple_window_of reader = (\<lambda>(ev, it, p).
     (case payload_value reader ev p of
        Some v \<Rightarrow> if 1 \<le> v \<and> v \<le> 3
          then Some \<lparr>sw_level = nat \<lfloor>v\<rfloor>, sw_start = t_start it, sw_end = t_end it, sw_event_id = ev_id ev\<rparr> else None
      | None \<Rightarrow> None))"

definition parse_simple_windows :: "wire_env \<Rightarrow> oadr_event list \<Rightarrow> payload_reader \<Rightarrow> simple_window list option" where
  "parse_simple_windows env events reader =
     map_option (List.map_filter (simple_window_of reader)) (timed_payloads env events [''SIMPLE''])"

definition dispatch_window_of :: "payload_reader \<Rightarrow> oadr_event \<times> timed \<times> payload \<Rightarrow> dispatch_window option" where
  "dispatch_window_of reader = (\<lambda>(ev, it, p).
     map_option (\<lambda>kw. \<lparr>dw_setpoint_kw = kw, dw_start = t_start it, dw_end = t_end it, dw_event_id = ev_id ev\<rparr>)
       (payload_value reader ev p))"

definition parse_dispatch_windows :: "wire_env \<Rightarrow> oadr_event list \<Rightarrow> payload_reader \<Rightarrow> dispatch_window list option" where
  "parse_dispatch_windows env events reader =
     map_option (List.map_filter (dispatch_window_of reader)) (timed_payloads env events [''DISPATCH_SETPOINT''])"

definition not_applied_payloads :: "(string \<times> string) list" where
  "not_applied_payloads =
     [(''CHARGE_STATE_SETPOINT'', ''the driver decides when and how much a household EV charges (WIRE_PROFILE.md)'')]"

definition all_payloads :: "oadr_event \<Rightarrow> payload list" where
  "all_payloads ev = concat (map iv_payloads (event_intervals ev))"

definition parse_unapplied_payloads :: "oadr_event list \<Rightarrow> unapplied_payload list" where
  "parse_unapplied_payloads events =
     concat (map (\<lambda>ev. map (\<lambda>(ty, reason). \<lparr>up_payload_type = ty, up_event_id = ev_id ev, up_reason = reason\<rparr>)
       (filter (\<lambda>(ty, reason). \<exists>p \<in> set (all_payloads ev). value_type p = ty) not_applied_payloads)) events)"

record parsed_signals =
  pg_alerts :: "alert_window list"
  pg_simple :: "simple_window list"
  pg_dispatch :: "dispatch_window list"
  pg_unapplied :: "unapplied_payload list"

definition no_signals :: parsed_signals where
  "no_signals = \<lparr>pg_alerts = [], pg_simple = [], pg_dispatch = [], pg_unapplied = []\<rparr>"

definition parse_signals :: "wire_env \<Rightarrow> oadr_event list \<Rightarrow> payload_reader \<Rightarrow> parsed_signals option" where
  "parse_signals env events reader =
     Option.bind (parse_alert_windows env events) (\<lambda>alerts.
     Option.bind (parse_simple_windows env events reader) (\<lambda>simple.
     map_option (\<lambda>dispatch. \<lparr>pg_alerts = alerts, pg_simple = simple, pg_dispatch = dispatch,
         pg_unapplied = parse_unapplied_payloads events\<rparr>)
       (parse_dispatch_windows env events reader)))"

section \<open>What changed since the last poll\<close>

type_synonym known_events = "instant hmap"

definition known_from_events :: "oadr_event list \<Rightarrow> known_events" where
  "known_from_events events = fold (\<lambda>ev m. hm_put (ev_id ev) (ev_modified ev) m) events []"

definition is_new_event :: "known_events \<Rightarrow> oadr_event \<Rightarrow> bool" where
  "is_new_event known ev \<longleftrightarrow> hm_get known (ev_id ev) \<noteq> Some (ev_modified ev)"

definition known_ids :: "known_events \<Rightarrow> string list" where
  "known_ids known = map fst known"

record capacity_picture =
  cpi_in_force :: capacity_state
  cpi_schedule :: "capacity_snapshot list"

definition no_injection :: sim_inject where
  "no_injection = \<lparr>si_grid_import_limit_kw = None, si_grid_export_limit_kw = None, si_pv_generation_limit_kw = None,
     si_heater_emergency_curtail = None, si_heater_emergency_absorb = None\<rparr>"

definition picture_at :: "capacity_snapshot list \<Rightarrow> instant \<Rightarrow> capacity_picture" where
  "picture_at schedule now =
     \<lparr>cpi_in_force = capacity_state_at schedule no_injection now None, cpi_schedule = schedule\<rparr>"

datatype controller_event =
    OpenAdrArrived (ce_ts: instant) (ce_event_id: string) (ce_modified: instant) (ce_event_name: string)
      (ce_signal_type: string) (ce_value: f64) (ce_interval: nat)
  | OpenAdrExpired instant string string
  | RateChange instant instant f64 f64
  | CapacityChange instant "f64 option" "f64 option"
  | DispatchOverride instant "f64 option" bool

datatype plan_trigger =
    TriggerPeriodic | TriggerRateChange | TriggerCapacityChange | TriggerAlert | TriggerUserRequest
  | TriggerAssetStateChange | TriggerResidualThreshold

record plan_trigger_signal =
  pt_trigger :: plan_trigger
  pt_event_ids :: "string list"

record event_received =
  er_received_at :: instant
  er_event_id :: string
  er_event_type :: string

record event_changes =
  ec_trace :: "controller_event list"
  ec_known :: known_events
  ec_rates :: "tariff_snapshot list"
  ec_capacity_schedule :: "capacity_snapshot list"
  ec_signals :: parsed_signals
  ec_records :: "event_received list"
  ec_audit :: wire_audit

definition plan_trigger_of :: "controller_event list \<Rightarrow> plan_trigger option" where
  "plan_trigger_of trace =
     (if trace = [] then None
      else if \<exists>e \<in> set trace. (case e of CapacityChange _ _ _ \<Rightarrow> True | _ \<Rightarrow> False) then Some TriggerCapacityChange
      else Some TriggerRateChange)"

definition events_this_ven_acts_on :: "wire_env \<Rightarrow> oadr_event list \<Rightarrow> string \<Rightarrow> oadr_event list option" where
  "events_this_ven_acts_on env events seed = those (map (\<lambda>ev. with_randomized_start env ev seed) events)"

definition arrival :: "payload_reader \<Rightarrow> instant \<Rightarrow> oadr_event \<Rightarrow> event_received \<times> controller_event" where
  "arrival reader now ev =
     (let ivs = event_intervals ev;
          (sig, val, n) = (case ivs of
             iv # _ \<Rightarrow> (case iv_payloads iv of
                 p # _ \<Rightarrow> (value_type p, hm_or 0 (payload_value reader ev p), length ivs)
               | [] \<Rightarrow> (''UNKNOWN'', 0, 0))
           | [] \<Rightarrow> (''UNKNOWN'', 0, 0))
      in (\<lparr>er_received_at = now, er_event_id = ev_id ev, er_event_type = sig\<rparr>,
          OpenAdrArrived now (ev_id ev) (ev_modified ev) (hm_or (ev_id ev) (ev_name ev)) sig val n))"

definition rate_change :: "instant \<Rightarrow> tariff_snapshot list \<Rightarrow> nat \<Rightarrow> controller_event list" where
  "rate_change now rates prev_count =
     (case rates of
        [] \<Rightarrow> []
      | first # _ \<Rightarrow> if length rates \<noteq> prev_count
          then [RateChange now (tf_start first) (hm_or 0 (tf_import first)) (hm_or 0 (tf_export first))] else [])"

definition capacity_change :: "instant \<Rightarrow> capacity_picture \<Rightarrow> capacity_picture \<Rightarrow> controller_event list" where
  "capacity_change now prev cur =
     (if cur \<noteq> prev
      then [CapacityChange now (cp_import_limit_kw (cpi_in_force cur)) (cp_export_limit_kw (cpi_in_force cur))] else [])"

definition detect_event_changes ::
  "wire_env \<Rightarrow> oadr_event list \<Rightarrow> payload_reader \<Rightarrow> known_events \<Rightarrow> nat \<Rightarrow> capacity_picture \<Rightarrow> instant \<Rightarrow> event_changes option" where
  "detect_event_changes env events reader prev_known prev_count prev_capacity now =
     Option.bind (parse_rate_snapshots env events reader) (\<lambda>rates.
     Option.bind (parse_capacity_schedule env events reader) (\<lambda>schedule.
     Option.bind (parse_signals env events reader) (\<lambda>signals.
       (let arrivals = map (arrival reader now) (filter (is_new_event prev_known) events);
            known = known_from_events events;
            expired = map (\<lambda>i. OpenAdrExpired now i i) (filter (\<lambda>i. i \<notin> set (known_ids known)) (known_ids prev_known))
        in Some \<lparr>ec_trace = map snd arrivals @ expired @ rate_change now rates prev_count
                   @ capacity_change now prev_capacity (picture_at schedule now),
                 ec_known = known, ec_rates = rates, ec_capacity_schedule = schedule, ec_signals = signals,
                 ec_records = map fst arrivals, ec_audit = audit reader events\<rparr>))))"

section \<open>Applying and announcing the changes\<close>

record vtn_connection =
  vc_connected :: bool
  vc_last_success :: "instant option"
  vc_last_error :: "string option"
  vc_backoff_s :: f64

definition vtn_connection_default :: vtn_connection where
  "vtn_connection_default = \<lparr>vc_connected = True, vc_last_success = None, vc_last_error = None, vc_backoff_s = 0\<rparr>"

definition comms_lost_for :: "vtn_connection \<Rightarrow> instant \<Rightarrow> nat \<Rightarrow> bool" where
  "comms_lost_for c now debounce_s =
     (\<not> vc_connected c \<and> (case vc_last_success c of
        Some t \<Rightarrow> u64_as_i64 debounce_s \<le> num_seconds (now - t)
      | None \<Rightarrow> False))"

definition record_vtn_poll_success :: "instant \<Rightarrow> vtn_connection \<Rightarrow> vtn_connection" where
  "record_vtn_poll_success now c =
     c\<lparr>vc_connected := True, vc_last_success := Some now, vc_last_error := None, vc_backoff_s := 0\<rparr>"

definition record_vtn_poll_failure :: "string \<Rightarrow> f64 \<Rightarrow> vtn_connection \<Rightarrow> vtn_connection" where
  "record_vtn_poll_failure error backoff_s c =
     c\<lparr>vc_connected := False, vc_last_error := Some error, vc_backoff_s := backoff_s\<rparr>"

text \<open>The interval of the next attempt; the jitter is a fraction in \<open>[-0.1, 0.1]\<close>.\<close>

record backoff =
  bo_base_s :: nat
  bo_max_s :: nat
  bo_current_s :: nat

definition backoff_new :: "nat \<Rightarrow> nat \<Rightarrow> backoff" where
  "backoff_new base maximum = \<lparr>bo_base_s = base, bo_max_s = maximum, bo_current_s = base\<rparr>"

definition on_success :: "backoff \<Rightarrow> backoff" where
  "on_success b = b\<lparr>bo_current_s := bo_base_s b\<rparr>"

definition on_failure :: "f64 \<Rightarrow> backoff \<Rightarrow> f64 \<times> backoff" where
  "on_failure jitter b =
     (max 0 (real (bo_current_s b) * (1 + jitter)),
      b\<lparr>bo_current_s := min (saturating_mul (bo_current_s b) 2) (bo_max_s b)\<rparr>)"

record poll_app =
  pa_tariffs :: "tariff_snapshot list"
  pa_capacity_limits :: "capacity_snapshot list"
  pa_capacity_updated_at :: "instant option"
  pa_alert_windows :: "alert_window list"
  pa_simple_windows :: "simple_window list"
  pa_dispatch_windows :: "dispatch_window list"
  pa_obligations :: "report_obligation list"
  pa_events :: "oadr_event list"
  pa_trace :: "controller_event list"
  pa_received :: "event_received list"
  pa_event_log :: "(instant \<times> string \<times> string) ring_buffer"
  pa_connection :: vtn_connection
  pa_health :: wire_health
  pa_notify :: notify_state
  pa_triggers :: "plan_trigger_signal list"

record poll_loop =
  pl_known :: known_events
  pl_tariff_count :: nat
  pl_capacity :: capacity_picture
  pl_signals :: parsed_signals
  pl_staggered :: "string list"
  pl_vtn_ok :: bool
  pl_backoff :: backoff

definition poll_loop_start :: "nat \<Rightarrow> poll_loop" where
  "poll_loop_start secs =
     \<lparr>pl_known = [], pl_tariff_count = 0,
      pl_capacity = \<lparr>cpi_in_force = \<lparr>cp_import_limit_kw = None, cp_export_limit_kw = None, cp_import_subscription_kw = None,
        cp_import_reservation_kw = None, cp_export_subscription_kw = None, cp_export_reservation_kw = None,
        cp_import_limit_event_id = None, cp_export_limit_event_id = None, cp_last_updated = None\<rparr>, cpi_schedule = []\<rparr>,
      pl_signals = no_signals, pl_staggered = [], pl_vtn_ok = True,
      pl_backoff = backoff_new secs (min (saturating_mul secs 30) 900)\<rparr>"

text \<open>What the environment supplies: fresh ids by number of the notification, and whether the store answers.\<close>

record poll_env =
  pe_wire :: wire_env
  pe_fresh :: "nat \<Rightarrow> uuid"
  pe_stored :: bool
  pe_obligation_ids :: "nat \<Rightarrow> uuid"
  pe_render :: "refusal \<Rightarrow> string"

definition announce_event ::
  "poll_env \<Rightarrow> instant \<Rightarrow> notification_severity \<Rightarrow> string \<Rightarrow> string \<Rightarrow> string option \<Rightarrow> notify_state \<Rightarrow> notify_state" where
  "announce_event pe now sev msg event_id key s =
     notify_step s \<lparr>nc_now = now, nc_severity = sev, nc_message = msg, nc_asset_id = None, nc_event_id = Some event_id,
       nc_dedup_key = key, nc_fresh = pe_fresh pe (length (ns_sent s)), nc_stored = pe_stored pe\<rparr>"

definition staggered_starts :: "oadr_event list \<Rightarrow> oadr_event list \<Rightarrow> (string \<times> span) list" where
  "staggered_starts declared acted_on =
     List.map_filter (\<lambda>(d, a). case (ev_period a, ev_period d) of
         (Some pa, Some pd) \<Rightarrow> if 0 < ip_start pa - ip_start pd then Some (ev_id d, ip_start pa - ip_start pd) else None
       | _ \<Rightarrow> None) (zip declared acted_on)"

definition shift_text :: "span \<Rightarrow> string" where
  "shift_text shift =
     ''randomizeStart: this VEN begins the event '' @ show_nat (nat (num_seconds shift)) @ '' s after its declared start''"

definition announce_staggered_starts ::
  "poll_env \<Rightarrow> oadr_event list \<Rightarrow> oadr_event list \<Rightarrow> instant \<Rightarrow> string list \<times> notify_state \<Rightarrow> string list \<times> notify_state" where
  "announce_staggered_starts pe declared acted_on now st =
     fold (\<lambda>(i, shift) (announced, s).
       if i \<in> set announced then (announced, s)
       else (i # announced, announce_event pe now Info (shift_text shift) i (Some (''randomize-start-'' @ i)) s))
       (staggered_starts declared acted_on) st"

definition alert_text :: "alert_window \<Rightarrow> string" where
  "alert_text w = ''Grid emergency ('' @ aw_alert_type w @ ''): '' @ aw_message w"

definition send_trigger :: "plan_trigger \<Rightarrow> string list \<Rightarrow> poll_app \<Rightarrow> poll_app" where
  "send_trigger t ids app = app\<lparr>pa_triggers := pa_triggers app @ [\<lparr>pt_trigger = t, pt_event_ids = ids\<rparr>]\<rparr>"

definition apply_alerts :: "poll_env \<Rightarrow> instant \<Rightarrow> alert_window list \<Rightarrow> alert_window list \<Rightarrow> poll_app \<Rightarrow> poll_app" where
  "apply_alerts pe now prev cur app =
     (if cur = prev then app
      else send_trigger TriggerAlert (map aw_event_id cur)
        (app\<lparr>pa_alert_windows := cur,
             pa_notify := fold (\<lambda>w. announce_event pe now Alert (alert_text w) (aw_event_id w) None)
               (filter (\<lambda>w. w \<notin> set prev) cur) (pa_notify app)\<rparr>))"

definition apply_simple :: "bool \<Rightarrow> simple_window list \<Rightarrow> simple_window list \<Rightarrow> poll_app \<Rightarrow> poll_app" where
  "apply_simple alerts_changed prev cur app =
     (if cur = prev then app
      else (if alerts_changed then id else send_trigger TriggerCapacityChange (map sw_event_id cur))
        (app\<lparr>pa_simple_windows := cur\<rparr>))"

definition apply_dispatch :: "instant \<Rightarrow> dispatch_window list \<Rightarrow> dispatch_window list \<Rightarrow> poll_app \<Rightarrow> poll_app" where
  "apply_dispatch now prev cur app =
     (if cur = prev then app
      else app\<lparr>pa_dispatch_windows := cur,
               pa_trace := pa_trace app @ [DispatchOverride now (case cur of [] \<Rightarrow> None | w # _ \<Rightarrow> Some (dw_setpoint_kw w)) (cur \<noteq> [])]\<rparr>)"

definition unapplied_text :: "unapplied_payload \<Rightarrow> string" where
  "unapplied_text u = up_payload_type u @ '' in this event is not applied: '' @ up_reason u"

definition announce_unapplied ::
  "poll_env \<Rightarrow> instant \<Rightarrow> unapplied_payload list \<Rightarrow> unapplied_payload list \<Rightarrow> poll_app \<Rightarrow> poll_app" where
  "announce_unapplied pe now prev cur app =
     app\<lparr>pa_notify := fold (\<lambda>u. announce_event pe now Info (unapplied_text u) (up_event_id u)
         (Some (''payload-not-applied-'' @ up_payload_type u @ ''-'' @ up_event_id u)))
       (filter (\<lambda>u. u \<notin> set prev) cur) (pa_notify app)\<rparr>"

definition apply_signal_changes ::
  "poll_env \<Rightarrow> instant \<Rightarrow> parsed_signals \<Rightarrow> parsed_signals \<Rightarrow> poll_app \<Rightarrow> bool \<times> poll_app" where
  "apply_signal_changes pe now prev cur app =
     (let alerts_changed = (pg_alerts cur \<noteq> pg_alerts prev);
          simple_changed = (pg_simple cur \<noteq> pg_simple prev);
          app = apply_alerts pe now (pg_alerts prev) (pg_alerts cur) app;
          app = apply_simple alerts_changed (pg_simple prev) (pg_simple cur) app;
          app = apply_dispatch now (pg_dispatch prev) (pg_dispatch cur) app;
          app = announce_unapplied pe now (pg_unapplied prev) (pg_unapplied cur) app
      in (alerts_changed \<or> simple_changed, app))"

definition trigger_causes :: "controller_event list \<Rightarrow> string list" where
  "trigger_causes trace =
     filter (\<lambda>i. i \<noteq> []) (List.map_filter (\<lambda>e. case e of
         OpenAdrArrived _ i _ _ _ _ _ \<Rightarrow> Some i | OpenAdrExpired _ i _ \<Rightarrow> Some i | _ \<Rightarrow> None) trace)"

section \<open>One poll\<close>

definition edge :: "poll_env \<Rightarrow> instant \<Rightarrow> bool \<Rightarrow> poll_loop \<times> poll_app \<Rightarrow> poll_loop \<times> poll_app" where
  "edge pe now ok = (\<lambda>(lp, app).
     (case notify_outage_edge (pe_fresh pe (length (ns_sent (pa_notify app)))) (pe_stored pe) now (pl_vtn_ok lp) ok (pa_notify app) of
        (vtn_ok, s) \<Rightarrow> (lp\<lparr>pl_vtn_ok := vtn_ok\<rparr>, app\<lparr>pa_notify := s\<rparr>)))"

definition on_health :: "(wire_health \<times> notify_state \<Rightarrow> wire_health \<times> notify_state) \<Rightarrow> poll_app \<Rightarrow> poll_app" where
  "on_health f app = (case f (pa_health app, pa_notify app) of (w, s) \<Rightarrow> app\<lparr>pa_health := w, pa_notify := s\<rparr>)"

definition fresh_for :: "poll_env \<Rightarrow> poll_app \<Rightarrow> uuid" where
  "fresh_for pe app = pe_fresh pe (length (ns_sent (pa_notify app)))"

definition apply_changes :: "poll_env \<Rightarrow> instant \<Rightarrow> event_changes \<Rightarrow> poll_loop \<times> poll_app \<Rightarrow> bool \<times> poll_loop \<times> poll_app" where
  "apply_changes pe now ch = (\<lambda>(lp, app).
     (let app = app\<lparr>pa_trace := pa_trace app @ ec_trace ch, pa_received := pa_received app @ ec_records ch, pa_tariffs := ec_rates ch,
                    pa_capacity_updated_at := (if ec_capacity_schedule ch = [] then None else Some now),
                    pa_capacity_limits := ec_capacity_schedule ch\<rparr>;
          (sent, app) = apply_signal_changes pe now (pl_signals lp) (ec_signals ch) app
      in (sent, lp\<lparr>pl_known := ec_known ch, pl_tariff_count := length (ec_rates ch),
                  pl_capacity := picture_at (ec_capacity_schedule ch) now, pl_signals := ec_signals ch\<rparr>, app)))"

definition poll_receive ::
  "poll_env \<Rightarrow> instant \<Rightarrow> string option \<Rightarrow> oadr_event fetch_outcome \<Rightarrow> poll_loop \<times> poll_app \<Rightarrow> poll_loop \<times> poll_app" where
  "poll_receive pe now scope_warning outcome st =
     (let (lp, app) = edge pe now True st;
          app = on_health (notify_wire_rejections (fresh_for pe app) (pe_stored pe) now ''events'' outcome) app
      in (lp, app\<lparr>pa_health := set_scope_warning scope_warning (pa_health app)\<rparr>))"

definition poll_stagger ::
  "poll_env \<Rightarrow> instant \<Rightarrow> oadr_event list \<Rightarrow> oadr_event list \<Rightarrow> poll_loop \<times> poll_app \<Rightarrow> poll_loop \<times> poll_app" where
  "poll_stagger pe now events acted_on = (\<lambda>(lp, app).
     (case announce_staggered_starts pe events acted_on now (pl_staggered lp, pa_notify app) of
        (announced, s) \<Rightarrow> (lp\<lparr>pl_staggered := announced\<rparr>, app\<lparr>pa_notify := s\<rparr>)))"

definition poll_audit :: "poll_env \<Rightarrow> instant \<Rightarrow> event_changes \<Rightarrow> poll_app \<Rightarrow> poll_app" where
  "poll_audit pe now ch app =
     on_health (notify_unit_audit (pe_render pe) (fresh_for pe app) (pe_stored pe) now (ec_audit ch)) app"

definition poll_finish ::
  "poll_env \<Rightarrow> instant \<Rightarrow> oadr_event list \<Rightarrow> event_changes \<Rightarrow> bool \<times> poll_loop \<times> poll_app \<Rightarrow> (poll_loop \<times> poll_app) option" where
  "poll_finish pe now events ch = (\<lambda>(sent, lp, app).
     map_option (\<lambda>obs.
       (let app = app\<lparr>pa_obligations := retire_obligations_not_in (known_ids (pl_known lp)) (add_obligations obs (pa_obligations app)),
                      pa_events := take 500 events\<rparr>;
            app = (case plan_trigger_of (ec_trace ch) of
                Some t \<Rightarrow> if sent then app else send_trigger t (trigger_causes (ec_trace ch)) app
              | None \<Rightarrow> app)
        in (lp\<lparr>pl_backoff := on_success (pl_backoff lp)\<rparr>,
            app\<lparr>pa_connection := record_vtn_poll_success now (pa_connection app)\<rparr>)))
       (extract_report_obligations (pe_wire pe) (pe_obligation_ids pe) events now (pa_obligations app)))"

definition poll_success ::
  "poll_env \<Rightarrow> instant \<Rightarrow> string \<Rightarrow> payload_reader \<Rightarrow> string option \<Rightarrow> oadr_event fetch_outcome \<Rightarrow> poll_loop \<times> poll_app \<Rightarrow> (poll_loop \<times> poll_app) option" where
  "poll_success pe now seed reader scope_warning outcome st =
     Option.bind (events_this_ven_acts_on (pe_wire pe) (fo_items outcome) seed) (\<lambda>acted_on.
       (case poll_stagger pe now (fo_items outcome) acted_on (poll_receive pe now scope_warning outcome st) of
          (lp, app) \<Rightarrow>
            Option.bind (detect_event_changes (pe_wire pe) acted_on reader (pl_known lp) (pl_tariff_count lp) (pl_capacity lp) now)
              (\<lambda>ch. poll_finish pe now (fo_items outcome) ch (apply_changes pe now ch (lp, poll_audit pe now ch app)))))"

definition poll_failure :: "poll_env \<Rightarrow> instant \<Rightarrow> string \<Rightarrow> f64 \<Rightarrow> poll_loop \<times> poll_app \<Rightarrow> f64 \<times> poll_loop \<times> poll_app" where
  "poll_failure pe now error jitter st =
     (let (lp, app) = edge pe now False st;
          (delay, b) = on_failure jitter (pl_backoff lp)
      in (delay, lp\<lparr>pl_backoff := b\<rparr>, app\<lparr>pa_connection := record_vtn_poll_failure error delay (pa_connection app),
          pa_event_log := rb_push (now, ''vtn_connection'', error) (pa_event_log app)\<rparr>))"

section \<open>What a poll triggers\<close>

lemma edge_keeps [simp]:
  "pa_triggers (snd (edge pe now ok (lp, app))) = pa_triggers app"
  "pl_known (fst (edge pe now ok (lp, app))) = pl_known lp"
  "pl_tariff_count (fst (edge pe now ok (lp, app))) = pl_tariff_count lp"
  "pl_capacity (fst (edge pe now ok (lp, app))) = pl_capacity lp"
  "pl_signals (fst (edge pe now ok (lp, app))) = pl_signals lp"
  by (simp_all add: edge_def split: prod.split)

lemma on_health_keeps [simp]: "pa_triggers (on_health f app) = pa_triggers app"
  by (simp add: on_health_def split: prod.split)

lemma apply_signal_triggers:
  "pa_triggers (snd (apply_signal_changes pe now prev cur app)) = pa_triggers app @
     (if pg_alerts cur \<noteq> pg_alerts prev then [\<lparr>pt_trigger = TriggerAlert, pt_event_ids = map aw_event_id (pg_alerts cur)\<rparr>]
      else if pg_simple cur \<noteq> pg_simple prev
        then [\<lparr>pt_trigger = TriggerCapacityChange, pt_event_ids = map sw_event_id (pg_simple cur)\<rparr>] else []) \<and>
   (fst (apply_signal_changes pe now prev cur app) \<longleftrightarrow>
      pg_alerts cur \<noteq> pg_alerts prev \<or> pg_simple cur \<noteq> pg_simple prev)"
  by (simp add: apply_signal_changes_def Let_def apply_alerts_def apply_simple_def apply_dispatch_def announce_unapplied_def
      send_trigger_def)

lemma apply_changes_triggers:
  assumes "apply_changes pe now ch (lp, app) = (sent, lp', app')"
  shows "pa_triggers app' = pa_triggers app @
      (if pg_alerts (pl_signals lp') \<noteq> pg_alerts (pl_signals lp)
         then [\<lparr>pt_trigger = TriggerAlert, pt_event_ids = map aw_event_id (pg_alerts (pl_signals lp'))\<rparr>]
       else if pg_simple (pl_signals lp') \<noteq> pg_simple (pl_signals lp)
         then [\<lparr>pt_trigger = TriggerCapacityChange, pt_event_ids = map sw_event_id (pg_simple (pl_signals lp'))\<rparr>] else [])"
    and "sent \<longleftrightarrow> pg_alerts (pl_signals lp') \<noteq> pg_alerts (pl_signals lp) \<or> pg_simple (pl_signals lp') \<noteq> pg_simple (pl_signals lp)"
    and "pl_known lp' = ec_known ch" and "pl_tariff_count lp' = length (ec_rates ch)"
    and "pl_capacity lp' = picture_at (ec_capacity_schedule ch) now" and "pl_signals lp' = ec_signals ch"
proof -
  define app0 where "app0 = app\<lparr>pa_trace := pa_trace app @ ec_trace ch, pa_received := pa_received app @ ec_records ch,
    pa_tariffs := ec_rates ch, pa_capacity_updated_at := (if ec_capacity_schedule ch = [] then None else Some now),
    pa_capacity_limits := ec_capacity_schedule ch\<rparr>"
  obtain b app1 where step: "apply_signal_changes pe now (pl_signals lp) (ec_signals ch) app0 = (b, app1)" by fastforce
  have "b = sent" "app1 = app'" and lp': "lp' = lp\<lparr>pl_known := ec_known ch, pl_tariff_count := length (ec_rates ch),
      pl_capacity := picture_at (ec_capacity_schedule ch) now, pl_signals := ec_signals ch\<rparr>"
    using assms step unfolding apply_changes_def app0_def [symmetric] by (simp_all add: app0_def [symmetric])
  with apply_signal_triggers [of pe now "pl_signals lp" "ec_signals ch" app0] step
  show "pa_triggers app' = pa_triggers app @
      (if pg_alerts (pl_signals lp') \<noteq> pg_alerts (pl_signals lp)
         then [\<lparr>pt_trigger = TriggerAlert, pt_event_ids = map aw_event_id (pg_alerts (pl_signals lp'))\<rparr>]
       else if pg_simple (pl_signals lp') \<noteq> pg_simple (pl_signals lp)
         then [\<lparr>pt_trigger = TriggerCapacityChange, pt_event_ids = map sw_event_id (pg_simple (pl_signals lp'))\<rparr>] else [])"
    and "sent \<longleftrightarrow> pg_alerts (pl_signals lp') \<noteq> pg_alerts (pl_signals lp) \<or> pg_simple (pl_signals lp') \<noteq> pg_simple (pl_signals lp)"
    by (simp_all add: app0_def)
  from lp' show "pl_known lp' = ec_known ch" "pl_tariff_count lp' = length (ec_rates ch)"
      "pl_capacity lp' = picture_at (ec_capacity_schedule ch) now" "pl_signals lp' = ec_signals ch"
    by simp_all
qed

lemma randomized_keeps:
  assumes "events_this_ven_acts_on env events seed = Some acted_on"
  shows "map ev_id acted_on = map ev_id events \<and> map ev_modified acted_on = map ev_modified events"
proof -
  have keep: "ev_id a = ev_id e \<and> ev_modified a = ev_modified e" if "with_randomized_start env e seed = Some a" for a e
    using that by (auto simp: with_randomized_start_def split: option.splits)
  have "those (map (\<lambda>ev. with_randomized_start env ev seed) es) = Some as \<Longrightarrow>
      map ev_id as = map ev_id es \<and> map ev_modified as = map ev_modified es" for es as
    by (induction es arbitrary: as) (auto split: option.splits dest: keep)
  with assms show ?thesis by (simp add: events_this_ven_acts_on_def)
qed

definition news :: "known_events \<Rightarrow> nat \<Rightarrow> oadr_event list \<Rightarrow> nat \<Rightarrow> bool" where
  "news known prev_count events rates \<longleftrightarrow>
     (\<exists>ev \<in> set events. is_new_event known ev) \<or> \<not> set (known_ids known) \<subseteq> ev_id ` set events \<or>
     (rates \<noteq> 0 \<and> rates \<noteq> prev_count)"

lemma arrival_is_arrived [simp]: "(case snd (arrival reader now ev) of CapacityChange _ _ _ \<Rightarrow> True | _ \<Rightarrow> False) = False"
  by (simp add: arrival_def Let_def split: prod.split)

lemma known_from_ids: "set (known_ids (known_from_events events)) = ev_id ` set events"
proof -
  have "fst ` set (fold (\<lambda>ev m. hm_put (ev_id ev) (ev_modified ev) m) es m) = ev_id ` set es \<union> fst ` set m" for es and m :: known_events
    by (induction es arbitrary: m) (simp_all add: hm_put_keys)
  from this [of events "[]"] show ?thesis by (simp add: known_ids_def known_from_events_def)
qed

lemma rate_change_cases: "rate_change now rates n = [] \<longleftrightarrow> length rates = 0 \<or> length rates = n"
  by (auto simp: rate_change_def split: list.split)

lemma rate_change_kind: "e \<in> set (rate_change now rates n) \<Longrightarrow> (case e of CapacityChange _ _ _ \<Rightarrow> True | _ \<Rightarrow> False) = False"
  by (auto simp: rate_change_def split: list.splits if_splits)

lemma detect_trigger:
  assumes "detect_event_changes env events reader prev_known prev_count prev_capacity now = Some ch"
  shows "plan_trigger_of (ec_trace ch) =
      (if picture_at (ec_capacity_schedule ch) now \<noteq> prev_capacity then Some TriggerCapacityChange
       else if news prev_known prev_count events (length (ec_rates ch)) then Some TriggerRateChange else None)"
proof -
  let ?arrivals = "map snd (map (arrival reader now) (filter (is_new_event prev_known) events))"
  let ?expired = "map (\<lambda>i. OpenAdrExpired now i i) (filter (\<lambda>i. i \<notin> set (known_ids (known_from_events events))) (known_ids prev_known))"
  let ?rates = "rate_change now (ec_rates ch) prev_count"
  let ?capacity = "capacity_change now prev_capacity (picture_at (ec_capacity_schedule ch) now)"
  have trace: "ec_trace ch = ?arrivals @ ?expired @ ?rates @ ?capacity"
    using assms by (auto simp: detect_event_changes_def Let_def split: Option.bind_splits)
  have "(\<exists>e \<in> set (ec_trace ch). (case e of CapacityChange _ _ _ \<Rightarrow> True | _ \<Rightarrow> False)) \<longleftrightarrow>
      picture_at (ec_capacity_schedule ch) now \<noteq> prev_capacity"
    unfolding trace by (auto simp: capacity_change_def dest: rate_change_kind)
  moreover have "ec_trace ch = [] \<longleftrightarrow>
      \<not> news prev_known prev_count events (length (ec_rates ch)) \<and> picture_at (ec_capacity_schedule ch) now = prev_capacity"
    unfolding trace by (auto simp: news_def rate_change_cases capacity_change_def filter_empty_conv known_from_ids)
  ultimately show ?thesis by (auto simp: plan_trigger_of_def)
qed

lemma poll_start_keeps:
  assumes "poll_stagger pe now events acted_on (poll_receive pe now scope outcome (lp, app)) = (lp1, app1)"
  shows "pl_known lp1 = pl_known lp \<and> pl_tariff_count lp1 = pl_tariff_count lp \<and> pl_capacity lp1 = pl_capacity lp \<and>
    pl_signals lp1 = pl_signals lp \<and> pa_triggers app1 = pa_triggers app"
proof -
  obtain lp0 app0 where e: "edge pe now True (lp, app) = (lp0, app0)" by fastforce
  note keeps = edge_keeps [of pe now True lp app, unfolded e fst_conv snd_conv]
  from assms show ?thesis
    by (auto simp: poll_stagger_def poll_receive_def e Let_def keeps split: prod.splits)
qed

lemma poll_finish_triggers:
  assumes "poll_finish pe now events ch (sent, lp, app) = Some (lp', app')"
  shows "lp' = lp\<lparr>pl_backoff := on_success (pl_backoff lp)\<rparr> \<and>
    pa_triggers app' = pa_triggers app @ (case plan_trigger_of (ec_trace ch) of
      Some t \<Rightarrow> if sent then [] else [\<lparr>pt_trigger = t, pt_event_ids = trigger_causes (ec_trace ch)\<rparr>] | None \<Rightarrow> [])"
proof (cases "extract_report_obligations (pe_wire pe) (pe_obligation_ids pe) events now (pa_obligations app)")
  case None
  with assms show ?thesis by (simp add: poll_finish_def)
next
  case (Some obs)
  show ?thesis
  proof (cases "plan_trigger_of (ec_trace ch)")
    case None
    with assms Some show ?thesis by (clarsimp simp: poll_finish_def Let_def)
  next
    case (Some t)
    with assms \<open>extract_report_obligations _ _ _ _ _ = Some obs\<close> show ?thesis
      by (cases sent) (clarsimp simp: poll_finish_def Let_def send_trigger_def)+
  qed
qed

lemma poll_success_parts:
  assumes "poll_success pe now seed reader scope outcome (lp, app) = Some (lp', app')"
  obtains acted_on ch lp1 app1 sent lp2 app2 where
      "events_this_ven_acts_on (pe_wire pe) (fo_items outcome) seed = Some acted_on"
    and "detect_event_changes (pe_wire pe) acted_on reader (pl_known lp) (pl_tariff_count lp) (pl_capacity lp) now = Some ch"
    and "pl_signals lp1 = pl_signals lp" and "pa_triggers app1 = pa_triggers app"
    and "apply_changes pe now ch (lp1, app1) = (sent, lp2, app2)"
    and "lp' = lp2\<lparr>pl_backoff := on_success (pl_backoff lp2)\<rparr>"
    and "pa_triggers app' = pa_triggers app2 @ (case plan_trigger_of (ec_trace ch) of
          Some t \<Rightarrow> if sent then [] else [\<lparr>pt_trigger = t, pt_event_ids = trigger_causes (ec_trace ch)\<rparr>] | None \<Rightarrow> [])"
proof -
  note that' = that
  obtain acted_on where acted: "events_this_ven_acts_on (pe_wire pe) (fo_items outcome) seed = Some acted_on"
    using assms by (auto simp: poll_success_def split: Option.bind_splits)
  obtain lp1 app0 where stag: "poll_stagger pe now (fo_items outcome) acted_on (poll_receive pe now scope outcome (lp, app)) = (lp1, app0)"
    by fastforce
  from poll_start_keeps [OF stag] have keeps: "pl_known lp1 = pl_known lp" "pl_tariff_count lp1 = pl_tariff_count lp"
      "pl_capacity lp1 = pl_capacity lp" "pl_signals lp1 = pl_signals lp" "pa_triggers app0 = pa_triggers app" by simp_all
  obtain ch where ch: "detect_event_changes (pe_wire pe) acted_on reader (pl_known lp) (pl_tariff_count lp) (pl_capacity lp) now = Some ch"
    using assms by (auto simp: poll_success_def acted stag keeps split: Option.bind_splits)
  obtain sent lp2 app2 where ap: "apply_changes pe now ch (lp1, poll_audit pe now ch app0) = (sent, lp2, app2)"
    by (metis prod_cases3)
  have "poll_finish pe now (fo_items outcome) ch (sent, lp2, app2) = Some (lp', app')"
    using assms by (simp add: poll_success_def acted stag keeps ch ap)
  from poll_finish_triggers [OF this] have fin: "lp' = lp2\<lparr>pl_backoff := on_success (pl_backoff lp2)\<rparr>"
    and trig: "pa_triggers app' = pa_triggers app2 @ (case plan_trigger_of (ec_trace ch) of
      Some t \<Rightarrow> if sent then [] else [\<lparr>pt_trigger = t, pt_event_ids = trigger_causes (ec_trace ch)\<rparr>] | None \<Rightarrow> [])"
    by blast+
  show thesis
    by (rule that' [OF acted ch keeps(4) _ ap fin trig]) (simp add: keeps poll_audit_def)
qed

lemma news_cong:
  assumes "map ev_id acted_on = map ev_id events" and "map ev_modified acted_on = map ev_modified events"
  shows "news known n acted_on k = news known n events k"
proof -
  have "map (\<lambda>ev. hm_get known (ev_id ev) \<noteq> Some (ev_modified ev)) acted_on =
      map (\<lambda>(i, m). hm_get known i \<noteq> Some m) (zip (map ev_id acted_on) (map ev_modified acted_on))" for acted_on :: "oadr_event list"
    by (simp add: zip_map_map zip_same_conv_map)
  from this [of acted_on] this [of events] assms
  have "map (is_new_event known) acted_on = map (is_new_event known) events" by (simp add: is_new_event_def [abs_def])
  then have "True \<in> set (map (is_new_event known) acted_on) \<longleftrightarrow> True \<in> set (map (is_new_event known) events)" by (rule arg_cong)
  then have "(\<exists>ev \<in> set acted_on. is_new_event known ev) \<longleftrightarrow> (\<exists>ev \<in> set events. is_new_event known ev)"
    by (auto simp: image_iff)
  moreover have "ev_id ` set acted_on = ev_id ` set events" using arg_cong [OF assms(1), of set] by simp
  ultimately show ?thesis by (simp add: news_def)
qed

text \<open>
  A poll asks the planner for at most one replan, and for the most urgent one: an alert that appeared, moved or
  ended asks before everything; then a change of a load-shed level or of the capacity in force; then any other news,
  an event that is new, edited or gone or a number of tariffs that differs; and a poll that brings nothing asks nothing.
\<close>

theorem poll_trigger_exact:
  assumes "poll_success pe now seed reader scope outcome (lp, app) = Some (lp', app')"
  shows "map pt_trigger (pa_triggers app') = map pt_trigger (pa_triggers app) @
    (if pg_alerts (pl_signals lp') \<noteq> pg_alerts (pl_signals lp) then [TriggerAlert]
     else if pg_simple (pl_signals lp') \<noteq> pg_simple (pl_signals lp) \<or> pl_capacity lp' \<noteq> pl_capacity lp then [TriggerCapacityChange]
     else if news (pl_known lp) (pl_tariff_count lp) (fo_items outcome) (pl_tariff_count lp') then [TriggerRateChange]
     else [])"
proof -
  from assms obtain acted_on ch lp1 app1 sent lp2 app2 where
      acted: "events_this_ven_acts_on (pe_wire pe) (fo_items outcome) seed = Some acted_on"
    and ch: "detect_event_changes (pe_wire pe) acted_on reader (pl_known lp) (pl_tariff_count lp) (pl_capacity lp) now = Some ch"
    and start: "pl_signals lp1 = pl_signals lp" "pa_triggers app1 = pa_triggers app"
    and ap: "apply_changes pe now ch (lp1, app1) = (sent, lp2, app2)"
    and lp': "lp' = lp2\<lparr>pl_backoff := on_success (pl_backoff lp2)\<rparr>"
    and trig: "pa_triggers app' = pa_triggers app2 @ (case plan_trigger_of (ec_trace ch) of
          Some t \<Rightarrow> if sent then [] else [\<lparr>pt_trigger = t, pt_event_ids = trigger_causes (ec_trace ch)\<rparr>] | None \<Rightarrow> [])"
    by (rule poll_success_parts)
  note changes = apply_changes_triggers [OF ap]
  have same: "pl_signals lp' = pl_signals lp2" "pl_capacity lp' = picture_at (ec_capacity_schedule ch) now"
      "pl_tariff_count lp' = length (ec_rates ch)"
    by (simp_all add: lp' changes)
  have "news (pl_known lp) (pl_tariff_count lp) acted_on n = news (pl_known lp) (pl_tariff_count lp) (fo_items outcome) n" for n
    using randomized_keeps [OF acted] by (intro news_cong) auto
  with detect_trigger [OF ch] show ?thesis
    unfolding trig changes(1) start same by (auto simp: changes(2) start same)
qed

definition storm_alert :: oadr_event where
  "storm_alert = sample_event None None [\<lparr>iv_period = None,
     iv_payloads = [\<lparr>value_type = ''ALERT_GRID_EMERGENCY'', pl_values = [VString ''storm'']\<rparr>]\<rparr>]"

definition sample_poll_env :: poll_env where
  "sample_poll_env = \<lparr>pe_wire = sample_env, pe_fresh = id, pe_stored = True, pe_obligation_ids = id, pe_render = (\<lambda>_. [])\<rparr>"

definition idle_app :: poll_app where
  "idle_app = \<lparr>pa_tariffs = [], pa_capacity_limits = [], pa_capacity_updated_at = None, pa_alert_windows = [],
     pa_simple_windows = [], pa_dispatch_windows = [], pa_obligations = [], pa_events = [], pa_trace = [], pa_received = [],
     pa_event_log = rb_new 200, pa_connection = vtn_connection_default, pa_health = \<lparr>wh_rejections = [], wh_assumptions = []\<rparr>,
     pa_notify = notify_state_new 200, pa_triggers = []\<rparr>"

lemma storm_timed:
  "timed_intervals sample_env storm_alert =
     Some [\<lparr>t_interval = hd (event_intervals storm_alert), t_start = min_utc sample_env, t_end = max_utc sample_env\<rparr>]"
  by (simp add: storm_alert_def timed_intervals_def event_window_end_def base_intervals_def
      event_intervals_def timed_of_def sample_event_def)

lemma storm_resolved:
  assumes "''ALERT_GRID_EMERGENCY'' \<notin> set wanted"
  shows "resolve sample_env [storm_alert] [] (Some wanted) = Some \<lparr>rs_segments = [], rs_refused = []\<rparr>"
proof -
  have "interval_candidate [] (Some wanted) 0 storm_alert
      \<lparr>t_interval = hd (event_intervals storm_alert), t_start = min_utc sample_env, t_end = max_utc sample_env\<rparr> = ([], [])"
    using assms by (simp add: interval_candidate_def storm_alert_def sample_event_def event_intervals_def)
  then show ?thesis
    by (simp add: resolve_def Let_def event_candidates_def storm_timed resolve_segments_def bounds_of_def)
qed

lemma storm_acted: "events_this_ven_acts_on sample_env [storm_alert] seed = Some [storm_alert]"
  by (simp add: events_this_ven_acts_on_def with_randomized_start_def storm_alert_def sample_event_def shift_interval_def)

lemma storm_signals:
  "\<exists>sg. parse_signals sample_env [storm_alert] [] = Some sg \<and> pg_alerts sg \<noteq> []"
  by (simp add: parse_signals_def parse_alert_windows_def parse_simple_windows_def parse_dispatch_windows_def timed_payloads_def
      with_intervals_def storm_timed timed_payloads_of_def)
    (simp add: storm_alert_def sample_event_def event_intervals_def)

lemma storm_obligations: "extract_report_obligations sample_env fresh [storm_alert] now obs = Some []"
  by (simp add: extract_report_obligations_def demanded_def event_descriptors_def storm_alert_def sample_event_def)

lemma poll_trigger_exact_witness:
  "\<exists>lp' app'. poll_success sample_poll_env 0 ''ven-1'' [] None \<lparr>fo_items = [storm_alert], fo_rejected = []\<rparr> (poll_loop_start 30, idle_app)
      = Some (lp', app') \<and> map pt_trigger (pa_triggers app') = [TriggerAlert]"
proof -
  let ?o = "\<lparr>fo_items = [storm_alert], fo_rejected = []\<rparr>"
  obtain sg where sg: "parse_signals sample_env [storm_alert] [] = Some sg" "pg_alerts sg \<noteq> []" using storm_signals by blast
  obtain lp1 app0 where stag: "poll_stagger sample_poll_env 0 [storm_alert] [storm_alert]
      (poll_receive sample_poll_env 0 None ?o (poll_loop_start 30, idle_app)) = (lp1, app0)"
    by fastforce
  obtain ch where ch: "detect_event_changes sample_env [storm_alert] [] (pl_known lp1) (pl_tariff_count lp1) (pl_capacity lp1) 0 = Some ch"
    and sig: "ec_signals ch = sg"
    by (simp add: detect_event_changes_def parse_rate_snapshots_def parse_capacity_schedule_def storm_resolved
        capacity_payload_types_def sg Let_def)
  obtain sent lp2 app2 where ap: "apply_changes sample_poll_env 0 ch (lp1, poll_audit sample_poll_env 0 ch app0) = (sent, lp2, app2)"
    by (metis prod_cases3)
  obtain lp' app' where fin: "poll_finish sample_poll_env 0 [storm_alert] ch (sent, lp2, app2) = Some (lp', app')"
    by (simp add: poll_finish_def sample_poll_env_def storm_obligations Let_def)
  have run: "poll_success sample_poll_env 0 ''ven-1'' [] None ?o (poll_loop_start 30, idle_app) = Some (lp', app')"
    using stag ap fin ch by (simp add: poll_success_def storm_acted sample_poll_env_def)
  have "pl_signals lp' = sg"
    using poll_finish_triggers [OF fin] apply_changes_triggers(6) [OF ap] sig by simp
  then have "pg_alerts (pl_signals lp') \<noteq> pg_alerts (pl_signals (poll_loop_start 30))"
    using sg(2) by (simp add: poll_loop_start_def no_signals_def)
  with poll_trigger_exact [OF run] run show ?thesis by (simp add: idle_app_def)
qed

end
