(* ===== verification/Request_Submission.thy ===== *)
theory Request_Submission
  imports Shiftable_Load Heater Comfort_Curve Capacity User_Requests
begin

text \<open>
  Submitting, cancelling and ending a user request: the request's parameters and how they become a request
  (\<open>VEN/src/controller/user_request.rs\<close>, \<open>entities/request_slice.rs\<close>), the builders of
  \<open>services/user_request.rs\<close>, the orchestration of \<open>services/request_submission.rs\<close>, the roster of
  \<open>simulator/mod.rs\<close> as \<open>simulator/handle.rs\<close> offers it, the plan-ahead of \<open>services/ev_usage_plan.rs\<close>, the
  cost accounting of \<open>controller/monitor.rs\<close> and the request half of \<open>tasks/sim_tick/publish.rs\<close>. Fresh ids are
  arguments.
\<close>

section \<open>Results\<close>

text \<open>\<open>?\<close> on a \<open>Result\<close>, \<open>map_err\<close> and \<open>ok_or\<close>.\<close>

definition and_then :: "'e + 'a \<Rightarrow> ('a \<Rightarrow> 'e + 'b) \<Rightarrow> 'e + 'b" where
  "and_then r f = (case r of Inl e \<Rightarrow> Inl e | Inr x \<Rightarrow> f x)"

definition map_err :: "('e \<Rightarrow> 'f) \<Rightarrow> 'e + 'a \<Rightarrow> 'f + 'a" where
  "map_err f r = (case r of Inl e \<Rightarrow> Inl (f e) | Inr x \<Rightarrow> Inr x)"

definition ok_or :: "'e \<Rightarrow> 'a option \<Rightarrow> 'e + 'a" where
  "ok_or e x = (case x of None \<Rightarrow> Inl e | Some y \<Rightarrow> Inr y)"

lemma and_then_simps [simp]: "and_then (Inl e) f = Inl e" "and_then (Inr x) f = f x"
  by (simp_all add: and_then_def)

lemma and_then_Inr_iff: "and_then r f = Inr y \<longleftrightarrow> (\<exists>x. r = Inr x \<and> f x = Inr y)"
  by (cases r) auto

lemma map_err_Inr_iff [simp]: "map_err f r = Inr x \<longleftrightarrow> r = Inr x"
  by (cases r) (auto simp: map_err_def)

lemma map_err_Inl_iff: "map_err f r = Inl e \<longleftrightarrow> (\<exists>d. r = Inl d \<and> e = f d)"
  by (cases r) (auto simp: map_err_def)

lemma ok_or_Inr_iff [simp]: "ok_or e x = Inr y \<longleftrightarrow> x = Some y"
  by (cases x) (auto simp: ok_or_def)

lemma ok_or_Inl_iff: "ok_or e x = Inl d \<longleftrightarrow> x = None \<and> d = e"
  by (cases x) (auto simp: ok_or_def)

section \<open>Parameters and errors\<close>

record deadline_params =
  dp_latest_end :: instant
  dp_max_total_cost_eur :: "f64 option"
  dp_max_marginal_rate :: "f64 option"
  dp_min_completion :: "f64 option"

record comfort_params =
  cp_fill :: f64
  cp_bid :: f64
  cp_co2 :: "f64 option"

record request_params =
  rp_asset_id :: string
  rp_target_soc_frac :: "f64 option"
  rp_target_energy_kwh :: "f64 option"
  rp_desired_power_kw :: "f64 option"
  rp_deadlines :: "deadline_params list"
  rp_completion_policy :: "string option"
  rp_comfort_rates :: "comfort_params list option"
  rp_budget_eur :: "f64 option"
  rp_interruptible :: "bool option"
  rp_tolerance_min :: "int option"
  rp_power_kw :: "f64 option"
  rp_duration_min :: "nat option"
  rp_earliest_start :: "instant option"
  rp_trip_distance_km :: "f64 option"
  rp_return_time :: "instant option"
  rp_latest_end :: "instant option"
  rp_soft_deadline :: "bool option"
  rp_target_temp_c :: "f64 option"
  rp_mode :: "user_request_mode option"
  rp_replace_session_ids :: "uuid list option"

record clashing_session =
  cs_id :: uuid
  cs_window_start :: instant
  cs_departure_time :: instant
  cs_target_soc_frac :: f64

definition clashing_of :: "ev_session \<Rightarrow> clashing_session" where
  "clashing_of s = \<lparr>cs_id = es_id s, cs_window_start = es_window_start s,
     cs_departure_time = es_departure_time s, cs_target_soc_frac = es_target_soc_frac s\<rparr>"

datatype request_error =
    UnknownAsset string
  | NoDeadlines
  | MissingTarget string
  | ZeroEnergy
  | NoPowerRating string
  | EmptyChargingWindow instant instant
  | EvSessionsConflict "clashing_session list"
  | IncompleteTripEstimate bool
  | EvReplaceRejected replace_rejection "clashing_session list"

datatype submit_error =
    SubmitInvalid string
  | SubmitDuplicate string
  | SubmitRequest request_error
  | UnrecognisedAsset

section \<open>What a request is resolved against\<close>

datatype completion_policy = PolicyContinue | PolicyStop

datatype request_kind = ChargeSession | TemperatureTarget

record thermal_defaults =
  td_temperature_c :: f64
  td_temp_min_c :: f64
  td_thermal_mass_kwh_per_c :: f64
  td_rated_kw :: f64

record request_slice =
  sx_id :: string
  sx_current_soc :: "f64 option"
  sx_default_soc_target :: "f64 option"
  sx_capacity_kwh :: "f64 option"
  sx_max_charge_kw :: "f64 option"
  sx_completion_policy :: completion_policy
  sx_comfort_rates :: "comfort_rate list"
  sx_default_target_temp_c :: "f64 option"
  sx_thermal :: "thermal_defaults option"
  sx_request_kind :: "request_kind option"

definition or_else :: "'a option \<Rightarrow> 'a option \<Rightarrow> 'a option" where
  "or_else a b = (case a of None \<Rightarrow> b | Some x \<Rightarrow> Some x)"

definition energy_to_reach_kwh :: "thermal_defaults \<Rightarrow> f64 \<Rightarrow> f64" where
  "energy_to_reach_kwh t target =
     (let stored = (\<lambda>c. heater_energy_above_min_kwh c (td_temp_min_c t) (td_thermal_mass_kwh_per_c t))
      in max (stored target - stored (td_temperature_c t)) 0)"

definition slice_target_temp_c :: "request_slice \<Rightarrow> f64 option \<Rightarrow> f64 option" where
  "slice_target_temp_c s requested = or_else requested (sx_default_target_temp_c s)"

definition slice_rated_power_kw :: "request_slice \<Rightarrow> f64 option" where
  "slice_rated_power_kw s = or_else (sx_max_charge_kw s) (map_option td_rated_kw (sx_thermal s))"

definition slice_target_soc_frac :: "request_slice \<Rightarrow> f64 option \<Rightarrow> f64 option" where
  "slice_target_soc_frac s requested = or_else requested (sx_default_soc_target s)"

definition slice_energy_to_target_kwh :: "request_slice \<Rightarrow> f64 option \<Rightarrow> f64 option \<Rightarrow> f64 option" where
  "slice_energy_to_target_kwh s target_soc target_temp =
     (case (sx_current_soc s, sx_capacity_kwh s) of
        (Some current, Some capacity) \<Rightarrow>
          map_option (\<lambda>target. max (target - current) 0 * capacity) (slice_target_soc_frac s target_soc)
      | _ \<Rightarrow> Option.bind (sx_thermal s) (\<lambda>thermal.
          map_option (energy_to_reach_kwh thermal) (slice_target_temp_c s target_temp)))"

definition effective_slices :: "comfort_rate list hmap \<Rightarrow> request_slice list \<Rightarrow> request_slice list" where
  "effective_slices overrides slices =
     map (\<lambda>s. s\<lparr>sx_comfort_rates := effective_comfort_rates overrides (sx_id s) (sx_comfort_rates s)\<rparr>) slices"

section \<open>Building a request\<close>

definition energy_and_power :: "request_params \<Rightarrow> request_slice \<Rightarrow> request_error + f64 \<times> f64" where
  "energy_and_power body slc =
     and_then
       (case rp_target_energy_kwh body of
          Some kwh \<Rightarrow> Inr kwh
        | None \<Rightarrow> ok_or (MissingTarget (rp_asset_id body))
            (slice_energy_to_target_kwh slc (rp_target_soc_frac body) (rp_target_temp_c body)))
       (\<lambda>kwh. if kwh < 1 / 10 ^ 6 then Inl ZeroEnergy
          else and_then (ok_or (NoPowerRating (rp_asset_id body))
                 (or_else (rp_desired_power_kw body) (slice_rated_power_kw slc)))
               (\<lambda>kw. Inr (kwh, kw)))"

definition policy_string :: "completion_policy \<Rightarrow> string" where
  "policy_string p = (case p of PolicyContinue \<Rightarrow> ''CONTINUE'' | PolicyStop \<Rightarrow> ''STOP'')"

definition rates_of :: "request_params \<Rightarrow> request_slice \<Rightarrow> comfort_rate list" where
  "rates_of body slc =
     (case rp_comfort_rates body of
        None \<Rightarrow> sx_comfort_rates slc
      | Some rates \<Rightarrow> map (\<lambda>r. \<lparr>cr_fill = cp_fill r, cr_max_marginal_price = cp_bid r,
          cr_max_marginal_co2 = hm_or 0 (cp_co2 r)\<rparr>) rates)"

definition deadline_of :: "deadline_params \<Rightarrow> request_deadline" where
  "deadline_of d = \<lparr>rqd_latest_end = dp_latest_end d, rqd_max_total_cost_eur = dp_max_total_cost_eur d,
     rqd_max_marginal_rate = dp_max_marginal_rate d, rqd_min_completion = hm_or (8 / 10) (dp_min_completion d)\<rparr>"

definition deadlines_of :: "request_params \<Rightarrow> request_deadline list" where
  "deadlines_of body =
     (case (rp_budget_eur body, map deadline_of (rp_deadlines body)) of
        (Some budget, first # rest) \<Rightarrow>
          (if rqd_max_total_cost_eur first = None then first\<lparr>rqd_max_total_cost_eur := Some budget\<rparr> else first) # rest
      | (_, ds) \<Rightarrow> ds)"

definition create_from_body ::
  "uuid \<Rightarrow> request_params \<Rightarrow> request_slice list \<Rightarrow> instant \<Rightarrow> request_error + user_request" where
  "create_from_body rid body slices now =
     (if rp_deadlines body = [] then Inl NoDeadlines
      else and_then (ok_or (UnknownAsset (rp_asset_id body)) (List.find (\<lambda>s. sx_id s = rp_asset_id body) slices))
        (\<lambda>slc. and_then (energy_and_power body slc)
          (\<lambda>(kwh, kw). Inr
            \<lparr>ur_id = rid, ur_asset_id = rp_asset_id body,
             ur_target_soc_frac = slice_target_soc_frac slc (rp_target_soc_frac body),
             ur_target_energy_kwh = kwh, ur_desired_power_kw = kw, ur_deadlines = deadlines_of body,
             ur_mode = hm_or ByDeadline (rp_mode body),
             ur_completion_policy = hm_or (policy_string (sx_completion_policy slc)) (rp_completion_policy body),
             ur_max_total_cost_eur = rqd_max_total_cost_eur (hd (deadlines_of body)),
             ur_tier_count = length (deadlines_of body), ur_session_id = None, ur_session_type = None,
             ur_comfort_rates = rates_of body slc, ur_status = Active, ur_estimated_cost_eur = 0,
             ur_estimated_co2_g = 0, ur_accumulated_cost_eur = 0,
             ur_interruptible = hm_or False (rp_interruptible body), ur_tolerance_min = rp_tolerance_min body,
             ur_budget_eur = rp_budget_eur body, ur_created_at = now, ur_updated_at = now\<rparr>)))"

definition trip_estimate :: "request_params \<Rightarrow> request_error + f64 option \<times> instant option" where
  "trip_estimate body =
     (case (rp_trip_distance_km body, rp_return_time body) of
        (Some km, Some t) \<Rightarrow> Inr (Some km, Some t)
      | (None, None) \<Rightarrow> Inr (None, None)
      | (km, _) \<Rightarrow> Inl (IncompleteTripEstimate (km \<noteq> None)))"

definition first_deadline :: "user_request \<Rightarrow> request_error + instant" where
  "first_deadline req =
     (case ur_deadlines req of [] \<Rightarrow> Inl NoDeadlines | d # _ \<Rightarrow> Inr (rqd_latest_end d))"

definition create_ev ::
  "uuid \<Rightarrow> uuid \<Rightarrow> request_params \<Rightarrow> request_slice list \<Rightarrow> instant \<Rightarrow> request_error + user_request \<times> ev_session" where
  "create_ev rid sid body slices now =
     and_then (trip_estimate body) (\<lambda>(km, return_time).
     and_then (create_from_body rid body slices now) (\<lambda>req.
     and_then (first_deadline req) (\<lambda>departure.
     and_then (ok_or (MissingTarget (ur_asset_id req)) (ur_target_soc_frac req)) (\<lambda>target.
       let start = hm_or now (rp_earliest_start body) in
       if departure \<le> start then Inl (EmptyChargingWindow start departure)
       else Inr (req\<lparr>ur_session_id := Some sid, ur_session_type := Some EvType\<rparr>,
         \<lparr>es_id = sid, es_asset_id = ur_asset_id req, es_target_soc_frac = target, es_window_start = start,
          es_departure_time = departure, es_trip_distance_km = km, es_return_time = return_time,
          es_soft_deadline = hm_or False (rp_soft_deadline body), es_origin = UserRequestOrigin,
          es_mode = ur_mode req, es_budget_eur = ur_budget_eur req, es_comfort_rates = ur_comfort_rates req,
          es_created_at = now, es_updated_at = now\<rparr>)))))"

definition create_heater ::
  "uuid \<Rightarrow> uuid \<Rightarrow> request_params \<Rightarrow> request_slice list \<Rightarrow> instant \<Rightarrow> request_error + user_request \<times> heater_target" where
  "create_heater rid sid body slices now =
     and_then (create_from_body rid body slices now) (\<lambda>req.
     and_then (ok_or (MissingTarget (ur_asset_id req))
        (Option.bind (List.find (\<lambda>s. sx_id s = ur_asset_id req) slices)
           (\<lambda>s. slice_target_temp_c s (rp_target_temp_c body)))) (\<lambda>target_c.
     and_then (first_deadline req) (\<lambda>ready_by.
       Inr (req\<lparr>ur_session_id := Some sid, ur_session_type := Some HeaterType\<rparr>,
         \<lparr>ht_id = sid, ht_asset_id = ur_asset_id req, ht_target_temp_c = target_c, ht_ready_by = ready_by,
          ht_mode = ur_mode req, ht_comfort_rates = ur_comfort_rates req, ht_created_at = now,
          ht_updated_at = now\<rparr>))))"

definition create_shiftable ::
  "uuid \<Rightarrow> uuid \<Rightarrow> request_params \<Rightarrow> instant \<Rightarrow> string + user_request \<times> shiftable_request" where
  "create_shiftable rid sid body now =
     and_then (ok_or ''power_kw required for shiftable load'' (rp_power_kw body)) (\<lambda>power.
     and_then (ok_or ''duration_min required for shiftable load'' (rp_duration_min body)) (\<lambda>duration.
     and_then (ok_or ''latest_end required for shiftable load'' (rp_latest_end body)) (\<lambda>latest.
       let earliest = hm_or now (rp_earliest_start body) in
       if latest - earliest < minutes_span duration
       then Inl ''the [earliest_start, latest_end] window is too short for duration_min''
       else Inr
         (\<lparr>ur_id = rid, ur_asset_id = rp_asset_id body, ur_target_soc_frac = None,
           ur_target_energy_kwh = energy_kwh_from_min power (of_nat duration), ur_desired_power_kw = power,
           ur_deadlines = [], ur_mode = hm_or ByDeadline (rp_mode body), ur_completion_policy = ''STOP'',
           ur_max_total_cost_eur = None, ur_tier_count = 0, ur_session_id = Some sid,
           ur_session_type = Some ShiftableLoadType, ur_comfort_rates = [], ur_status = Active,
           ur_estimated_cost_eur = 0, ur_estimated_co2_g = 0, ur_accumulated_cost_eur = 0,
           ur_interruptible = hm_or False (rp_interruptible body), ur_tolerance_min = rp_tolerance_min body,
           ur_budget_eur = rp_budget_eur body, ur_created_at = now, ur_updated_at = now\<rparr>,
          \<lparr>sr_id = sid, sr_asset_id = rp_asset_id body, sr_power_kw = power, sr_duration_min = duration,
           sr_earliest_start = earliest, sr_latest_end = latest, sr_mode = hm_or ByDeadline (rp_mode body),
           sr_created_at = now, sr_updated_at = now\<rparr>))))"

definition is_shiftable :: "request_params \<Rightarrow> bool" where
  "is_shiftable body \<longleftrightarrow> rp_power_kw body \<noteq> None \<and> rp_duration_min body \<noteq> None"

section \<open>The roster\<close>

text \<open>
  A roster entry is one of the site's own assets, which the shiftable-load hooks do not touch
  (\<open>is_cancellable\<close> is true and \<open>is_removable\<close> false by default), or a shiftable load with its state.
\<close>

datatype roster_asset = BootAsset | LoadAsset shiftable_load shiftable_state

type_synonym roster = "(string \<times> roster_asset) list"

definition asset_cancellable :: "roster_asset \<Rightarrow> bool" where
  "asset_cancellable a = (case a of BootAsset \<Rightarrow> True | LoadAsset _ s \<Rightarrow> shiftable_cancellable s)"

definition asset_removable :: "roster_asset \<Rightarrow> bool" where
  "asset_removable a = (case a of BootAsset \<Rightarrow> False | LoadAsset l s \<Rightarrow> load_finished l s)"

definition roster_has :: "string \<Rightarrow> roster \<Rightarrow> bool" where
  "roster_has i r \<longleftrightarrow> i \<in> fst ` set r"

definition roster_add :: "string \<Rightarrow> roster_asset \<Rightarrow> roster \<Rightarrow> (string + unit) \<times> roster" where
  "roster_add i a r =
     (if roster_has i r then (Inl (''duplicate asset_id: '' @ i), r) else (Inr (), r @ [(i, a)]))"

definition load_of_request :: "shiftable_request \<Rightarrow> shiftable_load" where
  "load_of_request l = \<lparr>sl_power_kw = sr_power_kw l, sl_duration_min = sr_duration_min l,
     sl_earliest_start = sr_earliest_start l, sl_latest_end = sr_latest_end l\<rparr>"

definition roster_add_shiftable :: "shiftable_request \<Rightarrow> roster \<Rightarrow> (string + unit) \<times> roster" where
  "roster_add_shiftable l = roster_add (sr_asset_id l) (LoadAsset (load_of_request l) shiftable_initial)"

fun roster_remove :: "string \<Rightarrow> roster \<Rightarrow> roster" where
  "roster_remove i [] = []"
| "roster_remove i ((j, a) # r) = (if j = i then r else (j, a) # roster_remove i r)"

datatype cancel_outcome = NoSuchAsset | NotCancellable | Removed

definition cancel_if_cancellable :: "string \<Rightarrow> roster \<Rightarrow> cancel_outcome \<times> roster" where
  "cancel_if_cancellable i r =
     (case map_of r i of
        None \<Rightarrow> (NoSuchAsset, r)
      | Some a \<Rightarrow> if asset_cancellable a then (Removed, roster_remove i r) else (NotCancellable, r))"

text \<open>The step of the shiftable loads in a tick of the simulator, and the pass that drops the finished ones.\<close>

definition step_entry :: "(string \<Rightarrow> f64) \<Rightarrow> span \<Rightarrow> string \<times> roster_asset \<Rightarrow> string \<times> roster_asset" where
  "step_entry sp dt = (\<lambda>(i, a). (i, case a of BootAsset \<Rightarrow> BootAsset
     | LoadAsset l s \<Rightarrow> LoadAsset l (fst (shiftable_step l s (sp i) dt))))"

definition drop_finished :: "roster \<Rightarrow> roster" where
  "drop_finished r = foldl (\<lambda>r i. roster_remove i r) r (map fst (filter (\<lambda>(_, a). asset_removable a) r))"

definition roster_tick :: "(string \<Rightarrow> f64) \<Rightarrow> span \<Rightarrow> roster \<Rightarrow> roster" where
  "roster_tick sp dt r = drop_finished (map (step_entry sp dt) r)"

section \<open>The application\<close>

record request_transition =
  tr_ts :: instant
  tr_request_id :: uuid
  tr_asset_id :: string
  tr_from :: "request_status option"
  tr_to :: request_status

record desk =
  dk_hems :: hems_state
  dk_roster :: roster
  dk_trace :: "request_transition list"
  dk_replans :: nat

definition announce :: "user_request \<Rightarrow> request_status option \<Rightarrow> instant \<Rightarrow> desk \<Rightarrow> desk" where
  "announce req from_status now d =
     d\<lparr>dk_trace := dk_trace d @ [\<lparr>tr_ts = now, tr_request_id = ur_id req, tr_asset_id = ur_asset_id req,
          tr_from = from_status, tr_to = ur_status req\<rparr>],
       dk_replans := Suc (dk_replans d)\<rparr>"

definition with_hems :: "(hems_state \<Rightarrow> 'r \<times> hems_state) \<Rightarrow> desk \<Rightarrow> 'r \<times> desk" where
  "with_hems f d = (let (r, h) = f (dk_hems d) in (r, d\<lparr>dk_hems := h\<rparr>))"

definition put_request :: "user_request \<Rightarrow> desk \<Rightarrow> desk" where
  "put_request req d = d\<lparr>dk_hems := upsert_request req (dk_hems d)\<rparr>"

definition add_shiftable_load :: "shiftable_request \<Rightarrow> hems_state \<Rightarrow> (string + unit) \<times> hems_state" where
  "add_shiftable_load l h =
     (if list_ex (\<lambda>x. sr_asset_id x = sr_asset_id l) (hs_shiftable_loads h) then (Inl ''duplicate asset_id'', h)
      else (Inr (), h\<lparr>hs_shiftable_loads := hs_shiftable_loads h @ [l]\<rparr>))"

definition submit_shiftable ::
  "uuid \<Rightarrow> uuid \<Rightarrow> request_params \<Rightarrow> instant \<Rightarrow> desk \<Rightarrow> (submit_error + user_request) \<times> desk" where
  "submit_shiftable rid sid body now d =
     (case create_shiftable rid sid body now of
        Inl msg \<Rightarrow> (Inl (SubmitInvalid msg), d)
      | Inr (req, load) \<Rightarrow>
          (case with_hems (add_shiftable_load load) d of
             (Inl msg, d1) \<Rightarrow> (Inl (SubmitDuplicate msg), d1)
           | (Inr _, d1) \<Rightarrow>
               (Inr req, announce req None now (put_request req
                  (d1\<lparr>dk_roster := snd (roster_add_shiftable load (dk_roster d1))\<rparr>)))))"

definition install_session ::
  "uuid list option \<Rightarrow> ev_session \<Rightarrow> instant \<Rightarrow> desk \<Rightarrow> (request_error + ev_session list) \<times> desk" where
  "install_session ids s now d =
     (case ids of
        Some named \<Rightarrow>
          (let (r, d1) = with_hems (replace_ev_sessions named s now) d in
           (map_err (\<lambda>(rejection, clash). EvReplaceRejected rejection (map clashing_of clash)) r, d1))
      | None \<Rightarrow>
          (let (r, d1) = with_hems (insert_ev_session s) d in
           (and_then (map_err (\<lambda>(_, clash). EvSessionsConflict (map clashing_of clash)) r) (\<lambda>_. Inr []), d1)))"

definition displaced_requests :: "ev_session list \<Rightarrow> desk \<Rightarrow> user_request list" where
  "displaced_requests displaced d =
     filter (\<lambda>r. list_ex (\<lambda>s. ur_session_id r = Some (es_id s)) displaced) (hs_user_requests (dk_hems d))"

definition submit_charge_session ::
  "uuid \<Rightarrow> uuid \<Rightarrow> request_params \<Rightarrow> request_slice list \<Rightarrow> instant \<Rightarrow> desk \<Rightarrow> (submit_error + user_request) \<times> desk" where
  "submit_charge_session rid sid body slices now d =
     (case create_ev rid sid body slices now of
        Inl e \<Rightarrow> (Inl (SubmitRequest e), d)
      | Inr (req, s) \<Rightarrow>
          (case install_session (rp_replace_session_ids body) s now d of
             (Inl e, d1) \<Rightarrow> (Inl (SubmitRequest e), d1)
           | (Inr displaced, d1) \<Rightarrow>
               (let d2 = fold (\<lambda>r. announce r (Some Active) now) (displaced_requests displaced d1) d1
                in (Inr req, announce req None now (put_request req d2)))))"

definition submit_temperature ::
  "uuid \<Rightarrow> uuid \<Rightarrow> request_params \<Rightarrow> request_slice list \<Rightarrow> instant \<Rightarrow> desk \<Rightarrow> (submit_error + user_request) \<times> desk" where
  "submit_temperature rid sid body slices now d =
     (case create_heater rid sid body slices now of
        Inl e \<Rightarrow> (Inl (SubmitRequest e), d)
      | Inr (req, target) \<Rightarrow>
          (let (displaced, d1) = with_hems (replace_heater_target target now) d;
               d2 = (case displaced of None \<Rightarrow> d1 | Some r \<Rightarrow> announce r (Some Active) now d1)
           in (Inr req, announce req None now (put_request req d2))))"

definition submit ::
  "uuid \<Rightarrow> uuid \<Rightarrow> request_params \<Rightarrow> comfort_rate list hmap \<Rightarrow> request_slice list \<Rightarrow> instant \<Rightarrow> desk \<Rightarrow> (submit_error + user_request) \<times> desk" where
  "submit rid sid body overrides raw now d =
     (if is_shiftable body then submit_shiftable rid sid body now d
      else (let slices = effective_slices overrides raw in
            case Option.bind (List.find (\<lambda>s. sx_id s = rp_asset_id body) slices) sx_request_kind of
              Some ChargeSession \<Rightarrow> submit_charge_session rid sid body slices now d
            | Some TemperatureTarget \<Rightarrow> submit_temperature rid sid body slices now d
            | None \<Rightarrow> (Inl UnrecognisedAsset, d)))"

datatype cancel_error = CancelNotFound uuid | AlreadyTerminal uuid | AlreadyStarted string

definition terminal_for_cancel :: "request_status \<Rightarrow> bool" where
  "terminal_for_cancel s \<longleftrightarrow> s = Cancelled \<or> s = Completed"

definition cancel_in_roster :: "user_request \<Rightarrow> desk \<Rightarrow> cancel_outcome \<times> desk" where
  "cancel_in_roster req d =
     (if ur_session_type req = Some ShiftableLoadType
      then (let (out, r) = cancel_if_cancellable (ur_asset_id req) (dk_roster d) in (out, d\<lparr>dk_roster := r\<rparr>))
      else (NoSuchAsset, d))"

definition find_request :: "uuid \<Rightarrow> desk \<Rightarrow> user_request option" where
  "find_request i d = List.find (\<lambda>r. ur_id r = i) (hs_user_requests (dk_hems d))"

definition cancel :: "uuid \<Rightarrow> instant \<Rightarrow> desk \<Rightarrow> (cancel_error + request_status \<times> user_request) \<times> desk" where
  "cancel i now d =
     (case find_request i d of
        None \<Rightarrow> (Inl (CancelNotFound i), d)
      | Some req \<Rightarrow>
          if terminal_for_cancel (ur_status req) then (Inl (AlreadyTerminal i), d)
          else (let (out, d1) = cancel_in_roster req d in
                if out = NotCancellable then (Inl (AlreadyStarted (ur_asset_id req)), d1)
                else (let d2 = snd (with_hems (cancel_request i now) d1) in
                      (and_then (ok_or (CancelNotFound i) (find_request i d2))
                         (\<lambda>updated. Inr (ur_status req, updated)), d2))))"

definition cancel_and_announce :: "uuid \<Rightarrow> instant \<Rightarrow> desk \<Rightarrow> (cancel_error + user_request) \<times> desk" where
  "cancel_and_announce i now d =
     (case cancel i now d of
        (Inl e, d1) \<Rightarrow> (Inl e, d1)
      | (Inr (was, req), d1) \<Rightarrow> (Inr req, announce req (Some was) now d1))"

definition complete_and_announce :: "instant \<Rightarrow> uuid \<Rightarrow> desk \<Rightarrow> desk" where
  "complete_and_announce now load_id d =
     (let (done_req, d1) = with_hems (complete_shiftable load_id now) d in
      case done_req of
        Some req \<Rightarrow> announce req (Some Active) now d1
      | None \<Rightarrow> d1\<lparr>dk_replans := Suc (dk_replans d1)\<rparr>)"

definition settle_and_announce :: "instant \<Rightarrow> desk \<Rightarrow> desk" where
  "settle_and_announce now d =
     (let (completed, d1) = with_hems (settle_requests now) d
      in fold (\<lambda>r. announce r (Some Active) now) completed d1)"

section \<open>Plan-ahead, accounting and the tick\<close>

definition already_queued :: "session_queue hmap \<Rightarrow> ev_session \<Rightarrow> bool" where
  "already_queued queued s =
     (case hm_get queued (es_asset_id s) of None \<Rightarrow> False
      | Some q \<Rightarrow> list_ex (\<lambda>x. es_departure_time x = es_departure_time s) q)"

definition plan_one :: "session_queue hmap \<Rightarrow> ev_session \<Rightarrow> nat \<times> hems_state \<Rightarrow> nat \<times> hems_state" where
  "plan_one queued s = (\<lambda>(added, h).
     if already_queued queued s then (added, h)
     else (case insert_ev_session s h of (Inr _, h') \<Rightarrow> (Suc added, h') | (Inl _, h') \<Rightarrow> (added, h')))"

definition install_planned_sessions :: "ev_session list \<Rightarrow> hems_state \<Rightarrow> nat \<times> hems_state" where
  "install_planned_sessions planned h = fold (plan_one (hs_ev_sessions h)) planned (0, h)"

definition near_zero_kw :: f64 where "near_zero_kw = 1 / 1000"
definition default_import_price :: f64 where "default_import_price = 20 / 100"
definition default_co2_g_kwh :: f64 where "default_co2_g_kwh = 300"

record ledger_entry =
  le_asset_id :: string
  le_energy_kwh :: f64
  le_cost_eur :: f64
  le_co2_g :: f64
  le_updated_at :: "instant option"
  le_started_at :: "instant option"

definition ledger_entry_new :: "string \<Rightarrow> instant \<Rightarrow> ledger_entry" where
  "ledger_entry_new i now = \<lparr>le_asset_id = i, le_energy_kwh = 0, le_cost_eur = 0, le_co2_g = 0,
     le_updated_at = None, le_started_at = Some now\<rparr>"

text \<open>What the accounting reads of an asset's snapshot: its power and its embodied carbon.\<close>

record metered_asset =
  ma_asset_id :: string
  ma_power_kw :: f64
  ma_embodied_co2_g_kwh :: "f64 option"

definition tick_tariff :: "tariff_snapshot option \<Rightarrow> f64" where
  "tick_tariff r = hm_or default_import_price (Option.bind r tf_import)"

definition tick_co2 :: "tariff_snapshot option \<Rightarrow> f64" where
  "tick_co2 r = hm_or default_co2_g_kwh (Option.bind r tf_co2)"

definition tick_import_cost :: "tariff_snapshot option \<Rightarrow> f64 \<Rightarrow> f64 \<Rightarrow> f64" where
  "tick_import_cost rates dt_h kw = (if 0 < kw then energy_kwh kw dt_h * tick_tariff rates else 0)"

definition book_entry :: "tariff_snapshot option \<Rightarrow> f64 \<Rightarrow> instant \<Rightarrow> metered_asset \<Rightarrow> ledger_entry \<Rightarrow> ledger_entry" where
  "book_entry rates dt_h now a e =
     (let kw = ma_power_kw a; e = e\<lparr>le_energy_kwh := le_energy_kwh e + energy_kwh \<bar>kw\<bar> dt_h\<rparr>;
          e = (if 0 < kw then e\<lparr>le_cost_eur := le_cost_eur e + tick_import_cost rates dt_h kw,
                              le_co2_g := le_co2_g e + energy_kwh kw dt_h * tick_co2 rates\<rparr>
               else (case ma_embodied_co2_g_kwh a of None \<Rightarrow> e
                     | Some g \<Rightarrow> e\<lparr>le_co2_g := le_co2_g e + energy_kwh \<bar>kw\<bar> dt_h * g\<rparr>))
      in e\<lparr>le_updated_at := Some now\<rparr>)"

definition charge_request :: "string \<Rightarrow> f64 \<Rightarrow> user_request \<Rightarrow> user_request" where
  "charge_request i cost r =
     (if 0 < cost \<and> ur_status r = Active \<and> ur_asset_id r = i
      then r\<lparr>ur_accumulated_cost_eur := ur_accumulated_cost_eur r + cost\<rparr> else r)"

definition record_asset ::
  "tariff_snapshot option \<Rightarrow> f64 \<Rightarrow> instant \<Rightarrow> metered_asset \<Rightarrow> ledger_entry hmap \<times> user_request list \<Rightarrow> ledger_entry hmap \<times> user_request list" where
  "record_asset rates dt_h now a = (\<lambda>(ledger, requests).
     let i = ma_asset_id a; kw = ma_power_kw a in
     if \<bar>kw\<bar> \<le> near_zero_kw then (ledger, requests)
     else (hm_put i (book_entry rates dt_h now a (hm_or (ledger_entry_new i now) (hm_get ledger i))) ledger,
           map (charge_request i (tick_import_cost rates dt_h kw)) requests))"

definition record_tick ::
  "tariff_snapshot list \<Rightarrow> f64 \<Rightarrow> instant \<Rightarrow> metered_asset list \<Rightarrow> ledger_entry hmap \<times> user_request list \<Rightarrow> ledger_entry hmap \<times> user_request list" where
  "record_tick tariffs dt_s now assets = fold (record_asset (tariff_at tariffs now) (dt_h_from_s dt_s) now) assets"

record booth =
  bo_desk :: desk
  bo_ledger :: "ledger_entry hmap"

definition complete_vanished :: "instant \<Rightarrow> string list \<Rightarrow> desk \<Rightarrow> desk" where
  "complete_vanished now present d =
     fold (\<lambda>l d. if sr_asset_id l \<in> set present then d else complete_and_announce now (sr_id l) d)
       (hs_shiftable_loads (dk_hems d)) d"

definition account_tick :: "tariff_snapshot list \<Rightarrow> f64 \<Rightarrow> instant \<Rightarrow> metered_asset list \<Rightarrow> booth \<Rightarrow> booth" where
  "account_tick tariffs dt_s now assets b =
     (let d = bo_desk b; h = dk_hems d;
          (ledger, requests) = record_tick tariffs dt_s now assets (bo_ledger b, hs_user_requests h)
      in b\<lparr>bo_desk := d\<lparr>dk_hems := h\<lparr>hs_user_requests := requests\<rparr>\<rparr>, bo_ledger := ledger\<rparr>)"

definition publish_tick :: "tariff_snapshot list \<Rightarrow> f64 \<Rightarrow> instant \<Rightarrow> metered_asset list \<Rightarrow> booth \<Rightarrow> booth" where
  "publish_tick tariffs dt_s now assets b =
     account_tick tariffs dt_s now assets
       (b\<lparr>bo_desk := settle_and_announce now (complete_vanished now (map ma_asset_id assets) (bo_desk b))\<rparr>)"

definition metered_of :: "(string \<Rightarrow> f64) \<Rightarrow> (string \<Rightarrow> f64 option) \<Rightarrow> roster \<Rightarrow> metered_asset list" where
  "metered_of drawn co2 r = map (\<lambda>(i, _). \<lparr>ma_asset_id = i, ma_power_kw = drawn i, ma_embodied_co2_g_kwh = co2 i\<rparr>) r"

text \<open>The request half of a tick: the roster steps, and what is left of it is published.\<close>

definition tick_booth ::
  "(string \<Rightarrow> f64) \<Rightarrow> span \<Rightarrow> (string \<Rightarrow> f64) \<Rightarrow> (string \<Rightarrow> f64 option) \<Rightarrow> tariff_snapshot list \<Rightarrow> f64 \<Rightarrow> instant \<Rightarrow> booth \<Rightarrow> booth" where
  "tick_booth sp dt drawn co2 tariffs dt_s now b =
     (let r = roster_tick sp dt (dk_roster (bo_desk b))
      in publish_tick tariffs dt_s now (metered_of drawn co2 r) (b\<lparr>bo_desk := (bo_desk b)\<lparr>dk_roster := r\<rparr>\<rparr>))"

end
