(* ===== verification/Request_Invariant.thy ===== *)
theory Request_Invariant
  imports Request_Submission
begin

text \<open>
  The requests and the device sessions they own never disagree: whatever the user submits and cancels, whatever the
  plan-ahead installs and whatever the ticks end, every active request owns exactly one queued session, target or
  load, and everything a request installed is owned by exactly one active request. The proof abstracts a state to
  the tags of what is live and the list of requests.
\<close>

section \<open>Tags and owners\<close>

type_synonym tag = "session_type option \<times> uuid"

definition owns_tag :: "user_request \<Rightarrow> tag \<Rightarrow> bool" where
  "owns_tag r x \<longleftrightarrow> ur_status r = Active \<and> fst x \<noteq> None \<and> ur_session_type r = fst x \<and> ur_session_id r = Some (snd x)"

definition once :: "('a \<Rightarrow> 'k) \<Rightarrow> 'a multiset \<Rightarrow> bool" where
  "once f M \<longleftrightarrow> (\<forall>i. count (image_mset f M) i \<le> 1)"

definition agree :: "uuid \<Rightarrow> tag multiset \<Rightarrow> user_request list \<Rightarrow> bool" where
  "agree n L R \<longleftrightarrow> once snd L \<and> (\<forall>x \<in># L. snd x < n) \<and>
     distinct (map ur_id R) \<and> distinct (map ur_session_id R) \<and>
     (\<forall>r \<in> set R. ur_id r < n \<and> (\<exists>s < n. ur_session_id r = Some s) \<and> ur_session_type r \<noteq> None) \<and>
     (\<forall>x. fst x \<noteq> None \<longrightarrow> (x \<in># L \<longleftrightarrow> (\<exists>r \<in> set R. owns_tag r x)))"

lemma once_sub: "once f M \<Longrightarrow> N \<subseteq># M \<Longrightarrow> once f N"
  unfolding once_def by (meson image_mset_subseteq_mono le_trans mset_subset_eq_count)

lemma once_filter: "once f M \<Longrightarrow> once f (filter_mset P M)"
  by (erule once_sub) (rule multiset_filter_subset)

lemma once_add: "once f (add_mset x M) \<longleftrightarrow> once f M \<and> f x \<notin> f ` set_mset M"
proof -
  let ?c = "count (image_mset f M)"
  have mem: "f x \<notin> f ` set_mset M \<longleftrightarrow> ?c (f x) = 0"
    by (simp only: count_eq_zero_iff set_image_mset)
  have add: "count (image_mset f (add_mset x M)) i = ?c i + (if f x = i then 1 else 0)" for i
    by (simp only: image_mset_add_mset count_add_mset Suc_eq_plus1 add_0_right split: if_split) simp
  have "(\<forall>i. ?c i + (if f x = i then 1 else 0) \<le> 1) \<longleftrightarrow> (\<forall>i. ?c i \<le> 1) \<and> ?c (f x) = 0"
    (is "?l \<longleftrightarrow> ?r")
  proof
    assume l: ?l
    show ?r using l [rule_format, of "f x"] l by (metis (full_types) add_leD1 add_le_same_cancel2 le_zero_eq)
  next
    assume r: ?r
    show ?l
    proof
      fix i show "?c i + (if f x = i then 1 else 0) \<le> 1" using r by (cases "f x = i") simp_all
    qed
  qed
  then show ?thesis by (simp only: once_def add mem)
qed

lemma once_eq:
  assumes "once f M" and "x \<in># M" "y \<in># M" and "f x = f y"
  shows "x = y"
proof (rule ccontr)
  assume "x \<noteq> y"
  obtain N where N: "M = add_mset x N" using multi_member_split [OF assms(2)] by blast
  with assms(3) \<open>x \<noteq> y\<close> have "y \<in># N" by simp
  with assms(1,4) N show False by (auto simp: once_add)
qed

lemma agree_mono: "agree n L R \<Longrightarrow> n \<le> m \<Longrightarrow> agree m L R"
  unfolding agree_def by (meson order_less_le_trans)

text \<open>A simulated session enters.\<close>

lemma agree_plan:
  assumes a: "agree n L R" and b: "n \<le> b" "b < m"
  shows "agree m (add_mset (None, b) L) R"
proof -
  have fresh: "b \<notin> snd ` set_mset L" using a b(1) by (auto simp: agree_def)
  show ?thesis
    using agree_mono [OF a, of m] b fresh by (auto simp: agree_def once_add)
qed

text \<open>A request enters with what it owns.\<close>

lemma agree_start:
  assumes a: "agree n L R" and ids: "n \<le> ur_id req" "ur_id req < m" "n \<le> b" "b < m"
    and req: "ur_status req = Active" "ur_session_id req = Some b" "ur_session_type req = Some ty"
  shows "agree m (add_mset (Some ty, b) L) (R @ [req])"
proof -
  have fresh: "b \<notin> snd ` set_mset L" using a ids(3) by (auto simp: agree_def)
  have old: "ur_id r < ur_id req" "ur_session_id r \<noteq> Some b" if "r \<in> set R" for r
    using a that ids unfolding agree_def by fastforce+
  have "owns_tag req x \<longleftrightarrow> x = (Some ty, b)" for x
    using req by (cases x) (auto simp: owns_tag_def)
  moreover have "ur_id req \<notin> ur_id ` set R" "Some b \<notin> ur_session_id ` set R" using old by force+
  ultimately show ?thesis
    using agree_mono [OF a, of m] ids req fresh by (auto simp: agree_def once_add)
qed

text \<open>Requests end with what they own: \<open>E\<close> is what ends.\<close>

definition ended_by :: "uuid set \<Rightarrow> (user_request \<Rightarrow> user_request) \<Rightarrow> user_request \<Rightarrow> bool" where
  "ended_by E f r \<longleftrightarrow>
     (if \<exists>i \<in> E. ur_session_id r = Some i then (\<exists>st now. f r = finish st now r \<and> st \<noteq> Active) \<or> f r = r \<and> ur_status r \<noteq> Active
      else f r = r \<or> ur_status r \<noteq> Active \<and> (\<exists>st now. f r = finish st now r \<and> st \<noteq> Active))"

lemma finish_simps [simp]:
  "ur_id (finish st now r) = ur_id r" "ur_session_id (finish st now r) = ur_session_id r"
  "ur_session_type (finish st now r) = ur_session_type r" "ur_status (finish st now r) = st"
  "ur_asset_id (finish st now r) = ur_asset_id r"
  by (simp_all add: finish_def)

lemma ended_by_keeps:
  assumes "ended_by E f r"
  shows "ur_id (f r) = ur_id r \<and> ur_session_id (f r) = ur_session_id r \<and> ur_session_type (f r) = ur_session_type r"
  using assms by (auto simp: ended_by_def split: if_splits)

lemma ended_by_owns:
  assumes "ended_by E f r"
  shows "owns_tag (f r) x \<longleftrightarrow> owns_tag r x \<and> snd x \<notin> E"
  using assms by (auto simp: ended_by_def owns_tag_def split: if_splits)

lemma agree_end:
  assumes a: "agree n L R" and f: "\<And>r. r \<in> set R \<Longrightarrow> ended_by E f r"
  shows "agree n (filter_mset (\<lambda>x. snd x \<notin> E) L) (map f R)"
proof -
  have keys: "map ur_id (map f R) = map ur_id R" "map ur_session_id (map f R) = map ur_session_id R"
    using ended_by_keeps [OF f] by simp_all
  have types: "\<forall>r \<in> set R. ur_session_type (f r) = ur_session_type r \<and> ur_id (f r) = ur_id r \<and> ur_session_id (f r) = ur_session_id r"
    using ended_by_keeps [OF f] by blast
  have owns: "(\<exists>r \<in> set (map f R). owns_tag r x) \<longleftrightarrow> (\<exists>r \<in> set R. owns_tag r x) \<and> snd x \<notin> E" for x
    using ended_by_owns [OF f] by auto
  show ?thesis
    unfolding agree_def keys owns using a types once_filter [of snd L] by (auto simp: agree_def simp del: map_map)
qed

text \<open>Finished requests are dropped, and costs are booked.\<close>

lemma agree_drop:
  assumes a: "agree n L R" and keep: "\<And>r. r \<in> set R \<Longrightarrow> ur_status r = Active \<Longrightarrow> P r"
  shows "agree n L (filter P R)"
proof -
  have "(\<exists>r \<in> set (filter P R). owns_tag r x) \<longleftrightarrow> (\<exists>r \<in> set R. owns_tag r x)" for x
    using keep by (auto simp: owns_tag_def)
  then show ?thesis using a by (auto simp: agree_def distinct_map_filter)
qed

lemma agree_relabel:
  assumes a: "agree n L R" and f: "\<And>r. ur_id (f r) = ur_id r \<and> ur_session_id (f r) = ur_session_id r \<and>
    ur_session_type (f r) = ur_session_type r \<and> ur_status (f r) = ur_status r"
  shows "agree n L (map f R)"
proof -
  have "owns_tag (f r) x = owns_tag r x" for r x using f by (simp add: owns_tag_def)
  moreover have "map ur_id (map f R) = map ur_id R" "map ur_session_id (map f R) = map ur_session_id R"
    using f by simp_all
  ultimately show ?thesis using a f by (auto simp: agree_def simp del: map_map)
qed

section \<open>What is live in a state\<close>

definition queued_sessions :: "session_queue hmap \<Rightarrow> ev_session multiset" where
  "queued_sessions qs = mset (concat (map snd qs))"

definition ev_tag :: "ev_session \<Rightarrow> tag" where
  "ev_tag s = (if es_origin s = UserRequestOrigin then Some EvType else None, es_id s)"

definition heater_tag :: "heater_target \<Rightarrow> tag" where
  "heater_tag t = (Some HeaterType, ht_id t)"

definition load_tag :: "shiftable_request \<Rightarrow> tag" where
  "load_tag l = (Some ShiftableLoadType, sr_id l)"

definition live_tags :: "hems_state \<Rightarrow> tag multiset" where
  "live_tags h = image_mset ev_tag (queued_sessions (hs_ev_sessions h)) +
     image_mset heater_tag (mset (map snd (hs_heater_targets h))) +
     image_mset load_tag (mset (hs_shiftable_loads h))"

lemma snd_tags [simp]: "snd (ev_tag s) = es_id s" "snd (heater_tag t) = ht_id t" "snd (load_tag l) = sr_id l"
  by (simp_all add: ev_tag_def heater_tag_def load_tag_def)

lemma queued_sessions_Cons [simp]: "queued_sessions ((k, q) # qs) = mset q + queued_sessions qs"
  by (simp add: queued_sessions_def)

lemma queued_sessions_Nil [simp]: "queued_sessions [] = {#}"
  by (simp add: queued_sessions_def)

lemma hm_put_simps [simp]:
  "hm_put k v [] = [(k, v)]"
  "hm_put k v ((j, w) # m) = (if j = k then (j, v) # m else (j, w) # hm_put k v m)"
  by (auto simp: hm_put_def)

lemma queued_sessions_put:
  "queued_sessions (hm_put a q' qs) + mset (hm_or [] (hm_get qs a)) = queued_sessions qs + mset q'"
  by (induction qs) (auto simp: ac_simps)

lemma values_put:
  "mset (map snd (hm_put k v m)) + (case hm_get m k of None \<Rightarrow> {#} | Some w \<Rightarrow> {#w#}) = add_mset v (mset (map snd m))"
  by (induction m) auto

lemma queue_in_sessions: "mset (hm_or [] (hm_get qs a)) \<subseteq># queued_sessions qs"
  by (induction qs) (auto intro: subset_mset.order_trans [OF _ mset_subset_eq_add_right])

lemma queued_sessions_map:
  assumes "\<And>k q. (k, q) \<in> set qs \<Longrightarrow> mset (f q) = filter_mset P (mset q)"
  shows "queued_sessions (map (\<lambda>(k, q). (k, f q)) qs) = filter_mset P (queued_sessions qs)"
  using assms
proof (induction qs)
  case (Cons kq qs)
  obtain k q where kq: "kq = (k, q)" by (cases kq)
  have "mset (f q) = filter_mset P (mset q)" using Cons.prems [of k q] kq by simp
  moreover have "queued_sessions (map (\<lambda>(k, q). (k, f q)) qs) = filter_mset P (queued_sessions qs)"
    by (rule Cons.IH) (use Cons.prems in auto)
  ultimately show ?case by (simp add: kq)
qed simp

lemma queue_in_sessions': "(k, q) \<in> set qs \<Longrightarrow> mset q \<subseteq># queued_sessions qs"
  by (induction qs) (auto intro: subset_mset.order_trans [OF _ mset_subset_eq_add_right])

lemma once_distinct: "once f (mset xs) \<longleftrightarrow> distinct (map f xs)"
proof (induction xs)
  case Nil
  show ?case by (simp add: once_def)
qed (auto simp: once_add)

text \<open>The ids of what is live are unique, so an id names one thing.\<close>

lemma agree_once: "agree n L R \<Longrightarrow> once snd L" by (simp add: agree_def)

lemma once_image: "once g (image_mset f M) \<longleftrightarrow> once (\<lambda>x. g (f x)) M"
  by (simp add: once_def multiset.map_comp o_def)

lemma live_once:
  assumes "once snd (live_tags h)"
  shows "once es_id (queued_sessions (hs_ev_sessions h))" "distinct (map es_id (hm_or [] (hm_get (hs_ev_sessions h) a)))"
    "(k, q) \<in> set (hs_ev_sessions h) \<Longrightarrow> distinct (map es_id q)"
proof -
  have "once snd (image_mset ev_tag (queued_sessions (hs_ev_sessions h)))"
    using assms by (rule once_sub) (simp add: live_tags_def)
  then show all: "once es_id (queued_sessions (hs_ev_sessions h))" by (simp add: once_image)
  show "distinct (map es_id (hm_or [] (hm_get (hs_ev_sessions h) a)))"
    using once_sub [OF all queue_in_sessions] by (simp add: once_distinct)
  show "distinct (map es_id q)" if "(k, q) \<in> set (hs_ev_sessions h)"
    using once_sub [OF all queue_in_sessions' [OF that]] by (simp add: once_distinct)
qed

section \<open>Effects\<close>

lemma insert_refused:
  assumes "insert_ev_session s h = (Inl e, h')"
  shows "ev_sessions_of a h' = ev_sessions_of a h" "live_tags h' = live_tags h" "hs_user_requests h' = hs_user_requests h"
    "hs_heater_targets h' = hs_heater_targets h" "hs_shiftable_loads h' = hs_shiftable_loads h"
proof -
  let ?q = "ev_sessions_of (es_asset_id s) h"
  have h': "h' = h\<lparr>hs_ev_sessions := hm_put (es_asset_id s) ?q (hs_ev_sessions h)\<rparr>"
    using assms by (auto simp: insert_ev_session_def queue_insert_def Let_def split: if_splits)
  show "ev_sessions_of a h' = ev_sessions_of a h" by (simp add: h' ev_sessions_of_def hm.get_put)
  show "live_tags h' = live_tags h"
    using queued_sessions_put [of "es_asset_id s" ?q "hs_ev_sessions h"]
    by (simp add: h' live_tags_def ev_sessions_of_def)
qed (use assms in \<open>auto simp: insert_ev_session_def Let_def case_prod_unfold split: sum.splits\<close>)

lemma insert_accepted:
  assumes "insert_ev_session s h = (Inr u, h')"
  shows "live_tags h' = add_mset (ev_tag s) (live_tags h)" "hs_user_requests h' = hs_user_requests h"
proof -
  let ?q = "ev_sessions_of (es_asset_id s) h"
  have h': "h' = h\<lparr>hs_ev_sessions := hm_put (es_asset_id s) (insert_at_start s ?q) (hs_ev_sessions h)\<rparr>"
    using assms by (auto simp: insert_ev_session_def queue_insert_def Let_def split: if_splits)
  have "queued_sessions (hs_ev_sessions h') = add_mset s (queued_sessions (hs_ev_sessions h))"
    using queued_sessions_put [of "es_asset_id s" "insert_at_start s ?q" "hs_ev_sessions h"]
    by (simp add: h' ev_sessions_of_def)
  then show "live_tags h' = add_mset (ev_tag s) (live_tags h)" by (simp add: h' live_tags_def)
  show "hs_user_requests h' = hs_user_requests h" by (simp add: h')
qed

lemma replace_refused:
  assumes r: "replace_ev_sessions ids s now h = (Inl e, h')" and d: "distinct (map es_id (ev_sessions_of (es_asset_id s) h))"
  shows "ev_sessions_of a h' = ev_sessions_of a h" "live_tags h' = live_tags h" "hs_user_requests h' = hs_user_requests h"
    "hs_heater_targets h' = hs_heater_targets h" "hs_shiftable_loads h' = hs_shiftable_loads h"
proof -
  let ?q = "ev_sessions_of (es_asset_id s) h"
  have "snd (queue_replace ids s ?q) = ?q" if "fst (queue_replace ids s ?q) = Inl x" for x
    using that unfolding queue_replace_eq [OF d] Let_def by (cases "filter (\<lambda>i. \<not> list_ex (\<lambda>x. es_id x = i) ?q) ids = []") (auto simp del: filter_empty_conv split: if_splits)
  then have h': "h' = h\<lparr>hs_ev_sessions := hm_put (es_asset_id s) ?q (hs_ev_sessions h)\<rparr>"
    using r by (auto simp: replace_ev_sessions_def Let_def case_prod_unfold split: sum.splits)
  show "ev_sessions_of a h' = ev_sessions_of a h" by (simp add: h' ev_sessions_of_def hm.get_put)
  show "live_tags h' = live_tags h"
    using queued_sessions_put [of "es_asset_id s" ?q "hs_ev_sessions h"]
    by (simp add: h' live_tags_def ev_sessions_of_def)
  show "hs_user_requests h' = hs_user_requests h" "hs_heater_targets h' = hs_heater_targets h"
    "hs_shiftable_loads h' = hs_shiftable_loads h"
    by (simp_all add: h')
qed

text \<open>\<open>update_first\<close> where at most one element can match.\<close>

lemma update_first_none: "(\<And>x. x \<in> set xs \<Longrightarrow> \<not> P x) \<Longrightarrow> update_first P f xs = xs"
  by (induction xs) auto

lemma update_first_map:
  assumes "distinct (map key xs)" and "\<And>x. x \<in> set xs \<Longrightarrow> P x \<Longrightarrow> key x = k"
  shows "update_first P f xs = map (\<lambda>x. if P x then f x else x) xs"
  using assms
proof (induction xs)
  case (Cons x xs)
  show ?case
  proof (cases "P x")
    case True
    have "\<not> P y" if "y \<in> set xs" for y
    proof
      assume "P y"
      then have "key y = key x" using Cons.prems(2) True that by simp
      with that Cons.prems(1) show False by (metis distinct.simps(2) image_eqI list.simps(9) set_map)
    qed
    with True show ?thesis by (simp add: map_idI)
  next
    case False
    with Cons show ?thesis by auto
  qed
qed simp

lemma cancel_displaced_map:
  assumes "distinct (map ur_session_id R)"
  shows "cancel_displaced now removed R =
    map (\<lambda>r. if \<exists>s \<in> set removed. ur_session_id r = Some (es_id s) then finish Cancelled now r else r) R"
  using assms
proof (induction removed arbitrary: R)
  case (Cons s removed)
  let ?f = "\<lambda>r. if ur_session_id r = Some (es_id s) then finish Cancelled now r else r"
  have one: "update_first (\<lambda>r. ur_session_id r = Some (es_id s)) (finish Cancelled now) R = map ?f R"
    by (rule update_first_map [OF Cons.prems]) simp
  have keys: "map ur_session_id (map ?f R) = map ur_session_id R" by simp
  have twice: "finish Cancelled now (finish Cancelled now r) = finish Cancelled now r" for r
    by (simp add: finish_def)
  have "cancel_displaced now (s # removed) R = cancel_displaced now removed (map ?f R)"
    by (simp add: cancel_displaced_def one)
  also have "\<dots> = map (\<lambda>r. if \<exists>s \<in> set removed. ur_session_id r = Some (es_id s) then finish Cancelled now r else r) (map ?f R)"
    by (rule Cons.IH) (use Cons.prems in \<open>simp only: keys\<close>)
  also have "\<dots> = map (\<lambda>r. if \<exists>s \<in> set (s # removed). ur_session_id r = Some (es_id s) then finish Cancelled now r else r) R"
    by (auto simp: twice)
  finally show ?case .
qed (simp add: cancel_displaced_def)

lemma filter_without:
  assumes o: "once es_id M" and sub: "mset q \<subseteq># M" and I: "I \<subseteq> es_id ` set q"
  shows "M - mset q + mset (filter (\<lambda>x. es_id x \<notin> I) q) = {#x \<in># M. es_id x \<notin> I#}"
proof -
  obtain N where M: "M = mset q + N" using sub by (metis subset_mset.le_iff_add)
  have "es_id x \<notin> I" if x: "x \<in># N" for x
  proof
    assume "es_id x \<in> I"
    then obtain y where y: "y \<in> set q" "es_id y = es_id x" using I by auto
    obtain N' where N': "N = add_mset x N'" using multi_member_split [OF x] by blast
    then have "once es_id (add_mset x (mset q + N'))" using o M by simp
    with y show False by (simp add: once_add) (metis UnI1 imageI)
  qed
  then have "filter_mset (\<lambda>x. es_id x \<notin> I) N = N" by (simp add: filter_mset_eq_conv)
  then show ?thesis by (simp add: M)
qed

lemma image_tags_filter:
  "image_mset ev_tag {#x \<in># M. es_id x \<notin> I#} = {#x \<in># image_mset ev_tag M. snd x \<notin> I#}"
  "image_mset heater_tag {#x \<in># T. ht_id x \<notin> I#} = {#x \<in># image_mset heater_tag T. snd x \<notin> I#}"
  "image_mset load_tag {#x \<in># S. sr_id x \<notin> I#} = {#x \<in># image_mset load_tag S. snd x \<notin> I#}"
  by (simp_all add: filter_mset_image_mset)

lemma filter_disjoint:
  assumes "once snd (A + B)" and "I \<subseteq> snd ` set_mset A"
  shows "{#x \<in># B. snd x \<notin> I#} = B"
proof -
  have "snd x \<notin> I" if x: "x \<in># B" for x
  proof
    assume "snd x \<in> I"
    then obtain y where "y \<in># A" "snd y = snd x" using assms(2) by auto
    moreover obtain B' where "B = add_mset x B'" using multi_member_split [OF x] by blast
    ultimately show False using assms(1) by (simp add: once_add) (metis UnI1 imageI)
  qed
  then show ?thesis by (simp add: filter_mset_eq_conv)
qed

text \<open>Dropping ids of one kind drops them from the tags: no other kind has them.\<close>

lemma live_tags_drop_ev:
  assumes o: "once snd (live_tags h)" and I: "I \<subseteq> es_id ` set_mset (queued_sessions (hs_ev_sessions h))"
    and new: "queued_sessions qs = {#x \<in># queued_sessions (hs_ev_sessions h). es_id x \<notin> I#}"
  shows "live_tags (h\<lparr>hs_ev_sessions := qs\<rparr>) = {#x \<in># live_tags h. snd x \<notin> I#}"
proof -
  let ?A = "image_mset ev_tag (queued_sessions (hs_ev_sessions h))"
    and ?B = "image_mset heater_tag (mset (map snd (hs_heater_targets h))) + image_mset load_tag (mset (hs_shiftable_loads h))"
  have split: "live_tags h = ?A + ?B" by (simp add: live_tags_def ac_simps)
  have "I \<subseteq> snd ` set_mset ?A" using I by (simp add: image_image)
  then have "{#x \<in># ?B. snd x \<notin> I#} = ?B" using filter_disjoint o split by metis
  then show ?thesis
    unfolding split by (simp add: live_tags_def new image_tags_filter ac_simps)
qed

lemma live_tags_drop_heater:
  assumes o: "once snd (live_tags h)" and I: "I \<subseteq> ht_id ` set_mset (mset (map snd (hs_heater_targets h)))"
    and new: "mset (map snd ts) = {#x \<in># mset (map snd (hs_heater_targets h)). ht_id x \<notin> I#}"
  shows "live_tags (h\<lparr>hs_heater_targets := ts\<rparr>) = {#x \<in># live_tags h. snd x \<notin> I#}"
proof -
  let ?A = "image_mset heater_tag (mset (map snd (hs_heater_targets h)))"
    and ?B = "image_mset ev_tag (queued_sessions (hs_ev_sessions h)) + image_mset load_tag (mset (hs_shiftable_loads h))"
  have split: "live_tags h = ?A + ?B" by (simp add: live_tags_def ac_simps)
  have "I \<subseteq> snd ` set_mset ?A" using I by (simp add: image_image)
  then have "{#x \<in># ?B. snd x \<notin> I#} = ?B" using filter_disjoint o split by metis
  then show ?thesis
    unfolding split by (simp add: live_tags_def new image_tags_filter ac_simps flip: mset_map)
qed

lemma live_tags_drop_load:
  assumes o: "once snd (live_tags h)" and I: "I \<subseteq> sr_id ` set (hs_shiftable_loads h)"
  shows "live_tags (h\<lparr>hs_shiftable_loads := filter (\<lambda>l. sr_id l \<notin> I) (hs_shiftable_loads h)\<rparr>) = {#x \<in># live_tags h. snd x \<notin> I#}"
proof -
  let ?A = "image_mset load_tag (mset (hs_shiftable_loads h))"
    and ?B = "image_mset ev_tag (queued_sessions (hs_ev_sessions h)) + image_mset heater_tag (mset (map snd (hs_heater_targets h)))"
  have split: "live_tags h = ?A + ?B" by (simp add: live_tags_def ac_simps)
  have "I \<subseteq> snd ` set_mset ?A" using I by (simp add: image_image)
  then have "{#x \<in># ?B. snd x \<notin> I#} = ?B" using filter_disjoint o split by metis
  then show ?thesis
    unfolding split by (simp add: live_tags_def image_tags_filter ac_simps)
qed

text \<open>What an accepted replacement does: the named sessions leave, the candidate enters, their requests end.\<close>

lemma replace_accepted:
  assumes r: "replace_ev_sessions ids s now h = (Inr removed, h')" and o: "once snd (live_tags h)"
    and sids: "distinct (map ur_session_id (hs_user_requests h))"
  shows "live_tags h' = add_mset (ev_tag s) {#x \<in># live_tags h. snd x \<notin> es_id ` set removed#}"
    "hs_user_requests h' = map (\<lambda>r. if \<exists>s \<in> set removed. ur_session_id r = Some (es_id s) then finish Cancelled now r else r)
       (hs_user_requests h)"
proof -
  let ?q = "ev_sessions_of (es_asset_id s) h" and ?qs = "hs_ev_sessions h"
  let ?I = "es_id ` set removed"
  have d: "distinct (map es_id ?q)" unfolding ev_sessions_of_def by (rule live_once(2) [OF o])
  obtain res q' where qr: "queue_replace ids s ?q = (res, q')" by (cases "queue_replace ids s ?q")
  with r have res: "res = Inr removed"
    by (auto simp: replace_ev_sessions_def Let_def split: sum.splits)
  have parts: "removed = fst (remove_all_named ids ?q)" "q' = insert_at_start s (filter (\<lambda>x. es_id x \<notin> set ids) ?q)"
  proof -
    let ?nq = "filter (\<lambda>i. \<not> list_ex (\<lambda>x. es_id x = i) ?q) ids" and ?clash = "queue_conflicts ?q s"
    have "(Inr (fst (remove_all_named ids ?q)), insert_at_start s (filter (\<lambda>x. es_id x \<notin> set ids) ?q)) = (Inr removed, q')"
      if "queue_replace ids s ?q = (Inr removed, q')"
      using that unfolding queue_replace_eq [OF d] Let_def
      by (cases "?nq \<noteq> []"; cases "filter (\<lambda>i. i \<notin> set ids) ?clash \<noteq> [] \<or> filter (\<lambda>i. i \<notin> set ?clash) ids \<noteq> []")
        (simp_all only: if_True if_False prod.inject sum.distinct simp_thms, blast)
    from this [OF qr [unfolded res]]
    show "removed = fst (remove_all_named ids ?q)" "q' = insert_at_start s (filter (\<lambda>x. es_id x \<notin> set ids) ?q)"
      by simp_all
  qed
  have removed: "set removed = {x \<in> set ?q. es_id x \<in> set ids}"
    using remove_all_distinct [OF d, of ids] parts(1) by simp
  have keep: "filter (\<lambda>x. es_id x \<notin> set ids) ?q = filter (\<lambda>x. es_id x \<notin> ?I) ?q"
  proof (rule filter_cong [OF refl])
    fix x assume "x \<in> set ?q"
    then have "es_id x \<in> ?I \<longleftrightarrow> es_id x \<in> set ids" unfolding removed by (auto intro!: image_eqI [of _ es_id x])
    then show "(es_id x \<notin> set ids) = (es_id x \<notin> ?I)" by (simp only:)
  qed
  have h': "h' = h\<lparr>hs_ev_sessions := hm_put (es_asset_id s) q' ?qs,
      hs_user_requests := cancel_displaced now removed (hs_user_requests h)\<rparr>"
    using r qr res by (simp add: replace_ev_sessions_def Let_def)
  let ?M = "queued_sessions ?qs"
  have sub: "mset ?q \<subseteq># ?M" unfolding ev_sessions_of_def by (rule queue_in_sessions)
  have put: "queued_sessions (hm_put (es_asset_id s) q' ?qs) + mset ?q = ?M + mset q'"
    unfolding ev_sessions_of_def by (rule queued_sessions_put)
  have "queued_sessions (hm_put (es_asset_id s) q' ?qs) = ?M - mset ?q + mset q'"
    using put sub by (metis add_diff_cancel_right' subset_mset.diff_add_assoc2)
  also have "\<dots> = add_mset s (?M - mset ?q + mset (filter (\<lambda>x. es_id x \<notin> ?I) ?q))"
    unfolding parts(2) keep by simp
  also have "?M - mset ?q + mset (filter (\<lambda>x. es_id x \<notin> ?I) ?q) = {#x \<in># ?M. es_id x \<notin> ?I#}"
    by (rule filter_without [OF live_once(1) [OF o] sub]) (use removed in auto)
  finally have sessions: "queued_sessions (hm_put (es_asset_id s) q' ?qs) = add_mset s {#x \<in># ?M. es_id x \<notin> ?I#}" .
  let ?A = "image_mset ev_tag ?M"
    and ?B = "image_mset heater_tag (mset (map snd (hs_heater_targets h))) + image_mset load_tag (mset (hs_shiftable_loads h))"
  have split: "live_tags h = ?A + ?B" by (simp add: live_tags_def ac_simps)
  have "set removed \<subseteq> set_mset ?M" using removed set_mset_mono [OF sub] by auto
  then have "?I \<subseteq> snd ` set_mset ?A" by (auto simp: image_image)
  then have "{#x \<in># ?B. snd x \<notin> ?I#} = ?B" using filter_disjoint o split by metis
  then show "live_tags h' = add_mset (ev_tag s) {#x \<in># live_tags h. snd x \<notin> ?I#}"
    unfolding split by (simp add: h' live_tags_def sessions image_tags_filter ac_simps)
  show "hs_user_requests h' = map (\<lambda>r. if \<exists>s \<in> set removed. ur_session_id r = Some (es_id s) then finish Cancelled now r else r)
       (hs_user_requests h)"
    by (simp add: h' cancel_displaced_map [OF sids])
qed

section \<open>The invariant is kept\<close>

definition lockstep :: "uuid \<Rightarrow> hems_state \<Rightarrow> bool" where
  "lockstep n h \<longleftrightarrow> agree n (live_tags h) (hs_user_requests h)"

lemma lockstep_once: "lockstep n h \<Longrightarrow> once snd (live_tags h)"
  by (simp add: lockstep_def agree_def)

lemma live_tags_mem:
  "(Some EvType, i) \<in># live_tags h \<Longrightarrow> i \<in> es_id ` set_mset (queued_sessions (hs_ev_sessions h))"
  "(Some HeaterType, i) \<in># live_tags h \<Longrightarrow> i \<in> ht_id ` set_mset (mset (map snd (hs_heater_targets h)))"
  "(Some ShiftableLoadType, i) \<in># live_tags h \<Longrightarrow> i \<in> sr_id ` set (hs_shiftable_loads h)"
  by (auto simp: live_tags_def ev_tag_def heater_tag_def load_tag_def image_iff split: if_splits)

lemma live_tags_requests [simp]: "live_tags (h\<lparr>hs_user_requests := R\<rparr>) = live_tags h"
  by (simp add: live_tags_def)

lemma remove_everywhere:
  assumes "once snd (live_tags h)"
  shows "queued_sessions (map (\<lambda>(k, q). (k, snd (queue_remove i q))) (hs_ev_sessions h)) =
    {#x \<in># queued_sessions (hs_ev_sessions h). es_id x \<notin> {i}#}"
proof (rule queued_sessions_map)
  fix k q assume q: "(k, q) \<in> set (hs_ev_sessions h)"
  note d = live_once(3) [OF assms q]
  show "mset (snd (queue_remove i q)) = {#x \<in># mset q. es_id x \<notin> {i}#}"
  proof (cases "i \<in> es_id ` set q")
    case True
    then obtain s where "s \<in> set q" "i = es_id s" by blast
    with queue_remove_Some [OF d, of s] show ?thesis by simp
  next
    case False
    then have "filter_mset (\<lambda>x. es_id x \<noteq> i) (mset q) = mset q" by (auto simp: filter_mset_eq_conv)
    with False show ?thesis by (simp add: queue_remove_None)
  qed
qed

text \<open>What cancelling a request does to what is live: its own session, target or load goes, and nothing else.\<close>

definition cancel_live :: "session_type \<Rightarrow> uuid \<Rightarrow> hems_state \<Rightarrow> hems_state" where
  "cancel_live ty s h =
     (case ty of
        EvType \<Rightarrow> h\<lparr>hs_ev_sessions := map (\<lambda>(k, q). (k, snd (queue_remove s q))) (hs_ev_sessions h)\<rparr>
      | HeaterType \<Rightarrow> h\<lparr>hs_heater_targets := filter (\<lambda>(_, t). Some (ht_id t) \<noteq> Some s) (hs_heater_targets h)\<rparr>
      | ShiftableLoadType \<Rightarrow> h\<lparr>hs_shiftable_loads := filter (\<lambda>l. sr_id l \<noteq> s) (hs_shiftable_loads h)\<rparr>)"

lemma mset_values_filter: "mset (map snd (filter (\<lambda>(_, t). P t) m)) = filter_mset P (mset (map snd m))"
  by (induction m) auto

lemma cancel_live_tags:
  assumes o: "once snd (live_tags h)"
  shows "\<exists>I \<subseteq> {s}. live_tags (cancel_live ty s h) = {#x \<in># live_tags h. snd x \<notin> I#} \<and>
    ((Some ty, s) \<in># live_tags h \<longrightarrow> I = {s})"
proof (cases ty)
  case EvType
  note all = remove_everywhere [OF o, of s]
  show ?thesis
  proof (cases "s \<in> es_id ` set_mset (queued_sessions (hs_ev_sessions h))")
    case True
    with live_tags_drop_ev [OF o _ all] EvType show ?thesis by (intro exI [of _ "{s}"]) (simp add: cancel_live_def)
  next
    case False
    then have "{#x \<in># queued_sessions (hs_ev_sessions h). es_id x \<notin> {s}#} = queued_sessions (hs_ev_sessions h)"
      by (auto simp: filter_mset_eq_conv)
    moreover have "(Some ty, s) \<notin># live_tags h" using False live_tags_mem(1) EvType by blast
    ultimately show ?thesis
      using all EvType by (intro exI [of _ "{}"]) (simp add: cancel_live_def live_tags_def)
  qed
next
  case HeaterType
  have all: "mset (map snd (filter (\<lambda>(_, t). Some (ht_id t) \<noteq> Some s) (hs_heater_targets h))) =
      {#x \<in># mset (map snd (hs_heater_targets h)). ht_id x \<notin> {s}#}"
    using mset_values_filter [of "\<lambda>t. ht_id t \<noteq> s" "hs_heater_targets h"] by simp
  show ?thesis
  proof (cases "s \<in> ht_id ` set_mset (mset (map snd (hs_heater_targets h)))")
    case True
    with live_tags_drop_heater [OF o _ all] HeaterType show ?thesis
      by (intro exI [of _ "{s}"]) (simp add: cancel_live_def)
  next
    case False
    then have "{#x \<in># mset (map snd (hs_heater_targets h)). ht_id x \<notin> {s}#} = mset (map snd (hs_heater_targets h))"
      by (simp only: filter_mset_eq_conv) auto
    moreover have "(Some ty, s) \<notin># live_tags h" using False live_tags_mem(2) HeaterType by blast
    ultimately show ?thesis
      using all HeaterType by (intro exI [of _ "{}"]) (simp add: cancel_live_def live_tags_def flip: mset_map)
  qed
next
  case ShiftableLoadType
  show ?thesis
  proof (cases "s \<in> sr_id ` set (hs_shiftable_loads h)")
    case True
    with live_tags_drop_load [OF o, of "{s}"] ShiftableLoadType show ?thesis
      by (intro exI [of _ "{s}"]) (simp add: cancel_live_def)
  next
    case False
    then have "filter (\<lambda>l. sr_id l \<noteq> s) (hs_shiftable_loads h) = hs_shiftable_loads h" by (auto simp: filter_id_conv)
    moreover have "(Some ty, s) \<notin># live_tags h" using False live_tags_mem(3) ShiftableLoadType by blast
    ultimately show ?thesis
      using ShiftableLoadType by (intro exI [of _ "{}"]) (simp add: cancel_live_def live_tags_def)
  qed
qed

lemma cancel_live_requests [simp]: "hs_user_requests (cancel_live ty s h) = hs_user_requests h"
  by (simp add: cancel_live_def split: session_type.split)

lemma agree_same_session:
  "agree n L R \<Longrightarrow> r \<in> set R \<Longrightarrow> r' \<in> set R \<Longrightarrow> ur_session_id r = ur_session_id r' \<Longrightarrow> r = r'"
  unfolding agree_def by (meson distinct_map inj_onD)

lemma agree_same_id:
  "agree n L R \<Longrightarrow> r \<in> set R \<Longrightarrow> r' \<in> set R \<Longrightarrow> ur_id r = ur_id r' \<Longrightarrow> r = r'"
  unfolding agree_def by (meson distinct_map inj_onD)

lemma agree_live_if_active:
  "agree n L R \<Longrightarrow> r \<in> set R \<Longrightarrow> ur_status r = Active \<Longrightarrow> ur_session_type r = Some ty \<Longrightarrow>
     ur_session_id r = Some s \<Longrightarrow> (Some ty, s) \<in># L"
  unfolding agree_def owns_tag_def by auto

lemma lockstep_cancel:
  assumes l: "lockstep n h"
  shows "lockstep n (snd (cancel_request i now h))"
proof (cases "List.find (\<lambda>r. ur_id r = i) (hs_user_requests h)")
  case None
  then show ?thesis using l by (simp add: cancel_request_def)
next
  case (Some req)
  let ?R = "hs_user_requests h"
  have a: "agree n (live_tags h) ?R" using l by (simp add: lockstep_def)
  have req: "req \<in> set ?R" "ur_id req = i" using find_Some_D [OF Some] by auto
  obtain s ty where s: "ur_session_id req = Some s" and ty: "ur_session_type req = Some ty"
    using a req(1) unfolding agree_def by blast
  let ?f = "\<lambda>r. if ur_id r = i then finish Cancelled now r else r"
  have reqs: "update_first (\<lambda>r. ur_id r = i) (finish Cancelled now) ?R = map ?f ?R"
    by (rule update_first_map [of ur_id]) (use a in \<open>auto simp: agree_def\<close>)
  have h': "snd (cancel_request i now h) = (cancel_live ty s h)\<lparr>hs_user_requests := map ?f ?R\<rparr>"
    by (cases ty) (simp_all add: cancel_request_def Some s ty Let_def reqs cancel_live_def)
  obtain I where I: "I \<subseteq> {s}" "live_tags (cancel_live ty s h) = {#x \<in># live_tags h. snd x \<notin> I#}"
      "(Some ty, s) \<in># live_tags h \<longrightarrow> I = {s}"
    using cancel_live_tags [OF lockstep_once [OF l], of s ty] by blast
  have "ended_by I ?f r" if r: "r \<in> set ?R" for r
  proof (cases "r = req")
    case True
    have "ur_status req = Active \<Longrightarrow> I = {s}" using I(3) agree_live_if_active [OF a req(1) _ ty s] by blast
    then show ?thesis using True req(2) s by (auto simp: ended_by_def)
  next
    case False
    then have "ur_id r \<noteq> i" "ur_session_id r \<noteq> Some s"
      using agree_same_id [OF a r req(1)] agree_same_session [OF a r req(1)] req(2) s by auto
    with I(1) show ?thesis by (auto simp: ended_by_def)
  qed
  from agree_end [OF a this] show ?thesis by (simp add: lockstep_def h' I(2))
qed

lemma lockstep_complete_shiftable:
  assumes l: "lockstep n h" and i: "i \<in> sr_id ` set (hs_shiftable_loads h)"
  shows "lockstep n (snd (complete_shiftable i now h))"
proof -
  let ?R = "hs_user_requests h" and ?P = "\<lambda>r. ur_session_id r = Some i \<and> \<not> is_finished r"
  have a: "agree n (live_tags h) ?R" using l by (simp add: lockstep_def)
  let ?h1 = "cancel_live ShiftableLoadType i h" and ?f = "\<lambda>r. if ?P r then finish Completed now r else r"
  have reqs: "update_first ?P (finish Completed now) ?R = map ?f ?R"
    by (rule update_first_map [of ur_session_id]) (use a in \<open>auto simp: agree_def\<close>)
  have none: "map ?f ?R = ?R" if "List.find ?P ?R = None"
  proof (rule map_idI)
    fix r assume "r \<in> set ?R"
    with that have "\<not> ?P r" by (simp only: find_None_iff) blast
    then show "?f r = r" by (rule if_not_P)
  qed
  have h': "snd (complete_shiftable i now h) = ?h1\<lparr>hs_user_requests := map ?f ?R\<rparr>"
    by (cases "List.find ?P ?R")
      (simp_all add: complete_shiftable_def Let_def cancel_live_def reqs none del: map_map)
  have "live_tags ?h1 = {#x \<in># live_tags h. snd x \<notin> {i}#}"
    using live_tags_drop_load [OF lockstep_once [OF l], of "{i}"] i by (simp add: cancel_live_def)
  moreover have "ended_by {i} ?f r" for r by (auto simp: ended_by_def is_finished_def)
  ultimately show ?thesis using agree_end [OF a, of "{i}" ?f] by (simp add: lockstep_def h')
qed

lemma complete_shiftable_loads:
  "hs_shiftable_loads (snd (complete_shiftable i now h)) = filter (\<lambda>l. sr_id l \<noteq> i) (hs_shiftable_loads h)"
  by (simp add: complete_shiftable_def Let_def split: option.split)

text \<open>Settling ends what time has ended.\<close>

lemma expire_everywhere:
  "queued_sessions (map (\<lambda>(k, q). (k, snd (queue_expire now q))) qs) = {#x \<in># queued_sessions qs. now < es_departure_time x#}"
  by (rule queued_sessions_map) (simp add: queue_expire_def)

lemma ended_sessions_set:
  "set (ended_sessions now h) =
    es_id ` {s \<in> set_mset (queued_sessions (hs_ev_sessions h)). \<not> now < es_departure_time s} \<union>
    ht_id ` {t \<in> snd ` set (hs_heater_targets h). ht_ready_by t \<le> now}"
  by (force simp: ended_sessions_def queue_expire_def queued_sessions_def)

lemma filter_by_id:
  assumes "once f M" and "\<And>x. x \<in># M \<Longrightarrow> P x \<longleftrightarrow> f x \<notin> I"
  shows "filter_mset P M = {#x \<in># M. f x \<notin> I#}"
  using assms(2) by (intro filter_mset_cong) auto

lemma once_id:
  assumes o: "once f M" and x: "x \<in># M"
  shows "f x \<in> f ` {y \<in> set_mset M. Q y} \<longleftrightarrow> Q x"
  using once_eq [OF o _ x] x by (auto simp: image_iff)

lemma lockstep_settle:
  assumes l: "lockstep n h"
  shows "lockstep n (snd (settle_requests now h))"
proof -
  let ?R = "hs_user_requests h" and ?E = "set (ended_sessions now h)" and ?f = "complete_ended (ended_sessions now h) now"
  let ?S = "queued_sessions (hs_ev_sessions h)" and ?T = "mset (map snd (hs_heater_targets h))"
  let ?I = "es_id ` {s \<in> set_mset ?S. \<not> now < es_departure_time s}" and ?J = "ht_id ` {t \<in> set_mset ?T. ht_ready_by t \<le> now}"
  have a: "agree n (live_tags h) ?R" using l by (simp add: lockstep_def)
  have E: "?E = ?I \<union> ?J" by (simp add: ended_sessions_set)
  let ?h1 = "h\<lparr>hs_ev_sessions := map (\<lambda>(k, q). (k, snd (queue_expire now q))) (hs_ev_sessions h)\<rparr>"
  let ?ts = "filter (\<lambda>(_, t). \<not> ht_ready_by t \<le> now) (hs_heater_targets h)"
  have o: "once snd (live_tags h)" by (rule lockstep_once [OF l])
  have S: "once es_id ?S" by (rule live_once(1) [OF o])
  have T: "once ht_id ?T"
    using once_sub [OF o, of "image_mset heater_tag ?T"] once_image [of snd heater_tag ?T] by (simp add: live_tags_def)
  have "queued_sessions (hs_ev_sessions ?h1) = {#x \<in># ?S. es_id x \<notin> ?I#}"
    using expire_everywhere [of now "hs_ev_sessions h"] filter_by_id [OF S, of "\<lambda>s. now < es_departure_time s" ?I]
      once_id [OF S, of _ "\<lambda>s. \<not> now < es_departure_time s"] by simp
  then have 1: "live_tags ?h1 = {#x \<in># live_tags h. snd x \<notin> ?I#}"
    by (intro live_tags_drop_ev [OF o]) auto
  have "mset (map snd ?ts) = {#x \<in># ?T. ht_id x \<notin> ?J#}"
    unfolding mset_values_filter by (rule filter_by_id [OF T]) (simp only: once_id [OF T])
  then have 2: "live_tags (?h1\<lparr>hs_heater_targets := ?ts\<rparr>) = {#x \<in># live_tags ?h1. snd x \<notin> ?J#}"
    by (intro live_tags_drop_heater) (use once_filter [OF o] 1 in auto)
  have 3: "live_tags (?h1\<lparr>hs_heater_targets := ?ts\<rparr>) = {#x \<in># live_tags h. snd x \<notin> ?E#}"
    unfolding 2 1 E by (simp add: filter_filter_mset conj_commute)
  have "ended_by ?E ?f r" for r
    by (auto simp: ended_by_def complete_ended_def is_finished_def split: option.splits)
  from agree_end [OF a this] have "agree n {#x \<in># live_tags h. snd x \<notin> ?E#} (map ?f ?R)" .
  then have "agree n {#x \<in># live_tags h. snd x \<notin> ?E#} (prune_finished (map ?f ?R) now)"
    unfolding prune_finished_def
  proof (rule agree_drop)
    fix r assume r: "r \<in> set (map ?f ?R)" and act: "ur_status r = Active"
    have "distinct (map ur_id (map ?f ?R))"
      using a by (simp add: agree_def complete_ended_def o_def if_distrib cong: if_cong)
    from dropped_iff [OF this r] act show "ur_id r \<notin> set (dropped_ids (map ?f ?R) now)"
      by (simp add: is_finished_def)
  qed
  with 3 show ?thesis by (simp add: lockstep_def settle_requests_def Let_def live_tags_def)
qed

section \<open>Entering\<close>

text \<open>What every entry has in common: some of what is live ends with its requests, and one new thing enters.\<close>

definition enters :: "tag \<Rightarrow> hems_state \<Rightarrow> hems_state \<Rightarrow> bool" where
  "enters x h h1 \<longleftrightarrow> (\<exists>E f. live_tags h1 = add_mset x {#y \<in># live_tags h. snd y \<notin> E#} \<and>
     hs_user_requests h1 = map f (hs_user_requests h) \<and> (\<forall>r \<in> set (hs_user_requests h). ended_by E f r))"

lemma entersI:
  assumes "live_tags h1 = add_mset x {#y \<in># live_tags h. snd y \<notin> E#}" and "hs_user_requests h1 = map f (hs_user_requests h)"
    and "\<And>r. r \<in> set (hs_user_requests h) \<Longrightarrow> ended_by E f r"
  shows "enters x h h1"
  using assms unfolding enters_def by blast

lemma enters_plain:
  assumes "live_tags h1 = add_mset x (live_tags h)" and "hs_user_requests h1 = hs_user_requests h"
  shows "enters x h h1"
  by (rule entersI [where E = "{}" and f = "\<lambda>r. r"]) (use assms in \<open>auto simp: ended_by_def\<close>)

lemma upsert_fresh:
  assumes "ur_id req \<notin> ur_id ` set (hs_user_requests h)"
  shows "hs_user_requests (upsert_request req h) = hs_user_requests h @ [req]" "live_tags (upsert_request req h) = live_tags h"
proof -
  have "\<not> list_ex (\<lambda>r. ur_id r = ur_id req) (hs_user_requests h)" 
  proof
    assume "list_ex (\<lambda>r. ur_id r = ur_id req) (hs_user_requests h)"
    then obtain r where "r \<in> set (hs_user_requests h)" "ur_id req = ur_id r" by (auto simp: list_ex_iff)
    with assms show False by (metis imageI)
  qed
  then show "hs_user_requests (upsert_request req h) = hs_user_requests h @ [req]" "live_tags (upsert_request req h) = live_tags h"
    by (simp_all add: upsert_request_def live_tags_def)
qed

lemma lockstep_enter:
  assumes l: "lockstep n h" and e: "enters (Some ty, b) h h1"
    and ids: "n \<le> ur_id req" "ur_id req < m" "n \<le> b" "b < m"
    and req: "ur_status req = Active" "ur_session_id req = Some b" "ur_session_type req = Some ty"
  shows "lockstep m (upsert_request req h1)"
proof -
  obtain E f where tags: "live_tags h1 = add_mset (Some ty, b) {#y \<in># live_tags h. snd y \<notin> E#}"
    and reqs: "hs_user_requests h1 = map f (hs_user_requests h)" and f: "\<forall>r \<in> set (hs_user_requests h). ended_by E f r"
    using e unfolding enters_def by blast
  have ended: "agree n {#y \<in># live_tags h. snd y \<notin> E#} (map f (hs_user_requests h))"
    by (rule agree_end) (use l f in \<open>auto simp: lockstep_def\<close>)
  have "ur_id r < n" if "r \<in> set (map f (hs_user_requests h))" for r
    using ended that unfolding agree_def by blast
  then have "ur_id req \<notin> ur_id ` set (hs_user_requests h1)" using ids(1) unfolding reqs by force
  from upsert_fresh [OF this] agree_start [OF ended ids req] show ?thesis
    by (simp add: lockstep_def tags reqs del: map_map)
qed

lemma enters_replace:
  assumes r: "replace_ev_sessions ids s now h = (Inr removed, h')" and l: "lockstep n h"
  shows "enters (ev_tag s) h h'"
proof -
  have "distinct (map ur_session_id (hs_user_requests h))" using l by (simp add: lockstep_def agree_def)
  note eff = replace_accepted [OF r lockstep_once [OF l] this]
  show ?thesis
    by (rule entersI [OF eff]) (auto simp: ended_by_def)
qed

lemma enters_heater:
  assumes l: "lockstep n h"
  shows "enters (heater_tag t) h (snd (replace_heater_target t now h))"
proof -
  let ?R = "hs_user_requests h" and ?old = "hm_get (hs_heater_targets h) (ht_asset_id t)"
  let ?ts = "hm_put (ht_asset_id t) t (hs_heater_targets h)"
  let ?P = "\<lambda>r. ur_session_id r = map_option ht_id ?old \<and> \<not> is_finished r"
  let ?f = "\<lambda>r. if ?P r then finish Cancelled now r else r"
  have a: "agree n (live_tags h) ?R" using l by (simp add: lockstep_def)
  have reqs: "update_first ?P (finish Cancelled now) ?R = map ?f ?R"
    by (rule update_first_map [of ur_session_id]) (use a in \<open>auto simp: agree_def\<close>)
  have none: "map ?f ?R = ?R" if "List.find ?P ?R = None"
  proof (rule map_idI)
    fix r assume "r \<in> set ?R"
    with that have "\<not> ?P r" by (simp only: find_None_iff) blast
    then show "?f r = r" by (rule if_not_P)
  qed
  have h': "snd (replace_heater_target t now h) = h\<lparr>hs_heater_targets := ?ts, hs_user_requests := map ?f ?R\<rparr>"
    by (cases "List.find ?P ?R") (simp_all add: replace_heater_target_def Let_def reqs none del: map_map)
  note put = values_put [of "ht_asset_id t" t "hs_heater_targets h"]
  show ?thesis
  proof (cases ?old)
    case None
    have "\<not> ?P r" if "r \<in> set ?R" for r using a that None unfolding agree_def by fastforce
    then have "map ?f ?R = ?R" by (intro map_idI if_not_P) blast
    moreover have "mset (map snd ?ts) = add_mset t (mset (map snd (hs_heater_targets h)))" using put None by simp
    ultimately show ?thesis
      unfolding h' by (intro enters_plain) (simp_all add: live_tags_def flip: mset_map)
  next
    case (Some old)
    let ?T = "mset (map snd (hs_heater_targets h))"
    have o: "once snd (live_tags h)" by (rule lockstep_once [OF l])
    have T: "once ht_id ?T"
      using once_sub [OF o, of "image_mset heater_tag ?T"] once_image [of snd heater_tag ?T] by (simp add: live_tags_def)
    have old: "old \<in># ?T" using hm_get_mem [OF Some] by force
    obtain T' where T': "?T = add_mset old T'" using multi_member_split [OF old] by blast
    have "ht_id x \<noteq> ht_id old" if "x \<in># T'" for x
      using T that unfolding T' once_add by (metis imageI)
    then have rest: "{#x \<in># ?T. ht_id x \<notin> {ht_id old}#} = T'"
      unfolding T' by (auto simp: filter_mset_eq_conv)
    have ts: "mset (map snd ?ts) = add_mset t {#x \<in># ?T. ht_id x \<notin> {ht_id old}#}"
      unfolding rest using put Some T' by simp
    let ?A = "image_mset heater_tag ?T"
      and ?B = "image_mset ev_tag (queued_sessions (hs_ev_sessions h)) + image_mset load_tag (mset (hs_shiftable_loads h))"
    have split: "live_tags h = ?A + ?B" by (simp add: live_tags_def ac_simps)
    have "snd ` set_mset ?A = ht_id ` set_mset ?T" by (simp add: image_image)
    then have "{ht_id old} \<subseteq> snd ` set_mset ?A" using imageI [OF old, of ht_id] by (simp only:) simp
    then have B: "{#x \<in># ?B. snd x \<notin> {ht_id old}#} = ?B" using filter_disjoint o split by metis
    have "live_tags (snd (replace_heater_target t now h)) = image_mset heater_tag (mset (map snd ?ts)) + ?B"
      by (simp add: h' live_tags_def ac_simps)
    also have "\<dots> = add_mset (heater_tag t) {#x \<in># live_tags h. snd x \<notin> {ht_id old}#}"
      by (simp only: ts split filter_union_mset [of _ ?A ?B] B image_mset_add_mset image_tags_filter
          union_mset_add_mset_left)
    finally show ?thesis
    proof (rule entersI)
      show "hs_user_requests (snd (replace_heater_target t now h)) = map ?f ?R" by (simp add: h')
      show "ended_by {ht_id old} ?f r" for r using Some by (auto simp: ended_by_def is_finished_def)
    qed
  qed
qed

lemma enters_load:
  assumes "add_shiftable_load l h = (Inr u, h')"
  shows "enters (load_tag l) h h'"
  by (rule enters_plain) (use assms in \<open>auto simp: add_shiftable_load_def live_tags_def split: if_splits\<close>)

section \<open>The desk\<close>

lemma announce_hems [simp]: "dk_hems (announce r st now d) = dk_hems d"
  by (simp add: announce_def)

lemma announce_all_hems [simp]: "dk_hems (fold (\<lambda>r. announce r st now) rs d) = dk_hems d"
  by (induction rs arbitrary: d) simp_all

lemma with_hems_eq: "with_hems f d = (fst (f (dk_hems d)), d\<lparr>dk_hems := snd (f (dk_hems d))\<rparr>)"
  by (simp add: with_hems_def case_prod_unfold Let_def)

lemma put_request_hems [simp]: "dk_hems (put_request r d) = upsert_request r (dk_hems d)"
  by (simp add: put_request_def)

text \<open>What the builders answer when they accept.\<close>

lemma create_from_body_Inr:
  assumes "create_from_body rid body slices now = Inr req"
  shows "ur_id req = rid \<and> ur_status req = Active"
  using assms by (auto simp: create_from_body_def and_then_Inr_iff split: if_splits)

lemma create_ev_Inr:
  assumes "create_ev rid sid body slices now = Inr (req, s)"
  shows "ur_id req = rid \<and> ur_status req = Active \<and> ur_session_id req = Some sid \<and> ur_session_type req = Some EvType \<and>
    es_id s = sid \<and> ev_tag s = (Some EvType, sid)"
  using assms by (auto simp: create_ev_def and_then_Inr_iff ev_tag_def Let_def split: if_splits dest: create_from_body_Inr)

lemma create_heater_Inr:
  assumes "create_heater rid sid body slices now = Inr (req, t)"
  shows "ur_id req = rid \<and> ur_status req = Active \<and> ur_session_id req = Some sid \<and> ur_session_type req = Some HeaterType \<and>
    heater_tag t = (Some HeaterType, sid)"
  using assms by (auto simp: create_heater_def and_then_Inr_iff heater_tag_def dest: create_from_body_Inr)

lemma create_shiftable_Inr:
  assumes "create_shiftable rid sid body now = Inr (req, l)"
  shows "ur_id req = rid \<and> ur_status req = Active \<and> ur_session_id req = Some sid \<and> ur_session_type req = Some ShiftableLoadType \<and>
    load_tag l = (Some ShiftableLoadType, sid)"
  using assms by (auto simp: create_shiftable_def and_then_Inr_iff load_tag_def Let_def split: if_splits)

text \<open>A submission either enters what it builds with its request, or leaves everything as it was.\<close>

definition same_hems :: "hems_state \<Rightarrow> hems_state \<Rightarrow> bool" where
  "same_hems h h' \<longleftrightarrow> hs_user_requests h' = hs_user_requests h \<and> hs_heater_targets h' = hs_heater_targets h \<and>
     hs_shiftable_loads h' = hs_shiftable_loads h \<and> (\<forall>a. ev_sessions_of a h' = ev_sessions_of a h)"

lemma install_session_cases:
  assumes i: "install_session ids s now d = (r, d')" and l: "lockstep n (dk_hems d)"
  shows "dk_roster d' = dk_roster d \<and> dk_trace d' = dk_trace d \<and> dk_replans d' = dk_replans d \<and>
    (case r of Inl e \<Rightarrow> same_hems (dk_hems d) (dk_hems d') \<and> live_tags (dk_hems d') = live_tags (dk_hems d)
     | Inr displaced \<Rightarrow> enters (ev_tag s) (dk_hems d) (dk_hems d'))"
proof (cases ids)
  case None
  obtain x h' where x: "insert_ev_session s (dk_hems d) = (x, h')" by (cases "insert_ev_session s (dk_hems d)")
  have d': "d' = d\<lparr>dk_hems := h'\<rparr>" "r = and_then (map_err (\<lambda>(_, clash). EvSessionsConflict (map clashing_of clash)) x) (\<lambda>_. Inr [])"
    using i None by (simp_all add: install_session_def with_hems_eq x)
  show ?thesis
  proof (cases x)
    case (Inl e)
    then show ?thesis using insert_refused [OF x [unfolded Inl]]
      by (simp add: d' same_hems_def map_err_def case_prod_unfold)
  next
    case (Inr u)
    then show ?thesis using enters_plain [OF insert_accepted [OF x [unfolded Inr]]] by (simp add: d' map_err_def)
  qed
next
  case (Some named)
  let ?h = "dk_hems d"
  obtain x h' where x: "replace_ev_sessions named s now ?h = (x, h')" by (cases "replace_ev_sessions named s now ?h")
  have d': "d' = d\<lparr>dk_hems := h'\<rparr>"
      "r = map_err (\<lambda>(rejection, clash). EvReplaceRejected rejection (map clashing_of clash)) x"
    using i Some by (simp_all add: install_session_def with_hems_eq x)
  show ?thesis
  proof (cases x)
    case (Inl e)
    have "distinct (map es_id (ev_sessions_of (es_asset_id s) ?h))"
      unfolding ev_sessions_of_def by (rule live_once(2) [OF lockstep_once [OF l]])
    from replace_refused [OF x [unfolded Inl] this] show ?thesis
      by (simp add: d' Inl same_hems_def map_err_def case_prod_unfold)
  next
    case (Inr removed)
    then show ?thesis using enters_replace [OF x [unfolded Inr] l] by (simp add: d' map_err_def)
  qed
qed

definition untouched :: "desk \<Rightarrow> desk \<Rightarrow> bool" where
  "untouched d d' \<longleftrightarrow> same_hems (dk_hems d) (dk_hems d') \<and> dk_roster d' = dk_roster d \<and> dk_trace d' = dk_trace d \<and>
     dk_replans d' = dk_replans d"

lemma untouched_refl [simp]: "untouched d d" by (simp add: untouched_def same_hems_def)

text \<open>What each path of a submission keeps.\<close>

definition submits_well :: "uuid \<Rightarrow> desk \<Rightarrow> (submit_error + user_request) \<times> desk \<Rightarrow> bool" where
  "submits_well n d out \<longleftrightarrow> lockstep (n + 2) (dk_hems (snd out)) \<and> (\<forall>e. fst out = Inl e \<longrightarrow> untouched d (snd out))"

lemma submits_well_refused:
  assumes "lockstep n (dk_hems d)" and "untouched d d'" and "live_tags (dk_hems d') = live_tags (dk_hems d)"
  shows "submits_well n d (Inl e, d')"
  using assms agree_mono [of n _ _ "n + 2"] by (simp add: submits_well_def lockstep_def untouched_def same_hems_def)

lemma submits_well_accepted:
  assumes l: "lockstep n (dk_hems d)" and e: "enters (Some ty, Suc n) (dk_hems d) h1"
    and req: "ur_id req = n \<and> ur_status req = Active \<and> ur_session_id req = Some (Suc n) \<and> ur_session_type req = Some ty"
    and d': "dk_hems d' = upsert_request req h1"
  shows "submits_well n d (Inr x, d')"
proof -
  have "lockstep (n + 2) (upsert_request req h1)" by (rule lockstep_enter [OF l e]) (use req in simp_all)
  then show ?thesis by (simp add: submits_well_def d')
qed

lemma submit_shiftable_well:
  assumes l: "lockstep n (dk_hems d)"
  shows "submits_well n d (submit_shiftable n (Suc n) body now d)"
proof (cases "create_shiftable n (Suc n) body now")
  case (Inl e)
  then show ?thesis by (simp add: submit_shiftable_def submits_well_refused [OF l])
next
  case (Inr p)
  then obtain req ld where c: "create_shiftable n (Suc n) body now = Inr (req, ld)" by (cases p) auto
  note req = create_shiftable_Inr [OF c]
  obtain x h1 where a: "add_shiftable_load ld (dk_hems d) = (x, h1)" by (cases "add_shiftable_load ld (dk_hems d)")
  show ?thesis
  proof (cases x)
    case (Inl e)
    with a have "h1 = dk_hems d" by (auto simp: add_shiftable_load_def split: if_splits)
    then show ?thesis by (simp add: submit_shiftable_def c with_hems_eq a Inl submits_well_refused [OF l])
  next
    case (Inr u)
    have e: "enters (Some ShiftableLoadType, Suc n) (dk_hems d) h1"
      using enters_load [of ld "dk_hems d" u h1] a Inr req by simp
    show ?thesis
      unfolding submit_shiftable_def c sum.case prod.case with_hems_eq a Inr fst_conv snd_conv
      by (rule submits_well_accepted [OF l e, where req = req]) (use req in simp_all)
  qed
qed

lemma submit_charge_well:
  assumes l: "lockstep n (dk_hems d)"
  shows "submits_well n d (submit_charge_session n (Suc n) body slices now d)"
proof (cases "create_ev n (Suc n) body slices now")
  case (Inl e)
  then show ?thesis by (simp add: submit_charge_session_def submits_well_refused [OF l])
next
  case (Inr p)
  then obtain req es where c: "create_ev n (Suc n) body slices now = Inr (req, es)" by (cases p) auto
  note req = create_ev_Inr [OF c]
  obtain x d1 where i: "install_session (rp_replace_session_ids body) es now d = (x, d1)"
    by (cases "install_session (rp_replace_session_ids body) es now d")
  note well = install_session_cases [OF i l]
  show ?thesis
  proof (cases x)
    case (Inl e)
    with well have "untouched d d1" "live_tags (dk_hems d1) = live_tags (dk_hems d)" by (simp_all add: untouched_def)
    then show ?thesis by (simp add: submit_charge_session_def c i Inl submits_well_refused [OF l])
  next
    case (Inr displaced)
    with well req have e: "enters (Some EvType, Suc n) (dk_hems d) (dk_hems d1)" by simp
    show ?thesis
      unfolding submit_charge_session_def c sum.case prod.case i Inr Let_def
      by (rule submits_well_accepted [OF l e, where req = req]) (use req in simp_all)
  qed
qed

lemma submit_temperature_well:
  assumes l: "lockstep n (dk_hems d)"
  shows "submits_well n d (submit_temperature n (Suc n) body slices now d)"
proof (cases "create_heater n (Suc n) body slices now")
  case (Inl e)
  then show ?thesis by (simp add: submit_temperature_def submits_well_refused [OF l])
next
  case (Inr p)
  then obtain req t where c: "create_heater n (Suc n) body slices now = Inr (req, t)" by (cases p) auto
  note req = create_heater_Inr [OF c]
  have e: "enters (Some HeaterType, Suc n) (dk_hems d) (snd (replace_heater_target t now (dk_hems d)))"
    using enters_heater [OF l, of t now] req by simp
  show ?thesis
    unfolding submit_temperature_def c sum.case prod.case with_hems_eq Let_def
    by (rule submits_well_accepted [OF l e, where req = req]) (use req in \<open>simp_all split: option.split\<close>)
qed

lemma submit_cases:
  assumes "lockstep n (dk_hems d)"
  shows "submits_well n d (submit n (Suc n) body overrides raw now d)"
  using submit_shiftable_well [OF assms] submit_charge_well [OF assms] submit_temperature_well [OF assms]
    submits_well_refused [OF assms untouched_refl]
  by (simp add: submit_def Let_def split: option.split request_kind.split)

lemma lockstep_cancel_and_announce:
  assumes l: "lockstep n (dk_hems d)"
  shows "lockstep n (dk_hems (snd (cancel_and_announce i now d)))"
proof -
  have "lockstep n (dk_hems (snd (cancel i now d)))"
  proof (cases "find_request i d")
    case None
    with l show ?thesis by (simp add: cancel_def)
  next
    case (Some req)
    obtain out d1 where c: "cancel_in_roster req d = (out, d1)" by (cases "cancel_in_roster req d")
    then have "dk_hems d1 = dk_hems d" by (auto simp: cancel_in_roster_def case_prod_unfold Let_def split: if_splits)
    with lockstep_cancel [OF l, of i now] l show ?thesis
      by (simp add: cancel_def Some c with_hems_eq Let_def)
  qed
  then show ?thesis
    by (cases "cancel i now d") (auto simp: cancel_and_announce_def split: sum.split)
qed

lemma lockstep_settle_and_announce:
  "lockstep n (dk_hems d) \<Longrightarrow> lockstep n (dk_hems (settle_and_announce now d))"
  using lockstep_settle [of n "dk_hems d" now] by (simp add: settle_and_announce_def with_hems_eq Let_def)

lemma complete_and_announce_hems:
  "dk_hems (complete_and_announce now i d) = snd (complete_shiftable i now (dk_hems d))"
  by (simp add: complete_and_announce_def with_hems_eq Let_def split: option.split)

lemma lockstep_complete_vanished:
  assumes "lockstep n (dk_hems d)"
  shows "lockstep n (dk_hems (complete_vanished now present d))"
proof -
  let ?step = "\<lambda>l d. if sr_asset_id l \<in> set present then d else complete_and_announce now (sr_id l) d"
  have "lockstep n (dk_hems (fold ?step ls d))"
    if "lockstep n (dk_hems d)" "distinct (map sr_id ls)" "set ls \<subseteq> set (hs_shiftable_loads (dk_hems d))" for ls d
    using that
  proof (induction ls arbitrary: d)
    case (Cons l ls)
    have l: "sr_id l \<in> sr_id ` set (hs_shiftable_loads (dk_hems d))" using Cons.prems(3) by auto
    have "sr_id x \<noteq> sr_id l" if "x \<in> set ls" for x using Cons.prems(2) that by (metis distinct.simps(2) image_eqI list.simps(9) set_map)
    then have "set ls \<subseteq> set (hs_shiftable_loads (dk_hems (?step l d)))"
      using Cons.prems(3) by (auto simp: complete_and_announce_hems complete_shiftable_loads)
    moreover have "lockstep n (dk_hems (?step l d))"
      using Cons.prems(1) lockstep_complete_shiftable [OF Cons.prems(1) l] by (simp add: complete_and_announce_hems)
    ultimately show ?case using Cons.IH [of "?step l d"] Cons.prems(2) by simp
  qed simp
  moreover have "distinct (map sr_id (hs_shiftable_loads (dk_hems d)))"
    using once_sub [OF lockstep_once [OF assms], of "image_mset load_tag (mset (hs_shiftable_loads (dk_hems d)))"]
    by (simp add: live_tags_def once_image) (simp add: once_distinct)
  ultimately show ?thesis unfolding complete_vanished_def using assms by blast
qed

lemma agree_record_tick:
  assumes "agree n L R"
  shows "agree n L (snd (record_tick tariffs dt_s now assets (ledger, R)))"
proof -
  have "agree n L (snd (fold (record_asset rates dt_h now) assets (ledger, R)))" if "agree n L R" for rates dt_h ledger R
    using that
  proof (induction assets arbitrary: ledger R)
    case (Cons a assets)
    obtain ledger' R' where step: "record_asset rates dt_h now a (ledger, R) = (ledger', R')"
      by (cases "record_asset rates dt_h now a (ledger, R)")
    have "agree n L (map (charge_request i cost) R)" for i cost
      by (rule agree_relabel [OF Cons.prems]) (simp add: charge_request_def)
    then have "agree n L R'"
      using step Cons.prems by (auto simp: record_asset_def Let_def split: if_splits)
    then show ?case using Cons.IH by (simp add: step)
  qed simp
  then show ?thesis using assms by (simp add: record_tick_def)
qed

lemma lockstep_tick_booth:
  assumes "lockstep n (dk_hems (bo_desk b))"
  shows "lockstep n (dk_hems (bo_desk (tick_booth sp dt drawn co2 tariffs dt_s now b)))"
proof -
  have "lockstep n (dk_hems (settle_and_announce now (complete_vanished now present (d\<lparr>dk_roster := r\<rparr>))))"
    if "lockstep n (dk_hems d)" for present r d
    by (rule lockstep_settle_and_announce, rule lockstep_complete_vanished) (use that in simp)
  from this [OF assms] show ?thesis
    by (simp add: tick_booth_def publish_tick_def account_tick_def Let_def case_prod_unfold lockstep_def
        agree_record_tick)
qed

text \<open>The planned sessions take fresh ids as they are built.\<close>

fun planned_from :: "uuid \<Rightarrow> instant \<Rightarrow> (string \<times> f64 \<times> instant \<times> instant) list \<Rightarrow> ev_session list" where
  "planned_from n now [] = []"
| "planned_from n now ((a, soc, start, departure) # ts) =
     simulated_session n a soc start departure now # planned_from (Suc n) now ts"

lemma lockstep_plan:
  assumes "lockstep n (snd ah)"
  shows "lockstep (n + length ts) (snd (fold (plan_one queued) (planned_from n now ts) ah))"
  using assms
proof (induction ts arbitrary: n ah)
  case (Cons t ts)
  obtain a soc start departure where t: "t = (a, soc, start, departure)" by (cases t) auto
  obtain added h where ah: "ah = (added, h)" by (cases ah)
  let ?s = "simulated_session n a soc start departure now"
  have h: "agree n (live_tags h) (hs_user_requests h)" using Cons.prems ah by (simp add: lockstep_def)
  have "lockstep (Suc n) (snd (plan_one queued ?s ah))"
  proof (cases "insert_ev_session ?s h")
    case (Pair x h')
    show ?thesis
    proof (cases x)
      case (Inl e)
      with insert_refused [of ?s h e h'] Pair h agree_mono [OF h, of "Suc n"] show ?thesis
        by (auto simp: plan_one_def ah lockstep_def)
    next
      case (Inr u)
      have "agree (Suc n) (add_mset (None, n) (live_tags h)) (hs_user_requests h)"
        by (rule agree_plan [OF h]) simp_all
      with insert_accepted [of ?s h u h'] Pair Inr agree_mono [OF h, of "Suc n"] show ?thesis
        by (auto simp: plan_one_def ah lockstep_def ev_tag_def simulated_session_def)
    qed
  qed
  from Cons.IH [OF this] show ?case by (simp add: t)
qed simp

section \<open>The state machine\<close>

text \<open>Whatever reaches the requests and the sessions. Fresh ids come from a supply.\<close>

datatype booth_op =
    BSubmit request_params "comfort_rate list hmap" "request_slice list" instant
  | BCancel uuid instant
  | BPlan "(string \<times> f64 \<times> instant \<times> instant) list" instant
  | BTick "string \<Rightarrow> f64" span "string \<Rightarrow> f64" "string \<Rightarrow> f64 option" "tariff_snapshot list" f64 instant

definition on_desk :: "(desk \<Rightarrow> desk) \<Rightarrow> booth \<Rightarrow> booth" where
  "on_desk f b = b\<lparr>bo_desk := f (bo_desk b)\<rparr>"

fun booth_step :: "uuid \<times> booth \<Rightarrow> booth_op \<Rightarrow> uuid \<times> booth" where
  "booth_step (n, b) (BSubmit body overrides raw now) =
     (n + 2, on_desk (\<lambda>d. snd (submit n (Suc n) body overrides raw now d)) b)"
| "booth_step (n, b) (BCancel i now) = (n, on_desk (\<lambda>d. snd (cancel_and_announce i now d)) b)"
| "booth_step (n, b) (BPlan ts now) =
     (n + length ts, on_desk (\<lambda>d. snd (with_hems (install_planned_sessions (planned_from n now ts)) d)) b)"
| "booth_step (n, b) (BTick sp dt drawn co2 tariffs dt_s now) = (n, tick_booth sp dt drawn co2 tariffs dt_s now b)"

definition booth_start :: "roster \<Rightarrow> uuid \<times> booth" where
  "booth_start r = (0, \<lparr>bo_desk = \<lparr>dk_hems = \<lparr>hs_ev_sessions = [], hs_heater_targets = [], hs_shiftable_loads = [],
     hs_user_requests = []\<rparr>, dk_roster = r, dk_trace = [], dk_replans = 0\<rparr>, bo_ledger = []\<rparr>)"

abbreviation booth_hems :: "uuid \<times> booth \<Rightarrow> hems_state" where
  "booth_hems nb \<equiv> dk_hems (bo_desk (snd nb))"

lemma booth_step_lockstep:
  assumes "lockstep (fst nb) (booth_hems nb)"
  shows "lockstep (fst (booth_step nb op)) (booth_hems (booth_step nb op))"
proof -
  obtain n b where nb: "nb = (n, b)" by (cases nb)
  with assms have l: "lockstep n (dk_hems (bo_desk b))" by simp
  show ?thesis
  proof (cases op)
    case (BSubmit body overrides raw now)
    then show ?thesis
      using submit_cases [OF l, of body overrides raw now] by (simp add: nb on_desk_def submits_well_def)
  next
    case (BCancel i now)
    then show ?thesis using lockstep_cancel_and_announce [OF l] by (simp add: nb on_desk_def)
  next
    case (BPlan ts now)
    then show ?thesis
      using lockstep_plan [of n "(0, dk_hems (bo_desk b))" ts _ now] l
      by (simp add: nb on_desk_def with_hems_eq install_planned_sessions_def)
  next
    case BTick
    then show ?thesis using lockstep_tick_booth [OF l] by (simp add: nb)
  qed
qed

interpretation booth: guarded_steps "\<lambda>nb. lockstep (fst nb) (booth_hems nb)" booth_step
  by unfold_locales (rule booth_step_lockstep)

lemma booth_lockstep: "lockstep (fst (foldl booth_step (booth_start r) ops)) (booth_hems (foldl booth_step (booth_start r) ops))"
  by (rule booth.inv_run) (simp add: booth_start_def lockstep_def agree_def live_tags_def once_def)

section \<open>Properties\<close>

lemma once_multiset_eqI:
  assumes "once (\<lambda>x. x) A" "once (\<lambda>x. x) B" and "set_mset A = set_mset B"
  shows "A = B"
proof (rule multiset_eqI)
  fix x
  have "count A x \<le> 1" "count B x \<le> 1" using assms(1,2) by (simp_all add: once_def)
  moreover have "count A x = 0 \<longleftrightarrow> count B x = 0" using assms(3) by (simp add: count_eq_zero_iff)
  ultimately show "count A x = count B x" by linarith
qed

lemma once_finer:
  assumes "once f M" and "\<And>x y. x \<in># M \<Longrightarrow> y \<in># M \<Longrightarrow> g x = g y \<Longrightarrow> f x = f y"
  shows "once g M"
  using assms
proof (induction M)
  case (add x M)
  have "once f M" and x: "f x \<notin> f ` set_mset M" using add.prems(1) by (simp_all add: once_add)
  have "g x \<notin> g ` set_mset M"
  proof
    assume "g x \<in> g ` set_mset M"
    then obtain y where "y \<in># M" "g x = g y" by blast
    with add.prems(2) [of x y] x show False by auto
  qed
  moreover have "once g M" by (rule add.IH [OF \<open>once f M\<close>]) (use add.prems(2) in auto)
  ultimately show ?case by (simp add: once_add)
qed (simp add: once_def)

lemma agree_matching:
  assumes a: "agree n L R"
  shows "image_mset (\<lambda>r. (ur_session_type r, ur_session_id r)) (mset (filter (\<lambda>r. ur_status r = Active) R)) =
    image_mset (\<lambda>x. (fst x, Some (snd x))) {#x \<in># L. fst x \<noteq> None#}" (is "?A = ?B")
proof (rule once_multiset_eqI)
  let ?R = "filter (\<lambda>r. ur_status r = Active) R"
  have "distinct (map ur_session_id ?R)" using a by (simp add: agree_def distinct_map_filter)
  then have "once ur_session_id (mset ?R)" by (simp only: once_distinct)
  then have "once (\<lambda>r. (ur_session_type r, ur_session_id r)) (mset ?R)" by (rule once_finer) simp
  then show "once (\<lambda>x. x) ?A" by (simp only: once_image)
  have "once snd L" by (rule agree_once [OF a])
  then have "once snd {#x \<in># L. fst x \<noteq> None#}" by (rule once_filter)
  then have "once (\<lambda>x. (fst x, Some (snd x))) {#x \<in># L. fst x \<noteq> None#}" by (rule once_finer) simp
  then show "once (\<lambda>x. x) ?B" by (simp only: once_image)
  have iff: "x \<in># L \<longleftrightarrow> (\<exists>r \<in> set R. owns_tag r x)" if "fst x \<noteq> None" for x
    using a that unfolding agree_def by blast
  have all: "\<exists>ty i. ur_session_type r = Some ty \<and> ur_session_id r = Some i" if "r \<in> set R" for r
    using a that unfolding agree_def by blast
  show "set_mset ?A = set_mset ?B"
  proof (intro set_eqI iffI)
    fix p assume "p \<in># ?A"
    then obtain r where r: "r \<in> set R" "ur_status r = Active" "p = (ur_session_type r, ur_session_id r)" by auto
    obtain ty i where ti: "ur_session_type r = Some ty" "ur_session_id r = Some i" using all [OF r(1)] by blast
    then have "(Some ty, i) \<in># L" by (intro agree_live_if_active [OF a r(1,2)])
    then show "p \<in># ?B" by (auto simp: r(3) ti intro!: image_eqI [of _ _ "(Some ty, i)"])
  next
    fix p assume "p \<in># ?B"
    then obtain x where x: "x \<in># L" "fst x \<noteq> None" "p = (fst x, Some (snd x))" by auto
    then obtain r where "r \<in> set R" "owns_tag r x" using iff by blast
    then show "p \<in># ?A" by (auto simp: x(3) owns_tag_def intro!: image_eqI [of _ _ r])
  qed
qed

text \<open>
  C24. Whatever is submitted, cancelled, planned ahead and ticked, from an empty start: the active requests and the
  sessions, targets and loads that requests installed match one to one, by kind and id, and every id in use is
  used once.
\<close>

theorem requests_and_sessions_agree:
  fixes ops :: "booth_op list" and r :: roster
  defines "h \<equiv> booth_hems (foldl booth_step (booth_start r) ops)"
  shows "image_mset (\<lambda>r. (ur_session_type r, ur_session_id r)) (mset (filter (\<lambda>r. ur_status r = Active) (hs_user_requests h))) =
      image_mset (\<lambda>x. (fst x, Some (snd x))) {#x \<in># live_tags h. fst x \<noteq> None#} \<and>
    distinct (map ur_id (hs_user_requests h)) \<and> distinct (map ur_session_id (hs_user_requests h)) \<and> once snd (live_tags h)"
proof -
  obtain n where a: "agree n (live_tags h) (hs_user_requests h)"
    using booth_lockstep [of r ops] unfolding h_def lockstep_def by blast
  show ?thesis using agree_matching [OF a] a by (simp add: agree_def)
qed

text \<open>
  C25. A refused submission changes nothing: not the queues of any EV, the heater targets, the loads, the requests,
  the roster, the trace or the replans asked for; whatever was submitted before, whatever the refusal.
\<close>

theorem refused_submission_changes_nothing:
  fixes ops :: "booth_op list" and ros :: roster
  defines "s \<equiv> foldl booth_step (booth_start ros) ops"
  defines "d \<equiv> bo_desk (snd s)"
  assumes "submit (fst s) (Suc (fst s)) body overrides raw now d = (Inl e, d')"
  shows "hs_user_requests (dk_hems d') = hs_user_requests (dk_hems d) \<and>
    hs_heater_targets (dk_hems d') = hs_heater_targets (dk_hems d) \<and>
    hs_shiftable_loads (dk_hems d') = hs_shiftable_loads (dk_hems d) \<and>
    (\<forall>a. ev_sessions_of a (dk_hems d') = ev_sessions_of a (dk_hems d)) \<and>
    dk_roster d' = dk_roster d \<and> dk_trace d' = dk_trace d \<and> dk_replans d' = dk_replans d"
proof -
  have "lockstep (fst s) (dk_hems d)" unfolding s_def d_def by (rule booth_lockstep)
  from submit_cases [OF this, of body overrides raw now] assms(3) show ?thesis
    by (simp add: submits_well_def untouched_def same_hems_def)
qed

definition empty_params :: "string \<Rightarrow> request_params" where
  "empty_params i = \<lparr>rp_asset_id = i, rp_target_soc_frac = None, rp_target_energy_kwh = None, rp_desired_power_kw = None,
     rp_deadlines = [], rp_completion_policy = None, rp_comfort_rates = None, rp_budget_eur = None,
     rp_interruptible = None, rp_tolerance_min = None, rp_power_kw = None, rp_duration_min = None,
     rp_earliest_start = None, rp_trip_distance_km = None, rp_return_time = None, rp_latest_end = None,
     rp_soft_deadline = None, rp_target_temp_c = None, rp_mode = None, rp_replace_session_ids = None\<rparr>"

lemma refused_submission_changes_nothing_witness:
  "dk_trace (snd (submit 0 1 (empty_params ''ev'') [] [] 5 (bo_desk (snd (booth_start []))))) = []"
proof -
  let ?s = "foldl booth_step (booth_start []) []"
  have "submit (fst ?s) (Suc (fst ?s)) (empty_params ''ev'') [] [] 5 (bo_desk (snd ?s)) = (Inl UnrecognisedAsset, bo_desk (snd ?s))"
    by (simp add: submit_def is_shiftable_def empty_params_def effective_slices_def)
  from refused_submission_changes_nothing [OF this] show ?thesis
    by (simp add: submit_def is_shiftable_def empty_params_def booth_start_def effective_slices_def)
qed

text \<open>
  A shiftable request may carry the id of one of the site's own assets: the queue of loads does not know it, the
  roster refuses it (which only logs), and cancelling the request removes the site's asset from the simulator.
\<close>

definition load_params :: "string \<Rightarrow> request_params" where
  "load_params i = (empty_params i)\<lparr>rp_power_kw := Some 2, rp_duration_min := Some 60, rp_latest_end := Some (seconds 7200)\<rparr>"

theorem cancel_removes_boot_asset:
  "dk_roster (bo_desk (snd (foldl booth_step (booth_start [(''battery'', BootAsset)])
     [BSubmit (load_params ''battery'') [] [] 0, BCancel 0 5]))) = []"
  by (simp add: booth_start_def on_desk_def submit_def is_shiftable_def load_params_def empty_params_def submit_shiftable_def
      create_shiftable_def Let_def minutes_span_def seconds_def with_hems_eq add_shiftable_load_def ok_or_def
      roster_add_shiftable_def roster_add_def roster_has_def announce_def put_request_def upsert_request_def
      cancel_and_announce_def cancel_def find_request_def terminal_for_cancel_def cancel_in_roster_def
      cancel_if_cancellable_def asset_cancellable_def cancel_request_def)

text \<open>
  A load submitted between the snapshot of a tick and its publication is missing from the snapshot's assets: the
  publication completes its request at once, while the asset stays in the roster and will run.
\<close>

theorem load_completed_before_it_ran:
  "(let d = snd (submit 0 1 (load_params ''washer'') [] [] 0 (bo_desk (snd (booth_start []))));
        d' = complete_vanished 1 [] d
    in map ur_status (hs_user_requests (dk_hems d')) = [Completed] \<and> hs_shiftable_loads (dk_hems d') = [] \<and>
       map fst (dk_roster d') = [''washer''])"
  by (simp add: booth_start_def submit_def is_shiftable_def load_params_def empty_params_def submit_shiftable_def
      create_shiftable_def Let_def minutes_span_def seconds_def with_hems_eq add_shiftable_load_def ok_or_def
      roster_add_shiftable_def roster_add_def roster_has_def announce_def put_request_def upsert_request_def
      complete_vanished_def complete_and_announce_def complete_shiftable_def is_finished_def finish_def)

end
