(* ===== verification/Milp_Model.thy ===== *)
theory Milp_Model
  imports Battery Heater Comfort_Curve Notifications Time_Grid
begin

text \<open>
  What the planner's solves are built from. The solver and its modelling library (\<open>good_lp\<close> over HiGHS) are not
  part of the repository, so nothing here says how a model is solved: a variable is the number of its declaration,
  a declaration keeps the bounds the code asked for, an expression is its value at an assignment and a constraint
  is what it demands of one. \<open>binary\<close> sets both bounds and integrality, as its documentation says. Values are
  exact: the solver's feasibility tolerance is not modelled. The contract types are those of
  \<open>VEN/src/controller/asset_milp_port.rs\<close> and \<open>VEN/src/controller/milp_planner/asset_port.rs\<close>.
\<close>

named_theorems lp_simps \<open>reading bounds and constraints off a declaration\<close>

section \<open>Variables, expressions, constraints\<close>

type_synonym lp_var = nat
type_synonym assignment = "lp_var \<Rightarrow> f64"
type_synonym lp_expr = "assignment \<Rightarrow> f64"
type_synonym lp_row = "assignment \<Rightarrow> bool"

record lp_domain =
  ld_min :: "f64 option"
  ld_max :: "f64 option"
  ld_integer :: bool

definition at_least :: "f64 \<Rightarrow> lp_domain" where
  "at_least lo = \<lparr>ld_min = Some lo, ld_max = None, ld_integer = False\<rparr>"

definition between :: "f64 \<Rightarrow> f64 \<Rightarrow> lp_domain" where
  "between lo hi = \<lparr>ld_min = Some lo, ld_max = Some hi, ld_integer = False\<rparr>"

definition fixed_at :: "f64 \<Rightarrow> lp_domain" where
  "fixed_at v = between v v"

definition integer_between :: "f64 \<Rightarrow> f64 \<Rightarrow> lp_domain" where
  "integer_between lo hi = \<lparr>ld_min = Some lo, ld_max = Some hi, ld_integer = True\<rparr>"

definition binary :: lp_domain where
  "binary = integer_between 0 1"

definition in_domain :: "lp_domain \<Rightarrow> f64 \<Rightarrow> bool" where
  "in_domain d x \<longleftrightarrow> (case ld_min d of None \<Rightarrow> True | Some lo \<Rightarrow> lo \<le> x) \<and>
     (case ld_max d of None \<Rightarrow> True | Some hi \<Rightarrow> x \<le> hi) \<and> (ld_integer d \<longrightarrow> x = of_int \<lfloor>x\<rfloor>)"

text \<open>\<open>ProblemVariables::add\<close>: the handle of a variable is its place in the declaration.\<close>

definition add_var :: "lp_domain \<Rightarrow> lp_domain list \<Rightarrow> lp_var \<times> lp_domain list" where
  "add_var d vars = (length vars, vars @ [d])"

fun add_vars :: "lp_domain list \<Rightarrow> lp_domain list \<Rightarrow> lp_var list \<times> lp_domain list" where
  "add_vars [] vars = ([], vars)"
| "add_vars (d # ds) vars =
     (let (v, vars1) = add_var d vars; (vs, vars2) = add_vars ds vars1 in (v # vs, vars2))"

definition in_bounds :: "lp_domain list \<Rightarrow> assignment \<Rightarrow> bool" where
  "in_bounds vars \<sigma> \<longleftrightarrow> list_all (\<lambda>i. in_domain (vars ! i) (\<sigma> i)) [0..<length vars]"

definition satisfies :: "lp_row list \<Rightarrow> assignment \<Rightarrow> bool" where
  "satisfies rows \<sigma> \<longleftrightarrow> list_all (\<lambda>row. row \<sigma>) rows"

definition sum_expr :: "lp_expr list \<Rightarrow> lp_expr" where
  "sum_expr es = (\<lambda>\<sigma>. sum_list (map (\<lambda>e. e \<sigma>) es))"

text \<open>The loop \<open>dt_h.iter().enumerate().take(n)\<close>.\<close>

definition slots :: "nat \<Rightarrow> f64 list \<Rightarrow> (nat \<times> f64) list" where
  "slots n dt_h = enumerate 0 (take n dt_h)"

text \<open>An initial solution: the values a warm start hands the solver, later entries over earlier ones.\<close>

definition seeded :: "(lp_var \<times> f64) list \<Rightarrow> assignment \<Rightarrow> assignment" where
  "seeded = fold (\<lambda>(v, x) \<sigma>. \<sigma>(v := x))"

definition pinned_binary :: "f64 option \<Rightarrow> f64" where
  "pinned_binary solved = (if 1 / 2 < hm_or 0 solved then 1 else 0)"

text \<open>\<open>slice::get\<close>.\<close>

definition nth_opt :: "'a list \<Rightarrow> nat \<Rightarrow> 'a option" where
  "nth_opt xs i = (if i < length xs then Some (xs ! i) else None)"

section \<open>The contract of an asset with a solve\<close>

record friction_costs =
  fc_startup_eur :: f64
  fc_ramp_eur_kw :: f64
  fc_tier_penalty_eur :: f64

definition no_friction :: friction_costs where
  "no_friction = \<lparr>fc_startup_eur = 0, fc_ramp_eur_kw = 0, fc_tier_penalty_eur = 0\<rparr>"

text \<open>\<open>CostWeights\<close> has the one field \<open>c_storage_wear_eur_kwh\<close>.\<close>

datatype objective_part = CostPart f64 | FrictionPart

record storage_legs =
  lg_charge_kw :: "f64 list"
  lg_discharge_kw :: "f64 list"
  lg_energy_kwh :: "f64 list"

record ev_sol_output =
  eo_p_ev_kw :: "f64 list"
  eo_soc_ev :: "f64 list"
  eo_shortfall_kwh :: "f64 list"
  eo_z_ev_on :: "f64 list"
  eo_e_ev_extra_kwh :: f64
  eo_e_seg_kwh :: f64

record heater_sol_output =
  ho_y_heat :: "f64 list"
  ho_z_heat_ready :: f64
  ho_e_tank_kwh :: "f64 list"
  ho_shortfall_kwh :: f64

datatype asset_solution_detail =
    BatteryDetail "f64 list" | EvDetail ev_sol_output | HeaterDetail heater_sol_output
  | ShiftableDetail "f64 list" | ForecastDetail

record asset_solution =
  as_asset_id :: string
  as_net_power_kw :: "f64 list"
  as_planned_state :: "f64 hmap list"
  as_storage :: "storage_legs option"
  as_warnings :: "plan_warning list"
  as_detail :: asset_solution_detail

datatype declare_mode = PlanMode bool | PinnedMode asset_solution

definition mode_friction :: "declare_mode \<Rightarrow> friction_costs \<Rightarrow> friction_costs" where
  "mode_friction mode own = (case mode of PlanMode True \<Rightarrow> own | _ \<Rightarrow> no_friction)"

datatype forecast_role = Generation | LoadRole
datatype participation = Dispatched | FollowsForecast forecast_role "f64 list"
datatype allocation_basis = LoadBasis | StorageBasis

record flexibility_window =
  fw_energy_needed_kwh :: f64
  fw_power_min_kw :: f64
  fw_power_max_kw :: f64
  fw_window_start :: instant
  fw_window_end :: instant

record discharge_leg =
  dl_p_dis :: "lp_var list"
  dl_max_kw :: f64

record on_indicator =
  oi_z_on :: "lp_var list"
  oi_p_min_kw :: f64

text \<open>\<open>assets::trace_values\<close>, and the states a plan shows, each read by the key its asset uses.\<close>

definition trace_values :: "f64 hmap list \<Rightarrow> string \<Rightarrow> f64 \<Rightarrow> f64 list" where
  "trace_values states key d = map (\<lambda>s. hm_or d (hm_get s key)) states"

definition battery_soc_from_energy :: "f64 \<Rightarrow> f64 \<Rightarrow> f64" where
  "battery_soc_from_energy e_kwh capacity_kwh = clamp_range 0 1 (e_kwh / capacity_kwh)"

definition battery_future_state :: "f64 \<Rightarrow> f64 \<Rightarrow> f64 hmap" where
  "battery_future_state e_kwh capacity_kwh = [(''soc'', battery_soc_from_energy e_kwh capacity_kwh)]"

definition ev_future_state_at :: "f64 \<Rightarrow> bool \<Rightarrow> f64 hmap" where
  "ev_future_state_at soc plugged = [(''soc'', clamp_range 0 1 soc), (''plugged'', if plugged then 1 else 0)]"

definition heater_future_state :: "f64 \<Rightarrow> f64 \<Rightarrow> f64 \<Rightarrow> f64 hmap" where
  "heater_future_state e_kwh temp_min mass = [(''temp_c'', heater_temp_c_from_energy e_kwh temp_min mass)]"

section \<open>Reading a declaration\<close>

lemma in_domain_simps [lp_simps, simp]:
  "in_domain (at_least lo) x \<longleftrightarrow> lo \<le> x"
  "in_domain (between lo hi) x \<longleftrightarrow> lo \<le> x \<and> x \<le> hi"
  "in_domain (fixed_at v) x \<longleftrightarrow> x = v"
  "in_domain (integer_between lo hi) x \<longleftrightarrow> lo \<le> x \<and> x \<le> hi \<and> x = of_int \<lfloor>x\<rfloor>"
  by (auto simp: in_domain_def at_least_def between_def fixed_at_def integer_between_def)

lemma floor_unit: "0 \<le> x \<Longrightarrow> x \<le> 1 \<Longrightarrow> x = of_int \<lfloor>x\<rfloor> \<Longrightarrow> x = 0 \<or> x = (1 :: real)"
proof -
  assume x: "0 \<le> x" "x \<le> 1" "x = of_int \<lfloor>x\<rfloor>"
  then have "0 \<le> \<lfloor>x\<rfloor>" "\<lfloor>x\<rfloor> \<le> 1" by linarith+
  then consider "\<lfloor>x\<rfloor> = 0" | "\<lfloor>x\<rfloor> = 1" by linarith
  then show ?thesis using x(3) by cases simp_all
qed

lemma in_binary [lp_simps, simp]: "in_domain binary x \<longleftrightarrow> x = 0 \<or> x = 1"
  using floor_unit [of x] by (auto simp: binary_def)

lemma pinned_binary_cases [simp]: "pinned_binary s = 0 \<or> pinned_binary s = 1"
  by (simp add: pinned_binary_def)

lemma add_vars_eq: "add_vars ds vars = ([length vars..<length vars + length ds], vars @ ds)"
proof (induction ds arbitrary: vars)
  case (Cons d ds)
  have "[length vars..<length vars + length (d # ds)] = length vars # [Suc (length vars)..<length vars + length (d # ds)]"
    by (simp add: upt_rec)
  then show ?case using Cons.IH [of "vars @ [d]"] by (simp add: add_var_def)
qed simp

lemma add_var_eq [simp]: "add_var d vars = (length vars, vars @ [d])"
  by (rule add_var_def)

lemma in_bounds_nth: "in_bounds vars \<sigma> \<Longrightarrow> i < length vars \<Longrightarrow> in_domain (vars ! i) (\<sigma> i)"
  by (auto simp: in_bounds_def list_all_iff)

lemma all_less_add: "(\<forall>i < a + b. P i) \<longleftrightarrow> (\<forall>i < a. P i) \<and> (\<forall>i < (b :: nat). P (a + i))"
proof (intro iffI conjI allI impI)
  fix i assume "(\<forall>i < a. P i) \<and> (\<forall>i < b. P (a + i))" and "i < a + b"
  then show "P i" by (cases "i < a") (auto dest: spec [of _ "i - a"])
qed simp_all

lemma in_bounds_iff: "in_bounds vars \<sigma> \<longleftrightarrow> (\<forall>i < length vars. in_domain (vars ! i) (\<sigma> i))"
  by (auto simp: in_bounds_def list_all_iff)

text \<open>The bounds of a block of variables that starts at handle \<open>k\<close>.\<close>

definition block_bounds :: "nat \<Rightarrow> lp_domain list \<Rightarrow> assignment \<Rightarrow> bool" where
  "block_bounds k ds \<sigma> \<longleftrightarrow> (\<forall>i < length ds. in_domain (ds ! i) (\<sigma> (k + i)))"

lemma block_bounds_append [simp]:
  "block_bounds k (ds @ es) \<sigma> \<longleftrightarrow> block_bounds k ds \<sigma> \<and> block_bounds (k + length ds) es \<sigma>"
  by (simp add: block_bounds_def all_less_add nth_append add.assoc)

lemma block_bounds_simps [simp]:
  "block_bounds k [] \<sigma>"
  "block_bounds k [d] \<sigma> \<longleftrightarrow> in_domain d (\<sigma> k)"
  "block_bounds k (replicate n d) \<sigma> \<longleftrightarrow> (\<forall>i < n. in_domain d (\<sigma> (k + i)))"
  by (simp_all add: block_bounds_def)

lemma block_bounds_Cons: "block_bounds k (d # ds) \<sigma> \<longleftrightarrow> in_domain d (\<sigma> k) \<and> block_bounds (Suc k) ds \<sigma>"
  using block_bounds_append [of k "[d]" ds \<sigma>] by simp

lemma block_bounds_map: "block_bounds k (map f [0..<n]) \<sigma> \<longleftrightarrow> (\<forall>i < n. in_domain (f i) (\<sigma> (k + i)))"
  by (simp add: block_bounds_def)

lemma in_bounds_append: "in_bounds (vars @ rest) \<sigma> \<longleftrightarrow> in_bounds vars \<sigma> \<and> block_bounds (length vars) rest \<sigma>"
  by (simp add: in_bounds_iff block_bounds_def all_less_add nth_append)

lemma in_bounds_block: "in_bounds vars \<sigma> \<longleftrightarrow> block_bounds 0 vars \<sigma>"
  by (simp add: in_bounds_iff block_bounds_def)

lemma in_bounds_prefix: "in_bounds (vars @ rest) \<sigma> \<Longrightarrow> in_bounds vars \<sigma>"
  by (simp add: in_bounds_append)

lemma satisfies_simps [simp]:
  "satisfies [] \<sigma>"
  "satisfies (row # rows) \<sigma> \<longleftrightarrow> row \<sigma> \<and> satisfies rows \<sigma>"
  "satisfies (rows @ rows') \<sigma> \<longleftrightarrow> satisfies rows \<sigma> \<and> satisfies rows' \<sigma>"
  "satisfies (concat rowss) \<sigma> \<longleftrightarrow> (\<forall>rows \<in> set rowss. satisfies rows \<sigma>)"
  "satisfies (map f xs) \<sigma> \<longleftrightarrow> (\<forall>x \<in> set xs. f x \<sigma>)"
  by (auto simp: satisfies_def list_all_iff)

lemma satisfies_if [simp]: "satisfies (if c then rows else rows') \<sigma> \<longleftrightarrow> (if c then satisfies rows \<sigma> else satisfies rows' \<sigma>)"
  by simp

lemma sum_expr_simps [simp]:
  "sum_expr [] \<sigma> = 0"
  "sum_expr (e # es) \<sigma> = e \<sigma> + sum_expr es \<sigma>"
  "sum_expr (es @ es') \<sigma> = sum_expr es \<sigma> + sum_expr es' \<sigma>"
  by (simp_all add: sum_expr_def)

lemma sum_expr_concat: "sum_expr (concat ess) \<sigma> = sum_list (map (\<lambda>es. sum_expr es \<sigma>) ess)"
  by (induction ess) simp_all

text \<open>A list of variables declared one after the other: their handles are as many as the domains, and in every
  assignment within a later declaration each takes a value of its own domain.\<close>

lemma add_vars_facts:
  assumes "add_vars ds vars = (vs, vars')"
  shows "length vs = length ds" and "vars' = vars @ ds"
    and "\<And>i. i < length ds \<Longrightarrow> vs ! i = length vars + i"
    and "\<And>\<sigma> rest i. in_bounds (vars' @ rest) \<sigma> \<Longrightarrow> i < length ds \<Longrightarrow> in_domain (ds ! i) (\<sigma> (vs ! i))"
  using assms by (auto simp: add_vars_eq in_bounds_append block_bounds_def)

lemma slots_iff: "(t, dt) \<in> set (slots n dt_h) \<longleftrightarrow> t < n \<and> t < length dt_h \<and> dt = dt_h ! t"
  by (auto simp: slots_def in_set_enumerate_eq)

lemma all_slots: "(\<forall>x \<in> set (slots n dt_h). P x) \<longleftrightarrow> (\<forall>t < min n (length dt_h). P (t, dt_h ! t))"
  by (auto simp: slots_iff)

lemma slots_eq: "slots n dt_h = map (\<lambda>t. (t, dt_h ! t)) [0..<min n (length dt_h)]"
  by (rule nth_equalityI) (simp_all add: slots_def nth_enumerate_eq min.commute)

lemma seeded_simps [simp]: "seeded [] \<sigma> = \<sigma>" "seeded ((v, x) # iv) \<sigma> = seeded iv (\<sigma>(v := x))"
  by (simp_all add: seeded_def)

lemma seeded_append: "seeded (iv @ jv) \<sigma> = seeded jv (seeded iv \<sigma>)"
  by (simp add: seeded_def)

lemma seeded_other: "v \<notin> fst ` set iv \<Longrightarrow> seeded iv \<sigma> v = \<sigma> v"
  by (induction iv arbitrary: \<sigma>) auto

lemma seeded_mem: "distinct (map fst iv) \<Longrightarrow> (v, x) \<in> set iv \<Longrightarrow> seeded iv \<sigma> v = x"
proof (induction iv arbitrary: \<sigma>)
  case (Cons p iv)
  obtain w y where p: "p = (w, y)" by (cases p)
  show ?case
  proof (cases "(v, x) = p")
    case True
    then have "v \<notin> fst ` set iv" using Cons.prems(1) p by auto
    then show ?thesis using True p by (simp add: seeded_other)
  qed (use Cons p in auto)
qed simp

lemma seeded_unique:
  assumes "(v, x) \<in> set iv" and "\<And>y. (v, y) \<in> set iv \<Longrightarrow> y = x"
  shows "seeded iv \<sigma> v = x"
  using assms
proof (induction iv arbitrary: \<sigma>)
  case (Cons p iv)
  obtain w y where p: "p = (w, y)" by (cases p)
  show ?case
  proof (cases "v \<in> fst ` set iv")
    case True
    then obtain z where z: "(v, z) \<in> set iv" by auto
    then have "z = x" by (intro Cons.prems(2)) simp
    with z have "seeded iv (\<sigma>(w := y)) v = x" by (intro Cons.IH Cons.prems(2)) simp_all
    with p show ?thesis by simp
  next
    case False
    then have "(v, x) = p" using Cons.prems(1) by force
    with False p show ?thesis by (simp add: seeded_other)
  qed
qed simp

lemma nth_opt_simps [simp]:
  "i < length xs \<Longrightarrow> nth_opt xs i = Some (xs ! i)"
  "\<not> i < length xs \<Longrightarrow> nth_opt xs i = None"
  "nth_opt [] i = None"
  by (simp_all add: nth_opt_def)

end
