(* ===== verification/Battery_Milp.thy ===== *)
theory Battery_Milp
  imports Milp_Model
begin

text \<open>
  \<open>VEN/src/assets/battery_milp.rs\<close> and \<open>battery_declared.rs\<close>: the battery as the planner sees it. Its lemmas relate
  what a solve may answer to what the battery then does: the planned charge is the charge of the physics step by
  step, the model has a solution exactly when the battery can be back at its minimum after the first slot, and
  phase 2's initial solution is one of phase 2's model.
\<close>

record battery_milp_context =
  bm_asset_id :: string
  bm_friction :: friction_costs
  bm_e_nom_kwh :: f64
  bm_e_init_kwh :: f64
  bm_e_min_kwh :: f64
  bm_e_max_kwh :: f64
  bm_p_ch_max_kw :: f64
  bm_p_dis_max_kw :: f64
  bm_eff_ch :: f64
  bm_eff_dis :: f64
  bm_c_terminal_eur_kwh :: f64

record battery_milp_vars =
  bv_p_ch :: "lp_var list"
  bv_p_dis :: "lp_var list"
  bv_u_bat :: "lp_var list"
  bv_e_bat :: "lp_var list"
  bv_z_active :: "lp_var list"
  bv_delta_active :: "lp_var list"
  bv_delta_ramp :: "lp_var list"
  bv_dis_max_kw :: f64

record battery_sol_output =
  bo_p_ch_kw :: "f64 list"
  bo_p_dis_kw :: "f64 list"
  bo_e_kwh :: "f64 list"

section \<open>Declaration\<close>

definition build_milp_context :: "battery \<Rightarrow> string \<Rightarrow> f64 \<Rightarrow> f64 \<Rightarrow> battery_milp_context" where
  "build_milp_context b asset_id live_soc c_terminal =
     \<lparr>bm_asset_id = asset_id, bm_friction = no_friction, bm_e_nom_kwh = bt_capacity_kwh b,
      bm_e_init_kwh = live_soc * bt_capacity_kwh b, bm_e_min_kwh = bt_min_soc_frac b * bt_capacity_kwh b,
      bm_e_max_kwh = bt_capacity_kwh b, bm_p_ch_max_kw = bt_max_charge_kw b, bm_p_dis_max_kw = bt_max_discharge_kw b,
      bm_eff_ch = bt_leg_eff b, bm_eff_dis = bt_leg_eff b, bm_c_terminal_eur_kwh = c_terminal\<rparr>"

definition battery_direction :: "f64 list option \<Rightarrow> nat \<Rightarrow> lp_domain" where
  "battery_direction pinned t = (case pinned of None \<Rightarrow> binary | Some d \<Rightarrow> fixed_at (pinned_binary (nth_opt d t)))"

definition battery_declare_vars ::
  "battery_milp_context \<Rightarrow> nat \<Rightarrow> f64 \<Rightarrow> f64 \<Rightarrow> f64 list option \<Rightarrow> lp_domain list \<Rightarrow> battery_milp_vars \<times> lp_domain list" where
  "battery_declare_vars ctx n startup ramp pinned vars =
     (let (startup, ramp) = (case pinned of None \<Rightarrow> (startup, ramp) | Some _ \<Rightarrow> (0, 0));
          (p_ch, vars) = add_vars (replicate n (between 0 (bm_p_ch_max_kw ctx))) vars;
          (p_dis, vars) = add_vars (replicate n (between 0 (bm_p_dis_max_kw ctx))) vars;
          (u_bat, vars) = add_vars (map (battery_direction pinned) [0..<n]) vars;
          (e_bat, vars) = add_vars (map (\<lambda>i. if i = 0 then between (bm_e_init_kwh ctx) (bm_e_init_kwh ctx)
             else between (bm_e_min_kwh ctx) (bm_e_max_kwh ctx)) [0..<Suc n]) vars;
          (z_active, vars) = add_vars (if 1 < n \<and> 0 < startup then replicate n binary else []) vars;
          (delta_active, vars) = add_vars (if 1 < n \<and> 0 < startup then replicate (n - 1) binary else []) vars;
          (delta_ramp, vars) = add_vars (if 1 < n \<and> 0 < ramp then replicate (n - 1) (at_least 0) else []) vars
      in (\<lparr>bv_p_ch = p_ch, bv_p_dis = p_dis, bv_u_bat = u_bat, bv_e_bat = e_bat, bv_z_active = z_active,
           bv_delta_active = delta_active, bv_delta_ramp = delta_ramp, bv_dis_max_kw = bm_p_dis_max_kw ctx\<rparr>, vars))"

text \<open>\<open>own_direction\<close>: only a battery's solution is handed to a battery; any other would panic.\<close>

definition battery_own_direction :: "asset_solution \<Rightarrow> f64 list" where
  "battery_own_direction own = (case as_detail own of BatteryDetail d \<Rightarrow> d | _ \<Rightarrow> [])"

definition battery_declare ::
  "battery_milp_context \<Rightarrow> nat \<Rightarrow> declare_mode \<Rightarrow> lp_domain list \<Rightarrow> battery_milp_vars \<times> lp_domain list" where
  "battery_declare ctx n mode vars =
     (let priced = mode_friction mode (bm_friction ctx);
          pinned = (case mode of PlanMode _ \<Rightarrow> None | PinnedMode own \<Rightarrow> Some (battery_own_direction own))
      in battery_declare_vars ctx n (fc_startup_eur priced) (fc_ramp_eur_kw priced) pinned vars)"

section \<open>Constraints and objective\<close>

definition battery_net :: "battery_milp_vars \<Rightarrow> nat \<Rightarrow> lp_expr" where
  "battery_net v t = (\<lambda>\<sigma>. \<sigma> (bv_p_ch v ! t) - \<sigma> (bv_p_dis v ! t))"

definition battery_slot_rows :: "battery_milp_context \<Rightarrow> battery_milp_vars \<Rightarrow> nat \<times> f64 \<Rightarrow> lp_row list" where
  "battery_slot_rows ctx v = (\<lambda>(t, dt).
     [\<lambda>\<sigma>. \<sigma> (bv_p_ch v ! t) \<le> bm_p_ch_max_kw ctx * \<sigma> (bv_u_bat v ! t),
      \<lambda>\<sigma>. \<sigma> (bv_p_dis v ! t) \<le> bm_p_dis_max_kw ctx * (1 - \<sigma> (bv_u_bat v ! t)),
      \<lambda>\<sigma>. \<sigma> (bv_e_bat v ! (t + 1)) = \<sigma> (bv_e_bat v ! t) + dt * bm_eff_ch ctx * \<sigma> (bv_p_ch v ! t) -
        dt * (1 / bm_eff_dis ctx) * \<sigma> (bv_p_dis v ! t)] @
     (case nth_opt (bv_z_active v) t of None \<Rightarrow> []
      | Some z \<Rightarrow> [\<lambda>\<sigma>. \<sigma> (bv_p_ch v ! t) + \<sigma> (bv_p_dis v ! t) \<le> (bm_p_ch_max_kw ctx + bm_p_dis_max_kw ctx) * \<sigma> z]))"

definition battery_active_row :: "battery_milp_vars \<Rightarrow> nat \<Rightarrow> lp_row" where
  "battery_active_row v i = (\<lambda>\<sigma>. \<sigma> (bv_z_active v ! (i + 1)) - \<sigma> (bv_z_active v ! i) \<le> \<sigma> (bv_delta_active v ! i))"

definition battery_ramp_rows :: "battery_milp_vars \<Rightarrow> nat \<Rightarrow> lp_row list" where
  "battery_ramp_rows v i =
     [\<lambda>\<sigma>. battery_net v (i + 1) \<sigma> - battery_net v i \<sigma> \<le> \<sigma> (bv_delta_ramp v ! i),
      \<lambda>\<sigma>. battery_net v i \<sigma> - battery_net v (i + 1) \<sigma> \<le> \<sigma> (bv_delta_ramp v ! i)]"

definition battery_constraints :: "battery_milp_context \<Rightarrow> battery_milp_vars \<Rightarrow> nat \<Rightarrow> f64 list \<Rightarrow> lp_row list" where
  "battery_constraints ctx v n dt_h =
     concat (map (battery_slot_rows ctx v) (slots n dt_h)) @
     map (battery_active_row v) [0..<length (bv_delta_active v)] @
     concat (map (battery_ramp_rows v) [0..<length (bv_delta_ramp v)]) @
     [\<lambda>\<sigma>. bm_e_init_kwh ctx \<le> \<sigma> (bv_e_bat v ! n)]"

definition battery_slot_terms :: "battery_milp_vars \<Rightarrow> f64 \<Rightarrow> f64 \<Rightarrow> f64 \<Rightarrow> nat \<times> f64 \<Rightarrow> lp_expr list" where
  "battery_slot_terms v wear startup ramp = (\<lambda>(t, dt).
     [\<lambda>\<sigma>. wear * dt * \<sigma> (bv_p_ch v ! t), \<lambda>\<sigma>. wear * dt * \<sigma> (bv_p_dis v ! t)] @
     (if t = 0 then [] else
       (case nth_opt (bv_delta_active v) (t - 1) of None \<Rightarrow> [] | Some d \<Rightarrow> [\<lambda>\<sigma>. startup * \<sigma> d]) @
       (case nth_opt (bv_delta_ramp v) (t - 1) of None \<Rightarrow> [] | Some d \<Rightarrow> [\<lambda>\<sigma>. ramp * \<sigma> d])))"

definition battery_terms :: "battery_milp_vars \<Rightarrow> f64 \<Rightarrow> f64 \<Rightarrow> f64 \<Rightarrow> nat \<Rightarrow> f64 list \<Rightarrow> lp_expr" where
  "battery_terms v wear startup ramp n dt_h = sum_expr (concat (map (battery_slot_terms v wear startup ramp) (slots n dt_h)))"

definition battery_objective ::
  "battery_milp_context \<Rightarrow> battery_milp_vars \<Rightarrow> objective_part \<Rightarrow> nat \<Rightarrow> f64 list \<Rightarrow> lp_expr" where
  "battery_objective ctx v part n dt_h = (\<lambda>\<sigma>.
     (case part of
        CostPart wear \<Rightarrow> battery_terms v wear 0 0 n dt_h \<sigma> +
          (if 0 < bm_c_terminal_eur_kwh ctx \<and> 0 < n then - bm_c_terminal_eur_kwh ctx * \<sigma> (bv_e_bat v ! n) else 0)
      | FrictionPart \<Rightarrow> battery_terms v 0 (fc_startup_eur (bm_friction ctx)) (fc_ramp_eur_kw (bm_friction ctx)) n dt_h \<sigma>))"

section \<open>Readback and warm start\<close>

definition battery_read_solution :: "assignment \<Rightarrow> battery_milp_vars \<Rightarrow> nat \<Rightarrow> battery_sol_output" where
  "battery_read_solution \<sigma> v n =
     \<lparr>bo_p_ch_kw = map (\<lambda>t. \<sigma> (bv_p_ch v ! t)) [0..<n], bo_p_dis_kw = map (\<lambda>t. \<sigma> (bv_p_dis v ! t)) [0..<n],
      bo_e_kwh = map (\<lambda>t. \<sigma> (bv_e_bat v ! t)) [0..<Suc n]\<rparr>"

definition battery_read :: "battery_milp_context \<Rightarrow> battery_milp_vars \<Rightarrow> assignment \<Rightarrow> nat \<Rightarrow> asset_solution" where
  "battery_read ctx v \<sigma> n =
     (let sol = battery_read_solution \<sigma> v n in
      \<lparr>as_asset_id = bm_asset_id ctx,
       as_net_power_kw = map (\<lambda>t. bo_p_ch_kw sol ! t - bo_p_dis_kw sol ! t) [0..<n],
       as_planned_state = map (\<lambda>t. battery_future_state (bo_e_kwh sol ! t) (bm_e_nom_kwh ctx)) [0..<n],
       as_storage = Some \<lparr>lg_charge_kw = bo_p_ch_kw sol, lg_discharge_kw = bo_p_dis_kw sol, lg_energy_kwh = bo_e_kwh sol\<rparr>,
       as_warnings = [], as_detail = BatteryDetail (map \<sigma> (bv_u_bat v))\<rparr>)"

definition battery_solution_from_trace ::
  "battery_milp_context \<Rightarrow> f64 list \<Rightarrow> f64 hmap list \<Rightarrow> asset_solution" where
  "battery_solution_from_trace ctx net_kw states =
     (let energy = map (\<lambda>soc. soc * bm_e_nom_kwh ctx) (trace_values states ''soc'' (bm_e_init_kwh ctx / bm_e_nom_kwh ctx)) in
      \<lparr>as_asset_id = bm_asset_id ctx, as_net_power_kw = net_kw,
       as_planned_state = map (\<lambda>t. battery_future_state (energy ! t) (bm_e_nom_kwh ctx)) [0..<length net_kw],
       as_storage = Some \<lparr>lg_charge_kw = map (\<lambda>kw. max kw 0) net_kw, lg_discharge_kw = map (\<lambda>kw. max (- kw) 0) net_kw,
                          lg_energy_kwh = energy\<rparr>,
       as_warnings = [], as_detail = BatteryDetail (map (\<lambda>kw. if 1 / 10 ^ 6 < kw then 1 else 0) net_kw)\<rparr>)"

definition leg_active :: "storage_legs \<Rightarrow> nat \<Rightarrow> f64" where
  "leg_active legs t = (if 1 / 10 ^ 6 < lg_charge_kw legs ! t + lg_discharge_kw legs ! t then 1 else 0)"

definition warm_net :: "storage_legs \<Rightarrow> nat \<Rightarrow> f64" where
  "warm_net legs t = lg_charge_kw legs ! t - lg_discharge_kw legs ! t"

definition battery_warm_slot :: "battery_milp_vars \<Rightarrow> storage_legs \<Rightarrow> nat \<Rightarrow> (lp_var \<times> f64) list" where
  "battery_warm_slot v legs t =
     [(bv_p_ch v ! t, max (lg_charge_kw legs ! t) 0), (bv_p_dis v ! t, max (lg_discharge_kw legs ! t) 0),
      (bv_u_bat v ! t, if 1 / 10 ^ 6 < lg_charge_kw legs ! t then 1 else 0)] @
     (case nth_opt (bv_z_active v) t of None \<Rightarrow> [] | Some z \<Rightarrow> [(z, leg_active legs t)])"

definition battery_warm_start :: "battery_milp_vars \<Rightarrow> asset_solution \<Rightarrow> nat \<Rightarrow> (lp_var \<times> f64) list" where
  "battery_warm_start v own n =
     (case as_storage own of None \<Rightarrow> [] | Some legs \<Rightarrow>
        List.map_filter (\<lambda>t. case (nth_opt (bv_e_bat v) t, nth_opt (lg_energy_kwh legs) t) of
            (Some e, Some x) \<Rightarrow> Some (e, x) | _ \<Rightarrow> None) [0..<Suc n] @
        concat (map (battery_warm_slot v legs) [0..<n]) @
        map (\<lambda>i. (bv_delta_active v ! i, max (leg_active legs (i + 1) - leg_active legs i) 0)) [0..<length (bv_delta_active v)] @
        map (\<lambda>i. (bv_delta_ramp v ! i, \<bar>warm_net legs (i + 1) - warm_net legs i\<bar>)) [0..<length (bv_delta_ramp v)])"

definition battery_discharge_leg :: "battery_milp_vars \<Rightarrow> discharge_leg option" where
  "battery_discharge_leg v = Some \<lparr>dl_p_dis = bv_p_dis v, dl_max_kw = bv_dis_max_kw v\<rparr>"

section \<open>What a declaration promises\<close>

text \<open>The handles of a battery, counted from the first of them.\<close>

definition battery_startup_vars :: "nat \<Rightarrow> f64 \<Rightarrow> f64 list option \<Rightarrow> bool" where
  "battery_startup_vars n price pinned \<longleftrightarrow> 1 < n \<and> 0 < price \<and> pinned = None"

lemma battery_declare_eq:
  fixes ctx :: battery_milp_context
  defines "act \<equiv> \<lambda>n startup pinned. battery_startup_vars n startup pinned"
  shows "battery_declare_vars ctx n startup ramp pinned vars =
    (let b = length vars; k = (if act n startup pinned then n else 0); m = (if act n startup pinned then n - 1 else 0);
         r = (if act n ramp pinned then n - 1 else 0); e = b + 4 * n + 1
     in (\<lparr>bv_p_ch = [b..<b + n], bv_p_dis = [b + n..<b + 2 * n], bv_u_bat = [b + 2 * n..<b + 3 * n],
          bv_e_bat = [b + 3 * n..<e], bv_z_active = [e..<e + k], bv_delta_active = [e + k..<e + k + m],
          bv_delta_ramp = [e + k + m..<e + k + m + r], bv_dis_max_kw = bm_p_dis_max_kw ctx\<rparr>,
         vars @ replicate n (between 0 (bm_p_ch_max_kw ctx)) @ replicate n (between 0 (bm_p_dis_max_kw ctx)) @
         map (battery_direction pinned) [0..<n] @
         map (\<lambda>i. if i = 0 then between (bm_e_init_kwh ctx) (bm_e_init_kwh ctx)
             else between (bm_e_min_kwh ctx) (bm_e_max_kwh ctx)) [0..<Suc n] @
         replicate k binary @ replicate m binary @ replicate r (at_least 0)))"
  by (cases pinned)
    (simp_all add: battery_declare_vars_def add_vars_eq Let_def act_def battery_startup_vars_def algebra_simps mult_2 numeral_eq_Suc
       del: upt_Suc)

lemma battery_declare_shape:
  assumes "battery_declare_vars ctx n startup ramp pinned vars = (v, vars')"
  obtains z m r where "bv_p_ch v = [length vars..<length vars + n]" "bv_p_dis v = [length vars + n..<length vars + 2 * n]"
    "bv_u_bat v = [length vars + 2 * n..<length vars + 3 * n]" "bv_e_bat v = [length vars + 3 * n..<length vars + 4 * n + 1]"
    "bv_z_active v = [length vars + 4 * n + 1..<length vars + 4 * n + 1 + z]"
    "bv_delta_active v = [length vars + 4 * n + 1 + z..<length vars + 4 * n + 1 + z + m]"
    "bv_delta_ramp v = [length vars + 4 * n + 1 + z + m..<length vars + 4 * n + 1 + z + m + r]"
    "m = z - 1" "r \<le> n - 1" "z \<le> n" "bv_dis_max_kw v = bm_p_dis_max_kw ctx"
    "vars' = vars @ replicate n (between 0 (bm_p_ch_max_kw ctx)) @ replicate n (between 0 (bm_p_dis_max_kw ctx)) @
       map (battery_direction pinned) [0..<n] @
       map (\<lambda>i. if i = 0 then between (bm_e_init_kwh ctx) (bm_e_init_kwh ctx)
             else between (bm_e_min_kwh ctx) (bm_e_max_kwh ctx)) [0..<Suc n] @
       replicate z binary @ replicate m binary @ replicate r (at_least 0)"
proof -
  define z where "z = (if battery_startup_vars n startup pinned then n else 0)"
  define m where "m = (if battery_startup_vars n startup pinned then n - 1 else 0)"
  define r where "r = (if battery_startup_vars n ramp pinned then n - 1 else 0)"
  have "m = z - 1" "r \<le> n - 1" "z \<le> n" by (auto simp: z_def m_def r_def)
  moreover note assms [unfolded battery_declare_eq Let_def, folded z_def m_def r_def, symmetric]
  ultimately show ?thesis by (intro that [of z m r]) (simp_all add: numeral_eq_Suc del: upt_Suc)
qed

lemma battery_declare_lengths:
  assumes "battery_declare_vars ctx n startup ramp pinned vars = (v, vars')"
  shows "length (bv_delta_active v) = length (bv_z_active v) - 1" "length (bv_delta_ramp v) \<le> n - 1" "length (bv_z_active v) \<le> n"
  by (rule battery_declare_shape [OF assms], simp del: upt_Suc)+

text \<open>The bounds of a battery's block of variables, read at its handles.\<close>

lemma battery_block_bounds:
  assumes "battery_declare_vars ctx n startup ramp pinned vars = (v, vars')"
  shows "block_bounds (length vars) (drop (length vars) vars') \<sigma> \<longleftrightarrow>
    (\<forall>t < n. in_domain (between 0 (bm_p_ch_max_kw ctx)) (\<sigma> (bv_p_ch v ! t))) \<and>
    (\<forall>t < n. in_domain (between 0 (bm_p_dis_max_kw ctx)) (\<sigma> (bv_p_dis v ! t))) \<and>
    (\<forall>t < n. in_domain (battery_direction pinned t) (\<sigma> (bv_u_bat v ! t))) \<and>
    (\<forall>t < Suc n. in_domain (if t = 0 then between (bm_e_init_kwh ctx) (bm_e_init_kwh ctx)
       else between (bm_e_min_kwh ctx) (bm_e_max_kwh ctx)) (\<sigma> (bv_e_bat v ! t))) \<and>
    (\<forall>t < length (bv_z_active v). in_domain binary (\<sigma> (bv_z_active v ! t))) \<and>
    (\<forall>t < length (bv_delta_active v). in_domain binary (\<sigma> (bv_delta_active v ! t))) \<and>
    (\<forall>t < length (bv_delta_ramp v). in_domain (at_least 0) (\<sigma> (bv_delta_ramp v ! t)))"
proof -
  obtain z m r where v: "bv_p_ch v = [length vars..<length vars + n]" "bv_p_dis v = [length vars + n..<length vars + 2 * n]"
    "bv_u_bat v = [length vars + 2 * n..<length vars + 3 * n]" "bv_e_bat v = [length vars + 3 * n..<length vars + 4 * n + 1]"
    "bv_z_active v = [length vars + 4 * n + 1..<length vars + 4 * n + 1 + z]"
    "bv_delta_active v = [length vars + 4 * n + 1 + z..<length vars + 4 * n + 1 + z + m]"
    "bv_delta_ramp v = [length vars + 4 * n + 1 + z + m..<length vars + 4 * n + 1 + z + m + r]"
    and vars': "vars' = vars @ replicate n (between 0 (bm_p_ch_max_kw ctx)) @ replicate n (between 0 (bm_p_dis_max_kw ctx)) @
       map (battery_direction pinned) [0..<n] @
       map (\<lambda>i. if i = 0 then between (bm_e_init_kwh ctx) (bm_e_init_kwh ctx)
             else between (bm_e_min_kwh ctx) (bm_e_max_kwh ctx)) [0..<Suc n] @
       replicate z binary @ replicate m binary @ replicate r (at_least 0)"
    by (rule battery_declare_shape [OF assms])
  have k: "length vars + n + n = length vars + 2 * n" "length vars + 2 * n + n = length vars + 3 * n"
      "length vars + 3 * n + Suc n = length vars + 4 * n + 1" by simp_all
  have drop: "drop (length vars) (vars @ ds) = ds" for ds by simp
  show ?thesis
    unfolding vars' drop block_bounds_append block_bounds_simps block_bounds_map length_replicate length_map length_upt
      minus_nat.diff_0 k v
    by (simp add: nth_upt del: upt_Suc in_domain_simps in_binary)
qed

lemma battery_direction_cases: "in_domain (battery_direction pinned t) x \<Longrightarrow> x = 0 \<or> x = 1"
  using pinned_binary_cases by (auto simp: battery_direction_def split: option.splits)

lemma battery_declared:
  assumes "battery_declare_vars ctx n startup ramp pinned vars = (v, vars')" and "in_bounds (vars' @ rest) \<sigma>"
  shows battery_declared_charge: "t < n \<Longrightarrow> 0 \<le> \<sigma> (bv_p_ch v ! t) \<and> \<sigma> (bv_p_ch v ! t) \<le> bm_p_ch_max_kw ctx"
    and battery_declared_discharge: "t < n \<Longrightarrow> 0 \<le> \<sigma> (bv_p_dis v ! t) \<and> \<sigma> (bv_p_dis v ! t) \<le> bm_p_dis_max_kw ctx"
    and battery_declared_direction: "t < n \<Longrightarrow> \<sigma> (bv_u_bat v ! t) = 0 \<or> \<sigma> (bv_u_bat v ! t) = 1"
    and battery_declared_start: "\<sigma> (bv_e_bat v ! 0) = bm_e_init_kwh ctx"
    and battery_declared_energy:
      "t < n \<Longrightarrow> bm_e_min_kwh ctx \<le> \<sigma> (bv_e_bat v ! Suc t) \<and> \<sigma> (bv_e_bat v ! Suc t) \<le> bm_e_max_kwh ctx"
proof -
  define b where "b = length vars"
  have v: "bv_p_ch v = [b..<b + n]" "bv_p_dis v = [b + n..<b + 2 * n]" "bv_u_bat v = [b + 2 * n..<b + 3 * n]"
      "bv_e_bat v = [b + 3 * n..<b + 4 * n + 1]"
    using assms(1) by (auto simp: battery_declare_eq Let_def b_def simp del: upt_Suc)
  obtain ds where vars': "vars' = vars @ replicate n (between 0 (bm_p_ch_max_kw ctx)) @ replicate n (between 0 (bm_p_dis_max_kw ctx)) @
      map (battery_direction pinned) [0..<n] @
      map (\<lambda>i. if i = 0 then between (bm_e_init_kwh ctx) (bm_e_init_kwh ctx)
        else between (bm_e_min_kwh ctx) (bm_e_max_kwh ctx)) [0..<Suc n] @ ds"
    using assms(1) by (auto simp: battery_declare_eq Let_def simp del: upt_Suc)
  have dom: "\<forall>i < n. in_domain (replicate n (between 0 (bm_p_ch_max_kw ctx)) ! i) (\<sigma> (b + i))"
      "\<forall>i < n. in_domain (replicate n (between 0 (bm_p_dis_max_kw ctx)) ! i) (\<sigma> (b + n + i))"
      "\<forall>i < n. in_domain (battery_direction pinned i) (\<sigma> (b + 2 * n + i))"
      "\<forall>i < Suc n. in_domain (if i = 0 then between (bm_e_init_kwh ctx) (bm_e_init_kwh ctx)
        else between (bm_e_min_kwh ctx) (bm_e_max_kwh ctx)) (\<sigma> (b + 3 * n + i))"
    using assms(2) by (simp_all add: vars' in_bounds_append b_def block_bounds_map algebra_simps mult_2 numeral_eq_Suc del: upt_Suc)
  show "t < n \<Longrightarrow> 0 \<le> \<sigma> (bv_p_ch v ! t) \<and> \<sigma> (bv_p_ch v ! t) \<le> bm_p_ch_max_kw ctx"
    using dom(1) by (simp add: v)
  show "t < n \<Longrightarrow> 0 \<le> \<sigma> (bv_p_dis v ! t) \<and> \<sigma> (bv_p_dis v ! t) \<le> bm_p_dis_max_kw ctx"
    using dom(2) by (simp add: v)
  show "t < n \<Longrightarrow> \<sigma> (bv_u_bat v ! t) = 0 \<or> \<sigma> (bv_u_bat v ! t) = 1"
    using dom(3) by (auto simp: v dest: battery_direction_cases)
  show "\<sigma> (bv_e_bat v ! 0) = bm_e_init_kwh ctx"
    using dom(4) [rule_format, of 0] by (simp add: v del: upt_Suc)
  show "t < n \<Longrightarrow> bm_e_min_kwh ctx \<le> \<sigma> (bv_e_bat v ! Suc t) \<and> \<sigma> (bv_e_bat v ! Suc t) \<le> bm_e_max_kwh ctx"
    using dom(4) [rule_format, of "Suc t"] by (simp add: v del: upt_Suc)
qed

lemma battery_slot:
  assumes "satisfies (battery_constraints ctx v n dt_h) \<sigma>" and "t < n" "t < length dt_h"
  shows "\<sigma> (bv_p_ch v ! t) \<le> bm_p_ch_max_kw ctx * \<sigma> (bv_u_bat v ! t)"
    and "\<sigma> (bv_p_dis v ! t) \<le> bm_p_dis_max_kw ctx * (1 - \<sigma> (bv_u_bat v ! t))"
    and "\<sigma> (bv_e_bat v ! Suc t) = \<sigma> (bv_e_bat v ! t) + dt_h ! t * bm_eff_ch ctx * \<sigma> (bv_p_ch v ! t) -
      dt_h ! t * (1 / bm_eff_dis ctx) * \<sigma> (bv_p_dis v ! t)"
proof -
  have "satisfies (battery_slot_rows ctx v (t, dt_h ! t)) \<sigma>"
    using assms by (auto simp: battery_constraints_def all_slots)
  then show "\<sigma> (bv_p_ch v ! t) \<le> bm_p_ch_max_kw ctx * \<sigma> (bv_u_bat v ! t)"
    and "\<sigma> (bv_p_dis v ! t) \<le> bm_p_dis_max_kw ctx * (1 - \<sigma> (bv_u_bat v ! t))"
    and "\<sigma> (bv_e_bat v ! Suc t) = \<sigma> (bv_e_bat v ! t) + dt_h ! t * bm_eff_ch ctx * \<sigma> (bv_p_ch v ! t) -
      dt_h ! t * (1 / bm_eff_dis ctx) * \<sigma> (bv_p_dis v ! t)"
    by (simp_all add: battery_slot_rows_def)
qed

section \<open>The planned charge is the charge of the physics\<close>

text \<open>One leg at a time, inside the limits and landing inside the range: the step does what the plan's row says.\<close>

lemma planned_step:
  fixes ch dis e e' :: f64 and d :: span
  defines "h \<equiv> dt_h_from_duration d"
  assumes wf: "battery_wf b" and h: "0 < h"
    and ch: "0 \<le> ch" "ch \<le> bt_max_charge_kw b" and dis: "0 \<le> dis" "dis \<le> bt_max_discharge_kw b"
    and one: "ch = 0 \<or> dis = 0" and e: "bs_soc_frac s * bt_capacity_kwh b = e"
    and e': "e' = e + h * bt_leg_eff b * ch - h * (1 / bt_leg_eff b) * dis"
    and range': "bt_min_soc_frac b * bt_capacity_kwh b \<le> e'" "e' \<le> bt_capacity_kwh b"
  shows "battery_step b s (ch - dis) d = (\<lparr>bs_soc_frac = e' / bt_capacity_kwh b, bs_actual_power_kw = ch - dis\<rparr>, ch - dis)"
proof -
  have cap: "0 < bt_capacity_kwh b" "0 < bt_leg_eff b" "0 \<le> bt_min_soc_frac b"
    using wf bt_eff_range [OF wf] by (simp_all add: battery_wf_def)
  have full: "bs_soc_frac s < 1" if "0 < ch - dis"
  proof -
    have "0 < h * bt_leg_eff b * ch" "dis = 0" using that ch dis one h cap by auto
    then have "bs_soc_frac s * bt_capacity_kwh b < 1 * bt_capacity_kwh b" using e e' range' by simp
    then show ?thesis using cap by simp
  qed
  have empty: "bt_min_soc_frac b < bs_soc_frac s" if "ch - dis < 0"
  proof -
    have "0 < h * (1 / bt_leg_eff b) * dis" "ch = 0" using that ch dis one h cap by auto
    then have "bt_min_soc_frac b * bt_capacity_kwh b < bs_soc_frac s * bt_capacity_kwh b" using e e' range' by simp
    then show ?thesis using cap by simp
  qed
  have power: "battery_power b s (ch - dis) = ch - dis"
    using ch dis full empty by (auto simp: battery_power_def Let_def)
  have "(ch - dis) * h * (if 0 < ch - dis then bt_leg_eff b else 1 / bt_leg_eff b) = e' - e"
    using one ch dis by (auto simp: e' algebra_simps)
  then have "bs_soc_frac s + (ch - dis) * h * (if 0 < ch - dis then bt_leg_eff b else 1 / bt_leg_eff b) / bt_capacity_kwh b =
      e' / bt_capacity_kwh b"
    using cap e by (simp add: field_simps)
  moreover have "0 \<le> e'" using mult_nonneg_nonneg [OF cap(3) less_imp_le [OF cap(1)]] range'(1) by linarith
  then have "clamp_range 0 1 (e' / bt_capacity_kwh b) = e' / bt_capacity_kwh b"
    using cap range' by (simp add: clamp_range_def)
  ultimately show ?thesis by (simp add: battery_step_def power Let_def h_def)
qed

text \<open>A solution of a battery's part of a model, whatever else the model holds.\<close>

definition battery_solves ::
  "battery_milp_context \<Rightarrow> nat \<Rightarrow> f64 \<Rightarrow> f64 \<Rightarrow> f64 list option \<Rightarrow> f64 list \<Rightarrow> battery_milp_vars \<Rightarrow> assignment \<Rightarrow> bool" where
  "battery_solves ctx n startup ramp pinned dt_h v \<sigma> \<longleftrightarrow> (\<exists>vars vars' rest.
     battery_declare_vars ctx n startup ramp pinned vars = (v, vars') \<and> in_bounds (vars' @ rest) \<sigma>) \<and>
     satisfies (battery_constraints ctx v n dt_h) \<sigma>"

lemma battery_solvesI:
  "battery_declare_vars ctx n startup ramp pinned vars = (v, vars') \<Longrightarrow> in_bounds (vars' @ rest) \<sigma> \<Longrightarrow>
    satisfies (battery_constraints ctx v n dt_h) \<sigma> \<Longrightarrow> battery_solves ctx n startup ramp pinned dt_h v \<sigma>"
  unfolding battery_solves_def by blast

lemma planned_legs:
  assumes "battery_solves ctx n startup ramp pinned dt_h v \<sigma>" and t: "t < n"
  shows "0 \<le> \<sigma> (bv_p_ch v ! t)" "\<sigma> (bv_p_ch v ! t) \<le> bm_p_ch_max_kw ctx" "0 \<le> \<sigma> (bv_p_dis v ! t)"
    "\<sigma> (bv_p_dis v ! t) \<le> bm_p_dis_max_kw ctx"
    "length dt_h = n \<Longrightarrow> \<sigma> (bv_p_ch v ! t) = 0 \<or> \<sigma> (bv_p_dis v ! t) = 0"
proof -
  obtain vars vars' rest where d: "battery_declare_vars ctx n startup ramp pinned vars = (v, vars')"
      and i: "in_bounds (vars' @ rest) \<sigma>" and c: "satisfies (battery_constraints ctx v n dt_h) \<sigma>"
    using assms(1) by (auto simp: battery_solves_def)
  note ch = battery_declared_charge [OF d i t] and dis = battery_declared_discharge [OF d i t]
  show "0 \<le> \<sigma> (bv_p_ch v ! t)" "\<sigma> (bv_p_ch v ! t) \<le> bm_p_ch_max_kw ctx" "0 \<le> \<sigma> (bv_p_dis v ! t)"
    "\<sigma> (bv_p_dis v ! t) \<le> bm_p_dis_max_kw ctx"
    using ch dis by simp_all
  assume "length dt_h = n"
  with battery_slot(1,2) [OF c t] t battery_declared_direction [OF d i t] ch dis
  show "\<sigma> (bv_p_ch v ! t) = 0 \<or> \<sigma> (bv_p_dis v ! t) = 0" by auto
qed

text \<open>The plan's setpoints as the tick loop would command them, one per slot.\<close>

definition planned_cmds :: "asset_solution \<Rightarrow> int list \<Rightarrow> (f64 \<times> span) list" where
  "planned_cmds sol steps_s = zip (as_net_power_kw sol) (map seconds steps_s)"

definition hours_of :: "int list \<Rightarrow> f64 list" where
  "hours_of steps_s = map (\<lambda>s. dt_h_from_s (of_int s)) steps_s"

lemma battery_read_net: "as_net_power_kw (battery_read ctx v \<sigma> n) = map (\<lambda>t. \<sigma> (bv_p_ch v ! t) - \<sigma> (bv_p_dis v ! t)) [0..<n]"
  by (simp add: battery_read_def battery_read_solution_def)

lemma planned_cmds_take:
  assumes "length steps_s = n" "t < n"
  shows "take (Suc t) (planned_cmds (battery_read ctx v \<sigma> n) steps_s) = take t (planned_cmds (battery_read ctx v \<sigma> n) steps_s) @
    [(\<sigma> (bv_p_ch v ! t) - \<sigma> (bv_p_dis v ! t), seconds (steps_s ! t))]"
proof -
  have "t < length (planned_cmds (battery_read ctx v \<sigma> n) steps_s)" using assms by (simp add: planned_cmds_def battery_read_net)
  then show ?thesis using assms by (simp add: take_Suc_conv_app_nth planned_cmds_def battery_read_net)
qed

text \<open>After \<open>t\<close> slots of commanded plan the battery stores what the plan says it stores.\<close>

lemma planned_run:
  fixes ctx :: battery_milp_context
  assumes sol: "battery_solves ctx n startup ramp pinned (hours_of steps_s) v \<sigma>" and inv: "battery_inv b s"
    and steps: "length steps_s = n" "\<forall>st \<in> set steps_s. 0 < st"
    and ctx: "ctx = build_milp_context b asset_id (bs_soc_frac s) c"
  defines "cmds \<equiv> planned_cmds (battery_read ctx v \<sigma> n) steps_s"
  assumes "t \<le> n"
  shows "snd (run_steps (battery_step b) s (take t cmds)) = take t cmds \<and>
    bs_soc_frac (fst (run_steps (battery_step b) s (take t cmds))) * bt_capacity_kwh b = \<sigma> (bv_e_bat v ! t)"
  using \<open>t \<le> n\<close>
proof (induction t)
  case 0
  obtain vars vars' rest where "battery_declare_vars ctx n startup ramp pinned vars = (v, vars')" "in_bounds (vars' @ rest) \<sigma>"
    using sol by (auto simp: battery_solves_def)
  from battery_declared_start [OF this] show ?case by (simp add: ctx build_milp_context_def)
next
  case (Suc t)
  obtain vars vars' rest where d: "battery_declare_vars ctx n startup ramp pinned vars = (v, vars')" "in_bounds (vars' @ rest) \<sigma>"
      and c: "satisfies (battery_constraints ctx v n (hours_of steps_s)) \<sigma>"
    using sol by (auto simp: battery_solves_def)
  have t: "t < n" using Suc.prems by simp
  have wf: "battery_wf b" using inv by (simp add: battery_inv_def)
  then have cap: "0 < bt_capacity_kwh b" by (simp add: battery_wf_def)
  define s1 where "s1 = fst (run_steps (battery_step b) s (take t cmds))"
  have run: "run_steps (battery_step b) s (take t cmds) = (s1, take t cmds)"
      and e: "bs_soc_frac s1 * bt_capacity_kwh b = \<sigma> (bv_e_bat v ! t)"
    using Suc by (simp_all add: s1_def prod_eq_iff)
  have h: "dt_h_from_duration (seconds (steps_s ! t)) = hours_of steps_s ! t" "0 < hours_of steps_s ! t"
    using t steps nth_mem [of t steps_s] by (simp_all add: hours_of_def dt_h_whole_seconds dt_h_from_s_def)
  have sel: "bm_eff_ch ctx = bt_leg_eff b" "bm_eff_dis ctx = bt_leg_eff b" "bm_p_ch_max_kw ctx = bt_max_charge_kw b"
      "bm_p_dis_max_kw ctx = bt_max_discharge_kw b" "bm_e_min_kwh ctx = bt_min_soc_frac b * bt_capacity_kwh b"
      "bm_e_max_kwh ctx = bt_capacity_kwh b"
    by (simp_all add: ctx build_milp_context_def)
  have len: "length (hours_of steps_s) = n" by (simp add: hours_of_def steps)
  have "battery_step b s1 (\<sigma> (bv_p_ch v ! t) - \<sigma> (bv_p_dis v ! t)) (seconds (steps_s ! t)) =
      (\<lparr>bs_soc_frac = \<sigma> (bv_e_bat v ! Suc t) / bt_capacity_kwh b,
        bs_actual_power_kw = \<sigma> (bv_p_ch v ! t) - \<sigma> (bv_p_dis v ! t)\<rparr>, \<sigma> (bv_p_ch v ! t) - \<sigma> (bv_p_dis v ! t))"
    using planned_legs [OF sol t] battery_slot(3) [OF c t] battery_declared_energy [OF d t] t h(2) len
    by (intro planned_step [OF wf _ _ _ _ _ _ e]) (simp_all add: h(1) sel)
  then show ?case
    using cap by (simp add: cmds_def [symmetric] planned_cmds_take [OF steps(1) t, of ctx v \<sigma>, folded cmds_def] run_steps_snoc run)
qed

text \<open>
  C31. A planned battery does what the plan says: whatever solution the model has (with friction, without, or with its
  directions pinned), a battery commanded its net power slot by slot takes exactly that power in every slot, is
  planned in every slot at the charge it then has, and ends at least as full as it began.
\<close>

theorem planned_battery_is_physics:
  fixes ctx :: battery_milp_context
  assumes sol: "battery_solves ctx n startup ramp pinned (hours_of steps_s) v \<sigma>" and inv: "battery_inv b s"
    and steps: "length steps_s = n" "\<forall>st \<in> set steps_s. 0 < st"
    and ctx: "ctx = build_milp_context b asset_id (bs_soc_frac s) c"
  defines "plan \<equiv> battery_read ctx v \<sigma> n"
  defines "cmds \<equiv> planned_cmds plan steps_s"
  shows "snd (run_steps (battery_step b) s cmds) = cmds \<and>
    (\<forall>t < n. hm_get (as_planned_state plan ! t) ''soc'' = Some (bs_soc_frac (fst (run_steps (battery_step b) s (take t cmds))))) \<and>
    bs_soc_frac s \<le> bs_soc_frac (fst (run_steps (battery_step b) s cmds))"
proof (intro conjI allI impI)
  note run = planned_run [OF sol inv steps ctx, folded plan_def, folded cmds_def]
  have cap: "0 < bt_capacity_kwh b" using inv by (simp add: battery_inv_def battery_wf_def)
  have all: "take n cmds = cmds" by (simp add: cmds_def planned_cmds_def steps)
  show "snd (run_steps (battery_step b) s cmds) = cmds" using run [of n] all by simp
  show "hm_get (as_planned_state plan ! t) ''soc'' = Some (bs_soc_frac (fst (run_steps (battery_step b) s (take t cmds))))"
    if t: "t < n" for t
  proof -
    define s1 where "s1 = fst (run_steps (battery_step b) s (take t cmds))"
    have "0 \<le> bs_soc_frac s1 \<and> bs_soc_frac s1 \<le> 1" using bat.run_inv [OF inv, of "take t cmds"] by (simp add: s1_def battery_inv_def)
    moreover have "\<sigma> (bv_e_bat v ! t) / bt_capacity_kwh b = bs_soc_frac s1" using run [of t] t cap by (simp add: s1_def field_simps)
    ultimately show ?thesis
      using t by (simp add: plan_def battery_read_def battery_read_solution_def battery_future_state_def battery_soc_from_energy_def
        ctx build_milp_context_def clamp_range_def s1_def del: upt_Suc)
  qed
  have "satisfies (battery_constraints ctx v n (hours_of steps_s)) \<sigma>" using sol by (simp add: battery_solves_def)
  then have "bs_soc_frac s * bt_capacity_kwh b \<le> \<sigma> (bv_e_bat v ! n)"
    by (simp add: battery_constraints_def ctx build_milp_context_def)
  also have "\<dots> = bs_soc_frac (fst (run_steps (battery_step b) s cmds)) * bt_capacity_kwh b" using run [of n] all by simp
  finally show "bs_soc_frac s \<le> bs_soc_frac (fst (run_steps (battery_step b) s cmds))" using cap by simp
qed

text \<open>Two half hours of a lossless battery: 2 kW in, 2 kW out.\<close>

definition sample_battery_plan :: assignment where
  "sample_battery_plan = (\<lambda>i. [2, 0, 0, 2, 1, 0, 5, 6, 5] ! i)"

definition sample_battery_ctx :: battery_milp_context where
  "sample_battery_ctx = build_milp_context sample_battery ''bat'' (1 / 2) 0"

lemma sample_battery_solves:
  "battery_solves sample_battery_ctx 2 0 0 None (hours_of [1800, 1800]) (fst (battery_declare_vars sample_battery_ctx 2 0 0 None [])) sample_battery_plan"
proof -
  obtain v vars' where d: "battery_declare_vars sample_battery_ctx 2 0 0 None [] = (v, vars')" by (metis prod.exhaust)
  then have v: "bv_p_ch v = [0, 1]" "bv_p_dis v = [2, 3]" "bv_u_bat v = [4, 5]" "bv_e_bat v = [6, 7, 8]" "bv_z_active v = []"
      "bv_delta_active v = []" "bv_delta_ramp v = []"
      and vars': "vars' = [between 0 5, between 0 5, between 0 5, between 0 5, binary, binary, between 5 5, between 1 10, between 1 10]"
    by (auto simp: battery_declare_vars_def Let_def add_vars_eq numeral_eq_Suc battery_direction_def sample_battery_ctx_def
      build_milp_context_def sample_battery_def)
  have "in_bounds (vars' @ []) sample_battery_plan"
    by (simp add: vars' in_bounds_def sample_battery_plan_def)
  from battery_solvesI [OF d this] have "battery_solves sample_battery_ctx 2 0 0 None (hours_of [1800, 1800]) v sample_battery_plan"
    if "satisfies (battery_constraints sample_battery_ctx v 2 (hours_of [1800, 1800])) sample_battery_plan" using that .
  moreover have "satisfies (battery_constraints sample_battery_ctx v 2 (hours_of [1800, 1800])) sample_battery_plan"
    by (simp add: battery_constraints_def slots_eq hours_of_def dt_h_from_s_def battery_slot_rows_def v sample_battery_plan_def
      sample_battery_ctx_def build_milp_context_def sample_battery_def bt_leg_eff_def numeral_eq_Suc)
  ultimately show ?thesis using d by simp
qed

lemma planned_battery_is_physics_witness:
  "snd (run_steps (battery_step sample_battery) half_full [(2, seconds 1800), (- 2, seconds 1800)]) = [(2, seconds 1800), (- 2, seconds 1800)]"
proof -
  have ctx: "sample_battery_ctx = build_milp_context sample_battery ''bat'' (bs_soc_frac half_full) 0"
    by (simp add: sample_battery_ctx_def half_full_def)
  have "planned_cmds (battery_read sample_battery_ctx (fst (battery_declare_vars sample_battery_ctx 2 0 0 None [])) sample_battery_plan 2)
      [1800, 1800] = [(2, seconds 1800), (- 2, seconds 1800)]"
    by (simp add: planned_cmds_def battery_read_net battery_declare_eq Let_def numeral_eq_Suc sample_battery_plan_def)
  with planned_battery_is_physics [OF sample_battery_solves sample_battery_inv _ _ ctx] show ?thesis by simp
qed

section \<open>When the battery's part has a solution\<close>

text \<open>The whole horizon idle but the first slot, which brings the battery up to its minimum.\<close>

definition recovery_plan :: "nat \<Rightarrow> nat \<Rightarrow> f64 \<Rightarrow> f64 \<Rightarrow> f64 \<Rightarrow> assignment" where
  "recovery_plan n flags pw ea eb = (\<lambda>i.
     if i = 0 then pw else if i < 2 * n then 0 else if i < 3 * n then 1 else if i = 3 * n then ea
     else if i < 4 * n + 1 then eb else if i < 4 * n + 1 + flags then 1 else pw)"

lemma recovery_plan_values:
  fixes pw ea eb :: f64
  assumes "battery_declare_vars ctx n startup ramp None [] = (v, vars')" and "0 < n"
  defines "flags \<equiv> length (bv_z_active v) + length (bv_delta_active v)"
  defines "\<sigma> \<equiv> recovery_plan n flags pw ea eb"
  shows "t < n \<Longrightarrow> \<sigma> (bv_p_ch v ! t) = (if t = 0 then pw else 0)" "t < n \<Longrightarrow> \<sigma> (bv_p_dis v ! t) = 0"
    "t < n \<Longrightarrow> \<sigma> (bv_u_bat v ! t) = 1" "t \<le> n \<Longrightarrow> \<sigma> (bv_e_bat v ! t) = (if t = 0 then ea else eb)"
    "i < length (bv_z_active v) \<Longrightarrow> \<sigma> (bv_z_active v ! i) = 1"
    "i < length (bv_delta_active v) \<Longrightarrow> \<sigma> (bv_delta_active v ! i) = 1"
    "i < length (bv_delta_ramp v) \<Longrightarrow> \<sigma> (bv_delta_ramp v ! i) = pw"
proof -
  obtain z m r where v: "bv_p_ch v = [0..<n]" "bv_p_dis v = [n..<2 * n]" "bv_u_bat v = [2 * n..<3 * n]"
      "bv_e_bat v = [3 * n..<4 * n + 1]" "bv_z_active v = [4 * n + 1..<4 * n + 1 + z]"
      "bv_delta_active v = [4 * n + 1 + z..<4 * n + 1 + z + m]"
      "bv_delta_ramp v = [4 * n + 1 + z + m..<4 * n + 1 + z + m + r]"
    using battery_declare_shape [OF assms(1)] by (metis (no_types, lifting) add_0 list.size(3))
  have \<sigma>: "\<sigma> = recovery_plan n (z + m) pw ea eb" unfolding \<sigma>_def flags_def v length_upt diff_add_inverse ..
  show "t < n \<Longrightarrow> \<sigma> (bv_p_ch v ! t) = (if t = 0 then pw else 0)" "t < n \<Longrightarrow> \<sigma> (bv_p_dis v ! t) = 0"
    "t < n \<Longrightarrow> \<sigma> (bv_u_bat v ! t) = 1" "t \<le> n \<Longrightarrow> \<sigma> (bv_e_bat v ! t) = (if t = 0 then ea else eb)"
    "i < length (bv_z_active v) \<Longrightarrow> \<sigma> (bv_z_active v ! i) = 1"
    "i < length (bv_delta_active v) \<Longrightarrow> \<sigma> (bv_delta_active v ! i) = 1"
    "i < length (bv_delta_ramp v) \<Longrightarrow> \<sigma> (bv_delta_ramp v ! i) = pw"
    using assms(2) unfolding \<sigma> v recovery_plan_def by (simp_all del: upt_Suc)
qed

lemma recovery_plan_bounds:
  assumes d: "battery_declare_vars ctx n startup ramp None [] = (v, vars')" and n: "0 < n"
    and pw: "0 \<le> pw" "pw \<le> bm_p_ch_max_kw ctx" and dis: "0 \<le> bm_p_dis_max_kw ctx"
    and e: "ea = bm_e_init_kwh ctx" "bm_e_min_kwh ctx \<le> eb" "eb \<le> bm_e_max_kwh ctx"
  shows "in_bounds vars' (recovery_plan n (length (bv_z_active v) + length (bv_delta_active v)) pw ea eb)"
proof -
  define \<sigma> where "\<sigma> = recovery_plan n (length (bv_z_active v) + length (bv_delta_active v)) pw ea eb"
  obtain z m r where v: "length (bv_z_active v) = z" "length (bv_delta_active v) = m"
      and vars': "vars' = replicate n (between 0 (bm_p_ch_max_kw ctx)) @ replicate n (between 0 (bm_p_dis_max_kw ctx)) @
      map (battery_direction None) [0..<n] @
      map (\<lambda>i. if i = 0 then between (bm_e_init_kwh ctx) (bm_e_init_kwh ctx)
        else between (bm_e_min_kwh ctx) (bm_e_max_kwh ctx)) [0..<Suc n] @
      replicate z binary @ replicate m binary @ replicate r (at_least 0)"
    using battery_declare_shape [OF d] by (metis (no_types, lifting) append_Nil diff_add_inverse length_upt)
  show ?thesis
    unfolding vars' in_bounds_block
    using n pw dis e
    by (auto simp: block_bounds_map battery_direction_def \<sigma>_def recovery_plan_def v simp del: upt_Suc)
qed

lemma battery_first_slot:
  assumes "battery_solves ctx n startup ramp pinned dt_h v \<sigma>" and "0 < n" "length dt_h = n" "0 \<le> dt_h ! 0"
    and "0 < bm_eff_ch ctx" "0 < bm_eff_dis ctx"
  shows "bm_e_min_kwh ctx \<le> bm_e_init_kwh ctx + dt_h ! 0 * bm_eff_ch ctx * bm_p_ch_max_kw ctx"
proof -
  obtain vars vars' rest where d: "battery_declare_vars ctx n startup ramp pinned vars = (v, vars')" "in_bounds (vars' @ rest) \<sigma>"
      and c: "satisfies (battery_constraints ctx v n dt_h) \<sigma>"
    using assms(1) by (auto simp: battery_solves_def)
  have "bm_e_min_kwh ctx \<le> bm_e_init_kwh ctx + dt_h ! 0 * bm_eff_ch ctx * \<sigma> (bv_p_ch v ! 0) - dt_h ! 0 * (1 / bm_eff_dis ctx) * \<sigma> (bv_p_dis v ! 0)"
    using battery_slot(3) [OF c, of 0] battery_declared_energy [OF d assms(2)] battery_declared_start [OF d] assms by simp
  also have "\<dots> \<le> bm_e_init_kwh ctx + dt_h ! 0 * bm_eff_ch ctx * bm_p_ch_max_kw ctx - 0"
    using planned_legs [OF assms(1,2)] assms by (intro add_left_mono diff_mono mult_left_mono mult_nonneg_nonneg) simp_all
  finally show ?thesis by simp
qed

lemma battery_recovers:
  assumes n: "0 < n" "length dt_h = n" "0 < dt_h ! 0" and eff: "0 < bm_eff_ch ctx"
    and lim: "0 \<le> bm_p_ch_max_kw ctx" "0 \<le> bm_p_dis_max_kw ctx"
    and e: "bm_e_init_kwh ctx \<le> bm_e_max_kwh ctx" "bm_e_min_kwh ctx \<le> bm_e_max_kwh ctx"
    and reach: "bm_e_min_kwh ctx \<le> bm_e_init_kwh ctx + dt_h ! 0 * bm_eff_ch ctx * bm_p_ch_max_kw ctx"
  shows "\<exists>v \<sigma>. battery_solves ctx n startup ramp None dt_h v \<sigma>"
proof -
  define eb where "eb = max (bm_e_init_kwh ctx) (bm_e_min_kwh ctx)"
  define pw where "pw = (eb - bm_e_init_kwh ctx) / (dt_h ! 0 * bm_eff_ch ctx)"
  obtain v vars' where d: "battery_declare_vars ctx n startup ramp None [] = (v, vars')" by (metis prod.exhaust)
  define \<sigma> where "\<sigma> = recovery_plan n (length (bv_z_active v) + length (bv_delta_active v)) pw (bm_e_init_kwh ctx) eb"
  have pos: "0 < dt_h ! 0 * bm_eff_ch ctx" using n eff by simp
  have pw: "0 \<le> pw" "pw \<le> bm_p_ch_max_kw ctx" "eb = bm_e_init_kwh ctx + dt_h ! 0 * bm_eff_ch ctx * pw"
    using pos lim reach n(3) eff by (auto simp: pw_def eb_def divide_le_eq max_def ac_simps)
  have "in_bounds (vars' @ []) \<sigma>"
    unfolding append_Nil2 \<sigma>_def by (rule recovery_plan_bounds [OF d n(1) pw(1,2) lim(2)]) (use e in \<open>simp_all add: eb_def\<close>)
  moreover note len = battery_declare_lengths [OF d]
  note val = recovery_plan_values [OF d n(1), where pw = pw and ea = "bm_e_init_kwh ctx" and eb = eb, folded \<sigma>_def]
  have "satisfies (battery_slot_rows ctx v (t, dt_h ! t)) \<sigma>" if "t < n" for t
    using that val(1-4) val(5) [of t] pw lim by (auto simp: battery_slot_rows_def nth_opt_def)
  moreover have "battery_active_row v i \<sigma>" if "i < length (bv_delta_active v)" for i
    using that val(5) [of i] val(5) [of "i + 1"] val(6) [of i] len(1) by (simp add: battery_active_row_def)
  moreover have "satisfies (battery_ramp_rows v i) \<sigma>" if "i < length (bv_delta_ramp v)" for i
    using that val(1,2) [of i] val(1,2) [of "i + 1"] val(7) [of i] len(2) pw by (simp add: battery_ramp_rows_def battery_net_def)
  moreover have "bm_e_init_kwh ctx \<le> \<sigma> (bv_e_bat v ! n)" using val(4) [of n] n by (simp add: eb_def)
  ultimately have "satisfies (battery_constraints ctx v n dt_h) \<sigma>"
    using n by (simp add: battery_constraints_def all_slots)
  with battery_solvesI [OF d \<open>in_bounds (vars' @ []) \<sigma>\<close>] show ?thesis by blast
qed

text \<open>
  C32. The battery's part of a plan has a solution exactly when the battery can be charged back to its minimum within
  the first slot. Above the minimum it always has one; below it, further than one slot at full charge, the whole
  site's solve is infeasible, since every slot's stored energy after the start is bounded by the minimum.
\<close>

theorem battery_part_solvable_iff:
  fixes asset_id :: string and c :: f64
  assumes wf: "battery_inv b s" and n: "length dt_h = n" "0 < n" "\<forall>dt \<in> set dt_h. 0 < dt"
  defines "ctx \<equiv> build_milp_context b asset_id (bs_soc_frac s) c"
  shows "(\<exists>v \<sigma>. battery_solves ctx n startup ramp None dt_h v \<sigma>) \<longleftrightarrow>
    bt_min_soc_frac b * bt_capacity_kwh b \<le> battery_stored_kwh b s + dt_h ! 0 * bt_leg_eff b * bt_max_charge_kw b"
proof -
  have b: "battery_wf b" "0 \<le> bs_soc_frac s" "bs_soc_frac s \<le> 1" using wf by (simp_all add: battery_inv_def)
  have cap: "0 < bt_capacity_kwh b" "0 < bt_leg_eff b" "bt_min_soc_frac b \<le> 1" "0 \<le> bt_max_charge_kw b" "0 \<le> bt_max_discharge_kw b"
    using b bt_eff_range [of b] by (simp_all add: battery_wf_def)
  have dt: "0 < dt_h ! 0" using n by (metis nth_mem)
  have ctx: "bm_eff_ch ctx = bt_leg_eff b" "bm_eff_dis ctx = bt_leg_eff b" "bm_p_ch_max_kw ctx = bt_max_charge_kw b"
      "bm_p_dis_max_kw ctx = bt_max_discharge_kw b" "bm_e_min_kwh ctx = bt_min_soc_frac b * bt_capacity_kwh b"
      "bm_e_max_kwh ctx = bt_capacity_kwh b" "bm_e_init_kwh ctx = battery_stored_kwh b s"
    by (simp_all add: ctx_def build_milp_context_def battery_stored_kwh_def)
  have "battery_stored_kwh b s \<le> bt_capacity_kwh b" "bt_min_soc_frac b * bt_capacity_kwh b \<le> bt_capacity_kwh b"
    using b cap by (simp_all add: battery_stored_kwh_def)
  with battery_recovers [of n dt_h ctx startup ramp] battery_first_slot [of ctx n startup ramp None dt_h] n dt cap
  show ?thesis unfolding ctx by fastforce
qed

lemma battery_part_solvable_iff_witness:
  "\<exists>v \<sigma>. battery_solves (build_milp_context sample_battery ''bat'' (bs_soc_frac half_full) 0) 1 0 0 None [1 / 12] v \<sigma>"
proof -
  have "bt_min_soc_frac sample_battery * bt_capacity_kwh sample_battery \<le> battery_stored_kwh sample_battery half_full +
      [1 / 12] ! 0 * bt_leg_eff sample_battery * bt_max_charge_kw sample_battery"
    by (simp add: sample_battery_def battery_stored_kwh_def half_full_def bt_leg_eff_def)
  with battery_part_solvable_iff [OF sample_battery_inv, where dt_h = "[1 / 12]" and n = 1] show ?thesis by simp
qed

text \<open>
  A resident raises the minimum state of charge of a half full battery to nine tenths: no plan of five-minute slots
  exists any more for the site, although the battery itself accepts the edit and the dispatcher would charge it.
\<close>

theorem raised_minimum_unsolvable:
  "\<not> (\<exists>v \<sigma>. battery_solves (build_milp_context (battery_update_config [(''min_soc'', 9 / 10)] sample_battery) ''bat''
     (bs_soc_frac half_full) 0) 2 0 0 None [1 / 12, 1 / 12] v \<sigma>)"
proof
  define b where "b = battery_update_config [(''min_soc'', 9 / 10)] sample_battery"
  have b: "bt_capacity_kwh b = 10" "bt_min_soc_frac b = 9 / 10" "bt_max_charge_kw b = 5" "bt_leg_eff b = 1"
    by (simp_all add: b_def battery_update_config_def Let_def sample_battery_def clamp_range_def bt_leg_eff_def)
  assume "\<exists>v \<sigma>. battery_solves (build_milp_context (battery_update_config [(''min_soc'', 9 / 10)] sample_battery) ''bat''
     (bs_soc_frac half_full) 0) 2 0 0 None [1 / 12, 1 / 12] v \<sigma>"
  then obtain v \<sigma> where "battery_solves (build_milp_context b ''bat'' (1 / 2) 0) 2 0 0 None [1 / 12, 1 / 12] v \<sigma>"
    by (auto simp: b_def half_full_def)
  from battery_first_slot [OF this] show False by (simp add: build_milp_context_def b)
qed

section \<open>The warm start\<close>

lemma mem_concat_upt: "p \<in> set (concat (map f [0..<n])) \<longleftrightarrow> (\<exists>t < n. p \<in> set (f t))"
  by auto

lemma ex_less_split:
  assumes "k \<le> n"
  shows "(\<exists>t < n. A t \<or> B t \<or> C t \<or> t < k \<and> D t) \<longleftrightarrow>
    (\<exists>t < n. A t) \<or> (\<exists>t < n. B t) \<or> (\<exists>t < n. C t) \<or> (\<exists>t < (k :: nat). D t)"
  using assms less_le_trans by blast

lemma battery_warm_slot_mem:
  "(i, x) \<in> set (battery_warm_slot v legs t) \<longleftrightarrow>
    i = bv_p_ch v ! t \<and> x = max (lg_charge_kw legs ! t) 0 \<or> i = bv_p_dis v ! t \<and> x = max (lg_discharge_kw legs ! t) 0 \<or>
    i = bv_u_bat v ! t \<and> x = (if 1 / 10 ^ 6 < lg_charge_kw legs ! t then 1 else 0) \<or>
    t < length (bv_z_active v) \<and> i = bv_z_active v ! t \<and> x = leg_active legs t"
  by (auto simp: battery_warm_slot_def nth_opt_def)

lemma battery_warm_mem:
  assumes "as_storage own = Some legs" "length (lg_energy_kwh legs) = Suc n" "length (bv_e_bat v) = Suc n"
    and "length (bv_z_active v) \<le> n"
  shows "(i, x) \<in> set (battery_warm_start v own n) \<longleftrightarrow>
    (\<exists>t \<le> n. i = bv_e_bat v ! t \<and> x = lg_energy_kwh legs ! t) \<or>
    (\<exists>t < n. i = bv_p_ch v ! t \<and> x = max (lg_charge_kw legs ! t) 0) \<or>
    (\<exists>t < n. i = bv_p_dis v ! t \<and> x = max (lg_discharge_kw legs ! t) 0) \<or>
    (\<exists>t < n. i = bv_u_bat v ! t \<and> x = (if 1 / 10 ^ 6 < lg_charge_kw legs ! t then 1 else 0)) \<or>
    (\<exists>t < length (bv_z_active v). i = bv_z_active v ! t \<and> x = leg_active legs t) \<or>
    (\<exists>t < length (bv_delta_active v). i = bv_delta_active v ! t \<and> x = max (leg_active legs (t + 1) - leg_active legs t) 0) \<or>
    (\<exists>t < length (bv_delta_ramp v). i = bv_delta_ramp v ! t \<and> x = \<bar>warm_net legs (t + 1) - warm_net legs t\<bar>)"
proof -
  have e: "(i, x) \<in> set (List.map_filter (\<lambda>t. case (nth_opt (bv_e_bat v) t, nth_opt (lg_energy_kwh legs) t) of
      (Some e, Some x) \<Rightarrow> Some (e, x) | _ \<Rightarrow> None) [0..<Suc n]) \<longleftrightarrow> (\<exists>t \<le> n. i = bv_e_bat v ! t \<and> x = lg_energy_kwh legs ! t)"
    using assms(2,3) by (auto simp: map_filter_mem nth_opt_def less_Suc_eq_le simp del: upt_Suc split: if_splits)
  have slots': "(i, x) \<in> set (concat (map (battery_warm_slot v legs) [0..<n])) \<longleftrightarrow>
      (\<exists>t < n. i = bv_p_ch v ! t \<and> x = max (lg_charge_kw legs ! t) 0) \<or>
      (\<exists>t < n. i = bv_p_dis v ! t \<and> x = max (lg_discharge_kw legs ! t) 0) \<or>
      (\<exists>t < n. i = bv_u_bat v ! t \<and> x = (if 1 / 10 ^ 6 < lg_charge_kw legs ! t then 1 else 0)) \<or>
      (\<exists>t < length (bv_z_active v). i = bv_z_active v ! t \<and> x = leg_active legs t)"
    unfolding mem_concat_upt battery_warm_slot_mem by (rule ex_less_split [OF assms(4)])
  have "(i, x) \<in> set (map (\<lambda>t. (bv_delta_active v ! t, max (leg_active legs (t + 1) - leg_active legs t) 0)) [0..<length (bv_delta_active v)]) \<longleftrightarrow>
      (\<exists>t < length (bv_delta_active v). i = bv_delta_active v ! t \<and> x = max (leg_active legs (t + 1) - leg_active legs t) 0)"
    "(i, x) \<in> set (map (\<lambda>t. (bv_delta_ramp v ! t, \<bar>warm_net legs (t + 1) - warm_net legs t\<bar>)) [0..<length (bv_delta_ramp v)]) \<longleftrightarrow>
      (\<exists>t < length (bv_delta_ramp v). i = bv_delta_ramp v ! t \<and> x = \<bar>warm_net legs (t + 1) - warm_net legs t\<bar>)"
    by auto
  then show ?thesis
    unfolding battery_warm_start_def assms(1) option.case set_append Un_iff e slots' by blast
qed

text \<open>What the initial solution holds, at the handles a declaration hands out.\<close>

lemma battery_warm_values:
  fixes \<sigma> :: assignment
  assumes d: "battery_declare_vars ctx n startup ramp pinned vars = (v, vars')" and legs: "as_storage own = Some legs"
    and len: "length (lg_energy_kwh legs) = Suc n"
  defines "\<tau> \<equiv> seeded (battery_warm_start v own n) \<sigma>"
  shows "t \<le> n \<Longrightarrow> \<tau> (bv_e_bat v ! t) = lg_energy_kwh legs ! t"
    and "t < n \<Longrightarrow> \<tau> (bv_p_ch v ! t) = max (lg_charge_kw legs ! t) 0"
    and "t < n \<Longrightarrow> \<tau> (bv_p_dis v ! t) = max (lg_discharge_kw legs ! t) 0"
    and "t < n \<Longrightarrow> \<tau> (bv_u_bat v ! t) = (if 1 / 10 ^ 6 < lg_charge_kw legs ! t then 1 else 0)"
    and "t < length (bv_z_active v) \<Longrightarrow> \<tau> (bv_z_active v ! t) = leg_active legs t"
    and "t < length (bv_delta_active v) \<Longrightarrow> \<tau> (bv_delta_active v ! t) = max (leg_active legs (t + 1) - leg_active legs t) 0"
    and "t < length (bv_delta_ramp v) \<Longrightarrow> \<tau> (bv_delta_ramp v ! t) = \<bar>warm_net legs (t + 1) - warm_net legs t\<bar>"
proof -
  obtain z m r where v: "bv_p_ch v = [length vars..<length vars + n]" "bv_p_dis v = [length vars + n..<length vars + 2 * n]"
    "bv_u_bat v = [length vars + 2 * n..<length vars + 3 * n]" "bv_e_bat v = [length vars + 3 * n..<length vars + 4 * n + 1]"
    "bv_z_active v = [length vars + 4 * n + 1..<length vars + 4 * n + 1 + z]"
    "bv_delta_active v = [length vars + 4 * n + 1 + z..<length vars + 4 * n + 1 + z + m]"
    "bv_delta_ramp v = [length vars + 4 * n + 1 + z + m..<length vars + 4 * n + 1 + z + m + r]" and z: "z \<le> n"
    by (rule battery_declare_shape [OF d])
  have l: "length (bv_e_bat v) = Suc n" "length (bv_z_active v) = z" "length (bv_delta_active v) = m" "length (bv_delta_ramp v) = r"
    by (simp_all add: v del: upt_Suc)
  have at: "t < n \<Longrightarrow> bv_p_ch v ! t = length vars + t" "t < n \<Longrightarrow> bv_p_dis v ! t = length vars + n + t"
      "t < n \<Longrightarrow> bv_u_bat v ! t = length vars + 2 * n + t" "t \<le> n \<Longrightarrow> bv_e_bat v ! t = length vars + 3 * n + t"
      "t < z \<Longrightarrow> bv_z_active v ! t = length vars + 4 * n + 1 + t" "t < m \<Longrightarrow> bv_delta_active v ! t = length vars + 4 * n + 1 + z + t"
      "t < r \<Longrightarrow> bv_delta_ramp v ! t = length vars + 4 * n + 1 + z + m + t" for t
    by (simp_all add: v del: upt_Suc)
  note mem = battery_warm_mem [OF legs len l(1), unfolded l, OF z]
  have val: "\<tau> i = x" if "(i, x) \<in> set (battery_warm_start v own n)" "\<And>y. (i, y) \<in> set (battery_warm_start v own n) \<Longrightarrow> y = x" for i x
    unfolding \<tau>_def using that by (rule seeded_unique)
  show "t \<le> n \<Longrightarrow> \<tau> (bv_e_bat v ! t) = lg_energy_kwh legs ! t"
    by (rule val) (auto simp: mem at)
  show "t < n \<Longrightarrow> \<tau> (bv_p_ch v ! t) = max (lg_charge_kw legs ! t) 0"
    by (rule val) (auto simp: mem at)
  show "t < n \<Longrightarrow> \<tau> (bv_p_dis v ! t) = max (lg_discharge_kw legs ! t) 0"
    by (rule val) (auto simp: mem at)
  show "t < n \<Longrightarrow> \<tau> (bv_u_bat v ! t) = (if 1 / 10 ^ 6 < lg_charge_kw legs ! t then 1 else 0)"
    by (rule val) (auto simp: mem at)
  show "t < length (bv_z_active v) \<Longrightarrow> \<tau> (bv_z_active v ! t) = leg_active legs t"
    by (rule val) (use z in \<open>auto simp: mem at l\<close>)
  show "t < length (bv_delta_active v) \<Longrightarrow> \<tau> (bv_delta_active v ! t) = max (leg_active legs (t + 1) - leg_active legs t) 0"
    by (rule val) (use z in \<open>auto simp: mem at l\<close>)
  show "t < length (bv_delta_ramp v) \<Longrightarrow> \<tau> (bv_delta_ramp v ! t) = \<bar>warm_net legs (t + 1) - warm_net legs t\<bar>"
    by (rule val) (use z in \<open>auto simp: mem at l\<close>)
qed

lemma map_cong_upt: "m = n \<Longrightarrow> (\<And>t. t < n \<Longrightarrow> f t = g t) \<Longrightarrow> map f [0..<m] = map g [0..<n]"
  by simp

text \<open>What the legs cost in wear, whatever friction variables a declaration has.\<close>

lemma battery_cost_terms:
  "battery_terms v wear 0 0 n dt_h \<sigma> =
    sum_list (map (\<lambda>t. wear * dt_h ! t * (\<sigma> (bv_p_ch v ! t) + \<sigma> (bv_p_dis v ! t))) [0..<min n (length dt_h)])"
proof -
  have "sum_expr (battery_slot_terms v wear 0 0 (t, dt)) \<sigma> = wear * dt * (\<sigma> (bv_p_ch v ! t) + \<sigma> (bv_p_dis v ! t))" for t dt
    by (simp add: battery_slot_terms_def nth_opt_def algebra_simps)
  then show ?thesis by (simp add: battery_terms_def sum_expr_concat slots_eq o_def)
qed

text \<open>A leg the solver left no residue on: off, or above the threshold the warm start reads as on.\<close>

definition clean_legs :: "asset_solution \<Rightarrow> bool" where
  "clean_legs own \<longleftrightarrow> (case as_storage own of None \<Rightarrow> True | Some legs \<Rightarrow>
     list_all (\<lambda>kw. kw = 0 \<or> 1 / 10 ^ 6 < kw) (lg_charge_kw legs @ lg_discharge_kw legs))"

lemma clean_legs_read:
  assumes "clean_legs (battery_read ctx v \<sigma> n)" "t < n"
  shows "\<sigma> (bv_p_ch v ! t) = 0 \<or> 1 / 10 ^ 6 < \<sigma> (bv_p_ch v ! t)" "\<sigma> (bv_p_dis v ! t) = 0 \<or> 1 / 10 ^ 6 < \<sigma> (bv_p_dis v ! t)"
  using assms by (auto simp: clean_legs_def battery_read_def battery_read_solution_def list_all_iff simp del: upt_Suc)

lemma leg_active_cases: "leg_active legs t = 0 \<or> leg_active legs t = 1"
  by (simp add: leg_active_def)

definition phase1_legs :: "battery_milp_vars \<Rightarrow> assignment \<Rightarrow> nat \<Rightarrow> storage_legs" where
  "phase1_legs v \<sigma> n = \<lparr>lg_charge_kw = map (\<lambda>t. \<sigma> (bv_p_ch v ! t)) [0..<n], lg_discharge_kw = map (\<lambda>t. \<sigma> (bv_p_dis v ! t)) [0..<n],
     lg_energy_kwh = map (\<lambda>t. \<sigma> (bv_e_bat v ! t)) [0..<Suc n]\<rparr>"

lemma phase1_legs_simps [simp]:
  "t < n \<Longrightarrow> lg_charge_kw (phase1_legs v \<sigma> n) ! t = \<sigma> (bv_p_ch v ! t)"
  "t < n \<Longrightarrow> lg_discharge_kw (phase1_legs v \<sigma> n) ! t = \<sigma> (bv_p_dis v ! t)"
  "t \<le> n \<Longrightarrow> lg_energy_kwh (phase1_legs v \<sigma> n) ! t = \<sigma> (bv_e_bat v ! t)"
  "length (lg_energy_kwh (phase1_legs v \<sigma> n)) = Suc n"
  by (simp_all add: phase1_legs_def del: upt_Suc)

lemma battery_read_legs: "as_storage (battery_read ctx v \<sigma> n) = Some (phase1_legs v \<sigma> n)"
  by (simp add: battery_read_def battery_read_solution_def phase1_legs_def)

text \<open>The phase 1 solution carried over to phase 2's handles.\<close>

lemma battery_warm_carried:
  fixes \<sigma>0 :: assignment
  assumes sol: "battery_solves ctx n 0 0 None dt_h v1 \<sigma>1"
    and d: "battery_declare_vars ctx n startup ramp None vars = (v, vars')"
  defines "\<tau> \<equiv> seeded (battery_warm_start v (battery_read ctx v1 \<sigma>1 n) n) \<sigma>0"
  shows "t \<le> n \<Longrightarrow> \<tau> (bv_e_bat v ! t) = \<sigma>1 (bv_e_bat v1 ! t)"
    and "t < n \<Longrightarrow> \<tau> (bv_p_ch v ! t) = \<sigma>1 (bv_p_ch v1 ! t)"
    and "t < n \<Longrightarrow> \<tau> (bv_p_dis v ! t) = \<sigma>1 (bv_p_dis v1 ! t)"
    and "t < n \<Longrightarrow> \<tau> (bv_u_bat v ! t) = (if 1 / 10 ^ 6 < \<sigma>1 (bv_p_ch v1 ! t) then 1 else 0)"
    and "t < length (bv_z_active v) \<Longrightarrow> \<tau> (bv_z_active v ! t) = leg_active (phase1_legs v1 \<sigma>1 n) t"
    and "t < length (bv_delta_active v) \<Longrightarrow> \<tau> (bv_delta_active v ! t) =
      max (leg_active (phase1_legs v1 \<sigma>1 n) (t + 1) - leg_active (phase1_legs v1 \<sigma>1 n) t) 0"
    and "t < length (bv_delta_ramp v) \<Longrightarrow> \<tau> (bv_delta_ramp v ! t) = \<bar>warm_net (phase1_legs v1 \<sigma>1 n) (t + 1) - warm_net (phase1_legs v1 \<sigma>1 n) t\<bar>"
proof -
  note val = battery_warm_values [OF d battery_read_legs phase1_legs_simps(4), of _ ctx v1 \<sigma>1 \<sigma>0, folded \<tau>_def]
  note leg = planned_legs [OF sol]
  show "t \<le> n \<Longrightarrow> \<tau> (bv_e_bat v ! t) = \<sigma>1 (bv_e_bat v1 ! t)" by (simp add: val(1))
  show "t < n \<Longrightarrow> \<tau> (bv_p_ch v ! t) = \<sigma>1 (bv_p_ch v1 ! t)" using leg(1) [of t] by (simp add: val(2))
  show "t < n \<Longrightarrow> \<tau> (bv_p_dis v ! t) = \<sigma>1 (bv_p_dis v1 ! t)" using leg(3) [of t] by (simp add: val(3))
  show "t < n \<Longrightarrow> \<tau> (bv_u_bat v ! t) = (if 1 / 10 ^ 6 < \<sigma>1 (bv_p_ch v1 ! t) then 1 else 0)" by (simp add: val(4))
qed (simp_all add: \<tau>_def battery_warm_values(5-7) [OF d battery_read_legs phase1_legs_simps(4)])

text \<open>
  Phase 2 is handed a feasible start: whatever solution phase 1 found for the battery, if the solver left no
  residue below the threshold on its legs, the initial solution written from it satisfies every row and every bound
  of phase 2's battery, whatever friction is priced there, draws the same power in every slot and has the same cost.
\<close>

theorem battery_warm_start_feasible:
  fixes \<sigma>0 :: assignment
  assumes sol: "battery_solves ctx n 0 0 None dt_h v1 \<sigma>1" and dt: "length dt_h = n"
    and d: "battery_declare_vars ctx n startup ramp None vars = (v, vars')"
    and clean: "clean_legs (battery_read ctx v1 \<sigma>1 n)"
  defines "\<tau> \<equiv> seeded (battery_warm_start v (battery_read ctx v1 \<sigma>1 n) n) \<sigma>0"
  shows "satisfies (battery_constraints ctx v n dt_h) \<tau> \<and> block_bounds (length vars) (drop (length vars) vars') \<tau> \<and>
    (\<forall>t < n. battery_net v t \<tau> = battery_net v1 t \<sigma>1) \<and>
    battery_objective ctx v (CostPart wear) n dt_h \<tau> = battery_objective ctx v1 (CostPart wear) n dt_h \<sigma>1"
proof (intro conjI)
  obtain vars1 vars1' rest where d1: "battery_declare_vars ctx n 0 0 None vars1 = (v1, vars1')" "in_bounds (vars1' @ rest) \<sigma>1"
      and c1: "satisfies (battery_constraints ctx v1 n dt_h) \<sigma>1"
    using sol by (auto simp: battery_solves_def)
  define z m r where "z = length (bv_z_active v)" "m = length (bv_delta_active v)" "r = length (bv_delta_ramp v)"
  note len = this [symmetric] and zm = battery_declare_lengths [OF d, folded this]
  note val = battery_warm_carried [OF sol d, of _ \<sigma>0, folded \<tau>_def, unfolded len]
  note leg = planned_legs [OF sol] and res = clean_legs_read [OF clean]
  show net: "\<forall>t < n. battery_net v t \<tau> = battery_net v1 t \<sigma>1" by (simp add: battery_net_def val(2,3))
  have "satisfies (battery_slot_rows ctx v (t, dt_h ! t)) \<tau>" if t: "t < n" for t
    using battery_slot [OF c1 t] t dt leg [OF t] res [OF t] val(1) [of t] val(1) [of "Suc t"] val(2-4) [OF t] val(5) [of t]
    by (auto simp: battery_slot_rows_def nth_opt_def len leg_active_def)
  moreover have "battery_active_row v i \<tau>" if "i < m" for i
    using that val(5) [of i] val(5) [of "i + 1"] val(6) [of i] zm by (simp add: battery_active_row_def)
  moreover have "satisfies (battery_ramp_rows v i) \<tau>" if "i < r" for i
    using that val(2,3) [of i] val(2,3) [of "i + 1"] val(7) [of i] zm
    by (auto simp: battery_ramp_rows_def battery_net_def warm_net_def)
  moreover have "bm_e_init_kwh ctx \<le> \<tau> (bv_e_bat v ! n)" using c1 val(1) [of n] by (simp add: battery_constraints_def)
  ultimately show "satisfies (battery_constraints ctx v n dt_h) \<tau>"
    using dt by (simp add: battery_constraints_def all_slots len)
  have "in_domain (if t = 0 then between (bm_e_init_kwh ctx) (bm_e_init_kwh ctx) else between (bm_e_min_kwh ctx) (bm_e_max_kwh ctx))
      (\<tau> (bv_e_bat v ! t))" if "t \<le> n" for t
    using that val(1) [of t] battery_declared_start [OF d1] battery_declared_energy [OF d1, of "t - 1"] by (cases t) auto
  moreover have "in_domain binary (\<tau> (bv_z_active v ! t))" if "t < z" for t
    using val(5) [OF that] leg_active_cases [of _ t] by simp
  moreover have "in_domain binary (\<tau> (bv_delta_active v ! t))" if "t < m" for t
    using val(6) [OF that] leg_active_cases [of "phase1_legs v1 \<sigma>1 n" t] leg_active_cases [of "phase1_legs v1 \<sigma>1 n" "t + 1"] by auto
  ultimately show "block_bounds (length vars) (drop (length vars) vars') \<tau>"
    unfolding battery_block_bounds [OF d] len using leg val(2-4,7) by (simp add: battery_direction_def less_Suc_eq_le)
  show "battery_objective ctx v (CostPart wear) n dt_h \<tau> = battery_objective ctx v1 (CostPart wear) n dt_h \<sigma>1"
    using val(1-3) dt by (simp add: battery_objective_def battery_cost_terms cong: map_cong_upt)
qed

lemma battery_warm_start_feasible_witness:
  "let (v, vars') = battery_declare_vars sample_battery_ctx 2 (1 / 10) (1 / 20) None [];
       v1 = fst (battery_declare_vars sample_battery_ctx 2 0 0 None [])
   in satisfies (battery_constraints sample_battery_ctx v 2 (hours_of [1800, 1800]))
     (seeded (battery_warm_start v (battery_read sample_battery_ctx v1 sample_battery_plan 2) 2) (\<lambda>_. 0))"
proof -
  obtain v vars' where d: "battery_declare_vars sample_battery_ctx 2 (1 / 10) (1 / 20) None [] = (v, vars')" by (metis prod.exhaust)
  have "clean_legs (battery_read sample_battery_ctx (fst (battery_declare_vars sample_battery_ctx 2 0 0 None [])) sample_battery_plan 2)"
    by (simp add: clean_legs_def battery_read_def battery_read_solution_def battery_declare_eq Let_def numeral_eq_Suc sample_battery_plan_def)
  from battery_warm_start_feasible [OF sample_battery_solves _ d this, of "\<lambda>_. 0" 0] show ?thesis
    by (simp add: d hours_of_def)
qed

end
