(* ===== verification/Shiftable_Milp.thy ===== *)
theory Shiftable_Milp
  imports Milp_Model Shiftable_Load
begin

text \<open>
  \<open>VEN/src/assets/shiftable_declared.rs\<close> and \<open>VEN/src/assets/forecast_declared.rs\<close>: a shiftable load and a
  forecast participant (PV, base load) as the planner sees them. A load has one binary per valid start slot; a
  curtailable participant has the used generation of each slot, any other none at all.
\<close>

section \<open>The shiftable load\<close>

definition shiftable_declare_starts ::
  "shiftable_milp_context \<Rightarrow> f64 list option \<Rightarrow> lp_domain list \<Rightarrow> lp_var list \<times> lp_domain list" where
  "shiftable_declare_starts ctx pinned vars =
     add_vars (map (\<lambda>i. case pinned of None \<Rightarrow> binary | Some starts \<Rightarrow> fixed_at (pinned_binary (nth_opt starts i)))
       [0..<length (sm_valid_start_slots ctx)]) vars"

definition shiftable_own_starts :: "asset_solution \<Rightarrow> f64 list" where
  "shiftable_own_starts own = (case as_detail own of ShiftableDetail starts \<Rightarrow> starts | _ \<Rightarrow> [])"

definition shiftable_declare ::
  "shiftable_milp_context \<Rightarrow> declare_mode \<Rightarrow> lp_domain list \<Rightarrow> lp_var list \<times> lp_domain list" where
  "shiftable_declare ctx mode vars =
     shiftable_declare_starts ctx (case mode of PlanMode _ \<Rightarrow> None | PinnedMode own \<Rightarrow> Some (shiftable_own_starts own)) vars"

definition starts_covering :: "shiftable_milp_context \<Rightarrow> nat \<Rightarrow> nat list" where
  "starts_covering ctx t =
     map fst (filter (\<lambda>(_, j). j \<le> t \<and> t < j + sm_duration_slots ctx) (enumerate 0 (sm_valid_start_slots ctx)))"

definition shiftable_net :: "shiftable_milp_context \<Rightarrow> lp_var list \<Rightarrow> nat \<Rightarrow> lp_expr" where
  "shiftable_net ctx y t = sum_expr (map (\<lambda>ji \<sigma>. sm_power_kw ctx * \<sigma> (y ! ji)) (starts_covering ctx t))"

definition shiftable_constraints :: "lp_var list \<Rightarrow> lp_row list" where
  "shiftable_constraints y = [\<lambda>\<sigma>. sum_expr (map (\<lambda>v \<sigma>. \<sigma> v) y) \<sigma> = 1]"

definition shift_tiebreak_eur_per_slot :: f64 where "shift_tiebreak_eur_per_slot = 1 / 1000"

definition shiftable_objective :: "shiftable_milp_context \<Rightarrow> lp_var list \<Rightarrow> lp_expr" where
  "shiftable_objective ctx y = sum_expr (map (\<lambda>(ji, v) \<sigma>.
     shift_tiebreak_eur_per_slot * of_nat (sm_valid_start_slots ctx ! ji) * \<sigma> v) (enumerate 0 y))"

definition shiftable_warm_start :: "asset_solution \<Rightarrow> (lp_var \<times> f64) list" where
  "shiftable_warm_start own = []"

definition shiftable_read ::
  "shiftable_milp_context \<Rightarrow> string \<Rightarrow> lp_var list \<Rightarrow> assignment \<Rightarrow> nat \<Rightarrow> asset_solution" where
  "shiftable_read ctx asset_id y \<sigma> n =
     \<lparr>as_asset_id = asset_id,
      as_net_power_kw = map (\<lambda>t. fold (\<lambda>ji kw. kw + sm_power_kw ctx * \<sigma> (y ! ji)) (starts_covering ctx t) 0) [0..<n],
      as_planned_state = [], as_storage = None, as_warnings = [], as_detail = ShiftableDetail (map \<sigma> y)\<rparr>"

definition shiftable_solution_from_trace ::
  "shiftable_milp_context \<Rightarrow> string \<Rightarrow> f64 list \<Rightarrow> asset_solution" where
  "shiftable_solution_from_trace ctx asset_id net_kw =
     (let first_on = List.find (\<lambda>t. 1 / 10 ^ 6 < net_kw ! t) [0..<length net_kw] in
      \<lparr>as_asset_id = asset_id, as_net_power_kw = net_kw, as_planned_state = [], as_storage = None, as_warnings = [],
       as_detail = ShiftableDetail (map (\<lambda>j. if Some j = first_on then 1 else 0) (sm_valid_start_slots ctx))\<rparr>)"

definition shiftable_flexibility_window :: "shiftable_milp_context \<Rightarrow> flexibility_window option" where
  "shiftable_flexibility_window ctx =
     (let needed = energy_kwh_from_min (sm_power_kw ctx) (of_nat (sm_duration_min ctx)) in
      if 0 < needed then Some \<lparr>fw_energy_needed_kwh = needed, fw_power_min_kw = sm_power_kw ctx,
        fw_power_max_kw = sm_power_kw ctx, fw_window_start = sm_earliest_start ctx, fw_window_end = sm_latest_end ctx\<rparr>
      else None)"

section \<open>A forecast participant\<close>

record forecast_milp_context =
  fm_asset_id :: string
  fm_role :: forecast_role
  fm_forecast_kw :: "f64 list"
  fm_curtailable :: bool

definition forecast_sign :: "forecast_milp_context \<Rightarrow> f64" where
  "forecast_sign ctx = (case fm_role ctx of Generation \<Rightarrow> - 1 | LoadRole \<Rightarrow> 1)"

definition pv_use_tiebreak_eur_per_kwh :: f64 where "pv_use_tiebreak_eur_per_kwh = 5 / 1000"

definition forecast_declare :: "forecast_milp_context \<Rightarrow> nat \<Rightarrow> lp_domain list \<Rightarrow> lp_var list \<times> lp_domain list" where
  "forecast_declare ctx n vars = (if fm_curtailable ctx then add_vars (replicate n (at_least 0)) vars else ([], vars))"

definition forecast_net :: "forecast_milp_context \<Rightarrow> lp_var list \<Rightarrow> nat \<Rightarrow> lp_expr" where
  "forecast_net ctx used t = (\<lambda>\<sigma>. case nth_opt used t of
     Some u \<Rightarrow> forecast_sign ctx * \<sigma> u | None \<Rightarrow> forecast_sign ctx * fm_forecast_kw ctx ! t)"

definition forecast_slot_rows :: "forecast_milp_context \<Rightarrow> lp_var list \<Rightarrow> nat \<Rightarrow> lp_row list" where
  "forecast_slot_rows ctx used t = (case nth_opt used t of None \<Rightarrow> [] | Some u \<Rightarrow> [\<lambda>\<sigma>. \<sigma> u \<le> fm_forecast_kw ctx ! t])"

definition forecast_objective :: "forecast_milp_context \<Rightarrow> lp_var list \<Rightarrow> f64 list \<Rightarrow> lp_expr" where
  "forecast_objective ctx used dt_h =
     (if fm_role ctx = Generation
      then sum_expr (map (\<lambda>(t, u) \<sigma>. - (pv_use_tiebreak_eur_per_kwh * dt_h ! t) * \<sigma> u) (enumerate 0 used)) else (\<lambda>\<sigma>. 0))"

definition forecast_warm_start :: "forecast_milp_context \<Rightarrow> lp_var list \<Rightarrow> asset_solution \<Rightarrow> (lp_var \<times> f64) list" where
  "forecast_warm_start ctx used own =
     map (\<lambda>(u, net_kw). (u, max (net_kw * forecast_sign ctx) 0)) (zip used (as_net_power_kw own))"

definition forecast_read :: "forecast_milp_context \<Rightarrow> lp_var list \<Rightarrow> assignment \<Rightarrow> nat \<Rightarrow> asset_solution" where
  "forecast_read ctx used \<sigma> n =
     \<lparr>as_asset_id = fm_asset_id ctx, as_net_power_kw = map (\<lambda>t. forecast_net ctx used t \<sigma>) [0..<n],
      as_planned_state = [], as_storage = None, as_warnings = [], as_detail = ForecastDetail\<rparr>"

definition forecast_solution_from_trace :: "forecast_milp_context \<Rightarrow> f64 list \<Rightarrow> asset_solution" where
  "forecast_solution_from_trace ctx net_kw =
     \<lparr>as_asset_id = fm_asset_id ctx, as_net_power_kw = net_kw, as_planned_state = [], as_storage = None,
      as_warnings = [], as_detail = ForecastDetail\<rparr>"

definition forecast_participation :: "forecast_milp_context \<Rightarrow> participation" where
  "forecast_participation ctx = FollowsForecast (fm_role ctx) (fm_forecast_kw ctx)"

definition forecast_surplus_claim_rank :: nat where "forecast_surplus_claim_rank = 255"

section \<open>Exactly one run\<close>

definition shiftable_solves :: "shiftable_milp_context \<Rightarrow> f64 list option \<Rightarrow> lp_var list \<Rightarrow> assignment \<Rightarrow> bool" where
  "shiftable_solves ctx pinned y \<sigma> \<longleftrightarrow> (\<exists>vars vars' rest.
     shiftable_declare_starts ctx pinned vars = (y, vars') \<and> in_bounds (vars' @ rest) \<sigma>) \<and>
     satisfies (shiftable_constraints y) \<sigma>"

lemma one_of_binaries:
  fixes f :: "nat \<Rightarrow> real"
  assumes "\<forall>i < k. f i = 0 \<or> f i = 1" and "sum_list (map f [0..<k]) = 1"
  shows "\<exists>j < k. \<forall>i < k. f i = (if i = j then 1 else 0)"
  using assms
proof (induction k)
  case (Suc k)
  have nonneg: "\<forall>x \<in> set (map f [0..<k]). 0 \<le> x"
    using Suc.prems(1) by (auto simp: less_Suc_eq)
  show ?case
  proof (cases "f k = 1")
    case True
    then have "sum_list (map f [0..<k]) = 0" using Suc.prems(2) by simp
    with sum_list_nonneg_eq_0_iff [of "map f [0..<k]"] nonneg have "\<forall>i < k. f i = 0" by auto
    with True show ?thesis by (intro exI [of _ k]) (auto simp: less_Suc_eq)
  next
    case False
    then have "f k = 0" using Suc.prems(1) by auto
    with Suc.IH Suc.prems obtain j where "j < k" "\<forall>i < k. f i = (if i = j then 1 else 0)" by auto
    with \<open>f k = 0\<close> show ?thesis by (intro exI [of _ j]) (auto simp: less_Suc_eq)
  qed
qed simp

lemma map_upt_nth: "map (\<lambda>i. g (xs ! i)) [0..<length xs] = map g xs"
  by (rule nth_equalityI) simp_all

lemma shiftable_one_start:
  assumes "shiftable_solves ctx pinned y \<sigma>"
  shows "length y = length (sm_valid_start_slots ctx)"
    and "\<exists>j < length y. \<forall>i < length y. \<sigma> (y ! i) = (if i = j then 1 else 0)"
proof -
  obtain vars vars' rest where d: "shiftable_declare_starts ctx pinned vars = (y, vars')" "in_bounds (vars' @ rest) \<sigma>"
      and c: "satisfies (shiftable_constraints y) \<sigma>"
    using assms by (auto simp: shiftable_solves_def)
  note facts = add_vars_facts [OF d(1) [unfolded shiftable_declare_starts_def]]
  show len: "length y = length (sm_valid_start_slots ctx)" using facts(1) by simp
  have "\<sigma> (y ! i) = 0 \<or> \<sigma> (y ! i) = 1" if "i < length y" for i
    using facts(4) [OF d(2), of i] that len pinned_binary_cases by (auto split: option.splits)
  moreover have "sum_list (map (\<lambda>i. \<sigma> (y ! i)) [0..<length y]) = 1"
    using c by (simp add: shiftable_constraints_def sum_expr_def o_def map_upt_nth)
  ultimately show "\<exists>j < length y. \<forall>i < length y. \<sigma> (y ! i) = (if i = j then 1 else 0)"
    by (intro one_of_binaries) simp_all
qed

text \<open>The power read back in a slot: the load's own when the one start covers the slot.\<close>

lemma fold_add_zero: "\<forall>x \<in> set xs. f x = (0 :: f64) \<Longrightarrow> fold (\<lambda>x kw. kw + f x) xs a = a"
  by (induction xs arbitrary: a) auto

lemma fold_add_one:
  "distinct xs \<Longrightarrow> j \<in> set xs \<Longrightarrow> \<forall>x \<in> set xs. x \<noteq> j \<longrightarrow> f x = (0 :: f64) \<Longrightarrow> fold (\<lambda>x kw. kw + f x) xs a = a + f j"
proof (induction xs arbitrary: a)
  case (Cons x xs)
  show ?case
  proof (cases "x = j")
    case True
    then have "\<forall>x \<in> set xs. f x = 0" using Cons.prems by auto
    then show ?thesis using True by (simp add: fold_add_zero)
  qed (use Cons in auto)
qed simp

lemma starts_covering_mem:
  "ji \<in> set (starts_covering ctx t) \<longleftrightarrow> ji < length (sm_valid_start_slots ctx) \<and>
    sm_valid_start_slots ctx ! ji \<le> t \<and> t < sm_valid_start_slots ctx ! ji + sm_duration_slots ctx"
  by (force simp: starts_covering_def in_set_enumerate_eq image_iff)

lemma distinct_starts_covering: "distinct (starts_covering ctx t)"
  unfolding starts_covering_def by (rule distinct_map_filter) (simp add: distinct_map)

lemma planned_load_power:
  assumes sol: "shiftable_solves ctx pinned y \<sigma>"
  shows "\<exists>s \<in> set (sm_valid_start_slots ctx). \<forall>t < n. as_net_power_kw (shiftable_read ctx asset_id y \<sigma> n) ! t =
    (if s \<le> t \<and> t < s + sm_duration_slots ctx then sm_power_kw ctx else 0)"
proof -
  from shiftable_one_start [OF sol] obtain j where j: "j < length (sm_valid_start_slots ctx)"
      and y: "\<forall>i < length (sm_valid_start_slots ctx). \<sigma> (y ! i) = (if i = j then 1 else 0)" by auto
  define s where "s = sm_valid_start_slots ctx ! j"
  have "as_net_power_kw (shiftable_read ctx asset_id y \<sigma> n) ! t =
      (if s \<le> t \<and> t < s + sm_duration_slots ctx then sm_power_kw ctx else 0)" if t: "t < n" for t
  proof (cases "j \<in> set (starts_covering ctx t)")
    case True
    have "fold (\<lambda>ji kw. kw + sm_power_kw ctx * \<sigma> (y ! ji)) (starts_covering ctx t) 0 = 0 + sm_power_kw ctx * \<sigma> (y ! j)"
      by (rule fold_add_one [OF distinct_starts_covering True]) (auto simp: starts_covering_mem y)
    then show ?thesis using True y j t by (simp add: shiftable_read_def starts_covering_mem s_def)
  next
    case False
    have "fold (\<lambda>ji kw. kw + sm_power_kw ctx * \<sigma> (y ! ji)) (starts_covering ctx t) 0 = 0"
      by (rule fold_add_zero) (use False y in \<open>auto simp: starts_covering_mem\<close>)
    then show ?thesis using False j t by (auto simp: shiftable_read_def starts_covering_mem s_def)
  qed
  then show ?thesis using j by (intro bexI [of _ s]) (auto simp: s_def)
qed


definition late_plan :: assignment where "late_plan = (\<lambda>i. [0, 1] ! i)"

lemma late_washer_solves:
  "shiftable_solves (shiftable_milp late_washer shiftable_initial [0, 300, 600] 2 0) None [0, 1] late_plan"
proof -
  have "shiftable_declare_starts (shiftable_milp late_washer shiftable_initial [0, 300, 600] 2 0) None [] = ([0, 1], [binary, binary])"
    by (simp add: shiftable_declare_starts_def late_washer_starts add_vars_eq upt_rec)
  moreover have "in_bounds ([binary, binary] @ []) late_plan" by (simp add: in_bounds_def late_plan_def)
  moreover have "satisfies (shiftable_constraints [0, 1]) late_plan" by (simp add: shiftable_constraints_def late_plan_def)
  ultimately show ?thesis unfolding shiftable_solves_def by blast
qed


section \<open>Runs the plan gets wrong\<close>

text \<open>A load with no start slot at all leaves its one row, that exactly one start is taken, without a solution.\<close>

lemma no_start_unsolvable: "sm_valid_start_slots ctx = [] \<Longrightarrow> \<not> shiftable_solves ctx pinned y \<sigma>"
  using shiftable_one_start [of ctx pinned y \<sigma>] by fastforce

text \<open>
  A request is accepted whatever the planning horizon: a load whose window opens after it, and whose run takes more
  than one slot, has no start slot, so no plan of the whole site exists until the horizon reaches the window.
\<close>

theorem load_beyond_horizon_unsolvable:
  fixes l :: shiftable_load
  assumes grid: "sorted_wrt (<) cum" "length cum = Suc n" "cum ! 0 = 0" "1 < n" and l: "\<not> ss_started s"
    and late: "now + seconds (cum ! n) \<le> sl_earliest_start l" and run: "cum ! 1 < int (sl_duration_min l) * 60"
  shows "\<not> shiftable_solves (shiftable_milp l s cum n now) pinned y \<sigma>"
proof (rule no_start_unsolvable)
  define ds where "ds = slots_covering cum n (int (sl_duration_min l) * 60)"
  define ws where "ws = max (num_seconds (sl_earliest_start l - now)) 0"
  have "k \<noteq> 1" if "List.find (\<lambda>k. int (sl_duration_min l) * 60 \<le> cum ! k) [1..<Suc n] = Some k" for k
    using find_Some_D [OF that] run by auto
  moreover have "1 \<le> k" if "List.find (\<lambda>k. int (sl_duration_min l) * 60 \<le> cum ! k) [1..<Suc n] = Some k" for k
    using find_Some_D [OF that] by (simp del: upt_Suc)
  ultimately have ds: "2 \<le> ds"
    using grid(4) by (cases "List.find (\<lambda>k. int (sl_duration_min l) * 60 \<le> cum ! k) [1..<Suc n]")
      (auto simp: ds_def slots_covering_def le_Suc_eq numeral_2_eq_2 simp del: upt_Suc)
  have "0 \<le> cum ! n" using grid by (metis less_imp_le not_less_iff_gr_or_eq order_refl sorted_wrt_nth_less lessI gr0I)
  then have "cum ! n \<le> num_seconds (sl_earliest_start l - now)"
    using late by (simp add: num_seconds_def seconds_def time_simps zdiv_mono1 pos_imp_zdiv_nonneg_iff le_div_geq)
  then have "n < partition_point (\<lambda>st. st \<le> ws) cum"
    using partition_point_strict [OF grid(1), of n ws] grid(2) by (simp add: ws_def)
  then have "slot_at cum n ws = n - 1" by (simp add: slot_at_def)
  then have "valid_starts l cum n now ds = []"
    using ds grid(4) by (auto simp: valid_starts_def Let_def ws_def [symmetric] filter_empty_conv)
  then show "sm_valid_start_slots (shiftable_milp l s cum n now) = []"
    using l by (simp add: shiftable_milp_def Let_def ds_def)
qed

text \<open>
  The length of a run in slots is counted from the start of the horizon, where slots are shortest: a ten-minute wash
  that the plan starts among the quarter hours is planned to draw its power for half an hour.
\<close>

definition ten_minute_wash :: shiftable_load where
  "ten_minute_wash = sample_washer\<lparr>sl_duration_min := 10, sl_earliest_start := seconds 600\<rparr>"

theorem planned_run_too_long:
  "let ctx = shiftable_milp ten_minute_wash shiftable_initial [0, 300, 600, 1500, 2400] 4 0 in
   sm_valid_start_slots ctx = [2] \<and> sm_duration_slots ctx = 2 \<and>
   slot_hours (drop 2 [0, 300, 600, 1500, 2400]) = [1 / 4, 1 / 4]"
proof -
  have "slots_covering [0, 300, 600, 1500, 2400] 4 600 = 2"
    by (simp add: slots_covering_def upt_rec)
  moreover have "valid_starts ten_minute_wash [0, 300, 600, 1500, 2400] 4 0 2 = [2]"
    by (simp add: valid_starts_def ten_minute_wash_def sample_washer_def slot_at_def partition_point_def upt_rec)
  ultimately show ?thesis
    by (simp add: shiftable_milp_def shiftable_initial_def slot_hours_def dt_h_from_s_def)
      (simp add: ten_minute_wash_def sample_washer_def)
qed

end
