(* ===== verification/Heater_Milp.thy ===== *)
theory Heater_Milp
  imports Milp_Model User_Requests
begin

text \<open>
  \<open>VEN/src/assets/heater_milp.rs\<close>, \<open>heater_pins.rs\<close> and \<open>heater_declared.rs\<close>: the heater as the planner sees it,
  a stage per slot and the tank energy at the start of each, with the stages fixed before the solve. The planner
  has at least one slot. A state that is not a heater's is \<open>None\<close>; how a warning writes its figure is an argument.
\<close>

datatype heater_milp_mode = HeaterMustRun | HeaterMayRun | HeaterMustNotRun

record heater_milp_context =
  hc_asset_id :: string
  hc_friction :: friction_costs
  hc_temp_min_c :: f64
  hc_thermal_mass_kwh_per_c :: f64
  hc_target_ready_by :: "instant option"
  hc_mode :: heater_milp_mode
  hc_t_dead_step :: "nat option"
  hc_p_step_kw :: f64
  hc_n_stages :: nat
  hc_e_init_kwh :: f64
  hc_e_max_kwh :: f64
  hc_q_dem_kw :: f64
  hc_e_target_kwh :: f64
  hc_lambda_sw_eur :: f64
  hc_initial_y :: f64
  hc_c_terminal_eur_kwh :: f64
  hc_anchored_kw :: "f64 option list"
  hc_comfort_full_reward_eur_kwh :: f64
  hc_comfort_full_co2_reward_eur_kwh :: f64

record heater_milp_vars =
  hv_y_heat :: "lp_var list"
  hv_z_heat_ready :: lp_var
  hv_e_tank :: "lp_var list"
  hv_s_low :: "lp_var list"
  hv_sw :: "lp_var list"
  hv_s_short_kwh :: lp_var
  hv_p_step_kw :: f64

definition m_low_eur_per_kwh :: f64 where "m_low_eur_per_kwh = 10"
definition heater_shortfall_penalty_eur_kwh :: f64 where "heater_shortfall_penalty_eur_kwh = 100"

section \<open>Stages fixed before the solve\<close>

text \<open>\<open>f64::round\<close>: halves away from zero.\<close>

definition f64_round :: "f64 \<Rightarrow> f64" where
  "f64_round x = (if x < 0 then - of_int \<lfloor>- x + 1 / 2\<rfloor> else of_int \<lfloor>x + 1 / 2\<rfloor>)"

definition kw_to_stage :: "f64 \<Rightarrow> f64 \<Rightarrow> f64 \<Rightarrow> f64 option" where
  "kw_to_stage kw step n_stages =
     (if step \<le> 0 then (if \<bar>kw\<bar> < 1 / 10 then Some 0 else None)
      else (let k = f64_round (kw / step) in
            if \<not> (0 \<le> k \<and> k \<le> n_stages) then None
            else if \<bar>kw - k * step\<bar> < 1 / 10 then Some k else None))"

definition initial_stage :: "heater \<Rightarrow> heater_state option \<Rightarrow> f64" where
  "initial_stage h state =
     (let actual_kw = (case state of None \<Rightarrow> 0 | Some s \<Rightarrow> hs_actual_power_kw s);
          step = p_step_kw h; n_stages = of_nat (ht_power_stages h)
      in case kw_to_stage actual_kw step n_stages of
           Some k \<Rightarrow> k
         | None \<Rightarrow> if 0 < step then clamp_range 0 n_stages (f64_round (actual_kw / step)) else 0)"

text \<open>Replay the anchor slot by slot; from the first slot the tank cannot hold on, nothing is fixed.\<close>

fun replay_anchor :: "f64 \<Rightarrow> f64 \<Rightarrow> f64 \<Rightarrow> f64 \<Rightarrow> f64 list \<Rightarrow> f64 option list \<Rightarrow> f64 option list" where
  "replay_anchor floor_kwh ceiling_kwh q_dem e dts [] = []"
| "replay_anchor floor_kwh ceiling_kwh q_dem e dts (None # anchored) = None # anchored"
| "replay_anchor floor_kwh ceiling_kwh q_dem e dts (Some kw # anchored) =
     (let e' = e + energy_kwh (kw - q_dem) (case dts of [] \<Rightarrow> 0 | dt # _ \<Rightarrow> dt) in
      if ceiling_kwh + 1 / 10 ^ 9 < e' \<or> e' < floor_kwh - 1 / 10 ^ 9
      then map (\<lambda>_. None) (Some kw # anchored)
      else Some kw # replay_anchor floor_kwh ceiling_kwh q_dem e' (tl dts) anchored)"

definition anchor_the_tank_can_hold ::
  "f64 option list \<Rightarrow> f64 \<Rightarrow> f64 \<times> f64 \<Rightarrow> f64 \<Rightarrow> int list \<Rightarrow> f64 option list" where
  "anchor_the_tank_can_hold anchored e_init = (\<lambda>(floor_kwh, ceiling_kwh) q_dem cum.
     replay_anchor floor_kwh ceiling_kwh q_dem e_init (slot_hours cum) anchored)"

definition lay_forced :: "f64 list \<Rightarrow> f64 option list \<Rightarrow> f64 option list" where
  "lay_forced forced kw = map Some forced @ drop (length forced) kw"

definition lay_forced_over_anchor ::
  "f64 option list \<Rightarrow> f64 list \<Rightarrow> f64 \<times> f64 \<Rightarrow> f64 \<times> f64 \<Rightarrow> int list \<Rightarrow> f64 option list" where
  "lay_forced_over_anchor anchored forced = (\<lambda>(e_init, q_dem) bounds cum.
     lay_forced forced (anchor_the_tank_can_hold (lay_forced forced anchored) e_init bounds q_dem cum))"

definition fixed_stage_kw ::
  "heater \<Rightarrow> heater_state option \<Rightarrow> f64 option list \<Rightarrow> f64 \<times> f64 \<Rightarrow> f64 \<times> f64 \<Rightarrow> int list \<Rightarrow> f64 option list" where
  "fixed_stage_kw h state anchored tank bounds cum =
     lay_forced_over_anchor anchored
       (case state of None \<Rightarrow> [] | Some s \<Rightarrow> forced_kw_ahead h s (snd tank) (slot_hours cum)) tank bounds cum"

section \<open>The context of a cycle\<close>

definition full_reward :: "(comfort_rate \<Rightarrow> comfort_rate list \<Rightarrow> f64 \<Rightarrow> f64) \<Rightarrow> comfort_rate list \<Rightarrow> f64" where
  "full_reward value rates = (case rates of [] \<Rightarrow> 0 | r # rs \<Rightarrow> value r rs 1)"

definition heater_from_state ::
  "string \<Rightarrow> heater_state option \<Rightarrow> heater \<Rightarrow> nat \<Rightarrow> int list \<Rightarrow> instant \<Rightarrow> heater_target option \<Rightarrow> f64 \<Rightarrow> f64 \<Rightarrow>
   f64 option list \<Rightarrow> f64 \<Rightarrow> heater_milp_context" where
  "heater_from_state asset_id state h n cum now target lambda_sw c_terminal anchored w_ghg =
     (let temp = (case state of None \<Rightarrow> (ht_temp_min_c h + ht_temp_max_c h) / 2 | Some s \<Rightarrow> hs_temperature_c s);
          above = (\<lambda>t. heater_energy_above_min_kwh t (ht_temp_min_c h) (ht_thermal_mass_kwh_per_c h));
          e_init = above temp; e_max = max (above (ht_temp_max_c h)) 0;
          q_dem = forecast_demand_kw h (ht_ambient_temp_c h)
      in \<lparr>hc_asset_id = asset_id, hc_friction = no_friction, hc_temp_min_c = ht_temp_min_c h,
          hc_thermal_mass_kwh_per_c = ht_thermal_mass_kwh_per_c h,
          hc_target_ready_by = map_option ht_ready_by target,
          hc_mode = (case target of None \<Rightarrow> HeaterMayRun | Some _ \<Rightarrow> HeaterMustRun),
          hc_t_dead_step = map_option (\<lambda>t. slot_at cum n (num_seconds (ht_ready_by t - now))) target,
          hc_p_step_kw = p_step_kw h, hc_n_stages = ht_power_stages h, hc_e_init_kwh = e_init, hc_e_max_kwh = e_max,
          hc_q_dem_kw = q_dem,
          hc_e_target_kwh = (case target of None \<Rightarrow> e_max | Some t \<Rightarrow> clamp_range 0 e_max (above (ht_target_temp_c t))),
          hc_lambda_sw_eur = lambda_sw, hc_initial_y = initial_stage h state, hc_c_terminal_eur_kwh = c_terminal,
          hc_anchored_kw = fixed_stage_kw h state anchored (e_init, q_dem) (- max e_max 1, max e_max e_init) cum,
          hc_comfort_full_reward_eur_kwh = (case target of None \<Rightarrow> 0 | Some t \<Rightarrow> full_reward value_at_fill (ht_comfort_rates t)),
          hc_comfort_full_co2_reward_eur_kwh =
            (case target of None \<Rightarrow> 0 | Some t \<Rightarrow> full_reward co2_value_at_fill (ht_comfort_rates t) / 1000 * w_ghg)\<rparr>)"

section \<open>Declaration\<close>

definition ceiling_kwh :: "heater_milp_context \<Rightarrow> f64" where
  "ceiling_kwh ctx = max (hc_e_max_kwh ctx) (hc_e_init_kwh ctx)"

definition binds_must_run_deadline :: "heater_milp_context \<Rightarrow> bool" where
  "binds_must_run_deadline ctx \<longleftrightarrow> hc_mode ctx = HeaterMustRun \<and> hc_t_dead_step ctx \<noteq> None"

definition anchored_stage :: "heater_milp_context \<Rightarrow> nat \<Rightarrow> f64 option" where
  "anchored_stage ctx t =
     (case nth_opt (hc_anchored_kw ctx) t of
        Some (Some kw) \<Rightarrow> kw_to_stage kw (hc_p_step_kw ctx) (of_nat (hc_n_stages ctx)) | _ \<Rightarrow> None)"

definition stage_domain :: "heater_milp_context \<Rightarrow> heater_sol_output option \<Rightarrow> nat \<Rightarrow> lp_domain" where
  "stage_domain ctx pinned t =
     (case pinned of
        Some w \<Rightarrow> fixed_at (clamp_range 0 (of_nat (hc_n_stages ctx)) (f64_round (hm_or 0 (nth_opt (ho_y_heat w) t))))
      | None \<Rightarrow>
          (case anchored_stage ctx t of
             Some k \<Rightarrow> fixed_at k
           | None \<Rightarrow> if hc_mode ctx = HeaterMustNotRun then fixed_at 0 else integer_between 0 (of_nat (hc_n_stages ctx))))"

definition ready_domain :: "heater_milp_context \<Rightarrow> heater_sol_output option \<Rightarrow> lp_domain" where
  "ready_domain ctx pinned =
     (if hc_mode ctx = HeaterMayRun \<and> hc_t_dead_step ctx \<noteq> None
      then (case pinned of None \<Rightarrow> binary | Some w \<Rightarrow> fixed_at (pinned_binary (Some (ho_z_heat_ready w))))
      else fixed_at 0)"

definition tank_domain :: "heater_milp_context \<Rightarrow> lp_domain" where
  "tank_domain ctx = between (min (- max (hc_e_max_kwh ctx) 1) (hc_e_init_kwh ctx)) (max (ceiling_kwh ctx) 1)"

definition heater_declare_vars ::
  "heater_milp_context \<Rightarrow> nat \<Rightarrow> heater_sol_output option \<Rightarrow> lp_domain list \<Rightarrow> heater_milp_vars \<times> lp_domain list" where
  "heater_declare_vars ctx n pinned vars =
     (let (y_heat, vars) = add_vars (map (stage_domain ctx pinned) [0..<n]) vars;
          (z_heat_ready, vars) = add_var (ready_domain ctx pinned) vars;
          (e_tank, vars) = add_vars (replicate n (tank_domain ctx)) vars;
          (s_low, vars) = add_vars (replicate n (at_least 0)) vars;
          (sw, vars) = add_vars (replicate n (at_least 0)) vars;
          (s_short, vars) = add_var (if binds_must_run_deadline ctx then at_least 0 else fixed_at 0) vars
      in (\<lparr>hv_y_heat = y_heat, hv_z_heat_ready = z_heat_ready, hv_e_tank = e_tank, hv_s_low = s_low, hv_sw = sw,
           hv_s_short_kwh = s_short, hv_p_step_kw = hc_p_step_kw ctx\<rparr>, vars))"

definition heater_own_readback :: "asset_solution \<Rightarrow> heater_sol_output" where
  "heater_own_readback own = (case as_detail own of HeaterDetail sol \<Rightarrow> sol
     | _ \<Rightarrow> \<lparr>ho_y_heat = [], ho_z_heat_ready = 0, ho_e_tank_kwh = [], ho_shortfall_kwh = 0\<rparr>)"

definition heater_declare ::
  "heater_milp_context \<Rightarrow> nat \<Rightarrow> declare_mode \<Rightarrow> lp_domain list \<Rightarrow> heater_milp_vars \<times> lp_domain list" where
  "heater_declare ctx n mode vars =
     heater_declare_vars ctx n (case mode of PlanMode _ \<Rightarrow> None | PinnedMode own \<Rightarrow> Some (heater_own_readback own)) vars"

section \<open>Constraints and objective\<close>

definition heater_net :: "heater_milp_vars \<Rightarrow> nat \<Rightarrow> lp_expr" where
  "heater_net v t = (\<lambda>\<sigma>. hv_p_step_kw v * \<sigma> (hv_y_heat v ! t))"

definition tank_step :: "heater_milp_context \<Rightarrow> heater_milp_vars \<Rightarrow> nat \<times> f64 \<Rightarrow> lp_expr" where
  "tank_step ctx v = (\<lambda>(t, dt) \<sigma>. \<sigma> (hv_e_tank v ! (t + 1)) - \<sigma> (hv_e_tank v ! t) - hc_p_step_kw ctx * dt * \<sigma> (hv_y_heat v ! t))"

definition tank_rows :: "heater_milp_context \<Rightarrow> heater_milp_vars \<Rightarrow> nat \<times> f64 \<Rightarrow> lp_row list" where
  "tank_rows ctx v slot =
     [\<lambda>\<sigma>. - hc_q_dem_kw ctx * snd slot \<le> tank_step ctx v slot \<sigma>, \<lambda>\<sigma>. tank_step ctx v slot \<sigma> \<le> - hc_q_dem_kw ctx * snd slot]"

definition switch_rows :: "heater_milp_context \<Rightarrow> heater_milp_vars \<Rightarrow> nat \<Rightarrow> lp_row list" where
  "switch_rows ctx v t =
     (let before = (\<lambda>\<sigma>. if t = 0 then hc_initial_y ctx else \<sigma> (hv_y_heat v ! (t - 1))) in
      [\<lambda>\<sigma>. \<sigma> (hv_y_heat v ! t) - before \<sigma> \<le> \<sigma> (hv_sw v ! t), \<lambda>\<sigma>. before \<sigma> - \<sigma> (hv_y_heat v ! t) \<le> \<sigma> (hv_sw v ! t)])"

definition deadline_rows :: "heater_milp_context \<Rightarrow> heater_milp_vars \<Rightarrow> nat \<Rightarrow> lp_row list" where
  "deadline_rows ctx v n =
     (case hc_t_dead_step ctx of None \<Rightarrow> [] | Some td \<Rightarrow>
        let td = min td (n - 1) in
        case hc_mode ctx of
          HeaterMustRun \<Rightarrow> [\<lambda>\<sigma>. hc_e_target_kwh ctx \<le> \<sigma> (hv_e_tank v ! td) + \<sigma> (hv_s_short_kwh v)]
        | HeaterMayRun \<Rightarrow> [\<lambda>\<sigma>. hc_e_target_kwh ctx * \<sigma> (hv_z_heat_ready v) \<le> \<sigma> (hv_e_tank v ! td)]
        | HeaterMustNotRun \<Rightarrow> [])"

definition heater_constraints :: "heater_milp_context \<Rightarrow> heater_milp_vars \<Rightarrow> nat \<Rightarrow> f64 list \<Rightarrow> lp_row list" where
  "heater_constraints ctx v n dt_h =
     (if hc_mode ctx = HeaterMustNotRun then [] else
      [\<lambda>\<sigma>. hc_e_init_kwh ctx \<le> \<sigma> (hv_e_tank v ! 0), \<lambda>\<sigma>. \<sigma> (hv_e_tank v ! 0) \<le> hc_e_init_kwh ctx] @
      concat (map (tank_rows ctx v) (slots (n - 1) dt_h)) @
      map (\<lambda>t \<sigma>. \<sigma> (hv_e_tank v ! t) \<le> ceiling_kwh ctx) [0..<n] @
      map (\<lambda>t \<sigma>. 0 \<le> \<sigma> (hv_e_tank v ! t) + \<sigma> (hv_s_low v ! t)) [0..<n] @
      concat (map (switch_rows ctx v) (0 # [1..<n])) @
      deadline_rows ctx v n)"

definition heater_slot_term ::
  "heater_milp_context \<Rightarrow> heater_milp_vars \<Rightarrow> f64 \<Rightarrow> f64 \<Rightarrow> f64 \<Rightarrow> f64 \<Rightarrow> f64 \<Rightarrow> nat \<times> f64 \<Rightarrow> lp_expr" where
  "heater_slot_term ctx v w_tier m_low lambda_sw full full_co2 = (\<lambda>(t, dt) \<sigma>.
     let stage_frac = 1 / of_nat (hc_n_stages ctx); y = \<sigma> (hv_y_heat v ! t) in
     w_tier * stage_frac * y + m_low * \<sigma> (hv_s_low v ! t) + lambda_sw * dt * \<sigma> (hv_sw v ! t) -
     full * dt * stage_frac * y - full_co2 * dt * stage_frac * y)"

definition heater_terms ::
  "heater_milp_context \<Rightarrow> heater_milp_vars \<Rightarrow> f64 \<Rightarrow> f64 \<Rightarrow> f64 \<Rightarrow> f64 \<Rightarrow> f64 \<Rightarrow> nat \<Rightarrow> f64 list \<Rightarrow> lp_expr" where
  "heater_terms ctx v w_tier m_low lambda_sw full full_co2 n dt_h = (\<lambda>\<sigma>.
     if hc_mode ctx = HeaterMustNotRun then 0 else
     sum_expr (map (heater_slot_term ctx v w_tier m_low lambda_sw full full_co2) (slots n dt_h)) \<sigma> +
     (if 0 < m_low \<and> 0 < hc_c_terminal_eur_kwh ctx \<and> 0 < n then - hc_c_terminal_eur_kwh ctx * \<sigma> (hv_e_tank v ! (n - 1)) else 0) +
     (if 0 < m_low then heater_shortfall_penalty_eur_kwh * \<sigma> (hv_s_short_kwh v) else 0))"

definition heater_objective ::
  "heater_milp_context \<Rightarrow> heater_milp_vars \<Rightarrow> objective_part \<Rightarrow> nat \<Rightarrow> f64 list \<Rightarrow> lp_expr" where
  "heater_objective ctx v part n dt_h =
     (case part of
        CostPart _ \<Rightarrow> heater_terms ctx v 0 m_low_eur_per_kwh 0 0 0 n dt_h
      | FrictionPart \<Rightarrow> heater_terms ctx v (fc_tier_penalty_eur (hc_friction ctx)) 0 (hc_lambda_sw_eur ctx)
          (hc_comfort_full_reward_eur_kwh ctx) (hc_comfort_full_co2_reward_eur_kwh ctx) n dt_h)"

section \<open>Readback and warm start\<close>

definition heater_read_solution :: "assignment \<Rightarrow> heater_milp_vars \<Rightarrow> nat \<Rightarrow> heater_sol_output" where
  "heater_read_solution \<sigma> v n =
     \<lparr>ho_y_heat = map (\<lambda>t. \<sigma> (hv_y_heat v ! t)) [0..<n], ho_z_heat_ready = \<sigma> (hv_z_heat_ready v),
      ho_e_tank_kwh = map (\<lambda>t. \<sigma> (hv_e_tank v ! t)) [0..<n], ho_shortfall_kwh = \<sigma> (hv_s_short_kwh v)\<rparr>"

definition target_unmet :: "(nat \<Rightarrow> f64 \<Rightarrow> string) \<Rightarrow> heater_sol_output \<Rightarrow> plan_warning option" where
  "target_unmet fixed sol =
     (if shortfall_tolerance_kwh < ho_shortfall_kwh sol
      then Some \<lparr>pw_severity = PlainWarning, pw_kind = HeaterTargetUnmet,
        pw_message = ''Heater target not reachable by its ready-by time: '' @ fixed 2 (ho_shortfall_kwh sol) @ '' kWh short'',
        pw_suggested_action = Some ''allow more time or lower the target temperature''\<rparr>
      else None)"

definition heater_states :: "heater_milp_context \<Rightarrow> f64 list \<Rightarrow> f64 hmap list" where
  "heater_states ctx = map (\<lambda>e. heater_future_state e (hc_temp_min_c ctx) (hc_thermal_mass_kwh_per_c ctx))"

definition heater_read ::
  "(nat \<Rightarrow> f64 \<Rightarrow> string) \<Rightarrow> heater_milp_context \<Rightarrow> heater_milp_vars \<Rightarrow> assignment \<Rightarrow> nat \<Rightarrow> asset_solution" where
  "heater_read fixed ctx v \<sigma> n =
     (let sol = heater_read_solution \<sigma> v n in
      \<lparr>as_asset_id = hc_asset_id ctx, as_net_power_kw = map (\<lambda>y. y * hc_p_step_kw ctx) (ho_y_heat sol),
       as_planned_state = heater_states ctx (take n (ho_e_tank_kwh sol)), as_storage = None,
       as_warnings = (case target_unmet fixed sol of None \<Rightarrow> [] | Some w \<Rightarrow> [w]), as_detail = HeaterDetail sol\<rparr>)"

definition heater_solution_from_trace :: "heater_milp_context \<Rightarrow> f64 list \<Rightarrow> f64 hmap list \<Rightarrow> asset_solution" where
  "heater_solution_from_trace ctx net_kw states =
     (let init_temp = heater_temp_c_from_energy (hc_e_init_kwh ctx) (hc_temp_min_c ctx) (hc_thermal_mass_kwh_per_c ctx);
          e_tank = map (\<lambda>temp. heater_energy_above_min_kwh temp (hc_temp_min_c ctx) (hc_thermal_mass_kwh_per_c ctx))
            (take (length net_kw) (trace_values states ''temp_c'' init_temp))
      in \<lparr>as_asset_id = hc_asset_id ctx, as_net_power_kw = net_kw, as_planned_state = heater_states ctx e_tank,
          as_storage = None, as_warnings = [],
          as_detail = HeaterDetail \<lparr>ho_y_heat = map (\<lambda>kw. if 0 < hc_p_step_kw ctx then kw / hc_p_step_kw ctx else 0) net_kw,
            ho_z_heat_ready = 0, ho_e_tank_kwh = e_tank, ho_shortfall_kwh = 0\<rparr>\<rparr>)"

definition heater_warm_slot :: "heater_milp_context \<Rightarrow> heater_milp_vars \<Rightarrow> heater_sol_output \<Rightarrow> nat \<Rightarrow> (lp_var \<times> f64) list" where
  "heater_warm_slot ctx v p1 t =
     (let y = ho_y_heat p1 ! t; e = hm_or 0 (nth_opt (ho_e_tank_kwh p1) t);
          y_prev = (if t = 0 then hc_initial_y ctx else ho_y_heat p1 ! (t - 1))
      in [(hv_y_heat v ! t, y), (hv_e_tank v ! t, e), (hv_s_low v ! t, max (- e) 0), (hv_sw v ! t, \<bar>y - y_prev\<bar>)])"

definition heater_warm_start :: "heater_milp_context \<Rightarrow> heater_milp_vars \<Rightarrow> asset_solution \<Rightarrow> nat \<Rightarrow> (lp_var \<times> f64) list" where
  "heater_warm_start ctx v own n =
     (let p1 = heater_own_readback own in
      concat (map (heater_warm_slot ctx v p1) [0..<n]) @
      [(hv_z_heat_ready v, ho_z_heat_ready p1), (hv_s_short_kwh v, ho_shortfall_kwh p1)])"

definition heater_flexibility_window :: "heater_milp_context \<Rightarrow> instant \<Rightarrow> flexibility_window option" where
  "heater_flexibility_window ctx now =
     (case hc_target_ready_by ctx of None \<Rightarrow> None | Some window_end \<Rightarrow>
        if 0 < hc_e_target_kwh ctx
        then Some \<lparr>fw_energy_needed_kwh = hc_e_target_kwh ctx, fw_power_min_kw = 0,
          fw_power_max_kw = of_nat (hc_n_stages ctx) * hc_p_step_kw ctx, fw_window_start = now, fw_window_end = window_end\<rparr>
        else None)"

section \<open>What a declaration promises\<close>

lemma heater_declare_eq:
  "heater_declare_vars ctx n pinned vars =
    (let b = length vars in
     (\<lparr>hv_y_heat = [b..<b + n], hv_z_heat_ready = b + n, hv_e_tank = [b + n + 1..<b + 2 * n + 1],
       hv_s_low = [b + 2 * n + 1..<b + 3 * n + 1], hv_sw = [b + 3 * n + 1..<b + 4 * n + 1], hv_s_short_kwh = b + 4 * n + 1,
       hv_p_step_kw = hc_p_step_kw ctx\<rparr>,
      vars @ map (stage_domain ctx pinned) [0..<n] @ [ready_domain ctx pinned] @ replicate n (tank_domain ctx) @
        replicate n (at_least 0) @ replicate n (at_least 0) @ [if binds_must_run_deadline ctx then at_least 0 else fixed_at 0]))"
  by (simp add: heater_declare_vars_def add_vars_eq Let_def numeral_eq_Suc add.assoc del: upt_Suc)

lemma heater_block_bounds:
  assumes "heater_declare_vars ctx n pinned vars = (v, vars')"
  shows "block_bounds (length vars) (drop (length vars) vars') \<sigma> \<longleftrightarrow>
    (\<forall>t < n. in_domain (stage_domain ctx pinned t) (\<sigma> (hv_y_heat v ! t))) \<and>
    in_domain (ready_domain ctx pinned) (\<sigma> (hv_z_heat_ready v)) \<and>
    (\<forall>t < n. in_domain (tank_domain ctx) (\<sigma> (hv_e_tank v ! t))) \<and>
    (\<forall>t < n. in_domain (at_least 0) (\<sigma> (hv_s_low v ! t))) \<and> (\<forall>t < n. in_domain (at_least 0) (\<sigma> (hv_sw v ! t))) \<and>
    in_domain (if binds_must_run_deadline ctx then at_least 0 else fixed_at 0) (\<sigma> (hv_s_short_kwh v))"
proof -
  define b where "b = length vars"
  have v: "v = \<lparr>hv_y_heat = [b..<b + n], hv_z_heat_ready = b + n, hv_e_tank = [b + n + 1..<b + 2 * n + 1],
       hv_s_low = [b + 2 * n + 1..<b + 3 * n + 1], hv_sw = [b + 3 * n + 1..<b + 4 * n + 1], hv_s_short_kwh = b + 4 * n + 1,
       hv_p_step_kw = hc_p_step_kw ctx\<rparr>"
      and vars': "vars' = vars @ map (stage_domain ctx pinned) [0..<n] @ [ready_domain ctx pinned] @ replicate n (tank_domain ctx) @
        replicate n (at_least 0) @ replicate n (at_least 0) @ [if binds_must_run_deadline ctx then at_least 0 else fixed_at 0]"
    using assms unfolding heater_declare_eq Let_def b_def by (metis prod.inject)+
  have drop: "drop b (vars @ ds) = ds" for ds by (simp add: b_def)
  have k: "Suc (b + n) = b + n + 1" "b + n + 1 + n = b + 2 * n + 1" "b + 2 * n + 1 + n = b + 3 * n + 1"
      "b + 3 * n + 1 + n = b + 4 * n + 1" by simp_all
  show ?thesis
    unfolding b_def [symmetric] vars' drop block_bounds_append append_Cons append_Nil block_bounds_Cons block_bounds_simps
      block_bounds_map length_replicate length_map length_upt minus_nat.diff_0 k v
    by (simp add: nth_upt del: upt_Suc in_domain_simps in_binary)
qed

definition heater_solves ::
  "heater_milp_context \<Rightarrow> nat \<Rightarrow> heater_sol_output option \<Rightarrow> f64 list \<Rightarrow> heater_milp_vars \<Rightarrow> assignment \<Rightarrow> bool" where
  "heater_solves ctx n pinned dt_h v \<sigma> \<longleftrightarrow> (\<exists>vars vars' rest.
     heater_declare_vars ctx n pinned vars = (v, vars') \<and> in_bounds (vars' @ rest) \<sigma>) \<and>
     satisfies (heater_constraints ctx v n dt_h) \<sigma>"

lemma heater_solvesI:
  "heater_declare_vars ctx n pinned vars = (v, vars') \<Longrightarrow> in_bounds (vars' @ rest) \<sigma> \<Longrightarrow>
    satisfies (heater_constraints ctx v n dt_h) \<sigma> \<Longrightarrow> heater_solves ctx n pinned dt_h v \<sigma>"
  unfolding heater_solves_def by blast

lemma heater_solved_bounds:
  assumes "heater_solves ctx n pinned dt_h v \<sigma>"
  shows "hv_p_step_kw v = hc_p_step_kw ctx"
    and "t < n \<Longrightarrow> in_domain (stage_domain ctx pinned t) (\<sigma> (hv_y_heat v ! t))"
    and "t < n \<Longrightarrow> in_domain (tank_domain ctx) (\<sigma> (hv_e_tank v ! t))"
    and "0 \<le> \<sigma> (hv_s_short_kwh v)"
proof -
  obtain vars vars' rest where d: "heater_declare_vars ctx n pinned vars = (v, vars')" and i: "in_bounds (vars' @ rest) \<sigma>"
    using assms by (auto simp: heater_solves_def)
  have "\<exists>ds. vars' = vars @ ds" using d by (auto simp: heater_declare_eq Let_def)
  with i have "block_bounds (length vars) (drop (length vars) vars') \<sigma>" by (auto simp: in_bounds_append)
  note bounds = this [unfolded heater_block_bounds [OF d]]
  show "hv_p_step_kw v = hc_p_step_kw ctx" using d by (auto simp: heater_declare_eq Let_def)
  show "t < n \<Longrightarrow> in_domain (stage_domain ctx pinned t) (\<sigma> (hv_y_heat v ! t))"
    and "t < n \<Longrightarrow> in_domain (tank_domain ctx) (\<sigma> (hv_e_tank v ! t))" using bounds by blast+
  show "0 \<le> \<sigma> (hv_s_short_kwh v)" using bounds by (auto split: if_splits)
qed

section \<open>Reachable stages\<close>

lemma whole_stage:
  assumes "0 \<le> y" "y \<le> of_nat n" "y = of_int \<lfloor>y\<rfloor>"
  shows "\<exists>k \<le> n. y = of_nat k"
proof -
  have "0 \<le> \<lfloor>y\<rfloor>" "\<lfloor>y\<rfloor> \<le> int n" using assms(1,2) by (simp_all add: floor_le_iff)
  then show ?thesis using assms(3) by (intro exI [of _ "nat \<lfloor>y\<rfloor>"]) (simp add: nat_le_iff)
qed

lemma f64_round_whole: "f64_round x = of_int \<lfloor>f64_round x\<rfloor>"
  by (simp add: f64_round_def floor_minus)

lemma f64_round_of_nat: "f64_round (of_nat k) = of_nat k"
proof -
  have "\<lfloor>of_nat k + 1 / 2 :: real\<rfloor> = int k" by (rule floor_unique) simp_all
  then show ?thesis by (simp add: f64_round_def)
qed

lemma kw_to_stage_whole: "kw_to_stage kw step (of_nat n) = Some k \<Longrightarrow> \<exists>j \<le> n. k = of_nat j"
  using whole_stage [OF _ _ f64_round_whole, of "kw / step" n] by (auto simp: kw_to_stage_def Let_def split: if_splits)

lemma stage_domain_whole: "in_domain (stage_domain ctx pinned t) y \<Longrightarrow> \<exists>k \<le> hc_n_stages ctx. y = of_nat k"
proof (cases pinned)
  case (Some w)
  assume "in_domain (stage_domain ctx pinned t) y"
  then have y: "y = clamp_range 0 (of_nat (hc_n_stages ctx)) (f64_round (hm_or 0 (nth_opt (ho_y_heat w) t)))"
    by (simp add: stage_domain_def Some)
  moreover have "clamp_range 0 (of_nat n) (f64_round x) = of_int \<lfloor>clamp_range 0 (of_nat n) (f64_round x)\<rfloor>" for n :: nat and x
    using f64_round_whole [of x] by (auto simp: clamp_range_def min_def max_def)
  ultimately show ?thesis by (intro whole_stage) (auto simp: clamp_range_def)
next
  case None
  assume "in_domain (stage_domain ctx pinned t) y"
  then show ?thesis
    using whole_stage [of y "hc_n_stages ctx"] kw_to_stage_whole
    by (auto simp: stage_domain_def None anchored_stage_def split: option.splits if_splits)
qed

lemma stage_in_steps: "k \<le> ht_power_stages h \<Longrightarrow> of_nat k * p_step_kw h \<in> set (heater_power_steps h)"
  unfolding heater_power_steps_def set_map set_upt by (rule imageI) simp

section \<open>The tank's book\<close>

lemma tank_book:
  assumes sol: "heater_solves ctx n pinned dt_h v \<sigma>" and mode: "hc_mode ctx \<noteq> HeaterMustNotRun" and dt: "length dt_h = n"
  shows "t < n \<Longrightarrow> \<sigma> (hv_e_tank v ! t) = hc_e_init_kwh ctx +
    (\<Sum>i < t. energy_kwh (\<sigma> (hv_y_heat v ! i) * hc_p_step_kw ctx - hc_q_dem_kw ctx) (dt_h ! i))"
proof (induction t)
  case 0
  have "satisfies (heater_constraints ctx v n dt_h) \<sigma>" using sol by (simp add: heater_solves_def)
  then show ?case using mode by (simp add: heater_constraints_def)
next
  case (Suc t)
  have "satisfies (heater_constraints ctx v n dt_h) \<sigma>" using sol by (simp add: heater_solves_def)
  then have "satisfies (tank_rows ctx v (t, dt_h ! t)) \<sigma>" using mode dt Suc.prems by (auto simp: heater_constraints_def all_slots)
  then have "\<sigma> (hv_e_tank v ! Suc t) = \<sigma> (hv_e_tank v ! t) + energy_kwh (\<sigma> (hv_y_heat v ! t) * hc_p_step_kw ctx - hc_q_dem_kw ctx) (dt_h ! t)"
    by (simp add: tank_rows_def tank_step_def energy_kwh_def algebra_simps)
  with Suc show ?case by simp
qed

lemma tank_ceiling:
  assumes "heater_solves ctx n pinned dt_h v \<sigma>" "hc_mode ctx \<noteq> HeaterMustNotRun" "t < n"
  shows "\<sigma> (hv_e_tank v ! t) \<le> ceiling_kwh ctx"
  using assms by (simp add: heater_solves_def heater_constraints_def)

lemma forced_ahead_rated: "kw \<in> set (forced_kw_ahead h s q dts) \<Longrightarrow> kw = 0 \<or> kw = ht_max_kw h"
proof (induction dts arbitrary: s)
  case (Cons dt dts)
  obtain x where x: "thermostat_forced_kw_in h s (ht_emergency_mode h) = Some x"
    using Cons.prems by (cases "thermostat_forced_kw_in h s (ht_emergency_mode h)") simp_all
  obtain em ceil where l: "latches_after h s (hs_temperature_c s + energy_kwh (x - q) dt / ht_thermal_mass_kwh_per_c h) (ht_emergency_mode h) = (em, ceil)"
    by (metis prod.exhaust)
  show ?case using Cons.IH Cons.prems forced_kw_cases [OF x] by (auto simp: x l Let_def)
qed simp

lemma forced_stage:
  assumes "1 \<le> ht_power_stages h" "0 \<le> ht_max_kw h" "kw = 0 \<or> kw = ht_max_kw h"
  shows "\<exists>k. kw_to_stage kw (p_step_kw h) (of_nat (ht_power_stages h)) = Some k \<and> k * p_step_kw h = kw"
proof (cases "0 < p_step_kw h")
  case True
  have max: "of_nat (ht_power_stages h) * p_step_kw h = ht_max_kw h" using assms(1) by (simp add: p_step_kw_def max_def)
  have "kw_to_stage (of_nat k * p_step_kw h) (p_step_kw h) (of_nat (ht_power_stages h)) = Some (of_nat k)"
    if "k \<le> ht_power_stages h" for k
    using True that by (simp add: kw_to_stage_def f64_round_of_nat Let_def)
  from this [of 0] this [of "ht_power_stages h"] show ?thesis using assms(3) max by auto
next
  case False
  then have "ht_max_kw h = 0" using assms(1,2) by (simp add: p_step_kw_def divide_le_0_iff not_less max_def split: if_splits)
  with False assms(3) show ?thesis by (intro exI [of _ 0]) (auto simp: kw_to_stage_def p_step_kw_def)
qed

lemma lay_forced_nth: "t < length forced \<Longrightarrow> nth_opt (lay_forced forced kw) t = Some (Some (forced ! t))"
  by (simp add: lay_forced_def nth_append)

text \<open>The energies of a cycle's context, for a heater's own state.\<close>

lemma heater_from_state_simps [simp]:
  "hc_p_step_kw (heater_from_state i st h n cum now tg l c a w) = p_step_kw h"
    "hc_n_stages (heater_from_state i st h n cum now tg l c a w) = ht_power_stages h"
    "hc_mode (heater_from_state i st h n cum now tg l c a w) \<noteq> HeaterMustNotRun"
    "hc_temp_min_c (heater_from_state i st h n cum now tg l c a w) = ht_temp_min_c h"
    "hc_thermal_mass_kwh_per_c (heater_from_state i st h n cum now tg l c a w) = ht_thermal_mass_kwh_per_c h"
    "hc_q_dem_kw (heater_from_state i st h n cum now tg l c a w) = forecast_demand_kw h (ht_ambient_temp_c h)"
    "hc_e_init_kwh (heater_from_state i (Some s) h n cum now tg l c a w) = (hs_temperature_c s - ht_temp_min_c h) * ht_thermal_mass_kwh_per_c h"
    "hc_e_max_kwh (heater_from_state i st h n cum now tg l c a w) = max ((ht_temp_max_c h - ht_temp_min_c h) * ht_thermal_mass_kwh_per_c h) 0"
  by (simp_all add: heater_from_state_def Let_def heater_energy_above_min_kwh_def split: option.split)

lemma planned_stage_forced:
  assumes h: "1 \<le> ht_power_stages h" "0 \<le> ht_max_kw h"
    and ctx_def: "ctx = heater_from_state i (Some s) h n cum now tg l c anchored w"
    and forced_def: "forced = forced_kw_ahead h s (forecast_demand_kw h (ht_ambient_temp_c h)) (slot_hours cum)"
    and sol: "heater_solves ctx n None dt_h v \<sigma>" and t: "t < n" "t < length forced"
  shows "\<sigma> (hv_y_heat v ! t) * p_step_kw h = forced ! t"
proof -
  have "nth_opt (hc_anchored_kw ctx) t = Some (Some (forced ! t))"
    using t(2) by (simp add: ctx_def heater_from_state_def Let_def fixed_stage_kw_def lay_forced_over_anchor_def lay_forced_nth forced_def)
  moreover obtain k where "kw_to_stage (forced ! t) (p_step_kw h) (of_nat (ht_power_stages h)) = Some k" "k * p_step_kw h = forced ! t"
    using forced_stage [OF h forced_ahead_rated] nth_mem [OF t(2)] unfolding forced_def by blast
  ultimately have "stage_domain ctx None t = fixed_at k" "k * p_step_kw h = forced ! t"
    by (simp_all add: stage_domain_def anchored_stage_def) (simp_all add: ctx_def)
  with heater_solved_bounds(2) [OF sol t(1)] show ?thesis by simp
qed

section \<open>What a heater's plan promises\<close>

definition planned_temp_c :: "asset_solution \<Rightarrow> nat \<Rightarrow> f64 option" where
  "planned_temp_c plan t = hm_get (as_planned_state plan ! t) ''temp_c''"

lemma heater_read_net:
  "t < n \<Longrightarrow> as_net_power_kw (heater_read fixed ctx v \<sigma> n) ! t = \<sigma> (hv_y_heat v ! t) * hc_p_step_kw ctx"
  by (simp add: heater_read_def heater_read_solution_def Let_def)

lemma heater_read_temp:
  "t < n \<Longrightarrow> planned_temp_c (heater_read fixed ctx v \<sigma> n) t =
    Some (hc_temp_min_c ctx + \<sigma> (hv_e_tank v ! t) / hc_thermal_mass_kwh_per_c ctx)"
  by (simp add: planned_temp_c_def heater_read_def heater_read_solution_def heater_states_def heater_future_state_def
      heater_temp_c_from_energy_def Let_def)

section \<open>A cold tank with a target\<close>

text \<open>A tank at its minimum, two half-hour slots and a target of 41 degrees in half an hour.\<close>

definition sample_target :: heater_target where
  "sample_target = \<lparr>ht_id = 0, ht_asset_id = ''heater'', ht_target_temp_c = 41, ht_ready_by = 1800 * 10 ^ 9, ht_mode = ByDeadline,
     ht_comfort_rates = [], ht_created_at = 0, ht_updated_at = 0\<rparr>"

definition sample_heater_ctx :: heater_milp_context where
  "sample_heater_ctx = heater_from_state ''heater'' (Some cold_tank) sample_heater 2 [0, 1800, 3600] 0 (Some sample_target) 0 0 [None, None] 0"

definition sample_heater_plan :: assignment where
  "sample_heater_plan = (\<lambda>i. [2, 2, 0, 0, 3, 0, 0, 2, 0, 0] ! i)"

lemma sample_heater_ctx_simps:
  "hc_mode sample_heater_ctx = HeaterMustRun" "hc_t_dead_step sample_heater_ctx = Some 1" "hc_p_step_kw sample_heater_ctx = 3"
    "hc_n_stages sample_heater_ctx = 2" "hc_e_init_kwh sample_heater_ctx = 0" "hc_e_max_kwh sample_heater_ctx = 40"
    "hc_q_dem_kw sample_heater_ctx = 0" "hc_e_target_kwh sample_heater_ctx = 2" "hc_initial_y sample_heater_ctx = 0"
    "hc_anchored_kw sample_heater_ctx = [Some 6, Some 6]"
  by (simp_all add: sample_heater_ctx_def heater_from_state_def sample_heater_def cold_tank_def sample_target_def Let_def
      heater_energy_above_min_kwh_def forecast_demand_kw_def p_step_kw_def clamp_range_def slot_at_def partition_point_def
      num_seconds_def time_simps initial_stage_def kw_to_stage_def f64_round_def fixed_stage_kw_def lay_forced_over_anchor_def lay_forced_def
      anchor_the_tank_can_hold_def slot_hours_def dt_h_from_s_def thermostat_forced_kw_in_def emergency_active_in_def
      cut_out_ceiling_c_def latches_after_def energy_kwh_def)

lemma sample_heater_solves:
  "heater_solves sample_heater_ctx 2 None (slot_hours [0, 1800, 3600]) (fst (heater_declare_vars sample_heater_ctx 2 None [])) sample_heater_plan"
proof -
  obtain v vars' where d: "heater_declare_vars sample_heater_ctx 2 None [] = (v, vars')" by (metis prod.exhaust)
  have stage: "stage_domain sample_heater_ctx None t = fixed_at 2" if "t < 2" for t
    using that less_2_cases [of t] by (auto simp: stage_domain_def anchored_stage_def sample_heater_ctx_simps kw_to_stage_def f64_round_def)
  from d have v: "hv_y_heat v = [0, 1]" "hv_e_tank v = [3, 4]" "hv_s_low v = [5, 6]" "hv_sw v = [7, 8]" "hv_s_short_kwh v = 9"
      and vars': "vars' = [fixed_at 2, fixed_at 2, fixed_at 0, tank_domain sample_heater_ctx, tank_domain sample_heater_ctx,
        at_least 0, at_least 0, at_least 0, at_least 0, at_least 0]"
    by (auto simp: heater_declare_eq Let_def numeral_eq_Suc stage ready_domain_def binds_must_run_deadline_def sample_heater_ctx_simps)
  have "in_bounds (vars' @ []) sample_heater_plan"
    by (simp add: vars' in_bounds_def sample_heater_plan_def tank_domain_def ceiling_kwh_def sample_heater_ctx_simps)
  moreover have "satisfies (heater_constraints sample_heater_ctx v 2 (slot_hours [0, 1800, 3600])) sample_heater_plan"
    by (simp add: heater_constraints_def slots_eq slot_hours_def dt_h_from_s_def tank_rows_def tank_step_def switch_rows_def deadline_rows_def
      v sample_heater_plan_def ceiling_kwh_def sample_heater_ctx_simps numeral_eq_Suc)
  ultimately show ?thesis using d heater_solvesI by (metis fst_conv)
qed

text \<open>
  C34. A heater's plan is one the heater can follow: whatever solution the model has, every slot's power is one of the
  heater's stages, the thermostat's own power in the slots it will force, and the planned temperature is the live one
  plus the heat of the slots before, never above the maximum unless the tank already is.
\<close>

theorem planned_heater_follows:
  fixes fixed :: "nat \<Rightarrow> f64 \<Rightarrow> string"
  assumes h: "1 \<le> ht_power_stages h" "0 \<le> ht_max_kw h" "0 < ht_thermal_mass_kwh_per_c h" "ht_temp_min_c h \<le> ht_temp_max_c h"
    and ctx: "ctx = heater_from_state asset_id (Some s) h n cum now target lambda_sw c_terminal anchored w_ghg"
    and sol: "heater_solves ctx n None (slot_hours cum) v \<sigma>" and n: "length (slot_hours cum) = n"
  defines "plan \<equiv> heater_read fixed ctx v \<sigma> n" and "q \<equiv> forecast_demand_kw h (ht_ambient_temp_c h)"
  shows "(\<forall>t < n. as_net_power_kw plan ! t \<in> set (heater_power_steps h) \<and>
      (t < length (forced_kw_ahead h s q (slot_hours cum)) \<longrightarrow> as_net_power_kw plan ! t = forced_kw_ahead h s q (slot_hours cum) ! t)) \<and>
    (\<forall>t < n. let heat = (\<Sum>i < t. energy_kwh (as_net_power_kw plan ! i - q) (slot_hours cum ! i));
                 temp = hs_temperature_c s + heat / ht_thermal_mass_kwh_per_c h
             in planned_temp_c plan t = Some temp \<and> temp \<le> max (ht_temp_max_c h) (hs_temperature_c s))"
proof (intro conjI allI impI)
  fix t assume t: "t < n"
  have net: "as_net_power_kw plan ! i = \<sigma> (hv_y_heat v ! i) * p_step_kw h" if "i < n" for i
    using heater_read_net [OF that] by (simp add: plan_def ctx)
  obtain k where "k \<le> ht_power_stages h" "\<sigma> (hv_y_heat v ! t) = of_nat k"
    using stage_domain_whole [OF heater_solved_bounds(2) [OF sol t]] by (auto simp: ctx)
  then show "as_net_power_kw plan ! t \<in> set (heater_power_steps h)" using stage_in_steps net [OF t] by simp
  show "as_net_power_kw plan ! t = forced_kw_ahead h s q (slot_hours cum) ! t" if "t < length (forced_kw_ahead h s q (slot_hours cum))"
    using planned_stage_forced [OF h(1,2) ctx refl sol t] net [OF t] that by (simp add: q_def)
  have mass: "0 < ht_thermal_mass_kwh_per_c h" by (rule h(3))
  let ?e = "\<sigma> (hv_e_tank v ! t)" and ?heat = "\<Sum>i < t. energy_kwh (as_net_power_kw plan ! i - q) (slot_hours cum ! i)"
  have "?e = (hs_temperature_c s - ht_temp_min_c h) * ht_thermal_mass_kwh_per_c h + ?heat"
    using tank_book [OF sol _ n t] net t by (simp add: ctx q_def)
  then have temp: "ht_temp_min_c h + ?e / ht_thermal_mass_kwh_per_c h = hs_temperature_c s + ?heat / ht_thermal_mass_kwh_per_c h"
    using mass by (simp add: field_simps)
  have "?e \<le> max (ht_temp_max_c h - ht_temp_min_c h) (hs_temperature_c s - ht_temp_min_c h) * ht_thermal_mass_kwh_per_c h"
    using tank_ceiling [OF sol _ t] h(4) mass by (simp add: ctx ceiling_kwh_def max_mult_distrib_right)
  then have "?e / ht_thermal_mass_kwh_per_c h \<le> max (ht_temp_max_c h - ht_temp_min_c h) (hs_temperature_c s - ht_temp_min_c h)"
    using mass by (simp add: pos_divide_le_eq)
  with temp heater_read_temp [OF t, of fixed ctx v \<sigma>]
  show "let heat = ?heat; temp = hs_temperature_c s + heat / ht_thermal_mass_kwh_per_c h
      in planned_temp_c plan t = Some temp \<and> temp \<le> max (ht_temp_max_c h) (hs_temperature_c s)"
    by (simp add: plan_def ctx)
qed

lemma planned_heater_follows_witness:
  "as_net_power_kw (heater_read (\<lambda>_ _. []) sample_heater_ctx (fst (heater_declare_vars sample_heater_ctx 2 None [])) sample_heater_plan 2) ! 1 = 6"
proof -
  let ?dt = "slot_hours [0, 1800, 3600]"
  have dt: "length ?dt = 2" by (simp add: slot_hours_def)
  have forced: "forced_kw_ahead sample_heater cold_tank (forecast_demand_kw sample_heater (ht_ambient_temp_c sample_heater)) ?dt = [6, 6]"
    by (simp add: slot_hours_def dt_h_from_s_def thermostat_forced_kw_in_def emergency_active_in_def cut_out_ceiling_c_def latches_after_def
        energy_kwh_def forecast_demand_kw_def sample_heater_def cold_tank_def)
  have "1 \<le> ht_power_stages sample_heater" "0 \<le> ht_max_kw sample_heater" "0 < ht_thermal_mass_kwh_per_c sample_heater"
      "ht_temp_min_c sample_heater \<le> ht_temp_max_c sample_heater" by (simp_all add: sample_heater_def)
  from planned_heater_follows [OF this sample_heater_ctx_def sample_heater_solves dt, of "\<lambda>_ _. []"]
  have "\<forall>t < 2. t < length [6, 6 :: f64] \<longrightarrow> as_net_power_kw (heater_read (\<lambda>_ _. []) sample_heater_ctx
      (fst (heater_declare_vars sample_heater_ctx 2 None [])) sample_heater_plan 2) ! t = [6, 6] ! t"
    unfolding forced by blast
  from this [rule_format, of 1] show ?thesis by simp
qed



end
