(* ===== verification/Ev_Trips.thy ===== *)
theory Ev_Trips
  imports Milp_Model Ev_Charger Opportunistic_Pass
begin

text \<open>
  \<open>VEN/src/assets/ev_trip_series.rs\<close>, \<open>ev_usage_forecast.rs\<close> and \<open>ev_session_context.rs\<close>: how the charge sessions
  stated for an EV and the trips predicted for it become what the planner knows of the EV, its availability per slot,
  the charge its trips use and the obligations it has to meet.
\<close>

section \<open>A series of expected uses\<close>

record ev_obligation =
  ob_deadline_step :: nat
  ob_target_soc_frac :: f64
  ob_session_id :: "uuid option"

record exogenous_soc_drops =
  xd_drop_frac_per_slot :: "f64 list"
  xd_floor_frac :: f64

record expected_trip_consumption =
  tc_return_at :: instant
  tc_soc_drop_frac :: f64

record expected_vehicle_use =
  vu_window_start :: instant
  vu_departure_at :: instant
  vu_target_soc_frac :: f64
  vu_firm :: bool
  vu_consumption :: "expected_trip_consumption option"
  vu_session_id :: "uuid option"

record ev_plan_inputs =
  pi_available_per_slot :: "bool list"
  pi_drop_frac_per_slot :: "f64 list"
  pi_obligations :: "ev_obligation list"

definition deadline_slot :: "int list \<Rightarrow> nat \<Rightarrow> int \<Rightarrow> nat" where
  "deadline_slot cum n secs = (if secs \<le> 0 then 0 else min (partition_point (\<lambda>s. s < secs) cum - 1) (n - 1))"

definition return_slot :: "int list \<Rightarrow> nat \<Rightarrow> int \<Rightarrow> nat" where
  "return_slot cum n secs = (if secs \<le> 0 then 0 else min (partition_point (\<lambda>s. s < secs) cum) (n - 1))"

definition slot_bounds :: "int list \<Rightarrow> nat \<Rightarrow> instant \<Rightarrow> instant \<times> instant" where
  "slot_bounds cum t now =
     (let start = hm_or 0 (nth_opt cum t); stop = hm_or (hm_or 0 (nth_opt cum t)) (nth_opt cum (t + 1))
      in (now + seconds start, now + seconds stop))"

definition horizon_end_s :: "int list \<Rightarrow> nat \<Rightarrow> int" where
  "horizon_end_s cum n = hm_or (if cum = [] then 0 else last cum) (nth_opt cum n)"

definition use_windows :: "expected_vehicle_use list \<Rightarrow> instant \<Rightarrow> (instant \<times> instant) list" where
  "use_windows uses horizon_end = map (\<lambda>u. (vu_window_start u, vu_departure_at u)) uses @
     (if uses = [] then [] else
      case vu_consumption (last uses) of None \<Rightarrow> []
      | Some c \<Rightarrow> if tc_return_at c < horizon_end then [(tc_return_at c, horizon_end)] else [])"

definition slot_available :: "(instant \<times> instant) list \<Rightarrow> int list \<Rightarrow> instant \<Rightarrow> nat \<Rightarrow> bool" where
  "slot_available windows cum now t =
     (let (slot_start, slot_end) = slot_bounds cum t now in
      list_ex (\<lambda>(open, close). (if t = 0 then open < slot_end else open \<le> slot_start) \<and> slot_start < close) windows)"

definition add_drop :: "int list \<Rightarrow> nat \<Rightarrow> instant \<Rightarrow> expected_vehicle_use \<Rightarrow> f64 list \<Rightarrow> f64 list" where
  "add_drop cum n now u drops =
     (case vu_consumption u of None \<Rightarrow> drops
      | Some c \<Rightarrow>
          let secs = num_seconds (tc_return_at c - now); k = return_slot cum n secs in
          if tc_soc_drop_frac c \<le> 0 \<or> horizon_end_s cum n \<le> secs \<or> k = 0 then drops
          else drops[k := drops ! k + tc_soc_drop_frac c])"

definition plan_inputs :: "expected_vehicle_use list \<Rightarrow> nat \<Rightarrow> int list \<Rightarrow> instant \<Rightarrow> ev_plan_inputs" where
  "plan_inputs uses n cum now =
     (let windows = use_windows uses (now + seconds (horizon_end_s cum n)) in
      \<lparr>pi_available_per_slot = map (slot_available windows cum now) [0..<n],
       pi_drop_frac_per_slot = fold (add_drop cum n now) uses (replicate n 0),
       pi_obligations = map (\<lambda>u. \<lparr>ob_deadline_step = deadline_slot cum n (num_seconds (vu_departure_at u - now)),
           ob_target_soc_frac = vu_target_soc_frac u, ob_session_id = vu_session_id u\<rparr>)
         (filter (\<lambda>u. vu_firm u \<and> num_seconds (vu_departure_at u - now) \<le> horizon_end_s cum n) uses)\<rparr>)"

section \<open>What the car is predicted to do\<close>

definition trip_use :: "f64 \<Rightarrow> bool \<Rightarrow> instant \<times> usage_trip \<Rightarrow> expected_vehicle_use" where
  "trip_use target firm = (\<lambda>(opens_at, trip).
     \<lparr>vu_window_start = opens_at, vu_departure_at = ut_leave_at trip, vu_target_soc_frac = target, vu_firm = firm,
      vu_consumption = Some \<lparr>tc_return_at = ut_return_at trip, tc_soc_drop_frac = ut_soc_drop_pct trip / 100\<rparr>,
      vu_session_id = None\<rparr>)"

definition predicted_uses ::
  "daily_trips \<Rightarrow> ev_charger \<Rightarrow> nat \<Rightarrow> int list \<Rightarrow> instant \<Rightarrow> bool \<Rightarrow> expected_vehicle_use list" where
  "predicted_uses trips cfg n cum now firm =
     (if n = 0 then [] else
      let horizon_end = now + seconds (horizon_end_s cum n);
          target = ev_soc_target_frac cfg;
          (under_way, window_open) =
            (case active_trip_at trips now of
               None \<Rightarrow> ([], now)
             | Some a \<Rightarrow> ([(trip_use target False (now, a))\<lparr>vu_departure_at := now\<rparr>], ut_return_at a));
          coming = trip_windows trips now window_open horizon_end;
          window_open = (if coming = [] then window_open else ut_return_at (snd (last coming)))
      in under_way @ map (trip_use target firm) coming @
         (if window_open < horizon_end
          then [\<lparr>vu_window_start = window_open, vu_departure_at = horizon_end, vu_target_soc_frac = target, vu_firm = False,
                 vu_consumption = None, vu_session_id = None\<rparr>]
          else []))"

section \<open>The context of a cycle\<close>

datatype ev_milp_mode = EvMustRun | EvMayRun | EvMustNotRun

record ev_milp_context =
  xc_asset_id :: string
  xc_friction :: friction_costs
  xc_session_departure :: "instant option"
  xc_mode :: ev_milp_mode
  xc_soc_init_frac :: f64
  xc_soc_max_frac :: f64
  xc_a_ev :: "bool list"
  xc_soc_drops :: "exogenous_soc_drops option"
  xc_obligations :: "ev_obligation list"
  xc_battery_kwh :: f64
  xc_p_max_kw :: f64
  xc_p_min_kw :: f64
  xc_segments :: "energy_band list"
  xc_e_extra_max_kwh :: f64
  xc_v_extra_eur_kwh :: f64
  xc_asap_lateness_eur_kwh_h :: f64
  xc_free_only :: bool
  xc_p_free_cap_kw :: "f64 list option"
  xc_reward_per_slot :: bool
  xc_free_early_bias :: bool
  xc_budget_eur :: "f64 option"
  xc_c_imp_eur_kwh :: "f64 list option"
  xc_v_extra_co2_eur_kwh :: f64

definition budget_charge_reward_eur_kwh :: f64 where "budget_charge_reward_eur_kwh = 5"

definition uses_from_sessions :: "ev_session list \<Rightarrow> ev_charger \<Rightarrow> instant \<Rightarrow> expected_vehicle_use list" where
  "uses_from_sessions sessions cfg horizon_end = map (\<lambda>s.
     \<lparr>vu_window_start = es_window_start s,
      vu_departure_at = (if charges_until_departure (es_mode s) \<or> es_return_time s \<noteq> None then es_departure_time s else horizon_end),
      vu_target_soc_frac = es_target_soc_frac s, vu_firm = (\<not> es_soft_deadline s \<and> states_a_firm_deadline (es_mode s)),
      vu_consumption = (case (es_trip_distance_km s, es_return_time s) of
          (Some km, Some return_at) \<Rightarrow> Some \<lparr>tc_return_at = return_at, tc_soc_drop_frac = expected_trip_drop_frac cfg km\<rparr>
        | _ \<Rightarrow> None),
      vu_session_id = Some (es_id s)\<rparr>) sessions"

text \<open>The values of the EV that a cycle hands over: the bid, the rewards and the weight of the grid's emissions.\<close>

record ev_cycle_values =
  yv_min_charge_kw :: f64
  yv_v_ev_extra_eur_kwh :: f64
  yv_v_ev_core_eur_kwh :: f64
  yv_asap_lateness_eur_kwh_h :: f64
  yv_v_ev_free_charge_eur_kwh :: f64
  yv_w_ghg_eur_kg :: f64

definition ev_base_context :: "string \<Rightarrow> ev_state option \<Rightarrow> ev_charger \<Rightarrow> nat \<Rightarrow> instant \<Rightarrow> ev_session list \<Rightarrow> ev_cycle_values \<Rightarrow> ev_milp_context" where
  "ev_base_context asset_id state cfg n now sessions y =
     \<lparr>xc_asset_id = asset_id, xc_friction = no_friction,
      xc_session_departure = map_option es_departure_time (upcoming_ev_session sessions now), xc_mode = EvMustNotRun,
      xc_soc_init_frac = (case state of None \<Rightarrow> 0 | Some s \<Rightarrow> vs_soc_frac s), xc_soc_max_frac = ev_soc_target_frac cfg,
      xc_a_ev = replicate n False, xc_soc_drops = None, xc_obligations = [], xc_battery_kwh = ev_battery_kwh cfg,
      xc_p_max_kw = ev_max_charge_kw cfg, xc_p_min_kw = yv_min_charge_kw y, xc_segments = [],
      xc_e_extra_max_kwh = ev_battery_kwh cfg * (1 - ev_soc_target_frac cfg), xc_v_extra_eur_kwh = yv_v_ev_extra_eur_kwh y,
      xc_asap_lateness_eur_kwh_h = 0, xc_free_only = False, xc_p_free_cap_kw = None, xc_reward_per_slot = False,
      xc_free_early_bias = False, xc_budget_eur = None, xc_c_imp_eur_kwh = None, xc_v_extra_co2_eur_kwh = 0\<rparr>"

text \<open>What the head session's mode asks for; \<open>core_kwh\<close> is the energy from the live charge to its target.\<close>

definition head_session_context :: "ev_session \<Rightarrow> ev_charger \<Rightarrow> f64 \<Rightarrow> ev_cycle_values \<Rightarrow> bool list \<Rightarrow> ev_milp_context \<Rightarrow> ev_milp_context" where
  "head_session_context session cfg current_soc y available base =
     (let core_kwh = energy_to_soc_kwh cfg current_soc (es_target_soc_frac session) in
      case es_mode session of
        MaxCost \<Rightarrow> base\<lparr>xc_mode := EvMustRun, xc_a_ev := available, xc_e_extra_max_kwh := core_kwh,
          xc_v_extra_eur_kwh := budget_charge_reward_eur_kwh, xc_reward_per_slot := True, xc_budget_eur := es_budget_eur session\<rparr>
      | ByDeadlineFree \<Rightarrow> base\<lparr>xc_mode := EvMustRun, xc_a_ev := available, xc_e_extra_max_kwh := core_kwh,
          xc_v_extra_eur_kwh := yv_v_ev_free_charge_eur_kwh y, xc_free_only := True, xc_reward_per_slot := True\<rparr>
      | m \<Rightarrow>
          if m = Opportunistic \<or> m = AsapFree
          then base\<lparr>xc_mode := EvMustRun, xc_a_ev := available, xc_e_extra_max_kwh := core_kwh,
            xc_v_extra_eur_kwh := yv_v_ev_free_charge_eur_kwh y, xc_free_only := True, xc_reward_per_slot := True,
            xc_free_early_bias := (m = AsapFree)\<rparr>
          else base\<lparr>xc_mode := (if es_soft_deadline session then EvMayRun else EvMustRun), xc_a_ev := available,
            xc_segments := ev_energy_segments (es_comfort_rates session)
              \<lparr>br_init = current_soc, br_target = es_target_soc_frac session, br_max = ev_soc_target_frac cfg\<rparr>
              (ev_battery_kwh cfg) (yv_v_ev_core_eur_kwh y) (yv_v_ev_extra_eur_kwh y) (yv_w_ghg_eur_kg y),
            xc_e_extra_max_kwh := 0, xc_v_extra_eur_kwh := 0, xc_v_extra_co2_eur_kwh := 0,
            xc_asap_lateness_eur_kwh_h := (if m = Asap then yv_asap_lateness_eur_kwh_h y else 0)\<rparr>)"

definition forecasts_usage :: "ev_charger \<Rightarrow> bool" where
  "forecasts_usage cfg \<longleftrightarrow> (case ev_usage_sim cfg of None \<Rightarrow> False | Some u \<Rightarrow> eu_mode u = UsageForecast)"

definition ev_from_state ::
  "string \<Rightarrow> ev_state option \<Rightarrow> ev_charger \<Rightarrow> nat \<Rightarrow> int list \<Rightarrow> instant \<Rightarrow> ev_session list \<Rightarrow> comfort_rate list \<Rightarrow>
   ev_cycle_values \<Rightarrow> ev_milp_context" where
  "ev_from_state asset_id state cfg n cum now sessions comfort_rates y =
     (let plugged = (case state of None \<Rightarrow> False | Some s \<Rightarrow> vs_plugged s);
          current_soc = (case state of None \<Rightarrow> 0 | Some s \<Rightarrow> vs_soc_frac s);
          base = ev_base_context asset_id state cfg n now sessions y
      in if \<not> plugged \<and> \<not> forecasts_usage cfg then base
         else case sessions of
           [] \<Rightarrow> base\<lparr>xc_a_ev := replicate n True, xc_soc_drops := None,
             xc_segments := ev_energy_segments comfort_rates
               \<lparr>br_init = current_soc, br_target = ev_soc_target_frac cfg, br_max = ev_soc_target_frac cfg\<rparr>
               (ev_battery_kwh cfg) (yv_v_ev_core_eur_kwh y) (yv_v_ev_extra_eur_kwh y) (yv_w_ghg_eur_kg y),
             xc_e_extra_max_kwh := 0, xc_v_extra_eur_kwh := 0\<rparr>
         | session # _ \<Rightarrow>
             let derived = plan_inputs (uses_from_sessions sessions cfg (now + seconds (horizon_end_s cum n))) n cum now;
                 stated_drops = (if list_ex (\<lambda>d. 0 < d) (pi_drop_frac_per_slot derived)
                   then Some \<lparr>xd_drop_frac_per_slot = pi_drop_frac_per_slot derived,
                     xd_floor_frac = (case ev_usage_sim cfg of None \<Rightarrow> 0 | Some u \<Rightarrow> eu_min_soc_after_drop_pct u / 100)\<rparr>
                   else None);
                 ctx = head_session_context session cfg current_soc y (pi_available_per_slot derived) base
             in ctx\<lparr>xc_obligations := pi_obligations derived,
                    xc_soc_drops := (if xc_soc_drops ctx = None then stated_drops else xc_soc_drops ctx)\<rparr>)"

definition apply_usage_forecast ::
  "daily_trips \<Rightarrow> ev_charger \<Rightarrow> nat \<Rightarrow> int list \<Rightarrow> instant \<Rightarrow> ev_session list \<Rightarrow> ev_milp_context \<Rightarrow> ev_milp_context" where
  "apply_usage_forecast trips cfg n cum now sessions ctx =
     (case ev_usage_sim cfg of
        None \<Rightarrow> ctx
      | Some usage \<Rightarrow>
          if eu_mode usage \<noteq> UsageForecast then ctx
          else
            let firm = (eu_engage_charge_planning usage \<and> sessions = []);
                derived = plan_inputs (predicted_uses trips cfg n cum now firm) n cum now;
                avail = pi_available_per_slot derived;
                ctx = ctx\<lparr>xc_a_ev := map2 (\<and>) (xc_a_ev ctx) avail @ drop (length avail) (xc_a_ev ctx),
                  xc_soc_drops := Some \<lparr>xd_drop_frac_per_slot = pi_drop_frac_per_slot derived,
                    xd_floor_frac = eu_min_soc_after_drop_pct usage / 100\<rparr>\<rparr>
            in if pi_obligations derived = [] then ctx
               else ctx\<lparr>xc_mode := EvMustRun, xc_obligations := pi_obligations derived\<rparr>)"

section \<open>The generated trips, read in full\<close>

text \<open>Every trip leaves on its own day and is back before the day after the next: what a day's draw produces.\<close>

definition trips_on_day :: "daily_trips \<Rightarrow> bool" where
  "trips_on_day trips \<longleftrightarrow> (\<forall>d t. trips d = Some t \<longrightarrow>
     day_start d \<le> ut_leave_at t \<and> ut_leave_at t < day_start (d + 1) \<and> ut_return_at t \<le> day_start (d + 2))"

lemma on_day:
  assumes "trips_on_day trips" "trips d = Some t"
  shows "day_start d \<le> ut_leave_at t" "ut_leave_at t < day_start (d + 1)" "ut_return_at t \<le> day_start (d + 2)"
  using assms by (simp_all add: trips_on_day_def)

lemma day_start_less: "day_start a < day_start b \<longleftrightarrow> a < b" and day_start_le: "day_start a \<le> day_start b \<longleftrightarrow> a \<le> b"
  by (simp_all add: day_start_def seconds_def)

lemma day_of_iff: "day_of ts = d \<longleftrightarrow> day_start d \<le> ts \<and> ts < day_start (d + 1)"
  unfolding day_of_def day_start_def seconds_def by auto

lemma day_of_bounds: "day_start (day_of ts) \<le> ts" "ts < day_start (day_of ts + 1)"
  using day_of_iff [of ts "day_of ts"] by simp_all

lemma active_trip_iff:
  assumes "trips_on_day trips"
  shows "active_trip_at trips ts = None \<longleftrightarrow> (\<forall>t \<in> ran trips. \<not> (ut_leave_at t \<le> ts \<and> ts < ut_return_at t))"
proof
  assume none: "active_trip_at trips ts = None"
  show "\<forall>t \<in> ran trips. \<not> (ut_leave_at t \<le> ts \<and> ts < ut_return_at t)"
  proof (intro ballI notI)
    fix t assume "t \<in> ran trips" and now: "ut_leave_at t \<le> ts \<and> ts < ut_return_at t"
    then obtain d where d: "trips d = Some t" by (auto simp: ran_def)
    have "day_start d \<le> ts" "ts < day_start (d + 2)" using on_day [OF assms d] now by linarith+
    then have "day_start d < day_start (day_of ts + 1)" "day_start (day_of ts) < day_start (d + 2)"
      using day_of_bounds [of ts] by linarith+
    then have "d = day_of ts \<or> d = day_of ts - 1" unfolding day_start_less by linarith
    then show False using none d now by (auto simp: active_trip_at_def Let_def split: option.splits if_splits)
  qed
next
  assume "\<forall>t \<in> ran trips. \<not> (ut_leave_at t \<le> ts \<and> ts < ut_return_at t)"
  then show "active_trip_at trips ts = None" by (auto simp: active_trip_at_def Let_def ran_def split: option.split)
qed

lemma active_trip_is: "active_trip_at trips ts = Some t \<Longrightarrow> t \<in> ran trips \<and> ut_leave_at t \<le> ts \<and> ts < ut_return_at t"
  by (auto simp: active_trip_at_def Let_def ran_def split: option.splits if_splits)

lemma next_trip_from_first:
  assumes "trips_on_day trips" and "trips d = Some t'" "day \<le> d" "now < ut_leave_at t'" "ut_leave_at t' \<le> horizon"
  shows "\<exists>t. next_trip_from trips now horizon day = Some t \<and> ut_leave_at t \<le> ut_leave_at t'"
  using assms
proof (induction trips now horizon day rule: next_trip_from.induct)
  case (1 trips now horizon day)
  have on: "\<And>d t. trips d = Some t \<Longrightarrow> day_start d \<le> ut_leave_at t \<and> ut_leave_at t < day_start (d + 1)"
    using "1.prems"(1) by (auto simp: trips_on_day_def)
  have "day_start day \<le> day_start d" using "1.prems"(3) by (simp add: day_start_le)
  then have day: "day_start day \<le> horizon" using on [OF "1.prems"(2)] "1.prems"(5) by linarith
  show ?case
  proof (cases "\<exists>t. trips day = Some t \<and> now < ut_leave_at t \<and> ut_leave_at t \<le> horizon")
    case True
    then obtain t where t: "trips day = Some t" "now < ut_leave_at t" "ut_leave_at t \<le> horizon" by blast
    then have "next_trip_from trips now horizon day = Some t" using day by (subst next_trip_from.simps) simp
    moreover have "ut_leave_at t \<le> ut_leave_at t'"
    proof (cases "day = d")
      case False
      then have "day_start (day + 1) \<le> day_start d" using "1.prems"(3) by (simp add: day_start_le)
      then show ?thesis using on [OF t(1)] on [OF "1.prems"(2)] by linarith
    qed (use t "1.prems"(2) in simp)
    ultimately show ?thesis by blast
  next
    case False
    then have "day \<noteq> d" using "1.prems"(2,4,5) by blast
    then have "day + 1 \<le> d" using "1.prems"(3) by simp
    then have "\<exists>t. next_trip_from trips now horizon (day + 1) = Some t \<and> ut_leave_at t \<le> ut_leave_at t'"
      using 1 day False by (cases "trips day") auto
    moreover have "next_trip_from trips now horizon day = next_trip_from trips now horizon (day + 1)"
      using day False by (subst next_trip_from.simps) (auto split: option.split)
    ultimately show ?thesis by simp
  qed
qed

lemma next_trip_first:
  assumes "trips_on_day trips" "t' \<in> ran trips" "now < ut_leave_at t'" "ut_leave_at t' \<le> horizon"
  shows "\<exists>t. next_trip_after trips now horizon = Some t \<and> ut_leave_at t \<le> ut_leave_at t'"
proof -
  obtain d where d: "trips d = Some t'" using assms(2) by (auto simp: ran_def)
  have "now < day_start (d + 1)" using on_day [OF assms(1) d] assms(3) by linarith
  then have "day_start (day_of now) < day_start (d + 1)" using day_of_bounds(1) [of now] by linarith
  then have "day_of now \<le> d" unfolding day_start_less by simp
  from next_trip_from_first [OF assms(1) d this assms(3,4)] show ?thesis by (simp add: next_trip_after_def)
qed

lemma trips_same_leave:
  assumes "trips_on_day trips" "t \<in> ran trips" "t' \<in> ran trips" "ut_leave_at t = ut_leave_at t'"
  shows "t = t'"
proof -
  obtain d d' where d: "trips d = Some t" "trips d' = Some t'" using assms(2,3) by (auto simp: ran_def)
  then have "day_start d < day_start (d' + 1)" "day_start d' < day_start (d + 1)"
    using on_day [OF assms(1) d(1)] on_day [OF assms(1) d(2)] assms(4) by linarith+
  then have "d = d'" unfolding day_start_less by simp
  then show ?thesis using d by simp
qed

text \<open>The windows between the coming trips hold exactly the instants at which the car is not on one of them.\<close>

definition home_again :: "instant \<Rightarrow> (instant \<times> usage_trip) list \<Rightarrow> instant" where
  "home_again wo coming = (if coming = [] then wo else ut_return_at (snd (last coming)))"

lemma trip_windows_cover:
  assumes "trips_apart trips" "trips_on_day trips" "cursor \<le> wo" "\<forall>t \<in> ran trips. cursor < ut_leave_at t \<longrightarrow> wo \<le> ut_leave_at t"
    and "s < horizon"
  shows "(\<exists>(w, t) \<in> set (trip_windows trips cursor wo horizon). w \<le> s \<and> s < ut_leave_at t) \<or>
      home_again wo (trip_windows trips cursor wo horizon) \<le> s \<longleftrightarrow>
    wo \<le> s \<and> (\<forall>t \<in> ran trips. cursor < ut_leave_at t \<longrightarrow> \<not> (ut_leave_at t \<le> s \<and> s < ut_return_at t))"
  using assms
proof (induction trips cursor wo horizon rule: trip_windows.induct)
  case (1 trips cursor wo horizon)
  show ?case
  proof (cases "next_trip_after trips cursor horizon")
    case None
    have "horizon < ut_leave_at t" if "t \<in> ran trips" "cursor < ut_leave_at t" for t
      using next_trip_first [OF "1.prems"(2) that, of horizon] None by (cases "ut_leave_at t \<le> horizon") auto
    then show ?thesis using None "1.prems"(5) by (fastforce simp: trip_windows.simps home_again_def)
  next
    case (Some t)
    have t: "t \<in> ran trips" "cursor < ut_leave_at t" "ut_leave_at t \<le> horizon" using next_trip_after_facts [OF Some] by simp_all
    have ret: "ut_leave_at t < ut_return_at t"
      "\<forall>t' \<in> ran trips. ut_leave_at t < ut_leave_at t' \<longrightarrow> ut_return_at t \<le> ut_leave_at t'"
      using "1.prems"(1) t(1) by (auto simp: trips_apart_def)
    have first: "ut_leave_at t \<le> ut_leave_at t'" if "t' \<in> ran trips" "cursor < ut_leave_at t'" for t'
      using next_trip_first [OF "1.prems"(2) that, of horizon] Some t(3) by (cases "ut_leave_at t' \<le> horizon") auto
    have same: "t' = t" if "t' \<in> ran trips" "ut_leave_at t' = ut_leave_at t" for t'
      using trips_same_leave [OF "1.prems"(2) that(1) t(1) that(2)] .
    let ?rest = "trip_windows trips (ut_leave_at t) (ut_return_at t) horizon"
    have ih: "(\<exists>(w, t') \<in> set ?rest. w \<le> s \<and> s < ut_leave_at t') \<or> home_again (ut_return_at t) ?rest \<le> s \<longleftrightarrow>
      ut_return_at t \<le> s \<and> (\<forall>t' \<in> ran trips. ut_leave_at t < ut_leave_at t' \<longrightarrow> \<not> (ut_leave_at t' \<le> s \<and> s < ut_return_at t'))"
      using "1.IH" [OF Some "1.prems"(1,2) _ ret(2) "1.prems"(5)] ret(1) by simp
    have eq: "trip_windows trips cursor wo horizon = (wo, t) # ?rest" by (subst trip_windows.simps) (simp add: Some)
    have home: "home_again wo ((wo, t) # ?rest) = home_again (ut_return_at t) ?rest" by (simp add: home_again_def)
    show ?thesis (is "?windows \<longleftrightarrow> ?free")
    proof
      assume ?windows
      then consider "wo \<le> s" "s < ut_leave_at t" | "ut_return_at t \<le> s"
          "\<forall>t' \<in> ran trips. ut_leave_at t < ut_leave_at t' \<longrightarrow> \<not> (ut_leave_at t' \<le> s \<and> s < ut_return_at t')"
        unfolding eq home using ih by auto
      then show ?free
      proof cases
        case 1
        then show ?thesis using first by fastforce
      next
        case 2
        then have "\<not> (ut_leave_at t' \<le> s \<and> s < ut_return_at t')" if "t' \<in> ran trips" "cursor < ut_leave_at t'" for t'
          using first [OF that] same [OF that(1)] that(1) by (cases "ut_leave_at t' = ut_leave_at t") auto
        moreover have "wo \<le> s" using "1.prems"(4) t(1,2) ret(1) 2(1) by fastforce
        ultimately show ?thesis by blast
      qed
    next
      assume free: ?free
      show ?windows
      proof (cases "s < ut_leave_at t")
        case False
        then have "ut_return_at t \<le> s" using free t(1,2) by fastforce
        then have "(\<exists>(w, t') \<in> set ?rest. w \<le> s \<and> s < ut_leave_at t') \<or> home_again (ut_return_at t) ?rest \<le> s"
          using ih free t(2) by fastforce
        then show ?thesis unfolding eq home by auto
      qed (use free eq in auto)
    qed
  qed
qed

section \<open>The mask of a forecast\<close>

lemma slot_bounds_nth: "length cum = Suc n \<Longrightarrow> t < n \<Longrightarrow> slot_bounds cum t now = (now + seconds (cum ! t), now + seconds (cum ! Suc t))"
  by (simp add: slot_bounds_def Let_def hm_or_def)

lemma horizon_end_s_nth: "length cum = Suc n \<Longrightarrow> horizon_end_s cum n = cum ! n"
  by (simp add: horizon_end_s_def hm_or_def)

definition open_at :: "expected_vehicle_use list \<Rightarrow> instant \<Rightarrow> instant \<Rightarrow> bool" where
  "open_at uses horizon_end s \<longleftrightarrow> list_ex (\<lambda>(open, close). open \<le> s \<and> s < close) (use_windows uses horizon_end)"

lemma open_at_iff: "open_at uses horizon_end s \<longleftrightarrow> (\<exists>u \<in> set uses. vu_window_start u \<le> s \<and> s < vu_departure_at u) \<or>
    uses \<noteq> [] \<and> s < horizon_end \<and> (\<exists>c. vu_consumption (last uses) = Some c \<and> tc_return_at c \<le> s)"
  by (auto simp: open_at_def use_windows_def list_ex_iff split: option.split)

text \<open>The uses predicted for a horizon are open exactly where the car is on no trip.\<close>

lemma predicted_uses_open:
  assumes "trips_apart trips" "trips_on_day trips" "n \<noteq> 0" "now \<le> s" and horizon: "s < now + seconds (horizon_end_s cum n)"
  shows "open_at (predicted_uses trips cfg n cum now firm) (now + seconds (horizon_end_s cum n)) s \<longleftrightarrow> active_trip_at trips s = None"
proof -
  let ?h = "now + seconds (horizon_end_s cum n)"
  define wo where "wo = (case active_trip_at trips now of None \<Rightarrow> now | Some a \<Rightarrow> ut_return_at a)"
  define coming where "coming = trip_windows trips now wo ?h"
  define away where "away = (case active_trip_at trips now of None \<Rightarrow> []
    | Some a \<Rightarrow> [(trip_use (ev_soc_target_frac cfg) False (now, a))\<lparr>vu_departure_at := now\<rparr>])"
  define rest where "rest = (if home_again wo coming < ?h then
    [\<lparr>vu_window_start = home_again wo coming, vu_departure_at = ?h, vu_target_soc_frac = ev_soc_target_frac cfg, vu_firm = False,
      vu_consumption = None, vu_session_id = None\<rparr>] else [])"
  have uses: "predicted_uses trips cfg n cum now firm = away @ map (trip_use (ev_soc_target_frac cfg) firm) coming @ rest"
    using assms(3) by (simp add: predicted_uses_def away_def coming_def rest_def wo_def home_again_def Let_def split: option.split)
  have wo: "now \<le> wo" "\<forall>t \<in> ran trips. now < ut_leave_at t \<longrightarrow> wo \<le> ut_leave_at t"
    using assms(1) active_trip_is [of trips now] by (auto simp: wo_def trips_apart_def split: option.split)
  note cover = trip_windows_cover [OF assms(1,2) wo horizon, folded coming_def]
  let ?trips = "map (trip_use (ev_soc_target_frac cfg) firm) coming"
  have none_open: "\<not> (\<exists>u \<in> set away. vu_window_start u \<le> s \<and> s < vu_departure_at u)"
    using assms(4) by (auto simp: away_def trip_use_def split: option.splits)
  have trips_open: "(\<exists>u \<in> set ?trips. vu_window_start u \<le> s \<and> s < vu_departure_at u) \<longleftrightarrow>
      (\<exists>(w, t) \<in> set coming. w \<le> s \<and> s < ut_leave_at t)"
    by (simp add: trip_use_def case_prod_unfold)
  have last_home: "tc_return_at c = home_again wo coming"
    if "away @ ?trips \<noteq> []" "vu_consumption (last (away @ ?trips)) = Some c" for c
    using that by (cases "coming = []")
      (auto simp: away_def wo_def home_again_def trip_use_def last_map case_prod_unfold split: option.splits)
  have open_iff: "open_at (away @ ?trips @ rest) ?h s \<longleftrightarrow>
      (\<exists>(w, t) \<in> set coming. w \<le> s \<and> s < ut_leave_at t) \<or> home_again wo coming \<le> s"
  proof (cases "home_again wo coming < ?h")
    case True
    then have rest: "(\<exists>u \<in> set rest. vu_window_start u \<le> s \<and> s < vu_departure_at u) \<longleftrightarrow> home_again wo coming \<le> s"
        and last: "vu_consumption (last (away @ ?trips @ rest)) = None"
      using horizon by (simp_all add: rest_def)
    show ?thesis
      by (simp only: open_at_iff set_append bex_Un none_open trips_open rest last option.distinct simp_thms)
  next
    case False
    then have home: "(home_again wo coming \<le> s) = False" and rest: "rest = []" using horizon by (simp_all add: rest_def)
    have last: "(away @ ?trips \<noteq> [] \<and> s < ?h \<and> (\<exists>c. vu_consumption (last (away @ ?trips)) = Some c \<and> tc_return_at c \<le> s)) = False"
      using last_home False horizon by fastforce
    show ?thesis
      by (simp only: rest append_Nil2 open_at_iff set_append bex_Un none_open trips_open home last simp_thms)
  qed
  have past: "ut_return_at t \<le> now \<or> active_trip_at trips now = Some t" if t: "t \<in> ran trips" "ut_leave_at t \<le> now" for t
  proof (cases "active_trip_at trips now")
    case None
    then show ?thesis using t unfolding active_trip_iff [OF assms(2)] by fastforce
  next
    case (Some a)
    note a = active_trip_is [OF Some]
    have "ut_return_at t \<le> ut_leave_at a" if "ut_leave_at t < ut_leave_at a" using assms(1) a t(1) that by (auto simp: trips_apart_def)
    moreover have "ut_return_at a \<le> ut_leave_at t" if "ut_leave_at a < ut_leave_at t" using assms(1) a t(1) that by (auto simp: trips_apart_def)
    moreover have "t = a" if "ut_leave_at t = ut_leave_at a" using trips_same_leave [OF assms(2) t(1) _ that] a by simp
    ultimately show ?thesis using a t Some by (cases "ut_leave_at t" "ut_leave_at a" rule: linorder_cases) auto
  qed
  have under_way: "wo \<le> s \<longleftrightarrow> (\<forall>t. active_trip_at trips now = Some t \<longrightarrow> \<not> (ut_leave_at t \<le> s \<and> s < ut_return_at t))"
    using assms(4) active_trip_is [of trips now] by (cases "active_trip_at trips now") (fastforce simp: wo_def)+
  show ?thesis unfolding uses open_iff cover active_trip_iff [OF assms(2)]
  proof
    assume free: "wo \<le> s \<and> (\<forall>t \<in> ran trips. now < ut_leave_at t \<longrightarrow> \<not> (ut_leave_at t \<le> s \<and> s < ut_return_at t))"
    show "\<forall>t \<in> ran trips. \<not> (ut_leave_at t \<le> s \<and> s < ut_return_at t)"
    proof
      fix t assume t: "t \<in> ran trips"
      show "\<not> (ut_leave_at t \<le> s \<and> s < ut_return_at t)"
        using free t past [OF t] under_way assms(4) by (cases "now < ut_leave_at t") auto
    qed
  next
    assume "\<forall>t \<in> ran trips. \<not> (ut_leave_at t \<le> s \<and> s < ut_return_at t)"
    then show "wo \<le> s \<and> (\<forall>t \<in> ran trips. now < ut_leave_at t \<longrightarrow> \<not> (ut_leave_at t \<le> s \<and> s < ut_return_at t))"
      using under_way active_trip_is [of trips now] by blast
  qed
qed



text \<open>
  A departure inside a slot leaves the whole slot chargeable, and the obligation counts what the slot charges to its
  end: here the car leaves after 35 minutes and 25 minutes of charging after that are planned and counted.
\<close>

theorem departing_slot_chargeable:
  "plan_inputs [\<lparr>vu_window_start = 0, vu_departure_at = seconds 2100, vu_target_soc_frac = 8 / 10, vu_firm = True,
      vu_consumption = None, vu_session_id = None\<rparr>] 2 [0, 1800, 3600] 0 =
    \<lparr>pi_available_per_slot = [True, True], pi_drop_frac_per_slot = [0, 0],
     pi_obligations = [\<lparr>ob_deadline_step = 1, ob_target_soc_frac = 8 / 10, ob_session_id = None\<rparr>]\<rparr>"
proof -
  have due: "num_seconds (seconds 2100 - 0) = 2100" by (simp add: num_seconds_def seconds_def time_simps)
  have slot: "deadline_slot [0, 1800, 3600] 2 2100 = 1" by (simp add: deadline_slot_def partition_point_def)
  have stop: "horizon_end_s [0, 1800, 3600] 2 = 3600" by (simp add: horizon_end_s_def nth_opt_def hm_or_def)
  have bounds: "slot_bounds [0, 1800, 3600] 0 0 = (0, seconds 1800)" "slot_bounds [0, 1800, 3600] 1 0 = (seconds 1800, seconds 3600)"
    by (simp_all add: slot_bounds_def nth_opt_def hm_or_def seconds_def)
  show ?thesis
    unfolding plan_inputs_def Let_def stop
    by (simp add: due slot [unfolded numeral_2_eq_2] use_windows_def slot_available_def bounds [unfolded One_nat_def] add_drop_def numeral_2_eq_2)
      (simp add: seconds_def)
qed

end
