(* ===== verification/Ev_Milp.thy ===== *)
theory Ev_Milp
  imports Ev_Trips
begin

text \<open>
  \<open>VEN/src/assets/ev_milp.rs\<close>, \<open>ev_milp_accessors.rs\<close> and \<open>ev_declared.rs\<close>: the EV as the planner sees it, a charging
  power and an on flag per slot, the state of charge at every boundary, the part of a trip's use the floor absorbs, a
  shortfall per obligation and the energy bought from the comfort bands. In \<open>good_lp\<close> \<open>binary()\<close> sets the bounds 0
  and 1, so the upper bound set before it on an unavailable slot's flag has no effect. How a figure and an id are
  written in a warning are arguments.
\<close>

definition drop_unmet_penalty_eur :: f64 where "drop_unmet_penalty_eur = 100000"
definition shortfall_penalty_eur :: f64 where "shortfall_penalty_eur = 10000"
definition tie_break_lateness_eur_kwh_h :: f64 where "tie_break_lateness_eur_kwh_h = 1 / 10000"

record ev_milp_vars =
  ew_p_ev :: "lp_var list"
  ew_soc_ev :: "lp_var list"
  ew_drop_unmet :: "lp_var list"
  ew_shortfall_soc :: "lp_var list"
  ew_z_ev_on :: "lp_var list"
  ew_e_seg :: "lp_var list"
  ew_e_ev_extra :: lp_var
  ew_delta_ev :: "lp_var list"
  ew_delta_ev_ramp :: "lp_var list"
  ew_p_min_kw :: f64
  ew_battery_kwh :: f64

section \<open>What the context knows about itself\<close>

definition floor_frac :: "ev_milp_context \<Rightarrow> f64" where
  "floor_frac ctx = max (min (case xc_soc_drops ctx of None \<Rightarrow> 0 | Some d \<Rightarrow> xd_floor_frac d) (xc_soc_init_frac ctx)) 0"

definition drop_frac_at :: "ev_milp_context \<Rightarrow> nat \<Rightarrow> f64" where
  "drop_frac_at ctx t =
     max (case xc_soc_drops ctx of None \<Rightarrow> 0 | Some d \<Rightarrow> hm_or 0 (nth_opt (xd_drop_frac_per_slot d) t)) 0"

definition band_accounting_last_step :: "ev_milp_context \<Rightarrow> nat \<Rightarrow> nat" where
  "band_accounting_last_step ctx n =
     min (if xc_obligations ctx = [] then n - 1 else fold max (map ob_deadline_step (xc_obligations ctx)) 0) (n - 1)"

definition ev_energy_expr :: "ev_milp_context \<Rightarrow> ev_milp_vars \<Rightarrow> nat \<Rightarrow> f64 list \<Rightarrow> lp_expr" where
  "ev_energy_expr ctx v n dt_h =
     sum_expr (map (\<lambda>(t, dt) \<sigma>. dt * \<sigma> (ew_p_ev v ! t)) (filter (\<lambda>(t, dt). t \<le> band_accounting_last_step ctx n) (slots n dt_h)))"

definition soc_ceiling :: "ev_milp_context \<Rightarrow> f64" where
  "soc_ceiling ctx = max (clamp_range 0 1 (xc_soc_max_frac ctx)) (xc_soc_init_frac ctx)"

definition reachable_target_frac :: "ev_milp_context \<Rightarrow> ev_obligation \<Rightarrow> f64" where
  "reachable_target_frac ctx ob = min (ob_target_soc_frac ob) (soc_ceiling ctx)"

definition required_kwh :: "ev_milp_context \<Rightarrow> ev_obligation \<Rightarrow> f64" where
  "required_kwh ctx ob =
     (let consumed = sum_list (map (drop_frac_at ctx) [0..<Suc (ob_deadline_step ob)]) in
      max ((reachable_target_frac ctx ob - xc_soc_init_frac ctx + consumed) * xc_battery_kwh ctx) 0)"

definition firm_required_kwh :: "ev_milp_context \<Rightarrow> f64" where
  "firm_required_kwh ctx = fold (\<lambda>ob acc. max acc (required_kwh ctx ob)) (xc_obligations ctx) 0"

section \<open>Declaration\<close>

definition ev_power_domain :: "ev_milp_context \<Rightarrow> lp_domain" where
  "ev_power_domain ctx = (if xc_mode ctx = EvMustNotRun then between 0 0 else between 0 (xc_p_max_kw ctx))"

definition soc_domain :: "ev_milp_context \<Rightarrow> nat \<Rightarrow> lp_domain" where
  "soc_domain ctx i =
     (if i = 0 then between (xc_soc_init_frac ctx) (xc_soc_init_frac ctx) else between (floor_frac ctx) (soc_ceiling ctx))"

definition on_domain :: "ev_milp_context \<Rightarrow> f64 list option \<Rightarrow> nat \<Rightarrow> lp_domain" where
  "on_domain ctx pinned_on t =
     (if xc_mode ctx = EvMustNotRun then between 0 0 else
      case pinned_on of None \<Rightarrow> binary | Some on \<Rightarrow> fixed_at (pinned_binary (nth_opt on t)))"

definition seg_domains :: "ev_milp_context \<Rightarrow> lp_domain list" where
  "seg_domains ctx =
     (if xc_mode ctx = EvMustNotRun then [] else
      let uncovered = firm_required_kwh ctx - sum_list (map eb_kwh (xc_segments ctx)) in
      map (\<lambda>seg. between 0 (eb_kwh seg)) (xc_segments ctx) @ (if 1 / 10 ^ 9 < uncovered then [between 0 uncovered] else []))"

definition ev_declare_vars ::
  "ev_milp_context \<Rightarrow> nat \<Rightarrow> f64 \<Rightarrow> f64 \<Rightarrow> f64 list option \<Rightarrow> lp_domain list \<Rightarrow> ev_milp_vars \<times> lp_domain list" where
  "ev_declare_vars ctx n c_startup c_ramp pinned_on vars =
     (let c_startup = (if pinned_on = None then c_startup else 0); c_ramp = (if pinned_on = None then c_ramp else 0);
          runs = (xc_mode ctx \<noteq> EvMustNotRun);
          (p_ev, vars) = add_vars (replicate n (ev_power_domain ctx)) vars;
          (soc_ev, vars) = add_vars (map (soc_domain ctx) [0..<Suc n]) vars;
          (drop_unmet, vars) = add_vars (map (\<lambda>t. between 0 (drop_frac_at ctx t)) [0..<n]) vars;
          (shortfall, vars) = add_vars (map (\<lambda>ob. between 0 (max (reachable_target_frac ctx ob) 0)) (xc_obligations ctx)) vars;
          (z_on, vars) = add_vars (map (on_domain ctx pinned_on) [0..<n]) vars;
          (e_seg, vars) = add_vars (seg_domains ctx) vars;
          (e_extra, vars) = add_var (if runs then between 0 (xc_e_extra_max_kwh ctx) else between 0 0) vars;
          (delta, vars) = add_vars (if runs \<and> 1 < n \<and> 0 < c_startup then replicate (n - 1) binary else []) vars;
          (delta_ramp, vars) = add_vars (if runs \<and> 1 < n \<and> 0 < c_ramp then replicate (n - 1) (at_least 0) else []) vars
      in (\<lparr>ew_p_ev = p_ev, ew_soc_ev = soc_ev, ew_drop_unmet = drop_unmet, ew_shortfall_soc = shortfall, ew_z_ev_on = z_on,
           ew_e_seg = e_seg, ew_e_ev_extra = e_extra, ew_delta_ev = delta, ew_delta_ev_ramp = delta_ramp,
           ew_p_min_kw = xc_p_min_kw ctx, ew_battery_kwh = xc_battery_kwh ctx\<rparr>, vars))"

definition ev_own_readback :: "asset_solution \<Rightarrow> ev_sol_output" where
  "ev_own_readback own = (case as_detail own of EvDetail sol \<Rightarrow> sol
     | _ \<Rightarrow> \<lparr>eo_p_ev_kw = [], eo_soc_ev = [], eo_shortfall_kwh = [], eo_z_ev_on = [], eo_e_ev_extra_kwh = 0, eo_e_seg_kwh = 0\<rparr>)"

definition ev_declare :: "ev_milp_context \<Rightarrow> nat \<Rightarrow> declare_mode \<Rightarrow> lp_domain list \<Rightarrow> ev_milp_vars \<times> lp_domain list" where
  "ev_declare ctx n mode vars =
     (let priced = mode_friction mode (xc_friction ctx) in
      ev_declare_vars ctx n (fc_startup_eur priced) (fc_ramp_eur_kw priced)
        (case mode of PlanMode _ \<Rightarrow> None | PinnedMode own \<Rightarrow> Some (eo_z_ev_on (ev_own_readback own))) vars)"

section \<open>Constraints\<close>

definition ev_net :: "ev_milp_vars \<Rightarrow> nat \<Rightarrow> lp_expr" where
  "ev_net v t = (\<lambda>\<sigma>. \<sigma> (ew_p_ev v ! t))"

definition ev_on_rows :: "ev_milp_context \<Rightarrow> ev_milp_vars \<Rightarrow> nat \<Rightarrow> lp_row list" where
  "ev_on_rows ctx v t =
     (let ev_ub = (if xc_a_ev ctx ! t then xc_p_max_kw ctx else 0) in
      [\<lambda>\<sigma>. xc_p_min_kw ctx * \<sigma> (ew_z_ev_on v ! t) \<le> \<sigma> (ew_p_ev v ! t), \<lambda>\<sigma>. \<sigma> (ew_p_ev v ! t) \<le> ev_ub * \<sigma> (ew_z_ev_on v ! t)])"

definition ev_soc_row :: "ev_milp_context \<Rightarrow> ev_milp_vars \<Rightarrow> nat \<times> f64 \<Rightarrow> lp_row" where
  "ev_soc_row ctx v = (\<lambda>(t, dt) \<sigma>. \<sigma> (ew_soc_ev v ! (t + 1)) =
     \<sigma> (ew_soc_ev v ! t) + dt / xc_battery_kwh ctx * \<sigma> (ew_p_ev v ! t) - drop_frac_at ctx t + \<sigma> (ew_drop_unmet v ! t))"

definition ev_obligation_rows :: "ev_milp_context \<Rightarrow> ev_milp_vars \<Rightarrow> nat \<Rightarrow> nat \<times> ev_obligation \<Rightarrow> lp_row list" where
  "ev_obligation_rows ctx v n = (\<lambda>(k, ob).
     if xc_mode ctx = EvMustNotRun \<or> ob_target_soc_frac ob \<le> 1 / 10 ^ 9 \<or> n \<le> ob_deadline_step ob then []
     else [\<lambda>\<sigma>. reachable_target_frac ctx ob \<le> \<sigma> (ew_soc_ev v ! (ob_deadline_step ob + 1)) + \<sigma> (ew_shortfall_soc v ! k)])"

definition ev_startup_row :: "ev_milp_vars \<Rightarrow> nat \<Rightarrow> lp_row" where
  "ev_startup_row v i = (\<lambda>\<sigma>. \<sigma> (ew_z_ev_on v ! (i + 1)) - \<sigma> (ew_z_ev_on v ! i) \<le> \<sigma> (ew_delta_ev v ! i))"

definition ev_ramp_rows :: "ev_milp_vars \<Rightarrow> nat \<Rightarrow> lp_row list" where
  "ev_ramp_rows v i =
     [\<lambda>\<sigma>. \<sigma> (ew_p_ev v ! (i + 1)) - \<sigma> (ew_p_ev v ! i) \<le> \<sigma> (ew_delta_ev_ramp v ! i),
      \<lambda>\<sigma>. \<sigma> (ew_p_ev v ! i) - \<sigma> (ew_p_ev v ! (i + 1)) \<le> \<sigma> (ew_delta_ev_ramp v ! i)]"

definition ev_budget_rows :: "ev_milp_context \<Rightarrow> ev_milp_vars \<Rightarrow> nat \<Rightarrow> f64 list \<Rightarrow> lp_row list" where
  "ev_budget_rows ctx v n dt_h =
     (case (xc_budget_eur ctx, xc_c_imp_eur_kwh ctx) of
        (Some budget, Some c_imp) \<Rightarrow>
          [\<lambda>\<sigma>. sum_expr (map (\<lambda>(t, dt) \<sigma>. c_imp ! t * dt * \<sigma> (ew_p_ev v ! t)) (slots (min n (length c_imp)) dt_h)) \<sigma> \<le> budget]
      | _ \<Rightarrow> [])"

definition ev_constraints :: "ev_milp_context \<Rightarrow> ev_milp_vars \<Rightarrow> nat \<Rightarrow> f64 list \<Rightarrow> lp_row list" where
  "ev_constraints ctx v n dt_h =
     (let runs = (xc_mode ctx \<noteq> EvMustNotRun) in
      (if runs then concat (map (ev_on_rows ctx v) [0..<n]) else []) @
      (case xc_p_free_cap_kw ctx of None \<Rightarrow> []
       | Some cap \<Rightarrow> map (\<lambda>(t, cap_kw) \<sigma>. \<sigma> (ew_p_ev v ! t) \<le> cap_kw) (slots n cap)) @
      ev_budget_rows ctx v n dt_h @
      (if runs then [\<lambda>\<sigma>. ev_energy_expr ctx v n dt_h \<sigma> =
         sum_expr (map (\<lambda>seg \<sigma>. \<sigma> seg) (ew_e_seg v)) \<sigma> + \<sigma> (ew_e_ev_extra v)] else []) @
      map (ev_soc_row ctx v) (slots n dt_h) @
      concat (map (ev_obligation_rows ctx v n) (enumerate 0 (xc_obligations ctx))) @
      map (ev_startup_row v) [0..<length (ew_delta_ev v)] @
      concat (map (ev_ramp_rows v) [0..<length (ew_delta_ev_ramp v)]))"

section \<open>Objective\<close>

definition ev_transition_terms :: "ev_milp_vars \<Rightarrow> f64 \<Rightarrow> f64 \<Rightarrow> nat \<Rightarrow> lp_expr list" where
  "ev_transition_terms v startup ramp t =
     (case nth_opt (ew_delta_ev v) (t - 1) of None \<Rightarrow> [] | Some d \<Rightarrow> [\<lambda>\<sigma>. startup * \<sigma> d]) @
     (case nth_opt (ew_delta_ev_ramp v) (t - 1) of None \<Rightarrow> [] | Some d \<Rightarrow> [\<lambda>\<sigma>. ramp * \<sigma> d])"

definition elapsed_h :: "f64 list \<Rightarrow> nat \<Rightarrow> f64" where
  "elapsed_h dt_h t = sum_list (take t dt_h)"

definition ev_slot_reward :: "ev_milp_context \<Rightarrow> ev_milp_vars \<Rightarrow> f64 \<Rightarrow> nat \<Rightarrow> f64 list \<Rightarrow> nat \<times> f64 \<Rightarrow> lp_expr" where
  "ev_slot_reward ctx v w_services n dt_h = (\<lambda>(t, dt) \<sigma>.
     let total_h = elapsed_h dt_h n;
         bias = (if xc_free_early_bias ctx \<and> 0 < total_h then 1 + (1 - elapsed_h dt_h t / total_h) else 1)
     in - (w_services * xc_v_extra_eur_kwh ctx * bias * dt) * \<sigma> (ew_p_ev v ! t))"

definition ev_lateness :: "ev_milp_context \<Rightarrow> ev_milp_vars \<Rightarrow> f64 list \<Rightarrow> nat \<times> f64 \<Rightarrow> lp_expr" where
  "ev_lateness ctx v dt_h = (\<lambda>(t, dt) \<sigma>.
     max (xc_asap_lateness_eur_kwh_h ctx) tie_break_lateness_eur_kwh_h * (elapsed_h dt_h t + dt / 2) * dt * \<sigma> (ew_p_ev v ! t))"

definition ev_terms :: "ev_milp_context \<Rightarrow> ev_milp_vars \<Rightarrow> f64 \<Rightarrow> f64 \<Rightarrow> f64 \<Rightarrow> nat \<Rightarrow> f64 list \<Rightarrow> lp_expr" where
  "ev_terms ctx v startup ramp w_services n dt_h =
     (let runs = (xc_mode ctx \<noteq> EvMustNotRun) in
      sum_expr (
        concat (map (ev_transition_terms v startup ramp) [1..<n]) @
        (if runs \<and> \<not> xc_reward_per_slot ctx
         then [\<lambda>\<sigma>. - (w_services * xc_v_extra_eur_kwh ctx) * \<sigma> (ew_e_ev_extra v),
               \<lambda>\<sigma>. - (w_services * xc_v_extra_co2_eur_kwh ctx) * \<sigma> (ew_e_ev_extra v)] else []) @
        (if runs then map (\<lambda>(seg, var) \<sigma>. - (w_services * eb_eur_per_kwh seg) * \<sigma> var) (zip (xc_segments ctx) (ew_e_seg v)) else []) @
        (if runs \<and> xc_reward_per_slot ctx then map (ev_slot_reward ctx v w_services n dt_h) (slots n dt_h) else []) @
        (if runs then map (ev_lateness ctx v dt_h) (slots n dt_h) else []) @
        map (\<lambda>u \<sigma>. drop_unmet_penalty_eur * \<sigma> u) (take n (ew_drop_unmet v)) @
        map (\<lambda>sf \<sigma>. shortfall_penalty_eur * \<sigma> sf) (ew_shortfall_soc v)))"

definition ev_objective :: "ev_milp_context \<Rightarrow> ev_milp_vars \<Rightarrow> objective_part \<Rightarrow> nat \<Rightarrow> f64 list \<Rightarrow> lp_expr" where
  "ev_objective ctx v part n dt_h =
     (case part of
        CostPart _ \<Rightarrow> ev_terms ctx v 0 0 1 n dt_h
      | FrictionPart \<Rightarrow> ev_terms ctx v (fc_startup_eur (xc_friction ctx)) (fc_ramp_eur_kw (xc_friction ctx)) 0 n dt_h)"

section \<open>Readback, warnings and warm start\<close>

definition ev_read_solution :: "assignment \<Rightarrow> ev_milp_vars \<Rightarrow> nat \<Rightarrow> ev_sol_output" where
  "ev_read_solution \<sigma> v n =
     \<lparr>eo_p_ev_kw = map (\<lambda>t. \<sigma> (ew_p_ev v ! t)) [0..<n], eo_soc_ev = map (\<lambda>t. \<sigma> (ew_soc_ev v ! t)) [0..<Suc n],
      eo_shortfall_kwh = map (\<lambda>sf. \<sigma> sf * ew_battery_kwh v) (ew_shortfall_soc v),
      eo_z_ev_on = map (\<lambda>t. \<sigma> (ew_z_ev_on v ! t)) [0..<n], eo_e_ev_extra_kwh = \<sigma> (ew_e_ev_extra v),
      eo_e_seg_kwh = sum_list (map \<sigma> (ew_e_seg v))\<rparr>"

text \<open>\<open>Iterator::max_by\<close>: of equal maxima the last.\<close>

definition worst_shortfall :: "f64 list \<Rightarrow> (nat \<times> f64) option" where
  "worst_shortfall shortfall =
     fold (\<lambda>(i, kwh) best. if kwh \<le> 1 / 1000 then best
           else case best of None \<Rightarrow> Some (i, kwh) | Some (_, most) \<Rightarrow> if kwh < most then best else Some (i, kwh))
       (enumerate 0 shortfall) None"

text \<open>The dash that Rust writes as three bytes.\<close>

definition em_dash :: string where "em_dash = map (char_of :: nat \<Rightarrow> char) [226, 128, 148]"

definition pct_from_frac :: "f64 \<Rightarrow> f64" where "pct_from_frac f = f * 100"

definition for_request :: "(uuid \<Rightarrow> string) \<Rightarrow> uuid option \<Rightarrow> string" where
  "for_request show_id session = (case session of None \<Rightarrow> [] | Some i \<Rightarrow> '' for request '' @ show_id i)"

definition targets_above_the_charge_limit ::
  "(nat \<Rightarrow> f64 \<Rightarrow> string) \<Rightarrow> (uuid \<Rightarrow> string) \<Rightarrow> ev_milp_context \<Rightarrow> plan_warning list" where
  "targets_above_the_charge_limit fixed show_id ctx =
     (let limit = soc_ceiling ctx; pct = (\<lambda>x. fixed 0 (pct_from_frac x)) in
      map (\<lambda>ob. \<lparr>pw_severity = PlainWarning, pw_kind = TargetAboveLimit,
          pw_message = ''EV target'' @ for_request show_id (ob_session_id ob) @ '' of '' @ pct (ob_target_soc_frac ob) @
            '' % is above the charge limit of '' @ pct limit @ '' % '' @ em_dash @ '' the plan charges to '' @ pct limit @ '' %'',
          pw_suggested_action = Some ''raise the charge limit or lower the target''\<rparr>)
        (filter (\<lambda>ob. limit + 1 / 10 ^ 9 < ob_target_soc_frac ob) (xc_obligations ctx)))"

definition firm_shortfall ::
  "(nat \<Rightarrow> f64 \<Rightarrow> string) \<Rightarrow> (uuid \<Rightarrow> string) \<Rightarrow> ev_milp_context \<Rightarrow> ev_sol_output \<Rightarrow> plan_warning option" where
  "firm_shortfall fixed show_id ctx sol =
     (case worst_shortfall (eo_shortfall_kwh sol) of None \<Rightarrow> None
      | Some (idx, short) \<Rightarrow>
          case nth_opt (xc_obligations ctx) idx of None \<Rightarrow> None
          | Some ob \<Rightarrow>
              let required = required_kwh ctx ob; delivered = max (required - short) 0 in
              Some \<lparr>pw_severity = PlainWarning, pw_kind = EvCoreEnergyUnmet,
                pw_message = ''EV charging'' @ for_request show_id (ob_session_id ob) @ '' falls '' @ fixed 1 short @
                  '' kWh short of its guaranteed '' @ fixed 1 required @ '' kWh before the deadline '' @ em_dash @
                  '' the plan delivers '' @ fixed 1 delivered @ '' kWh, which is all the available window allows'',
                pw_suggested_action = Some (''move the deadline later, lower the target, or check whether the car is predicted '' @
                  ''away for part of the window'')\<rparr>)"

definition ev_read ::
  "(nat \<Rightarrow> f64 \<Rightarrow> string) \<Rightarrow> (uuid \<Rightarrow> string) \<Rightarrow> ev_milp_context \<Rightarrow> ev_milp_vars \<Rightarrow> assignment \<Rightarrow> nat \<Rightarrow> asset_solution" where
  "ev_read fixed show_id ctx v \<sigma> n =
     (let sol = ev_read_solution \<sigma> v n in
      \<lparr>as_asset_id = xc_asset_id ctx, as_net_power_kw = eo_p_ev_kw sol,
       as_planned_state = map (\<lambda>t. ev_future_state_at (eo_soc_ev sol ! t) (nth_opt (xc_a_ev ctx) t = Some True))
         [0..<min n (length (eo_soc_ev sol))],
       as_storage = None, as_warnings = (case firm_shortfall fixed show_id ctx sol of None \<Rightarrow> [] | Some w \<Rightarrow> [w]),
       as_detail = EvDetail sol\<rparr>)"

definition ev_on_indicator :: "ev_milp_vars \<Rightarrow> on_indicator option" where
  "ev_on_indicator v = Some \<lparr>oi_z_on = ew_z_ev_on v, oi_p_min_kw = ew_p_min_kw v\<rparr>"

definition ev_solution_from_trace :: "ev_milp_context \<Rightarrow> f64 list \<Rightarrow> f64 hmap list \<Rightarrow> asset_solution" where
  "ev_solution_from_trace ctx net_kw states =
     (let soc = trace_values states ''soc'' (xc_soc_init_frac ctx); plugged = trace_values states ''plugged'' 0 in
      \<lparr>as_asset_id = xc_asset_id ctx, as_net_power_kw = net_kw,
       as_planned_state = map (\<lambda>t. ev_future_state_at (soc ! t) (1 / 2 < plugged ! t)) [0..<length net_kw],
       as_storage = None, as_warnings = [],
       as_detail = EvDetail \<lparr>eo_p_ev_kw = net_kw, eo_soc_ev = soc, eo_shortfall_kwh = [],
         eo_z_ev_on = map (\<lambda>kw. if 1 / 10 ^ 6 < kw then 1 else 0) net_kw, eo_e_ev_extra_kwh = 0, eo_e_seg_kwh = 0\<rparr>\<rparr>)"

definition ev_warm_start :: "ev_milp_vars \<Rightarrow> asset_solution \<Rightarrow> nat \<Rightarrow> (lp_var \<times> f64) list" where
  "ev_warm_start v own n =
     (let p1 = ev_own_readback own in
      concat (map (\<lambda>t. [(ew_p_ev v ! t, max (eo_p_ev_kw p1 ! t) 0), (ew_z_ev_on v ! t, eo_z_ev_on p1 ! t)]) [0..<n]) @
      map (\<lambda>i. (ew_delta_ev v ! i, max (eo_z_ev_on p1 ! (i + 1) - eo_z_ev_on p1 ! i) 0)) [0..<length (ew_delta_ev v)] @
      map (\<lambda>i. (ew_delta_ev_ramp v ! i, \<bar>eo_p_ev_kw p1 ! (i + 1) - eo_p_ev_kw p1 ! i\<bar>)) [0..<length (ew_delta_ev_ramp v)] @
      [(ew_e_ev_extra v, max (eo_e_ev_extra_kwh p1) 0)])"

definition ev_flexibility_window :: "ev_milp_context \<Rightarrow> instant \<Rightarrow> flexibility_window option" where
  "ev_flexibility_window ctx now =
     (case xc_session_departure ctx of None \<Rightarrow> None
      | Some window_end \<Rightarrow>
          let firm_kwh = firm_required_kwh ctx;
              needed = (if 0 < firm_kwh then firm_kwh else sum_list (map eb_kwh (xc_segments ctx)))
          in if 0 < needed
             then Some \<lparr>fw_energy_needed_kwh = needed, fw_power_min_kw = xc_p_min_kw ctx, fw_power_max_kw = xc_p_max_kw ctx,
               fw_window_start = now, fw_window_end = window_end\<rparr>
             else None)"

text \<open>The cheapest rate of no slot is infinite: a non-negative headroom times it is no amount within any budget.\<close>

definition ev_input_warnings ::
  "(nat \<Rightarrow> f64 \<Rightarrow> string) \<Rightarrow> (uuid \<Rightarrow> string) \<Rightarrow> ev_milp_context \<Rightarrow> f64 list \<Rightarrow> plan_warning list" where
  "ev_input_warnings fixed show_id ctx c_imp =
     targets_above_the_charge_limit fixed show_id ctx @
     (case xc_budget_eur ctx of None \<Rightarrow> []
      | Some budget \<Rightarrow>
          if (if c_imp = [] then xc_e_extra_max_kwh ctx < 0 else xc_e_extra_max_kwh ctx * fold min c_imp (hd c_imp) \<le> budget) then []
          else [\<lparr>pw_severity = PlainWarning, pw_kind = BudgetShortfall,
            pw_message = ''EV charging budget too low to reach the session target '' @ em_dash @
              '' charging stops at the budget (MAX_COST)'',
            pw_suggested_action = Some ''raise the budget or lower the target SoC''\<rparr>])"

definition ev_inject_grid_slots :: "f64 list \<Rightarrow> f64 list \<Rightarrow> ev_milp_context \<Rightarrow> ev_milp_context" where
  "ev_inject_grid_slots c_imp surplus ctx =
     (let ctx = (if xc_budget_eur ctx \<noteq> None then ctx\<lparr>xc_c_imp_eur_kwh := Some c_imp\<rparr> else ctx) in
      if \<not> xc_free_only ctx then ctx
      else ctx\<lparr>xc_p_free_cap_kw := Some (map (\<lambda>(c, s). if c \<le> 0 then xc_p_max_kw ctx else min (max s 0) (xc_p_max_kw ctx))
             (zip c_imp surplus))\<rparr>)"

section \<open>What a declaration promises\<close>

definition ev_flag_count :: "ev_milp_context \<Rightarrow> nat \<Rightarrow> f64 \<Rightarrow> f64 list option \<Rightarrow> nat" where
  "ev_flag_count ctx n price pinned_on = (if xc_mode ctx \<noteq> EvMustNotRun \<and> 1 < n \<and> 0 < price \<and> pinned_on = None then n - 1 else 0)"

definition ev_domains :: "ev_milp_context \<Rightarrow> nat \<Rightarrow> f64 \<Rightarrow> f64 \<Rightarrow> f64 list option \<Rightarrow> lp_domain list" where
  "ev_domains ctx n c_startup c_ramp pinned_on =
     replicate n (ev_power_domain ctx) @ map (soc_domain ctx) [0..<Suc n] @ map (\<lambda>t. between 0 (drop_frac_at ctx t)) [0..<n] @
     map (\<lambda>ob. between 0 (max (reachable_target_frac ctx ob) 0)) (xc_obligations ctx) @ map (on_domain ctx pinned_on) [0..<n] @
     seg_domains ctx @ [if xc_mode ctx \<noteq> EvMustNotRun then between 0 (xc_e_extra_max_kwh ctx) else between 0 0] @
     replicate (ev_flag_count ctx n c_startup pinned_on) binary @ replicate (ev_flag_count ctx n c_ramp pinned_on) (at_least 0)"

lemma ev_declare_eq:
  "ev_declare_vars ctx n c_startup c_ramp pinned_on vars =
    (let b = length vars; m = length (xc_obligations ctx); k = length (seg_domains ctx);
         fs = ev_flag_count ctx n c_startup pinned_on; fr = ev_flag_count ctx n c_ramp pinned_on;
         s = b + n; u = s + Suc n; h = u + n; z = h + m; e = z + n; x = e + k; d = Suc x; r = d + fs
     in (\<lparr>ew_p_ev = [b..<s], ew_soc_ev = [s..<u], ew_drop_unmet = [u..<h], ew_shortfall_soc = [h..<z], ew_z_ev_on = [z..<e],
       ew_e_seg = [e..<x], ew_e_ev_extra = x, ew_delta_ev = [d..<r], ew_delta_ev_ramp = [r..<r + fr],
       ew_p_min_kw = xc_p_min_kw ctx, ew_battery_kwh = xc_battery_kwh ctx\<rparr>,
      vars @ ev_domains ctx n c_startup c_ramp pinned_on))"
  by (simp add: ev_declare_vars_def ev_domains_def ev_flag_count_def add_vars_eq Let_def add.assoc del: upt_Suc)

lemma ev_block_bounds:
  assumes "ev_declare_vars ctx n c_startup c_ramp pinned_on vars = (v, vars')"
  shows "block_bounds (length vars) (drop (length vars) vars') \<sigma> \<longleftrightarrow>
    (\<forall>t < n. in_domain (ev_power_domain ctx) (\<sigma> (ew_p_ev v ! t))) \<and>
    (\<forall>t < Suc n. in_domain (soc_domain ctx t) (\<sigma> (ew_soc_ev v ! t))) \<and>
    (\<forall>t < n. in_domain (between 0 (drop_frac_at ctx t)) (\<sigma> (ew_drop_unmet v ! t))) \<and>
    (\<forall>k < length (xc_obligations ctx). in_domain (between 0 (max (reachable_target_frac ctx (xc_obligations ctx ! k)) 0))
      (\<sigma> (ew_shortfall_soc v ! k))) \<and>
    (\<forall>t < n. in_domain (on_domain ctx pinned_on t) (\<sigma> (ew_z_ev_on v ! t))) \<and>
    (\<forall>i < length (seg_domains ctx). in_domain (seg_domains ctx ! i) (\<sigma> (ew_e_seg v ! i))) \<and>
    in_domain (if xc_mode ctx \<noteq> EvMustNotRun then between 0 (xc_e_extra_max_kwh ctx) else between 0 0) (\<sigma> (ew_e_ev_extra v)) \<and>
    (\<forall>i < length (ew_delta_ev v). in_domain binary (\<sigma> (ew_delta_ev v ! i))) \<and>
    (\<forall>i < length (ew_delta_ev_ramp v). in_domain (at_least 0) (\<sigma> (ew_delta_ev_ramp v ! i)))"
proof -
  define b m k fs fr where "b = length vars" and "m = length (xc_obligations ctx)" and "k = length (seg_domains ctx)"
    and "fs = ev_flag_count ctx n c_startup pinned_on" and "fr = ev_flag_count ctx n c_ramp pinned_on"
  define s u h z e x d r where "s = b + n" and "u = s + Suc n" and "h = u + n" and "z = h + m" and "e = z + n" and "x = e + k"
    and "d = Suc x" and "r = d + fs"
  have v: "v = \<lparr>ew_p_ev = [b..<s], ew_soc_ev = [s..<u], ew_drop_unmet = [u..<h], ew_shortfall_soc = [h..<z], ew_z_ev_on = [z..<e],
       ew_e_seg = [e..<x], ew_e_ev_extra = x, ew_delta_ev = [d..<r], ew_delta_ev_ramp = [r..<r + fr],
       ew_p_min_kw = xc_p_min_kw ctx, ew_battery_kwh = xc_battery_kwh ctx\<rparr>"
      and vars': "vars' = vars @ ev_domains ctx n c_startup c_ramp pinned_on"
    using assms unfolding ev_declare_eq Let_def b_def m_def k_def fs_def fr_def s_def u_def h_def z_def e_def x_def d_def r_def
    by (metis prod.inject)+
  have drop: "drop b (vars @ ds) = ds" for ds by (simp add: b_def)
  have maps: "block_bounds i (map f xs) \<sigma> \<longleftrightarrow> (\<forall>j < length xs. in_domain (f (xs ! j)) (\<sigma> (i + j)))" for i and f :: "ev_obligation \<Rightarrow> lp_domain" and xs
    by (simp add: block_bounds_def)
  have segs: "block_bounds e (seg_domains ctx) \<sigma> \<longleftrightarrow> (\<forall>i < k. in_domain (seg_domains ctx ! i) (\<sigma> (e + i)))"
    by (simp add: block_bounds_def k_def)
  have at: "b + n = s" "s + Suc n = u" "u + n = h" "h + m = z" "z + n = e" "e + k = x" "Suc x = d" "d + fs = r"
    by (simp_all add: s_def u_def h_def z_def e_def x_def d_def r_def)
  have nths: "t < n \<Longrightarrow> [b..<s] ! t = b + t" "t < Suc n \<Longrightarrow> [s..<u] ! t = s + t" "t < n \<Longrightarrow> [u..<h] ! t = u + t"
      "t < m \<Longrightarrow> [h..<z] ! t = h + t" "t < n \<Longrightarrow> [z..<e] ! t = z + t" "t < k \<Longrightarrow> [e..<x] ! t = e + t"
      "t < fs \<Longrightarrow> [d..<r] ! t = d + t" "t < fr \<Longrightarrow> [r..<r + fr] ! t = r + t" "r - d = fs" for t
    by (simp_all add: s_def u_def h_def z_def e_def x_def r_def del: upt_Suc)
  show ?thesis
    unfolding b_def [symmetric] vars' drop ev_domains_def block_bounds_append append_Cons append_Nil block_bounds_Cons block_bounds_simps
      block_bounds_map maps length_replicate length_map length_upt minus_nat.diff_0 m_def [symmetric] k_def [symmetric]
      fs_def [symmetric] fr_def [symmetric] at segs v
    by (simp add: nths del: upt_Suc in_domain_simps in_binary)
qed

definition ev_solves ::
  "ev_milp_context \<Rightarrow> nat \<Rightarrow> f64 \<Rightarrow> f64 \<Rightarrow> f64 list option \<Rightarrow> f64 list \<Rightarrow> ev_milp_vars \<Rightarrow> assignment \<Rightarrow> bool" where
  "ev_solves ctx n c_startup c_ramp pinned_on dt_h v \<sigma> \<longleftrightarrow> (\<exists>vars vars' rest.
     ev_declare_vars ctx n c_startup c_ramp pinned_on vars = (v, vars') \<and> in_bounds (vars' @ rest) \<sigma>) \<and>
     satisfies (ev_constraints ctx v n dt_h) \<sigma>"

lemma ev_solved_bounds:
  assumes "ev_solves ctx n c_startup c_ramp pinned_on dt_h v \<sigma>"
  shows "ew_battery_kwh v = xc_battery_kwh ctx" "length (ew_shortfall_soc v) = length (xc_obligations ctx)"
    and "t < n \<Longrightarrow> in_domain (ev_power_domain ctx) (\<sigma> (ew_p_ev v ! t))"
    and "t \<le> n \<Longrightarrow> in_domain (soc_domain ctx t) (\<sigma> (ew_soc_ev v ! t))"
    and "t < n \<Longrightarrow> 0 \<le> \<sigma> (ew_drop_unmet v ! t) \<and> \<sigma> (ew_drop_unmet v ! t) \<le> drop_frac_at ctx t"
    and "t < n \<Longrightarrow> \<sigma> (ew_z_ev_on v ! t) = 0 \<or> \<sigma> (ew_z_ev_on v ! t) = 1"
proof -
  obtain vars vars' rest where d: "ev_declare_vars ctx n c_startup c_ramp pinned_on vars = (v, vars')" and i: "in_bounds (vars' @ rest) \<sigma>"
    using assms by (auto simp: ev_solves_def)
  have "\<exists>ds. vars' = vars @ ds" using d by (auto simp: ev_declare_eq Let_def simp del: upt_Suc)
  with i have "block_bounds (length vars) (drop (length vars) vars') \<sigma>" by (auto simp: in_bounds_append)
  note bounds = this [unfolded ev_block_bounds [OF d]]
  show "ew_battery_kwh v = xc_battery_kwh ctx" "length (ew_shortfall_soc v) = length (xc_obligations ctx)"
    using d by (auto simp: ev_declare_eq Let_def simp del: upt_Suc)
  show "t < n \<Longrightarrow> in_domain (ev_power_domain ctx) (\<sigma> (ew_p_ev v ! t))"
    and "t \<le> n \<Longrightarrow> in_domain (soc_domain ctx t) (\<sigma> (ew_soc_ev v ! t))"
    and "t < n \<Longrightarrow> 0 \<le> \<sigma> (ew_drop_unmet v ! t) \<and> \<sigma> (ew_drop_unmet v ! t) \<le> drop_frac_at ctx t"
    using bounds by auto
  have "in_domain (on_domain ctx pinned_on t) (\<sigma> (ew_z_ev_on v ! t))" if "t < n" using bounds that by blast
  then show "t < n \<Longrightarrow> \<sigma> (ew_z_ev_on v ! t) = 0 \<or> \<sigma> (ew_z_ev_on v ! t) = 1"
    using pinned_binary_cases by (auto simp: on_domain_def split: if_splits option.splits)
qed

lemma ev_rows:
  assumes "ev_solves ctx n c_startup c_ramp pinned_on dt_h v \<sigma>" "length dt_h = n"
  shows "xc_mode ctx \<noteq> EvMustNotRun \<Longrightarrow> t < n \<Longrightarrow> satisfies (ev_on_rows ctx v t) \<sigma>"
    and "t < n \<Longrightarrow> ev_soc_row ctx v (t, dt_h ! t) \<sigma>"
    and "k < length (xc_obligations ctx) \<Longrightarrow> satisfies (ev_obligation_rows ctx v n (k, xc_obligations ctx ! k)) \<sigma>"
proof -
  have rows: "satisfies (ev_constraints ctx v n dt_h) \<sigma>" using assms(1) by (simp add: ev_solves_def)
  show "xc_mode ctx \<noteq> EvMustNotRun \<Longrightarrow> t < n \<Longrightarrow> satisfies (ev_on_rows ctx v t) \<sigma>"
    using rows by (simp add: ev_constraints_def Let_def)
  show "t < n \<Longrightarrow> ev_soc_row ctx v (t, dt_h ! t) \<sigma>"
    using rows assms(2) by (simp add: ev_constraints_def Let_def all_slots)
  show "k < length (xc_obligations ctx) \<Longrightarrow> satisfies (ev_obligation_rows ctx v n (k, xc_obligations ctx ! k)) \<sigma>"
    using rows by (auto simp: ev_constraints_def Let_def in_set_enumerate_eq)
qed

section \<open>What an EV's plan promises\<close>

definition planned_soc :: "asset_solution \<Rightarrow> nat \<Rightarrow> f64 option" where
  "planned_soc plan t = hm_get (as_planned_state plan ! t) ''soc''"

lemma soc_book:
  assumes sol: "ev_solves ctx n c_startup c_ramp pinned_on dt_h v \<sigma>" and dt: "length dt_h = n"
  shows "t \<le> n \<Longrightarrow> \<sigma> (ew_soc_ev v ! t) = xc_soc_init_frac ctx +
    (\<Sum>i < t. energy_kwh (\<sigma> (ew_p_ev v ! i)) (dt_h ! i) / xc_battery_kwh ctx - (drop_frac_at ctx i - \<sigma> (ew_drop_unmet v ! i)))"
proof (induction t)
  case 0
  then show ?case using ev_solved_bounds(4) [OF sol, of 0] by (simp add: soc_domain_def)
next
  case (Suc t)
  have "ev_soc_row ctx v (t, dt_h ! t) \<sigma>" using ev_rows(2) [OF sol dt] Suc.prems by simp
  with Suc show ?case by (simp add: ev_soc_row_def energy_kwh_def algebra_simps)
qed

section \<open>A car that leaves in an hour\<close>

definition sample_values :: ev_cycle_values where
  "sample_values = \<lparr>yv_min_charge_kw = 14 / 10, yv_v_ev_extra_eur_kwh = 0, yv_v_ev_core_eur_kwh = 1, yv_asap_lateness_eur_kwh_h = 0,
     yv_v_ev_free_charge_eur_kwh = 0, yv_w_ghg_eur_kg = 0\<rparr>"

text \<open>Seven tenths full, promised three quarters, chargeable in the first of two half-hour slots only.\<close>

definition sample_ev_ctx :: ev_milp_context where
  "sample_ev_ctx = (ev_base_context ''ev'' (Some plugged_in) sample_ev 2 0 [] sample_values)
     \<lparr>xc_mode := EvMustRun, xc_soc_init_frac := 7 / 10, xc_a_ev := [True, False],
      xc_obligations := [\<lparr>ob_deadline_step = 1, ob_target_soc_frac = 3 / 4, ob_session_id = None\<rparr>],
      xc_segments := [\<lparr>eb_kwh = 6, eb_eur_per_kwh = 1\<rparr>]\<rparr>"

definition sample_ev_plan :: assignment where
  "sample_ev_plan = (\<lambda>i. [6, 0, 7 / 10, 3 / 4, 3 / 4, 0, 0, 0, 1, 0, 3, 0] ! i)"

lemma sample_ev_ctx_simps:
  "xc_mode sample_ev_ctx = EvMustRun" "xc_soc_init_frac sample_ev_ctx = 7 / 10" "xc_a_ev sample_ev_ctx = [True, False]"
    "xc_obligations sample_ev_ctx = [\<lparr>ob_deadline_step = 1, ob_target_soc_frac = 3 / 4, ob_session_id = None\<rparr>]"
    "xc_segments sample_ev_ctx = [\<lparr>eb_kwh = 6, eb_eur_per_kwh = 1\<rparr>]" "xc_battery_kwh sample_ev_ctx = 60" "xc_p_max_kw sample_ev_ctx = 6"
    "xc_p_min_kw sample_ev_ctx = 14 / 10" "xc_soc_max_frac sample_ev_ctx = 8 / 10" "xc_soc_drops sample_ev_ctx = None"
    "xc_p_free_cap_kw sample_ev_ctx = None" "xc_budget_eur sample_ev_ctx = None" "xc_e_extra_max_kwh sample_ev_ctx = 12"
  by (simp_all add: sample_ev_ctx_def ev_base_context_def sample_ev_def sample_values_def)

lemma sample_ev_solves:
  "ev_solves sample_ev_ctx 2 0 0 None [1 / 2, 1 / 2] (fst (ev_declare_vars sample_ev_ctx 2 0 0 None [])) sample_ev_plan"
proof -
  obtain v vars' where d: "ev_declare_vars sample_ev_ctx 2 0 0 None [] = (v, vars')" by (metis prod.exhaust)
  have drops: "drop_frac_at sample_ev_ctx t = 0" for t by (simp add: drop_frac_at_def sample_ev_ctx_simps)
  have ceiling: "soc_ceiling sample_ev_ctx = 8 / 10" "floor_frac sample_ev_ctx = 0"
    by (simp_all add: soc_ceiling_def floor_frac_def sample_ev_ctx_simps clamp_range_def)
  have segs: "seg_domains sample_ev_ctx = [between 0 6]"
    by (simp add: seg_domains_def firm_required_kwh_def required_kwh_def reachable_target_frac_def ceiling sample_ev_ctx_simps drops)
  have v: "ew_p_ev v = [0, 1]" "ew_soc_ev v = [2, 3, 4]" "ew_drop_unmet v = [5, 6]" "ew_shortfall_soc v = [7]" "ew_z_ev_on v = [8, 9]"
      "ew_e_seg v = [10]" "ew_e_ev_extra v = 11" "ew_delta_ev v = []" "ew_delta_ev_ramp v = []"
    using d by (auto simp: ev_declare_eq ev_flag_count_def segs sample_ev_ctx_simps numeral_eq_Suc Let_def)
  have vars': "vars' = ev_domains sample_ev_ctx 2 0 0 None" using d by (simp add: ev_declare_eq Let_def)
  have "in_bounds (vars' @ []) sample_ev_plan"
    by (simp add: vars' ev_domains_def ev_power_domain_def soc_domain_def on_domain_def reachable_target_frac_def ev_flag_count_def ceiling segs drops
        sample_ev_ctx_simps in_bounds_def sample_ev_plan_def numeral_eq_Suc)
  moreover have "satisfies (ev_constraints sample_ev_ctx v 2 [1 / 2, 1 / 2]) sample_ev_plan"
    by (simp add: ev_constraints_def Let_def ev_on_rows_def ev_budget_rows_def ev_energy_expr_def band_accounting_last_step_def ev_soc_row_def
        ev_obligation_rows_def reachable_target_frac_def slots_eq v sample_ev_plan_def ceiling drops sample_ev_ctx_simps numeral_eq_Suc)
  ultimately show ?thesis unfolding ev_solves_def using d by (metis fst_conv)
qed

text \<open>
  C17. An EV's plan is one the charger and the car can follow: in every slot it draws nothing or between the least and
  the greatest charging power, and only where the car is available; its state of charge is the live one plus what was
  charged less what the trips took, never above the charge limit unless the car already is and never below the floor.
\<close>

theorem planned_ev_follows:
  fixes fixed :: "nat \<Rightarrow> f64 \<Rightarrow> string" and show_id :: "uuid \<Rightarrow> string"
  assumes sol: "ev_solves ctx n c_startup c_ramp pinned_on dt_h v \<sigma>" and n: "length dt_h = n" "length (xc_a_ev ctx) = n"
    and soc: "0 \<le> xc_soc_init_frac ctx" "xc_soc_init_frac ctx \<le> 1"
  defines "plan \<equiv> ev_read fixed show_id ctx v \<sigma> n"
  shows "\<exists>taken soc. (\<forall>t < n.
      (as_net_power_kw plan ! t = 0 \<or>
        xc_p_min_kw ctx \<le> as_net_power_kw plan ! t \<and> as_net_power_kw plan ! t \<le> xc_p_max_kw ctx \<and>
        xc_a_ev ctx ! t \<and> xc_mode ctx \<noteq> EvMustNotRun) \<and>
      0 \<le> taken t \<and> taken t \<le> drop_frac_at ctx t \<and>
      soc (Suc t) = soc t + energy_kwh (as_net_power_kw plan ! t) (dt_h ! t) / xc_battery_kwh ctx - taken t \<and>
      planned_soc plan t = Some (soc t)) \<and>
    soc 0 = xc_soc_init_frac ctx \<and>
    (\<forall>t \<le> n. min (floor_frac ctx) (xc_soc_init_frac ctx) \<le> soc t \<and> soc t \<le> soc_ceiling ctx)"
proof (intro exI conjI allI impI)
  let ?taken = "\<lambda>t. drop_frac_at ctx t - \<sigma> (ew_drop_unmet v ! t)" and ?soc = "\<lambda>t. \<sigma> (ew_soc_ev v ! t)"
  have bounds: "min (floor_frac ctx) (xc_soc_init_frac ctx) \<le> ?soc t \<and> ?soc t \<le> soc_ceiling ctx" if "t \<le> n" for t
    using ev_solved_bounds(4) [OF sol that] by (auto simp: soc_domain_def soc_ceiling_def split: if_splits)
  then show "\<And>t. t \<le> n \<Longrightarrow> min (floor_frac ctx) (xc_soc_init_frac ctx) \<le> ?soc t" "\<And>t. t \<le> n \<Longrightarrow> ?soc t \<le> soc_ceiling ctx" by blast+
  show "?soc 0 = xc_soc_init_frac ctx" using soc_book [OF sol n(1), of 0] by simp
  fix t assume t: "t < n"
  have net: "as_net_power_kw plan ! t = \<sigma> (ew_p_ev v ! t)"
    using t by (simp add: plan_def ev_read_def ev_read_solution_def Let_def)
  show "as_net_power_kw plan ! t = 0 \<or> xc_p_min_kw ctx \<le> as_net_power_kw plan ! t \<and> as_net_power_kw plan ! t \<le> xc_p_max_kw ctx \<and>
      xc_a_ev ctx ! t \<and> xc_mode ctx \<noteq> EvMustNotRun"
  proof (cases "xc_mode ctx = EvMustNotRun")
    case True
    then show ?thesis using ev_solved_bounds(3) [OF sol t] net by (simp add: ev_power_domain_def)
  next
    case False
    then have "0 \<le> \<sigma> (ew_p_ev v ! t)" using ev_solved_bounds(3) [OF sol t] by (simp add: ev_power_domain_def)
    with ev_rows(1) [OF sol n(1) False t] ev_solved_bounds(6) [OF sol t] False net show ?thesis
      by (auto simp: ev_on_rows_def split: if_splits)
  qed
  show "0 \<le> ?taken t" "?taken t \<le> drop_frac_at ctx t" using ev_solved_bounds(5) [OF sol t] by simp_all
  show "?soc (Suc t) = ?soc t + energy_kwh (as_net_power_kw plan ! t) (dt_h ! t) / xc_battery_kwh ctx - ?taken t"
    using ev_rows(2) [OF sol n(1) t] net by (simp add: ev_soc_row_def energy_kwh_def)
  have "0 \<le> ?soc t \<and> ?soc t \<le> 1"
    using bounds [of t] soc t by (auto simp: floor_frac_def soc_ceiling_def clamp_range_def)
  then have "clamp_range 0 1 (?soc t) = ?soc t" by (simp add: clamp_range_def)
  then show "planned_soc plan t = Some (?soc t)"
    using t by (simp add: planned_soc_def plan_def ev_read_def ev_read_solution_def ev_future_state_at_def Let_def del: upt_Suc)
qed

lemma planned_ev_follows_witness:
  "\<exists>soc :: nat \<Rightarrow> f64. soc 0 = 7 / 10 \<and> soc 1 \<le> 8 / 10 \<and>
    planned_soc (ev_read (\<lambda>_ _. []) (\<lambda>_. []) sample_ev_ctx (fst (ev_declare_vars sample_ev_ctx 2 0 0 None [])) sample_ev_plan 2) 1 = Some (soc 1)"
proof -
  have "0 \<le> xc_soc_init_frac sample_ev_ctx" "xc_soc_init_frac sample_ev_ctx \<le> 1" "length (xc_a_ev sample_ev_ctx) = 2"
    by (simp_all add: sample_ev_ctx_simps)
  then obtain taken soc where "\<forall>t < 2. planned_soc (ev_read (\<lambda>_ _. []) (\<lambda>_. []) sample_ev_ctx
        (fst (ev_declare_vars sample_ev_ctx 2 0 0 None [])) sample_ev_plan 2) t = Some (soc t)"
      "soc 0 = xc_soc_init_frac sample_ev_ctx" "\<forall>t \<le> 2. soc t \<le> soc_ceiling sample_ev_ctx"
    using planned_ev_follows [OF sample_ev_solves, of "\<lambda>_ _. []" "\<lambda>_. []"] by auto
  moreover have "soc_ceiling sample_ev_ctx = 8 / 10" by (simp add: soc_ceiling_def sample_ev_ctx_simps clamp_range_def)
  ultimately show ?thesis by (intro exI [of _ soc]) (simp add: sample_ev_ctx_simps)
qed

section \<open>Obligations\<close>

lemma worst_fold:
  fixes f :: "nat \<times> f64 \<Rightarrow> (nat \<times> f64) option \<Rightarrow> (nat \<times> f64) option"
  defines "f \<equiv> \<lambda>(i, kwh) best. if kwh \<le> 1 / 1000 then best
    else case best of None \<Rightarrow> Some (i, kwh) | Some (_, most) \<Rightarrow> if kwh < most then best else Some (i, kwh)"
  shows "(fold f (enumerate k xs) b = None \<longleftrightarrow> b = None \<and> (\<forall>x \<in> set xs. x \<le> 1 / 1000)) \<and>
    (\<forall>i y. fold f (enumerate k xs) b = Some (i, y) \<longrightarrow> b = Some (i, y) \<or> k \<le> i \<and> i < k + length xs)"
proof (induction xs arbitrary: k b)
  case (Cons x xs)
  have "f (k, x) b = None \<longleftrightarrow> b = None \<and> x \<le> 1 / 1000" "f (k, x) b = Some (i, y) \<Longrightarrow> b = Some (i, y) \<or> i = k" for i y
    by (auto simp: f_def split: option.splits if_splits)
  with Cons [of "Suc k" "f (k, x) b"] show ?case by fastforce
qed simp

lemma worst_shortfall_none: "worst_shortfall xs = None \<longleftrightarrow> (\<forall>x \<in> set xs. x \<le> 1 / 1000)"
  and worst_shortfall_some: "worst_shortfall xs = Some (i, y) \<Longrightarrow> i < length xs"
  using worst_fold [of 0 xs None] by (simp_all add: worst_shortfall_def)

text \<open>
  C18. What an EV is firmly promised is planned, or the plan says it is not: a plan without a warning holds every
  obligation's target, as far as the charge limit allows and up to the reporting tolerance, when its deadline slot ends.
\<close>

theorem ev_obligation_planned_or_warned:
  fixes fixed :: "nat \<Rightarrow> f64 \<Rightarrow> string" and show_id :: "uuid \<Rightarrow> string"
  assumes sol: "ev_solves ctx n c_startup c_ramp pinned_on dt_h v \<sigma>" and n: "length dt_h = n" and battery: "0 < xc_battery_kwh ctx"
    and mode: "xc_mode ctx \<noteq> EvMustNotRun" and ob: "ob \<in> set (xc_obligations ctx)" "1 / 10 ^ 9 < ob_target_soc_frac ob"
    and deadline: "ob_deadline_step ob < n" and quiet: "as_warnings (ev_read fixed show_id ctx v \<sigma> n) = []"
  shows "\<exists>out. as_detail (ev_read fixed show_id ctx v \<sigma> n) = EvDetail out \<and>
    min (ob_target_soc_frac ob) (soc_ceiling ctx) - (1 / 1000) / xc_battery_kwh ctx \<le> eo_soc_ev out ! Suc (ob_deadline_step ob)"
proof (intro exI conjI)
  let ?out = "ev_read_solution \<sigma> v n"
  show "as_detail (ev_read fixed show_id ctx v \<sigma> n) = EvDetail ?out" by (simp add: ev_read_def Let_def)
  obtain k where k: "k < length (xc_obligations ctx)" "xc_obligations ctx ! k = ob" using ob(1) by (auto simp: in_set_conv_nth)
  have "worst_shortfall (eo_shortfall_kwh ?out) = None"
  proof (rule ccontr)
    assume "worst_shortfall (eo_shortfall_kwh ?out) \<noteq> None"
    then obtain i y where w: "worst_shortfall (eo_shortfall_kwh ?out) = Some (i, y)" by auto
    from worst_shortfall_some [OF this] have "i < length (xc_obligations ctx)"
      using ev_solved_bounds(2) [OF sol] by (simp add: ev_read_solution_def)
    with w quiet show False by (simp add: ev_read_def firm_shortfall_def Let_def)
  qed
  then have "\<sigma> (ew_shortfall_soc v ! k) * xc_battery_kwh ctx \<le> 1 / 1000"
    using k(1) ev_solved_bounds(1,2) [OF sol] by (auto simp: worst_shortfall_none ev_read_solution_def)
  then have "\<sigma> (ew_shortfall_soc v ! k) \<le> (1 / 1000) / xc_battery_kwh ctx" using battery by (simp add: pos_le_divide_eq)
  moreover have "reachable_target_frac ctx ob \<le> \<sigma> (ew_soc_ev v ! Suc (ob_deadline_step ob)) + \<sigma> (ew_shortfall_soc v ! k)"
    using ev_rows(3) [OF sol n k(1)] mode ob(2) deadline k(2) by (simp add: ev_obligation_rows_def)
  moreover have "eo_soc_ev ?out ! Suc (ob_deadline_step ob) = \<sigma> (ew_soc_ev v ! Suc (ob_deadline_step ob))"
    using deadline by (simp add: ev_read_solution_def del: upt_Suc)
  ultimately show "min (ob_target_soc_frac ob) (soc_ceiling ctx) - (1 / 1000) / xc_battery_kwh ctx \<le> eo_soc_ev ?out ! Suc (ob_deadline_step ob)"
    by (simp add: reachable_target_frac_def)
qed

lemma ev_obligation_planned_or_warned_witness:
  "\<exists>out. as_detail (ev_read (\<lambda>_ _. []) (\<lambda>_. []) sample_ev_ctx (fst (ev_declare_vars sample_ev_ctx 2 0 0 None [])) sample_ev_plan 2) = EvDetail out \<and>
    3 / 4 - 1 / 60000 \<le> eo_soc_ev out ! 2"
proof -
  let ?ob = "\<lparr>ob_deadline_step = 1, ob_target_soc_frac = 3 / 4, ob_session_id = None\<rparr>"
  have "ew_shortfall_soc (fst (ev_declare_vars sample_ev_ctx 2 0 0 None [])) = [7]"
    by (simp add: ev_declare_eq sample_ev_ctx_simps numeral_eq_Suc Let_def)
  then have "as_warnings (ev_read (\<lambda>_ _. []) (\<lambda>_. []) sample_ev_ctx (fst (ev_declare_vars sample_ev_ctx 2 0 0 None [])) sample_ev_plan 2) = []"
    by (simp add: ev_read_def ev_read_solution_def firm_shortfall_def worst_shortfall_def Let_def sample_ev_plan_def)
  moreover have "soc_ceiling sample_ev_ctx = 8 / 10" by (simp add: soc_ceiling_def sample_ev_ctx_simps clamp_range_def)
  moreover have "?ob \<in> set (xc_obligations sample_ev_ctx)" by (simp add: sample_ev_ctx_simps)
  ultimately show ?thesis
    using ev_obligation_planned_or_warned [OF sample_ev_solves, of ?ob "\<lambda>_ _. []" "\<lambda>_. []"] by (simp add: sample_ev_ctx_simps numeral_2_eq_2)
qed

section \<open>The EV's part always has a solution\<close>

primrec idle_soc :: "ev_milp_context \<Rightarrow> nat \<Rightarrow> f64" where
  "idle_soc ctx 0 = xc_soc_init_frac ctx"
| "idle_soc ctx (Suc t) = max (idle_soc ctx t - drop_frac_at ctx t) (floor_frac ctx)"

lemma idle_soc_bounds:
  assumes "0 \<le> xc_soc_init_frac ctx"
  shows "floor_frac ctx \<le> idle_soc ctx t \<and> idle_soc ctx t \<le> xc_soc_init_frac ctx"
proof (induction t)
  case (Suc t)
  moreover have "0 \<le> drop_frac_at ctx t" by (simp add: drop_frac_at_def)
  moreover have "floor_frac ctx \<le> xc_soc_init_frac ctx" using assms by (simp add: floor_frac_def)
  ultimately show ?case by auto
qed (use assms in \<open>simp add: floor_frac_def\<close>)

text \<open>The plan that never charges: trips take what they take, and what is missing at a deadline is reported.\<close>

definition idle_plan :: "ev_milp_context \<Rightarrow> nat \<Rightarrow> assignment" where
  "idle_plan ctx n = (\<lambda>i. let s = n; u = s + Suc n; h = u + n; z = h + length (xc_obligations ctx) in
     if i < s then 0 else if i < u then idle_soc ctx (i - s)
     else if i < h then idle_soc ctx (Suc (i - u)) - idle_soc ctx (i - u) + drop_frac_at ctx (i - u)
     else if i < z then max (reachable_target_frac ctx (xc_obligations ctx ! (i - h))) 0 else 0)"

lemma ev_handles:
  assumes "ev_declare_vars ctx n c_startup c_ramp pinned_on [] = (v, vars')"
  defines "m \<equiv> length (xc_obligations ctx)" and "k \<equiv> length (seg_domains ctx)" and "fs \<equiv> ev_flag_count ctx n c_startup pinned_on"
  shows "t < n \<Longrightarrow> ew_p_ev v ! t = t" "t \<le> n \<Longrightarrow> ew_soc_ev v ! t = n + t" "t < n \<Longrightarrow> ew_drop_unmet v ! t = n + Suc n + t"
    "t < m \<Longrightarrow> ew_shortfall_soc v ! t = n + Suc n + n + t" "t < n \<Longrightarrow> ew_z_ev_on v ! t = n + Suc n + n + m + t"
    "length (ew_e_seg v) = k" "t < k \<Longrightarrow> ew_e_seg v ! t = n + Suc n + n + m + n + t" "ew_e_ev_extra v = n + Suc n + n + m + n + k"
    "length (ew_delta_ev v) = fs" "t < fs \<Longrightarrow> ew_delta_ev v ! t = Suc (n + Suc n + n + m + n + k) + t"
    "length (ew_delta_ev_ramp v) = ev_flag_count ctx n c_ramp pinned_on"
    "t < ev_flag_count ctx n c_ramp pinned_on \<Longrightarrow> ew_delta_ev_ramp v ! t = Suc (n + Suc n + n + m + n + k) + fs + t"
proof -
  define s u h z e x d r where "s = n" and "u = s + Suc n" and "h = u + n" and "z = h + m" and "e = z + n" and "x = e + k"
    and "d = Suc x" and "r = d + fs"
  note defs = s_def u_def h_def z_def e_def x_def d_def r_def
  have v: "v = \<lparr>ew_p_ev = [0..<s], ew_soc_ev = [s..<u], ew_drop_unmet = [u..<h], ew_shortfall_soc = [h..<z], ew_z_ev_on = [z..<e],
       ew_e_seg = [e..<x], ew_e_ev_extra = x, ew_delta_ev = [d..<r], ew_delta_ev_ramp = [r..<r + ev_flag_count ctx n c_ramp pinned_on],
       ew_p_min_kw = xc_p_min_kw ctx, ew_battery_kwh = xc_battery_kwh ctx\<rparr>"
    using assms(1) unfolding ev_declare_eq Let_def list.size add_0 defs m_def k_def fs_def by (metis prod.inject)
  show "t < n \<Longrightarrow> ew_p_ev v ! t = t" "t \<le> n \<Longrightarrow> ew_soc_ev v ! t = n + t" "t < n \<Longrightarrow> ew_drop_unmet v ! t = n + Suc n + t"
    "t < m \<Longrightarrow> ew_shortfall_soc v ! t = n + Suc n + n + t" "t < n \<Longrightarrow> ew_z_ev_on v ! t = n + Suc n + n + m + t"
    "length (ew_e_seg v) = k" "t < k \<Longrightarrow> ew_e_seg v ! t = n + Suc n + n + m + n + t" "ew_e_ev_extra v = n + Suc n + n + m + n + k"
    "length (ew_delta_ev v) = fs" "t < fs \<Longrightarrow> ew_delta_ev v ! t = Suc (n + Suc n + n + m + n + k) + t"
    "length (ew_delta_ev_ramp v) = ev_flag_count ctx n c_ramp pinned_on"
    "t < ev_flag_count ctx n c_ramp pinned_on \<Longrightarrow> ew_delta_ev_ramp v ! t = Suc (n + Suc n + n + m + n + k) + fs + t"
    by (simp_all add: v defs del: upt_Suc)
qed

lemma idle_plan_values:
  assumes "ev_declare_vars ctx n c_startup c_ramp pinned_on [] = (v, vars')"
  shows "t < n \<Longrightarrow> idle_plan ctx n (ew_p_ev v ! t) = 0" "t \<le> n \<Longrightarrow> idle_plan ctx n (ew_soc_ev v ! t) = idle_soc ctx t"
    "t < n \<Longrightarrow> idle_plan ctx n (ew_drop_unmet v ! t) = idle_soc ctx (Suc t) - idle_soc ctx t + drop_frac_at ctx t"
    "t < length (xc_obligations ctx) \<Longrightarrow>
      idle_plan ctx n (ew_shortfall_soc v ! t) = max (reachable_target_frac ctx (xc_obligations ctx ! t)) 0"
    "t < n \<Longrightarrow> idle_plan ctx n (ew_z_ev_on v ! t) = 0" "t < length (ew_e_seg v) \<Longrightarrow> idle_plan ctx n (ew_e_seg v ! t) = 0"
    "idle_plan ctx n (ew_e_ev_extra v) = 0" "t < length (ew_delta_ev v) \<Longrightarrow> idle_plan ctx n (ew_delta_ev v ! t) = 0"
    "t < length (ew_delta_ev_ramp v) \<Longrightarrow> idle_plan ctx n (ew_delta_ev_ramp v ! t) = 0"
  by (simp_all add: ev_handles [OF assms] idle_plan_def Let_def del: idle_soc.simps)

lemma sum_zero_exprs: "(\<And>e. e \<in> set es \<Longrightarrow> e \<sigma> = 0) \<Longrightarrow> sum_expr es \<sigma> = 0"
  by (induction es) simp_all

lemma idle_plan_rows:
  assumes soc: "0 \<le> xc_soc_init_frac ctx" and budget: "\<forall>b. xc_budget_eur ctx = Some b \<longrightarrow> 0 \<le> b"
    and caps: "\<forall>cap. xc_p_free_cap_kw ctx = Some cap \<longrightarrow> (\<forall>kw \<in> set cap. 0 \<le> kw)"
    and d: "ev_declare_vars ctx n c_startup c_ramp pinned_on [] = (v, vars')"
  shows "satisfies (ev_constraints ctx v n dt_h) (idle_plan ctx n)"
proof -
  define \<sigma> where "\<sigma> = idle_plan ctx n"
  note vals = idle_plan_values [OF d, folded \<sigma>_def]
  have flags: "length (ew_delta_ev v) \<le> n - 1" "length (ew_delta_ev_ramp v) \<le> n - 1"
    using ev_handles(9,11) [OF d] by (simp_all add: ev_flag_count_def)
  have on: "satisfies (ev_on_rows ctx v t) \<sigma>" if "t < n" for t using vals(1,5) [OF that] by (simp add: ev_on_rows_def)
  have energy: "ev_energy_expr ctx v n dt_h \<sigma> = 0"
    unfolding ev_energy_expr_def by (rule sum_zero_exprs) (auto simp: slots_iff vals(1))
  have bought: "sum_expr (map (\<lambda>seg \<sigma>. \<sigma> seg) (ew_e_seg v)) \<sigma> = 0"
    by (rule sum_zero_exprs) (auto simp: in_set_conv_nth vals(6))
  have "sum_expr (map (\<lambda>(t, dt) \<sigma>. c_imp ! t * dt * \<sigma> (ew_p_ev v ! t)) (slots (min n (length c_imp)) dt_h)) \<sigma> = 0" for c_imp
    by (rule sum_zero_exprs) (auto simp: slots_iff vals(1))
  then have money: "satisfies (ev_budget_rows ctx v n dt_h) \<sigma>" using budget by (simp add: ev_budget_rows_def split: option.split)
  have free: "satisfies (case xc_p_free_cap_kw ctx of None \<Rightarrow> []
      | Some cap \<Rightarrow> map (\<lambda>(t, cap_kw) \<sigma>. \<sigma> (ew_p_ev v ! t) \<le> cap_kw) (slots n cap)) \<sigma>"
    using caps by (auto simp: slots_iff vals(1) split: option.split)
  have soc_row: "ev_soc_row ctx v (t, dt) \<sigma>" if "t < n" for t dt using that vals(1,3) [OF that] vals(2) [of t] vals(2) [of "Suc t"]
    by (simp add: ev_soc_row_def)
  have "0 \<le> floor_frac ctx" by (simp add: floor_frac_def)
  then have "0 \<le> idle_soc ctx t" for t using idle_soc_bounds [OF soc, of t] by linarith
  then have obligation: "satisfies (ev_obligation_rows ctx v n (k, xc_obligations ctx ! k)) \<sigma>" if "k < length (xc_obligations ctx)" for k
    using vals(4) [OF that] vals(2) by (simp add: ev_obligation_rows_def add.commute add_increasing max_def del: idle_soc.simps)
  show ?thesis
    unfolding \<sigma>_def [symmetric] ev_constraints_def Let_def satisfies_simps satisfies_if
    using on energy bought money free soc_row obligation vals(5,7,8) vals(1,9) flags
    by (auto simp: slots_iff in_set_enumerate_eq ev_startup_row_def ev_ramp_rows_def)
qed

lemma idle_plan_solves:
  assumes soc: "0 \<le> xc_soc_init_frac ctx" and power: "0 \<le> xc_p_max_kw ctx" "0 \<le> xc_e_extra_max_kwh ctx"
    and segs: "\<forall>b \<in> set (xc_segments ctx). 0 \<le> eb_kwh b" and budget: "\<forall>b. xc_budget_eur ctx = Some b \<longrightarrow> 0 \<le> b"
    and caps: "\<forall>cap. xc_p_free_cap_kw ctx = Some cap \<longrightarrow> (\<forall>kw \<in> set cap. 0 \<le> kw)"
    and d: "ev_declare_vars ctx n c_startup c_ramp None [] = (v, vars')"
  shows "ev_solves ctx n c_startup c_ramp None dt_h v (idle_plan ctx n)"
proof -
  define \<sigma> where "\<sigma> = idle_plan ctx n"
  note vals = idle_plan_values [OF d, folded \<sigma>_def]
  note idle = idle_soc_bounds [OF soc]
  have drop: "0 \<le> drop_frac_at ctx t" for t by (simp add: drop_frac_at_def)
  have ceiling: "idle_soc ctx t \<le> soc_ceiling ctx" for t using idle [of t] by (simp add: soc_ceiling_def le_max_iff_disj)
  have seg: "in_domain (seg_domains ctx ! i) 0" if "i < length (seg_domains ctx)" for i
    using segs nth_mem [OF that] by (auto simp: seg_domains_def Let_def split: if_splits)
  have "block_bounds (length ([] :: lp_domain list)) (drop (length ([] :: lp_domain list)) vars') \<sigma>"
    unfolding ev_block_bounds [OF d]
  proof (intro conjI allI impI)
    fix t
    show "in_domain (ev_power_domain ctx) (\<sigma> (ew_p_ev v ! t))" if "t < n" using vals(1) [OF that] power by (simp add: ev_power_domain_def)
    show "in_domain (soc_domain ctx t) (\<sigma> (ew_soc_ev v ! t))" if "t < Suc n"
      using vals(2) [of t] that idle [of t] ceiling [of t] by (cases t) (simp_all add: soc_domain_def)
    show "in_domain (between 0 (drop_frac_at ctx t)) (\<sigma> (ew_drop_unmet v ! t))" if "t < n"
      using vals(3) [OF that] idle [of t] drop [of t] by simp
    show "in_domain (between 0 (max (reachable_target_frac ctx (xc_obligations ctx ! t)) 0)) (\<sigma> (ew_shortfall_soc v ! t))"
      if "t < length (xc_obligations ctx)" using vals(4) [OF that] by simp
    show "in_domain (on_domain ctx None t) (\<sigma> (ew_z_ev_on v ! t))" if "t < n" using vals(5) [OF that] by (simp add: on_domain_def)
    show "in_domain (seg_domains ctx ! t) (\<sigma> (ew_e_seg v ! t))" if "t < length (seg_domains ctx)"
      using vals(6) [of t] that seg ev_handles(6) [OF d] by simp
    show "in_domain binary (\<sigma> (ew_delta_ev v ! t))" if "t < length (ew_delta_ev v)" using vals(8) [OF that] by simp
    show "in_domain (at_least 0) (\<sigma> (ew_delta_ev_ramp v ! t))" if "t < length (ew_delta_ev_ramp v)" using vals(9) [OF that] by simp
  qed (use vals(7) power in simp)
  then have "in_bounds (vars' @ []) \<sigma>" by (simp add: in_bounds_block)
  moreover have "satisfies (ev_constraints ctx v n dt_h) \<sigma>"
    using idle_plan_rows [OF soc budget caps d] by (simp add: \<sigma>_def)
  ultimately show ?thesis unfolding ev_solves_def \<sigma>_def [symmetric] using d by blast
qed

lemma push_bands_nonneg: "\<forall>b \<in> set bs \<union> set acc. 0 \<le> eb_kwh b \<Longrightarrow> b \<in> set (fold push_band bs acc) \<Longrightarrow> 0 \<le> eb_kwh b"
proof (induction bs arbitrary: acc)
  case (Cons c bs)
  have "\<forall>x \<in> set (push_band c acc). 0 \<le> eb_kwh x"
    using Cons.prems(1) by (auto simp: push_band_def dest: in_set_butlastD)
  with Cons.prems have "\<forall>b \<in> set bs \<union> set (push_band c acc). 0 \<le> eb_kwh b" by auto
  from Cons.IH [OF this] Cons.prems(2) show ?case by simp
qed simp

lemma segments_nonneg: "b \<in> set (ev_energy_segments rates rng battery v_core v_extra w) \<Longrightarrow> 0 \<le> eb_kwh b"
proof -
  assume b: "b \<in> set (ev_energy_segments rates rng battery v_core v_extra w)"
  have "0 \<le> eb_kwh x" if "band_of battery p r = Some x" for x p r
    using that by (auto simp: band_of_def Let_def split: prod.splits if_splits)
  then have "\<forall>x \<in> set (List.map_filter (band_of battery p) rs) \<union> set []. 0 \<le> eb_kwh x" for p rs by (auto simp: map_filter_def)
  from push_bands_nonneg [OF this] b show ?thesis by (auto simp: ev_energy_segments_def Let_def split: if_splits)
qed



end
