(* ===== verification/Milp_Assets.thy ===== *)
theory Milp_Assets
  imports Battery_Milp Shiftable_Milp Heater_Milp Ev_Milp Arbiter_Levers
begin

text \<open>
  \<open>VEN/src/controller/milp_planner/asset_port.rs\<close>: what every asset offers the planner's solves. The trait objects
  of the code are two sum types, of the contexts and of the declared assets; each operation is the asset's own, from
  its theory. The two locales are the contracts the site's model relies on, interpreted here on the sum types.
\<close>

section \<open>Any asset\<close>

datatype asset_milp_context =
    BatteryCtx battery_milp_context | EvCtx ev_milp_context | HeaterCtx heater_milp_context
  | ShiftableCtx string shiftable_milp_context | ForecastCtx forecast_milp_context

datatype declared_asset =
    DeclaredBattery battery_milp_context battery_milp_vars | DeclaredEv ev_milp_context ev_milp_vars
  | DeclaredHeater heater_milp_context heater_milp_vars | DeclaredShiftable string shiftable_milp_context "lp_var list"
  | DeclaredForecast forecast_milp_context "lp_var list"

fun ctx_asset_id :: "asset_milp_context \<Rightarrow> string" where
  "ctx_asset_id (BatteryCtx c) = bm_asset_id c"
| "ctx_asset_id (EvCtx c) = xc_asset_id c"
| "ctx_asset_id (HeaterCtx c) = hc_asset_id c"
| "ctx_asset_id (ShiftableCtx i c) = i"
| "ctx_asset_id (ForecastCtx c) = fm_asset_id c"

fun ctx_participation :: "asset_milp_context \<Rightarrow> participation" where
  "ctx_participation (ForecastCtx c) = forecast_participation c"
| "ctx_participation c = Dispatched"

fun ctx_declare :: "asset_milp_context \<Rightarrow> nat \<Rightarrow> declare_mode \<Rightarrow> lp_domain list \<Rightarrow> declared_asset \<times> lp_domain list" where
  "ctx_declare (BatteryCtx c) n mode vars = map_prod (DeclaredBattery c) id (battery_declare c n mode vars)"
| "ctx_declare (EvCtx c) n mode vars = map_prod (DeclaredEv c) id (ev_declare c n mode vars)"
| "ctx_declare (HeaterCtx c) n mode vars = map_prod (DeclaredHeater c) id (heater_declare c n mode vars)"
| "ctx_declare (ShiftableCtx i c) n mode vars = map_prod (DeclaredShiftable i c) id (shiftable_declare c mode vars)"
| "ctx_declare (ForecastCtx c) n mode vars = map_prod (DeclaredForecast c) id (forecast_declare c n vars)"

fun ctx_surplus_claim_rank :: "asset_milp_context \<Rightarrow> nat" where
  "ctx_surplus_claim_rank (BatteryCtx c) = 3"
| "ctx_surplus_claim_rank (EvCtx c) = 0"
| "ctx_surplus_claim_rank (HeaterCtx c) = 1"
| "ctx_surplus_claim_rank (ShiftableCtx i c) = 2"
| "ctx_surplus_claim_rank (ForecastCtx c) = forecast_surplus_claim_rank"

fun ctx_allocation_basis :: "asset_milp_context \<Rightarrow> allocation_basis" where
  "ctx_allocation_basis (BatteryCtx c) = StorageBasis"
| "ctx_allocation_basis c = LoadBasis"

fun ctx_solution_from_trace :: "asset_milp_context \<Rightarrow> f64 list \<Rightarrow> f64 hmap list \<Rightarrow> asset_solution" where
  "ctx_solution_from_trace (BatteryCtx c) net states = battery_solution_from_trace c net states"
| "ctx_solution_from_trace (EvCtx c) net states = ev_solution_from_trace c net states"
| "ctx_solution_from_trace (HeaterCtx c) net states = heater_solution_from_trace c net states"
| "ctx_solution_from_trace (ShiftableCtx i c) net states = shiftable_solution_from_trace c i net"
| "ctx_solution_from_trace (ForecastCtx c) net states = forecast_solution_from_trace c net"

fun ctx_flexibility_window :: "asset_milp_context \<Rightarrow> instant \<Rightarrow> flexibility_window option" where
  "ctx_flexibility_window (EvCtx c) now = ev_flexibility_window c now"
| "ctx_flexibility_window (HeaterCtx c) now = heater_flexibility_window c now"
| "ctx_flexibility_window (ShiftableCtx i c) now = shiftable_flexibility_window c"
| "ctx_flexibility_window c now = None"

fun ctx_input_warnings ::
  "(nat \<Rightarrow> f64 \<Rightarrow> string) \<Rightarrow> (uuid \<Rightarrow> string) \<Rightarrow> asset_milp_context \<Rightarrow> f64 list \<Rightarrow> plan_warning list" where
  "ctx_input_warnings fixed show_id (EvCtx c) c_imp = ev_input_warnings fixed show_id c c_imp"
| "ctx_input_warnings fixed show_id c c_imp = []"

fun ctx_inject_grid_slots :: "f64 list \<Rightarrow> f64 list \<Rightarrow> asset_milp_context \<Rightarrow> asset_milp_context" where
  "ctx_inject_grid_slots c_imp surplus (EvCtx c) = EvCtx (ev_inject_grid_slots c_imp surplus c)"
| "ctx_inject_grid_slots c_imp surplus c = c"

fun asset_id_of :: "declared_asset \<Rightarrow> string" where
  "asset_id_of (DeclaredBattery c v) = bm_asset_id c"
| "asset_id_of (DeclaredEv c v) = xc_asset_id c"
| "asset_id_of (DeclaredHeater c v) = hc_asset_id c"
| "asset_id_of (DeclaredShiftable i c v) = i"
| "asset_id_of (DeclaredForecast c v) = fm_asset_id c"

fun net_power_expr :: "declared_asset \<Rightarrow> nat \<Rightarrow> lp_expr" where
  "net_power_expr (DeclaredBattery c v) t = battery_net v t"
| "net_power_expr (DeclaredEv c v) t = ev_net v t"
| "net_power_expr (DeclaredHeater c v) t = heater_net v t"
| "net_power_expr (DeclaredShiftable i c v) t = shiftable_net c v t"
| "net_power_expr (DeclaredForecast c v) t = forecast_net c v t"

fun asset_constraints :: "declared_asset \<Rightarrow> nat \<Rightarrow> f64 list \<Rightarrow> lp_row list" where
  "asset_constraints (DeclaredBattery c v) n dt_h = battery_constraints c v n dt_h"
| "asset_constraints (DeclaredEv c v) n dt_h = ev_constraints c v n dt_h"
| "asset_constraints (DeclaredHeater c v) n dt_h = heater_constraints c v n dt_h"
| "asset_constraints (DeclaredShiftable i c v) n dt_h = shiftable_constraints v"
| "asset_constraints (DeclaredForecast c v) n dt_h = []"

fun slot_constraints :: "declared_asset \<Rightarrow> nat \<Rightarrow> lp_row list" where
  "slot_constraints (DeclaredForecast c v) t = forecast_slot_rows c v t"
| "slot_constraints d t = []"

fun asset_objective :: "declared_asset \<Rightarrow> objective_part \<Rightarrow> nat \<Rightarrow> f64 list \<Rightarrow> lp_expr" where
  "asset_objective (DeclaredBattery c v) part n dt_h = battery_objective c v part n dt_h"
| "asset_objective (DeclaredEv c v) part n dt_h = ev_objective c v part n dt_h"
| "asset_objective (DeclaredHeater c v) part n dt_h = heater_objective c v part n dt_h"
| "asset_objective (DeclaredShiftable i c v) part n dt_h = shiftable_objective c v"
| "asset_objective (DeclaredForecast c v) part n dt_h = forecast_objective c v dt_h"

fun asset_warm_start :: "declared_asset \<Rightarrow> asset_solution \<Rightarrow> nat \<Rightarrow> (lp_var \<times> f64) list" where
  "asset_warm_start (DeclaredBattery c v) own n = battery_warm_start v own n"
| "asset_warm_start (DeclaredEv c v) own n = ev_warm_start v own n"
| "asset_warm_start (DeclaredHeater c v) own n = heater_warm_start c v own n"
| "asset_warm_start (DeclaredShiftable i c v) own n = shiftable_warm_start own"
| "asset_warm_start (DeclaredForecast c v) own n = forecast_warm_start c v own"

text \<open>How a figure and an id are written in a warning, as in the assets' own theories.\<close>

type_synonym writers = "(nat \<Rightarrow> f64 \<Rightarrow> string) \<times> (uuid \<Rightarrow> string)"

fun asset_read :: "writers \<Rightarrow> declared_asset \<Rightarrow> assignment \<Rightarrow> nat \<Rightarrow> asset_solution" where
  "asset_read w (DeclaredBattery c v) \<sigma> n = battery_read c v \<sigma> n"
| "asset_read w (DeclaredEv c v) \<sigma> n = ev_read (fst w) (snd w) c v \<sigma> n"
| "asset_read w (DeclaredHeater c v) \<sigma> n = heater_read (fst w) c v \<sigma> n"
| "asset_read w (DeclaredShiftable i c v) \<sigma> n = shiftable_read c i v \<sigma> n"
| "asset_read w (DeclaredForecast c v) \<sigma> n = forecast_read c v \<sigma> n"

fun discharge_leg_of :: "declared_asset \<Rightarrow> discharge_leg option" where
  "discharge_leg_of (DeclaredBattery c v) = battery_discharge_leg v"
| "discharge_leg_of d = None"

fun on_indicator_of :: "declared_asset \<Rightarrow> on_indicator option" where
  "on_indicator_of (DeclaredEv c v) = ev_on_indicator v"
| "on_indicator_of d = None"

fun dispatched :: "declared_asset \<Rightarrow> bool" where
  "dispatched (DeclaredForecast c v) = False"
| "dispatched d = True"

section \<open>The contracts\<close>

text \<open>Each of a list of contexts declared in its order, into one declaration.\<close>

fun declare_each ::
  "('c \<Rightarrow> lp_domain list \<Rightarrow> ('d \<times> lp_domain list) option) \<Rightarrow> 'c list \<Rightarrow> lp_domain list \<Rightarrow> ('d list \<times> lp_domain list) option" where
  "declare_each f [] vars = Some ([], vars)"
| "declare_each f (c # cs) vars =
     (case f c vars of None \<Rightarrow> None | Some (d, vars1) \<Rightarrow>
        map_option (\<lambda>(ds, vars2). (d # ds, vars2)) (declare_each f cs vars1))"

text \<open>A declared asset whose variables lie within their bounds.\<close>

definition declared_within ::
  "('c \<Rightarrow> nat \<Rightarrow> declare_mode \<Rightarrow> lp_domain list \<Rightarrow> 'd \<times> lp_domain list) \<Rightarrow> nat \<Rightarrow> assignment \<Rightarrow> 'd \<Rightarrow> bool" where
  "declared_within declare_fn n \<sigma> d \<longleftrightarrow>
     (\<exists>c mode vars vars' rest. declare_fn c n mode vars = (d, vars') \<and> in_bounds (vars' @ rest) \<sigma>)"

text \<open>What the site's model relies on: a declaration only adds variables, what an asset reads back is the power it put
  into the balance, and pinning a solution's own mode decisions keeps that solution.\<close>

locale milp_asset =
  fixes declare_fn :: "'c \<Rightarrow> nat \<Rightarrow> declare_mode \<Rightarrow> lp_domain list \<Rightarrow> 'd \<times> lp_domain list"
    and net_fn :: "'d \<Rightarrow> nat \<Rightarrow> lp_expr"
    and read_fn :: "writers \<Rightarrow> 'd \<Rightarrow> assignment \<Rightarrow> nat \<Rightarrow> asset_solution"
  assumes extends: "declare_fn c n mode vars = (d, vars') \<Longrightarrow>
      \<exists>ds. vars' = vars @ ds \<and> (\<forall>us. length us = length vars \<longrightarrow> declare_fn c n mode us = (d, us @ ds))"
    and read_net: "declare_fn c n mode vars = (d, vars') \<Longrightarrow> t < n \<Longrightarrow> as_net_power_kw (read_fn w d \<sigma> n) ! t = net_fn d t \<sigma>"
    and pinned_keeps: "declare_fn c n (PlanMode False) vars = (d, vars @ ds) \<Longrightarrow> block_bounds (length vars) ds \<sigma> \<Longrightarrow>
      \<exists>ds'. declare_fn c n (PinnedMode (read_fn w d \<sigma> n)) vars = (d, vars @ ds') \<and> length ds' = length ds \<and>
        block_bounds (length vars) ds' \<sigma>"
begin

lemma each_extends:
  assumes "declare_each (\<lambda>c vars. map_option (\<lambda>m. declare_fn c n m vars) (mode c)) cs vars = Some (ds, vars')"
  shows "(\<exists>es. vars' = vars @ es) \<and> (\<forall>\<sigma> rest. in_bounds (vars' @ rest) \<sigma> \<longrightarrow> list_all (declared_within declare_fn n \<sigma>) ds)"
  using assms
proof (induction cs arbitrary: vars ds)
  case (Cons c cs)
  from Cons.prems obtain m d vars1 ds1 where m: "declare_fn c n m vars = (d, vars1)" and ds: "ds = d # ds1"
      and each: "declare_each (\<lambda>c vars. map_option (\<lambda>m. declare_fn c n m vars) (mode c)) cs vars1 = Some (ds1, vars')"
    by (auto split: option.splits prod.splits)
  from extends [OF m] obtain es where es: "vars1 = vars @ es" by auto
  from Cons.IH [OF each] obtain es1 where es1: "vars' = vars1 @ es1" by blast
  have "declared_within declare_fn n \<sigma> d" if "in_bounds (vars' @ rest) \<sigma>" for \<sigma> rest
  proof -
    from that have "in_bounds (vars1 @ es1 @ rest) \<sigma>" by (simp add: es1)
    with m show ?thesis unfolding declared_within_def by blast
  qed
  then show ?case using Cons.IH [OF each] es es1 ds by auto
qed simp

lemma each_pinned:
  assumes "declare_each (\<lambda>c vars. Some (declare_fn c n (PlanMode False) vars)) cs vars = Some (ds, vars @ es)"
    and "block_bounds (length vars) es \<sigma>"
    and "list_all2 (\<lambda>c d. mode c = Some (PinnedMode (read_fn w d \<sigma> n))) cs ds"
    and "length us = length vars"
  shows "\<exists>es'. declare_each (\<lambda>c vars. map_option (\<lambda>m. declare_fn c n m vars) (mode c)) cs us = Some (ds, us @ es') \<and>
    length es' = length es \<and> block_bounds (length vars) es' \<sigma>"
  using assms
proof (induction cs arbitrary: vars us ds es)
  case (Cons c cs)
  obtain d vars1 where d: "declare_fn c n (PlanMode False) vars = (d, vars1)" by fastforce
  from extends [OF d] obtain a where a: "vars1 = vars @ a" by auto
  from Cons.prems(1) d obtain ds1 where ds: "ds = d # ds1"
      and each: "declare_each (\<lambda>c vars. Some (declare_fn c n (PlanMode False) vars)) cs (vars @ a) = Some (ds1, vars @ es)"
    by (auto simp: a split: option.splits prod.splits)
  have "declare_each (\<lambda>c vars. map_option (\<lambda>m. declare_fn c n m vars) (Some (PlanMode False))) cs (vars @ a) = Some (ds1, vars @ es)"
    using each by simp
  from each_extends [OF this] obtain b where b: "es = a @ b" by auto
  from Cons.prems(2) have bounds: "block_bounds (length vars) a \<sigma>" "block_bounds (length (vars @ a)) b \<sigma>" by (simp_all add: b)
  from pinned_keeps [OF d [unfolded a] bounds(1), of w] obtain a' where
    a': "declare_fn c n (PinnedMode (read_fn w d \<sigma> n)) vars = (d, vars @ a')" "length a' = length a" "block_bounds (length vars) a' \<sigma>"
    by blast
  from extends [OF a'(1)] Cons.prems(4) have here: "declare_fn c n (PinnedMode (read_fn w d \<sigma> n)) us = (d, us @ a')" by auto
  from Cons.prems(3) have m: "mode c = Some (PinnedMode (read_fn w d \<sigma> n))"
      and ms: "list_all2 (\<lambda>c d. mode c = Some (PinnedMode (read_fn w d \<sigma> n))) cs ds1" by (simp_all add: ds)
  obtain b' where b': "declare_each (\<lambda>c vars. map_option (\<lambda>m. declare_fn c n m vars) (mode c)) cs (us @ a') = Some (ds1, (us @ a') @ b')"
      "length b' = length b" "block_bounds (length (vars @ a)) b' \<sigma>"
    using Cons.IH [OF _ bounds(2) ms, of "us @ a'"] each Cons.prems(4) a'(2) by (auto simp: b)
  show ?case by (rule exI [of _ "a' @ b'"]) (use here m b' a' ds b in simp)
qed simp

end

text \<open>What the coexistence of two assets relies on: a discharge leg stays within its rating, an indicator is on or
  off. Then the envelope of their product is exact.\<close>

locale coupled_asset = milp_asset declare_fn net_fn read_fn
  for declare_fn :: "'c \<Rightarrow> nat \<Rightarrow> declare_mode \<Rightarrow> lp_domain list \<Rightarrow> 'd \<times> lp_domain list"
    and net_fn :: "'d \<Rightarrow> nat \<Rightarrow> lp_expr"
    and read_fn :: "writers \<Rightarrow> 'd \<Rightarrow> assignment \<Rightarrow> nat \<Rightarrow> asset_solution" +
  fixes leg_fn :: "'d \<Rightarrow> discharge_leg option"
    and on_fn :: "'d \<Rightarrow> on_indicator option"
  assumes leg_bounds: "declared_within declare_fn n \<sigma> d \<Longrightarrow> leg_fn d = Some leg \<Longrightarrow> t < n \<Longrightarrow>
      0 \<le> \<sigma> (dl_p_dis leg ! t) \<and> \<sigma> (dl_p_dis leg ! t) \<le> dl_max_kw leg"
    and on_or_off: "declared_within declare_fn n \<sigma> d \<Longrightarrow> on_fn d = Some ind \<Longrightarrow> t < n \<Longrightarrow>
      \<sigma> (oi_z_on ind ! t) = 0 \<or> \<sigma> (oi_z_on ind ! t) = 1"
begin

lemma envelope_exact:
  assumes "declared_within declare_fn n \<sigma> d" "leg_fn d = Some leg"
    and "declared_within declare_fn n \<sigma> d'" "on_fn d' = Some ind" and "t < n"
  shows "(0 \<le> x \<and> x \<le> \<sigma> (dl_p_dis leg ! t) \<and> x \<le> dl_max_kw leg * \<sigma> (oi_z_on ind ! t) \<and>
      \<sigma> (dl_p_dis leg ! t) - dl_max_kw leg * (1 - \<sigma> (oi_z_on ind ! t)) \<le> x) \<longleftrightarrow>
    x = \<sigma> (dl_p_dis leg ! t) * \<sigma> (oi_z_on ind ! t)"
  using on_or_off [OF assms(3-5)] leg_bounds [OF assms(1,2,5)] by auto

end

section \<open>The five kinds of asset keep them\<close>

lemma battery_extends:
  "battery_declare c n mode vars = (d, vars') \<Longrightarrow>
    \<exists>ds. vars' = vars @ ds \<and> (\<forall>us. length us = length vars \<longrightarrow> battery_declare c n mode us = (d, us @ ds))"
  by (auto simp: battery_declare_def battery_declare_eq Let_def simp del: upt_Suc)

lemma ev_extends:
  "ev_declare c n mode vars = (d, vars') \<Longrightarrow>
    \<exists>ds. vars' = vars @ ds \<and> (\<forall>us. length us = length vars \<longrightarrow> ev_declare c n mode us = (d, us @ ds))"
  by (auto simp: ev_declare_def ev_declare_eq Let_def simp del: upt_Suc)

lemma heater_extends:
  "heater_declare c n mode vars = (d, vars') \<Longrightarrow>
    \<exists>ds. vars' = vars @ ds \<and> (\<forall>us. length us = length vars \<longrightarrow> heater_declare c n mode us = (d, us @ ds))"
  by (auto simp: heater_declare_def heater_declare_eq Let_def simp del: upt_Suc)

lemma shiftable_extends:
  "shiftable_declare c mode vars = (d, vars') \<Longrightarrow>
    \<exists>ds. vars' = vars @ ds \<and> (\<forall>us. length us = length vars \<longrightarrow> shiftable_declare c mode us = (d, us @ ds))"
  by (auto simp: shiftable_declare_def shiftable_declare_starts_def add_vars_eq simp del: upt_Suc)

lemma forecast_extends:
  "forecast_declare c n vars = (d, vars') \<Longrightarrow>
    \<exists>ds. vars' = vars @ ds \<and> (\<forall>us. length us = length vars \<longrightarrow> forecast_declare c n us = (d, us @ ds))"
  by (auto simp: forecast_declare_def add_vars_eq simp del: upt_Suc split: if_splits)

lemma map_prod_pair: "map_prod f id p = (d, v) \<longleftrightarrow> (\<exists>x. p = (x, v) \<and> d = f x)"
  by (cases p) auto

lemma extends_map:
  assumes "\<And>v vars'. g vars = (v, vars') \<Longrightarrow> \<exists>ds. vars' = vars @ ds \<and> (\<forall>us. length us = length vars \<longrightarrow> g us = (v, us @ ds))"
    and "map_prod F id (g vars) = (d, vars')"
  shows "\<exists>ds. vars' = vars @ ds \<and> (\<forall>us. length us = length vars \<longrightarrow> map_prod F id (g us) = (d, us @ ds))"
  using assms by (fastforce simp: map_prod_pair)

lemma ctx_extends:
  assumes "ctx_declare c n mode vars = (d, vars')"
  shows "\<exists>ds. vars' = vars @ ds \<and> (\<forall>us. length us = length vars \<longrightarrow> ctx_declare c n mode us = (d, us @ ds))"
proof (cases c)
  case (BatteryCtx c)
  show ?thesis using assms unfolding BatteryCtx ctx_declare.simps by (rule extends_map [rotated]) (rule battery_extends)
next
  case (EvCtx c)
  show ?thesis using assms unfolding EvCtx ctx_declare.simps by (rule extends_map [rotated]) (rule ev_extends)
next
  case (HeaterCtx c)
  show ?thesis using assms unfolding HeaterCtx ctx_declare.simps by (rule extends_map [rotated]) (rule heater_extends)
next
  case (ShiftableCtx i c)
  show ?thesis using assms unfolding ShiftableCtx ctx_declare.simps by (rule extends_map [rotated]) (rule shiftable_extends)
next
  case (ForecastCtx c)
  show ?thesis using assms unfolding ForecastCtx ctx_declare.simps by (rule extends_map [rotated]) (rule forecast_extends)
qed

lemma fold_add_sum: "fold (\<lambda>x acc. acc + f x) xs a = a + sum_list (map f xs)" for a :: f64
  by (induction xs arbitrary: a) (simp_all add: add.assoc)

lemma ctx_read_net:
  assumes "ctx_declare c n mode vars = (d, vars')" "t < n"
  shows "as_net_power_kw (asset_read w d \<sigma> n) ! t = net_power_expr d t \<sigma>"
proof (cases c)
  case (BatteryCtx c)
  then show ?thesis using assms by (auto simp: map_prod_pair battery_read_net battery_net_def)
next
  case (EvCtx c)
  then show ?thesis using assms by (auto simp: map_prod_pair ev_read_def ev_read_solution_def ev_net_def Let_def)
next
  case (HeaterCtx c)
  then show ?thesis using assms
    by (auto simp: map_prod_pair heater_read_def heater_read_solution_def heater_net_def heater_declare_def heater_declare_eq Let_def simp del: upt_Suc)
next
  case (ShiftableCtx i c)
  then show ?thesis using assms by (auto simp: map_prod_pair shiftable_read_def shiftable_net_def fold_add_sum sum_expr_def o_def)
next
  case (ForecastCtx c)
  then show ?thesis using assms by (auto simp: map_prod_pair forecast_read_def)
qed


lemma ctx_identity:
  assumes "ctx_declare c n mode vars = (d, vars')"
  shows "asset_id_of d = ctx_asset_id c" "as_asset_id (asset_read w d \<sigma> m) = ctx_asset_id c"
    and "dispatched d \<longleftrightarrow> ctx_participation c = Dispatched"
  using assms by (cases c; auto simp: map_prod_pair battery_read_def ev_read_def heater_read_def shiftable_read_def forecast_read_def
    forecast_participation_def Let_def)+


text \<open>A pinned declaration keeps the plan it was pinned to: its handles are the ones that plan was read at, and the
  plan's values lie within the pinned bounds.\<close>

lemma pinned_binary_read: "x = 0 \<or> x = 1 \<Longrightarrow> pinned_binary (Some x) = x"
  by (auto simp: pinned_binary_def)

lemma battery_pinned_keeps:
  assumes "battery_declare c n (PlanMode False) vars = (v, vars @ ds)" and bounds: "block_bounds (length vars) ds \<sigma>"
  shows "\<exists>ds'. battery_declare c n (PinnedMode (battery_read c v \<sigma> n)) vars = (v, vars @ ds') \<and> length ds' = length ds \<and>
    block_bounds (length vars) ds' \<sigma>"
proof -
  define pin where "pin = map \<sigma> (bv_u_bat v)"
  have d: "battery_declare_vars c n 0 0 None vars = (v, vars @ ds)"
    using assms(1) by (simp add: battery_declare_def mode_friction_def no_friction_def)
  have "\<exists>ds'. battery_declare_vars c n 0 0 (Some pin) vars = (v, vars @ ds') \<and> length ds' = length ds"
    using d by (auto simp: battery_declare_eq battery_startup_vars_def Let_def simp del: upt_Suc)
  then obtain ds' where d': "battery_declare_vars c n 0 0 (Some pin) vars = (v, vars @ ds')" and len: "length ds' = length ds" by blast
  have u: "bv_u_bat v = [length vars + 2 * n..<length vars + 3 * n]"
    using d by (auto simp: battery_declare_eq Let_def simp del: upt_Suc)
  have "block_bounds (length vars) (drop (length vars) (vars @ ds)) \<sigma>" using bounds by simp
  note b = this [unfolded battery_block_bounds [OF d]]
  have dir: "in_domain (battery_direction (Some pin) t) (\<sigma> (bv_u_bat v ! t))" if "t < n" for t
  proof -
    have "\<sigma> (bv_u_bat v ! t) = 0 \<or> \<sigma> (bv_u_bat v ! t) = 1" using b that battery_direction_cases by blast
    then show ?thesis using that by (simp add: battery_direction_def pin_def u pinned_binary_read)
  qed
  have "block_bounds (length vars) (drop (length vars) (vars @ ds')) \<sigma>"
    unfolding battery_block_bounds [OF d'] using b dir by blast
  then have bb: "block_bounds (length vars) ds' \<sigma>" by simp
  have "battery_declare c n (PinnedMode (battery_read c v \<sigma> n)) vars = (v, vars @ ds')"
    using d' by (simp add: battery_declare_def mode_friction_def no_friction_def battery_own_direction_def battery_read_def pin_def Let_def)
  with bb len show ?thesis by blast
qed

lemma ev_pinned_keeps:
  assumes "ev_declare c n (PlanMode False) vars = (v, vars @ ds)" and bounds: "block_bounds (length vars) ds \<sigma>"
  shows "\<exists>ds'. ev_declare c n (PinnedMode (ev_read fixed show_id c v \<sigma> n)) vars = (v, vars @ ds') \<and> length ds' = length ds \<and>
    block_bounds (length vars) ds' \<sigma>"
proof -
  define pin where "pin = eo_z_ev_on (ev_read_solution \<sigma> v n)"
  have d: "ev_declare_vars c n 0 0 None vars = (v, vars @ ds)"
    using assms(1) by (simp add: ev_declare_def mode_friction_def no_friction_def)
  have "\<exists>ds'. ev_declare_vars c n 0 0 (Some pin) vars = (v, vars @ ds') \<and> length ds' = length ds"
    using d by (auto simp: ev_declare_eq ev_domains_def ev_flag_count_def Let_def simp del: upt_Suc)
  then obtain ds' where d': "ev_declare_vars c n 0 0 (Some pin) vars = (v, vars @ ds')" and len: "length ds' = length ds" by blast
  have "block_bounds (length vars) (drop (length vars) (vars @ ds)) \<sigma>" using bounds by simp
  note b = this [unfolded ev_block_bounds [OF d]]
  have on: "in_domain (on_domain c (Some pin) t) (\<sigma> (ew_z_ev_on v ! t))" if "t < n" for t
  proof -
    have "in_domain (on_domain c None t) (\<sigma> (ew_z_ev_on v ! t))" using b that by blast
    then show ?thesis using that
      by (auto simp: on_domain_def pin_def ev_read_solution_def pinned_binary_read pinned_binary_def split: if_splits)
  qed
  have "block_bounds (length vars) (drop (length vars) (vars @ ds')) \<sigma>"
    unfolding ev_block_bounds [OF d'] using b on by blast
  then have bb: "block_bounds (length vars) ds' \<sigma>" by simp
  have "ev_declare c n (PinnedMode (ev_read fixed show_id c v \<sigma> n)) vars = (v, vars @ ds')"
    using d' by (simp add: ev_declare_def mode_friction_def no_friction_def ev_own_readback_def ev_read_def pin_def Let_def)
  with bb len show ?thesis by blast
qed

lemma heater_pinned_keeps:
  assumes "heater_declare c n (PlanMode False) vars = (v, vars @ ds)" and bounds: "block_bounds (length vars) ds \<sigma>"
  shows "\<exists>ds'. heater_declare c n (PinnedMode (heater_read fixed c v \<sigma> n)) vars = (v, vars @ ds') \<and> length ds' = length ds \<and>
    block_bounds (length vars) ds' \<sigma>"
proof -
  define pin where "pin = heater_read_solution \<sigma> v n"
  have d: "heater_declare_vars c n None vars = (v, vars @ ds)" using assms(1) by (simp add: heater_declare_def)
  have "\<exists>ds'. heater_declare_vars c n (Some pin) vars = (v, vars @ ds') \<and> length ds' = length ds"
    using d by (auto simp: heater_declare_eq Let_def simp del: upt_Suc)
  then obtain ds' where d': "heater_declare_vars c n (Some pin) vars = (v, vars @ ds')" and len: "length ds' = length ds" by blast
  have "block_bounds (length vars) (drop (length vars) (vars @ ds)) \<sigma>" using bounds by simp
  note b = this [unfolded heater_block_bounds [OF d]]
  have stage: "in_domain (stage_domain c (Some pin) t) (\<sigma> (hv_y_heat v ! t))" if "t < n" for t
  proof -
    have "in_domain (stage_domain c None t) (\<sigma> (hv_y_heat v ! t))" using b that by blast
    then obtain k where "k \<le> hc_n_stages c" "\<sigma> (hv_y_heat v ! t) = of_nat k" using stage_domain_whole by blast
    then show ?thesis using that
      by (simp add: stage_domain_def pin_def heater_read_solution_def f64_round_of_nat clamp_range_def)
  qed
  have ready: "in_domain (ready_domain c (Some pin)) (\<sigma> (hv_z_heat_ready v))"
    using b by (auto simp: ready_domain_def pin_def heater_read_solution_def pinned_binary_read pinned_binary_def split: if_splits)
  have "block_bounds (length vars) (drop (length vars) (vars @ ds')) \<sigma>"
    unfolding heater_block_bounds [OF d'] using b stage ready by blast
  then have bb: "block_bounds (length vars) ds' \<sigma>" by simp
  have "heater_declare c n (PinnedMode (heater_read fixed c v \<sigma> n)) vars = (v, vars @ ds')"
    using d' by (simp add: heater_declare_def heater_own_readback_def heater_read_def pin_def Let_def)
  with bb len show ?thesis by blast
qed

lemma shiftable_pinned_keeps:
  assumes "shiftable_declare c (PlanMode False) vars = (y, vars @ ds)" and bounds: "block_bounds (length vars) ds \<sigma>"
  shows "\<exists>ds'. shiftable_declare c (PinnedMode (shiftable_read c i y \<sigma> n)) vars = (y, vars @ ds') \<and> length ds' = length ds \<and>
    block_bounds (length vars) ds' \<sigma>"
  using assms
  by (auto simp: shiftable_declare_def shiftable_declare_starts_def shiftable_own_starts_def shiftable_read_def add_vars_eq
      block_bounds_map pinned_binary_read)

lemma ctx_pinned_keeps:
  assumes d: "ctx_declare c n (PlanMode False) vars = (d, vars @ ds)" and bounds: "block_bounds (length vars) ds \<sigma>"
  shows "\<exists>ds'. ctx_declare c n (PinnedMode (asset_read w d \<sigma> n)) vars = (d, vars @ ds') \<and> length ds' = length ds \<and>
    block_bounds (length vars) ds' \<sigma>"
proof (cases c)
  case (BatteryCtx c)
  with d battery_pinned_keeps [OF _ bounds] show ?thesis by (fastforce simp: map_prod_pair)
next
  case (EvCtx c)
  with d ev_pinned_keeps [OF _ bounds] show ?thesis by (fastforce simp: map_prod_pair)
next
  case (HeaterCtx c)
  with d heater_pinned_keeps [OF _ bounds] show ?thesis by (fastforce simp: map_prod_pair)
next
  case (ShiftableCtx i c)
  with d shiftable_pinned_keeps [OF _ bounds] show ?thesis by (fastforce simp: map_prod_pair)
next
  case (ForecastCtx c)
  with d bounds show ?thesis by (auto simp: map_prod_pair)
qed

interpretation planned: milp_asset ctx_declare net_power_expr asset_read
  by unfold_locales (fact ctx_extends, fact ctx_read_net, fact ctx_pinned_keeps)

lemma battery_leg_bounds:
  assumes "battery_declare c n mode vars = (v, vars')" "in_bounds (vars' @ rest) \<sigma>" "t < n"
  shows "0 \<le> \<sigma> (bv_p_dis v ! t) \<and> \<sigma> (bv_p_dis v ! t) \<le> bv_dis_max_kw v"
proof -
  from assms(1) obtain su ra pin where d: "battery_declare_vars c n su ra pin vars = (v, vars')" by (auto simp: battery_declare_def Let_def)
  have "bv_dis_max_kw v = bm_p_dis_max_kw c" using d by (auto simp: battery_declare_eq Let_def simp del: upt_Suc)
  with battery_declared_discharge [OF d assms(2,3)] show ?thesis by simp
qed

lemma ev_on_or_off:
  assumes "ev_declare c n mode vars = (v, vars')" "in_bounds (vars' @ rest) \<sigma>" "t < n"
  shows "\<sigma> (ew_z_ev_on v ! t) = 0 \<or> \<sigma> (ew_z_ev_on v ! t) = 1"
proof -
  from assms(1) obtain su ra pin where d: "ev_declare_vars c n su ra pin vars = (v, vars')" by (auto simp: ev_declare_def Let_def)
  have "\<exists>ds. vars' = vars @ ds" using d by (auto simp: ev_declare_eq Let_def simp del: upt_Suc)
  with assms(2) have "block_bounds (length vars) (drop (length vars) vars') \<sigma>" by (auto simp: in_bounds_append)
  then have "in_domain (on_domain c pin t) (\<sigma> (ew_z_ev_on v ! t))" using assms(3) unfolding ev_block_bounds [OF d] by blast
  then show ?thesis using pinned_binary_cases by (auto simp: on_domain_def split: if_splits option.splits)
qed

interpretation coupled: coupled_asset ctx_declare net_power_expr asset_read discharge_leg_of on_indicator_of
proof
  fix n \<sigma> d leg t
  assume "declared_within ctx_declare n \<sigma> d" "discharge_leg_of d = Some leg" and t: "t < n"
  then obtain c v mode vars vars' rest where "ctx_declare c n mode vars = (d, vars')" "in_bounds (vars' @ rest) \<sigma>"
      "\<exists>b. d = DeclaredBattery b v" "leg = \<lparr>dl_p_dis = bv_p_dis v, dl_max_kw = bv_dis_max_kw v\<rparr>"
    by (cases d) (auto simp: declared_within_def battery_discharge_leg_def)
  then show "0 \<le> \<sigma> (dl_p_dis leg ! t) \<and> \<sigma> (dl_p_dis leg ! t) \<le> dl_max_kw leg"
    by (cases c) (auto simp: map_prod_pair dest: battery_leg_bounds [OF _ _ t])
next
  fix n \<sigma> d ind t
  assume "declared_within ctx_declare n \<sigma> d" "on_indicator_of d = Some ind" and t: "t < n"
  then obtain c v mode vars vars' rest where "ctx_declare c n mode vars = (d, vars')" "in_bounds (vars' @ rest) \<sigma>"
      "\<exists>e. d = DeclaredEv e v" "ind = \<lparr>oi_z_on = ew_z_ev_on v, oi_p_min_kw = ew_p_min_kw v\<rparr>"
    by (cases d) (auto simp: declared_within_def ev_on_indicator_def)
  then show "\<sigma> (oi_z_on ind ! t) = 0 \<or> \<sigma> (oi_z_on ind ! t) = 1"
    by (cases c) (auto simp: map_prod_pair dest: ev_on_or_off [OF _ _ t])
qed

end
