(* ===== verification/Milp_Site.thy ===== *)
theory Milp_Site
  imports Milp_Assets
begin

text \<open>
  \<open>VEN/src/controller/milp_planner/model_skeleton.rs\<close>, \<open>penalty.rs\<close>, \<open>types.rs\<close> and
  \<open>VEN/src/controller/milp_interactions.rs\<close>: the model of the whole site, which the planner's solves share. A
  declaration that would panic (a winning solution without one of the assets) is \<open>None\<close>.
\<close>

section \<open>Inputs and weights\<close>

record penalty_rule_params =
  pn_rule_id :: string
  pn_threshold_kw :: f64
  pn_measurement_window_s :: nat
  pn_penalty_eur_per_kw :: f64

record milp_inputs =
  mi_n :: nat
  mi_dt_h :: "f64 list"
  mi_cum_s :: "int list"
  mi_c_imp_eur_kwh :: "f64 list"
  mi_rate_stale :: "bool list"
  mi_stale_rate_warning :: "string option"
  mi_co2_stale_rate_warning :: "string option"
  mi_c_exp_eur_kwh :: "f64 list"
  mi_g_imp_kgco2_kwh :: "f64 list"
  mi_generation_forecast_kw :: "f64 list"
  mi_load_forecast_kw :: "f64 list"
  mi_load_adjust_kw :: "f64 list"
  mi_p_imp_max_phys_kw :: "f64 list"
  mi_p_exp_max_phys_kw :: "f64 list"
  mi_p_imp_max_cont_kw :: "f64 list"
  mi_p_exp_max_cont_kw :: "f64 list"
  mi_pen_imp_eur_kwh :: f64
  mi_pen_exp_eur_kwh :: f64
  mi_mip_gap_target :: f64
  mi_penalty_rules :: "penalty_rule_params list"

definition forecast_surplus_kw :: "milp_inputs \<Rightarrow> f64 list" where
  "forecast_surplus_kw inputs =
     map (\<lambda>(pv_kw, base_kw). pv_kw - base_kw) (zip (mi_generation_forecast_kw inputs) (mi_load_forecast_kw inputs))"

record phase1_weights =
  w1_energy :: f64
  w1_ghg :: f64
  w1_grid :: f64
  w1_import :: f64
  w1_viol :: f64
  w1_c_storage_wear_eur_kwh :: f64
  w1_c_bat_ev_coexist_eur_kwh :: f64
  w1_c_ctrl_imp_malus_eur_kwh :: f64

datatype stale_rate_policy = LastKnown | HeuristicForecast | DeferToFlexible | SafeAverage

record planner_params =
  pm_plan_step_s :: nat
  pm_plan_horizon_h :: nat
  pm_plan_zones :: "plan_zone list"
  pm_replan_interval_s :: nat
  pm_w_energy :: f64
  pm_w_ghg :: f64
  pm_w_grid :: f64
  pm_c_bat_wear_eur_kwh :: f64
  pm_c_ev_startup_eur :: f64
  pm_c_bat_startup_eur :: f64
  pm_c_ev_ramp_eur_kw :: f64
  pm_c_bat_ramp_eur_kw :: f64
  pm_c_bat_ev_coexist_eur_kwh :: f64
  pm_w_viol :: f64
  pm_pen_imp_eur_kwh :: f64
  pm_pen_exp_eur_kwh :: f64
  pm_v_ev_extra_eur_kwh :: f64
  pm_v_ev_core_eur_kwh :: f64
  pm_w_tier_penalty_eur :: f64
  pm_c_ctrl_imp_malus_eur_kwh :: f64
  pm_objective :: planner_objective
  pm_plan_adoption_threshold_eur :: f64
  pm_plan_adoption_decay_s :: f64
  pm_phase2_epsilon_eur :: f64
  pm_solver_timeout_s :: nat
  pm_phase2_solver_timeout_s :: nat
  pm_rate_change_trigger_delay_s :: nat
  pm_rate_change_trigger_jitter_pct :: f64
  pm_mip_gap_target :: f64
  pm_planning_initial_delay_s :: nat
  pm_gate_switch_penalty_eur :: f64
  pm_simple_level1_import_cap_pct :: f64
  pm_asap_lateness_eur_kwh_h :: f64
  pm_v_ev_free_charge_eur_kwh :: f64
  pm_stale_rate_policy :: stale_rate_policy
  pm_stale_rate_safe_pctl :: f64
  pm_penalty_rules :: "penalty_rule_params list"

definition phase1_weights_of :: "planner_params \<Rightarrow> f64 \<Rightarrow> f64 \<Rightarrow> f64 \<Rightarrow> f64 \<Rightarrow> f64 \<Rightarrow> phase1_weights" where
  "phase1_weights_of p energy ghg exchange import wear =
     \<lparr>w1_energy = energy, w1_ghg = ghg, w1_grid = exchange, w1_import = import, w1_viol = pm_w_viol p,
      w1_c_storage_wear_eur_kwh = wear, w1_c_bat_ev_coexist_eur_kwh = pm_c_bat_ev_coexist_eur_kwh p,
      w1_c_ctrl_imp_malus_eur_kwh = pm_c_ctrl_imp_malus_eur_kwh p\<rparr>"

fun build_phase1_weights :: "planner_params \<Rightarrow> planner_objective \<Rightarrow> phase1_weights" where
  "build_phase1_weights p MinGhg = phase1_weights_of p 0 10 0 0 0"
| "build_phase1_weights p MinGrid = phase1_weights_of p 0 0 1 0 0"
| "build_phase1_weights p MinImport = phase1_weights_of p 0 0 0 1 0"
| "build_phase1_weights p MaxRevenue = phase1_weights_of p 1 0 0 0 (pm_c_bat_wear_eur_kwh p)"
| "build_phase1_weights p Custom =
     phase1_weights_of p (pm_w_energy p) (pm_w_ghg p) (pm_w_grid p) 0 (pm_c_bat_wear_eur_kwh p)"
| "build_phase1_weights p objective = phase1_weights_of p 1 (1 / 5) (1 / 50) 0 (pm_c_bat_wear_eur_kwh p)"

section \<open>What the grid and the penalty rules declare\<close>

datatype solution_status = SolvedOptimal | SolvedTimeLimit | SolvedGapLimit
datatype solve_status = StatusOptimal | StatusTimeLimit | StatusGapLimit | StatusInfeasible | StatusSimulated

fun map_solve_status :: "solution_status \<Rightarrow> solve_status" where
  "map_solve_status SolvedOptimal = StatusOptimal"
| "map_solve_status SolvedTimeLimit = StatusTimeLimit"
| "map_solve_status SolvedGapLimit = StatusGapLimit"

record solve_output =
  so_status :: solution_status
  so_objective_eur :: f64
  so_p_imp_kw :: "f64 list"
  so_p_exp_kw :: "f64 list"
  so_s_imp_viol_kw :: "f64 list"
  so_s_exp_viol_kw :: "f64 list"
  so_s_penalty_kw :: "f64 list list"
  so_assets :: "asset_solution list"

definition solved_asset :: "solve_output \<Rightarrow> string \<Rightarrow> asset_solution option" where
  "solved_asset sol asset_id = find (\<lambda>a. as_asset_id a = asset_id) (so_assets sol)"

definition num_windows :: "int list \<Rightarrow> nat \<Rightarrow> nat" where
  "num_windows cum_s window_s =
     (let total_s = (if cum_s = [] then 0 else last cum_s)
      in if total_s \<le> 0 \<or> window_s = 0 then 0 else nat ((total_s - 1) div int window_s + 1))"

text \<open>The offsets are counted from the start of the horizon and so not negative: the division truncates as it
  floors.\<close>

definition window_index :: "int list \<Rightarrow> nat \<Rightarrow> nat \<Rightarrow> nat" where
  "window_index cum_s t window_s = nat (cum_s ! t div int window_s)"

record penalty_rule_vars =
  pz_rule :: penalty_rule_params
  pz_s_penalty :: "lp_var list"

fun declare_penalty_vars ::
  "penalty_rule_params list \<Rightarrow> int list \<Rightarrow> lp_domain list \<Rightarrow> penalty_rule_vars list \<times> lp_domain list" where
  "declare_penalty_vars [] cum_s vars = ([], vars)"
| "declare_penalty_vars (rule # rules) cum_s vars =
     (let (s, vars1) = add_vars (replicate (num_windows cum_s (pn_measurement_window_s rule)) (at_least 0)) vars;
          (rest, vars2) = declare_penalty_vars rules cum_s vars1
      in (\<lparr>pz_rule = rule, pz_s_penalty = s\<rparr> # rest, vars2))"

definition penalty_row :: "int list \<Rightarrow> penalty_rule_vars \<Rightarrow> nat \<times> lp_var \<Rightarrow> lp_row" where
  "penalty_row cum_s rv = (\<lambda>(t, p) \<sigma>. \<sigma> p \<le> pn_threshold_kw (pz_rule rv) +
     \<sigma> (pz_s_penalty rv ! window_index cum_s t (pn_measurement_window_s (pz_rule rv))))"

definition penalty_constraints :: "lp_var list \<Rightarrow> int list \<Rightarrow> penalty_rule_vars list \<Rightarrow> lp_row list" where
  "penalty_constraints p_imp cum_s rule_vars =
     concat (map (\<lambda>rv. map (penalty_row cum_s rv) (enumerate 0 p_imp)) rule_vars)"

definition window_exceedance_kw :: "int list \<Rightarrow> penalty_rule_params \<Rightarrow> f64 list \<Rightarrow> f64 list" where
  "window_exceedance_kw cum_s rule p_imp_kw =
     fold (\<lambda>(t, p_kw) slack_kw. let w = window_index cum_s t (pn_measurement_window_s rule)
         in slack_kw[w := max (slack_kw ! w) (p_kw - pn_threshold_kw rule)])
       (enumerate 0 p_imp_kw) (replicate (num_windows cum_s (pn_measurement_window_s rule)) 0)"

definition penalty_objective :: "penalty_rule_vars list \<Rightarrow> lp_expr" where
  "penalty_objective rule_vars =
     sum_expr (concat (map (\<lambda>rv. map (\<lambda>s \<sigma>. pn_penalty_eur_per_kw (pz_rule rv) * \<sigma> s) (pz_s_penalty rv)) rule_vars))"

definition read_penalty_solution :: "assignment \<Rightarrow> penalty_rule_vars list \<Rightarrow> f64 list list" where
  "read_penalty_solution \<sigma> rule_vars = map (\<lambda>rv. map \<sigma> (pz_s_penalty rv)) rule_vars"

section \<open>What couples the assets\<close>

record global_milp_inputs =
  gi_n :: nat
  gi_dt_h :: "f64 list"
  gi_forecast_surplus_kw :: "f64 list"

record grid_milp_vars =
  gv_p_imp :: "lp_var list"
  gv_p_exp :: "lp_var list"
  gv_u_grid :: "lp_var list"
  gv_s_imp_viol :: "lp_var list"
  gv_s_exp_viol :: "lp_var list"

record milp_var_pool =
  mv_grid :: grid_milp_vars
  mv_assets :: "declared_asset list"

definition net_power_sum :: "milp_var_pool \<Rightarrow> nat \<Rightarrow> (declared_asset \<Rightarrow> bool) \<Rightarrow> lp_expr" where
  "net_power_sum pool t include = sum_expr (map (\<lambda>a. net_power_expr a t) (filter include (mv_assets pool)))"

definition forecast_net_power_expr :: "milp_var_pool \<Rightarrow> nat \<Rightarrow> lp_expr" where
  "forecast_net_power_expr pool t = net_power_sum pool t (\<lambda>a. \<not> dispatched a)"

definition dispatched_net_power_expr :: "milp_var_pool \<Rightarrow> nat \<Rightarrow> lp_expr" where
  "dispatched_net_power_expr pool t = net_power_sum pool t dispatched"

record coexist_pair =
  cq_discharger :: nat
  cq_switched :: nat
  cq_x_coexist :: "lp_var option list"

datatype interaction_vars = CoexistVars "coexist_pair list" | MalusVars "lp_var list"

text \<open>The two interactions, each with its coefficient.\<close>

datatype asset_interaction = BatEvCoexist f64 | CtrlImportMalus f64

definition coexist_pairs :: "milp_var_pool \<Rightarrow> (nat \<times> nat) list" where
  "coexist_pairs pool =
     concat (map (\<lambda>(d, discharger).
       if discharge_leg_of discharger = None then []
       else map (\<lambda>(s, _). (d, s))
         (filter (\<lambda>(s, switched). s \<noteq> d \<and> on_indicator_of switched \<noteq> None) (enumerate 0 (mv_assets pool))))
       (enumerate 0 (mv_assets pool)))"

fun interaction_applicable :: "asset_interaction \<Rightarrow> milp_var_pool \<Rightarrow> bool" where
  "interaction_applicable (BatEvCoexist c) pool \<longleftrightarrow> coexist_pairs pool \<noteq> []"
| "interaction_applicable (CtrlImportMalus c) pool \<longleftrightarrow> True"

fun declare_coexist_slots ::
  "f64 \<Rightarrow> f64 \<Rightarrow> f64 list \<Rightarrow> lp_domain list \<Rightarrow> lp_var option list \<times> lp_domain list" where
  "declare_coexist_slots p_min max_kw [] vars = ([], vars)"
| "declare_coexist_slots p_min max_kw (surplus # rest) vars =
     (if p_min \<le> surplus then
        let (x, vars1) = add_var (between 0 max_kw) vars;
            (xs, vars2) = declare_coexist_slots p_min max_kw rest vars1 in (Some x # xs, vars2)
      else let (xs, vars1) = declare_coexist_slots p_min max_kw rest vars in (None # xs, vars1))"

fun declare_coexist_pairs ::
  "milp_var_pool \<Rightarrow> global_milp_inputs \<Rightarrow> (nat \<times> nat) list \<Rightarrow> lp_domain list \<Rightarrow> coexist_pair list \<times> lp_domain list" where
  "declare_coexist_pairs pool global [] vars = ([], vars)"
| "declare_coexist_pairs pool global ((d, s) # pairs) vars =
     (case (discharge_leg_of (mv_assets pool ! d), on_indicator_of (mv_assets pool ! s)) of
        (Some leg, Some on) \<Rightarrow>
          (let (xs, vars1) = declare_coexist_slots (oi_p_min_kw on) (dl_max_kw leg)
                 (map (\<lambda>t. gi_forecast_surplus_kw global ! t) [0..<gi_n global]) vars;
               (rest, vars2) = declare_coexist_pairs pool global pairs vars1
           in (\<lparr>cq_discharger = d, cq_switched = s, cq_x_coexist = xs\<rparr> # rest, vars2))
      | _ \<Rightarrow> declare_coexist_pairs pool global pairs vars)"

fun interaction_declare_vars ::
  "asset_interaction \<Rightarrow> milp_var_pool \<Rightarrow> global_milp_inputs \<Rightarrow> lp_domain list \<Rightarrow> interaction_vars \<times> lp_domain list" where
  "interaction_declare_vars (BatEvCoexist c) pool global vars =
     map_prod CoexistVars id (declare_coexist_pairs pool global (coexist_pairs pool) vars)"
| "interaction_declare_vars (CtrlImportMalus c) pool global vars =
     map_prod MalusVars id (add_vars (replicate (gi_n global) (at_least 0)) vars)"

text \<open>The envelope of \<open>x = p_dis * z_on\<close> in one slot.\<close>

definition coexist_rows :: "discharge_leg \<Rightarrow> on_indicator \<Rightarrow> nat \<Rightarrow> lp_var \<Rightarrow> lp_row list" where
  "coexist_rows leg on t x =
     [\<lambda>\<sigma>. \<sigma> x \<le> \<sigma> (dl_p_dis leg ! t),
      \<lambda>\<sigma>. \<sigma> x \<le> dl_max_kw leg * \<sigma> (oi_z_on on ! t),
      \<lambda>\<sigma>. \<sigma> (dl_p_dis leg ! t) - dl_max_kw leg * (1 - \<sigma> (oi_z_on on ! t)) \<le> \<sigma> x]"

definition pair_rows :: "milp_var_pool \<Rightarrow> nat \<Rightarrow> coexist_pair \<Rightarrow> lp_row list" where
  "pair_rows pool n pair =
     (case (discharge_leg_of (mv_assets pool ! cq_discharger pair), on_indicator_of (mv_assets pool ! cq_switched pair)) of
        (Some leg, Some on) \<Rightarrow> concat (map (\<lambda>t. case cq_x_coexist pair ! t of
            Some x \<Rightarrow> coexist_rows leg on t x | None \<Rightarrow> []) [0..<n])
      | _ \<Rightarrow> [])"

definition malus_row :: "milp_var_pool \<Rightarrow> f64 list \<Rightarrow> lp_var list \<Rightarrow> nat \<Rightarrow> lp_row" where
  "malus_row pool surplus_kw p_ctrl_imp t =
     (\<lambda>\<sigma>. dispatched_net_power_expr pool t \<sigma> - max (surplus_kw ! t) 0 \<le> \<sigma> (p_ctrl_imp ! t))"

fun interaction_constraints ::
  "asset_interaction \<Rightarrow> milp_var_pool \<Rightarrow> interaction_vars \<Rightarrow> global_milp_inputs \<Rightarrow> lp_row list" where
  "interaction_constraints (BatEvCoexist c) pool (CoexistVars pairs) global =
     concat (map (pair_rows pool (gi_n global)) pairs)"
| "interaction_constraints (CtrlImportMalus c) pool (MalusVars p_ctrl_imp) global =
     map (malus_row pool (gi_forecast_surplus_kw global) p_ctrl_imp) [0..<gi_n global]"
| "interaction_constraints _ pool _ global = []"

fun interaction_objective :: "asset_interaction \<Rightarrow> interaction_vars \<Rightarrow> f64 list \<Rightarrow> lp_expr" where
  "interaction_objective (BatEvCoexist c) (CoexistVars pairs) dt_h =
     sum_expr (concat (map (\<lambda>pair. List.map_filter
         (\<lambda>(t, x). map_option (\<lambda>v \<sigma>. c * dt_h ! t * \<sigma> v) x) (enumerate 0 (cq_x_coexist pair))) pairs))"
| "interaction_objective (CtrlImportMalus c) (MalusVars p_ctrl_imp) dt_h =
     sum_expr (map (\<lambda>(t, x) \<sigma>. c * dt_h ! t * \<sigma> x) (enumerate 0 p_ctrl_imp))"
| "interaction_objective _ _ dt_h = (\<lambda>\<sigma>. 0)"

definition build_interactions :: "f64 \<Rightarrow> f64 \<Rightarrow> asset_interaction list" where
  "build_interactions c_bat_ev_coexist c_ctrl_imp_malus =
     (if 0 < c_bat_ev_coexist then [BatEvCoexist c_bat_ev_coexist] else []) @
     (if 0 < c_ctrl_imp_malus then [CtrlImportMalus c_ctrl_imp_malus] else [])"

section \<open>The skeleton\<close>

datatype solve_declaration = DeclarePhase1 | DeclarePhase2 | DeclarePinned solve_output

fun u_grid_domain :: "solve_declaration \<Rightarrow> nat \<Rightarrow> lp_domain" where
  "u_grid_domain (DeclarePinned winning) t =
     fixed_at (pinned_binary (Some (if 1 / 1000000 < so_p_imp_kw winning ! t then 1 else 0)))"
| "u_grid_domain d t = binary"

text \<open>How a solve declares an asset; pinned to a solution without it, the code panics.\<close>

fun declare_mode_of :: "solve_declaration \<Rightarrow> asset_milp_context \<Rightarrow> declare_mode option" where
  "declare_mode_of DeclarePhase1 ctx = Some (PlanMode False)"
| "declare_mode_of DeclarePhase2 ctx = Some (PlanMode True)"
| "declare_mode_of (DeclarePinned winning) ctx = map_option PinnedMode (solved_asset winning (ctx_asset_id ctx))"

definition declare_assets ::
  "solve_declaration \<Rightarrow> asset_milp_context list \<Rightarrow> nat \<Rightarrow> lp_domain list \<Rightarrow> (declared_asset list \<times> lp_domain list) option" where
  "declare_assets declr ctxs n vars =
     declare_each (\<lambda>ctx vars. map_option (\<lambda>mode. ctx_declare ctx n mode vars) (declare_mode_of declr ctx)) ctxs vars"

fun declare_interactions ::
  "milp_var_pool \<Rightarrow> global_milp_inputs \<Rightarrow> asset_interaction list \<Rightarrow> lp_domain list
   \<Rightarrow> (asset_interaction \<times> interaction_vars) list \<times> lp_domain list" where
  "declare_interactions pool global [] vars = ([], vars)"
| "declare_interactions pool global (i # is) vars =
     (if interaction_applicable i pool then
        let (iv, vars1) = interaction_declare_vars i pool global vars;
            (rest, vars2) = declare_interactions pool global is vars1 in ((i, iv) # rest, vars2)
      else declare_interactions pool global is vars)"

record model_skeleton =
  sk_global :: global_milp_inputs
  sk_pool :: milp_var_pool
  sk_penalty_vars :: "penalty_rule_vars list"
  sk_interactions :: "(asset_interaction \<times> interaction_vars) list"

definition grid_declare :: "solve_declaration \<Rightarrow> nat \<Rightarrow> lp_domain list \<Rightarrow> grid_milp_vars \<times> lp_domain list" where
  "grid_declare declr n vars0 =
     (let (p_imp, vars1) = add_vars (replicate n (at_least 0)) vars0;
          (p_exp, vars2) = add_vars (replicate n (at_least 0)) vars1;
          (u_grid, vars3) = add_vars (map (u_grid_domain declr) [0..<n]) vars2;
          (s_imp, vars4) = add_vars (replicate n (at_least 0)) vars3;
          (s_exp, vars5) = add_vars (replicate n (at_least 0)) vars4
      in (\<lparr>gv_p_imp = p_imp, gv_p_exp = p_exp, gv_u_grid = u_grid, gv_s_imp_viol = s_imp, gv_s_exp_viol = s_exp\<rparr>, vars5))"

definition skeleton_declare ::
  "milp_inputs \<Rightarrow> phase1_weights \<Rightarrow> asset_milp_context list \<Rightarrow> solve_declaration
   \<Rightarrow> (lp_domain list \<times> model_skeleton) option" where
  "skeleton_declare inputs p1w ctxs declr =
     (let n = mi_n inputs;
          global = \<lparr>gi_n = n, gi_dt_h = mi_dt_h inputs, gi_forecast_surplus_kw = forecast_surplus_kw inputs\<rparr>;
          follows = (\<lambda>ctx. ctx_participation ctx \<noteq> Dispatched);
          (exchange, vars1) = grid_declare declr n []
      in case declare_assets declr (takeWhile follows ctxs) n vars1 of None \<Rightarrow> None
         | Some (forecasts, vars2) \<Rightarrow>
           let (penalties, vars3) = declare_penalty_vars (mi_penalty_rules inputs) (mi_cum_s inputs) vars2
           in case declare_assets declr (dropWhile follows ctxs) n vars3 of None \<Rightarrow> None
              | Some (others, vars4) \<Rightarrow>
                let pool = \<lparr>mv_grid = exchange, mv_assets = forecasts @ others\<rparr>;
                    (ints, vars5) = declare_interactions pool global
                      (build_interactions (w1_c_bat_ev_coexist_eur_kwh p1w) (w1_c_ctrl_imp_malus_eur_kwh p1w)) vars4
                in Some (vars5, \<lparr>sk_global = global, sk_pool = pool, sk_penalty_vars = penalties, sk_interactions = ints\<rparr>))"

definition grid_cost_terms :: "grid_milp_vars \<Rightarrow> milp_inputs \<Rightarrow> phase1_weights \<Rightarrow> nat \<Rightarrow> lp_expr list" where
  "grid_cost_terms g inputs p1w t =
     (let dt = mi_dt_h inputs ! t; p_imp = gv_p_imp g ! t; p_exp = gv_p_exp g ! t
      in [\<lambda>\<sigma>. w1_energy p1w * dt * mi_c_imp_eur_kwh inputs ! t * \<sigma> p_imp,
          \<lambda>\<sigma>. - (w1_energy p1w * dt * mi_c_exp_eur_kwh inputs ! t) * \<sigma> p_exp,
          \<lambda>\<sigma>. w1_ghg p1w * dt * mi_g_imp_kgco2_kwh inputs ! t * \<sigma> p_imp,
          \<lambda>\<sigma>. w1_grid p1w * dt * \<sigma> p_imp,
          \<lambda>\<sigma>. w1_grid p1w * dt * \<sigma> p_exp,
          \<lambda>\<sigma>. w1_import p1w * dt * \<sigma> p_imp,
          \<lambda>\<sigma>. w1_viol p1w * mi_pen_imp_eur_kwh inputs * dt * \<sigma> (gv_s_imp_viol g ! t),
          \<lambda>\<sigma>. w1_viol p1w * mi_pen_exp_eur_kwh inputs * dt * \<sigma> (gv_s_exp_viol g ! t)])"

definition cost_expr :: "model_skeleton \<Rightarrow> milp_inputs \<Rightarrow> phase1_weights \<Rightarrow> lp_expr" where
  "cost_expr sk inputs p1w =
     (let n = mi_n inputs; assets = mv_assets (sk_pool sk);
          cost = (\<lambda>a. asset_objective a (CostPart (w1_c_storage_wear_eur_kwh p1w)) n (mi_dt_h inputs))
      in sum_expr (concat (map (grid_cost_terms (mv_grid (sk_pool sk)) inputs p1w) [0..<n]) @
           [penalty_objective (sk_penalty_vars sk)] @
           map cost (filter dispatched assets) @
           map (\<lambda>(i, iv). interaction_objective i iv (mi_dt_h inputs)) (sk_interactions sk) @
           map cost (filter (\<lambda>a. \<not> dispatched a) assets)))"

definition friction_expr :: "model_skeleton \<Rightarrow> milp_inputs \<Rightarrow> lp_expr" where
  "friction_expr sk inputs =
     (let assets = mv_assets (sk_pool sk)
      in sum_expr (map (\<lambda>a. asset_objective a FrictionPart (mi_n inputs) (mi_dt_h inputs))
           (filter dispatched assets @ filter (\<lambda>a. \<not> dispatched a) assets)))"

definition power_balance :: "milp_var_pool \<Rightarrow> milp_inputs \<Rightarrow> nat \<Rightarrow> lp_row" where
  "power_balance pool inputs t = (\<lambda>\<sigma>. \<sigma> (gv_p_imp (mv_grid pool) ! t) - forecast_net_power_expr pool t \<sigma> -
     dispatched_net_power_expr pool t \<sigma> - \<sigma> (gv_p_exp (mv_grid pool) ! t) = mi_load_adjust_kw inputs ! t)"

definition grid_slot_rows :: "grid_milp_vars \<Rightarrow> milp_inputs \<Rightarrow> nat \<Rightarrow> lp_row list" where
  "grid_slot_rows g inputs t =
     [\<lambda>\<sigma>. \<sigma> (gv_p_imp g ! t) \<le> mi_p_imp_max_phys_kw inputs ! t * \<sigma> (gv_u_grid g ! t),
      \<lambda>\<sigma>. \<sigma> (gv_p_exp g ! t) \<le> mi_p_exp_max_phys_kw inputs ! t * (1 - \<sigma> (gv_u_grid g ! t)),
      \<lambda>\<sigma>. \<sigma> (gv_p_imp g ! t) \<le> mi_p_imp_max_cont_kw inputs ! t + \<sigma> (gv_s_imp_viol g ! t),
      \<lambda>\<sigma>. \<sigma> (gv_p_exp g ! t) \<le> mi_p_exp_max_cont_kw inputs ! t + \<sigma> (gv_s_exp_viol g ! t)]"

definition model_rows :: "model_skeleton \<Rightarrow> milp_inputs \<Rightarrow> lp_row list" where
  "model_rows sk inputs =
     (let n = mi_n inputs; pool = sk_pool sk
      in concat (map (\<lambda>t. power_balance pool inputs t #
             concat (map (\<lambda>a. slot_constraints a t) (mv_assets pool)) @ grid_slot_rows (mv_grid pool) inputs t) [0..<n]) @
         concat (map (\<lambda>a. asset_constraints a n (gi_dt_h (sk_global sk))) (mv_assets pool)) @
         concat (map (\<lambda>(i, iv). interaction_constraints i pool iv (sk_global sk)) (sk_interactions sk)) @
         penalty_constraints (gv_p_imp (mv_grid pool)) (mi_cum_s inputs) (sk_penalty_vars sk))"

definition read_output ::
  "writers \<Rightarrow> model_skeleton \<Rightarrow> solution_status \<Rightarrow> assignment \<Rightarrow> lp_expr \<Rightarrow> milp_inputs \<Rightarrow> solve_output" where
  "read_output w sk status \<sigma> objective inputs =
     (let n = mi_n inputs; g = mv_grid (sk_pool sk); series = (\<lambda>vs. map (\<lambda>t. \<sigma> (vs ! t)) [0..<n])
      in \<lparr>so_status = status, so_objective_eur = objective \<sigma>, so_p_imp_kw = series (gv_p_imp g),
          so_p_exp_kw = series (gv_p_exp g), so_s_imp_viol_kw = series (gv_s_imp_viol g),
          so_s_exp_viol_kw = series (gv_s_exp_viol g), so_s_penalty_kw = read_penalty_solution \<sigma> (sk_penalty_vars sk),
          so_assets = map (\<lambda>a. asset_read w a \<sigma> n) (mv_assets (sk_pool sk))\<rparr>)"

definition grid_warm_slot :: "grid_milp_vars \<Rightarrow> solve_output \<Rightarrow> nat \<Rightarrow> (lp_var \<times> f64) list" where
  "grid_warm_slot g p1 t =
     [(gv_p_imp g ! t, max (so_p_imp_kw p1 ! t) 0), (gv_p_exp g ! t, max (so_p_exp_kw p1 ! t) 0),
      (gv_u_grid g ! t, if 1 / 1000000 < so_p_imp_kw p1 ! t then 1 else 0),
      (gv_s_imp_viol g ! t, max (so_s_imp_viol_kw p1 ! t) 0), (gv_s_exp_viol g ! t, max (so_s_exp_viol_kw p1 ! t) 0)]"

definition warm_start :: "model_skeleton \<Rightarrow> solve_output \<Rightarrow> (lp_var \<times> f64) list" where
  "warm_start sk p1 =
     (let n = gi_n (sk_global sk)
      in concat (map (grid_warm_slot (mv_grid (sk_pool sk)) p1) [0..<n]) @
         concat (map (\<lambda>a. case solved_asset p1 (asset_id_of a) of Some own \<Rightarrow> asset_warm_start a own n | None \<Rightarrow> [])
           (mv_assets (sk_pool sk))))"


section \<open>What a declaration of the site promises\<close>

lemma grid_declare_eq:
  "grid_declare declr n vars =
    (let b = length vars in
     (\<lparr>gv_p_imp = [b..<b + n], gv_p_exp = [b + n..<b + 2 * n], gv_u_grid = [b + 2 * n..<b + 3 * n],
       gv_s_imp_viol = [b + 3 * n..<b + 4 * n], gv_s_exp_viol = [b + 4 * n..<b + 5 * n]\<rparr>,
      vars @ replicate n (at_least 0) @ replicate n (at_least 0) @ map (u_grid_domain declr) [0..<n] @
        replicate n (at_least 0) @ replicate n (at_least 0)))"
  by (simp add: grid_declare_def add_vars_eq Let_def numeral_eq_Suc add.assoc)

lemma u_grid_domain_cases: "in_domain (u_grid_domain declr t) x \<Longrightarrow> x = 0 \<or> x = 1"
  using pinned_binary_cases by (cases declr) auto

lemma grid_declared:
  assumes "grid_declare declr n vars = (g, vars')" and "in_bounds (vars' @ rest) \<sigma>" and t: "t < n"
  shows "0 \<le> \<sigma> (gv_p_imp g ! t)" "0 \<le> \<sigma> (gv_p_exp g ! t)" "0 \<le> \<sigma> (gv_s_imp_viol g ! t)" "0 \<le> \<sigma> (gv_s_exp_viol g ! t)"
    and "in_domain (u_grid_domain declr t) (\<sigma> (gv_u_grid g ! t))"
proof -
  define b where "b = length vars"
  have g: "g = \<lparr>gv_p_imp = [b..<b + n], gv_p_exp = [b + n..<b + 2 * n], gv_u_grid = [b + 2 * n..<b + 3 * n],
       gv_s_imp_viol = [b + 3 * n..<b + 4 * n], gv_s_exp_viol = [b + 4 * n..<b + 5 * n]\<rparr>"
    and vars': "vars' = vars @ replicate n (at_least 0) @ replicate n (at_least 0) @ map (u_grid_domain declr) [0..<n] @
        replicate n (at_least 0) @ replicate n (at_least 0)"
    using assms(1) unfolding grid_declare_eq Let_def b_def by (metis prod.inject)+
  have k: "b + n + n = b + 2 * n" "b + 2 * n + n = b + 3 * n" "b + 3 * n + n = b + 4 * n" by simp_all
  have "block_bounds b (replicate n (at_least 0) @ replicate n (at_least 0) @ map (u_grid_domain declr) [0..<n] @
        replicate n (at_least 0) @ replicate n (at_least 0)) \<sigma>"
    using assms(2) by (simp add: vars' in_bounds_append b_def)
  then have dom: "\<forall>i < n. in_domain (at_least 0) (\<sigma> (b + i))" "\<forall>i < n. in_domain (at_least 0) (\<sigma> (b + n + i))"
      "\<forall>i < n. in_domain (u_grid_domain declr i) (\<sigma> (b + 2 * n + i))" "\<forall>i < n. in_domain (at_least 0) (\<sigma> (b + 3 * n + i))"
      "\<forall>i < n. in_domain (at_least 0) (\<sigma> (b + 4 * n + i))"
    unfolding block_bounds_append block_bounds_simps block_bounds_map length_replicate length_map length_upt minus_nat.diff_0 k
    by blast+
  show "0 \<le> \<sigma> (gv_p_imp g ! t)" "0 \<le> \<sigma> (gv_p_exp g ! t)" "0 \<le> \<sigma> (gv_s_imp_viol g ! t)" "0 \<le> \<sigma> (gv_s_exp_viol g ! t)"
    and "in_domain (u_grid_domain declr t) (\<sigma> (gv_u_grid g ! t))"
    using dom t by (simp_all add: g)
qed

lemma penalty_extends: "declare_penalty_vars rules cum_s vars = (rvs, vars') \<Longrightarrow> \<exists>es. vars' = vars @ es"
  by (induction rules arbitrary: vars rvs) (fastforce simp: add_vars_eq Let_def split: prod.splits)+

lemma penalty_slacks:
  assumes "declare_penalty_vars rules cum_s vars = (rvs, vars')" and "in_bounds (vars' @ rest) \<sigma>"
  shows "map pz_rule rvs = rules \<and> (\<forall>rv \<in> set rvs. length (pz_s_penalty rv) = num_windows cum_s (pn_measurement_window_s (pz_rule rv)) \<and>
    (\<forall>s \<in> set (pz_s_penalty rv). 0 \<le> \<sigma> s))"
  using assms
proof (induction rules arbitrary: vars rvs)
  case (Cons rule rules)
  define k where "k = num_windows cum_s (pn_measurement_window_s rule)"
  obtain rest_vars where r: "declare_penalty_vars rules cum_s (vars @ replicate k (at_least 0)) = (rest_vars, vars')"
      and rvs: "rvs = \<lparr>pz_rule = rule, pz_s_penalty = [length vars..<length vars + k]\<rparr> # rest_vars"
    using Cons.prems(1) by (auto simp: add_vars_eq k_def Let_def split: prod.splits)
  from penalty_extends [OF r] obtain es where "vars' = (vars @ replicate k (at_least 0)) @ es" by blast
  with Cons.prems(2) have "\<forall>i < k. 0 \<le> \<sigma> (length vars + i)" by (simp add: in_bounds_append)
  then have "0 \<le> \<sigma> s" if "length vars \<le> s" "s < length vars + k" for s using that by (auto dest: spec [of _ "s - length vars"])
  with Cons.IH [OF r Cons.prems(2)] rvs show ?case
    by (auto simp: k_def)
qed simp_all


text \<open>The auxiliaries of a coexisting pair: one for every slot whose surplus covers the switched load.\<close>

lemma coexist_slots_declared:
  assumes "declare_coexist_slots p_min max_kw surplus vars = (xs, vars')"
  shows "(\<exists>es. vars' = vars @ es) \<and> length xs = length surplus \<and> (\<forall>\<sigma> rest. in_bounds (vars' @ rest) \<sigma> \<longrightarrow>
    (\<forall>t < length surplus. if p_min \<le> surplus ! t then \<exists>x. xs ! t = Some x \<and> 0 \<le> \<sigma> x else xs ! t = None))"
  using assms
proof (induction surplus arbitrary: vars xs)
  case (Cons s surplus)
  show ?case
  proof (cases "p_min \<le> s")
    case True
    then obtain ys where r: "declare_coexist_slots p_min max_kw surplus (vars @ [between 0 max_kw]) = (ys, vars')"
        and xs: "xs = Some (length vars) # ys"
      using Cons.prems by (auto simp: Let_def split: prod.splits)
    from Cons.IH [OF r] obtain es where es: "vars' = (vars @ [between 0 max_kw]) @ es" by blast
    have "0 \<le> \<sigma> (length vars)" if "in_bounds (vars' @ rest) \<sigma>" for \<sigma> rest
      using that by (simp add: es in_bounds_append block_bounds_Cons)
    with Cons.IH [OF r] es True xs show ?thesis by (auto simp: nth_Cons split: nat.splits)
  next
    case False
    then obtain ys where r: "declare_coexist_slots p_min max_kw surplus vars = (ys, vars')" and xs: "xs = None # ys"
      using Cons.prems by (auto simp: Let_def split: prod.splits)
    from Cons.IH [OF r] False xs show ?thesis by (auto simp: nth_Cons split: nat.splits)
  qed
qed simp

definition pair_declared :: "milp_var_pool \<Rightarrow> global_milp_inputs \<Rightarrow> assignment \<Rightarrow> coexist_pair \<Rightarrow> bool" where
  "pair_declared pool global \<sigma> pair \<longleftrightarrow>
     length (cq_x_coexist pair) = gi_n global \<and>
     (\<exists>leg ind. discharge_leg_of (mv_assets pool ! cq_discharger pair) = Some leg \<and>
        on_indicator_of (mv_assets pool ! cq_switched pair) = Some ind \<and>
        (\<forall>t < gi_n global. if oi_p_min_kw ind \<le> gi_forecast_surplus_kw global ! t
           then \<exists>x. cq_x_coexist pair ! t = Some x \<and> 0 \<le> \<sigma> x else cq_x_coexist pair ! t = None))"

lemma coexist_pairs_declared:
  assumes "declare_coexist_pairs pool global ps vars = (pairs, vars')"
  shows "(\<exists>es. vars' = vars @ es) \<and> (\<forall>pair \<in> set pairs. (cq_discharger pair, cq_switched pair) \<in> set ps) \<and>
    (\<forall>\<sigma> rest. in_bounds (vars' @ rest) \<sigma> \<longrightarrow> (\<forall>pair \<in> set pairs. pair_declared pool global \<sigma> pair))"
  using assms
proof (induction ps arbitrary: vars pairs)
  case (Cons p ps)
  obtain d s where p: "p = (d, s)" by (cases p)
  show ?case
  proof (cases "discharge_leg_of (mv_assets pool ! d) = None \<or> on_indicator_of (mv_assets pool ! s) = None")
    case True
    then have "declare_coexist_pairs pool global ps vars = (pairs, vars')" using Cons.prems p by (auto split: option.splits)
    from Cons.IH [OF this] show ?thesis by auto
  next
    case False
    then obtain leg ind where li: "discharge_leg_of (mv_assets pool ! d) = Some leg" "on_indicator_of (mv_assets pool ! s) = Some ind"
      by auto
    define surplus where "surplus = map (\<lambda>t. gi_forecast_surplus_kw global ! t) [0..<gi_n global]"
    obtain xs vars1 qs where x: "declare_coexist_slots (oi_p_min_kw ind) (dl_max_kw leg) surplus vars = (xs, vars1)"
        and r: "declare_coexist_pairs pool global ps vars1 = (qs, vars')"
        and pairs: "pairs = \<lparr>cq_discharger = d, cq_switched = s, cq_x_coexist = xs\<rparr> # qs"
      using Cons.prems p li by (auto simp: Let_def surplus_def split: prod.splits)
    from Cons.IH [OF r] obtain es where es: "vars' = vars1 @ es" by blast
    have "pair_declared pool global \<sigma> \<lparr>cq_discharger = d, cq_switched = s, cq_x_coexist = xs\<rparr>"
      if "in_bounds (vars' @ rest) \<sigma>" for \<sigma> rest
    proof -
      from that have "in_bounds (vars1 @ es @ rest) \<sigma>" by (simp add: es)
      with coexist_slots_declared [OF x] show ?thesis by (fastforce simp: pair_declared_def li surplus_def)
    qed
    with Cons.IH [OF r] coexist_slots_declared [OF x] es pairs p show ?thesis by auto
  qed
qed simp

lemma coexist_pairs_mem: "(d, s) \<in> set (coexist_pairs pool) \<Longrightarrow> d < length (mv_assets pool) \<and> s < length (mv_assets pool) \<and> s \<noteq> d"
  by (auto simp: coexist_pairs_def in_set_enumerate_eq split: if_splits)

definition interaction_declared :: "milp_var_pool \<Rightarrow> global_milp_inputs \<Rightarrow> assignment \<Rightarrow> asset_interaction \<times> interaction_vars \<Rightarrow> bool" where
  "interaction_declared pool global \<sigma> p \<longleftrightarrow>
     (case p of
        (BatEvCoexist c, CoexistVars pairs) \<Rightarrow> (\<forall>pair \<in> set pairs. pair_declared pool global \<sigma> pair \<and>
          cq_discharger pair < length (mv_assets pool) \<and> cq_switched pair < length (mv_assets pool))
      | (CtrlImportMalus c, MalusVars vs) \<Rightarrow> length vs = gi_n global \<and> (\<forall>v \<in> set vs. 0 \<le> \<sigma> v)
      | _ \<Rightarrow> False)"

lemma interaction_vars_declared:
  assumes "interaction_declare_vars i pool global vars = (iv, vars')"
  shows "(\<exists>es. vars' = vars @ es) \<and> (\<forall>\<sigma> rest. in_bounds (vars' @ rest) \<sigma> \<longrightarrow> interaction_declared pool global \<sigma> (i, iv))"
proof (cases i)
  case (BatEvCoexist c)
  then obtain pairs where r: "declare_coexist_pairs pool global (coexist_pairs pool) vars = (pairs, vars')" and iv: "iv = CoexistVars pairs"
    using assms by (auto simp: map_prod_pair)
  have "cq_discharger pair < length (mv_assets pool) \<and> cq_switched pair < length (mv_assets pool)" if "pair \<in> set pairs" for pair
    using coexist_pairs_declared [OF r] that coexist_pairs_mem by blast
  with coexist_pairs_declared [OF r] show ?thesis by (auto simp: interaction_declared_def BatEvCoexist iv)
next
  case (CtrlImportMalus c)
  have nonneg: "0 \<le> \<sigma> v" if "\<forall>i < gi_n global. 0 \<le> \<sigma> (length vars + i)" "length vars \<le> v" "v < length vars + gi_n global" for \<sigma> v
    using that by (auto dest: spec [of _ "v - length vars"])
  show ?thesis using assms
    by (auto simp: CtrlImportMalus map_prod_pair add_vars_eq interaction_declared_def in_bounds_append nonneg)
qed

lemma interactions_declared:
  assumes "declare_interactions pool global is vars = (ivs, vars')"
  shows "(\<exists>es. vars' = vars @ es) \<and> (\<forall>\<sigma> rest. in_bounds (vars' @ rest) \<sigma> \<longrightarrow> (\<forall>p \<in> set ivs. interaction_declared pool global \<sigma> p))"
  using assms
proof (induction "is" arbitrary: vars ivs)
  case (Cons i js)
  show ?case
  proof (cases "interaction_applicable i pool")
    case True
    then obtain iv vars1 rest where v: "interaction_declare_vars i pool global vars = (iv, vars1)"
        and r: "declare_interactions pool global js vars1 = (rest, vars')" and ivs: "ivs = (i, iv) # rest"
      using Cons.prems by (auto simp: Let_def split: prod.splits)
    from Cons.IH [OF r] obtain es where es: "vars' = vars1 @ es" by blast
    have "interaction_declared pool global \<sigma> (i, iv)" if "in_bounds (vars' @ more) \<sigma>" for \<sigma> more
    proof -
      from that have "in_bounds (vars1 @ es @ more) \<sigma>" by (simp add: es)
      with interaction_vars_declared [OF v] show ?thesis by blast
    qed
    with Cons.IH [OF r] interaction_vars_declared [OF v] es ivs show ?thesis by auto
  next
    case False
    with Cons show ?thesis by simp
  qed
qed simp


definition site_globals :: "milp_inputs \<Rightarrow> global_milp_inputs" where
  "site_globals inputs = \<lparr>gi_n = mi_n inputs, gi_dt_h = mi_dt_h inputs, gi_forecast_surplus_kw = forecast_surplus_kw inputs\<rparr>"

lemma skeleton_parts:
  assumes "skeleton_declare inputs p1w ctxs declr = Some (vars, sk)"
  obtains g vars1 forecasts vars2 pens vars3 others vars4 ints where
    "grid_declare declr (mi_n inputs) [] = (g, vars1)"
    "declare_assets declr (takeWhile (\<lambda>c. ctx_participation c \<noteq> Dispatched) ctxs) (mi_n inputs) vars1 = Some (forecasts, vars2)"
    "declare_penalty_vars (mi_penalty_rules inputs) (mi_cum_s inputs) vars2 = (pens, vars3)"
    "declare_assets declr (dropWhile (\<lambda>c. ctx_participation c \<noteq> Dispatched) ctxs) (mi_n inputs) vars3 = Some (others, vars4)"
    "declare_interactions \<lparr>mv_grid = g, mv_assets = forecasts @ others\<rparr> (site_globals inputs)
       (build_interactions (w1_c_bat_ev_coexist_eur_kwh p1w) (w1_c_ctrl_imp_malus_eur_kwh p1w)) vars4 = (ints, vars)"
    "sk = \<lparr>sk_global = site_globals inputs, sk_pool = \<lparr>mv_grid = g, mv_assets = forecasts @ others\<rparr>,
       sk_penalty_vars = pens, sk_interactions = ints\<rparr>"
  using assms unfolding skeleton_declare_def Let_def site_globals_def [symmetric]
  by (auto split: prod.splits option.splits)

lemma skeleton_declareI:
  assumes "grid_declare declr (mi_n inputs) [] = (g, vars1)"
    and "declare_assets declr (takeWhile (\<lambda>c. ctx_participation c \<noteq> Dispatched) ctxs) (mi_n inputs) vars1 = Some (forecasts, vars2)"
    and "declare_penalty_vars (mi_penalty_rules inputs) (mi_cum_s inputs) vars2 = (pens, vars3)"
    and "declare_assets declr (dropWhile (\<lambda>c. ctx_participation c \<noteq> Dispatched) ctxs) (mi_n inputs) vars3 = Some (others, vars4)"
    and "declare_interactions \<lparr>mv_grid = g, mv_assets = forecasts @ others\<rparr> (site_globals inputs)
       (build_interactions (w1_c_bat_ev_coexist_eur_kwh p1w) (w1_c_ctrl_imp_malus_eur_kwh p1w)) vars4 = (ints, vars)"
  shows "skeleton_declare inputs p1w ctxs declr = Some (vars, \<lparr>sk_global = site_globals inputs,
    sk_pool = \<lparr>mv_grid = g, mv_assets = forecasts @ others\<rparr>, sk_penalty_vars = pens, sk_interactions = ints\<rparr>)"
  unfolding skeleton_declare_def Let_def site_globals_def [symmetric] using assms by simp

lemma assets_declared:
  assumes "declare_assets declr ctxs n vars = Some (ds, vars')"
  shows "(\<exists>es. vars' = vars @ es) \<and> (\<forall>\<sigma> rest. in_bounds (vars' @ rest) \<sigma> \<longrightarrow> list_all (declared_within ctx_declare n \<sigma>) ds)"
  using planned.each_extends [OF assms [unfolded declare_assets_def]] .

lemma assets_identity:
  assumes "declare_assets declr ctxs n vars = Some (ds, vars')"
  shows "list_all2 (\<lambda>c d. asset_id_of d = ctx_asset_id c \<and> (\<forall>w \<sigma> m. as_asset_id (asset_read w d \<sigma> m) = ctx_asset_id c) \<and>
    (dispatched d \<longleftrightarrow> ctx_participation c = Dispatched)) ctxs ds"
  using assms unfolding declare_assets_def
proof (induction ctxs arbitrary: vars ds)
  case (Cons c cs)
  from Cons.prems obtain m d vars1 ds1 where d: "ctx_declare c n m vars = (d, vars1)" and ds: "ds = d # ds1"
      and each: "declare_each (\<lambda>c vars. map_option (\<lambda>m. ctx_declare c n m vars) (declare_mode_of declr c)) cs vars1 = Some (ds1, vars')"
    by (auto split: option.splits prod.splits)
  from Cons.IH [OF each] ctx_identity [OF d] show ?case by (simp add: ds)
qed simp

text \<open>An assignment that solves the site's model, as one solve declares it.\<close>

definition site_solution ::
  "milp_inputs \<Rightarrow> phase1_weights \<Rightarrow> asset_milp_context list \<Rightarrow> solve_declaration \<Rightarrow> model_skeleton \<Rightarrow> assignment \<Rightarrow> bool" where
  "site_solution inputs p1w ctxs declr sk \<sigma> \<longleftrightarrow>
     (case skeleton_declare inputs p1w ctxs declr of None \<Rightarrow> False
      | Some (vars, sk') \<Rightarrow> sk' = sk \<and> in_bounds vars \<sigma> \<and> satisfies (model_rows sk inputs) \<sigma>)"

lemma site_declared:
  assumes "skeleton_declare inputs p1w ctxs declr = Some (vars, sk)" and bounds: "in_bounds vars \<sigma>"
  shows site_declared_global: "sk_global sk = site_globals inputs"
    and site_declared_grid: "t < mi_n inputs \<Longrightarrow> 0 \<le> \<sigma> (gv_p_imp (mv_grid (sk_pool sk)) ! t) \<and>
      0 \<le> \<sigma> (gv_p_exp (mv_grid (sk_pool sk)) ! t) \<and> 0 \<le> \<sigma> (gv_s_imp_viol (mv_grid (sk_pool sk)) ! t) \<and>
      0 \<le> \<sigma> (gv_s_exp_viol (mv_grid (sk_pool sk)) ! t) \<and> in_domain (u_grid_domain declr t) (\<sigma> (gv_u_grid (mv_grid (sk_pool sk)) ! t))"
    and site_declared_assets: "\<forall>d \<in> set (mv_assets (sk_pool sk)). declared_within ctx_declare (mi_n inputs) \<sigma> d"
    and site_declared_interactions: "\<forall>p \<in> set (sk_interactions sk). interaction_declared (sk_pool sk) (sk_global sk) \<sigma> p"
    and site_declared_penalties: "map pz_rule (sk_penalty_vars sk) = mi_penalty_rules inputs"
proof -
  obtain g vars1 forecasts vars2 pens vars3 others vars4 ints where
    gr: "grid_declare declr (mi_n inputs) [] = (g, vars1)" and
    fo: "declare_assets declr (takeWhile (\<lambda>c. ctx_participation c \<noteq> Dispatched) ctxs) (mi_n inputs) vars1 = Some (forecasts, vars2)" and
    pe: "declare_penalty_vars (mi_penalty_rules inputs) (mi_cum_s inputs) vars2 = (pens, vars3)" and
    ot: "declare_assets declr (dropWhile (\<lambda>c. ctx_participation c \<noteq> Dispatched) ctxs) (mi_n inputs) vars3 = Some (others, vars4)" and
    ints: "declare_interactions \<lparr>mv_grid = g, mv_assets = forecasts @ others\<rparr> (site_globals inputs)
       (build_interactions (w1_c_bat_ev_coexist_eur_kwh p1w) (w1_c_ctrl_imp_malus_eur_kwh p1w)) vars4 = (ints, vars)" and
    sk: "sk = \<lparr>sk_global = site_globals inputs, sk_pool = \<lparr>mv_grid = g, mv_assets = forecasts @ others\<rparr>,
       sk_penalty_vars = pens, sk_interactions = ints\<rparr>"
    using skeleton_parts [OF assms(1)] by metis
  obtain e2 e3 e4 e5 where e: "vars2 = vars1 @ e2" "vars3 = vars2 @ e3" "vars4 = vars3 @ e4" "vars = vars4 @ e5"
    using assets_declared [OF fo] penalty_extends [OF pe] assets_declared [OF ot] interactions_declared [OF ints] by blast
  have b1: "in_bounds (vars1 @ e2 @ e3 @ e4 @ e5) \<sigma>" and b2: "in_bounds (vars2 @ e3 @ e4 @ e5) \<sigma>"
      and b3: "in_bounds (vars3 @ e4 @ e5) \<sigma>" and b4: "in_bounds (vars4 @ e5) \<sigma>" and b5: "in_bounds (vars @ []) \<sigma>"
    using bounds by (simp_all add: e)
  show "sk_global sk = site_globals inputs" by (simp add: sk)
  show "t < mi_n inputs \<Longrightarrow> 0 \<le> \<sigma> (gv_p_imp (mv_grid (sk_pool sk)) ! t) \<and>
      0 \<le> \<sigma> (gv_p_exp (mv_grid (sk_pool sk)) ! t) \<and> 0 \<le> \<sigma> (gv_s_imp_viol (mv_grid (sk_pool sk)) ! t) \<and>
      0 \<le> \<sigma> (gv_s_exp_viol (mv_grid (sk_pool sk)) ! t) \<and> in_domain (u_grid_domain declr t) (\<sigma> (gv_u_grid (mv_grid (sk_pool sk)) ! t))"
    using grid_declared [OF gr b1] by (simp add: sk)
  show "\<forall>d \<in> set (mv_assets (sk_pool sk)). declared_within ctx_declare (mi_n inputs) \<sigma> d"
    using assets_declared [OF fo] assets_declared [OF ot] b2 b4 by (auto simp: sk list_all_iff)
  show "\<forall>p \<in> set (sk_interactions sk). interaction_declared (sk_pool sk) (sk_global sk) \<sigma> p"
    using interactions_declared [OF ints, THEN conjunct2, rule_format, OF b5] by (simp add: sk)
  show "map pz_rule (sk_penalty_vars sk) = mi_penalty_rules inputs"
    using penalty_slacks [OF pe] b3 by (simp add: sk)
qed

lemma model_rows_iff:
  "satisfies (model_rows sk inputs) \<sigma> \<longleftrightarrow>
    (\<forall>t < mi_n inputs. power_balance (sk_pool sk) inputs t \<sigma> \<and> (\<forall>d \<in> set (mv_assets (sk_pool sk)). satisfies (slot_constraints d t) \<sigma>) \<and>
      satisfies (grid_slot_rows (mv_grid (sk_pool sk)) inputs t) \<sigma>) \<and>
    (\<forall>d \<in> set (mv_assets (sk_pool sk)). satisfies (asset_constraints d (mi_n inputs) (gi_dt_h (sk_global sk))) \<sigma>) \<and>
    (\<forall>(i, iv) \<in> set (sk_interactions sk). satisfies (interaction_constraints i (sk_pool sk) iv (sk_global sk)) \<sigma>) \<and>
    satisfies (penalty_constraints (gv_p_imp (mv_grid (sk_pool sk))) (mi_cum_s inputs) (sk_penalty_vars sk)) \<sigma>"
  by (auto simp: model_rows_def Let_def)

lemma site_rows:
  assumes "satisfies (model_rows sk inputs) \<sigma>"
  shows site_row_balance: "t < mi_n inputs \<Longrightarrow> power_balance (sk_pool sk) inputs t \<sigma>"
    and site_rows_grid: "t < mi_n inputs \<Longrightarrow> satisfies (grid_slot_rows (mv_grid (sk_pool sk)) inputs t) \<sigma>"
    and site_rows_assets: "d \<in> set (mv_assets (sk_pool sk)) \<Longrightarrow> satisfies (asset_constraints d (mi_n inputs) (gi_dt_h (sk_global sk))) \<sigma>"
    and site_rows_interactions: "(i, iv) \<in> set (sk_interactions sk) \<Longrightarrow>
      satisfies (interaction_constraints i (sk_pool sk) iv (sk_global sk)) \<sigma>"
    and site_rows_penalties: "satisfies (penalty_constraints (gv_p_imp (mv_grid (sk_pool sk))) (mi_cum_s inputs) (sk_penalty_vars sk)) \<sigma>"
  using assms by (auto simp: model_rows_iff)


section \<open>A site of four assets\<close>

text \<open>Two half hours: PV with 3 kW in the first, a base load of 1 kW, the sample battery and the sample EV. The battery
  gives the car 2 kW in the first slot and charges back in the second, the car charges at 6 kW in the first.\<close>

definition sample_pv_ctx :: forecast_milp_context where
  "sample_pv_ctx = \<lparr>fm_asset_id = ''pv'', fm_role = Generation, fm_forecast_kw = [3, 0], fm_curtailable = True\<rparr>"

definition sample_base_ctx :: forecast_milp_context where
  "sample_base_ctx = \<lparr>fm_asset_id = ''base'', fm_role = LoadRole, fm_forecast_kw = [1, 1], fm_curtailable = False\<rparr>"

definition sample_ctxs :: "asset_milp_context list" where
  "sample_ctxs = [ForecastCtx sample_pv_ctx, ForecastCtx sample_base_ctx, BatteryCtx sample_battery_ctx, EvCtx sample_ev_ctx]"

definition sample_peak_rule :: penalty_rule_params where
  "sample_peak_rule = \<lparr>pn_rule_id = ''peak'', pn_threshold_kw = 2, pn_measurement_window_s = 3600, pn_penalty_eur_per_kw = 1\<rparr>"

definition sample_site :: milp_inputs where
  "sample_site = \<lparr>mi_n = 2, mi_dt_h = [1 / 2, 1 / 2], mi_cum_s = [0, 1800, 3600], mi_c_imp_eur_kwh = [3 / 10, 3 / 10],
     mi_rate_stale = [False, False], mi_stale_rate_warning = None, mi_co2_stale_rate_warning = None,
     mi_c_exp_eur_kwh = [1 / 10, 1 / 10], mi_g_imp_kgco2_kwh = [0, 0], mi_generation_forecast_kw = [3, 0],
     mi_load_forecast_kw = [1, 1], mi_load_adjust_kw = [0, 0], mi_p_imp_max_phys_kw = [10, 10], mi_p_exp_max_phys_kw = [10, 10],
     mi_p_imp_max_cont_kw = [10, 5 / 2], mi_p_exp_max_cont_kw = [10, 10], mi_pen_imp_eur_kwh = 10, mi_pen_exp_eur_kwh = 10,
     mi_mip_gap_target = 0, mi_penalty_rules = [sample_peak_rule]\<rparr>"

definition sample_p1w :: phase1_weights where
  "sample_p1w = \<lparr>w1_energy = 1, w1_ghg = 0, w1_grid = 0, w1_import = 0, w1_viol = 1, w1_c_storage_wear_eur_kwh = 0,
     w1_c_bat_ev_coexist_eur_kwh = 1, w1_c_ctrl_imp_malus_eur_kwh = 1\<rparr>"

definition sample_site_plan :: assignment where
  "sample_site_plan = (\<lambda>i. ([2, 3, 0, 0, 1, 1, 0, 1 / 2, 0, 0, 3, 0, 1, 0, 2, 2, 0, 0, 1, 5, 4, 5] @
     map sample_ev_plan [0..<12] @ [2, 2, 2]) ! i)"

definition sample_battery_vars :: "nat \<Rightarrow> battery_milp_vars" where
  "sample_battery_vars b = \<lparr>bv_p_ch = [b, b + 1], bv_p_dis = [b + 2, b + 3], bv_u_bat = [b + 4, b + 5],
     bv_e_bat = [b + 6, b + 7, b + 8], bv_z_active = [], bv_delta_active = [], bv_delta_ramp = [], bv_dis_max_kw = 5\<rparr>"

definition sample_ev_vars :: "nat \<Rightarrow> ev_milp_vars" where
  "sample_ev_vars b = \<lparr>ew_p_ev = [b, b + 1], ew_soc_ev = [b + 2, b + 3, b + 4], ew_drop_unmet = [b + 5, b + 6],
     ew_shortfall_soc = [b + 7], ew_z_ev_on = [b + 8, b + 9], ew_e_seg = [b + 10], ew_e_ev_extra = b + 11, ew_delta_ev = [],
     ew_delta_ev_ramp = [], ew_p_min_kw = 14 / 10, ew_battery_kwh = 60\<rparr>"

definition sample_skeleton :: model_skeleton where
  "sample_skeleton = \<lparr>sk_global = site_globals sample_site,
     sk_pool = \<lparr>mv_grid = \<lparr>gv_p_imp = [0, 1], gv_p_exp = [2, 3], gv_u_grid = [4, 5], gv_s_imp_viol = [6, 7], gv_s_exp_viol = [8, 9]\<rparr>,
       mv_assets = [DeclaredForecast sample_pv_ctx [10, 11], DeclaredForecast sample_base_ctx [],
         DeclaredBattery sample_battery_ctx (sample_battery_vars 13), DeclaredEv sample_ev_ctx (sample_ev_vars 22)]\<rparr>,
     sk_penalty_vars = [\<lparr>pz_rule = sample_peak_rule, pz_s_penalty = [12]\<rparr>],
     sk_interactions = [(BatEvCoexist 1, CoexistVars [\<lparr>cq_discharger = 2, cq_switched = 3, cq_x_coexist = [Some 34, None]\<rparr>]),
       (CtrlImportMalus 1, MalusVars [35, 36])]\<rparr>"

lemma sample_battery_declare:
  "battery_declare sample_battery_ctx 2 (PlanMode f) vars = (sample_battery_vars (length vars),
     vars @ [between 0 5, between 0 5, between 0 5, between 0 5, binary, binary, between 5 5, between 1 10, between 1 10])"
  by (cases f) (simp_all add: battery_declare_def mode_friction_def no_friction_def battery_declare_eq battery_startup_vars_def
    sample_battery_vars_def sample_battery_ctx_def build_milp_context_def sample_battery_def battery_direction_def numeral_eq_Suc Let_def)

definition sample_ev_domains :: "lp_domain list" where
  "sample_ev_domains = ev_domains sample_ev_ctx 2 0 0 None"

lemma sample_ev_limits:
  "drop_frac_at sample_ev_ctx t = 0" "soc_ceiling sample_ev_ctx = 8 / 10" "floor_frac sample_ev_ctx = 0"
  "seg_domains sample_ev_ctx = [between 0 6]"
proof -
  show drops: "drop_frac_at sample_ev_ctx t = 0" for t by (simp add: drop_frac_at_def sample_ev_ctx_simps)
  show ceiling: "soc_ceiling sample_ev_ctx = 8 / 10" "floor_frac sample_ev_ctx = 0"
    by (simp_all add: soc_ceiling_def floor_frac_def sample_ev_ctx_simps clamp_range_def)
  show "seg_domains sample_ev_ctx = [between 0 6]"
    by (simp add: seg_domains_def firm_required_kwh_def required_kwh_def reachable_target_frac_def ceiling sample_ev_ctx_simps drops)
qed

lemma sample_ev_domains_eq:
  "sample_ev_domains = [between 0 6, between 0 6, between (7 / 10) (7 / 10), between 0 (8 / 10), between 0 (8 / 10), between 0 0,
     between 0 0, between 0 (3 / 4), binary, binary, between 0 6, between 0 12]"
  by (simp add: sample_ev_domains_def ev_domains_def ev_power_domain_def soc_domain_def on_domain_def reachable_target_frac_def
    ev_flag_count_def sample_ev_limits sample_ev_ctx_simps numeral_eq_Suc)

lemma sample_ev_friction: "xc_friction sample_ev_ctx = no_friction"
  by (simp add: sample_ev_ctx_def ev_base_context_def)

lemma sample_ev_declare:
  "ev_declare sample_ev_ctx 2 (PlanMode f) vars = (sample_ev_vars (length vars), vars @ sample_ev_domains)"
  by (cases f) (simp_all add: ev_declare_def mode_friction_def sample_ev_friction no_friction_def ev_declare_eq sample_ev_vars_def
    sample_ev_domains_def ev_flag_count_def sample_ev_limits sample_ev_ctx_simps numeral_eq_Suc Let_def)

definition sample_site_domains :: "lp_domain list" where
  "sample_site_domains = [at_least 0, at_least 0, at_least 0, at_least 0, binary, binary, at_least 0, at_least 0, at_least 0, at_least 0,
     at_least 0, at_least 0, at_least 0, between 0 5, between 0 5, between 0 5, between 0 5, binary, binary, between 5 5, between 1 10,
     between 1 10] @ sample_ev_domains @ [between 0 5, at_least 0, at_least 0]"

lemma sample_follow:
  "takeWhile (\<lambda>c. ctx_participation c \<noteq> Dispatched) sample_ctxs = [ForecastCtx sample_pv_ctx, ForecastCtx sample_base_ctx]"
  "dropWhile (\<lambda>c. ctx_participation c \<noteq> Dispatched) sample_ctxs = [BatteryCtx sample_battery_ctx, EvCtx sample_ev_ctx]"
  by (simp_all add: sample_ctxs_def forecast_participation_def)

lemma sample_skeleton_declared:
  "skeleton_declare sample_site sample_p1w sample_ctxs DeclarePhase1 = Some (sample_site_domains, sample_skeleton)"
proof -
  define grid_vars where "grid_vars = \<lparr>gv_p_imp = [0, 1], gv_p_exp = [2, 3], gv_u_grid = [4, 5 :: nat], gv_s_imp_viol = [6, 7],
      gv_s_exp_viol = [8, 9]\<rparr>"
  define d1 where "d1 = [at_least 0, at_least 0, at_least 0, at_least 0, binary, binary, at_least 0, at_least 0, at_least 0, at_least 0]"
  define d4 where "d4 = d1 @ [at_least 0, at_least 0, at_least 0, between 0 5, between 0 5, between 0 5, between 0 5, binary, binary,
      between 5 5, between 1 10, between 1 10] @ sample_ev_domains"
  have len: "length d1 = 10" "length sample_ev_domains = 12" by (simp_all add: d1_def sample_ev_domains_eq)
  have n: "mi_n sample_site = 2" "mi_penalty_rules sample_site = [sample_peak_rule]" "mi_cum_s sample_site = [0, 1800, 3600]"
    by (simp_all add: sample_site_def)
  have curt: "fm_curtailable sample_pv_ctx" "\<not> fm_curtailable sample_base_ctx" by (simp_all add: sample_pv_ctx_def sample_base_ctx_def)
  have g: "grid_declare DeclarePhase1 2 [] = (grid_vars, d1)"
    by (simp add: grid_declare_eq grid_vars_def d1_def numeral_eq_Suc)
  have f: "declare_assets DeclarePhase1 [ForecastCtx sample_pv_ctx, ForecastCtx sample_base_ctx] 2 d1 =
      Some ([DeclaredForecast sample_pv_ctx [10, 11], DeclaredForecast sample_base_ctx []], d1 @ [at_least 0, at_least 0])"
    by (simp add: declare_assets_def forecast_declare_def curt len add_vars_eq numeral_eq_Suc)
  have p: "declare_penalty_vars [sample_peak_rule] [0, 1800, 3600] (d1 @ [at_least 0, at_least 0]) =
      ([\<lparr>pz_rule = sample_peak_rule, pz_s_penalty = [12]\<rparr>], d1 @ [at_least 0, at_least 0, at_least 0])"
    by (simp add: sample_peak_rule_def num_windows_def add_vars_eq len)
  have o: "declare_assets DeclarePhase1 [BatteryCtx sample_battery_ctx, EvCtx sample_ev_ctx] 2 (d1 @ [at_least 0, at_least 0, at_least 0]) =
      Some ([DeclaredBattery sample_battery_ctx (sample_battery_vars 13), DeclaredEv sample_ev_ctx (sample_ev_vars 22)], d4)"
    by (simp add: declare_assets_def sample_battery_declare sample_ev_declare len d4_def)
  have i: "declare_interactions (sk_pool sample_skeleton) (site_globals sample_site) [BatEvCoexist 1, CtrlImportMalus 1] d4 =
      (sk_interactions sample_skeleton, sample_site_domains)"
    by (simp add: sample_skeleton_def coexist_pairs_def battery_discharge_leg_def ev_on_indicator_def site_globals_def sample_site_def
      forecast_surplus_kw_def sample_battery_vars_def sample_ev_vars_def add_vars_eq d4_def len sample_site_domains_def d1_def numeral_eq_Suc)
  have ints: "build_interactions (w1_c_bat_ev_coexist_eur_kwh sample_p1w) (w1_c_ctrl_imp_malus_eur_kwh sample_p1w) =
      [BatEvCoexist 1, CtrlImportMalus 1]" by (simp add: build_interactions_def sample_p1w_def)
  show ?thesis
    using skeleton_declareI [of DeclarePhase1 sample_site _ _ sample_ctxs, unfolded n sample_follow, OF g f p o, of sample_p1w]
      i by (simp add: ints sample_skeleton_def grid_vars_def)
qed

lemma sample_site_plan_values:
  "sample_site_plan 0 = 2" "sample_site_plan (Suc 0) = 3" "sample_site_plan 2 = 0" "sample_site_plan 3 = 0" "sample_site_plan 4 = 1"
    "sample_site_plan 5 = 1" "sample_site_plan 6 = 0" "sample_site_plan 7 = 1 / 2" "sample_site_plan 8 = 0" "sample_site_plan 9 = 0"
    "sample_site_plan 10 = 3" "sample_site_plan 11 = 0" "sample_site_plan 12 = 1" "sample_site_plan 13 = 0" "sample_site_plan 14 = 2"
    "sample_site_plan 15 = 2" "sample_site_plan 16 = 0" "sample_site_plan 17 = 0" "sample_site_plan 18 = 1" "sample_site_plan 19 = 5"
    "sample_site_plan 20 = 4" "sample_site_plan 21 = 5" "sample_site_plan 22 = 6" "sample_site_plan 23 = 0"
    "sample_site_plan 24 = 7 / 10" "sample_site_plan 25 = 3 / 4" "sample_site_plan 26 = 3 / 4" "sample_site_plan 27 = 0"
    "sample_site_plan 28 = 0" "sample_site_plan 29 = 0" "sample_site_plan 30 = 1" "sample_site_plan 31 = 0" "sample_site_plan 32 = 3"
    "sample_site_plan 33 = 0" "sample_site_plan 34 = 2" "sample_site_plan 35 = 2" "sample_site_plan 36 = 2"
  by (simp_all add: sample_site_plan_def sample_ev_plan_def numeral_eq_Suc)

lemma sample_site_solved: "site_solution sample_site sample_p1w sample_ctxs DeclarePhase1 sample_skeleton sample_site_plan"
proof -
  have "in_bounds sample_site_domains sample_site_plan"
    by (simp add: sample_site_domains_def sample_ev_domains_eq in_bounds_block block_bounds_Cons sample_site_plan_def
      sample_ev_plan_def numeral_eq_Suc)
  moreover have "satisfies (model_rows sample_skeleton sample_site) sample_site_plan"
  proof -
    have ev: "ev_net (sample_ev_vars 22) 0 sample_site_plan = 6" "ev_net (sample_ev_vars 22) (Suc 0) sample_site_plan = 0"
      and bat: "battery_net (sample_battery_vars 13) 0 sample_site_plan = - 2" "battery_net (sample_battery_vars 13) (Suc 0) sample_site_plan = 2"
      and pv: "forecast_net sample_pv_ctx [10, 11] 0 sample_site_plan = - 3" "forecast_net sample_pv_ctx [10, 11] (Suc 0) sample_site_plan = 0"
      and base: "forecast_net sample_base_ctx [] 0 sample_site_plan = 1" "forecast_net sample_base_ctx [] (Suc 0) sample_site_plan = 1"
      by (simp_all add: ev_net_def battery_net_def forecast_net_def sample_ev_vars_def sample_battery_vars_def sample_site_plan_values
        forecast_sign_def sample_pv_ctx_def sample_base_ctx_def)
    note nets = ev bat pv base
    have two: "{0..<2 :: nat} = {0, Suc 0}" by auto
    have balance: "power_balance (sk_pool sample_skeleton) sample_site t sample_site_plan" if "t < 2" for t
      using that by (auto simp: less_2_cases_iff power_balance_def forecast_net_power_expr_def dispatched_net_power_expr_def
        net_power_sum_def sample_skeleton_def nets sample_site_plan_values sample_site_def)
    have slot: "satisfies (slot_constraints d t) sample_site_plan" if "t < 2" "d \<in> set (mv_assets (sk_pool sample_skeleton))" for t d
      using that by (auto simp: less_2_cases_iff sample_skeleton_def forecast_slot_rows_def sample_pv_ctx_def sample_site_plan_values)
    have grid_rows: "satisfies (grid_slot_rows (mv_grid (sk_pool sample_skeleton)) sample_site t) sample_site_plan" if "t < 2" for t
      using that by (auto simp: less_2_cases_iff sample_skeleton_def grid_slot_rows_def sample_site_def sample_site_plan_values)
    have "satisfies (battery_constraints sample_battery_ctx (sample_battery_vars 13) 2 [1 / 2, 1 / 2]) sample_site_plan"
      by (simp add: battery_constraints_def slots_eq battery_slot_rows_def sample_battery_vars_def sample_site_plan_values
        sample_battery_ctx_def build_milp_context_def sample_battery_def bt_leg_eff_def)
    moreover have "satisfies (ev_constraints sample_ev_ctx (sample_ev_vars 22) 2 [1 / 2, 1 / 2]) sample_site_plan"
      by (simp add: ev_constraints_def Let_def ev_on_rows_def ev_budget_rows_def ev_energy_expr_def band_accounting_last_step_def
        ev_soc_row_def ev_obligation_rows_def reachable_target_frac_def slots_eq sample_ev_vars_def sample_site_plan_values
        sample_ev_limits sample_ev_ctx_simps two)
    ultimately have own: "satisfies (asset_constraints d 2 [1 / 2, 1 / 2]) sample_site_plan"
      if "d \<in> set (mv_assets (sk_pool sample_skeleton))" for d
      using that by (auto simp: sample_skeleton_def)
    have coexist: "satisfies (interaction_constraints (BatEvCoexist 1) (sk_pool sample_skeleton)
        (CoexistVars [\<lparr>cq_discharger = 2, cq_switched = 3, cq_x_coexist = [Some 34, None]\<rparr>]) (sk_global sample_skeleton)) sample_site_plan"
      by (simp add: sample_skeleton_def pair_rows_def battery_discharge_leg_def ev_on_indicator_def coexist_rows_def site_globals_def
        sample_site_def sample_battery_vars_def sample_ev_vars_def sample_site_plan_values two)
    have malus: "satisfies (interaction_constraints (CtrlImportMalus 1) (sk_pool sample_skeleton) (MalusVars [35, 36])
        (sk_global sample_skeleton)) sample_site_plan"
      by (simp add: sample_skeleton_def malus_row_def dispatched_net_power_expr_def net_power_sum_def site_globals_def
        forecast_surplus_kw_def sample_site_def nets sample_site_plan_values two)
    have coupled: "satisfies (interaction_constraints i (sk_pool sample_skeleton) iv (sk_global sample_skeleton)) sample_site_plan"
      if "(i, iv) \<in> set (sk_interactions sample_skeleton)" for i iv
    proof -
      from that consider "i = BatEvCoexist 1" "iv = CoexistVars [\<lparr>cq_discharger = 2, cq_switched = 3, cq_x_coexist = [Some 34, None]\<rparr>]"
        | "i = CtrlImportMalus 1" "iv = MalusVars [35, 36]"
        by (auto simp: sample_skeleton_def)
      then show ?thesis using coexist malus by cases (simp_all only:)
    qed
    have peaks: "satisfies (penalty_constraints (gv_p_imp (mv_grid (sk_pool sample_skeleton))) (mi_cum_s sample_site)
        (sk_penalty_vars sample_skeleton)) sample_site_plan"
      by (simp add: penalty_constraints_def penalty_row_def window_index_def sample_peak_rule_def sample_skeleton_def sample_site_def
        sample_site_plan_values)
    have n: "mi_n sample_site = 2" "gi_dt_h (sk_global sample_skeleton) = [1 / 2, 1 / 2]"
      by (simp_all add: sample_site_def sample_skeleton_def site_globals_def)
    show ?thesis
      unfolding model_rows_iff n using balance slot grid_rows own coupled peaks by blast
  qed
  ultimately show ?thesis by (simp add: site_solution_def sample_skeleton_declared)
qed


section \<open>What a plan of the site promises\<close>

lemma read_nets:
  assumes "\<forall>d \<in> set ds. declared_within ctx_declare n \<sigma> d" "t < n"
  shows "sum_list (map (\<lambda>d. as_net_power_kw (asset_read w d \<sigma> n) ! t) ds) = sum_expr (map (\<lambda>d. net_power_expr d t) ds) \<sigma>"
  using assms by (induction ds) (auto simp: declared_within_def planned.read_net)

lemma net_power_split:
  "forecast_net_power_expr pool t \<sigma> + dispatched_net_power_expr pool t \<sigma> = sum_expr (map (\<lambda>d. net_power_expr d t) (mv_assets pool)) \<sigma>"
proof -
  have "sum_expr (map f (filter (\<lambda>d. \<not> P d) ds)) \<sigma> + sum_expr (map f (filter P ds)) \<sigma> = sum_expr (map f ds) \<sigma>"
    for f and P :: "declared_asset \<Rightarrow> bool" and ds by (induction ds) simp_all
  then show ?thesis unfolding forecast_net_power_expr_def dispatched_net_power_expr_def net_power_sum_def by blast
qed

lemma site_books:
  assumes sol: "site_solution inputs p1w ctxs declr sk \<sigma>" and t: "t < mi_n inputs"
    and out_def: "out = read_output w sk status \<sigma> objective inputs"
  shows "so_p_imp_kw out ! t - so_p_exp_kw out ! t =
      mi_load_adjust_kw inputs ! t + sum_list (map (\<lambda>a. as_net_power_kw a ! t) (so_assets out)) \<and>
    0 \<le> so_p_imp_kw out ! t \<and> 0 \<le> so_p_exp_kw out ! t \<and> (so_p_imp_kw out ! t = 0 \<or> so_p_exp_kw out ! t = 0) \<and>
    so_p_imp_kw out ! t \<le> max (mi_p_imp_max_phys_kw inputs ! t) 0 \<and> so_p_exp_kw out ! t \<le> max (mi_p_exp_max_phys_kw inputs ! t) 0 \<and>
    so_p_imp_kw out ! t \<le> mi_p_imp_max_cont_kw inputs ! t + so_s_imp_viol_kw out ! t \<and>
    so_p_exp_kw out ! t \<le> mi_p_exp_max_cont_kw inputs ! t + so_s_exp_viol_kw out ! t"
proof -
  obtain vars where sk: "skeleton_declare inputs p1w ctxs declr = Some (vars, sk)" and bounds: "in_bounds vars \<sigma>"
      and rows: "satisfies (model_rows sk inputs) \<sigma>"
    using sol by (auto simp: site_solution_def split: option.splits)
  define g where "g = mv_grid (sk_pool sk)"
  note grid = site_declared_grid [OF sk bounds t, folded g_def]
  have out: "so_p_imp_kw out ! t = \<sigma> (gv_p_imp g ! t)" "so_p_exp_kw out ! t = \<sigma> (gv_p_exp g ! t)"
      "so_s_imp_viol_kw out ! t = \<sigma> (gv_s_imp_viol g ! t)" "so_s_exp_viol_kw out ! t = \<sigma> (gv_s_exp_viol g ! t)"
    using t by (simp_all add: out_def read_output_def g_def Let_def)
  have "sum_list (map (\<lambda>a. as_net_power_kw a ! t) (so_assets out)) =
      sum_expr (map (\<lambda>d. net_power_expr d t) (mv_assets (sk_pool sk))) \<sigma>"
    using read_nets [OF site_declared_assets [OF sk bounds] t] by (simp add: out_def read_output_def Let_def o_def)
  moreover have "\<sigma> (gv_p_imp g ! t) - \<sigma> (gv_p_exp g ! t) =
      mi_load_adjust_kw inputs ! t + (forecast_net_power_expr (sk_pool sk) t \<sigma> + dispatched_net_power_expr (sk_pool sk) t \<sigma>)"
    using site_row_balance [OF rows t] by (simp add: power_balance_def g_def)
  ultimately have balance: "\<sigma> (gv_p_imp g ! t) - \<sigma> (gv_p_exp g ! t) =
      mi_load_adjust_kw inputs ! t + sum_list (map (\<lambda>a. as_net_power_kw a ! t) (so_assets out))"
    by (simp add: net_power_split)
  have slot: "\<sigma> (gv_p_imp g ! t) \<le> mi_p_imp_max_phys_kw inputs ! t * \<sigma> (gv_u_grid g ! t)"
      "\<sigma> (gv_p_exp g ! t) \<le> mi_p_exp_max_phys_kw inputs ! t * (1 - \<sigma> (gv_u_grid g ! t))"
      "\<sigma> (gv_p_imp g ! t) \<le> mi_p_imp_max_cont_kw inputs ! t + \<sigma> (gv_s_imp_viol g ! t)"
      "\<sigma> (gv_p_exp g ! t) \<le> mi_p_exp_max_cont_kw inputs ! t + \<sigma> (gv_s_exp_viol g ! t)"
    using site_rows_grid [OF rows t] by (simp_all add: grid_slot_rows_def g_def)
  have "\<sigma> (gv_u_grid g ! t) = 0 \<or> \<sigma> (gv_u_grid g ! t) = 1" using grid u_grid_domain_cases by blast
  then show ?thesis unfolding out using grid slot balance by auto
qed

text \<open>
  C11. Every plan the solver returns for the site closes its books as read back: in each slot the import less the export
  is the baseline override plus the net power every asset reports; never is power imported and exported at once; each
  direction stays within the connection, and exceeds the contracted limit by no more than the violation it reports.
\<close>

theorem site_plan_balances:
  assumes sol: "site_solution inputs p1w ctxs declr sk \<sigma>" and t: "t < mi_n inputs"
    and out_def: "out = read_output w sk status \<sigma> objective inputs"
  shows "so_p_imp_kw out ! t - so_p_exp_kw out ! t =
      mi_load_adjust_kw inputs ! t + sum_list (map (\<lambda>a. as_net_power_kw a ! t) (so_assets out)) \<and>
    0 \<le> so_p_imp_kw out ! t \<and> 0 \<le> so_p_exp_kw out ! t \<and> (so_p_imp_kw out ! t = 0 \<or> so_p_exp_kw out ! t = 0) \<and>
    so_p_imp_kw out ! t \<le> max (mi_p_imp_max_phys_kw inputs ! t) 0 \<and> so_p_exp_kw out ! t \<le> max (mi_p_exp_max_phys_kw inputs ! t) 0 \<and>
    so_p_imp_kw out ! t \<le> mi_p_imp_max_cont_kw inputs ! t + so_s_imp_viol_kw out ! t \<and>
    so_p_exp_kw out ! t \<le> mi_p_exp_max_cont_kw inputs ! t + so_s_exp_viol_kw out ! t"
  by (rule site_books [OF assms])

lemma site_plan_balances_witness:
  "so_p_imp_kw (read_output (\<lambda>_ _. [], \<lambda>_. []) sample_skeleton SolvedOptimal sample_site_plan (\<lambda>\<sigma>. 0) sample_site) ! 0 = 2 \<and>
   sum_list (map (\<lambda>a. as_net_power_kw a ! 0)
     (so_assets (read_output (\<lambda>_ _. [], \<lambda>_. []) sample_skeleton SolvedOptimal sample_site_plan (\<lambda>\<sigma>. 0) sample_site))) = 2"
proof -
  have "so_p_imp_kw (read_output (\<lambda>_ _. [], \<lambda>_. []) sample_skeleton SolvedOptimal sample_site_plan (\<lambda>\<sigma>. 0) sample_site) ! 0 = 2"
      "so_p_exp_kw (read_output (\<lambda>_ _. [], \<lambda>_. []) sample_skeleton SolvedOptimal sample_site_plan (\<lambda>\<sigma>. 0) sample_site) ! 0 = 0"
    by (simp_all add: read_output_def sample_skeleton_def sample_site_def sample_site_plan_values Let_def)
  with site_plan_balances [OF sample_site_solved _ refl, of 0 "(\<lambda>_ _. [], \<lambda>_. [])" SolvedOptimal "\<lambda>\<sigma>. 0"] show ?thesis by (simp add: sample_site_def)
qed


lemma enumerate_upt: "enumerate 0 xs = map (\<lambda>t. (t, xs ! t)) [0..<length xs]"
  by (rule nth_equalityI) (simp_all add: nth_enumerate_eq)

lemma sum_expr_map_filter:
  "sum_expr (List.map_filter f ts) \<sigma> = sum_list (map (\<lambda>t. case f t of None \<Rightarrow> 0 | Some e \<Rightarrow> e \<sigma>) ts)"
  by (induction ts) (simp_all add: map_filter_simps split: option.splits)

text \<open>What the discharge into a charging car costs: per kWh given while the car's switch is on, in the slots whose
  forecast surplus alone would cover the car at its least power.\<close>

definition coexist_cost ::
  "milp_var_pool \<Rightarrow> milp_inputs \<Rightarrow> f64 \<Rightarrow> assignment \<Rightarrow> coexist_pair \<Rightarrow> f64" where
  "coexist_cost pool inputs c \<sigma> pair =
     (case (discharge_leg_of (mv_assets pool ! cq_discharger pair), on_indicator_of (mv_assets pool ! cq_switched pair)) of
        (Some leg, Some ind) \<Rightarrow> sum_list (map (\<lambda>t. if oi_p_min_kw ind \<le> forecast_surplus_kw inputs ! t
            then c * mi_dt_h inputs ! t * (\<sigma> (dl_p_dis leg ! t) * \<sigma> (oi_z_on ind ! t)) else 0) [0..<mi_n inputs])
      | _ \<Rightarrow> 0)"

text \<open>
  C14. The linear auxiliaries of the coexistence penalty stand for the product they replace: in every solution the
  penalty is the coefficient times the slot times the power given times whether the car charges, summed over the pairs
  and over the slots with enough surplus, and nothing for any other slot.
\<close>

theorem coexist_priced_exactly:
  assumes sol: "site_solution inputs p1w ctxs declr sk \<sigma>"
    and active: "(BatEvCoexist c, CoexistVars pairs) \<in> set (sk_interactions sk)"
  shows "interaction_objective (BatEvCoexist c) (CoexistVars pairs) (mi_dt_h inputs) \<sigma> =
    sum_list (map (coexist_cost (sk_pool sk) inputs c \<sigma>) pairs)"
proof -
  obtain vars where sk: "skeleton_declare inputs p1w ctxs declr = Some (vars, sk)" and bounds: "in_bounds vars \<sigma>"
      and rows: "satisfies (model_rows sk inputs) \<sigma>"
    using sol by (auto simp: site_solution_def split: option.splits)
  have global: "sk_global sk = site_globals inputs" by (rule site_declared_global [OF sk bounds])
  have "sum_expr (List.map_filter (\<lambda>(t, x). map_option (\<lambda>v \<sigma>. c * mi_dt_h inputs ! t * \<sigma> v) x) (enumerate 0 (cq_x_coexist pair))) \<sigma> =
      coexist_cost (sk_pool sk) inputs c \<sigma> pair" if pair: "pair \<in> set pairs" for pair
  proof -
    from site_declared_interactions [OF sk bounds] active pair
    have decl: "pair_declared (sk_pool sk) (site_globals inputs) \<sigma> pair" "cq_discharger pair < length (mv_assets (sk_pool sk))"
        "cq_switched pair < length (mv_assets (sk_pool sk))"
      by (fastforce simp: interaction_declared_def global)+
    from decl(1) obtain leg ind where leg: "discharge_leg_of (mv_assets (sk_pool sk) ! cq_discharger pair) = Some leg"
        and ind: "on_indicator_of (mv_assets (sk_pool sk) ! cq_switched pair) = Some ind"
        and len: "length (cq_x_coexist pair) = mi_n inputs"
        and x: "\<forall>t < mi_n inputs. if oi_p_min_kw ind \<le> forecast_surplus_kw inputs ! t
          then \<exists>x. cq_x_coexist pair ! t = Some x \<and> 0 \<le> \<sigma> x else cq_x_coexist pair ! t = None"
      by (auto simp: pair_declared_def site_globals_def)
    have "satisfies (pair_rows (sk_pool sk) (mi_n inputs) pair) \<sigma>"
      using site_rows_interactions [OF rows active] pair by (simp add: global site_globals_def)
    then have slots: "\<forall>t < mi_n inputs. satisfies (case cq_x_coexist pair ! t of Some v \<Rightarrow> coexist_rows leg ind t v | None \<Rightarrow> []) \<sigma>"
      by (simp add: pair_rows_def leg ind)
    have env: "satisfies (coexist_rows leg ind t v) \<sigma>" if "t < mi_n inputs" "cq_x_coexist pair ! t = Some v" for t v
      using slots [rule_format, OF that(1)] that(2) by simp
    have within: "declared_within ctx_declare (mi_n inputs) \<sigma> (mv_assets (sk_pool sk) ! cq_discharger pair)"
        "declared_within ctx_declare (mi_n inputs) \<sigma> (mv_assets (sk_pool sk) ! cq_switched pair)"
      using site_declared_assets [OF sk bounds] decl(2,3) by simp_all
    have "(case cq_x_coexist pair ! t of None \<Rightarrow> 0 | Some v \<Rightarrow> c * mi_dt_h inputs ! t * \<sigma> v) =
        (if oi_p_min_kw ind \<le> forecast_surplus_kw inputs ! t
         then c * mi_dt_h inputs ! t * (\<sigma> (dl_p_dis leg ! t) * \<sigma> (oi_z_on ind ! t)) else 0)" if t: "t < mi_n inputs" for t
    proof (cases "oi_p_min_kw ind \<le> forecast_surplus_kw inputs ! t")
      case True
      with x [rule_format, OF t] obtain v where v: "cq_x_coexist pair ! t = Some v" "0 \<le> \<sigma> v" by auto
      from env [OF t v(1)] v(2) coupled.envelope_exact [OF within(1) leg within(2) ind t, of "\<sigma> v"]
      have "\<sigma> v = \<sigma> (dl_p_dis leg ! t) * \<sigma> (oi_z_on ind ! t)" by (simp add: coexist_rows_def)
      with True v(1) show ?thesis by simp
    next
      case False
      with x [rule_format, OF t] show ?thesis by simp
    qed
    then have "coexist_cost (sk_pool sk) inputs c \<sigma> pair =
        sum_list (map (\<lambda>t. case cq_x_coexist pair ! t of None \<Rightarrow> 0 | Some v \<Rightarrow> c * mi_dt_h inputs ! t * \<sigma> v) [0..<mi_n inputs])"
      unfolding coexist_cost_def leg ind prod.case option.case
      by (intro arg_cong [where f = sum_list] map_cong refl) (simp only: set_upt atLeastLessThan_iff)
    then show ?thesis by (simp add: sum_expr_map_filter enumerate_upt o_def len case_map_option cong: option.case_cong)
  qed
  then show ?thesis by (simp add: sum_expr_concat o_def cong: map_cong)
qed

lemma coexist_priced_exactly_witness:
  "interaction_objective (BatEvCoexist 1) (CoexistVars [\<lparr>cq_discharger = 2, cq_switched = 3, cq_x_coexist = [Some 34, None]\<rparr>])
     (mi_dt_h sample_site) sample_site_plan = 1"
proof -
  have "(BatEvCoexist 1, CoexistVars [\<lparr>cq_discharger = 2, cq_switched = 3, cq_x_coexist = [Some 34, None]\<rparr>]) \<in> set (sk_interactions sample_skeleton)"
    by (simp add: sample_skeleton_def)
  from coexist_priced_exactly [OF sample_site_solved this] show ?thesis
    by (simp add: coexist_cost_def sample_skeleton_def battery_discharge_leg_def ev_on_indicator_def sample_site_def forecast_surplus_kw_def
      sample_ev_vars_def sample_battery_vars_def sample_site_plan_values upt_rec)
qed


section \<open>Peaks over a window\<close>

text \<open>The offsets of the slot boundaries of a horizon.\<close>

definition slot_offsets :: "int list \<Rightarrow> nat \<Rightarrow> bool" where
  "slot_offsets cum_s n \<longleftrightarrow> length cum_s = Suc n \<and> hd cum_s = 0 \<and> sorted_wrt (<) cum_s"

lemma window_index_range:
  assumes "slot_offsets cum_s n" "t < n" "0 < window_s"
  shows "window_index cum_s t window_s < num_windows cum_s window_s"
proof -
  have ne: "cum_s \<noteq> []" and len: "length cum_s = Suc n" using assms(1) by (auto simp: slot_offsets_def)
  have "cum_s ! t < cum_s ! n" using assms(1,2) by (auto simp: slot_offsets_def sorted_wrt_iff_nth_less)
  moreover have "0 \<le> cum_s ! t"
    using assms(1,2) ne sorted_wrt_nth_less [of "(<)" cum_s 0 t] by (cases "t = 0") (auto simp: slot_offsets_def hd_conv_nth)
  moreover have "last cum_s = cum_s ! n" using ne len by (simp add: last_conv_nth)
  ultimately have c: "0 \<le> cum_s ! t" "cum_s ! t \<le> last cum_s - 1" by simp_all
  then have "cum_s ! t div int window_s \<le> (last cum_s - 1) div int window_s" using assms(3) by (intro zdiv_mono1) simp_all
  moreover have "0 \<le> cum_s ! t div int window_s" using c(1) assms(3) by (simp add: pos_imp_zdiv_nonneg_iff)
  ultimately show ?thesis using c assms(3) ne by (simp add: window_index_def num_windows_def Let_def)
qed

lemma exceedance_fold:
  fixes idx :: "nat \<Rightarrow> nat"
  assumes "\<forall>(t, p) \<in> set xs. idx t < length slack"
  shows "length (fold (\<lambda>(t, p) slack. slack[idx t := max (slack ! idx t) (p - thr)]) xs slack) = length slack \<and>
    ((\<forall>w < length slack. fold (\<lambda>(t, p) slack. slack[idx t := max (slack ! idx t) (p - thr)]) xs slack ! w \<le> B w) \<longleftrightarrow>
     (\<forall>w < length slack. slack ! w \<le> B w) \<and> (\<forall>(t, p) \<in> set xs. p - thr \<le> (B (idx t) :: f64)))"
  using assms
proof (induction xs arbitrary: slack)
  case (Cons x xs)
  obtain t p where x: "x = (t, p)" by (cases x)
  define slack' where "slack' = slack[idx t := max (slack ! idx t) (p - thr)]"
  have len: "length slack' = length slack" by (simp add: slack'_def)
  have "(\<forall>w < length slack. slack' ! w \<le> B w) \<longleftrightarrow> (\<forall>w < length slack. slack ! w \<le> B w) \<and> p - thr \<le> B (idx t)"
    using Cons.prems x by (auto simp: slack'_def nth_list_update)
  moreover note Cons.IH [of slack', unfolded len]
  ultimately show ?case using Cons.prems x by (auto simp: slack'_def [symmetric])
qed simp

text \<open>
  C16. The excess reported for a plan that was stepped rather than solved is what the solver's rows would force: over a
  horizon of consecutive slots, a rule's slacks are non-negative and meet every one of its rows exactly when each is at
  least the excess of its window; so the excess is the least slack that will do.
\<close>

theorem window_exceedance_least:
  assumes horizon: "slot_offsets cum_s (length p_imp)" and window: "0 < pn_measurement_window_s rule"
    and slacks: "length s = num_windows cum_s (pn_measurement_window_s rule)"
  shows "length (window_exceedance_kw cum_s rule (map \<sigma> p_imp)) = length s \<and>
    (list_all (\<lambda>v. 0 \<le> \<sigma> v) s \<and> satisfies (penalty_constraints p_imp cum_s [\<lparr>pz_rule = rule, pz_s_penalty = s\<rparr>]) \<sigma> \<longleftrightarrow>
     list_all2 (\<lambda>excess v. excess \<le> \<sigma> v) (window_exceedance_kw cum_s rule (map \<sigma> p_imp)) s)"
proof -
  define idx where "idx = (\<lambda>t. window_index cum_s t (pn_measurement_window_s rule))"
  define xs where "xs = enumerate 0 (map \<sigma> p_imp)"
  define excess where "excess = window_exceedance_kw cum_s rule (map \<sigma> p_imp)"
  have idx: "idx t < length s" if "t < length p_imp" for t
    using window_index_range [OF horizon that window] by (simp add: idx_def slacks)
  have "\<forall>(t, p) \<in> set xs. idx t < length (replicate (length s) (0 :: f64))" by (auto simp: xs_def in_set_enumerate_eq idx)
  note folded = exceedance_fold [OF this, where thr = "pn_threshold_kw rule" and B = "\<lambda>w. \<sigma> (s ! w)"]
  have ex: "excess = fold (\<lambda>(t, p) slack. slack[idx t := max (slack ! idx t) (p - pn_threshold_kw rule)]) xs (replicate (length s) 0)"
    by (simp add: excess_def window_exceedance_kw_def idx_def xs_def slacks Let_def)
  have len: "length excess = length s" using folded by (simp add: ex)
  have "(\<forall>w < length s. excess ! w \<le> \<sigma> (s ! w)) \<longleftrightarrow> (\<forall>w < length s. 0 \<le> \<sigma> (s ! w)) \<and>
      (\<forall>(t, p) \<in> set xs. p - pn_threshold_kw rule \<le> \<sigma> (s ! idx t))"
    using folded by (simp add: ex)
  moreover have "(\<forall>(t, p) \<in> set xs. p - pn_threshold_kw rule \<le> \<sigma> (s ! idx t)) \<longleftrightarrow>
      satisfies (penalty_constraints p_imp cum_s [\<lparr>pz_rule = rule, pz_s_penalty = s\<rparr>]) \<sigma>"
    by (auto simp: xs_def penalty_constraints_def penalty_row_def idx_def enumerate_upt algebra_simps)
  ultimately show ?thesis
    using len by (auto simp: excess_def [symmetric] list_all2_conv_all_nth list_all_length)
qed

lemma window_exceedance_least_witness:
  "window_exceedance_kw [0, 900, 1800] sample_peak_rule [5, 3] = [3] \<and>
   satisfies (penalty_constraints [0, 1] [0, 900, 1800] [\<lparr>pz_rule = sample_peak_rule, pz_s_penalty = [2]\<rparr>]) (\<lambda>i. [5, 3, 3] ! i)"
proof -
  define plan :: assignment where "plan = (\<lambda>i. [5, 3, 3] ! i)"
  have h: "slot_offsets [0, 900, 1800] (length [0, 1 :: nat])" "0 < pn_measurement_window_s sample_peak_rule"
      "length [2 :: nat] = num_windows [0, 900, 1800] (pn_measurement_window_s sample_peak_rule)"
    by (simp_all add: slot_offsets_def sample_peak_rule_def num_windows_def)
  note least = window_exceedance_least [OF h, THEN conjunct2, of plan]
  have plan: "map plan [0, 1] = [5, 3]" "plan 2 = 3" by (simp_all add: plan_def)
  have excess: "window_exceedance_kw [0, 900, 1800] sample_peak_rule [5, 3] = [3]"
    by (simp add: window_exceedance_kw_def sample_peak_rule_def num_windows_def window_index_def)
  have "list_all2 (\<lambda>excess v. excess \<le> plan v) (window_exceedance_kw [0, 900, 1800] sample_peak_rule (map plan [0, 1])) [2]"
    by (simp only: plan excess list.rel_inject list.rel_intros order.refl simp_thms)
  with least have "satisfies (penalty_constraints [0, 1] [0, 900, 1800] [\<lparr>pz_rule = sample_peak_rule, pz_s_penalty = [2]\<rparr>]) plan"
    by (simp only: simp_thms)
  with excess show ?thesis by (simp only: plan_def simp_thms)
qed

end
