(* ===== verification/Milp_Solve.thy ===== *)
theory Milp_Solve
  imports Milp_Site
begin

text \<open>
  \<open>VEN/src/controller/milp_planner/solver_phase1.rs\<close>, \<open>solver_phase2.rs\<close> and \<open>solver_duals.rs\<close>: the planner's three
  solves over the site's model. The solver is a parameter: it is handed a problem and answers with an error or with a
  status and an assignment; what the code relies on is that such an assignment satisfies the problem. Times are the
  milliseconds a clock read, the gap is passed at its full precision. A panic is \<open>None\<close>.
\<close>

section \<open>The three solves\<close>

record lp_problem =
  lq_vars :: "lp_domain list"
  lq_objective :: lp_expr
  lq_rows :: "lp_row list"
  lq_initial :: "(lp_var \<times> f64) list"
  lq_time_limit_s :: f64
  lq_mip_gap :: f64

type_synonym 'e lp_solver = "lp_problem \<Rightarrow> 'e + solution_status \<times> assignment"

text \<open>The dual value of each row, by its place in the problem.\<close>

type_synonym 'e dual_solver = "lp_problem \<Rightarrow> 'e + (nat \<Rightarrow> f64)"

definition solve_phase1 ::
  "'e lp_solver \<Rightarrow> writers \<Rightarrow> milp_inputs \<Rightarrow> phase1_weights \<Rightarrow> asset_milp_context list \<Rightarrow> f64 \<Rightarrow> ('e + solve_output) option" where
  "solve_phase1 solver w inputs p1w ctxs timeout_s =
     map_option (\<lambda>(vars, sk).
       let objective = cost_expr sk inputs p1w in
       case solver \<lparr>lq_vars = vars, lq_objective = objective, lq_rows = model_rows sk inputs, lq_initial = [],
           lq_time_limit_s = timeout_s, lq_mip_gap = mi_mip_gap_target inputs\<rparr> of
         Inl e \<Rightarrow> Inl e
       | Inr (status, \<sigma>) \<Rightarrow> Inr (read_output w sk status \<sigma> objective inputs))
     (skeleton_declare inputs p1w ctxs DeclarePhase1)"

definition cost_cap :: "lp_expr \<Rightarrow> f64 \<Rightarrow> f64 \<Rightarrow> lp_row" where
  "cost_cap cost c_star epsilon = (\<lambda>\<sigma>. cost \<sigma> \<le> c_star + epsilon)"

definition solve_phase2 ::
  "'e lp_solver \<Rightarrow> writers \<Rightarrow> milp_inputs \<Rightarrow> phase1_weights \<Rightarrow> f64 \<Rightarrow> f64 \<Rightarrow> solve_output \<Rightarrow> asset_milp_context list \<Rightarrow> f64
   \<Rightarrow> ('e + solve_output \<times> f64) option" where
  "solve_phase2 solver w inputs p1w c_star epsilon phase1_sol ctxs timeout_s =
     map_option (\<lambda>(vars, sk).
       let cap = cost_expr sk inputs p1w; friction = friction_expr sk inputs in
       case solver \<lparr>lq_vars = vars, lq_objective = friction, lq_rows = cost_cap cap c_star epsilon # model_rows sk inputs,
           lq_initial = warm_start sk phase1_sol, lq_time_limit_s = timeout_s, lq_mip_gap = mi_mip_gap_target inputs\<rparr> of
         Inl e \<Rightarrow> Inl e
       | Inr (status, \<sigma>) \<Rightarrow> Inr (read_output w sk status \<sigma> friction inputs, friction \<sigma>))
     (skeleton_declare inputs p1w ctxs DeclarePhase2)"

text \<open>The balance of slot \<open>t\<close> comes after the rows of the slots before it.\<close>

definition slot_rows :: "model_skeleton \<Rightarrow> milp_inputs \<Rightarrow> nat \<Rightarrow> lp_row list" where
  "slot_rows sk inputs t = power_balance (sk_pool sk) inputs t #
     concat (map (\<lambda>a. slot_constraints a t) (mv_assets (sk_pool sk))) @ grid_slot_rows (mv_grid (sk_pool sk)) inputs t"

definition power_balance_refs :: "model_skeleton \<Rightarrow> milp_inputs \<Rightarrow> nat list" where
  "power_balance_refs sk inputs = map (\<lambda>t. length (concat (map (slot_rows sk inputs) [0..<t]))) [0..<mi_n inputs]"

definition solve_marginal_costs ::
  "'e dual_solver \<Rightarrow> milp_inputs \<Rightarrow> phase1_weights \<Rightarrow> asset_milp_context list \<Rightarrow> solve_output \<Rightarrow> f64 \<Rightarrow> ('e + f64 list) option" where
  "solve_marginal_costs duals inputs p1w ctxs winning timeout_s =
     map_option (\<lambda>(vars, sk).
       case duals \<lparr>lq_vars = vars, lq_objective = cost_expr sk inputs p1w, lq_rows = model_rows sk inputs, lq_initial = [],
           lq_time_limit_s = timeout_s, lq_mip_gap = mi_mip_gap_target inputs\<rparr> of
         Inl e \<Rightarrow> Inl e
       | Inr dual \<Rightarrow> Inr (map dual (power_balance_refs sk inputs)))
     (skeleton_declare inputs p1w ctxs (DeclarePinned winning))"

record plan_phase_report =
  pq_phase1_ms :: nat
  pq_phase1_status :: solve_status
  pq_phase2_ms :: nat
  pq_phase2_status :: "solve_status option"

text \<open>What wins: phase 2's solution where it ran and answered, else phase 1's with no friction counted.\<close>

definition winning_solution ::
  "'e lp_solver \<Rightarrow> writers \<Rightarrow> milp_inputs \<Rightarrow> phase1_weights \<Rightarrow> f64 \<Rightarrow> asset_milp_context list \<Rightarrow> f64 \<Rightarrow> solve_output
   \<Rightarrow> (solve_output \<times> f64 \<times> solve_status option) option" where
  "winning_solution solver w inputs p1w epsilon ctxs phase2_timeout_s phase1_sol =
     (if epsilon = 0 then Some (phase1_sol, 0, None)
      else map_option (\<lambda>r. case r of
          Inr (sol, friction) \<Rightarrow> (sol, friction, Some (map_solve_status (so_status sol)))
        | Inl e \<Rightarrow> (phase1_sol, 0, None))
        (solve_phase2 solver w inputs p1w (so_objective_eur phase1_sol) epsilon phase1_sol ctxs phase2_timeout_s))"

definition solve_milp_two_phase ::
  "'e lp_solver \<Rightarrow> 'e dual_solver \<Rightarrow> writers \<Rightarrow> nat \<times> nat \<Rightarrow> milp_inputs \<Rightarrow> phase1_weights \<Rightarrow> f64 \<Rightarrow> asset_milp_context list
   \<Rightarrow> f64 \<Rightarrow> f64 \<Rightarrow> ('e + solve_output \<times> f64 \<times> f64 \<times> f64 list \<times> plan_phase_report) option" where
  "solve_milp_two_phase solver duals w ms inputs p1w epsilon ctxs timeout_s phase2_timeout_s =
     (case solve_phase1 solver w inputs p1w ctxs timeout_s of
        None \<Rightarrow> None
      | Some (Inl e) \<Rightarrow> Some (Inl e)
      | Some (Inr phase1_sol) \<Rightarrow>
          (case winning_solution solver w inputs p1w epsilon ctxs phase2_timeout_s phase1_sol of
             None \<Rightarrow> None
           | Some (winning, friction_eur, phase2_status) \<Rightarrow>
               map_option (\<lambda>priced. Inr (winning, so_objective_eur phase1_sol, friction_eur,
                 (case priced of Inr v \<Rightarrow> v | Inl e \<Rightarrow> mi_c_imp_eur_kwh inputs),
                 \<lparr>pq_phase1_ms = fst ms, pq_phase1_status = map_solve_status (so_status phase1_sol), pq_phase2_ms = snd ms,
                  pq_phase2_status = phase2_status\<rparr>))
               (solve_marginal_costs duals inputs p1w ctxs winning timeout_s)))"

text \<open>What is relied on of the solver.\<close>

definition sound_solver :: "'e lp_solver \<Rightarrow> bool" where
  "sound_solver solver \<longleftrightarrow> (\<forall>problem status \<sigma>. solver problem = Inr (status, \<sigma>) \<longrightarrow>
     in_bounds (lq_vars problem) \<sigma> \<and> satisfies (lq_rows problem) \<sigma>)"

section \<open>No panic\<close>

lemma assets_never_panic:
  assumes "\<forall>c \<in> set ctxs. declare_mode_of declr c \<noteq> None"
  shows "declare_assets declr ctxs n vars \<noteq> None"
  using assms unfolding declare_assets_def
proof (induction ctxs arbitrary: vars)
  case (Cons c cs)
  then obtain m where m: "declare_mode_of declr c = Some m" by auto
  obtain d vars1 where d: "ctx_declare c n m vars = (d, vars1)" by (metis prod.exhaust)
  from Cons obtain r where
      "declare_each (\<lambda>c vars. map_option (\<lambda>m. ctx_declare c n m vars) (declare_mode_of declr c)) cs vars1 = Some r"
    by fastforce
  with m d show ?case by (simp split: prod.split)
qed simp

lemma skeleton_never_panics:
  assumes "\<forall>c \<in> set ctxs. declare_mode_of declr c \<noteq> None"
  shows "\<exists>vars sk. skeleton_declare inputs p1w ctxs declr = Some (vars, sk)"
proof -
  let ?f = "\<lambda>c. ctx_participation c \<noteq> Dispatched"
  obtain g vars1 where g: "grid_declare declr (mi_n inputs) [] = (g, vars1)" by (metis prod.exhaust)
  obtain fs vars2 where f: "declare_assets declr (takeWhile ?f ctxs) (mi_n inputs) vars1 = Some (fs, vars2)"
    using assets_never_panic [of "takeWhile ?f ctxs" declr] assms set_takeWhileD by fastforce
  obtain ps vars3 where p: "declare_penalty_vars (mi_penalty_rules inputs) (mi_cum_s inputs) vars2 = (ps, vars3)" by (metis prod.exhaust)
  obtain others vars4 where ot: "declare_assets declr (dropWhile ?f ctxs) (mi_n inputs) vars3 = Some (others, vars4)"
    using assets_never_panic [of "dropWhile ?f ctxs" declr] assms set_dropWhileD by fastforce
  obtain ints vars where "declare_interactions \<lparr>mv_grid = g, mv_assets = fs @ others\<rparr> (site_globals inputs)
      (build_interactions (w1_c_bat_ev_coexist_eur_kwh p1w) (w1_c_ctrl_imp_malus_eur_kwh p1w)) vars4 = (ints, vars)"
    by (metis prod.exhaust)
  from skeleton_declareI [OF g f p ot this] show ?thesis by blast
qed

lemma skeleton_identity:
  assumes "skeleton_declare inputs p1w ctxs declr = Some (vars, sk)"
  shows "list_all2 (\<lambda>c d. asset_id_of d = ctx_asset_id c \<and> (\<forall>w \<sigma> m. as_asset_id (asset_read w d \<sigma> m) = ctx_asset_id c) \<and>
    (dispatched d \<longleftrightarrow> ctx_participation c = Dispatched)) ctxs (mv_assets (sk_pool sk))"
  using assms
proof (rule skeleton_parts)
  fix g vars1 fs vars2 pens vars3 others vars4 ints
  assume f: "declare_assets declr (takeWhile (\<lambda>c. ctx_participation c \<noteq> Dispatched) ctxs) (mi_n inputs) vars1 = Some (fs, vars2)"
    and ot: "declare_assets declr (dropWhile (\<lambda>c. ctx_participation c \<noteq> Dispatched) ctxs) (mi_n inputs) vars3 = Some (others, vars4)"
    and sk: "sk = \<lparr>sk_global = site_globals inputs, sk_pool = \<lparr>mv_grid = g, mv_assets = fs @ others\<rparr>,
       sk_penalty_vars = pens, sk_interactions = ints\<rparr>"
  show ?thesis using list_all2_appendI [OF assets_identity [OF f] assets_identity [OF ot]] by (simp add: sk)
qed

lemma read_holds_every_asset:
  assumes "skeleton_declare inputs p1w ctxs declr = Some (vars, sk)" "c \<in> set ctxs"
  shows "solved_asset (read_output w sk status \<sigma> objective inputs') (ctx_asset_id c) \<noteq> None"
proof -
  from assms(2) obtain i where i: "i < length ctxs" "ctxs ! i = c" by (auto simp: in_set_conv_nth)
  with skeleton_identity [OF assms(1)] have "i < length (mv_assets (sk_pool sk))"
      "as_asset_id (asset_read w (mv_assets (sk_pool sk) ! i) \<sigma> (mi_n inputs')) = ctx_asset_id c"
    by (cases w; auto simp: list_all2_conv_all_nth)+
  then show ?thesis by (auto simp: solved_asset_def read_output_def find_None_iff Let_def)
qed


section \<open>The plan that wins\<close>

lemma solve_phase1_cases:
  obtains (failed) e where "solve_phase1 solver w inputs p1w ctxs timeout_s = Some (Inl e)"
  | (solved) vars sk status \<sigma> where "skeleton_declare inputs p1w ctxs DeclarePhase1 = Some (vars, sk)"
      "solve_phase1 solver w inputs p1w ctxs timeout_s = Some (Inr (read_output w sk status \<sigma> (cost_expr sk inputs p1w) inputs))"
      "sound_solver solver \<longrightarrow> site_solution inputs p1w ctxs DeclarePhase1 sk \<sigma>"
proof -
  obtain vars sk where sk: "skeleton_declare inputs p1w ctxs DeclarePhase1 = Some (vars, sk)"
    using skeleton_never_panics [of ctxs DeclarePhase1 inputs p1w] by auto
  define problem where "problem = \<lparr>lq_vars = vars, lq_objective = cost_expr sk inputs p1w, lq_rows = model_rows sk inputs,
      lq_initial = [], lq_time_limit_s = timeout_s, lq_mip_gap = mi_mip_gap_target inputs\<rparr>"
  show ?thesis
  proof (cases "solver problem")
    case (Inl e)
    with sk show ?thesis by (intro failed) (simp add: solve_phase1_def problem_def Let_def)
  next
    case (Inr r)
    obtain status \<sigma> where r: "r = (status, \<sigma>)" by (cases r)
    have "site_solution inputs p1w ctxs DeclarePhase1 sk \<sigma>" if "sound_solver solver"
      using that Inr r sk by (force simp: sound_solver_def site_solution_def problem_def)
    with sk Inr r show ?thesis by (intro solved [OF sk, of status \<sigma>]) (simp_all add: solve_phase1_def problem_def Let_def)
  qed
qed

lemma solve_phase2_cases:
  obtains (failed) e where "solve_phase2 solver w inputs p1w c_star epsilon p1 ctxs timeout_s = Some (Inl e)"
  | (solved) vars sk status \<sigma> where "skeleton_declare inputs p1w ctxs DeclarePhase2 = Some (vars, sk)"
      "solve_phase2 solver w inputs p1w c_star epsilon p1 ctxs timeout_s =
        Some (Inr (read_output w sk status \<sigma> (friction_expr sk inputs) inputs, friction_expr sk inputs \<sigma>))"
      "sound_solver solver \<longrightarrow> site_solution inputs p1w ctxs DeclarePhase2 sk \<sigma> \<and> cost_expr sk inputs p1w \<sigma> \<le> c_star + epsilon"
proof -
  obtain vars sk where sk: "skeleton_declare inputs p1w ctxs DeclarePhase2 = Some (vars, sk)"
    using skeleton_never_panics [of ctxs DeclarePhase2 inputs p1w] by auto
  define problem where "problem = \<lparr>lq_vars = vars, lq_objective = friction_expr sk inputs,
      lq_rows = cost_cap (cost_expr sk inputs p1w) c_star epsilon # model_rows sk inputs,
      lq_initial = warm_start sk p1, lq_time_limit_s = timeout_s, lq_mip_gap = mi_mip_gap_target inputs\<rparr>"
  show ?thesis
  proof (cases "solver problem")
    case (Inl e)
    with sk show ?thesis by (intro failed) (simp add: solve_phase2_def problem_def Let_def)
  next
    case (Inr r)
    obtain status \<sigma> where r: "r = (status, \<sigma>)" by (cases r)
    have "site_solution inputs p1w ctxs DeclarePhase2 sk \<sigma> \<and> cost_expr sk inputs p1w \<sigma> \<le> c_star + epsilon" if "sound_solver solver"
      using that Inr r sk by (force simp: sound_solver_def site_solution_def problem_def cost_cap_def)
    with sk Inr r show ?thesis by (intro solved [OF sk, of status \<sigma>]) (simp_all add: solve_phase2_def problem_def Let_def)
  qed
qed

lemma winning_cases:
  assumes p1: "solve_phase1 solver w inputs p1w ctxs timeout_s = Some (Inr p1)"
  obtains declr vars sk status \<sigma> objective friction p2 where
    "skeleton_declare inputs p1w ctxs declr = Some (vars, sk)"
    "winning_solution solver w inputs p1w epsilon ctxs phase2_timeout_s p1 = Some (read_output w sk status \<sigma> objective inputs, friction, p2)"
    "sound_solver solver \<longrightarrow> 0 \<le> epsilon \<longrightarrow>
       site_solution inputs p1w ctxs declr sk \<sigma> \<and> cost_expr sk inputs p1w \<sigma> \<le> so_objective_eur p1 + epsilon"
    "p2 = None \<longrightarrow> friction = 0 \<and> read_output w sk status \<sigma> objective inputs = p1"
    "declr = DeclarePhase1 \<or> declr = DeclarePhase2"
proof (cases rule: solve_phase1_cases [of solver w inputs p1w ctxs timeout_s])
  case (solved vars sk status \<sigma>)
  then have out: "p1 = read_output w sk status \<sigma> (cost_expr sk inputs p1w) inputs" using p1 by simp
  then have cost: "so_objective_eur p1 = cost_expr sk inputs p1w \<sigma>" by (simp add: read_output_def Let_def)
  show ?thesis
  proof (cases "epsilon = 0")
    case True
    then show ?thesis using solved(3) cost out by (intro that [OF solved(1), of status \<sigma> "cost_expr sk inputs p1w" 0 None])
      (simp_all add: winning_solution_def)
  next
    case False
    show ?thesis
    proof (cases rule: solve_phase2_cases [of solver w inputs p1w "so_objective_eur p1" epsilon p1 ctxs phase2_timeout_s])
      case (failed e)
      then show ?thesis using False solved(3) cost out by (intro that [OF solved(1), of status \<sigma> "cost_expr sk inputs p1w" 0 None])
        (simp_all add: winning_solution_def)
    next
      case (solved vars2 sk2 status2 \<sigma>2)
      then show ?thesis using False
        by (intro that [OF solved(1), of status2 \<sigma>2 "friction_expr sk2 inputs" "friction_expr sk2 inputs \<sigma>2"
          "Some (map_solve_status status2)"]) (simp_all add: winning_solution_def read_output_def Let_def)
    qed
  qed
qed (use p1 in simp)


lemma pricing_answers:
  assumes "skeleton_declare inputs p1w ctxs declr = Some (vars, sk)"
  shows "\<exists>r. solve_marginal_costs duals inputs p1w ctxs (read_output w sk status \<sigma> objective inputs) timeout_s = Some r"
proof -
  have "\<forall>c \<in> set ctxs. declare_mode_of (DeclarePinned (read_output w sk status \<sigma> objective inputs)) c \<noteq> None"
    using read_holds_every_asset [OF assms] by simp
  from skeleton_never_panics [OF this] show ?thesis by (auto simp: solve_marginal_costs_def)
qed

lemma two_phase_result:
  assumes p1: "solve_phase1 solver w inputs p1w ctxs timeout_s = Some (Inr p1)"
  shows "\<exists>win friction marginal report.
    solve_milp_two_phase solver duals w ms inputs p1w epsilon ctxs timeout_s phase2_timeout_s =
      Some (Inr (win, so_objective_eur p1, friction, marginal, report)) \<and>
    pq_phase1_status report = map_solve_status (so_status p1) \<and>
    (if pq_phase2_status report = None then win = p1 \<and> friction = 0 else epsilon \<noteq> 0)"
  using p1
proof (rule winning_cases [where epsilon = epsilon and ?phase2_timeout_s = phase2_timeout_s])
  fix declr vars sk status \<sigma> objective friction p2
  assume sk: "skeleton_declare inputs p1w ctxs declr = Some (vars, sk)"
    and win: "winning_solution solver w inputs p1w epsilon ctxs phase2_timeout_s p1 =
      Some (read_output w sk status \<sigma> objective inputs, friction, p2)"
    and none: "p2 = None \<longrightarrow> friction = 0 \<and> read_output w sk status \<sigma> objective inputs = p1"
  from pricing_answers [OF sk] obtain priced where
    "solve_marginal_costs duals inputs p1w ctxs (read_output w sk status \<sigma> objective inputs) timeout_s = Some priced" by blast
  moreover have "epsilon = 0 \<longrightarrow> p2 = None" using win by (auto simp: winning_solution_def)
  ultimately show ?thesis using p1 win none by (auto simp: solve_milp_two_phase_def)
qed


text \<open>
  C12. The plan that wins is, as read back, a solution of the site's model whose economic cost is at most what phase 1
  found plus the budget phase 2 was given: smoothing friction never costs more than that.
\<close>

theorem two_phase_cost_capped:
  assumes solver: "sound_solver solver" and budget: "0 \<le> epsilon"
    and solved: "solve_milp_two_phase solver duals w ms inputs p1w epsilon ctxs timeout_s phase2_timeout_s =
      Some (Inr (win, c_star, friction, marginal, report))"
  shows "\<exists>declr sk status \<sigma> objective. site_solution inputs p1w ctxs declr sk \<sigma> \<and>
    win = read_output w sk status \<sigma> objective inputs \<and> cost_expr sk inputs p1w \<sigma> \<le> c_star + epsilon"
proof -
  from solved obtain p1 where p1: "solve_phase1 solver w inputs p1w ctxs timeout_s = Some (Inr p1)"
    by (auto simp: solve_milp_two_phase_def split: option.splits sum.splits)
  then show ?thesis
  proof (rule winning_cases [where epsilon = epsilon and ?phase2_timeout_s = phase2_timeout_s])
    fix declr vars sk status \<sigma> objective friction' p2
    assume win: "winning_solution solver w inputs p1w epsilon ctxs phase2_timeout_s p1 =
        Some (read_output w sk status \<sigma> objective inputs, friction', p2)"
      and sound: "sound_solver solver \<longrightarrow> 0 \<le> epsilon \<longrightarrow>
        site_solution inputs p1w ctxs declr sk \<sigma> \<and> cost_expr sk inputs p1w \<sigma> \<le> so_objective_eur p1 + epsilon"
    have "win = read_output w sk status \<sigma> objective inputs" "c_star = so_objective_eur p1"
      using solved p1 win by (auto simp: solve_milp_two_phase_def)
    with sound solver budget show ?thesis by blast
  qed
qed

text \<open>A solver that knows the sample plan.\<close>

definition sample_solver :: "unit lp_solver" where
  "sample_solver problem = (if in_bounds (lq_vars problem) sample_site_plan \<and> satisfies (lq_rows problem) sample_site_plan
     then Inr (SolvedOptimal, sample_site_plan) else Inl ())"

lemma sample_solver_sound: "sound_solver sample_solver"
  by (simp add: sound_solver_def sample_solver_def)

lemma sample_phase1:
  "solve_phase1 sample_solver w sample_site sample_p1w sample_ctxs timeout_s =
     Some (Inr (read_output w sample_skeleton SolvedOptimal sample_site_plan (cost_expr sample_skeleton sample_site sample_p1w) sample_site))"
  using sample_site_solved by (simp add: solve_phase1_def sample_skeleton_declared sample_solver_def site_solution_def Let_def)

lemma two_phase_cost_capped_witness:
  "\<exists>win c_star friction marginal report declr sk \<sigma>. solve_milp_two_phase sample_solver (\<lambda>p. Inl ()) (\<lambda>_ _. [], \<lambda>_. []) (5, 0) sample_site
     sample_p1w 0 sample_ctxs 60 10 = Some (Inr (win, c_star, friction, marginal, report)) \<and>
     site_solution sample_site sample_p1w sample_ctxs declr sk \<sigma> \<and> cost_expr sk sample_site sample_p1w \<sigma> \<le> c_star"
proof -
  let ?w = "(\<lambda>_ _. [], \<lambda>_. []) :: writers"
  obtain win c_star friction marginal report where r: "solve_milp_two_phase sample_solver (\<lambda>p. Inl ()) ?w (5, 0) sample_site
      sample_p1w 0 sample_ctxs 60 10 = Some (Inr (win, c_star, friction, marginal, report))"
    using two_phase_result [OF sample_phase1, of "\<lambda>p. Inl ()" ?w "(5, 0)" 0 60 10] by blast
  from two_phase_cost_capped [OF sample_solver_sound _ r] have "\<exists>declr sk status \<sigma> objective.
      site_solution sample_site sample_p1w sample_ctxs declr sk \<sigma> \<and> win = read_output ?w sk status \<sigma> objective sample_site \<and>
      cost_expr sk sample_site sample_p1w \<sigma> \<le> c_star" by simp
  with r show ?thesis by blast
qed

text \<open>The rows a slot adds come after those of the slots before it.\<close>

lemma concat_head_nth:
  assumes "t < n" "\<And>i. f i \<noteq> []"
  shows "(concat (map f [0..<n]) @ rest) ! length (concat (map f [0..<t])) = hd (f t)"
proof -
  have "[0..<n] = [0..<t] @ t # [Suc t..<n]" using assms(1) by (metis le_add1 add_0 less_imp_add_positive upt_add_eq_append upt_conv_Cons)
  with assms(2) show ?thesis by (simp add: nth_append hd_conv_nth)
qed

text \<open>
  Each slot's price is read off its own power balance: the row whose dual the pricing reports for a slot is, in the
  order the model adds its rows, the balance of that slot.
\<close>

theorem price_refers_to_balance:
  assumes "t < mi_n inputs"
  shows "model_rows sk inputs ! (power_balance_refs sk inputs ! t) = power_balance (sk_pool sk) inputs t"
proof -
  have rows: "\<exists>rest. model_rows sk inputs = concat (map (slot_rows sk inputs) [0..<mi_n inputs]) @ rest"
    by (simp add: model_rows_def slot_rows_def [abs_def] Let_def)
  then obtain rest where rest: "model_rows sk inputs = concat (map (slot_rows sk inputs) [0..<mi_n inputs]) @ rest" by blast
  have ne: "slot_rows sk inputs i \<noteq> []" for i by (simp add: slot_rows_def)
  have "power_balance_refs sk inputs ! t = length (concat (map (slot_rows sk inputs) [0..<t]))" using assms by (simp add: power_balance_refs_def)
  moreover have "hd (slot_rows sk inputs t) = power_balance (sk_pool sk) inputs t" by (simp add: slot_rows_def)
  ultimately show ?thesis using concat_head_nth [where f = "slot_rows sk inputs", OF assms ne, of rest] unfolding rest by metis
qed

lemma price_refers_to_balance_witness:
  "model_rows sample_skeleton sample_site ! (power_balance_refs sample_skeleton sample_site ! 1) =
     power_balance (sk_pool sample_skeleton) sample_site 1"
  by (rule price_refers_to_balance) (simp add: sample_site_def)


section \<open>The priced model\<close>

text \<open>A declaration that only adds variables, at the handles that come next.\<close>

definition appends :: "(lp_domain list \<Rightarrow> 'a \<times> lp_domain list) \<Rightarrow> bool" where
  "appends f \<longleftrightarrow> (\<forall>vars x vars'. f vars = (x, vars') \<longrightarrow>
     (\<exists>es. vars' = vars @ es \<and> (\<forall>us. length us = length vars \<longrightarrow> f us = (x, us @ es))))"

lemma appends_add_vars: "appends (add_vars ds)"
  by (simp add: appends_def add_vars_eq)

lemma appends_return: "appends (\<lambda>vars. (x, vars))"
  by (simp add: appends_def)

lemma appends_bind:
  assumes "appends f" "\<And>x. appends (g x)"
  shows "appends (\<lambda>vars. let (x, v1) = f vars; (y, v2) = g x v1 in (h x y, v2))"
  unfolding appends_def
proof (intro allI impI)
  fix vars r vars'
  assume "(let (x, v1) = f vars; (y, v2) = g x v1 in (h x y, v2)) = (r, vars')"
  then obtain x v1 y where f: "f vars = (x, v1)" and g: "g x v1 = (y, vars')" and r: "r = h x y"
    by (auto simp: Let_def split: prod.splits)
  from assms(1) f obtain a where a: "v1 = vars @ a" "\<forall>us. length us = length vars \<longrightarrow> f us = (x, us @ a)" unfolding appends_def by blast
  from assms(2) [of x] g obtain b where b: "vars' = v1 @ b" "\<forall>us. length us = length v1 \<longrightarrow> g x us = (y, us @ b)" unfolding appends_def by blast
  show "\<exists>es. vars' = vars @ es \<and> (\<forall>us. length us = length vars \<longrightarrow> (let (x, v1) = f us; (y, v2) = g x v1 in (h x y, v2)) = (r, us @ es))"
    using a b r by (intro exI [of _ "a @ b"]) auto
qed

lemma appends_map: "appends f \<Longrightarrow> appends (\<lambda>vars. map_prod F id (f vars))"
  unfolding appends_def by (fastforce simp: map_prod_pair)

lemma appends_penalties: "appends (declare_penalty_vars rules cum_s)"
proof (induction rules)
  case (Cons rule rules)
  have "appends (\<lambda>vars. let (s, vars1) = add_vars (replicate (num_windows cum_s (pn_measurement_window_s rule)) (at_least 0)) vars;
      (rest, vars2) = declare_penalty_vars rules cum_s vars1 in (\<lparr>pz_rule = rule, pz_s_penalty = s\<rparr> # rest, vars2))"
    by (rule appends_bind [OF appends_add_vars]) (rule Cons.IH)
  then show ?case by (simp add: fun_eq_iff [symmetric] Let_def cong: prod.case_cong)
qed (simp add: appends_return [unfolded fun_eq_iff] appends_def)


lemma appends_coexist_slots: "appends (declare_coexist_slots p_min max_kw surplus)"
proof (induction surplus)
  case (Cons s surplus)
  have "appends (\<lambda>vars. let (x, vars1) = add_var (between 0 max_kw) vars;
      (xs, vars2) = declare_coexist_slots p_min max_kw surplus vars1 in (Some x # xs, vars2))"
    by (rule appends_bind) (simp_all add: Cons.IH, simp add: appends_def)
  moreover have "appends (\<lambda>vars. let (_, vars0) = ((), vars); (xs, vars1) = declare_coexist_slots p_min max_kw surplus vars0 in (None # xs, vars1))"
    by (rule appends_bind [OF appends_return]) (rule Cons.IH)
  ultimately show ?case by (cases "p_min \<le> s") (simp_all add: Let_def)
qed (simp add: appends_def)

lemma appends_pairs: "appends (declare_coexist_pairs pool global ps)"
proof (induction ps)
  case (Cons p ps)
  obtain d s where p: "p = (d, s)" by (cases p)
  show ?case
  proof (cases "discharge_leg_of (mv_assets pool ! d) = None \<or> on_indicator_of (mv_assets pool ! s) = None")
    case True
    then have "declare_coexist_pairs pool global (p # ps) = declare_coexist_pairs pool global ps"
      by (auto simp: p fun_eq_iff split: option.splits)
    with Cons.IH show ?thesis by simp
  next
    case False
    then obtain leg ind where li: "discharge_leg_of (mv_assets pool ! d) = Some leg" "on_indicator_of (mv_assets pool ! s) = Some ind"
      by auto
    have "appends (\<lambda>vars. let (xs, vars1) = declare_coexist_slots (oi_p_min_kw ind) (dl_max_kw leg)
          (map (\<lambda>t. gi_forecast_surplus_kw global ! t) [0..<gi_n global]) vars;
        (rest, vars2) = declare_coexist_pairs pool global ps vars1
      in (\<lparr>cq_discharger = d, cq_switched = s, cq_x_coexist = xs\<rparr> # rest, vars2))"
      by (rule appends_bind [OF appends_coexist_slots]) (rule Cons.IH)
    then show ?thesis by (simp add: p li)
  qed
qed (simp add: appends_def)

lemma appends_interaction: "appends (interaction_declare_vars i pool global)"
  by (cases i) (simp_all add: appends_map [OF appends_pairs, unfolded appends_def] appends_map [OF appends_add_vars, unfolded appends_def]
    appends_def del: map_prod_simp)

lemma appends_interactions: "appends (declare_interactions pool global js)"
proof (induction js)
  case (Cons i js)
  have "appends (\<lambda>vars. let (iv, vars1) = interaction_declare_vars i pool global vars;
      (rest, vars2) = declare_interactions pool global js vars1 in ((i, iv) # rest, vars2))"
    by (rule appends_bind [OF appends_interaction]) (rule Cons.IH)
  with Cons.IH show ?case by (cases "interaction_applicable i pool") (simp_all cong: if_cong)
qed (simp add: appends_def)

lemma find_by_id:
  assumes "list_all2 (\<lambda>c d. f (g d) = key c) cs ds" "distinct (map key cs)" "i < length cs"
  shows "find (\<lambda>a. f a = key (cs ! i)) (map g ds) = Some (g (ds ! i))"
  using assms
proof (induction cs ds arbitrary: i rule: list_all2_induct)
  case (Cons c cs d ds)
  show ?case
  proof (cases i)
    case (Suc j)
    then have "key (cs ! j) \<in> key ` set cs" using Cons.prems(2) by simp
    then have "key c \<noteq> key (cs ! j)" using Cons.prems(1) by auto
    then show ?thesis using Cons Suc by simp
  qed (use Cons in simp)
qed simp


lemma grid_pinned:
  assumes "grid_declare DeclarePhase1 n [] = (g, vars1)" "in_bounds vars1 \<sigma>"
    and flag: "\<forall>t < n. \<sigma> (gv_u_grid g ! t) = (if 1 / 1000000 < so_p_imp_kw out ! t then 1 else 0)"
  obtains vars1' where "grid_declare (DeclarePinned out) n [] = (g, vars1')" "length vars1' = length vars1" "in_bounds vars1' \<sigma>"
proof -
  let ?free = "replicate n (at_least 0)"
  have g: "gv_u_grid g = [2 * n..<3 * n]" and v: "vars1 = ?free @ ?free @ map (u_grid_domain DeclarePhase1) [0..<n] @ ?free @ ?free"
    using assms(1) by (auto simp: grid_declare_eq Let_def)
  define vars1' where "vars1' = ?free @ ?free @ map (u_grid_domain (DeclarePinned out)) [0..<n] @ ?free @ ?free"
  have "in_domain (u_grid_domain (DeclarePinned out) t) (\<sigma> (n + n + t))" if "t < n" for t
    using flag that by (simp add: g mult_2 pinned_binary_def)
  then have "in_bounds vars1' \<sigma>"
    using assms(2) by (simp add: v vars1'_def in_bounds_block block_bounds_map del: u_grid_domain.simps)
  moreover have "grid_declare (DeclarePinned out) n [] = (g, vars1')"
    using assms(1) by (simp add: grid_declare_eq vars1'_def Let_def)
  ultimately show ?thesis by (intro that [of vars1']) (simp_all add: v vars1'_def)
qed

lemma assets_pinned:
  assumes "declare_assets DeclarePhase1 ctxs n vars = Some (ds, vars @ es)" and "block_bounds (length vars) es \<sigma>"
    and "list_all2 (\<lambda>c d. declare_mode_of declr c = Some (PinnedMode (asset_read w d \<sigma> n))) ctxs ds" and "length us = length vars"
  obtains es' where "declare_assets declr ctxs n us = Some (ds, us @ es')" "length es' = length es" "block_bounds (length vars) es' \<sigma>"
  using planned.each_pinned [where mode = "declare_mode_of declr", OF _ assms(2-4)] assms(1) unfolding declare_assets_def by auto

lemma skeleton_pinned:
  assumes sk: "skeleton_declare inputs p1w ctxs DeclarePhase1 = Some (vars, sk)" and bounds: "in_bounds vars \<sigma>"
    and ids: "distinct (map ctx_asset_id ctxs)" and out: "out = read_output w sk status \<sigma> objective inputs"
    and flag: "\<forall>t < mi_n inputs. \<sigma> (gv_u_grid (mv_grid (sk_pool sk)) ! t) = (if 1 / 1000000 < so_p_imp_kw out ! t then 1 else 0)"
  shows "\<exists>vars'. skeleton_declare inputs p1w ctxs (DeclarePinned out) = Some (vars', sk) \<and> in_bounds vars' \<sigma>"
proof -
  let ?n = "mi_n inputs" and ?follows = "\<lambda>c. ctx_participation c \<noteq> Dispatched"
  obtain g vars1 fs vars2 pens vars3 others vars4 ints where
    gr: "grid_declare DeclarePhase1 ?n [] = (g, vars1)" and
    fo: "declare_assets DeclarePhase1 (takeWhile ?follows ctxs) ?n vars1 = Some (fs, vars2)" and
    pe: "declare_penalty_vars (mi_penalty_rules inputs) (mi_cum_s inputs) vars2 = (pens, vars3)" and
    ot: "declare_assets DeclarePhase1 (dropWhile ?follows ctxs) ?n vars3 = Some (others, vars4)" and
    it: "declare_interactions \<lparr>mv_grid = g, mv_assets = fs @ others\<rparr> (site_globals inputs)
       (build_interactions (w1_c_bat_ev_coexist_eur_kwh p1w) (w1_c_ctrl_imp_malus_eur_kwh p1w)) vars4 = (ints, vars)" and
    sk_eq: "sk = \<lparr>sk_global = site_globals inputs, sk_pool = \<lparr>mv_grid = g, mv_assets = fs @ others\<rparr>,
       sk_penalty_vars = pens, sk_interactions = ints\<rparr>"
    using skeleton_parts [OF sk] by metis
  obtain e2 e4 where e2: "vars2 = vars1 @ e2" and e4: "vars4 = vars3 @ e4" using assets_declared [OF fo] assets_declared [OF ot] by blast
  obtain e3 where e3: "vars3 = vars2 @ e3"
      and pe': "\<And>us. length us = length vars2 \<Longrightarrow> declare_penalty_vars (mi_penalty_rules inputs) (mi_cum_s inputs) us = (pens, us @ e3)"
    using appends_penalties pe unfolding appends_def by metis
  obtain e5 where e5: "vars = vars4 @ e5"
      and it': "\<And>us. length us = length vars4 \<Longrightarrow> declare_interactions \<lparr>mv_grid = g, mv_assets = fs @ others\<rparr> (site_globals inputs)
       (build_interactions (w1_c_bat_ev_coexist_eur_kwh p1w) (w1_c_ctrl_imp_malus_eur_kwh p1w)) us = (ints, us @ e5)"
    using appends_interactions it unfolding appends_def by metis
  have b: "in_bounds vars1 \<sigma>" "block_bounds (length vars1) e2 \<sigma>" "block_bounds (length vars2) e3 \<sigma>" "block_bounds (length vars3) e4 \<sigma>"
      "block_bounds (length vars4) e5 \<sigma>"
    using bounds by (simp_all add: e2 e3 e4 e5 in_bounds_append add.assoc)
  have "list_all2 (\<lambda>c d. as_asset_id (asset_read w d \<sigma> ?n) = ctx_asset_id c) ctxs (fs @ others)"
    using skeleton_identity [OF sk] unfolding sk_eq by (cases w) (auto simp: list_all2_conv_all_nth)
  from find_by_id [where f = as_asset_id and g = "\<lambda>d. asset_read w d \<sigma> ?n" and key = ctx_asset_id, OF this ids] have found: "solved_asset out (ctx_asset_id (ctxs ! i)) = Some (asset_read w ((fs @ others) ! i) \<sigma> ?n)"
    if "i < length ctxs" for i using that by (simp add: out read_output_def solved_asset_def sk_eq Let_def)
  have len: "length ctxs = length (fs @ others)" using list_all2_lengthD [OF skeleton_identity [OF sk]] by (simp add: sk_eq)
  have modes: "list_all2 (\<lambda>c d. declare_mode_of (DeclarePinned out) c = Some (PinnedMode (asset_read w d \<sigma> ?n)))
      (takeWhile ?follows ctxs @ dropWhile ?follows ctxs) (fs @ others)"
    using found len by (simp add: list_all2_conv_all_nth)
  have lens: "length (takeWhile ?follows ctxs) = length fs" "length (dropWhile ?follows ctxs) = length others"
    using list_all2_lengthD [OF assets_identity [OF fo]] list_all2_lengthD [OF assets_identity [OF ot]] by simp_all
  note split_modes = modes [unfolded list_all2_append [OF lens(1)]]
  have flag': "\<forall>t < ?n. \<sigma> (gv_u_grid g ! t) = (if 1 / 1000000 < so_p_imp_kw out ! t then 1 else 0)" using flag by (simp add: sk_eq)
  obtain v1 where v1: "grid_declare (DeclarePinned out) ?n [] = (g, v1)" "length v1 = length vars1" "in_bounds v1 \<sigma>"
    using grid_pinned [OF gr b(1) flag'] by blast
  obtain f2 where f2: "declare_assets (DeclarePinned out) (takeWhile ?follows ctxs) ?n v1 = Some (fs, v1 @ f2)" "length f2 = length e2"
      "block_bounds (length vars1) f2 \<sigma>"
    using assets_pinned [OF fo [unfolded e2] b(2) _ v1(2)] split_modes by blast
  define v3 where "v3 = (v1 @ f2) @ e3"
  have p3: "declare_penalty_vars (mi_penalty_rules inputs) (mi_cum_s inputs) (v1 @ f2) = (pens, v3)" and len3: "length v3 = length vars3"
    using pe' v1(2) f2(2) by (simp_all add: v3_def e2 e3)
  obtain f4 where f4: "declare_assets (DeclarePinned out) (dropWhile ?follows ctxs) ?n v3 = Some (others, v3 @ f4)" "length f4 = length e4"
      "block_bounds (length vars3) f4 \<sigma>"
    using assets_pinned [OF ot [unfolded e4] b(4) _ len3] split_modes by blast
  have "declare_interactions \<lparr>mv_grid = g, mv_assets = fs @ others\<rparr> (site_globals inputs)
       (build_interactions (w1_c_bat_ev_coexist_eur_kwh p1w) (w1_c_ctrl_imp_malus_eur_kwh p1w)) (v3 @ f4) = (ints, (v3 @ f4) @ e5)"
    using it' len3 f4(2) by (simp add: e4)
  from skeleton_declareI [OF v1(1) f2(1) p3 f4(1) this]
  have "skeleton_declare inputs p1w ctxs (DeclarePinned out) = Some ((v3 @ f4) @ e5, sk)" by (simp add: sk_eq)
  moreover have "in_bounds ((v3 @ f4) @ e5) \<sigma>"
    using v1(2,3) f2(2,3) f4(2,3) b(3,5) len3 by (simp add: v3_def in_bounds_append e2 e3 e4 add.assoc)
  ultimately show ?thesis by blast
qed

text \<open>
  The marginal-cost pass prices the model that was planned: pinned to a phase-1 plan whose grid direction is import
  exactly where it imports, the declaration gives the same model, every mode decision fixed, and the plan still solves
  it. So the pricing's model is never infeasible for such a plan.
\<close>

theorem priced_model_holds_the_plan:
  assumes sol: "site_solution inputs p1w ctxs DeclarePhase1 sk \<sigma>"
    and ids: "distinct (map ctx_asset_id ctxs)" and out: "out = read_output w sk status \<sigma> objective inputs"
    and flag: "\<forall>t < mi_n inputs. \<sigma> (gv_u_grid (mv_grid (sk_pool sk)) ! t) = (if 1 / 1000000 < so_p_imp_kw out ! t then 1 else 0)"
  shows "site_solution inputs p1w ctxs (DeclarePinned out) sk \<sigma>"
proof -
  obtain vars where sk: "skeleton_declare inputs p1w ctxs DeclarePhase1 = Some (vars, sk)" and bounds: "in_bounds vars \<sigma>"
      and rows: "satisfies (model_rows sk inputs) \<sigma>"
    using sol by (auto simp: site_solution_def split: option.splits)
  from skeleton_pinned [OF sk bounds ids out flag] rows show ?thesis by (auto simp: site_solution_def)
qed

lemma priced_model_holds_the_plan_witness:
  "site_solution sample_site sample_p1w sample_ctxs
     (DeclarePinned (read_output (\<lambda>_ _. [], \<lambda>_. []) sample_skeleton SolvedOptimal sample_site_plan (\<lambda>\<sigma>. 0) sample_site)) sample_skeleton sample_site_plan"
proof (rule priced_model_holds_the_plan [OF sample_site_solved _ refl])
  show "distinct (map ctx_asset_id sample_ctxs)"
    by (simp add: sample_ctxs_def sample_pv_ctx_def sample_base_ctx_def sample_battery_ctx_def build_milp_context_def sample_ev_ctx_def
      ev_base_context_def)
  show "\<forall>t < mi_n sample_site. sample_site_plan (gv_u_grid (mv_grid (sk_pool sample_skeleton)) ! t) =
      (if 1 / 1000000 < so_p_imp_kw (read_output (\<lambda>_ _. [], \<lambda>_. []) sample_skeleton SolvedOptimal sample_site_plan (\<lambda>\<sigma>. 0) sample_site) ! t then 1 else 0)"
    by (auto simp: less_2_cases_iff read_output_def sample_skeleton_def sample_site_def sample_site_plan_values Let_def)
qed

end
