(* ===== verification/Planner_Inputs.thy ===== *)
theory Planner_Inputs
  imports Milp_Site Event_Poll
begin

text \<open>
  \<open>VEN/src/controller/milp_planner/inputs.rs\<close>, \<open>input_stages.rs\<close>, \<open>stale_rates.rs\<close> and \<open>planner_inputs\<close> of
  \<open>mod.rs\<close>: what a planning cycle is solved on. Tariffs and emissions per slot, with the slots beyond the known data
  filled by the stale-rate policy; the site's forecasts; the caps of each slot from contracts, SIMPLE levels and alerts;
  the user's baseline override.
\<close>

section \<open>Rates beyond the known data\<close>

text \<open>Days since the epoch, which was a Thursday; Monday is 0.\<close>

definition day_span :: span where "day_span = seconds 86400"

definition weekday_of :: "instant \<Rightarrow> int" where
  "weekday_of t = (t div day_span + 3) mod 7"

definition is_weekend :: "instant \<Rightarrow> bool" where
  "is_weekend t \<longleftrightarrow> weekday_of t = 5 \<or> weekday_of t = 6"

definition diurnal_fill :: "instant \<Rightarrow> time_series \<Rightarrow> time_series option \<Rightarrow> f64 \<Rightarrow> f64" where
  "diurnal_fill slot_start series diurnal_reference last_known =
     (let ref_24 = slot_start - day_span;
          ref_168 = slot_start - 7 * day_span;
          same_day_type = (is_weekend ref_24 = is_weekend slot_start);
          same_day_value = (if same_day_type then interpolate_at series ref_24 else None)
      in case same_day_value of Some v \<Rightarrow> v
         | None \<Rightarrow> hm_or last_known (Option.bind diurnal_reference (\<lambda>h. interpolate_at h ref_168)))"

record stale_rate_outcome =
  st_values :: "f64 list"
  st_rate_stale :: "bool list"
  st_warning :: "string option"

definition percentile :: "f64 list \<Rightarrow> f64 \<Rightarrow> f64 option" where
  "percentile rates pctl =
     (if rates = [] then None
      else let rank = nat \<lceil>clamp_range 0 1 pctl * of_nat (length rates)\<rceil>
           in Some (rates ! (min (max rank 1) (length rates) - 1)))"

fun stale_text :: "string \<Rightarrow> stale_rate_policy \<Rightarrow> string" where
  "stale_text label HeuristicForecast = label @ '' ends before the planning horizon; HEURISTIC_FORECAST fills stale slots '' @
     ''from a 24h/168h diurnal reference, degrading to LAST_KNOWN where reference data is insufficient''"
| "stale_text label LastKnown = label @ '' ends before the planning horizon; stale slots filled by LAST_KNOWN''"
| "stale_text label SafeAverage = label @ '' ends before the planning horizon; stale slots filled by SAFE_AVERAGE''"
| "stale_text label DeferToFlexible = label @ '' ends before the planning horizon; stale slots deferred by DEFER_TO_FLEXIBLE''"

definition last_or :: "'a \<Rightarrow> 'a list \<Rightarrow> 'a" where
  "last_or d xs = (if xs = [] then d else last xs)"

fun stale_fill :: "stale_rate_policy \<Rightarrow> f64 \<Rightarrow> f64 list \<Rightarrow> f64 \<Rightarrow> f64" where
  "stale_fill SafeAverage safe_pctl known default_rate = hm_or default_rate (percentile (sort known) safe_pctl)"
| "stale_fill DeferToFlexible safe_pctl known default_rate = last_or default_rate (sort known)"
| "stale_fill _ safe_pctl known default_rate = last_or default_rate known"

text \<open>The price of a covered slot: its mean over the slot, else the rate at its start, else the default.\<close>

definition covered_rate :: "time_series \<Rightarrow> f64 \<Rightarrow> instant \<times> instant \<Rightarrow> f64" where
  "covered_rate series default_rate = (\<lambda>(s, e). case time_weighted_mean series s e of Some v \<Rightarrow> v
     | None \<Rightarrow> hm_or default_rate (interpolate_at series s))"

definition slot_is_stale :: "instant option \<Rightarrow> instant \<Rightarrow> bool" where
  "slot_is_stale coverage_end slot_start = (case coverage_end of None \<Rightarrow> True | Some cov_end \<Rightarrow> cov_end \<le> slot_start)"

definition slot_rate ::
  "stale_rate_policy \<Rightarrow> f64 \<Rightarrow> time_series \<Rightarrow> instant option \<Rightarrow> f64 \<Rightarrow> time_series option \<Rightarrow> instant \<times> instant \<Rightarrow> f64" where
  "slot_rate policy safe_pctl series coverage_end default_rate diurnal_reference = (\<lambda>(s, e).
     let known = map snd (ts_samples series) in
     if slot_is_stale coverage_end s
     then if policy = HeuristicForecast then diurnal_fill s series diurnal_reference (last_or default_rate known)
          else stale_fill policy safe_pctl known default_rate
     else covered_rate series default_rate (s, e))"

definition apply_stale_rate_policy ::
  "stale_rate_policy \<Rightarrow> f64 \<Rightarrow> time_series \<Rightarrow> instant option \<Rightarrow> (instant \<times> instant) list \<Rightarrow> f64 \<Rightarrow> string
   \<Rightarrow> time_series option \<Rightarrow> stale_rate_outcome" where
  "apply_stale_rate_policy policy safe_pctl series coverage_end bounds default_rate label diurnal_reference =
     (let stale = map (\<lambda>(s, e). slot_is_stale coverage_end s) bounds
      in \<lparr>st_values = map (slot_rate policy safe_pctl series coverage_end default_rate diurnal_reference) bounds,
          st_rate_stale = stale, st_warning = (if True \<in> set stale then Some (stale_text label policy) else None)\<rparr>)"

section \<open>The stages\<close>

record grid_signals =
  gq_tariffs :: tariff_time_series
  gq_capacity_schedule :: "capacity_snapshot list"
  gq_alert_windows :: "alert_window list"
  gq_simple_windows :: "simple_window list"

record baseline_slot =
  bq_slot_start :: instant
  bq_add_kw :: f64

record baseline_override =
  bx_id :: uuid
  bx_slots :: "baseline_slot list"
  bx_created_at :: instant
  bx_updated_at :: instant

record site_inputs =
  sq_grid_max_import_kw :: f64
  sq_grid_max_export_kw :: f64
  sq_baseline_override :: "baseline_override option"

record stale_rate_refs =
  rq_import :: "time_series option"
  rq_co2 :: "time_series option"

definition slot_bounds_of :: "time_grid \<Rightarrow> instant \<Rightarrow> (instant \<times> instant) list" where
  "slot_bounds_of tg now = map (\<lambda>i. (now + seconds (tg_cum_s tg ! i), now + seconds (tg_cum_s tg ! (i + 1)))) [0..<tg_n tg]"

record tariff_series =
  tq_c_imp_eur_kwh :: "f64 list"
  tq_c_exp_eur_kwh :: "f64 list"
  tq_g_imp_kgco2_kwh :: "f64 list"
  tq_rate_stale :: "bool list"
  tq_stale_rate_warning :: "string option"
  tq_co2_stale_rate_warning :: "string option"

definition slot_tariffs :: "tariff_time_series \<Rightarrow> planner_params \<Rightarrow> (instant \<times> instant) list \<Rightarrow> stale_rate_refs \<Rightarrow> tariff_series" where
  "slot_tariffs tariffs p bounds refs =
     (let rates = apply_stale_rate_policy (pm_stale_rate_policy p) (pm_stale_rate_safe_pctl p) (tts_import tariffs)
            (tts_import_coverage_end tariffs) bounds (1 / 4) ''Tariff data'' (rq_import refs);
          co2 = apply_stale_rate_policy (pm_stale_rate_policy p) (pm_stale_rate_safe_pctl p) (tts_co2 tariffs)
            (tts_co2_coverage_end tariffs) bounds 300 ''GHG data'' (rq_co2 refs)
      in \<lparr>tq_c_imp_eur_kwh = st_values rates, tq_c_exp_eur_kwh = map (covered_rate (tts_export tariffs) (8 / 100)) bounds,
          tq_g_imp_kgco2_kwh = map (\<lambda>v. v / 1000) (st_values co2), tq_rate_stale = st_rate_stale rates,
          tq_stale_rate_warning = st_warning rates, tq_co2_stale_rate_warning = st_warning co2\<rparr>)"

definition forecast_of_role :: "forecast_role \<Rightarrow> asset_milp_context \<Rightarrow> f64 list option" where
  "forecast_of_role role ctx = (case ctx_participation ctx of
     FollowsForecast r kw \<Rightarrow> if r = role then Some kw else None | Dispatched \<Rightarrow> None)"

definition role_total :: "asset_milp_context list \<Rightarrow> nat \<Rightarrow> forecast_role \<Rightarrow> f64 list" where
  "role_total ctxs n role = map (\<lambda>t. case map (\<lambda>kw. kw ! t) (List.map_filter (forecast_of_role role) ctxs) of
       [] \<Rightarrow> 0 | x # xs \<Rightarrow> fold (\<lambda>b a. a + b) xs x) [0..<n]"

definition forecast_totals :: "asset_milp_context list \<Rightarrow> nat \<Rightarrow> f64 list \<times> f64 list" where
  "forecast_totals ctxs n = (role_total ctxs n Generation, role_total ctxs n LoadRole)"

definition slot_cap :: "capacity_snapshot list \<Rightarrow> commitment_direction \<Rightarrow> instant \<Rightarrow> instant \<Rightarrow> f64 \<Rightarrow> f64" where
  "slot_cap schedule d from_t to_t phys =
     (let limit = (case tightest_capacity_limit schedule d from_t to_t of None \<Rightarrow> phys | Some l \<Rightarrow> cl_limit_kw l)
      in case contracted_allowance_kw schedule d from_t to_t of None \<Rightarrow> limit | Some kw \<Rightarrow> min limit kw)"

text \<open>The highest SIMPLE level that overlaps a slot.\<close>

definition simple_level :: "simple_window list \<Rightarrow> instant \<Rightarrow> instant \<Rightarrow> nat option" where
  "simple_level windows from_t to_t =
     (case map sw_level (filter (\<lambda>w. tw_overlaps (sw_start w) (sw_end w) from_t to_t) windows) of
        [] \<Rightarrow> None | l # ls \<Rightarrow> Some (fold max ls l))"

definition simple_cap :: "planner_params \<Rightarrow> nat option \<Rightarrow> f64 \<Rightarrow> f64 \<Rightarrow> f64" where
  "simple_cap p level cont_imp base_kw =
     (case level of None \<Rightarrow> cont_imp
      | Some l \<Rightarrow> if l = 1 then cont_imp * pm_simple_level1_import_cap_pct p
          else if l = 2 then max base_kw 0 else if 3 \<le> l then 0 else cont_imp)"

definition import_cap :: "grid_signals \<Rightarrow> planner_params \<Rightarrow> f64 \<Rightarrow> (instant \<times> instant) \<times> f64 \<Rightarrow> f64" where
  "import_cap gs p phys = (\<lambda>((s, e), base_kw).
     let cont_imp = slot_cap (gq_capacity_schedule gs) Import s e phys in
     if list_ex (\<lambda>a. tw_overlaps (aw_start a) (aw_end a) s e) (gq_alert_windows gs) then 0
     else min cont_imp (simple_cap p (simple_level (gq_simple_windows gs) s e) cont_imp base_kw))"

record capacity_limits =
  kl_p_imp_max_phys_kw :: "f64 list"
  kl_p_exp_max_phys_kw :: "f64 list"
  kl_p_imp_max_cont_kw :: "f64 list"
  kl_p_exp_max_cont_kw :: "f64 list"

definition slot_limits :: "grid_signals \<Rightarrow> planner_params \<Rightarrow> site_inputs \<Rightarrow> (instant \<times> instant) list \<Rightarrow> f64 list \<Rightarrow> capacity_limits" where
  "slot_limits gs p site bounds load_kw =
     (let pairs = zip bounds load_kw
      in \<lparr>kl_p_imp_max_phys_kw = replicate (length bounds) (sq_grid_max_import_kw site),
          kl_p_exp_max_phys_kw = replicate (length bounds) (sq_grid_max_export_kw site),
          kl_p_imp_max_cont_kw = map (import_cap gs p (sq_grid_max_import_kw site)) pairs,
          kl_p_exp_max_cont_kw = map (\<lambda>((s, e), _). slot_cap (gq_capacity_schedule gs) Export s e (sq_grid_max_export_kw site)) pairs\<rparr>)"

definition add_override :: "time_grid \<Rightarrow> instant \<Rightarrow> baseline_slot \<Rightarrow> f64 list \<Rightarrow> f64 list" where
  "add_override tg now slot load_kw =
     (let offset_s = num_seconds (bq_slot_start slot - now); t = slot_at (tg_cum_s tg) (tg_n tg) offset_s
      in if offset_s < 0 then load_kw
         else if t < length load_kw then load_kw[t := load_kw ! t + bq_add_kw slot] else load_kw)"

definition apply_baseline_override :: "time_grid \<Rightarrow> instant \<Rightarrow> baseline_override option \<Rightarrow> f64 list \<Rightarrow> f64 list" where
  "apply_baseline_override tg now bo load_kw =
     (case bo of None \<Rightarrow> load_kw | Some bo \<Rightarrow> fold (add_override tg now) (bx_slots bo) load_kw)"

definition build_milp_inputs ::
  "grid_signals \<Rightarrow> planner_params \<Rightarrow> site_inputs \<Rightarrow> stale_rate_refs \<Rightarrow> instant \<Rightarrow> asset_milp_context list \<Rightarrow> milp_inputs" where
  "build_milp_inputs gs p site refs now ctxs =
     (let tg = from_zones (pm_plan_zones p);
          bounds = slot_bounds_of tg now;
          tariffs = slot_tariffs (gq_tariffs gs) p bounds refs;
          (generation, load) = forecast_totals ctxs (tg_n tg);
          limits = slot_limits gs p site bounds load;
          load_forecast = apply_baseline_override tg now (sq_baseline_override site) load;
          load_adjust = apply_baseline_override tg now (sq_baseline_override site) (replicate (tg_n tg) 0)
      in \<lparr>mi_n = tg_n tg, mi_dt_h = tg_dt_h tg, mi_cum_s = tg_cum_s tg, mi_c_imp_eur_kwh = tq_c_imp_eur_kwh tariffs,
          mi_rate_stale = tq_rate_stale tariffs, mi_stale_rate_warning = tq_stale_rate_warning tariffs,
          mi_co2_stale_rate_warning = tq_co2_stale_rate_warning tariffs, mi_c_exp_eur_kwh = tq_c_exp_eur_kwh tariffs,
          mi_g_imp_kgco2_kwh = tq_g_imp_kgco2_kwh tariffs, mi_generation_forecast_kw = generation,
          mi_load_forecast_kw = load_forecast, mi_load_adjust_kw = load_adjust,
          mi_p_imp_max_phys_kw = kl_p_imp_max_phys_kw limits, mi_p_exp_max_phys_kw = kl_p_exp_max_phys_kw limits,
          mi_p_imp_max_cont_kw = kl_p_imp_max_cont_kw limits, mi_p_exp_max_cont_kw = kl_p_exp_max_cont_kw limits,
          mi_pen_imp_eur_kwh = pm_pen_imp_eur_kwh p, mi_pen_exp_eur_kwh = pm_pen_exp_eur_kwh p,
          mi_mip_gap_target = pm_mip_gap_target p, mi_penalty_rules = pm_penalty_rules p\<rparr>)"

text \<open>The contexts in planner order, forecasts first, each with the grid's slots it needs.\<close>

definition planner_inputs ::
  "asset_milp_context list \<Rightarrow> grid_signals \<Rightarrow> planner_params \<Rightarrow> site_inputs \<Rightarrow> stale_rate_refs \<Rightarrow> instant
   \<Rightarrow> milp_inputs \<times> asset_milp_context list" where
  "planner_inputs ctxs gs p site refs now =
     (let ordered = sort_key (\<lambda>c. ctx_participation c = Dispatched) ctxs;
          inputs = build_milp_inputs gs p site refs now ordered
      in (inputs, map (ctx_inject_grid_slots (mi_c_imp_eur_kwh inputs) (forecast_surplus_kw inputs)) ordered))"


section \<open>What a cycle is solved on\<close>

lemma add_override_length: "length (add_override tg now slot xs) = length xs"
  by (simp add: add_override_def Let_def)

lemma override_length: "length (apply_baseline_override tg now bo xs) = length xs"
proof -
  have "length (fold (add_override tg now) slots xs) = length xs" for slots xs
    by (induction slots arbitrary: xs) (simp_all add: add_override_length)
  then show ?thesis by (simp add: apply_baseline_override_def split: option.split)
qed

lemma zones_grid:
  assumes "\<forall>z \<in> set zones. 0 < pz_step_s z"
  shows "slot_offsets (tg_cum_s (from_zones zones)) (tg_n (from_zones zones))" "length (tg_dt_h (from_zones zones)) = tg_n (from_zones zones)"
proof -
  have "grid_ok 0 (0, [0], [])" by (simp add: grid_ok_def slot_hours_def windows2_def)
  from push_zones_ok [OF this assms] show "slot_offsets (tg_cum_s (from_zones zones)) (tg_n (from_zones zones))"
    "length (tg_dt_h (from_zones zones)) = tg_n (from_zones zones)"
    by (auto simp: from_zones_def grid_ok_def slot_offsets_def split: prod.splits)
qed

lemma inject_keeps:
  "ctx_asset_id (ctx_inject_grid_slots c s ctx) = ctx_asset_id ctx"
  "ctx_participation (ctx_inject_grid_slots c s ctx) = ctx_participation ctx"
  by (cases ctx; simp add: ev_inject_grid_slots_def Let_def)+

lemma insort_bool_key:
  "\<forall>y \<in> set as. \<not> P y \<Longrightarrow> \<forall>y \<in> set bs. P y \<Longrightarrow>
    insort_key P x (as @ bs) = (if P x then as @ x # bs else x # as @ bs)"
proof (induction as)
  case Nil
  then show ?case by (cases bs) auto
qed auto

lemma sort_bool_key: "sort_key P xs = filter (\<lambda>x. \<not> P x) xs @ filter P xs"
  by (induction xs) (simp_all add: insort_bool_key)

text \<open>
  Whatever the signals say, a cycle's inputs are well formed: the slot boundaries start at the cycle, rise and close
  every slot, every per-slot series has an entry for each slot, and the assets are the ones handed in, each once, with
  all the forecast participants before all the dispatched ones, as the model's declaration relies on.
\<close>

theorem planner_inputs_well_formed:
  assumes zones: "\<forall>z \<in> set (pm_plan_zones p). 0 < pz_step_s z"
    and planned: "planner_inputs ctxs gs p site refs now = (inputs, ctxs')"
  shows "slot_offsets (mi_cum_s inputs) (mi_n inputs) \<and>
    list_all (\<lambda>xs. length xs = mi_n inputs) [mi_dt_h inputs, mi_c_imp_eur_kwh inputs, mi_c_exp_eur_kwh inputs, mi_g_imp_kgco2_kwh inputs,
      mi_generation_forecast_kw inputs, mi_load_forecast_kw inputs, mi_load_adjust_kw inputs, mi_p_imp_max_phys_kw inputs,
      mi_p_exp_max_phys_kw inputs, mi_p_imp_max_cont_kw inputs, mi_p_exp_max_cont_kw inputs] \<and>
    length (mi_rate_stale inputs) = mi_n inputs \<and>
    mset (map ctx_asset_id ctxs') = mset (map ctx_asset_id ctxs) \<and>
    list_all (\<lambda>c. ctx_participation c = Dispatched) (dropWhile (\<lambda>c. ctx_participation c \<noteq> Dispatched) ctxs')"
proof -
  define follows where "follows = (\<lambda>c. ctx_participation c \<noteq> Dispatched)"
  have ordered: "sort_key (\<lambda>c. ctx_participation c = Dispatched) ctxs = filter follows ctxs @ filter (\<lambda>c. \<not> follows c) ctxs"
    by (simp add: sort_bool_key follows_def)
  have inputs: "inputs = build_milp_inputs gs p site refs now (filter follows ctxs @ filter (\<lambda>c. \<not> follows c) ctxs)"
    and ctxs': "ctxs' = map (ctx_inject_grid_slots (mi_c_imp_eur_kwh inputs) (forecast_surplus_kw inputs))
      (filter follows ctxs @ filter (\<lambda>c. \<not> follows c) ctxs)"
    using planned by (auto simp: planner_inputs_def ordered Let_def)
  have ids: "map ctx_asset_id ctxs' = map ctx_asset_id (filter follows ctxs @ filter (\<lambda>c. \<not> follows c) ctxs)"
    by (simp add: ctxs' o_def inject_keeps)
  have "mset (map ctx_asset_id ctxs') = image_mset ctx_asset_id (mset (filter follows ctxs) + mset (filter (\<lambda>c. \<not> follows c) ctxs))"
    unfolding ids by (simp only: mset_map mset_append)
  also have "mset (filter follows ctxs) + mset (filter (\<lambda>c. \<not> follows c) ctxs) = mset ctxs" by (simp add: multiset_partition [symmetric])
  finally have mset: "mset (map ctx_asset_id ctxs') = mset (map ctx_asset_id ctxs)" by simp
  have "list_all (\<lambda>c. ctx_participation c = Dispatched) (dropWhile (\<lambda>c. ctx_participation c \<noteq> Dispatched) ctxs')"
  proof -
    let ?inj = "ctx_inject_grid_slots (mi_c_imp_eur_kwh inputs) (forecast_surplus_kw inputs)"
    have "dropWhile follows (map ?inj (filter follows ctxs) @ ys) = dropWhile follows ys" for ys
      by (rule dropWhile_append2) (auto simp: follows_def inject_keeps)
    moreover have "list_all (\<lambda>c. ctx_participation c = Dispatched) (dropWhile follows (map ?inj (filter (\<lambda>c. \<not> follows c) ctxs)))"
      by (auto simp: list_all_iff follows_def inject_keeps dest!: set_dropWhileD)
    ultimately show ?thesis by (simp add: ctxs' follows_def)
  qed
  with mset zones_grid [OF zones] show ?thesis
    by (simp add: inputs build_milp_inputs_def slot_tariffs_def slot_limits_def forecast_totals_def role_total_def slot_bounds_of_def
      apply_stale_rate_policy_def override_length Let_def)
qed

definition sample_planner :: planner_params where
  "sample_planner = \<lparr>pm_plan_step_s = 1800, pm_plan_horizon_h = 1, pm_plan_zones = [\<lparr>pz_step_s = 1800, pz_slots = 2\<rparr>],
     pm_replan_interval_s = 300, pm_w_energy = 1, pm_w_ghg = 0, pm_w_grid = 0, pm_c_bat_wear_eur_kwh = 3 / 100,
     pm_c_ev_startup_eur = 0, pm_c_bat_startup_eur = 0, pm_c_ev_ramp_eur_kw = 0, pm_c_bat_ramp_eur_kw = 0,
     pm_c_bat_ev_coexist_eur_kwh = 1, pm_w_viol = 1, pm_pen_imp_eur_kwh = 10, pm_pen_exp_eur_kwh = 10, pm_v_ev_extra_eur_kwh = 0,
     pm_v_ev_core_eur_kwh = 1, pm_w_tier_penalty_eur = 0, pm_c_ctrl_imp_malus_eur_kwh = 1, pm_objective = MinCost,
     pm_plan_adoption_threshold_eur = 0, pm_plan_adoption_decay_s = 1500, pm_phase2_epsilon_eur = 0, pm_solver_timeout_s = 60,
     pm_phase2_solver_timeout_s = 15, pm_rate_change_trigger_delay_s = 30, pm_rate_change_trigger_jitter_pct = 100,
     pm_mip_gap_target = 0, pm_planning_initial_delay_s = 5, pm_gate_switch_penalty_eur = 0, pm_simple_level1_import_cap_pct = 1 / 2,
     pm_asap_lateness_eur_kwh_h = 10, pm_v_ev_free_charge_eur_kwh = 1 / 10, pm_stale_rate_policy = HeuristicForecast,
     pm_stale_rate_safe_pctl = 8 / 10, pm_penalty_rules = [sample_peak_rule]\<rparr>"

definition flat_step :: "f64 \<Rightarrow> time_series" where
  "flat_step v = \<lparr>ts_samples = [(0, v)], ts_mode = Step\<rparr>"

text \<open>The contract allows 4 kW; an alert begins a quarter of an hour into the second slot.\<close>

definition sample_signals :: grid_signals where
  "sample_signals = \<lparr>gq_tariffs = \<lparr>tts_import = flat_step (3 / 10), tts_export = flat_step (1 / 10), tts_co2 = flat_step 0,
       tts_import_coverage_end = Some (seconds 7200), tts_co2_coverage_end = Some (seconds 7200)\<rparr>,
     gq_capacity_schedule = [\<lparr>cs_start = 0, cs_end = seconds 3600, cs_import_limit_kw = Some 6, cs_export_limit_kw = None,
       cs_import_limit_event_id = None, cs_export_limit_event_id = None, cs_import_subscription_kw = Some 3,
       cs_export_subscription_kw = None, cs_import_reservation_kw = Some 1, cs_export_reservation_kw = None\<rparr>],
     gq_alert_windows = [\<lparr>aw_alert_type = ''ALERT_GRID_EMERGENCY'', aw_start = seconds 2700, aw_end = seconds 9000,
       aw_event_id = ''a'', aw_message = ''m''\<rparr>], gq_simple_windows = []\<rparr>"

definition sample_site_limits :: site_inputs where
  "sample_site_limits = \<lparr>sq_grid_max_import_kw = 10, sq_grid_max_export_kw = 10, sq_baseline_override = None\<rparr>"

definition no_refs :: stale_rate_refs where
  "no_refs = \<lparr>rq_import = None, rq_co2 = None\<rparr>"

lemma planner_inputs_well_formed_witness:
  "mset (map ctx_asset_id (snd (planner_inputs [BatteryCtx sample_battery_ctx, ForecastCtx sample_pv_ctx] sample_signals sample_planner
     sample_site_limits no_refs 0))) = {#''bat'', ''pv''#}"
proof -
  obtain inputs ctxs' where p: "planner_inputs [BatteryCtx sample_battery_ctx, ForecastCtx sample_pv_ctx] sample_signals sample_planner
      sample_site_limits no_refs 0 = (inputs, ctxs')" by (metis prod.exhaust)
  have "\<forall>z \<in> set (pm_plan_zones sample_planner). 0 < pz_step_s z" by (simp add: sample_planner_def)
  from planner_inputs_well_formed [OF this p] show ?thesis
    unfolding p by (simp add: sample_battery_ctx_def build_milp_context_def sample_pv_ctx_def)
qed

section \<open>What caps a slot\<close>

lemma simple_level_highest:
  assumes "w \<in> set windows" "tw_overlaps (sw_start w) (sw_end w) s e"
  shows "\<exists>l. simple_level windows s e = Some l \<and> sw_level w \<le> l"
proof -
  have fold_max: "x \<in> set (l # ls) \<Longrightarrow> x \<le> fold max ls l" for x l :: nat and ls
  proof (induction ls arbitrary: l x)
    case (Cons k ls)
    then consider "x = l \<or> x = k" | "x \<in> set ls" by auto
    then show ?case
    proof cases
      case 1
      then have "x \<le> max k l" by auto
      also have "max k l \<le> fold max ls (max k l)" by (rule Cons.IH) simp
      finally show ?thesis by simp
    qed (use Cons.IH in simp)
  qed simp
  define levels where "levels = map sw_level (filter (\<lambda>w. tw_overlaps (sw_start w) (sw_end w) s e) windows)"
  have mem: "sw_level w \<in> set levels" using assms by (auto simp: levels_def)
  then obtain l ls where "levels = l # ls" by (cases levels) auto
  with fold_max [of "sw_level w" l ls] mem show ?thesis by (simp add: simple_level_def levels_def [symmetric])
qed

text \<open>No limit and no allowance that overlaps a slot is below its cap.\<close>

lemma slot_cap_le:
  assumes "snap \<in> set schedule" "tw_overlaps (cs_start snap) (cs_end snap) s e"
  shows "snapshot_limit d snap = Some l \<Longrightarrow> slot_cap schedule d s e phys \<le> cl_limit_kw l"
    and "allowance d snap = Some a \<Longrightarrow> slot_cap schedule d s e phys \<le> cl_limit_kw a"
proof -
  assume l: "snapshot_limit d snap = Some l"
  then obtain t where t: "tightest_capacity_limit schedule d s e = Some t"
    using assms tightest_over_None [of schedule s e "snapshot_limit d"]
    by (cases "tightest_over schedule s e (snapshot_limit d)") (auto simp: tightest_capacity_limit_def)
  with tightest_over_Some [of schedule s e "snapshot_limit d" t] assms l have "cl_limit_kw t \<le> cl_limit_kw l"
    by (auto simp: tightest_capacity_limit_def)
  then show "slot_cap schedule d s e phys \<le> cl_limit_kw l" by (simp add: slot_cap_def t Let_def min_le_iff_disj split: option.split)
next
  assume a: "allowance d snap = Some a"
  then obtain t where t: "tightest_over schedule s e (allowance d) = Some t"
    using assms tightest_over_None [of schedule s e "allowance d"] by (cases "tightest_over schedule s e (allowance d)") auto
  with tightest_over_Some [OF t] assms a have "cl_limit_kw t \<le> cl_limit_kw a" by auto
  then show "slot_cap schedule d s e phys \<le> cl_limit_kw a"
    by (simp add: slot_cap_def contracted_allowance_kw_def t Let_def min_le_iff_disj)
qed



section \<open>What a stale slot costs\<close>

text \<open>
  The safe average is the nearest-rank percentile of the known rates: one of them, at least the asked share of the
  known rates are no dearer, and, unless it is the cheapest, fewer than that share are strictly cheaper.
\<close>

theorem safe_average_percentile:
  assumes known: "known \<noteq> []" and pctl: "0 \<le> pctl" "pctl \<le> 1"
    and fill_def: "fill = stale_fill SafeAverage pctl known default_rate"
  shows "fill \<in> set known \<and> pctl * of_nat (length known) \<le> of_nat (length (filter (\<lambda>r. r \<le> fill) known)) \<and>
    (filter (\<lambda>r. r < fill) known = [] \<or> of_nat (length (filter (\<lambda>r. r < fill) known)) < pctl * of_nat (length known))"
proof -
  define xs n rank where "xs = sort known" and "n = length known" and "rank = nat \<lceil>pctl * of_nat (length known)\<rceil>"
  define k where "k = min (max rank 1) n - 1"
  have n: "0 < n" "length xs = n" "sorted xs" using known by (simp_all add: xs_def n_def)
  have "pctl * of_nat n \<le> 1 * of_nat n" by (rule mult_right_mono) (use pctl in simp_all)
  then have rank: "rank \<le> n" by (simp add: rank_def n_def [symmetric] nat_le_iff ceiling_le_iff)
  have share: "pctl * of_nat n \<le> of_nat rank" "rank \<noteq> 0 \<Longrightarrow> of_nat (rank - 1) < pctl * of_nat n"
    using pctl by (simp_all add: rank_def n_def [symmetric]) linarith+
  have k: "k < n" "rank \<le> Suc k" "k = 0 \<or> k = rank - 1" "k = 0 \<or> rank \<noteq> 0" using n(1) rank by (auto simp: k_def)
  have "sort known \<noteq> []" using known by (metis set_empty set_sort)
  then have fill: "fill = xs ! k"
    using known pctl by (simp add: fill_def percentile_def xs_def clamp_range_def rank_def k_def n_def hm_or_def Let_def min.absorb2)
  have mono: "fill \<le> xs ! (k + i)" if "i < n - k" for i
    using sorted_nth_mono [OF n(3), of k "k + i"] that n(2) by (simp add: fill)
  have count: "length (filter P known) = length (filter P xs)" for P
    unfolding xs_def by (metis mset_filter mset_sort size_mset)
  have upto: "length (take (Suc k) xs) \<le> length (filter (\<lambda>r. r \<le> fill) xs)"
  proof -
    have "filter (\<lambda>r. r \<le> fill) (take (Suc k) xs) = take (Suc k) xs"
      using n k(1) by (intro filter_True) (auto simp: fill in_set_conv_nth less_Suc_eq_le intro!: sorted_nth_mono)
    then have "take (Suc k) xs @ filter (\<lambda>r. r \<le> fill) (drop (Suc k) xs) = filter (\<lambda>r. r \<le> fill) xs"
      by (metis append_take_drop_id filter_append)
    then show ?thesis by (metis length_append le_add1)
  qed
  have below: "length (filter (\<lambda>r. r < fill) xs) \<le> k"
  proof -
    have "filter (\<lambda>r. r < fill) (drop k xs) = []"
      by (auto simp: filter_empty_conv in_set_conv_nth not_less n(2) intro!: mono)
    then have "filter (\<lambda>r. r < fill) xs = filter (\<lambda>r. r < fill) (take k xs)"
      by (metis append_take_drop_id filter_append append_Nil2)
    then show ?thesis by (metis length_filter_le length_take min.cobounded2 order_trans)
  qed
  have "fill \<in> set known" using n k(1) by (metis fill nth_mem set_sort xs_def)
  moreover have "pctl * of_nat n \<le> of_nat (length (filter (\<lambda>r. r \<le> fill) known))"
    using share(1) k(1,2) upto n(2) by (simp add: count)
  moreover have "filter (\<lambda>r. r < fill) known = [] \<or> of_nat (length (filter (\<lambda>r. r < fill) known)) < pctl * of_nat n"
  proof (cases "k = 0")
    case True
    with below show ?thesis by (metis count le_zero_eq length_0_conv)
  next
    case False
    with k(3,4) below have "length (filter (\<lambda>r. r < fill) known) \<le> rank - 1" "rank \<noteq> 0" by (simp_all add: count)
    with share(2) show ?thesis by (metis of_nat_le_iff order_le_less_trans)
  qed
  ultimately show ?thesis by (simp add: n_def)
qed

lemma safe_average_percentile_witness:
  "stale_fill SafeAverage (1 / 2) [3, 1, 2, 4] 0 \<in> {1, 2, 3, 4}"
  using safe_average_percentile [of "[3, 1, 2, 4]" "1 / 2" _ 0, OF _ _ _ refl] by auto

text \<open>
  A step series holds its last value for ever, so the rate a day back always looks known: a slot more than a day past
  the end of the known data is filled with the last known rate, whatever the history says of the same hour a week back.
\<close>

theorem diurnal_fill_ignores_coverage:
  assumes step: "ts_mode series = Step" and known: "ts_samples series \<noteq> []"
    and late: "\<forall>(t, v) \<in> set (ts_samples series). t + day_span \<le> slot_start"
    and same: "is_weekend (slot_start - day_span) = is_weekend slot_start"
  shows "diurnal_fill slot_start series (Some history) last_known = snd (last (ts_samples series))"
proof -
  have "takeWhile (\<lambda>s. fst s \<le> slot_start - day_span) (ts_samples series) = ts_samples series"
    using late by (intro takeWhile_eq_all_conv [THEN iffD2]) auto
  then have pos: "partition_point (\<lambda>s. fst s \<le> slot_start - day_span) (ts_samples series) = length (ts_samples series)"
    by (simp only: partition_point_def)
  have "interpolate_at series (slot_start - day_span) = Some (snd (last (ts_samples series)))"
    unfolding interpolate_at_def Let_def pos using known by (auto simp: step last_conv_nth split: prod.split)
  then show ?thesis using same by (simp add: diurnal_fill_def Let_def)
qed

text \<open>Prices known through Monday, history knowing the night's price a week before: Wednesday is still Monday's last.\<close>

lemma diurnal_fill_ignores_coverage_witness:
  "diurnal_fill (13 * day_span) \<lparr>ts_samples = [(11 * day_span, 3 / 10)], ts_mode = Step\<rparr>
     (Some \<lparr>ts_samples = [(6 * day_span, 1 / 10)], ts_mode = Step\<rparr>) 0 = 3 / 10"
  by (subst diurnal_fill_ignores_coverage) (simp_all add: is_weekend_def weekday_of_def day_span_def seconds_def)

end
