(* ===== verification/Plan_Result.thy ===== *)
theory Plan_Result
  imports Milp_Solve Planner_Inputs
begin

text \<open>
  What becomes of a solution: \<open>VEN/src/controller/milp_planner/results.rs\<close>, \<open>forecast_readback.rs\<close>,
  \<open>session_flexibility.rs\<close>, \<open>forecast_plan.rs\<close> and \<open>run_planner\<close> of \<open>mod.rs\<close>, with the plan's records of
  \<open>VEN/src/entities/plan.rs\<close>. Fresh ids are arguments; so are the writers of a figure, an id and a time of day in a
  warning's text. The debug assertions are not part of the model.
\<close>

section \<open>The plan\<close>

record asset_allocation =
  qa_asset_id :: string
  qa_power_kw :: f64
  qa_surplus_power_kw :: f64
  qa_grid_power_kw :: f64
  qa_marginal_value :: f64
  qa_cost_eur :: f64
  qa_co2_g :: f64

record forecast_slot_power =
  qf_forecast_kw :: f64
  qf_used_kw :: f64
  qf_generation :: bool

text \<open>The whole slot; \<open>plan_time_slot\<close> is the part of it that the controller reads.\<close>

record plan_slot =
  qs_slot_index :: nat
  qs_start :: instant
  qs_end :: instant
  qs_import_tariff_eur_kwh :: f64
  qs_export_tariff_eur_kwh :: f64
  qs_co2_g_kwh :: f64
  qs_grid_effective_cost :: f64
  qs_marginal_cost_import_eur_per_kwh :: f64
  qs_marginal_cost_export_eur_per_kwh :: f64
  qs_rate_estimated :: bool
  qs_import_cap_kw :: f64
  qs_export_cap_kw :: f64
  qs_baseline_kw :: f64
  qs_pv_forecast_kw :: f64
  qs_pv_used_kw :: f64
  qs_surplus_available_kw :: f64
  qs_allocations :: "asset_allocation list"
  qs_net_import_kw :: f64
  qs_net_export_kw :: f64
  qs_import_flexibility_kw :: f64
  qs_export_flexibility_kw :: f64
  qs_planned_kw_by_asset :: "f64 hmap"
  qs_planned_state_by_asset :: "f64 hmap hmap"
  qs_forecast_by_asset :: "forecast_slot_power hmap"

record session_flexibility =
  sf_asset_id :: string
  sf_energy_needed_kwh :: f64
  sf_power_min_kw :: f64
  sf_power_max_kw :: f64
  sf_window_start :: instant
  sf_window_end :: instant
  sf_slots_available :: nat
  sf_max_acceptable_rate_eur_kwh :: f64
  sf_min_acceptable_rate_eur_kwh :: f64
  sf_budget_remaining_eur :: f64
  sf_estimated_cost_eur :: f64
  sf_estimated_co2_g :: f64

record planning_horizon =
  ph_start_time :: instant
  ph_end_time :: instant
  ph_step_size_s :: nat
  ph_num_steps :: nat
  ph_far_horizon :: instant
  ph_zones :: "plan_zone list"

record cost_breakdown =
  cb_c_energy_eur :: f64
  cb_c_ghg_eur :: f64
  cb_c_grid_eur :: f64
  cb_c_wear_eur :: f64
  cb_c_violations_eur :: f64
  cb_v_services_eur :: f64
  cb_c_peak_penalty_eur :: f64

record active_penalty_rule =
  ar_rule_id :: string
  ar_threshold_kw :: f64

record plan_summary =
  su_total_cost_eur :: f64
  su_total_co2_g :: f64
  su_total_import_kwh :: f64
  su_total_export_kwh :: f64

record site_plan =
  pk_id :: uuid
  pk_created_at :: instant
  pk_trigger :: plan_trigger
  pk_horizon :: planning_horizon
  pk_planned_asset_ids :: "string list"
  pk_slots :: "plan_slot list"
  pk_summary :: plan_summary
  pk_session_flexibility :: "session_flexibility list"
  pk_warnings :: "plan_warning list"
  pk_objective :: planner_objective
  pk_objective_eur :: f64
  pk_friction_eur :: f64
  pk_cost_breakdown :: cost_breakdown
  pk_solve_status :: solve_status
  pk_phase_report :: "plan_phase_report option"
  pk_penalty_rules_active :: "active_penalty_rule list"
  pk_solver_ms :: "nat option"
  pk_mip_gap_target :: "f64 option"

text \<open>\<open>collect\<close> into a map: a later pair of the same key wins.\<close>

definition hm_collect :: "(string \<times> 'v) list \<Rightarrow> 'v hmap" where
  "hm_collect kvs = fold (\<lambda>(k, v). hm_put k v) kvs []"

section \<open>What a slot says of its forecasts and inputs\<close>

definition forecast_power ::
  "solve_output option \<Rightarrow> nat \<Rightarrow> nat \<times> asset_milp_context \<Rightarrow> (string \<times> forecast_slot_power) option" where
  "forecast_power sol t = (\<lambda>(i, ctx). case ctx_participation ctx of
       Dispatched \<Rightarrow> None
     | FollowsForecast role forecast_kw \<Rightarrow>
         let generation = (role = Generation); own = (if generation then - (forecast_kw ! t) else forecast_kw ! t)
         in Some (ctx_asset_id ctx, \<lparr>qf_forecast_kw = own,
              qf_used_kw = (case sol of None \<Rightarrow> own | Some s \<Rightarrow> as_net_power_kw (so_assets s ! i) ! t), qf_generation = generation\<rparr>))"

definition forecast_by_asset ::
  "asset_milp_context list \<Rightarrow> solve_output option \<Rightarrow> nat \<Rightarrow> (string \<times> forecast_slot_power) list" where
  "forecast_by_asset ctxs sol t = List.map_filter (forecast_power sol t) (enumerate 0 ctxs)"

definition generation_used_kw :: "(string \<times> forecast_slot_power) list \<Rightarrow> f64" where
  "generation_used_kw forecasts =
     (case map (\<lambda>(_, f). - qf_used_kw f) (filter (\<lambda>(_, f). qf_generation f) forecasts) of
        [] \<Rightarrow> 0 | x # xs \<Rightarrow> fold (\<lambda>b a. a + b) xs x)"

definition slot_skeleton :: "milp_inputs \<Rightarrow> f64 list \<Rightarrow> instant \<Rightarrow> nat \<Rightarrow> plan_slot" where
  "slot_skeleton inp surplus_kw now t =
     \<lparr>qs_slot_index = t, qs_start = now + seconds (mi_cum_s inp ! t), qs_end = now + seconds (mi_cum_s inp ! (t + 1)),
      qs_import_tariff_eur_kwh = mi_c_imp_eur_kwh inp ! t, qs_export_tariff_eur_kwh = mi_c_exp_eur_kwh inp ! t,
      qs_co2_g_kwh = mi_g_imp_kgco2_kwh inp ! t * 1000, qs_grid_effective_cost = mi_c_imp_eur_kwh inp ! t,
      qs_marginal_cost_import_eur_per_kwh = 0, qs_marginal_cost_export_eur_per_kwh = 0,
      qs_rate_estimated = mi_rate_stale inp ! t, qs_import_cap_kw = mi_p_imp_max_cont_kw inp ! t,
      qs_export_cap_kw = mi_p_exp_max_cont_kw inp ! t, qs_baseline_kw = mi_load_forecast_kw inp ! t,
      qs_pv_forecast_kw = mi_generation_forecast_kw inp ! t, qs_pv_used_kw = mi_generation_forecast_kw inp ! t,
      qs_surplus_available_kw = max (surplus_kw ! t) 0, qs_allocations = [], qs_net_import_kw = 0, qs_net_export_kw = 0,
      qs_import_flexibility_kw = 0, qs_export_flexibility_kw = 0, qs_planned_kw_by_asset = [],
      qs_planned_state_by_asset = [], qs_forecast_by_asset = []\<rparr>"

section \<open>Allocations\<close>

definition ctx_dispatched :: "asset_milp_context \<Rightarrow> bool" where
  "ctx_dispatched ctx \<longleftrightarrow> ctx_participation ctx = Dispatched"

definition planned_asset_ids :: "asset_milp_context list \<Rightarrow> string list" where
  "planned_asset_ids ctxs = map ctx_asset_id (filter ctx_dispatched ctxs)"

definition surplus_claim_order :: "solve_output \<Rightarrow> asset_milp_context list \<Rightarrow> nat list" where
  "surplus_claim_order sol ctxs =
     sort_key (\<lambda>i. ctx_surplus_claim_rank (ctxs ! i))
       (filter (\<lambda>i. ctx_dispatched (ctxs ! i)) [0..<min (length ctxs) (length (so_assets sol))])"

text \<open>One asset's allocation in a slot, with the surplus it leaves to the next.\<close>

definition allocation ::
  "asset_solution \<Rightarrow> allocation_basis \<Rightarrow> nat \<Rightarrow> milp_inputs \<Rightarrow> f64 \<Rightarrow> asset_allocation option \<times> f64" where
  "allocation sol basis t inputs surplus_remaining_kw =
     (let power_kw = as_net_power_kw sol ! t;
          c_imp = mi_c_imp_eur_kwh inputs ! t; c_exp = mi_c_exp_eur_kwh inputs ! t; dt_h = mi_dt_h inputs ! t;
          g_kwh = mi_g_imp_kgco2_kwh inputs ! t * 1000;
          marginal = (case basis of LoadBasis \<Rightarrow> c_imp | StorageBasis \<Rightarrow> c_exp);
          alloc = (\<lambda>surplus from_grid cost co2. \<lparr>qa_asset_id = as_asset_id sol, qa_power_kw = power_kw,
            qa_surplus_power_kw = surplus, qa_grid_power_kw = from_grid, qa_marginal_value = marginal,
            qa_cost_eur = cost, qa_co2_g = co2\<rparr>)
      in if \<bar>power_kw\<bar> \<le> 1 / 100 then (None, surplus_remaining_kw)
         else if basis = StorageBasis \<and> power_kw < 0
         then let dis_kw = (case as_storage sol of None \<Rightarrow> - power_kw | Some legs \<Rightarrow> lg_discharge_kw legs ! t)
              in (Some (alloc 0 power_kw (- (dis_kw * c_exp * dt_h)) (- (dis_kw * g_kwh * dt_h))), surplus_remaining_kw)
         else let surplus = min surplus_remaining_kw power_kw; from_grid = power_kw - surplus
              in (Some (alloc surplus from_grid (from_grid * c_imp * dt_h + surplus * c_exp * dt_h) (from_grid * g_kwh * dt_h)),
                  surplus_remaining_kw - surplus))"

fun claim_surplus ::
  "solve_output \<Rightarrow> asset_milp_context list \<Rightarrow> milp_inputs \<Rightarrow> nat \<Rightarrow> nat list \<Rightarrow> f64 \<Rightarrow> asset_allocation list" where
  "claim_surplus sol ctxs inputs t [] remaining = []"
| "claim_surplus sol ctxs inputs t (i # is) remaining =
     (case allocation (so_assets sol ! i) (ctx_allocation_basis (ctxs ! i)) t inputs remaining of
        (a, left_kw) \<Rightarrow> (case a of None \<Rightarrow> [] | Some x \<Rightarrow> [x]) @ claim_surplus sol ctxs inputs t is left_kw)"

definition storage_throughput_kw :: "solve_output \<Rightarrow> nat \<Rightarrow> f64 list" where
  "storage_throughput_kw sol n =
     fold (\<lambda>legs throughput. map (\<lambda>t. throughput ! t + (lg_charge_kw legs ! t + lg_discharge_kw legs ! t)) [0..<n])
       (List.map_filter as_storage (so_assets sol)) (replicate n 0)"

definition planned_slot ::
  "solve_output \<Rightarrow> asset_milp_context list \<Rightarrow> milp_inputs \<Rightarrow> instant \<Rightarrow> nat \<Rightarrow> f64 \<Rightarrow> plan_slot" where
  "planned_slot sol ctxs inputs now t marginal_cost =
     (let skeleton = slot_skeleton inputs (forecast_surplus_kw inputs) now t;
          forecasts = forecast_by_asset ctxs (Some sol) t;
          allocations = claim_surplus sol ctxs inputs t (surplus_claim_order sol ctxs) (qs_surplus_available_kw skeleton)
      in skeleton\<lparr>qs_marginal_cost_import_eur_per_kwh := marginal_cost, qs_marginal_cost_export_eur_per_kwh := marginal_cost,
           qs_pv_used_kw := generation_used_kw forecasts,
           qs_planned_kw_by_asset := hm_collect (map (\<lambda>a. (qa_asset_id a, qa_power_kw a)) allocations),
           qs_allocations := allocations, qs_net_import_kw := so_p_imp_kw sol ! t, qs_net_export_kw := so_p_exp_kw sol ! t,
           qs_planned_state_by_asset := hm_collect (List.map_filter
             (\<lambda>a. map_option (Pair (as_asset_id a)) (nth_opt (as_planned_state a) t)) (so_assets sol)),
           qs_forecast_by_asset := hm_collect forecasts\<rparr>)"

section \<open>Session flexibility\<close>

definition asset_planned_cost :: "plan_slot list \<Rightarrow> string \<Rightarrow> instant \<Rightarrow> (f64 \<times> f64) option" where
  "asset_planned_cost sched asset_id until =
     (let own = concat (map (\<lambda>s. map (Pair s) (filter (\<lambda>a. qa_asset_id a = asset_id) (qs_allocations s)))
                 (filter (\<lambda>s. qs_start s < until) sched))
      in if own = [] then None
         else Some (sum_list (map (\<lambda>(s, a). (qa_grid_power_kw a * qs_import_tariff_eur_kwh s +
                      qa_surplus_power_kw a * qs_export_tariff_eur_kwh s) * dt_h_from_duration (qs_end s - qs_start s)) own),
                    sum_list (map (\<lambda>(s, a). qa_co2_g a) own)))"

text \<open>The slots from one index up to another, read in steps of the same width.\<close>

definition step_index :: "span \<Rightarrow> nat \<Rightarrow> nat" where
  "step_index d step_s = nat (num_seconds d div int step_s)"

definition mean_over :: "(nat \<Rightarrow> f64) \<Rightarrow> nat \<Rightarrow> nat \<Rightarrow> f64" where
  "mean_over f from_t to_t = sum_list (map f [from_t..<to_t]) / of_nat (max (to_t - from_t) 1)"

definition session_entry ::
  "string \<Rightarrow> flexibility_window \<Rightarrow> milp_inputs \<Rightarrow> nat \<Rightarrow> instant \<Rightarrow> plan_slot list option \<Rightarrow> session_flexibility" where
  "session_entry asset_id window inputs step_s now solved_slots =
     (let window_start = max (fw_window_start window) now; window_end = fw_window_end window;
          t_from = step_index (window_start - now) step_s;
          t_to = min (step_index (window_end - now) step_s) (mi_n inputs);
          avg_tariff = mean_over (\<lambda>t. mi_c_imp_eur_kwh inputs ! t) t_from t_to;
          avg_co2 = mean_over (\<lambda>t. mi_g_imp_kgco2_kwh inputs ! t * 1000) t_from t_to;
          energy = fw_energy_needed_kwh window;
          (cost, co2) = hm_or (energy * avg_tariff, energy * avg_co2)
            (Option.bind solved_slots (\<lambda>s. asset_planned_cost s asset_id window_end))
      in \<lparr>sf_asset_id = asset_id, sf_energy_needed_kwh = energy, sf_power_min_kw = fw_power_min_kw window,
          sf_power_max_kw = fw_power_max_kw window, sf_window_start = window_start, sf_window_end = window_end,
          sf_slots_available = step_index (window_end - window_start) step_s, sf_max_acceptable_rate_eur_kwh = 35 / 100,
          sf_min_acceptable_rate_eur_kwh = 5 / 100, sf_budget_remaining_eur = 10 ^ 9, sf_estimated_cost_eur = cost,
          sf_estimated_co2_g = co2\<rparr>)"

definition build_session_flexibility ::
  "asset_milp_context list \<Rightarrow> milp_inputs \<Rightarrow> planner_params \<Rightarrow> instant \<Rightarrow> plan_slot list option \<Rightarrow> session_flexibility list" where
  "build_session_flexibility ctxs inputs p now solved_slots =
     List.map_filter (\<lambda>ctx. map_option (\<lambda>w. session_entry (ctx_asset_id ctx) w inputs (pm_plan_step_s p) now solved_slots)
       (ctx_flexibility_window ctx now)) ctxs"

section \<open>Sums, warnings and the plan\<close>

definition per_slot :: "nat \<Rightarrow> (nat \<Rightarrow> f64) \<Rightarrow> f64" where
  "per_slot n f = sum_list (map f [0..<n])"

definition energy_cost_eur :: "milp_inputs \<Rightarrow> solve_output \<Rightarrow> f64" where
  "energy_cost_eur inputs sol = per_slot (mi_n inputs) (\<lambda>t. (mi_c_imp_eur_kwh inputs ! t * so_p_imp_kw sol ! t -
     mi_c_exp_eur_kwh inputs ! t * so_p_exp_kw sol ! t) * mi_dt_h inputs ! t)"

definition energy_of_flow :: "f64 list \<Rightarrow> f64 list \<Rightarrow> f64" where
  "energy_of_flow flow dt_h = sum_list (map (\<lambda>(p, d). p * d) (zip flow dt_h))"

definition summary_of :: "milp_inputs \<Rightarrow> solve_output \<Rightarrow> plan_summary" where
  "summary_of inputs sol =
     \<lparr>su_total_cost_eur = energy_cost_eur inputs sol,
      su_total_co2_g = per_slot (mi_n inputs) (\<lambda>t. mi_g_imp_kgco2_kwh inputs ! t * 1000 * so_p_imp_kw sol ! t * mi_dt_h inputs ! t),
      su_total_import_kwh = energy_of_flow (so_p_imp_kw sol) (mi_dt_h inputs),
      su_total_export_kwh = energy_of_flow (so_p_exp_kw sol) (mi_dt_h inputs)\<rparr>"

definition peak_penalty_eur :: "milp_inputs \<Rightarrow> solve_output \<Rightarrow> f64" where
  "peak_penalty_eur inputs sol =
     sum_list (map (\<lambda>(rule, windows). pn_penalty_eur_per_kw rule * sum_list windows) (zip (mi_penalty_rules inputs) (so_s_penalty_kw sol)))"

definition breakdown_of :: "milp_inputs \<Rightarrow> phase1_weights \<Rightarrow> solve_output \<Rightarrow> cost_breakdown" where
  "breakdown_of inputs weights sol =
     (let n = mi_n inputs; dt = (\<lambda>t. mi_dt_h inputs ! t); p_imp = (\<lambda>t. so_p_imp_kw sol ! t); p_exp = (\<lambda>t. so_p_exp_kw sol ! t);
          throughput = storage_throughput_kw sol n
      in \<lparr>cb_c_energy_eur = per_slot n (\<lambda>t. w1_energy weights *
            (mi_c_imp_eur_kwh inputs ! t * p_imp t - mi_c_exp_eur_kwh inputs ! t * p_exp t) * dt t),
          cb_c_ghg_eur = per_slot n (\<lambda>t. w1_ghg weights * mi_g_imp_kgco2_kwh inputs ! t * p_imp t * dt t),
          cb_c_grid_eur = per_slot n (\<lambda>t. w1_grid weights * (p_imp t + p_exp t) * dt t),
          cb_c_wear_eur = per_slot n (\<lambda>t. w1_c_storage_wear_eur_kwh weights * throughput ! t * dt t),
          cb_c_violations_eur = per_slot n (\<lambda>t. w1_viol weights * (mi_pen_imp_eur_kwh inputs * so_s_imp_viol_kw sol ! t +
            mi_pen_exp_eur_kwh inputs * so_s_exp_viol_kw sol ! t) * dt t),
          cb_v_services_eur = 0, cb_c_peak_penalty_eur = peak_penalty_eur inputs sol\<rparr>)"

definition active_penalty_rules :: "penalty_rule_params list \<Rightarrow> active_penalty_rule list" where
  "active_penalty_rules rules = map (\<lambda>r. \<lparr>ar_rule_id = pn_rule_id r, ar_threshold_kw = pn_threshold_kw r\<rparr>) rules"

text \<open>The writers of an asset's warnings, with the one of a time of day.\<close>

type_synonym plan_writers = "writers \<times> (instant \<Rightarrow> string)"

definition en_dash :: string where "en_dash = [CHR 0xE2, CHR 0x80, CHR 0x93]"
definition euro_sign :: string where "euro_sign = [CHR 0xE2, CHR 0x82, CHR 0xAC]"

definition rate_warnings :: "milp_inputs \<Rightarrow> plan_warning list" where
  "rate_warnings inputs = map (\<lambda>msg. \<lparr>pw_severity = PlainWarning, pw_kind = StaleRateEstimate, pw_message = msg, pw_suggested_action = None\<rparr>)
     (List.map_filter id [mi_stale_rate_warning inputs, mi_co2_stale_rate_warning inputs])"

definition slot_violated :: "solve_output \<Rightarrow> nat \<Rightarrow> bool" where
  "slot_violated sol t \<longleftrightarrow> 1 / 100 < so_s_imp_viol_kw sol ! t \<or> 1 / 100 < so_s_exp_viol_kw sol ! t"

definition capacity_warning :: "nat \<Rightarrow> plan_warning list" where
  "capacity_warning k =
     (if 0 < k then [\<lparr>pw_severity = PlainWarning, pw_kind = CapacityViolation,
        pw_message = ''Grid capacity violation in '' @ show_nat k @ '' slot(s) '' @ em_dash @ '' solver used slack'',
        pw_suggested_action = None\<rparr>] else [])"

definition peak_warning :: "plan_writers \<Rightarrow> instant \<Rightarrow> penalty_rule_params \<Rightarrow> nat \<times> f64 \<Rightarrow> plan_warning option" where
  "peak_warning w now rule = (\<lambda>(i, slack_kw).
     if 1 / 100 < slack_kw
     then let window = int (pn_measurement_window_s rule); fixed = fst (fst w)
          in Some \<lparr>pw_severity = PlainWarning, pw_kind = PeakPenaltyExceeded,
               pw_message = ''Penalty rule '' @ [CHR 0x27] @ pn_rule_id rule @ [CHR 0x27] @ '' exceeded in window '' @
                 snd w (now + seconds (int i * window)) @ en_dash @ snd w (now + seconds ((int i + 1) * window)) @
                 '': peak '' @ fixed 1 (pn_threshold_kw rule + slack_kw) @ '' kW > threshold '' @ fixed 1 (pn_threshold_kw rule) @
                 '' kW ('' @ euro_sign @ fixed 2 (pn_penalty_eur_per_kw rule * slack_kw) @ '' accepted)'',
               pw_suggested_action =
                 Some ''Increase available flexible capacity or raise the threshold if this recurs''\<rparr>
     else None)"

definition peak_warnings :: "plan_writers \<Rightarrow> instant \<Rightarrow> milp_inputs \<Rightarrow> solve_output \<Rightarrow> plan_warning list" where
  "peak_warnings w now inputs sol =
     concat (map (\<lambda>(rule, windows). List.map_filter (peak_warning w now rule) (enumerate 0 windows))
       (zip (mi_penalty_rules inputs) (so_s_penalty_kw sol)))"

definition translate_to_plan ::
  "plan_writers \<Rightarrow> uuid \<Rightarrow> solve_output \<Rightarrow> milp_inputs \<Rightarrow> asset_milp_context list \<Rightarrow> phase1_weights \<Rightarrow> planner_params \<Rightarrow> instant
   \<Rightarrow> plan_trigger \<Rightarrow> planner_objective \<Rightarrow> f64 \<Rightarrow> f64 \<Rightarrow> f64 list \<Rightarrow> plan_phase_report option \<Rightarrow> site_plan" where
  "translate_to_plan w fresh sol inputs ctxs weights p now trigger objective phase1_cost_eur friction_eur marginal report =
     (let n = mi_n inputs; horizon_end = now + seconds (mi_cum_s inputs ! n);
          indices = [0..<min n (length marginal)];
          sched = map (\<lambda>t. planned_slot sol ctxs inputs now t (marginal ! t)) indices;
          violations = length (filter (slot_violated sol) indices)
      in \<lparr>pk_id = fresh, pk_created_at = now, pk_trigger = trigger,
          pk_horizon = \<lparr>ph_start_time = now, ph_end_time = horizon_end, ph_step_size_s = pm_plan_step_s p, ph_num_steps = n,
            ph_far_horizon = horizon_end, ph_zones = pm_plan_zones p\<rparr>,
          pk_planned_asset_ids = planned_asset_ids ctxs, pk_slots = sched, pk_summary = summary_of inputs sol,
          pk_session_flexibility = build_session_flexibility ctxs inputs p now (Some sched),
          pk_warnings = rate_warnings inputs @
            concat (map (\<lambda>ctx. ctx_input_warnings (fst (fst w)) (snd (fst w)) ctx (mi_c_imp_eur_kwh inputs)) ctxs) @
            capacity_warning violations @ peak_warnings w now inputs sol @ concat (map as_warnings (so_assets sol)),
          pk_objective = objective, pk_objective_eur = phase1_cost_eur, pk_friction_eur = friction_eur,
          pk_cost_breakdown = breakdown_of inputs weights sol, pk_solve_status = map_solve_status (so_status sol),
          pk_phase_report = report, pk_penalty_rules_active = active_penalty_rules (mi_penalty_rules inputs),
          pk_solver_ms = None, pk_mip_gap_target = Some (pm_mip_gap_target p)\<rparr>)"

definition no_summary :: plan_summary where
  "no_summary = \<lparr>su_total_cost_eur = 0, su_total_co2_g = 0, su_total_import_kwh = 0, su_total_export_kwh = 0\<rparr>"

definition no_breakdown :: cost_breakdown where
  "no_breakdown = \<lparr>cb_c_energy_eur = 0, cb_c_ghg_eur = 0, cb_c_grid_eur = 0, cb_c_wear_eur = 0, cb_c_violations_eur = 0,
     cb_v_services_eur = 0, cb_c_peak_penalty_eur = 0\<rparr>"

definition fallback_plan ::
  "uuid \<Rightarrow> planner_params \<Rightarrow> instant \<Rightarrow> plan_trigger \<Rightarrow> asset_milp_context list \<Rightarrow> milp_inputs option \<Rightarrow> string
   \<Rightarrow> planner_objective \<Rightarrow> site_plan" where
  "fallback_plan fresh p now trigger ctxs inputs reason objective =
     (let total_s = sum_list (map (\<lambda>z. int (pz_step_s z) * int (pz_slots z)) (pm_plan_zones p));
          horizon_end = now + seconds total_s
      in \<lparr>pk_id = fresh, pk_created_at = now, pk_trigger = trigger,
          pk_horizon = \<lparr>ph_start_time = now, ph_end_time = horizon_end, ph_step_size_s = pm_plan_step_s p,
            ph_num_steps = slot_count (pm_plan_zones p), ph_far_horizon = horizon_end, ph_zones = pm_plan_zones p\<rparr>,
          pk_planned_asset_ids = planned_asset_ids ctxs,
          pk_slots = (case inputs of None \<Rightarrow> []
            | Some inp \<Rightarrow> map (\<lambda>t. (slot_skeleton inp (forecast_surplus_kw inp) now t)
                \<lparr>qs_forecast_by_asset := hm_collect (forecast_by_asset ctxs None t)\<rparr>) [0..<mi_n inp]),
          pk_summary = no_summary,
          pk_session_flexibility = (case inputs of None \<Rightarrow> [] | Some inp \<Rightarrow> build_session_flexibility ctxs inp p now None),
          pk_warnings = [\<lparr>pw_severity = CriticalWarning, pw_kind = SolverInfeasible, pw_message = reason, pw_suggested_action = None\<rparr>],
          pk_objective = objective, pk_objective_eur = 0, pk_friction_eur = 0, pk_cost_breakdown = no_breakdown,
          pk_solve_status = StatusInfeasible, pk_phase_report = None,
          pk_penalty_rules_active = (case inputs of None \<Rightarrow> [] | Some inp \<Rightarrow> active_penalty_rules (mi_penalty_rules inp)),
          pk_solver_ms = None, pk_mip_gap_target = Some (pm_mip_gap_target p)\<rparr>)"

section \<open>A plan without a solve\<close>

record forecast_grid =
  fg_slot_start :: "instant list"
  fg_slot_s :: "f64 list"
  fg_forecast_kw_by_asset :: "f64 list hmap"

record forecast_trace =
  ft_net_kw_by_asset :: "f64 list hmap"
  ft_states_by_asset :: "f64 hmap list hmap"
  ft_import_kw :: "f64 list"
  ft_export_kw :: "f64 list"

definition forecast_grid_of :: "milp_inputs \<Rightarrow> asset_milp_context list \<Rightarrow> instant \<Rightarrow> forecast_grid" where
  "forecast_grid_of inputs ctxs now =
     \<lparr>fg_slot_start = map (\<lambda>t. now + seconds (mi_cum_s inputs ! t)) [0..<mi_n inputs],
      fg_slot_s = map (\<lambda>t. of_int (mi_cum_s inputs ! (t + 1) - mi_cum_s inputs ! t)) [0..<mi_n inputs],
      fg_forecast_kw_by_asset = hm_collect (List.map_filter (\<lambda>c. case ctx_participation c of
        FollowsForecast _ kw \<Rightarrow> Some (ctx_asset_id c, kw) | Dispatched \<Rightarrow> None) ctxs)\<rparr>"

definition slot_series :: "nat \<Rightarrow> f64 list \<Rightarrow> f64 list" where
  "slot_series n series = map (\<lambda>t. hm_or 0 (nth_opt series t)) [0..<n]"

definition beyond :: "nat \<Rightarrow> f64 list \<Rightarrow> f64 list \<Rightarrow> f64 list" where
  "beyond n flow_kw cap_kw = map (\<lambda>t. max (flow_kw ! t - cap_kw ! t) 0) [0..<n]"

definition trace_output :: "forecast_trace \<Rightarrow> milp_inputs \<Rightarrow> asset_milp_context list \<Rightarrow> solve_output" where
  "trace_output trace inputs ctxs =
     (let n = mi_n inputs; p_imp = slot_series n (ft_import_kw trace); p_exp = slot_series n (ft_export_kw trace)
      in \<lparr>so_status = SolvedOptimal, so_objective_eur = 0, so_p_imp_kw = p_imp, so_p_exp_kw = p_exp,
          so_s_imp_viol_kw = beyond n p_imp (mi_p_imp_max_cont_kw inputs),
          so_s_exp_viol_kw = beyond n p_exp (mi_p_exp_max_cont_kw inputs),
          so_s_penalty_kw = map (\<lambda>rule. window_exceedance_kw (mi_cum_s inputs) rule p_imp) (mi_penalty_rules inputs),
          so_assets = map (\<lambda>c. ctx_solution_from_trace c
              (slot_series n (hm_or (replicate n 0) (hm_get (ft_net_kw_by_asset trace) (ctx_asset_id c))))
              (hm_or [] (hm_get (ft_states_by_asset trace) (ctx_asset_id c)))) ctxs\<rparr>)"

definition marginal_values :: "milp_inputs \<Rightarrow> solve_output \<Rightarrow> f64 list" where
  "marginal_values inputs sol = map (\<lambda>t. if so_p_imp_kw sol ! t < so_p_exp_kw sol ! t then mi_c_exp_eur_kwh inputs ! t
     else mi_c_imp_eur_kwh inputs ! t) [0..<mi_n inputs]"

record solve_request =
  sv_asset_contexts :: "asset_milp_context list"
  sv_grid :: grid_signals
  sv_planner :: planner_params
  sv_grid_max_import_kw :: f64
  sv_grid_max_export_kw :: f64
  sv_now :: instant
  sv_trigger :: plan_trigger
  sv_baseline_override :: "baseline_override option"
  sv_objective_override :: "planner_objective option"
  sv_diurnal_import_eur_kwh :: "time_series option"
  sv_diurnal_co2_g_kwh :: "time_series option"

definition request_objective :: "solve_request \<Rightarrow> planner_objective" where
  "request_objective req = hm_or (pm_objective (sv_planner req)) (sv_objective_override req)"

definition request_inputs :: "solve_request \<Rightarrow> milp_inputs \<times> asset_milp_context list" where
  "request_inputs req = planner_inputs (sv_asset_contexts req) (sv_grid req) (sv_planner req)
     \<lparr>sq_grid_max_import_kw = sv_grid_max_import_kw req, sq_grid_max_export_kw = sv_grid_max_export_kw req,
      sq_baseline_override = sv_baseline_override req\<rparr>
     \<lparr>rq_import = sv_diurnal_import_eur_kwh req, rq_co2 = sv_diurnal_co2_g_kwh req\<rparr> (sv_now req)"

definition plan_from_forecast ::
  "plan_writers \<Rightarrow> uuid \<Rightarrow> solve_request \<Rightarrow> (forecast_grid \<Rightarrow> forecast_trace) \<Rightarrow> site_plan" where
  "plan_from_forecast w fresh req forecast =
     (let (inputs, ctxs) = request_inputs req;
          objective = request_objective req;
          sol = trace_output (forecast (forecast_grid_of inputs ctxs (sv_now req))) inputs ctxs
      in (translate_to_plan w fresh sol inputs ctxs (build_phase1_weights (sv_planner req) objective) (sv_planner req)
            (sv_now req) (sv_trigger req) objective (energy_cost_eur inputs sol) 0 (marginal_values inputs sol) None)
          \<lparr>pk_solve_status := StatusSimulated\<rparr>)"

section \<open>A planning cycle's solve\<close>

text \<open>\<open>run_planner\<close> on a request, as \<open>MilpSolver::solve\<close> calls it; \<open>reason_of\<close> writes the solver's error.\<close>

definition run_planner ::
  "'e lp_solver \<Rightarrow> 'e dual_solver \<Rightarrow> plan_writers \<Rightarrow> ('e \<Rightarrow> string) \<Rightarrow> nat \<times> nat \<Rightarrow> uuid \<Rightarrow> solve_request \<Rightarrow> site_plan option" where
  "run_planner solver duals w reason_of ms fresh req =
     (let (inputs, ctxs) = request_inputs req; p = sv_planner req;
          objective = request_objective req; p1w = build_phase1_weights p objective
      in map_option (\<lambda>r. case r of
            Inr (sol, phase1_cost_eur, friction_eur, marginal, report) \<Rightarrow>
              translate_to_plan w fresh sol inputs ctxs p1w p (sv_now req) (sv_trigger req) objective phase1_cost_eur friction_eur
                marginal (Some report)
          | Inl e \<Rightarrow> fallback_plan fresh p (sv_now req) (sv_trigger req) ctxs (Some inputs)
              (''MILP solver failed: '' @ reason_of e) objective)
          (solve_milp_two_phase solver duals (fst w) ms inputs p1w (pm_phase2_epsilon_eur p) ctxs
             (of_nat (pm_solver_timeout_s p)) (of_nat (pm_phase2_solver_timeout_s p))))"

section \<open>Reading the plan back\<close>

lemma update_new: "k \<notin> fst ` set m \<Longrightarrow> AList.update k v m = m @ [(k, v)]"
  by (induction m) auto

lemma hm_collect_distinct: "distinct (map fst kvs) \<Longrightarrow> hm_collect kvs = kvs"
proof -
  have "fold (\<lambda>(k, v). hm_put k v) kvs m = m @ kvs" if "distinct (map fst (m @ kvs))" for m
    using that by (induction kvs arbitrary: m) (auto simp: hm_put_def update_new)
  from this [of "[]"] show "distinct (map fst kvs) \<Longrightarrow> hm_collect kvs = kvs" by (simp add: hm_collect_def)
qed

lemma filter_nths: "filter P xs = map (\<lambda>i. xs ! i) (filter (\<lambda>i. P (xs ! i)) [0..<length xs])"
proof -
  have "filter P (map (\<lambda>i. xs ! i) is) = map (\<lambda>i. xs ! i) (filter (\<lambda>i. P (xs ! i)) is)" for "is" by (induction "is") simp_all
  from this [of "[0..<length xs]"] show ?thesis by (simp only: map_nth)
qed

lemma sum_list_split: "sum_list (map f xs) = sum_list (map f (filter P xs)) + sum_list (map f (filter (\<lambda>x. \<not> P x) xs))"
  for f :: "'a \<Rightarrow> f64" by (induction xs) simp_all

lemma forecast_entries:
  fixes sol :: solve_output and t :: nat
  defines "used \<equiv> \<lambda>i. as_net_power_kw (so_assets sol ! i) ! t"
  shows forecast_used: "sum_list (map (\<lambda>(_, f). qf_used_kw f) (forecast_by_asset ctxs (Some sol) t)) =
      sum_list (map used (filter (\<lambda>i. \<not> ctx_dispatched (ctxs ! i)) [0..<length ctxs]))"
    and forecast_names: "map fst (forecast_by_asset ctxs (Some sol) t) =
      map ctx_asset_id (filter (\<lambda>c. \<not> ctx_dispatched c) ctxs)"
proof -
  have "sum_list (map (\<lambda>(_, f). qf_used_kw f) (List.map_filter (forecast_power (Some sol) t) (map (\<lambda>i. (i, ctxs ! i)) is))) =
      sum_list (map used (filter (\<lambda>i. \<not> ctx_dispatched (ctxs ! i)) is))" for "is"
    by (induction "is") (auto simp: map_filter_simps forecast_power_def ctx_dispatched_def used_def Let_def split: participation.splits)
  then show "sum_list (map (\<lambda>(_, f). qf_used_kw f) (forecast_by_asset ctxs (Some sol) t)) =
      sum_list (map used (filter (\<lambda>i. \<not> ctx_dispatched (ctxs ! i)) [0..<length ctxs]))"
    by (simp add: forecast_by_asset_def enumerate_upt)
  have "map fst (List.map_filter (forecast_power (Some sol) t) (enumerate k ctxs)) = map ctx_asset_id (filter (\<lambda>c. \<not> ctx_dispatched c) ctxs)" for k
    by (induction ctxs arbitrary: k) (auto simp: map_filter_simps forecast_power_def ctx_dispatched_def Let_def split: participation.splits)
  then show "map fst (forecast_by_asset ctxs (Some sol) t) = map ctx_asset_id (filter (\<lambda>c. \<not> ctx_dispatched c) ctxs)"
    by (simp add: forecast_by_asset_def)
qed

text \<open>Who is allocated what: every asset of the order whose power is above the reporting threshold.\<close>

lemma claim_powers:
  "map (\<lambda>a. (qa_asset_id a, qa_power_kw a)) (claim_surplus sol ctxs inputs t is r) =
    map (\<lambda>i. (as_asset_id (so_assets sol ! i), as_net_power_kw (so_assets sol ! i) ! t))
      (filter (\<lambda>i. 1 / 100 < \<bar>as_net_power_kw (so_assets sol ! i) ! t\<bar>) is)"
  by (induction "is" arbitrary: r) (auto simp: allocation_def Let_def)

lemma small_powers_dropped:
  "\<bar>sum_list (map f xs) - sum_list (map f (filter (\<lambda>x. 1 / 100 < \<bar>f x\<bar>) xs))\<bar> \<le> 1 / 100 * of_nat (length xs)" for f :: "'a \<Rightarrow> f64"
proof (induction xs)
  case (Cons x xs)
  define kept where "kept = (\<lambda>xs. sum_list (map f (filter (\<lambda>x. 1 / 100 < \<bar>f x\<bar>) xs)))"
  have "\<bar>f x + (sum_list (map f xs) - kept xs)\<bar> \<le> \<bar>f x\<bar> + \<bar>sum_list (map f xs) - kept xs\<bar>" by (rule abs_triangle_ineq)
  with Cons show ?case unfolding kept_def [symmetric] by (cases "1 / 100 < \<bar>f x\<bar>") (simp_all add: kept_def algebra_simps)
qed simp

lemma sum_list_sort_key: "sum_list (map f (filter P (sort_key k xs))) = sum_list (map f (filter P xs))" for f :: "'a \<Rightarrow> f64"
proof -
  have "mset (filter P (sort_key k xs)) = mset (filter P xs)" by (simp only: mset_filter mset_sort)
  then have "sum_mset (mset (map f (filter P (sort_key k xs)))) = sum_mset (mset (map f (filter P xs)))" by (simp only: mset_map)
  then show ?thesis by (simp only: sum_mset_sum_list)
qed

lemma planned_slot_at:
  assumes "length marginal = mi_n inputs" "t < mi_n inputs"
  shows "pk_slots (translate_to_plan w fresh sol inputs ctxs weights p now trigger objective c_star friction marginal report) ! t =
    planned_slot sol ctxs inputs now t (marginal ! t)"
  using assms by (simp add: translate_to_plan_def Let_def)

lemma site_assets_aligned:
  assumes "site_solution inputs p1w ctxs declr sk \<sigma>" and "out = read_output w sk status \<sigma> objective inputs"
  shows "map as_asset_id (so_assets out) = map ctx_asset_id ctxs"
proof -
  obtain vars where sk: "skeleton_declare inputs p1w ctxs declr = Some (vars, sk)"
    using assms(1) by (auto simp: site_solution_def split: option.splits)
  from skeleton_identity [OF sk] have "length (mv_assets (sk_pool sk)) = length ctxs" by (auto simp: list_all2_conv_all_nth)
  with skeleton_identity [OF sk] assms(2) show ?thesis
    by (intro nth_equalityI) (cases w; auto simp: list_all2_conv_all_nth read_output_def Let_def)+
qed

lemma planned_slot_powers:
  fixes out :: solve_output and t :: nat
  defines "net \<equiv> \<lambda>i. as_net_power_kw (so_assets out ! i) ! t"
  assumes aligned: "map as_asset_id (so_assets out) = map ctx_asset_id ctxs" and ids: "distinct (map ctx_asset_id ctxs)"
  shows slot_planned: "sum_list (map snd (qs_planned_kw_by_asset (planned_slot out ctxs inputs now t m))) =
      sum_list (map net (filter (\<lambda>i. 1 / 100 < \<bar>net i\<bar>) (filter (\<lambda>i. ctx_dispatched (ctxs ! i)) [0..<length ctxs])))"
    and slot_used: "sum_list (map (\<lambda>(_, f). qf_used_kw f) (qs_forecast_by_asset (planned_slot out ctxs inputs now t m))) =
      sum_list (map net (filter (\<lambda>i. \<not> ctx_dispatched (ctxs ! i)) [0..<length ctxs]))"
proof -
  define runs where "runs = filter (\<lambda>i. ctx_dispatched (ctxs ! i)) [0..<length ctxs]"
  define claims where "claims = claim_surplus out ctxs inputs t (surplus_claim_order out ctxs)
    (qs_surplus_available_kw (slot_skeleton inputs (forecast_surplus_kw inputs) now t))"
  define kept where "kept = filter (\<lambda>i. 1 / 100 < \<bar>net i\<bar>) (surplus_claim_order out ctxs)"
  have len: "length (so_assets out) = length ctxs" using aligned by (metis length_map)
  have order: "surplus_claim_order out ctxs = sort_key (\<lambda>i. ctx_surplus_claim_rank (ctxs ! i)) runs"
    by (simp add: surplus_claim_order_def runs_def len)
  have named: "map (\<lambda>a. (qa_asset_id a, qa_power_kw a)) claims = map (\<lambda>i. (as_asset_id (so_assets out ! i), net i)) kept"
    unfolding claims_def claim_powers net_def kept_def ..
  have "inj_on ((!) (map ctx_asset_id ctxs)) {0..<length ctxs}" using ids by (intro inj_on_nth) simp_all
  moreover have "as_asset_id (so_assets out ! i) = map ctx_asset_id ctxs ! i" if "i < length ctxs" for i
    using that len by (simp add: aligned [symmetric])
  ultimately have inj: "inj_on (\<lambda>i. as_asset_id (so_assets out ! i)) {0..<length ctxs}" by (auto simp: inj_on_def)
  have kept: "distinct kept" "set kept \<subseteq> {0..<length ctxs}" by (auto simp: kept_def order runs_def)
  have "map fst (map (\<lambda>a. (qa_asset_id a, qa_power_kw a)) claims) = map (\<lambda>i. as_asset_id (so_assets out ! i)) kept"
    unfolding named by simp
  then have "distinct (map fst (map (\<lambda>a. (qa_asset_id a, qa_power_kw a)) claims))"
    using kept inj_on_subset [OF inj kept(2)] by (simp only: distinct_map)
  then have "sum_list (map snd (qs_planned_kw_by_asset (planned_slot out ctxs inputs now t m))) = sum_list (map net kept)"
    by (simp add: planned_slot_def Let_def claims_def [symmetric] hm_collect_distinct named del: map_map) (simp add: o_def)
  then show "sum_list (map snd (qs_planned_kw_by_asset (planned_slot out ctxs inputs now t m))) =
      sum_list (map net (filter (\<lambda>i. 1 / 100 < \<bar>net i\<bar>) (filter (\<lambda>i. ctx_dispatched (ctxs ! i)) [0..<length ctxs])))"
    unfolding kept_def order runs_def by (simp only: sum_list_sort_key)
  have "distinct (map fst (forecast_by_asset ctxs (Some out) t))"
    using ids by (auto simp: forecast_names distinct_map intro: inj_on_subset)
  then show "sum_list (map (\<lambda>(_, f). qf_used_kw f) (qs_forecast_by_asset (planned_slot out ctxs inputs now t m))) =
      sum_list (map net (filter (\<lambda>i. \<not> ctx_dispatched (ctxs ! i)) [0..<length ctxs]))"
    by (simp add: planned_slot_def Let_def hm_collect_distinct forecast_used net_def)
qed

text \<open>
  C3. The plan as it is published closes the books of the solve: in every slot the import less the export is the baseline
  override, the forecast power used and the planned power of the dispatched assets, up to the hundredth of a kilowatt
  per dispatched asset below which an asset's power is not reported.
\<close>

theorem plan_books_balance:
  assumes sol: "site_solution inputs p1w ctxs declr sk \<sigma>" and out: "out = read_output w sk status \<sigma> objective inputs"
    and ids: "distinct (map ctx_asset_id ctxs)" and slot: "length marginal = mi_n inputs" "t < mi_n inputs"
    and plan: "plan = translate_to_plan pw fresh out inputs ctxs weights p now trigger objv c_star friction marginal report"
    and s_def: "s = pk_slots plan ! t"
  shows "\<bar>qs_net_import_kw s - qs_net_export_kw s - (mi_load_adjust_kw inputs ! t +
      sum_list (map (\<lambda>(_, f). qf_used_kw f) (qs_forecast_by_asset s)) + sum_list (map snd (qs_planned_kw_by_asset s)))\<bar>
    \<le> 1 / 100 * of_nat (length (pk_planned_asset_ids plan))"
proof -
  define net where "net = (\<lambda>i. as_net_power_kw (so_assets out ! i) ! t)"
  define runs where "runs = filter (\<lambda>i. ctx_dispatched (ctxs ! i)) [0..<length ctxs]"
  have aligned: "map as_asset_id (so_assets out) = map ctx_asset_id ctxs" by (rule site_assets_aligned [OF sol out])
  then have len: "length (so_assets out) = length ctxs" by (metis length_map)
  have s: "s = planned_slot out ctxs inputs now t (marginal ! t)" by (simp add: s_def plan planned_slot_at [OF slot])
  note powers = planned_slot_powers [OF aligned ids, where inputs = inputs and now = now and t = t and m = "marginal ! t",
      folded s runs_def, unfolded net_def [THEN fun_cong, symmetric]]
  have "map (\<lambda>a. as_net_power_kw a ! t) (so_assets out) = map net [0..<length ctxs]"
    by (rule nth_equalityI) (simp_all add: net_def len)
  then have "qs_net_import_kw s - qs_net_export_kw s = mi_load_adjust_kw inputs ! t + sum_list (map net [0..<length ctxs])"
    using site_books [OF sol slot(2) out] by (simp add: s planned_slot_def Let_def)
  moreover have "sum_list (map net [0..<length ctxs]) = sum_list (map net runs) +
      sum_list (map net (filter (\<lambda>i. \<not> ctx_dispatched (ctxs ! i)) [0..<length ctxs]))"
    unfolding runs_def by (rule sum_list_split)
  moreover have "length (pk_planned_asset_ids plan) = length runs"
    using arg_cong [OF filter_nths [of ctx_dispatched ctxs], of length]
    by (simp add: plan translate_to_plan_def planned_asset_ids_def Let_def runs_def)
  ultimately show ?thesis using small_powers_dropped [of net runs] unfolding powers by (simp add: abs_minus_commute)
qed

section \<open>Who gets the surplus\<close>

lemma claims_within:
  assumes "0 \<le> r" and "\<forall>i \<in> set is. ctx_allocation_basis (ctxs ! i) = LoadBasis \<longrightarrow> 0 \<le> as_net_power_kw (so_assets sol ! i) ! t"
  shows "sum_list (map qa_surplus_power_kw (claim_surplus sol ctxs inputs t is r)) \<le> r \<and>
    (\<forall>a \<in> set (claim_surplus sol ctxs inputs t is r). qa_power_kw a = qa_surplus_power_kw a + qa_grid_power_kw a \<and>
      0 \<le> qa_surplus_power_kw a \<and> qa_surplus_power_kw a \<le> max (qa_power_kw a) 0)"
  using assms
proof (induction "is" arbitrary: r)
  case (Cons i "is")
  obtain a left_kw where a: "allocation (so_assets sol ! i) (ctx_allocation_basis (ctxs ! i)) t inputs r = (a, left_kw)" by fastforce
  have "0 \<le> left_kw \<and> (case a of None \<Rightarrow> left_kw = r | Some x \<Rightarrow> left_kw = r - qa_surplus_power_kw x \<and>
      qa_power_kw x = qa_surplus_power_kw x + qa_grid_power_kw x \<and> 0 \<le> qa_surplus_power_kw x \<and>
      qa_surplus_power_kw x \<le> max (qa_power_kw x) 0)"
    using a Cons.prems by (cases "ctx_allocation_basis (ctxs ! i)") (auto simp: allocation_def Let_def split: if_splits)
  with Cons.IH [of left_kw] Cons.prems(2) a show ?case by (auto split: option.splits)
qed simp

text \<open>
  C4. The surplus a slot has is claimed at most once: whatever the solution, as long as no load is planned to feed in,
  the shares of surplus allotted to the assets add up to no more than the slot's surplus, no asset is allotted more than
  it draws, and what is left of its power is what it takes from the grid.
\<close>

theorem surplus_claimed_once:
  assumes loads: "\<forall>i < length ctxs. ctx_dispatched (ctxs ! i) \<longrightarrow> ctx_allocation_basis (ctxs ! i) = LoadBasis \<longrightarrow>
      0 \<le> as_net_power_kw (so_assets out ! i) ! t"
    and slot: "length marginal = mi_n inputs" "t < mi_n inputs"
    and s_def: "s = pk_slots (translate_to_plan pw fresh out inputs ctxs weights p now trigger objv c_star friction marginal report) ! t"
  shows "sum_list (map qa_surplus_power_kw (qs_allocations s)) \<le> qs_surplus_available_kw s \<and>
    (\<forall>a \<in> set (qs_allocations s). qa_power_kw a = qa_surplus_power_kw a + qa_grid_power_kw a \<and>
      0 \<le> qa_surplus_power_kw a \<and> qa_surplus_power_kw a \<le> max (qa_power_kw a) 0)"
proof -
  have "\<forall>i \<in> set (surplus_claim_order out ctxs). ctx_allocation_basis (ctxs ! i) = LoadBasis \<longrightarrow> 0 \<le> as_net_power_kw (so_assets out ! i) ! t"
    using loads by (simp add: surplus_claim_order_def)
  from claims_within [OF _ this, of "qs_surplus_available_kw (slot_skeleton inputs (forecast_surplus_kw inputs) now t)" inputs]
  show ?thesis by (simp add: s_def planned_slot_at [OF slot] planned_slot_def slot_skeleton_def Let_def) metis
qed

section \<open>A plan whatever happens\<close>

text \<open>The slots of a plan, one after the other from one instant to another.\<close>

fun tiles :: "instant \<Rightarrow> instant \<Rightarrow> plan_slot list \<Rightarrow> bool" where
  "tiles a b [] \<longleftrightarrow> a = b"
| "tiles a b (s # ss) \<longleftrightarrow> qs_start s = a \<and> a < qs_end s \<and> tiles (qs_end s) b ss"

lemma slots_tile:
  assumes "\<And>t. i \<le> t \<Longrightarrow> t < i + k \<Longrightarrow> qs_start (f t) = now + seconds (cum ! t) \<and> qs_end (f t) = now + seconds (cum ! (t + 1))"
    and "\<And>t. i \<le> t \<Longrightarrow> t < i + k \<Longrightarrow> cum ! t < cum ! (t + 1)"
  shows "tiles (now + seconds (cum ! i)) (now + seconds (cum ! (i + k))) (map f [i..<i + k])"
  using assms
proof (induction k arbitrary: i)
  case (Suc k)
  have "tiles (now + seconds (cum ! Suc i)) (now + seconds (cum ! (Suc i + k))) (map f [Suc i..<Suc i + k])"
    using Suc.prems by (intro Suc.IH) auto
  moreover have "[i..<i + Suc k] = i # [Suc i..<Suc i + k]" by (simp add: upt_rec)
  ultimately show ?case using Suc.prems [of i] by (simp add: seconds_def del: upt_Suc)
qed simp

lemma zones_end:
  assumes "cum \<noteq> []" and "last cum = e"
  shows "\<exists>cum' dt'. fold push_zone zones (e, cum, dt) = (e + sum_list (map (\<lambda>z. int (pz_step_s z) * int (pz_slots z)) zones), cum', dt') \<and>
    cum' \<noteq> [] \<and> last cum' = e + sum_list (map (\<lambda>z. int (pz_step_s z) * int (pz_slots z)) zones)"
  using assms
proof (induction zones arbitrary: e cum dt)
  case (Cons z zones)
  have "\<exists>cum' dt'. (push_slot (pz_step_s z) ^^ k) (e, cum, dt) = (e + int (pz_step_s z) * int k, cum', dt') \<and> cum' \<noteq> [] \<and>
      last cum' = e + int (pz_step_s z) * int k" for k
    by (induction k) (use Cons.prems in \<open>auto simp: push_slot_def algebra_simps\<close>)
  then obtain cum1 dt1 where z: "push_zone z (e, cum, dt) = (e + int (pz_step_s z) * int (pz_slots z), cum1, dt1)"
      "cum1 \<noteq> []" "last cum1 = e + int (pz_step_s z) * int (pz_slots z)" unfolding push_zone_def by blast
  from Cons.IH [OF z(2,3), of dt1] show ?case by (simp add: z(1) add.assoc)
qed simp

lemma grid_horizon:
  assumes zones: "\<forall>z \<in> set zones. 0 < pz_step_s z"
  defines "tg \<equiv> from_zones zones"
  shows "tg_cum_s tg ! tg_n tg = sum_list (map (\<lambda>z. int (pz_step_s z) * int (pz_slots z)) zones)" "tg_n tg = slot_count zones"
    "length (tg_cum_s tg) = Suc (tg_n tg)" "tg_cum_s tg ! 0 = 0" "\<And>t. t < tg_n tg \<Longrightarrow> tg_cum_s tg ! t < tg_cum_s tg ! (t + 1)"
proof -
  obtain cum dt where "fold push_zone zones (0, [0], []) = (0 + sum_list (map (\<lambda>z. int (pz_step_s z) * int (pz_slots z)) zones), cum, dt)"
      "cum \<noteq> []" "last cum = 0 + sum_list (map (\<lambda>z. int (pz_step_s z) * int (pz_slots z)) zones)"
    using zones_end [of "[0]" 0 zones "[]"] by auto
  then have last: "tg_cum_s tg = cum" "cum \<noteq> []" "last cum = sum_list (map (\<lambda>z. int (pz_step_s z) * int (pz_slots z)) zones)"
    by (simp_all add: tg_def from_zones_def)
  from from_zones_ok [OF zones] obtain e where ok: "grid_ok (slot_count zones) (e, tg_cum_s tg, tg_dt_h tg)" and n: "tg_n tg = slot_count zones"
    unfolding tg_def by blast
  show "tg_n tg = slot_count zones" "length (tg_cum_s tg) = Suc (tg_n tg)" using ok n by (simp_all add: grid_ok_def)
  with last show "tg_cum_s tg ! tg_n tg = sum_list (map (\<lambda>z. int (pz_step_s z) * int (pz_slots z)) zones)" by (simp add: last_conv_nth)
  show "tg_cum_s tg ! 0 = 0" using ok by (simp add: grid_ok_def) (metis hd_conv_nth)
  show "\<And>t. t < tg_n tg \<Longrightarrow> tg_cum_s tg ! t < tg_cum_s tg ! (t + 1)"
    using ok n by (auto simp: grid_ok_def sorted_wrt_iff_nth_less)
qed

lemma request_grid:
  assumes "request_inputs req = (inputs, ctxs)"
  shows "mi_n inputs = tg_n (from_zones (pm_plan_zones (sv_planner req)))" "mi_cum_s inputs = tg_cum_s (from_zones (pm_plan_zones (sv_planner req)))"
    "length (mi_c_imp_eur_kwh inputs) = mi_n inputs"
  using assms by (auto simp: request_inputs_def planner_inputs_def build_milp_inputs_def forecast_totals_def slot_tariffs_def
      apply_stale_rate_policy_def slot_bounds_of_def Let_def)

lemma pricing_length: "solve_marginal_costs duals inputs p1w ctxs win timeout_s = Some (Inr v) \<Longrightarrow> length v = mi_n inputs"
  by (cases "skeleton_declare inputs p1w ctxs (DeclarePinned win)")
    (auto simp: solve_marginal_costs_def power_balance_refs_def split: sum.splits)

text \<open>What a planning cycle's solve ends as.\<close>

lemma run_planner_cases:
  assumes req: "request_inputs req = (inputs, ctxs)"
  obtains (failed) e where "run_planner solver duals w reason_of ms fresh req = Some (fallback_plan fresh (sv_planner req) (sv_now req)
      (sv_trigger req) ctxs (Some inputs) (''MILP solver failed: '' @ reason_of e) (request_objective req))"
  | (solved) declr sk status \<sigma> objv c_star friction marginal report where
      "run_planner solver duals w reason_of ms fresh req = Some (translate_to_plan w fresh (read_output (fst w) sk status \<sigma> objv inputs)
        inputs ctxs (build_phase1_weights (sv_planner req) (request_objective req)) (sv_planner req) (sv_now req) (sv_trigger req)
        (request_objective req) c_star friction marginal (Some report))"
      "length marginal = mi_n inputs"
      "sound_solver solver \<longrightarrow> 0 \<le> pm_phase2_epsilon_eur (sv_planner req) \<longrightarrow>
        site_solution inputs (build_phase1_weights (sv_planner req) (request_objective req)) ctxs declr sk \<sigma>"
proof -
  define p where "p = sv_planner req"
  define p1w where "p1w = build_phase1_weights p (request_objective req)"
  note run = run_planner_def [of solver duals w reason_of ms fresh req, unfolded req Let_def prod.case, folded p_def, folded p1w_def]
  show ?thesis
  proof (cases rule: solve_phase1_cases [of solver "fst w" inputs p1w ctxs "of_nat (pm_solver_timeout_s p)"])
    case (failed e)
    then show ?thesis by (intro that(1) [of e]) (simp add: run solve_milp_two_phase_def p_def)
  next
    case (solved vars sk status \<sigma>)
    then obtain p1 where p1: "solve_phase1 solver (fst w) inputs p1w ctxs (of_nat (pm_solver_timeout_s p)) = Some (Inr p1)" by blast
    obtain declr vars sk status \<sigma> objv friction p2 where
      sk: "skeleton_declare inputs p1w ctxs declr = Some (vars, sk)" and
      win: "winning_solution solver (fst w) inputs p1w (pm_phase2_epsilon_eur p) ctxs (of_nat (pm_phase2_solver_timeout_s p)) p1 =
        Some (read_output (fst w) sk status \<sigma> objv inputs, friction, p2)" and
      sound: "sound_solver solver \<longrightarrow> 0 \<le> pm_phase2_epsilon_eur p \<longrightarrow> site_solution inputs p1w ctxs declr sk \<sigma>"
      using winning_cases [OF p1, where epsilon = "pm_phase2_epsilon_eur p" and ?phase2_timeout_s = "of_nat (pm_phase2_solver_timeout_s p)"]
      by metis
    obtain priced where priced: "solve_marginal_costs duals inputs p1w ctxs (read_output (fst w) sk status \<sigma> objv inputs)
        (of_nat (pm_solver_timeout_s p)) = Some priced" using pricing_answers [OF sk] by blast
    define marginal where "marginal = (case priced of Inr v \<Rightarrow> v | Inl e \<Rightarrow> mi_c_imp_eur_kwh inputs)"
    have "length marginal = mi_n inputs"
      using priced pricing_length request_grid(3) [OF req] by (cases priced) (auto simp: marginal_def)
    moreover obtain report where "solve_milp_two_phase solver duals (fst w) ms inputs p1w (pm_phase2_epsilon_eur p) ctxs
        (of_nat (pm_solver_timeout_s p)) (of_nat (pm_phase2_solver_timeout_s p)) =
        Some (Inr (read_output (fst w) sk status \<sigma> objv inputs, so_objective_eur p1, friction, marginal, report))"
      by (simp add: solve_milp_two_phase_def p1 win priced marginal_def)
    then have "run_planner solver duals w reason_of ms fresh req = Some (translate_to_plan w fresh (read_output (fst w) sk status \<sigma> objv inputs)
        inputs ctxs p1w p (sv_now req) (sv_trigger req) (request_objective req) (so_objective_eur p1) friction marginal (Some report))"
      unfolding run by simp
    ultimately show ?thesis using sound unfolding p_def p1w_def by (intro that(2))
  qed
qed

lemma run_planner_slots:
  assumes zones: "\<forall>z \<in> set (pm_plan_zones (sv_planner req)). 0 < pz_step_s z"
    and run: "run_planner solver duals w reason_of ms fresh req = Some plan"
  shows "length (pk_slots plan) = slot_count (pm_plan_zones (sv_planner req))"
proof -
  obtain inputs ctxs where req: "request_inputs req = (inputs, ctxs)" by fastforce
  have n: "mi_n inputs = slot_count (pm_plan_zones (sv_planner req))" using grid_horizon(2) [OF zones] request_grid(1) [OF req] by simp
  show ?thesis
  proof (cases rule: run_planner_cases [OF req, of solver duals w reason_of ms fresh, case_names failed solved])
    case (failed e)
    with run n show ?thesis by (auto simp: fallback_plan_def Let_def)
  next
    case (solved declr sk status \<sigma> objv c_star friction marginal report)
    with run n show ?thesis by (auto simp: translate_to_plan_def Let_def)
  qed
qed


lemma capacity_warned:
  assumes "t < mi_n inputs" "t < length marginal" "slot_violated sol t"
  shows "CapacityViolation \<in> set (map pw_kind (pk_warnings
    (translate_to_plan w fresh sol inputs ctxs weights p now trigger objv c_star friction marginal report)))"
proof -
  have "filter (slot_violated sol) [0..<min (mi_n inputs) (length marginal)] \<noteq> []" using assms by (auto simp: filter_empty_conv)
  then show ?thesis by (simp add: translate_to_plan_def capacity_warning_def Let_def)
qed

text \<open>
  C2. A plan of a sound solver that reports no capacity violation keeps its caps: in every slot neither direction exceeds
  the slot's cap by more than the hundredth of a kilowatt that counts as a violation, and only one of them flows.
\<close>

theorem quiet_plan_keeps_caps:
  assumes solver: "sound_solver solver" "0 \<le> pm_phase2_epsilon_eur (sv_planner req)"
    and run: "run_planner solver duals w reason_of ms fresh req = Some plan" and ok: "pk_solve_status plan \<noteq> StatusInfeasible"
    and quiet: "CapacityViolation \<notin> set (map pw_kind (pk_warnings plan))" and s: "s \<in> set (pk_slots plan)"
  shows "qs_net_import_kw s \<le> qs_import_cap_kw s + 1 / 100 \<and> qs_net_export_kw s \<le> qs_export_cap_kw s + 1 / 100 \<and>
    0 \<le> qs_net_import_kw s \<and> 0 \<le> qs_net_export_kw s \<and> (qs_net_import_kw s = 0 \<or> qs_net_export_kw s = 0)"
proof -
  obtain inputs ctxs where req: "request_inputs req = (inputs, ctxs)" by fastforce
  show ?thesis
  proof (cases rule: run_planner_cases [OF req, of solver duals w reason_of ms fresh, case_names failed solved])
    case (failed e)
    with run ok show ?thesis by (auto simp: fallback_plan_def Let_def)
  next
    case (solved declr sk status \<sigma> objv c_star friction marginal report)
    define out where "out = read_output (fst w) sk status \<sigma> objv inputs"
    from solved(3) solver have sol: "site_solution inputs (build_phase1_weights (sv_planner req) (request_objective req)) ctxs declr sk \<sigma>"
      by blast
    from solved(1) run s have "s \<in> set (map (\<lambda>t. planned_slot out ctxs inputs (sv_now req) t (marginal ! t)) [0..<mi_n inputs])"
      by (simp add: translate_to_plan_def out_def Let_def solved(2) del: set_map)
    then obtain t where t: "t < mi_n inputs" and s: "s = planned_slot out ctxs inputs (sv_now req) t (marginal ! t)" by auto
    have "\<not> slot_violated out t"
    proof
      assume "slot_violated out t"
      with t have "CapacityViolation \<in> set (map pw_kind (pk_warnings plan))"
        using solved(1,2) run unfolding out_def [symmetric] by (metis capacity_warned option.inject)
      with quiet show False by contradiction
    qed
    with site_books [OF sol t out_def] show ?thesis
      by (auto simp: s planned_slot_def slot_skeleton_def slot_violated_def Let_def)
  qed
qed

section \<open>The sample site, planned\<close>

definition sample_output :: solve_output where
  "sample_output = read_output (\<lambda>_ _. [], \<lambda>_. []) sample_skeleton SolvedOptimal sample_site_plan (\<lambda>\<sigma>. 0) sample_site"

definition sample_plan :: site_plan where
  "sample_plan = translate_to_plan ((\<lambda>_ _. [], \<lambda>_. []), \<lambda>_. []) 7 sample_output sample_site sample_ctxs sample_p1w sample_planner 0
     TriggerPeriodic MinCost 0 0 [0, 0] None"

lemma sample_ctxs_facts:
  "distinct (map ctx_asset_id sample_ctxs)" "length sample_ctxs = 4" "map ctx_dispatched sample_ctxs = [False, False, True, True]"
  by (simp_all add: sample_ctxs_def sample_pv_ctx_def sample_base_ctx_def sample_battery_ctx_def build_milp_context_def sample_ev_ctx_def
      ev_base_context_def ctx_dispatched_def forecast_participation_def)

lemma plan_books_balance_witness:
  "\<bar>qs_net_import_kw (pk_slots sample_plan ! 0) - qs_net_export_kw (pk_slots sample_plan ! 0) -
      (sum_list (map (\<lambda>(_, f). qf_used_kw f) (qs_forecast_by_asset (pk_slots sample_plan ! 0))) +
       sum_list (map snd (qs_planned_kw_by_asset (pk_slots sample_plan ! 0))))\<bar> \<le> 2 / 100"
proof -
  have n: "mi_n sample_site = 2" "mi_load_adjust_kw sample_site ! 0 = 0" by (simp_all add: sample_site_def)
  have "length (pk_planned_asset_ids sample_plan) = length (filter id (map ctx_dispatched sample_ctxs))"
    by (simp add: sample_plan_def translate_to_plan_def planned_asset_ids_def filter_map o_def Let_def)
  then have "length (pk_planned_asset_ids sample_plan) = 2" by (simp add: sample_ctxs_facts)
  with plan_books_balance [OF sample_site_solved sample_output_def sample_ctxs_facts(1) _ _ sample_plan_def refl, of 0] n
  show ?thesis by simp
qed

lemma surplus_claimed_once_witness:
  "sum_list (map qa_surplus_power_kw (qs_allocations (pk_slots sample_plan ! 0))) \<le> 2"
proof -
  have ev: "0 \<le> as_net_power_kw (so_assets sample_output ! 3) ! 0"
    by (simp add: sample_output_def read_output_def sample_skeleton_def sample_site_def ev_read_def ev_read_solution_def sample_ev_vars_def
      sample_site_plan_values Let_def)
  have n: "mi_n sample_site = 2" by (simp add: sample_site_def)
  have "qs_surplus_available_kw (pk_slots sample_plan ! 0) = 2"
    by (simp add: sample_plan_def planned_slot_at n planned_slot_def slot_skeleton_def Let_def)
      (simp add: forecast_surplus_kw_def sample_site_def)
  moreover have "\<forall>i < length sample_ctxs. ctx_dispatched (sample_ctxs ! i) \<longrightarrow> ctx_allocation_basis (sample_ctxs ! i) = LoadBasis \<longrightarrow>
      0 \<le> as_net_power_kw (so_assets sample_output ! i) ! 0"
    using sample_ctxs_facts(3) ev by (auto simp: sample_ctxs_def less_Suc_eq numeral_eq_Suc)
  ultimately show ?thesis
    using surplus_claimed_once [of sample_ctxs sample_output 0 "[0, 0]" sample_site, OF _ _ _ sample_plan_def [THEN arg_cong, of "\<lambda>p. pk_slots p ! 0"]] n
    by simp
qed

text \<open>A site with a base load only and no signal in force; the plan imports the load.\<close>

definition load_request :: solve_request where
  "load_request = \<lparr>sv_asset_contexts = [ForecastCtx sample_base_ctx],
     sv_grid = sample_signals\<lparr>gq_capacity_schedule := [], gq_alert_windows := []\<rparr>,
     sv_planner = sample_planner\<lparr>pm_c_bat_ev_coexist_eur_kwh := 0, pm_c_ctrl_imp_malus_eur_kwh := 0, pm_penalty_rules := []\<rparr>,
     sv_grid_max_import_kw = 10, sv_grid_max_export_kw = 10, sv_now = 0, sv_trigger = TriggerPeriodic, sv_baseline_override = None,
     sv_objective_override = None, sv_diurnal_import_eur_kwh = None, sv_diurnal_co2_g_kwh = None\<rparr>"

lemma load_request_grid:
  "\<forall>z \<in> set (pm_plan_zones (sv_planner load_request)). 0 < pz_step_s z" "slot_count (pm_plan_zones (sv_planner load_request)) = 2"
  by (simp_all add: load_request_def sample_planner_def slot_count_def)


definition load_plan :: assignment where
  "load_plan = (\<lambda>i. [1, 1, 0, 0, 1, 1, 0, 0, 0, 0, 1, 1] ! i)"

definition load_solver :: "unit lp_solver" where
  "load_solver problem = (if in_bounds (lq_vars problem) load_plan \<and> satisfies (lq_rows problem) load_plan
     then Inr (SolvedOptimal, load_plan) else Inl ())"

lemma load_solver_sound: "sound_solver load_solver"
  by (simp add: sound_solver_def load_solver_def)

lemma load_inputs:
  obtains inputs where "request_inputs load_request = (inputs, [ForecastCtx sample_base_ctx])"
    and "mi_n inputs = 2" "mi_load_adjust_kw inputs = [0, 0]" "mi_p_imp_max_phys_kw inputs = [10, 10]" "mi_p_exp_max_phys_kw inputs = [10, 10]"
    and "mi_p_imp_max_cont_kw inputs = [10, 10]" "mi_p_exp_max_cont_kw inputs = [10, 10]" "mi_penalty_rules inputs = []"
proof -
  obtain inputs ctxs where req: "request_inputs load_request = (inputs, ctxs)" by fastforce
  note g = request_grid [OF req]
  have grid: "from_zones (pm_plan_zones (sv_planner load_request)) = \<lparr>tg_n = 2, tg_cum_s = [0, 1800, 3600], tg_dt_h = [1 / 2, 1 / 2]\<rparr>"
    by (simp add: load_request_def sample_planner_def from_zones_def slot_count_def push_zone_def push_slot_def dt_h_from_s_def numeral_eq_Suc)
  have inputs: "inputs = build_milp_inputs (sv_grid load_request) (sv_planner load_request)
      \<lparr>sq_grid_max_import_kw = 10, sq_grid_max_export_kw = 10, sq_baseline_override = None\<rparr> no_refs 0 [ForecastCtx sample_base_ctx]"
    and ctxs: "ctxs = [ForecastCtx sample_base_ctx]"
    using req by (auto simp: request_inputs_def planner_inputs_def load_request_def no_refs_def Let_def)
  have cap: "slot_cap (gq_capacity_schedule (sv_grid load_request)) d b e phys = phys" for d b e phys
    by (simp add: slot_cap_def tightest_capacity_limit_def contracted_allowance_kw_def tightest_over_def load_request_def)
  then have import: "import_cap (sv_grid load_request) p 10 x = 10" for p x
    by (simp add: import_cap_def simple_level_def simple_cap_def split: prod.split) (simp add: load_request_def sample_signals_def)
  have n: "mi_n inputs = 2" by (simp add: g grid)
  show thesis
  proof (rule that [OF req [unfolded ctxs] n])
    show "mi_load_adjust_kw inputs = [0, 0]"
      by (simp add: inputs build_milp_inputs_def grid apply_baseline_override_def forecast_totals_def numeral_2_eq_2 Let_def)
    show "mi_p_imp_max_phys_kw inputs = [10, 10]" "mi_p_exp_max_phys_kw inputs = [10, 10]" "mi_p_imp_max_cont_kw inputs = [10, 10]"
      "mi_p_exp_max_cont_kw inputs = [10, 10]"
      by (simp_all add: inputs build_milp_inputs_def grid forecast_totals_def slot_limits_def slot_bounds_of_def role_total_def import cap
        numeral_2_eq_2 Let_def)
    show "mi_penalty_rules inputs = []"
      by (simp add: inputs build_milp_inputs_def forecast_totals_def load_request_def sample_planner_def Let_def)
  qed
qed

lemma load_solved:
  assumes n: "mi_n inputs = 2" "mi_load_adjust_kw inputs = [0, 0]" "mi_p_imp_max_phys_kw inputs = [10, 10]" "mi_p_exp_max_phys_kw inputs = [10, 10]"
    "mi_p_imp_max_cont_kw inputs = [10, 10]" "mi_p_exp_max_cont_kw inputs = [10, 10]" "mi_penalty_rules inputs = []"
    and w: "w1_c_bat_ev_coexist_eur_kwh p1w = 0" "w1_c_ctrl_imp_malus_eur_kwh p1w = 0"
  obtains out where "solve_phase1 load_solver ww inputs p1w [ForecastCtx sample_base_ctx] timeout_s = Some (Inr out)"
    and "so_status out = SolvedOptimal" "so_s_imp_viol_kw out = [0, 0]" "so_s_exp_viol_kw out = [0, 0]" "so_s_penalty_kw out = []"
    and "map as_warnings (so_assets out) = [[]]"
proof -
  have two: "[0..<2] = [0, Suc 0]" by (simp add: upt_rec)
  define sk where "sk = \<lparr>sk_global = site_globals inputs, sk_pool = \<lparr>mv_grid = \<lparr>gv_p_imp = [0, 1], gv_p_exp = [2, 3], gv_u_grid = [4, 5],
      gv_s_imp_viol = [6, 7], gv_s_exp_viol = [8, 9]\<rparr>, mv_assets = [DeclaredForecast sample_base_ctx []]\<rparr>,
      sk_penalty_vars = [], sk_interactions = []\<rparr>"
  define vars where "vars = replicate 4 (at_least 0) @ replicate 2 binary @ replicate 4 (at_least 0)"
  have declared: "skeleton_declare inputs p1w [ForecastCtx sample_base_ctx] DeclarePhase1 = Some (vars, sk)"
    by (simp add: skeleton_declare_def grid_declare_def declare_assets_def forecast_declare_def sample_base_ctx_def forecast_participation_def
        build_interactions_def add_vars_eq two n w sk_def vars_def site_globals_def numeral_eq_Suc Let_def)
  have at: "load_plan 0 = 1" "load_plan (Suc 0) = 1" "load_plan 2 = 0" "load_plan 3 = 0" "load_plan 4 = 1" "load_plan 5 = 1"
      "load_plan 6 = 0" "load_plan 7 = 0" "load_plan 8 = 0" "load_plan 9 = 0"
    by (simp_all add: load_plan_def)
  have "in_bounds vars load_plan"
    by (simp add: in_bounds_def vars_def nth_append less_Suc_eq numeral_eq_Suc load_plan_def)
  moreover have "satisfies (model_rows sk inputs) load_plan"
    by (simp add: model_rows_def power_balance_def grid_slot_rows_def forecast_net_power_expr_def dispatched_net_power_expr_def net_power_sum_def
        sk_def n two forecast_net_def forecast_sign_def forecast_slot_rows_def nth_opt_def sample_base_ctx_def penalty_constraints_def at Let_def)
  ultimately have "solve_phase1 load_solver ww inputs p1w [ForecastCtx sample_base_ctx] timeout_s =
      Some (Inr (read_output ww sk SolvedOptimal load_plan (cost_expr sk inputs p1w) inputs))"
    by (simp add: solve_phase1_def declared load_solver_def Let_def)
  then show thesis
    by (rule that) (simp_all add: read_output_def n two sk_def at read_penalty_solution_def forecast_read_def Let_def)
qed

lemma quiet_plan_keeps_caps_witness:
  "\<exists>plan. run_planner load_solver (\<lambda>_. Inl ()) ((\<lambda>_ _. [], \<lambda>_. []), \<lambda>_. []) (\<lambda>_. []) (5, 0) 7 load_request = Some plan \<and>
     qs_net_import_kw (pk_slots plan ! 1) \<le> qs_import_cap_kw (pk_slots plan ! 1) + 1 / 100"
proof -
  let ?w = "((\<lambda>_ _. [], \<lambda>_. []), \<lambda>_. []) :: plan_writers"
  let ?run = "run_planner load_solver (\<lambda>_. Inl ()) ?w (\<lambda>_. []) (5, 0) 7 load_request"
  obtain inputs where req: "request_inputs load_request = (inputs, [ForecastCtx sample_base_ctx])"
    and n: "mi_n inputs = 2" "mi_load_adjust_kw inputs = [0, 0]" "mi_p_imp_max_phys_kw inputs = [10, 10]" "mi_p_exp_max_phys_kw inputs = [10, 10]"
      "mi_p_imp_max_cont_kw inputs = [10, 10]" "mi_p_exp_max_cont_kw inputs = [10, 10]" "mi_penalty_rules inputs = []"
    by (rule load_inputs)
  define p1w where "p1w = build_phase1_weights (sv_planner load_request) (request_objective load_request)"
  have w: "w1_c_bat_ev_coexist_eur_kwh p1w = 0" "w1_c_ctrl_imp_malus_eur_kwh p1w = 0"
    by (simp_all add: p1w_def request_objective_def hm_or_def load_request_def sample_planner_def phase1_weights_of_def)
  let ?p = "sv_planner load_request"
  obtain out where p1: "solve_phase1 load_solver (fst ?w) inputs p1w [ForecastCtx sample_base_ctx] (of_nat (pm_solver_timeout_s ?p)) = Some (Inr out)"
    and out: "so_status out = SolvedOptimal" "so_s_imp_viol_kw out = [0, 0]" "so_s_exp_viol_kw out = [0, 0]" "so_s_penalty_kw out = []"
      "map as_warnings (so_assets out) = [[]]"
    by (rule load_solved [OF n w])
  have eps: "pm_phase2_epsilon_eur ?p = 0" by (simp add: load_request_def sample_planner_def)
  from two_phase_result [OF p1, of "\<lambda>_. Inl ()" "(5, 0)" 0 "of_nat (pm_phase2_solver_timeout_s ?p)"]
  obtain marginal report where solved: "solve_milp_two_phase load_solver (\<lambda>_. Inl ()) (fst ?w) (5, 0) inputs p1w 0 [ForecastCtx sample_base_ctx]
      (of_nat (pm_solver_timeout_s ?p)) (of_nat (pm_phase2_solver_timeout_s ?p)) = Some (Inr (out, so_objective_eur out, 0, marginal, report))"
    by (auto split: if_splits)
  define plan where "plan = translate_to_plan ?w 7 out inputs [ForecastCtx sample_base_ctx] p1w ?p 0 TriggerPeriodic
    (request_objective load_request) (so_objective_eur out) 0 marginal (Some report)"
  have run: "?run = Some plan"
    unfolding run_planner_def req Let_def prod.case p1w_def [symmetric] eps solved
    by (simp add: plan_def load_request_def)
  have calm: "\<not> slot_violated out t" if "t < 2" for t using that out by (auto simp: slot_violated_def less_2_cases_iff)
  have quiet: "CapacityViolation \<notin> set (map pw_kind (pk_warnings plan))"
    using out(5) calm by (auto simp: plan_def translate_to_plan_def n rate_warnings_def map_filter_def peak_warnings_def out(4)
        capacity_warning_def filter_empty_conv Let_def)
  have "pk_solve_status plan \<noteq> StatusInfeasible" by (simp add: plan_def translate_to_plan_def out(1) Let_def)
  moreover have "pk_slots plan ! 1 \<in> set (pk_slots plan)"
    using run_planner_slots [OF load_request_grid(1) run] load_request_grid(2) by simp
  ultimately show ?thesis
    using run quiet_plan_keeps_caps [OF load_solver_sound _ run _ quiet, of "pk_slots plan ! 1"] eps by simp
qed

end
