(* ===== verification/Planning_Cycle.thy ===== *)
theory Planning_Cycle
  imports Plan_Result Event_Timing
begin

text \<open>
  When a plan is made and whether it is adopted: the replan clock of \<open>VEN/src/entities/planner_params.rs\<close>, the cycle
  inputs, the heater anchors and the acceptance gate of \<open>VEN/src/services/planning/mod.rs\<close>, the adoption of
  \<open>services/planning/service.rs\<close>, the residual tracker of \<open>state/arbiter.rs\<close>, \<open>entities/arbiter_residual.rs\<close> and
  \<open>tasks/sim_tick/arbiter_glue.rs\<close>, and the loop of \<open>tasks/planning/\<close>. A solver's thread that panics is \<open>None\<close>; the
  asset contexts of a cycle are an argument. A \<open>u64\<close> of seconds is below \<open>2 ^ 63\<close>, so the casts are exact.
\<close>

section \<open>The replan clock\<close>

definition timestamp_s :: "instant \<Rightarrow> int" where
  "timestamp_s t = t div seconds 1"

definition align_to_step :: "instant \<Rightarrow> nat \<Rightarrow> instant" where
  "align_to_step raw step_s = seconds (timestamp_s raw - timestamp_s raw mod int step_s)"

text \<open>\<open>DateTime::from_timestamp\<close> answers within the range of instants only, a parameter.\<close>

definition next_replan_at :: "(instant \<Rightarrow> bool) \<Rightarrow> instant \<Rightarrow> nat \<Rightarrow> nat \<Rightarrow> instant" where
  "next_replan_at in_range now replan_interval_s phase_s =
     (let interval = int (max replan_interval_s 1);
          offset = int phase_s mod interval;
          k = (timestamp_s now - offset) div interval + 1;
          due = seconds (k * interval + offset)
      in if in_range due then due else now)"

definition replan_phase_offset_s :: "string \<Rightarrow> nat \<Rightarrow> nat" where
  "replan_phase_offset_s ven_name replan_interval_s = unat (fold fnv_byte ven_name fnv_offset) mod max replan_interval_s 1"

definition rate_change_delay_s :: "nat \<Rightarrow> f64 \<Rightarrow> nat \<Rightarrow> f64 \<Rightarrow> nat" where
  "rate_change_delay_s base_s jitter_pct replan_interval_s draw =
     (if base_s = 0 then 0
      else let base = min base_s (max (replan_interval_s div 2) 1);
               spread = max jitter_pct 0 / 100;
               factor = 1 + (2 * clamp_range 0 1 draw - 1) * spread
           in nat (round (of_nat base * max factor 0)))"

definition hold_rate_change :: "planner_params \<Rightarrow> plan_trigger \<Rightarrow> f64 \<Rightarrow> nat" where
  "hold_rate_change p trigger draw =
     (if trigger \<noteq> TriggerRateChange then 0
      else rate_change_delay_s (pm_rate_change_trigger_delay_s p) (pm_rate_change_trigger_jitter_pct p) (pm_replan_interval_s p) draw)"

text \<open>
  The wait at the end of a turn. \<open>signals\<close> are the signals sent on the watch channel, in order of their instants, and
  \<open>seen\<close> the instant up to which the loop has taken them: the channel keeps the last one only. \<open>timer_first\<close> is how the
  \<open>select!\<close> decides when the timer and a signal are ready together.
\<close>

definition next_wake ::
  "(instant \<times> plan_trigger_signal) list \<Rightarrow> bool \<Rightarrow> instant \<Rightarrow> nat \<Rightarrow> instant \<Rightarrow> instant \<times> plan_trigger_signal \<times> instant" where
  "next_wake signals timer_first now wait_s seen =
     (let fire = now + seconds (int wait_s);
          unseen = filter (\<lambda>(t, s). seen < t \<and> t \<le> now) signals;
          coming = filter (\<lambda>(t, s). now < t \<and> (t < fire \<or> t = fire \<and> \<not> timer_first)) signals
      in if unseen \<noteq> [] \<and> \<not> (wait_s = 0 \<and> timer_first) then (now, snd (last unseen), now)
         else case coming of [] \<Rightarrow> (fire, \<lparr>pt_trigger = TriggerPeriodic, pt_event_ids = []\<rparr>, seen) 
           | (t, s) # _ \<Rightarrow> (t, snd (last (filter (\<lambda>(u, r). u = t) coming)), t))"

text \<open>A turn of the loop: woken at an instant by a signal it holds, runs the cycle, which takes \<open>solve\<close>, and waits.\<close>

definition planning_turn ::
  "(instant \<Rightarrow> bool) \<Rightarrow> planner_params \<Rightarrow> nat \<Rightarrow> (instant \<times> plan_trigger_signal) list \<Rightarrow> bool \<Rightarrow> f64 \<Rightarrow> span
   \<Rightarrow> instant \<times> plan_trigger_signal \<times> instant \<Rightarrow> instant \<times> instant \<times> (instant \<times> plan_trigger_signal \<times> instant)" where
  "planning_turn in_range p phase_s signals timer_first draw solve = (\<lambda>(woken, signal, seen).
     let wall_now = woken + seconds (int (hold_rate_change p (pt_trigger signal) draw));
         done_at = wall_now + solve;
         due = next_replan_at in_range done_at (pm_replan_interval_s p) phase_s;
         wait_s = nat (max (num_seconds (due - done_at)) 0)
     in (wall_now, done_at, next_wake signals timer_first done_at wait_s seen))"

section \<open>The inputs of a cycle\<close>

text \<open>The parameters of an asset that the cycle reads.\<close>

datatype asset_param =
    HeaterParam string "f64 option" f64 nat | BatteryParam string "f64 option" f64 | EvParam string | PvParam string | BaseLoadParam string

fun param_id :: "asset_param \<Rightarrow> string" where
  "param_id (HeaterParam i c kw stages) = i"
| "param_id (BatteryParam i c eff) = i"
| "param_id (EvParam i) = i"
| "param_id (PvParam i) = i"
| "param_id (BaseLoadParam i) = i"

fun terminal_value_eur_kwh :: "asset_param \<Rightarrow> f64 \<Rightarrow> f64 \<Rightarrow> f64" where
  "terminal_value_eur_kwh (HeaterParam i c kw stages) avg malus = hm_or (avg + malus) c"
| "terminal_value_eur_kwh (BatteryParam i c eff) avg malus = hm_or (avg * eff) c"
| "terminal_value_eur_kwh p avg malus = 0"

definition heater_kw_eps :: f64 where "heater_kw_eps = 1 / 10"

definition heater_kw :: "plan_slot \<Rightarrow> string \<Rightarrow> f64" where
  "heater_kw slot heater_id = hm_or 0 (hm_get (qs_planned_kw_by_asset slot) heater_id)"

definition slots_ahead :: "site_plan \<Rightarrow> instant \<Rightarrow> plan_slot list" where
  "slots_ahead plan now = filter (\<lambda>s. now < qs_end s) (pk_slots plan)"

definition heater_block_end :: "site_plan \<Rightarrow> string \<Rightarrow> instant \<Rightarrow> instant option" where
  "heater_block_end plan heater_id now =
     (case slots_ahead plan now of [] \<Rightarrow> None
      | s0 # ss \<Rightarrow>
          let kw0 = heater_kw s0 heater_id in
          if kw0 < heater_kw_eps then None
          else (case takeWhile (\<lambda>s. \<bar>heater_kw s heater_id - kw0\<bar> < heater_kw_eps) (s0 # ss) of
                  [] \<Rightarrow> None | block \<Rightarrow> Some (qs_end (last block))))"

definition heater_block_ends :: "site_plan \<Rightarrow> instant \<Rightarrow> string list \<Rightarrow> instant hmap" where
  "heater_block_ends plan now heater_ids =
     hm_collect (List.map_filter (\<lambda>i. map_option (Pair i) (heater_block_end plan i now)) heater_ids)"

definition heater_anchor :: "site_plan \<Rightarrow> string \<Rightarrow> instant \<Rightarrow> instant \<Rightarrow> nat \<Rightarrow> f64 option list" where
  "heater_anchor plan heater_id until now n_slots =
     (let pinned = takeWhile (\<lambda>s. qs_start s < until) (take n_slots (slots_ahead plan now))
      in map (\<lambda>s. Some (heater_kw s heater_id)) pinned @ replicate (n_slots - length pinned) None)"

definition build_heater_anchor :: "site_plan option \<Rightarrow> instant hmap \<Rightarrow> instant \<Rightarrow> nat \<Rightarrow> f64 option list hmap" where
  "build_heater_anchor plan anchor_until now n_slots =
     (case plan of None \<Rightarrow> []
      | Some plan \<Rightarrow> map (\<lambda>(i, until). (i, heater_anchor plan i until now n_slots)) anchor_until)"

record plan_cycle_inputs =
  ci_tariff_ts :: tariff_time_series
  ci_n_slots :: nat
  ci_cum_s :: "int list"
  ci_c_terminal_eur_kwh_by_asset :: "f64 hmap"
  ci_heater_anchor :: "f64 option list hmap"

definition build_plan_cycle_inputs ::
  "tariff_snapshot list \<Rightarrow> planner_params \<Rightarrow> asset_param list \<Rightarrow> site_plan option \<Rightarrow> instant hmap \<Rightarrow> instant \<Rightarrow> plan_cycle_inputs" where
  "build_plan_cycle_inputs rates p params current anchor_until now =
     (let tariffs = from_snapshots rates; tg = from_zones (pm_plan_zones p); n = tg_n tg;
          total = per_slot n (\<lambda>t. hm_or (1 / 4) (interpolate_at (tts_import tariffs) (now + seconds (tg_cum_s tg ! t))));
          avg = (if 0 < n then total / of_nat n else 1 / 4)
      in \<lparr>ci_tariff_ts = tariffs, ci_n_slots = n, ci_cum_s = tg_cum_s tg,
          ci_c_terminal_eur_kwh_by_asset =
            hm_collect (map (\<lambda>a. (param_id a, terminal_value_eur_kwh a avg (pm_c_ctrl_imp_malus_eur_kwh p))) params),
          ci_heater_anchor = build_heater_anchor current anchor_until now n\<rparr>)"

text \<open>The fields read of what the history store answers; a query that fails or a task that panics is \<open>None\<close>.\<close>

record grid_sample =
  gs_ts :: instant
  gs_import_tariff_eur_kwh :: "f64 option"
  gs_co2_g_kwh :: "f64 option"

definition reference_series :: "(grid_sample \<Rightarrow> f64 option) \<Rightarrow> grid_sample list \<Rightarrow> time_series option" where
  "reference_series f rows =
     (let samples = List.map_filter (\<lambda>r. map_option (Pair (gs_ts r)) (f r)) rows
      in if samples = [] then None else Some \<lparr>ts_samples = samples, ts_mode = Step\<rparr>)"

definition diurnal_reference ::
  "(instant \<Rightarrow> instant \<Rightarrow> grid_sample list option) option \<Rightarrow> instant \<Rightarrow> time_series option \<times> time_series option" where
  "diurnal_reference history now =
     (case Option.bind history (\<lambda>query. query (now - seconds (3600 * (24 * 7 + 4))) now) of
        None \<Rightarrow> (None, None)
      | Some rows \<Rightarrow> (reference_series gs_import_tariff_eur_kwh rows, reference_series gs_co2_g_kwh rows))"

section \<open>The acceptance gate\<close>

definition dispatches_from_plan :: "planner_objective \<Rightarrow> bool" where
  "dispatches_from_plan objv \<longleftrightarrow> objv \<noteq> OpportunisticObjective"

definition plan_solved :: "solve_status \<Rightarrow> bool" where
  "plan_solved s \<longleftrightarrow> s \<noteq> StatusInfeasible"

definition heater_stage_sizes_kw :: "asset_param list \<Rightarrow> f64 hmap" where
  "heater_stage_sizes_kw params =
     hm_collect (List.map_filter (\<lambda>p. case p of HeaterParam i c kw stages \<Rightarrow> Some (i, kw / of_nat (max stages 1)) | _ \<Rightarrow> None) params)"

definition reference_step_s :: "site_plan \<Rightarrow> f64" where
  "reference_step_s plan = (case ph_zones (pk_horizon plan) of [] \<Rightarrow> of_nat (ph_step_size_s (pk_horizon plan)) | z # zs \<Rightarrow> of_nat (pz_step_s z))"

text \<open>The relay operations from one slot's power to the next, each weighted by the slot's width.\<close>

definition switch_ops :: "f64 \<Rightarrow> f64 \<Rightarrow> f64 \<Rightarrow> f64" where
  "switch_ops stage_kw p kw =
     (let delta_kw = \<bar>p - kw\<bar> in
      if heater_kw_eps < delta_kw
      then (if 0 < stage_kw then max (of_int (round (delta_kw / stage_kw))) 1 else 1) else 0)"

definition count_one_heater_switches :: "site_plan \<Rightarrow> instant \<Rightarrow> string \<Rightarrow> f64 \<Rightarrow> f64" where
  "count_one_heater_switches plan now heater_id stage_kw =
     fst (fold (\<lambda>s (total, prev).
       let kw = heater_kw s heater_id
       in (case prev of None \<Rightarrow> total
           | Some p \<Rightarrow> total + switch_ops stage_kw p kw * of_int (num_seconds (qs_end s - qs_start s)) / reference_step_s plan, Some kw))
       (filter (\<lambda>s. now \<le> qs_start s) (pk_slots plan)) (0, None))"

definition count_heater_switches :: "site_plan \<Rightarrow> instant \<Rightarrow> f64 hmap \<Rightarrow> f64" where
  "count_heater_switches plan now stage_sizes_kw =
     sum_list (map (\<lambda>(i, stage_kw). count_one_heater_switches plan now i stage_kw) stage_sizes_kw)"

definition plan_expired :: "site_plan \<Rightarrow> instant \<Rightarrow> bool" where
  "plan_expired plan now \<longleftrightarrow> pk_slots plan \<noteq> [] \<and> list_all (\<lambda>s. qs_end s \<le> now) (pk_slots plan)"

definition plan_total :: "site_plan \<Rightarrow> f64" where
  "plan_total plan = pk_objective_eur plan + pk_friction_eur plan"

record gate_params =
  ga_threshold_eur :: f64
  ga_decay_s :: f64
  ga_switch_penalty_eur :: f64
  ga_stage_sizes_kw :: "f64 hmap"

definition switch_surcharge :: "gate_params \<Rightarrow> site_plan \<Rightarrow> site_plan \<Rightarrow> instant \<Rightarrow> f64" where
  "switch_surcharge g current new_plan now =
     (if 0 < ga_switch_penalty_eur g
      then max (count_heater_switches new_plan now (ga_stage_sizes_kw g) - count_heater_switches current now (ga_stage_sizes_kw g)) 0 *
        ga_switch_penalty_eur g else 0)"

definition worth_adopting :: "gate_params \<Rightarrow> site_plan \<Rightarrow> site_plan \<Rightarrow> instant \<Rightarrow> bool" where
  "worth_adopting g current new_plan now =
     (let elapsed_s = of_int (max (num_seconds (now - pk_created_at current)) 0);
          decay = (if 0 < ga_decay_s g then max (1 - elapsed_s / ga_decay_s g) 0 else 1);
          fully_decayed = (0 < ga_decay_s g \<and> ga_decay_s g \<le> elapsed_s);
          improvement = plan_total current - plan_total new_plan
      in fully_decayed \<or> ga_threshold_eur g * decay + switch_surcharge g current new_plan now < improvement)"

definition evaluate_acceptance_gate :: "gate_params \<Rightarrow> site_plan option \<Rightarrow> site_plan \<Rightarrow> plan_trigger \<Rightarrow> instant \<Rightarrow> bool" where
  "evaluate_acceptance_gate g current new_plan trigger now =
     (let new_dispatches = dispatches_from_plan (pk_objective new_plan);
          regime_changes = (case current of None \<Rightarrow> False | Some c \<Rightarrow> dispatches_from_plan (pk_objective c) \<noteq> new_dispatches);
          new_solved = plan_solved (pk_solve_status new_plan)
      in if regime_changes \<or> \<not> new_dispatches then True
         else case current of
           None \<Rightarrow> True
         | Some c \<Rightarrow>
             if plan_solved (pk_solve_status c) \<and> \<not> new_solved then False
             else if \<not> plan_solved (pk_solve_status c) \<and> new_solved then True
             else if trigger \<noteq> TriggerPeriodic \<or> ga_threshold_eur g = 0 \<and> ga_switch_penalty_eur g = 0 then True
             else if plan_expired c now then True
             else worth_adopting g c new_plan now)"

section \<open>Adoption\<close>

record asset_residual =
  ax_absorbed_kwh :: f64
  ax_capacity_kwh_at_last_plan :: f64

text \<open>The part of the state the cycle writes; the trace holds each cycle's instant, trigger, events and slots.\<close>

record planning_state =
  py_active_plan :: "site_plan option"
  py_anchor_until :: "instant hmap"
  py_residual :: "asset_residual hmap"
  py_last_residual_trigger_at :: "instant option"
  py_trace :: "(instant \<times> plan_trigger \<times> string list \<times> nat) list"

definition residual_capacities :: "sim_snapshot \<Rightarrow> f64 hmap" where
  "residual_capacities sim = map (\<lambda>(i, a). (i, max (hm_or 0 (as_available_charge_kwh a)) (hm_or 0 (as_available_discharge_kwh a))))
     (filter (\<lambda>(i, a). has_state_of_charge a) sim)"

definition reset_residual :: "f64 hmap \<Rightarrow> asset_residual hmap \<Rightarrow> asset_residual hmap" where
  "reset_residual new_capacities_kwh residual =
     fold (\<lambda>(i, kwh). hm_put i \<lparr>ax_absorbed_kwh = 0, ax_capacity_kwh_at_last_plan = kwh\<rparr>) new_capacities_kwh residual"

definition adopt_if_warranted ::
  "gate_params \<Rightarrow> site_plan \<Rightarrow> plan_trigger_signal \<Rightarrow> nat \<Rightarrow> sim_snapshot option \<Rightarrow> instant \<Rightarrow> planning_state
   \<Rightarrow> (bool \<times> site_plan) \<times> planning_state" where
  "adopt_if_warranted g plan0 signal solver_ms sim now st =
     (let plan = plan0\<lparr>pk_solver_ms := Some solver_ms\<rparr>;
          adopted = evaluate_acceptance_gate g (py_active_plan st) plan (pt_trigger signal) now;
          st1 = (if adopted
            then st\<lparr>py_active_plan := Some plan, py_anchor_until := heater_block_ends plan now (map fst (ga_stage_sizes_kw g)),
              py_residual := (case sim of None \<Rightarrow> py_residual st | Some s \<Rightarrow> reset_residual (residual_capacities s) (py_residual st))\<rparr>
            else st)
      in ((adopted, plan), st1\<lparr>py_trace := py_trace st1 @ [(now, pt_trigger signal, pt_event_ids signal, length (pk_slots plan))]\<rparr>))"

section \<open>One cycle\<close>

text \<open>The solve runs on its own thread; a panic there yields the plan without slots.\<close>

definition solve_plan :: "(solve_request \<Rightarrow> site_plan option) \<Rightarrow> string \<Rightarrow> uuid \<Rightarrow> solve_request \<Rightarrow> site_plan" where
  "solve_plan solver panic_text fresh req = (case solver req of Some plan \<Rightarrow> plan
     | None \<Rightarrow> fallback_plan fresh (sv_planner req) (sv_now req) (sv_trigger req) [] None
         (''planner task panicked: '' @ panic_text) (request_objective req))"

definition plan_for ::
  "planner_objective \<Rightarrow> (solve_request \<Rightarrow> site_plan option) \<Rightarrow> (solve_request \<Rightarrow> site_plan option) \<Rightarrow> string \<Rightarrow> uuid \<Rightarrow> solve_request \<Rightarrow> site_plan" where
  "plan_for objv solver forecaster panic_text fresh req =
     (if dispatches_from_plan objv then solve_plan solver panic_text fresh req
      else case forecaster req of Some plan \<Rightarrow> plan
        | None \<Rightarrow> fallback_plan fresh (sv_planner req) (sv_now req) (sv_trigger req) [] None
            (''opportunistic forecast panicked: '' @ panic_text) objv)"

record cycle_world =
  cw_rates :: "tariff_snapshot list"
  cw_bl_override :: "baseline_override option"
  cw_objective :: planner_objective
  cw_capacity_schedule :: "capacity_snapshot list"
  cw_alert_windows :: "alert_window list"
  cw_simple_windows :: "simple_window list"
  cw_asset_params :: "asset_param list"
  cw_grid_max_import_kw :: f64
  cw_grid_max_export_kw :: f64
  cw_history :: "(instant \<Rightarrow> instant \<Rightarrow> grid_sample list option) option"

definition assemble_solve_request ::
  "(plan_cycle_inputs \<Rightarrow> asset_milp_context list) \<Rightarrow> planner_params \<Rightarrow> cycle_world \<Rightarrow> plan_trigger \<Rightarrow> instant \<Rightarrow> planning_state \<Rightarrow> solve_request" where
  "assemble_solve_request contexts_of p cw trigger now st =
     (let inputs = build_plan_cycle_inputs (cw_rates cw) p (cw_asset_params cw) (py_active_plan st) (py_anchor_until st) now;
          (import, co2) = diurnal_reference (cw_history cw) now
      in \<lparr>sv_asset_contexts = contexts_of inputs,
          sv_grid = \<lparr>gq_tariffs = ci_tariff_ts inputs, gq_capacity_schedule = cw_capacity_schedule cw,
            gq_alert_windows = cw_alert_windows cw, gq_simple_windows = cw_simple_windows cw\<rparr>,
          sv_planner = p, sv_grid_max_import_kw = cw_grid_max_import_kw cw, sv_grid_max_export_kw = cw_grid_max_export_kw cw,
          sv_now = now, sv_trigger = trigger, sv_baseline_override = cw_bl_override cw, sv_objective_override = Some (cw_objective cw),
          sv_diurnal_import_eur_kwh = import, sv_diurnal_co2_g_kwh = co2\<rparr>)"

definition gate_of :: "planner_params \<Rightarrow> asset_param list \<Rightarrow> gate_params" where
  "gate_of p params = \<lparr>ga_threshold_eur = pm_plan_adoption_threshold_eur p, ga_decay_s = pm_plan_adoption_decay_s p,
     ga_switch_penalty_eur = pm_gate_switch_penalty_eur p, ga_stage_sizes_kw = heater_stage_sizes_kw params\<rparr>"

text \<open>The body of the loop: the anchor is dropped unless the cycle is a routine one, the plan is built from the aligned
  instant, dated with the true one and offered to the gate.\<close>

definition run_plan_cycle ::
  "(solve_request \<Rightarrow> site_plan option) \<Rightarrow> (solve_request \<Rightarrow> site_plan option) \<Rightarrow> string \<Rightarrow> uuid \<Rightarrow> nat
   \<Rightarrow> (plan_cycle_inputs \<Rightarrow> asset_milp_context list) \<Rightarrow> planner_params \<Rightarrow> cycle_world \<Rightarrow> plan_trigger_signal \<Rightarrow> sim_snapshot option
   \<Rightarrow> instant \<Rightarrow> planning_state \<Rightarrow> (bool \<times> site_plan) \<times> planning_state" where
  "run_plan_cycle solver forecaster panic_text fresh solver_ms contexts_of p cw signal sim wall_now st =
     (let now = align_to_step wall_now (pm_plan_step_s p);
          st1 = (if pt_trigger signal \<noteq> TriggerPeriodic then st\<lparr>py_anchor_until := []\<rparr> else st);
          req = assemble_solve_request contexts_of p cw (pt_trigger signal) now st1;
          plan = (plan_for (cw_objective cw) solver forecaster panic_text fresh req)\<lparr>pk_created_at := wall_now\<rparr>
      in adopt_if_warranted (gate_of p (cw_asset_params cw)) plan signal solver_ms sim wall_now st1)"

section \<open>Residual escalation\<close>

definition residual_threshold_fraction :: f64 where "residual_threshold_fraction = 2 / 10"
definition residual_cooldown_s :: int where "residual_cooldown_s = 900"

definition accumulate_residual :: "string \<times> f64 \<Rightarrow> asset_residual hmap \<Rightarrow> asset_residual hmap" where
  "accumulate_residual = (\<lambda>(i, kwh) residual.
     let r = hm_or \<lparr>ax_absorbed_kwh = 0, ax_capacity_kwh_at_last_plan = 0\<rparr> (hm_get residual i)
     in hm_put i (r\<lparr>ax_absorbed_kwh := ax_absorbed_kwh r + \<bar>kwh\<bar>\<rparr>) residual)"

definition breach_fraction :: "asset_residual \<Rightarrow> f64" where
  "breach_fraction r = (if ax_capacity_kwh_at_last_plan r \<le> 0 then 0 else ax_absorbed_kwh r / ax_capacity_kwh_at_last_plan r)"

text \<open>One tick's shares; the answer tells whether a replan is asked for.\<close>

definition apply_residual_escalation :: "f64 hmap \<Rightarrow> instant \<Rightarrow> planning_state \<Rightarrow> bool \<times> planning_state" where
  "apply_residual_escalation shares now st =
     (if shares = [] then (False, st)
      else let st1 = st\<lparr>py_residual := fold accumulate_residual shares (py_residual st)\<rparr>;
               breach = list_ex (\<lambda>(i, r). residual_threshold_fraction \<le> breach_fraction r) (py_residual st1);
               cooled = (case py_last_residual_trigger_at st1 of None \<Rightarrow> True | Some t \<Rightarrow> residual_cooldown_s \<le> num_seconds (now - t))
           in if breach \<and> cooled then (True, st1\<lparr>py_last_residual_trigger_at := Some now\<rparr>) else (False, st1))"

section \<open>On the grid\<close>

lemma num_seconds_superadd: "0 \<le> a \<Longrightarrow> 0 \<le> b \<Longrightarrow> num_seconds a + num_seconds b \<le> num_seconds (a + b)"
  by (simp add: num_seconds_def time_simps div_add1_eq [of a b])

lemma num_seconds_mono: "0 \<le> a \<Longrightarrow> a \<le> b \<Longrightarrow> num_seconds a \<le> num_seconds b"
  by (simp add: num_seconds_def time_simps zdiv_mono1)

lemma timestamp_less: "t < seconds g \<Longrightarrow> timestamp_s t < g"
proof (rule ccontr)
  assume t: "t < seconds g" and "\<not> timestamp_s t < g"
  then have "g * 1000000000 \<le> t div 1000000000 * 1000000000" by (simp add: timestamp_s_def seconds_def)
  also have "\<dots> \<le> t" by (simp add: minus_mod_eq_div_mult [symmetric])
  finally show False using t by (simp add: seconds_def)
qed

lemma timestamp_next: "t < seconds (timestamp_s t + 1)"
proof -
  have "t = t div 1000000000 * 1000000000 + t mod 1000000000" by simp
  moreover have "t mod 1000000000 < 1000000000" by simp
  ultimately show ?thesis unfolding timestamp_s_def seconds_def distrib_right mult_1 by linarith
qed

lemma next_replan_eq:
  assumes "in_range (next_replan_at (\<lambda>_. True) now interval phase)"
  shows "next_replan_at in_range now interval phase = next_replan_at (\<lambda>_. True) now interval phase"
  using assms by (simp add: next_replan_at_def Let_def)

lemma next_replan_grid:
  fixes now :: instant and phase interval :: nat
  defines "due \<equiv> timestamp_s (next_replan_at (\<lambda>_. True) now interval phase)" and "m \<equiv> int (max interval 1)"
  shows "next_replan_at (\<lambda>_. True) now interval phase = seconds due" "due mod m = int phase mod m"
    "timestamp_s now < due" "due \<le> timestamp_s now + m"
proof -
  define offset where "offset = int phase mod m"
  define k where "k = (timestamp_s now - offset) div m + 1"
  have m: "0 < m" by (simp add: m_def)
  have formula: "next_replan_at (\<lambda>_. True) now interval phase = seconds (k * m + offset)"
    by (simp add: next_replan_at_def Let_def m_def k_def offset_def)
  then have due: "due = k * m + offset" by (simp add: due_def timestamp_s_def seconds_def)
  show "next_replan_at (\<lambda>_. True) now interval phase = seconds due" by (simp add: formula due)
  show "due mod m = int phase mod m" by (simp add: due offset_def)
  define q where "q = (timestamp_s now - offset) div m * m"
  have "timestamp_s now - offset = q + (timestamp_s now - offset) mod m" by (simp add: q_def)
  moreover have "0 \<le> (timestamp_s now - offset) mod m" "(timestamp_s now - offset) mod m < m" using m by simp_all
  moreover have "due = q + m + offset" by (simp add: due k_def q_def distrib_right)
  ultimately show "timestamp_s now < due" "due \<le> timestamp_s now + m" by linarith+
qed



section \<open>Reactions\<close>

lemma hold_bound: "real (rate_change_delay_s base_s jitter_pct interval draw) \<le> real base_s * (1 + max jitter_pct 0 / 100) + 1 / 2"
proof (cases "base_s = 0")
  case False
  define b where "b = min base_s (max (interval div 2) 1)"
  define f where "f = max (1 + (2 * clamp_range 0 1 draw - 1) * (max jitter_pct 0 / 100)) 0"
  have "2 * clamp_range 0 1 draw - 1 \<le> (1 :: real)" by (simp add: clamp_range_def)
  then have "(2 * clamp_range 0 1 draw - 1) * (max jitter_pct 0 / 100) \<le> 1 * (max jitter_pct 0 / 100)" by (rule mult_right_mono) simp
  then have f: "0 \<le> f" "f \<le> 1 + max jitter_pct 0 / 100" by (simp_all add: f_def)
  have "real b * f \<le> real base_s * (1 + max jitter_pct 0 / 100)" using f by (intro mult_mono) (simp_all add: b_def)
  moreover have "0 \<le> round (real b * f)" using f(1) by (simp add: round_def)
  then have "real (nat (round (real b * f))) = of_int (round (real b * f))" by simp
  then have "real (nat (round (real b * f))) \<le> real b * f + 1 / 2" using of_int_round_le [of "real b * f"] by simp
  moreover have "rate_change_delay_s base_s jitter_pct interval draw = nat (round (real b * f))"
    using False by (simp add: rate_change_delay_s_def b_def f_def Let_def)
  ultimately show ?thesis by simp
qed (simp add: rate_change_delay_s_def)

lemma last_by_time:
  assumes "sorted (map fst xs)" "(t, s) \<in> set xs"
  shows "t \<le> fst (last xs)" "last xs \<in> set xs"
proof -
  have "xs \<noteq> []" using assms(2) by auto
  then show "last xs \<in> set xs" by simp
  obtain i where i: "i < length xs" "xs ! i = (t, s)" using assms(2) by (auto simp: in_set_conv_nth)
  have "map fst xs ! i \<le> map fst xs ! (length xs - 1)" using assms(1) i(1) by (intro sorted_nth_mono) simp_all
  then show "t \<le> fst (last xs)" using i \<open>xs \<noteq> []\<close> by (simp add: last_conv_nth)
qed

lemma wake_taken:
  assumes "next_wake signals timer_first now wait_s seen = (woken, signal, seen')" and signals: "sorted (map fst signals)" "(t, s) \<in> set signals" "seen < t"
    and "t < now + seconds (int wait_s)" "0 < wait_s" "seen \<le> now"
  shows "woken \<le> max t now \<and> seen' = woken \<and> (\<exists>u. (u, signal) \<in> set signals \<and> seen < u \<and> u \<le> woken \<and> (t \<le> woken \<longrightarrow> t \<le> u))"
proof -
  define unseen where "unseen = filter (\<lambda>(t, s). seen < t \<and> t \<le> now) signals"
  define coming where "coming = filter (\<lambda>(t, s). now < t \<and> (t < now + seconds (int wait_s) \<or> t = now + seconds (int wait_s) \<and> \<not> timer_first)) signals"
  have wake: "(woken, signal, seen') = (if unseen \<noteq> [] then (now, snd (last unseen), now)
      else case coming of [] \<Rightarrow> (now + seconds (int wait_s), \<lparr>pt_trigger = TriggerPeriodic, pt_event_ids = []\<rparr>, seen)
         | (t, s) # _ \<Rightarrow> (t, snd (last (filter (\<lambda>(u, r). u = t) coming)), t))"
    unfolding assms(1) [symmetric] next_wake_def Let_def unseen_def coming_def using assms(6) by simp
  show ?thesis
  proof (cases "unseen = []")
    case False
    then have "last unseen \<in> set unseen" by simp
    then have "last unseen \<in> set signals" "seen < fst (last unseen)" "fst (last unseen) \<le> now" by (auto simp: unseen_def)
    moreover have "sorted (map fst unseen)" using signals(1) by (simp add: unseen_def sorted_filter)
    then have "t \<le> fst (last unseen)" if "t \<le> now"
      using last_by_time(1) [of unseen t s] signals(2,3) that by (simp add: unseen_def)
    moreover obtain u r where "last unseen = (u, r)" by fastforce
    ultimately show ?thesis using wake False by (intro conjI exI [of _ u]) auto
  next
    case True
    then have t: "(t, s) \<in> set coming" using signals(2,3) assms(5) by (force simp: unseen_def coming_def filter_empty_conv)
    then obtain u r cs where c: "coming = (u, r) # cs" by (cases coming) auto
    define same where "same = filter (\<lambda>(v, r). v = u) coming"
    have "same \<noteq> []" by (simp add: same_def c)
    then have "last same \<in> set same" by (rule last_in_set)
    then have same: "fst (last same) = u" "last same \<in> set coming" by (auto simp: same_def)
    have "sorted (map fst coming)" using signals(1) by (simp add: coming_def sorted_filter)
    then have "u \<le> t" using t by (force simp: c)
    moreover have "(u, r) \<in> set coming" by (simp add: c)
    then have "seen < u" using assms(7) by (auto simp: coming_def)
    moreover have "last same \<in> set signals" using same(2) by (auto simp: coming_def)
    moreover obtain r' where "last same = (u, r')" using same(1) by (cases "last same") auto
    ultimately show ?thesis using wake True by (intro conjI exI [of _ u]) (auto simp: c same_def)
  qed
qed



text \<open>An alert sent a second into the hold of a rate change starts its cycle when the held one is done, not before.\<close>

lemma alert_waits_out_hold:
  assumes "pm_rate_change_trigger_delay_s p = 30" "pm_rate_change_trigger_jitter_pct p = 100" "pm_replan_interval_s p = 300"
  shows "planning_turn (\<lambda>_. True) p 0 [(seconds 1, \<lparr>pt_trigger = TriggerAlert, pt_event_ids = []\<rparr>)] False (9 / 10) (seconds 5)
    (0, \<lparr>pt_trigger = TriggerRateChange, pt_event_ids = []\<rparr>, 0) =
    (seconds 54, seconds 59, seconds 59, \<lparr>pt_trigger = TriggerAlert, pt_event_ids = []\<rparr>, seconds 59)"
proof -
  have "hold_rate_change p TriggerRateChange (9 / 10) = 54"
    using assms by (simp add: hold_rate_change_def rate_change_delay_s_def clamp_range_def Let_def)
  then show ?thesis by (simp add: planning_turn_def next_wake_def seconds_def Let_def)
qed

text \<open>A jitter above 100 percent lets the hold outlive the replan interval.\<close>

lemma hold_outlives_interval: "60 < rate_change_delay_s 30 900 60 (9 / 10)"
  by (simp add: rate_change_delay_s_def clamp_range_def)

section \<open>Anchors\<close>

lemma tiles_sorted: "tiles a b ss \<Longrightarrow> sorted_wrt (\<lambda>x y. qs_end x \<le> qs_start y) ss \<and> (\<forall>s \<in> set ss. a \<le> qs_start s \<and> qs_start s < qs_end s)"
  by (induction ss arbitrary: a) force+


definition heated_slot :: "nat \<Rightarrow> f64 \<Rightarrow> plan_slot" where
  "heated_slot k kw = \<lparr>qs_slot_index = k, qs_start = seconds (900 * int k), qs_end = seconds (900 * (int k + 1)),
     qs_import_tariff_eur_kwh = 1 / 4, qs_export_tariff_eur_kwh = 0, qs_co2_g_kwh = 0, qs_grid_effective_cost = 1 / 4,
     qs_marginal_cost_import_eur_per_kwh = 1 / 4, qs_marginal_cost_export_eur_per_kwh = 0, qs_rate_estimated = False,
     qs_import_cap_kw = 10, qs_export_cap_kw = 10, qs_baseline_kw = 0, qs_pv_forecast_kw = 0, qs_pv_used_kw = 0,
     qs_surplus_available_kw = 0, qs_allocations = [], qs_net_import_kw = kw, qs_net_export_kw = 0,
     qs_import_flexibility_kw = 0, qs_export_flexibility_kw = 0, qs_planned_kw_by_asset = [(''tank'', kw)],
     qs_planned_state_by_asset = [], qs_forecast_by_asset = []\<rparr>"

definition heated_plan :: site_plan where
  "heated_plan = (fallback_plan 7 sample_planner 0 TriggerPeriodic [] None [] MinCost)
     \<lparr>pk_slots := [heated_slot 0 2, heated_slot 1 2, heated_slot 2 0], pk_solve_status := StatusOptimal, pk_objective_eur := 3\<rparr>"


section \<open>Runs of cycles\<close>

lemma plan_objectives [simp]:
  "pk_objective (fallback_plan fresh p now trigger ctxs inputs reason objective) = objective"
  "pk_objective (translate_to_plan w fresh sol inp ctxs weights p now trigger objective cost friction marginal report) = objective"
  by (simp_all add: fallback_plan_def translate_to_plan_def Let_def)

lemma run_planner_objective:
  assumes "run_planner solver duals w reason_of ms fresh req = Some plan"
  shows "pk_objective plan = request_objective req"
proof -
  obtain inputs ctxs where req: "request_inputs req = (inputs, ctxs)" by fastforce
  show ?thesis by (rule run_planner_cases [OF req, of solver duals w reason_of ms fresh]) (use assms in auto)
qed

lemma solve_plan_objective:
  "pk_objective (solve_plan (run_planner solver duals w reason_of ms fresh) panic_text fresh' req) = request_objective req"
  by (simp add: solve_plan_def run_planner_objective split: option.split)

lemma assemble_objective [simp]: "request_objective (assemble_solve_request contexts_of p cw trigger now st) = cw_objective cw"
  by (simp add: request_objective_def assemble_solve_request_def hm_or_def Let_def split: prod.splits)

definition planned_solved :: "site_plan option \<Rightarrow> bool" where
  "planned_solved plan \<longleftrightarrow> (case plan of None \<Rightarrow> False | Some c \<Rightarrow> dispatches_from_plan (pk_objective c) \<and> plan_solved (pk_solve_status c))"

lemma adopt_outcome:
  assumes "adopt_if_warranted g plan signal ms sim now st = ((adopted, offered), st')"
  shows "offered = plan\<lparr>pk_solver_ms := Some ms\<rparr>"
    "adopted \<longleftrightarrow> evaluate_acceptance_gate g (py_active_plan st) offered (pt_trigger signal) now"
    "py_active_plan st' = (if adopted then Some offered else py_active_plan st)"
  using assms by (auto simp: adopt_if_warranted_def Let_def)

type_synonym cycle = "(plan_cycle_inputs \<Rightarrow> asset_milp_context list) \<times> planner_params \<times> cycle_world \<times> plan_trigger_signal \<times>
  sim_snapshot option \<times> instant"

definition run_cycles ::
  "(solve_request \<Rightarrow> site_plan option) \<Rightarrow> (solve_request \<Rightarrow> site_plan option) \<Rightarrow> cycle list \<Rightarrow> planning_state \<Rightarrow> planning_state" where
  "run_cycles solver forecaster cycles st =
     fold (\<lambda>(contexts_of, p, cw, signal, sim, now) st.
       snd (run_plan_cycle solver forecaster [] 0 0 contexts_of p cw signal sim now st)) cycles st"

lemma cycle_keeps_solved:
  assumes "planned_solved (py_active_plan st)" and objective: "dispatches_from_plan (cw_objective cw)"
  shows "planned_solved (py_active_plan (snd (run_plan_cycle (run_planner solver duals w reason_of ms fresh) forecaster
    panic_text fresh' solver_ms contexts_of p cw signal sim now st)))"
proof -
  let ?st = "if pt_trigger signal \<noteq> TriggerPeriodic then st\<lparr>py_anchor_until := []\<rparr> else st"
  let ?req = "assemble_solve_request contexts_of p cw (pt_trigger signal) (align_to_step now (pm_plan_step_s p)) ?st"
  let ?plan = "(plan_for (cw_objective cw) (run_planner solver duals w reason_of ms fresh) forecaster panic_text fresh' ?req)
    \<lparr>pk_created_at := now\<rparr>"
  obtain c where c: "py_active_plan st = Some c" "dispatches_from_plan (pk_objective c)" "plan_solved (pk_solve_status c)"
    using assms(1) by (auto simp: planned_solved_def split: option.splits)
  obtain adopted offered st' where out: "adopt_if_warranted (gate_of p (cw_asset_params cw)) ?plan signal solver_ms sim now ?st =
    ((adopted, offered), st')" by (metis surj_pair)
  have obj: "pk_objective ?plan = cw_objective cw" using objective by (simp add: plan_for_def solve_plan_objective)
  have active: "py_active_plan ?st = Some c" using c by simp
  have "planned_solved (py_active_plan st')"
    using adopt_outcome [OF out] c obj objective unfolding active
    by (auto simp: planned_solved_def evaluate_acceptance_gate_def Let_def split: if_splits)
  then show ?thesis by (simp only: run_plan_cycle_def Let_def out snd_conv)
qed


definition idle_state :: "site_plan option \<Rightarrow> planning_state" where
  "idle_state plan = \<lparr>py_active_plan = plan, py_anchor_until = [], py_residual = [], py_last_residual_trigger_at = None, py_trace = []\<rparr>"

definition quiet_world :: cycle_world where
  "quiet_world = \<lparr>cw_rates = [], cw_bl_override = None, cw_objective = MinCost, cw_capacity_schedule = [], cw_alert_windows = [],
     cw_simple_windows = [], cw_asset_params = [], cw_grid_max_import_kw = 10, cw_grid_max_export_kw = 10, cw_history = None\<rparr>"

lemma heated_plan_facts:
  "pk_objective heated_plan = MinCost" "pk_solve_status heated_plan = StatusOptimal" "pk_created_at heated_plan = 0"
  "plan_total heated_plan = 3" "pk_slots heated_plan = [heated_slot 0 2, heated_slot 1 2, heated_slot 2 0]"
  by (simp_all add: heated_plan_def fallback_plan_def plan_total_def Let_def)


section \<open>What an adoption costs\<close>

lemma ages:
  assumes "a \<le> b" "b \<le> c" and "of_int (num_seconds (c - a)) < (d :: real)"
  shows "of_int (num_seconds (b - a)) < d" "of_int (num_seconds (c - b)) < d"
proof -
  have "num_seconds (b - a) \<le> num_seconds (c - a)" "num_seconds (c - b) \<le> num_seconds (c - a)"
    using assms(1,2) by (intro num_seconds_mono; simp)+
  then show "of_int (num_seconds (b - a)) < d" "of_int (num_seconds (c - b)) < d" using assms(3) by linarith+
qed

lemma plan_expired_mono: "plan_expired plan a \<Longrightarrow> a \<le> b \<Longrightarrow> plan_expired plan b"
  by (force simp: plan_expired_def list_all_iff)

lemma switch_surcharge_nonneg: "0 \<le> switch_surcharge g c plan now"
  by (simp add: switch_surcharge_def)

lemma gate_price:
  assumes gate: "evaluate_acceptance_gate g (Some c) plan TriggerPeriodic now"
    and plans: "dispatches_from_plan (pk_objective c)" "dispatches_from_plan (pk_objective plan)"
      "plan_solved (pk_solve_status c)" "plan_solved (pk_solve_status plan)"
    and g: "0 < ga_threshold_eur g" "0 < ga_decay_s g" and live: "\<not> plan_expired c now"
    and age: "pk_created_at c \<le> now" "of_int (num_seconds (now - pk_created_at c)) < ga_decay_s g"
  shows "ga_threshold_eur g * (1 - of_int (num_seconds (now - pk_created_at c)) / ga_decay_s g) \<le> plan_total c - plan_total plan"
proof -
  have worth: "worth_adopting g c plan now" using gate plans g(1) live by (simp add: evaluate_acceptance_gate_def)
  have "0 \<le> num_seconds (now - pk_created_at c)" using age(1) num_seconds_mono [of 0] by (simp add: num_seconds_def trunc_div_def)
  moreover from this have "0 \<le> 1 - of_int (num_seconds (now - pk_created_at c)) / ga_decay_s g" using age(2) g(2) by simp
  ultimately show ?thesis
    using worth g(2) age(2) switch_surcharge_nonneg [of g c plan now] by (simp add: worth_adopting_def Let_def max_def)
qed

lemma price_sum:
  fixes t d :: real
  assumes "t * (1 - a / d) \<le> x - y" "t * (m - b / d) \<le> y - z" "(a + b) / d \<le> e / d" "0 < t"
  shows "t * (1 + m - e / d) \<le> x - z"
proof -
  have "1 + m - e / d \<le> (1 - a / d) + (m - b / d)" using assms(3) by (simp add: add_divide_distrib)
  then have "t * (1 + m - e / d) \<le> t * ((1 - a / d) + (m - b / d))" using assms(4) by (simp add: mult_left_mono)
  then show ?thesis using assms(1,2) by (simp add: distrib_left)
qed

text \<open>Periodic cycles, each offering a plan dated with its instant; the count is of the plans adopted.\<close>

fun periodic_cycles :: "gate_params \<Rightarrow> (site_plan \<times> instant) list \<Rightarrow> planning_state \<Rightarrow> nat \<times> planning_state" where
  "periodic_cycles g [] st = (0, st)"
| "periodic_cycles g ((plan, now) # cycles) st =
     (let ((adopted, _), st1) = adopt_if_warranted g (plan\<lparr>pk_created_at := now\<rparr>) \<lparr>pt_trigger = TriggerPeriodic, pt_event_ids = []\<rparr> 0 None now st;
          (n, st2) = periodic_cycles g cycles st1
      in (of_bool adopted + n, st2))"

definition plan_in_use :: "instant \<Rightarrow> site_plan \<Rightarrow> bool" where
  "plan_in_use until plan \<longleftrightarrow> dispatches_from_plan (pk_objective plan) \<and> plan_solved (pk_solve_status plan) \<and> \<not> plan_expired plan until"

lemma plan_in_use_dated [simp]:
  "plan_in_use until (plan\<lparr>pk_created_at := now\<rparr>) = plan_in_use until plan" "plan_in_use until (plan\<lparr>pk_solver_ms := ms\<rparr>) = plan_in_use until plan"
  by (simp_all add: plan_in_use_def plan_expired_def)

lemma plan_total_dated [simp]:
  "plan_total (plan\<lparr>pk_created_at := now\<rparr>) = plan_total plan" "plan_total (plan\<lparr>pk_solver_ms := ms\<rparr>) = plan_total plan"
  by (simp_all add: plan_total_def)

text \<open>
  C6. A replacement of the plan is paid for: as long as no plan expires and the first is younger than the decay, each
  adoption by a periodic cycle lowers the total of the plan in force by the threshold, less the share of the decay that
  has passed. Over any run of cycles with n adoptions the total falls by at least the threshold times n less that share,
  so the number of replacements is bounded by what there is to gain, whatever the solver offers.
\<close>

theorem adoptions_are_paid_for:
  assumes g: "0 < ga_threshold_eur g" "0 < ga_decay_s g"
    and "periodic_cycles g cycles st = (n, st')" "py_active_plan st = Some c" "plan_in_use until c"
      "\<forall>(plan, now) \<in> set cycles. plan_in_use until plan \<and> now \<le> until" "sorted (pk_created_at c # map snd cycles)"
      "of_int (num_seconds (until - pk_created_at c)) < ga_decay_s g"
  shows "\<exists>c'. py_active_plan st' = Some c' \<and> pk_created_at c \<le> pk_created_at c' \<and>
    ga_threshold_eur g * (of_nat n - of_int (num_seconds (pk_created_at c' - pk_created_at c)) / ga_decay_s g) \<le> plan_total c - plan_total c'"
  using assms(3-)
proof (induction cycles arbitrary: st c n)
  case Nil
  then show ?case by (simp add: num_seconds_def trunc_div_def)
next
  case (Cons cycle cycles)
  obtain plan now where cycle: "cycle = (plan, now)" by fastforce
  define offered where "offered = plan\<lparr>pk_created_at := now, pk_solver_ms := Some 0\<rparr>"
  obtain adopted p st1 where out: "adopt_if_warranted g (plan\<lparr>pk_created_at := now\<rparr>) \<lparr>pt_trigger = TriggerPeriodic, pt_event_ids = []\<rparr> 0 None
    now st = ((adopted, p), st1)" by (metis surj_pair)
  obtain m where rest: "periodic_cycles g cycles st1 = (m, st')" "n = of_bool adopted + m"
    using Cons.prems(1) by (auto simp: cycle out split: prod.splits)
  note o = adopt_outcome [OF out]
  have times: "pk_created_at c \<le> now" "now \<le> until" "sorted (now # map snd cycles)" using Cons.prems(4,5) by (auto simp: cycle)
  show ?case
  proof (cases adopted)
    case False
    then show ?thesis using Cons.IH [of st1 m c] Cons.prems rest o(3) by (simp add: cycle)
  next
    case True
    have use: "plan_in_use until offered" using Cons.prems(4) by (simp add: cycle offered_def)
    have active: "py_active_plan st1 = Some offered" using o(1,3) True by (simp add: offered_def)
    note young = ages [OF times(1,2) Cons.prems(6)]
    then obtain c' where c': "py_active_plan st' = Some c'" "now \<le> pk_created_at c'"
      "ga_threshold_eur g * (of_nat m - of_int (num_seconds (pk_created_at c' - now)) / ga_decay_s g) \<le> plan_total offered - plan_total c'"
      using Cons.IH [of st1 m offered] Cons.prems(4) active use times(3) rest(1) by (auto simp: offered_def)
    have "evaluate_acceptance_gate g (Some c) offered TriggerPeriodic now" using o(1,2) True Cons.prems(2) by (simp add: offered_def)
    moreover have "\<not> plan_expired c now" using Cons.prems(3) times(2) plan_expired_mono by (auto simp: plan_in_use_def)
    ultimately have price: "ga_threshold_eur g * (1 - of_int (num_seconds (now - pk_created_at c)) / ga_decay_s g) \<le> plan_total c - plan_total offered"
      using gate_price [of g c offered now] use Cons.prems(3) g times(1) young(1) by (simp add: plan_in_use_def)
    have "num_seconds (now - pk_created_at c) + num_seconds (pk_created_at c' - now) \<le> num_seconds (pk_created_at c' - pk_created_at c)"
      using num_seconds_superadd [of "now - pk_created_at c" "pk_created_at c' - now"] times(1) c'(2) by simp
    then have "(real_of_int (num_seconds (now - pk_created_at c)) + of_int (num_seconds (pk_created_at c' - now))) / ga_decay_s g
      \<le> of_int (num_seconds (pk_created_at c' - pk_created_at c)) / ga_decay_s g" using g(2) by (intro divide_right_mono) linarith+
    note spent = price_sum [OF price c'(3) this g(1)]
    have "pk_created_at c \<le> pk_created_at c'" using times(1) c'(2) by simp
    then show ?thesis using c'(1) spent True rest(2) by auto
  qed
qed

lemma adoptions_are_paid_for_witness:
  "let st' = snd (periodic_cycles \<lparr>ga_threshold_eur = 1, ga_decay_s = 1500, ga_switch_penalty_eur = 0, ga_stage_sizes_kw = []\<rparr>
     [(heated_plan\<lparr>pk_objective_eur := 1\<rparr>, seconds 300)] (idle_state (Some heated_plan)))
   in \<exists>c'. py_active_plan st' = Some c' \<and> 1 - of_int (num_seconds (pk_created_at c')) / 1500 \<le> (3 :: f64) - plan_total c'"
proof -
  let ?g = "\<lparr>ga_threshold_eur = 1, ga_decay_s = 1500, ga_switch_penalty_eur = 0, ga_stage_sizes_kw = []\<rparr>"
  let ?cycles = "[(heated_plan\<lparr>pk_objective_eur := 1\<rparr>, seconds 300)]"
  have use: "plan_in_use (seconds 600) (heated_plan\<lparr>pk_objective_eur := x\<rparr>)" "plan_in_use (seconds 600) heated_plan" for x
    by (simp_all add: plan_in_use_def plan_expired_def heated_plan_facts dispatches_from_plan_def plan_solved_def heated_slot_def seconds_def)
  have "evaluate_acceptance_gate ?g (Some heated_plan) (heated_plan\<lparr>pk_objective_eur := 1, pk_created_at := seconds 300, pk_solver_ms := Some 0\<rparr>)
    TriggerPeriodic (seconds 300)"
    by (simp add: evaluate_acceptance_gate_def worth_adopting_def heated_plan_facts switch_surcharge_def plan_total_def Let_def)
      (simp add: heated_plan_def fallback_plan_def Let_def)
  then obtain st' where run: "periodic_cycles ?g ?cycles (idle_state (Some heated_plan)) = (1, st')"
    by (simp add: adopt_if_warranted_def idle_state_def Let_def)
  have "\<exists>c'. py_active_plan st' = Some c' \<and> pk_created_at heated_plan \<le> pk_created_at c' \<and>
    ga_threshold_eur ?g * (of_nat 1 - of_int (num_seconds (pk_created_at c' - pk_created_at heated_plan)) / ga_decay_s ?g) \<le>
      plan_total heated_plan - plan_total c'"
    by (rule adoptions_are_paid_for [OF _ _ run, of heated_plan "seconds 600"])
      (simp_all add: use heated_plan_facts idle_state_def, simp_all add: seconds_def)
  then show ?thesis unfolding run Let_def snd_conv by (auto simp: heated_plan_facts)
qed

section \<open>Escalations\<close>

text \<open>What happens to the tracker: a tick's shares at an instant, or an adoption with the capacities it found.\<close>

datatype residual_step = SharesAbsorbed "f64 hmap" instant | CapacitiesTaken "f64 hmap"

fun residual_steps :: "residual_step list \<Rightarrow> planning_state \<Rightarrow> instant list \<times> planning_state" where
  "residual_steps [] st = ([], st)"
| "residual_steps (SharesAbsorbed shares now # steps) st =
     (let (asked, st1) = apply_residual_escalation shares now st; (rest, st2) = residual_steps steps st1
      in (if asked then now # rest else rest, st2))"
| "residual_steps (CapacitiesTaken kwh # steps) st = residual_steps steps (st\<lparr>py_residual := reset_residual kwh (py_residual st)\<rparr>)"

definition residual_breach :: "planning_state \<Rightarrow> bool" where
  "residual_breach st \<longleftrightarrow> list_ex (\<lambda>(i, r). residual_threshold_fraction \<le> breach_fraction r) (py_residual st)"

definition cooling :: "planning_state \<Rightarrow> instant \<Rightarrow> bool" where
  "cooling st now \<longleftrightarrow> (\<exists>t. py_last_residual_trigger_at st = Some t \<and> num_seconds (now - t) < residual_cooldown_s)"

lemma escalation_cases:
  assumes "apply_residual_escalation shares now st = (asked, st')"
  shows "asked \<Longrightarrow> \<not> cooling st now \<and> residual_breach st' \<and> py_last_residual_trigger_at st' = Some now"
    "\<not> asked \<Longrightarrow> py_last_residual_trigger_at st' = py_last_residual_trigger_at st"
    "shares \<noteq> [] \<Longrightarrow> residual_breach st' \<Longrightarrow> cooling st' now"
  using assms
  by (auto simp: apply_residual_escalation_def cooling_def residual_breach_def residual_cooldown_s_def num_seconds_def trunc_div_def Let_def
      split: if_splits option.splits)

lemma cooldown_trans:
  assumes "residual_cooldown_s \<le> num_seconds (b - a)" "residual_cooldown_s \<le> num_seconds (c - b)"
  shows "residual_cooldown_s \<le> num_seconds (c - a)"
proof -
  have "0 \<le> d" if "residual_cooldown_s \<le> num_seconds d" for d
    using that by (cases "0 \<le> d") (auto simp: residual_cooldown_s_def num_seconds_def trunc_div_def mult_neg_pos)
  from this [OF assms(1)] this [OF assms(2)] show ?thesis
    using num_seconds_superadd [of "b - a" "c - b"] assms by (simp add: residual_cooldown_s_def)
qed

lemma residual_steps_append:
  "snd (residual_steps (steps @ more_steps) st) = snd (residual_steps more_steps (snd (residual_steps steps st)))"
proof (induction steps st rule: residual_steps.induct)
  case (2 shares now steps st)
  obtain asked st1 where esc: "apply_residual_escalation shares now st = (asked, st1)" by fastforce
  show ?case using "2.IH" [OF esc [symmetric] refl] by (simp add: esc split_beta)
qed simp_all

abbreviation spaced :: "instant \<Rightarrow> instant \<Rightarrow> bool" where
  "spaced t u \<equiv> residual_cooldown_s \<le> num_seconds (u - t)"

lemma triggers_spaced:
  "sorted_wrt spaced (fst (residual_steps steps st)) \<and>
   (\<forall>u \<in> set (fst (residual_steps steps st)). \<forall>t. py_last_residual_trigger_at st = Some t \<longrightarrow> spaced t u)"
proof (induction steps st rule: residual_steps.induct)
  case (2 shares now steps st)
  obtain asked st1 where esc: "apply_residual_escalation shares now st = (asked, st1)" by fastforce
  obtain rest st2 where rest: "residual_steps steps st1 = (rest, st2)" by fastforce
  note IH = "2.IH" [OF esc [symmetric] refl, unfolded rest fst_conv]
  show ?case
  proof (cases asked)
    case True
    with escalation_cases(1) [OF esc] have "\<not> cooling st now" "py_last_residual_trigger_at st1 = Some now" by simp_all
    then have later_ones: "\<forall>u \<in> set rest. spaced now u" "\<And>t. py_last_residual_trigger_at st = Some t \<Longrightarrow> spaced t now"
      using IH by (auto simp: cooling_def not_less)
    then show ?thesis using IH True cooldown_trans by (auto simp: esc rest)
  next
    case False
    then show ?thesis using IH escalation_cases(2) [OF esc False] by (simp add: esc rest)
  qed
qed simp_all



end
