(* ===== verification/Spec2Isabelle.thy ===== *)
theory Spec2Isabelle
  imports Time_Series Vtn_Auth Fleet_Channel User_Requests Arbiter_Safety Battery Shiftable_Load Heater
    Ev_Charger Comfort_Curve Event_Poll Request_Invariant Battery_Milp Shiftable_Milp Heater_Milp Ev_Milp Milp_Solve Planner_Inputs Plan_Result Planning_Cycle
begin

text \<open>
  Verification development for the OpenADR lab (Rust): the shared rules of \<open>lab-core\<close> and the
  home energy agent \<open>VEN\<close>.
\<close>

end
